(* ===== verification/Prelude.thy ===== *)
theory Prelude
imports
  Main
  "HOL-Library.Word"
  "HOL-Library.Product_Lexorder"
  "HOL-Library.List_Lexorder"
  "HOL-Library.Char_ord"
begin

text \<open>
  Shared vocabulary of the development: Rust's machine integers as words, byte strings with the
  parts of \<^verbatim>\<open>str\<close> the sources use (prefixes, trimming of Unicode white space, decimal printing
  and parsing), hash maps together with the order in which they are iterated, and results with
  errors as values.

  A Rust \<^verbatim>\<open>String\<close> is its UTF-8 byte sequence, a HOL \<^typ>\<open>string\<close>; \<^verbatim>\<open>len()\<close> is the number of
  bytes on both sides.
\<close>

section \<open>Collections of facts\<close>

named_theorems outcome_defs \<open>definitions of the steps that unfold to case distinctions\<close>

section \<open>Machine integers\<close>

type_synonym u8 = "8 word"
type_synonym u32 = "32 word"
type_synonym u64 = "64 word"

text \<open>\<^verbatim>\<open>saturating_add\<close>: the sum, or the largest value when it does not fit.\<close>

definition sat_add :: "'w::len word \<Rightarrow> 'w word \<Rightarrow> 'w word" where
  "sat_add a b = (if unat a + unat b < 2 ^ LENGTH('w) then a + b else - 1)"

lemma unat_sat_add: "unat (sat_add a b) = min (unat a + unat b) (2 ^ LENGTH('w) - 1)"
  for a b :: "'w::len word"
proof (cases "unat a + unat b < 2 ^ LENGTH('w)")
  case True
  then show ?thesis by (simp add: sat_add_def unat_word_ariths)
next
  case False
  then show ?thesis
    by (auto simp: sat_add_def unsigned_minus_1_eq_mask mask_eq_exp_minus_1 min_def)
qed

text \<open>How it is computed, without leaving the width.\<close>

lemma sat_add_code [code]: "sat_add a b = (let s = a + b in if s < a then - 1 else s)"
  for a b :: "'w::len word"
proof -
  define x y n where "x = unat a" and "y = unat b" and "n = (2 :: nat) ^ LENGTH('w)"
  have le: "x < n" "y < n" by (simp_all add: x_def y_def n_def)
  have "unat (a + b) = (x + y) mod n" by (simp add: unat_word_ariths x_def y_def n_def)
  moreover have "(x + y) mod n < x \<longleftrightarrow> \<not> x + y < n"
  proof (cases "x + y < n")
    case False
    with le have "(x + y) mod n = x + y - n" by (simp add: le_mod_geq)
    with False le show ?thesis by linarith
  qed simp
  ultimately have "a + b < a \<longleftrightarrow> \<not> unat a + unat b < 2 ^ LENGTH('w)"
    by (simp add: word_less_nat_alt x_def y_def n_def)
  then show ?thesis by (simp add: sat_add_def Let_def)
qed

text \<open>\<^verbatim>\<open>saturating_sub\<close> and \<^verbatim>\<open>saturating_mul\<close>.\<close>

definition sat_sub :: "'w::len word \<Rightarrow> 'w word \<Rightarrow> 'w word" where
  "sat_sub a b = (if b \<le> a then a - b else 0)"

definition sat_mul :: "'w::len word \<Rightarrow> 'w word \<Rightarrow> 'w word" where
  "sat_mul a b = (if unat a * unat b < 2 ^ LENGTH('w) then a * b else - 1)"

lemma unat_sat_sub: "unat (sat_sub a b) = unat a - unat b"
  by (auto simp: sat_sub_def unat_sub word_le_nat_alt)

lemma unat_sat_mul: "unat (sat_mul a b) = min (unat a * unat b) (2 ^ LENGTH('w) - 1)"
  for a b :: "'w::len word"
proof (cases "unat a * unat b < 2 ^ LENGTH('w)")
  case True
  then show ?thesis by (simp add: sat_mul_def unat_word_ariths)
next
  case False
  then have "min (unat a * unat b) (2 ^ LENGTH('w) - 1) = 2 ^ LENGTH('w) - 1" by linarith
  with False show ?thesis
    by (simp add: sat_mul_def unsigned_minus_1_eq_mask mask_eq_exp_minus_1)
qed

lemma sat_add_one_le: "a < b \<Longrightarrow> sat_add a 1 \<le> b"
  for a b :: "'w::len word"
  by (simp add: word_le_nat_alt word_less_nat_alt unat_sat_add min_le_iff_disj)

lemma less_plus_one: "a \<noteq> - 1 \<Longrightarrow> a < a + 1"
  for a :: "'w::len word"
  by (meson inc_less_eq_triv_imp linorder_not_less)

section \<open>Byte strings\<close>

definition starts_with :: "string \<Rightarrow> string \<Rightarrow> bool" where
  "starts_with s p = (take (length p) s = p)"

definition ends_with :: "string \<Rightarrow> string \<Rightarrow> bool" where
  "ends_with s p = (length p \<le> length s \<and> drop (length s - length p) s = p)"

lemma starts_with_length: "starts_with s p \<Longrightarrow> length p \<le> length s"
  unfolding starts_with_def by (metis length_take min.bounded_iff order_refl)

lemma starts_with_append [simp]: "starts_with (p @ s) p"
  by (simp add: starts_with_def)

text \<open>\<^verbatim>\<open>str::strip_prefix\<close>.\<close>

definition strip_prefix :: "string \<Rightarrow> string \<Rightarrow> string option" where
  "strip_prefix s p = (if starts_with s p then Some (drop (length p) s) else None)"

lemma strip_prefix_append [simp]: "strip_prefix (p @ s) p = Some s"
  by (simp add: strip_prefix_def starts_with_def)

lemma strip_prefix_Some_iff: "strip_prefix s p = Some r \<longleftrightarrow> s = p @ r"
  by (auto simp: strip_prefix_def starts_with_def) (metis append_take_drop_id)

text \<open>
  The UTF-8 encodings of the code points with the Unicode property \<^verbatim>\<open>White_Space\<close>, which are what
  \<^verbatim>\<open>str::trim\<close> removes. On UTF-8 text a byte sequence of this list that occurs at the front or at
  the back is a whole character.
\<close>

definition white_space :: "string list" where
  "white_space =
     [[CHR 0x09], [CHR 0x0A], [CHR 0x0B], [CHR 0x0C], [CHR 0x0D], [CHR 0x20],
      [CHR 0xC2, CHR 0x85], [CHR 0xC2, CHR 0xA0], [CHR 0xE1, CHR 0x9A, CHR 0x80],
      [CHR 0xE2, CHR 0x80, CHR 0x80], [CHR 0xE2, CHR 0x80, CHR 0x81],
      [CHR 0xE2, CHR 0x80, CHR 0x82], [CHR 0xE2, CHR 0x80, CHR 0x83],
      [CHR 0xE2, CHR 0x80, CHR 0x84], [CHR 0xE2, CHR 0x80, CHR 0x85],
      [CHR 0xE2, CHR 0x80, CHR 0x86], [CHR 0xE2, CHR 0x80, CHR 0x87],
      [CHR 0xE2, CHR 0x80, CHR 0x88], [CHR 0xE2, CHR 0x80, CHR 0x89],
      [CHR 0xE2, CHR 0x80, CHR 0x8A], [CHR 0xE2, CHR 0x80, CHR 0xA8],
      [CHR 0xE2, CHR 0x80, CHR 0xA9], [CHR 0xE2, CHR 0x80, CHR 0xAF],
      [CHR 0xE2, CHR 0x81, CHR 0x9F], [CHR 0xE3, CHR 0x80, CHR 0x80]]"

lemma white_space_nonempty: "w \<in> set white_space \<Longrightarrow> w \<noteq> []"
  by (auto simp: white_space_def)

lemma find_white_space_nonempty: "find P white_space = Some w \<Longrightarrow> w \<noteq> []"
  using white_space_nonempty by (auto simp: find_Some_iff)

function trim_start :: "string \<Rightarrow> string" where
  "trim_start s = (case find (starts_with s) white_space of
     None \<Rightarrow> s
   | Some w \<Rightarrow> if s = [] then [] else trim_start (drop (length w) s))"
  by pat_completeness auto
termination
  by (relation "measure length")
    (auto dest!: find_white_space_nonempty)

function trim_end :: "string \<Rightarrow> string" where
  "trim_end s = (case find (ends_with s) white_space of
     None \<Rightarrow> s
   | Some w \<Rightarrow> if s = [] then [] else trim_end (take (length s - length w) s))"
  by pat_completeness auto
termination
  by (relation "measure length")
    (auto dest!: find_white_space_nonempty)

declare trim_start.simps [simp del] trim_end.simps [simp del]

definition trim :: "string \<Rightarrow> string" where
  "trim s = trim_end (trim_start s)"

text \<open>\<^verbatim>\<open>value.trim().is_empty()\<close>.\<close>

definition is_blank :: "string \<Rightarrow> bool" where
  "is_blank s = (trim s = [])"

text \<open>\<^verbatim>\<open>char::is_ascii_whitespace\<close>: space, tab, line feed, form feed, carriage return.\<close>

definition is_ascii_whitespace :: "char \<Rightarrow> bool" where
  "is_ascii_whitespace c =
     (c \<in> {CHR 0x20, CHR 0x09, CHR 0x0A, CHR 0x0C, CHR 0x0D})"

definition is_ascii_digit :: "char \<Rightarrow> bool" where
  "is_ascii_digit c = (CHR ''0'' \<le> c \<and> c \<le> CHR ''9'')"

definition is_ascii_alphanumeric :: "char \<Rightarrow> bool" where
  "is_ascii_alphanumeric c =
     (let b = (of_char c :: nat) in b \<in> {48..57} \<or> b \<in> {97..122} \<or> b \<in> {65..90})"

text \<open>A message argument in single quotes, as in \<^verbatim>\<open>format!("dispatch '{}'", id)\<close>.\<close>

definition quoted :: "string \<Rightarrow> string" where
  "quoted s = [CHR 0x27] @ s @ [CHR 0x27]"

subsection \<open>Decimal numbers\<close>

definition digit :: "nat \<Rightarrow> char" where
  "digit n = char_of (48 + n)"

definition digit_value :: "char \<Rightarrow> nat" where
  "digit_value c = of_char c - 48"

text \<open>\<^verbatim>\<open>Display\<close> of an unsigned integer.\<close>

fun show_nat :: "nat \<Rightarrow> string" where
  "show_nat n = (if n < 10 then [digit n] else show_nat (n div 10) @ [digit (n mod 10)])"

declare show_nat.simps [simp del]

definition read_nat :: "string \<Rightarrow> nat" where
  "read_nat s = foldl (\<lambda>n c. 10 * n + digit_value c) 0 s"

lemma digit_value_digit [simp]: "n < 10 \<Longrightarrow> digit_value (digit n) = n"
  by (simp add: digit_value_def digit_def)

lemma is_ascii_digit_digit [simp]: "n < 10 \<Longrightarrow> is_ascii_digit (digit n)"
  by (simp add: is_ascii_digit_def digit_def less_eq_char_def)

lemma show_nat_nonempty [simp]: "show_nat n \<noteq> []"
  by (subst show_nat.simps) simp

lemma show_nat_digits: "c \<in> set (show_nat n) \<Longrightarrow> is_ascii_digit c"
  by (induction n rule: show_nat.induct) (subst (asm) show_nat.simps, auto split: if_splits)

lemma read_show_nat [simp]: "read_nat (show_nat n) = n"
proof (induction n rule: show_nat.induct)
  case (1 n)
  then show ?case
    by (subst show_nat.simps) (auto simp: read_nat_def)
qed

lemma show_nat_inject [simp]: "show_nat m = show_nat n \<longleftrightarrow> m = n"
  by (metis read_show_nat)

section \<open>Hash maps\<close>

text \<open>
  A \<^verbatim>\<open>HashMap\<close> is a map; the order in which its iterators yield the entries is not determined by
  its contents. Operations that iterate take that order as an argument, a list of the keys, and
  what is proved holds for every order.
\<close>

definition hash_order :: "'k list \<Rightarrow> ('k \<rightharpoonup> 'v) \<Rightarrow> bool" where
  "hash_order ord m \<longleftrightarrow> distinct ord \<and> set ord = dom m"

definition hm_values :: "'k list \<Rightarrow> ('k \<rightharpoonup> 'v) \<Rightarrow> 'v list" where
  "hm_values ord m = List.map_filter m ord"

lemma hm_values_simps [simp]:
  "hm_values [] m = []"
  "hm_values (k # ks) m = (case m k of None \<Rightarrow> hm_values ks m | Some v \<Rightarrow> v # hm_values ks m)"
  by (simp_all add: hm_values_def map_filter_simps split: option.splits)

lemma set_hm_values: "set (hm_values ord m) = {v. \<exists>k \<in> set ord. m k = Some v}"
  by (induction ord) (auto split: option.splits)

lemma hm_values_upd [simp]: "k \<notin> set ks \<Longrightarrow> hm_values ks (m(k \<mapsto> v)) = hm_values ks m"
  by (induction ks) (auto split: option.splits)

lemma hash_order_values: "hash_order ord m \<Longrightarrow> set (hm_values ord m) = ran m"
  by (auto simp: set_hm_values hash_order_def ran_def dom_def)

lemma hash_orderD: "hash_order ord m \<Longrightarrow> m k = Some v \<Longrightarrow> k \<in> set ord"
  by (auto simp: hash_order_def)

text \<open>\<^verbatim>\<open>retain\<close>: keep the entries that satisfy the predicate.\<close>

definition hm_retain :: "('k \<Rightarrow> 'v \<Rightarrow> bool) \<Rightarrow> ('k \<rightharpoonup> 'v) \<Rightarrow> ('k \<rightharpoonup> 'v)" where
  "hm_retain P m = (\<lambda>k. case m k of None \<Rightarrow> None | Some v \<Rightarrow> if P k v then Some v else None)"

lemma hm_retain_Some [simp]: "hm_retain P m k = Some v \<longleftrightarrow> m k = Some v \<and> P k v"
  by (auto simp: hm_retain_def split: option.splits)

lemma hm_retain_None: "hm_retain P m k = None \<longleftrightarrow> (\<forall>v. m k = Some v \<longrightarrow> \<not> P k v)"
  by (auto simp: hm_retain_def split: option.splits)

section \<open>Results\<close>

lemma sum_unit_cases: "(r :: 'e + unit) = Inr () \<or> (\<exists>e. r = Inl e)"
  by (cases r) auto

lemma Inr_unit_iff: "(\<forall>e. r \<noteq> Inl e) \<longleftrightarrow> (r :: 'e + unit) = Inr ()"
  using sum_unit_cases [of r] by auto

end
