(* ===== verification/Lifecycle.thy ===== *)
theory Lifecycle
imports Prelude
begin

text \<open>
  Lifecycle states of runs and tool calls: the enumerations and their transition tables
  (\<^verbatim>\<open>lifecycle.rs\<close>, \<^verbatim>\<open>suspension.rs\<close> of the runtime contract), the reducers of the state keys
  \<^verbatim>\<open>RunLifecycle\<close> and \<^verbatim>\<open>ToolCallStates\<close> (\<^verbatim>\<open>agent/state\<close> of the runtime), and the interface the two
  reducers share: a status that only moves along permitted transitions and never leaves a
  terminal one.
\<close>

section \<open>Termination reasons and run status\<close>

record stopped_reason =
  sr_code :: string
  sr_detail :: "string option"

definition stopped_reason_new :: "string \<Rightarrow> stopped_reason" where
  "stopped_reason_new code = \<lparr>sr_code = code, sr_detail = None\<rparr>"

definition stopped_reason_with_detail :: "string \<Rightarrow> string \<Rightarrow> stopped_reason" where
  "stopped_reason_with_detail code detail = \<lparr>sr_code = code, sr_detail = Some detail\<rparr>"

datatype termination_reason =
    NaturalEnd
  | BehaviorRequested
  | Stopped stopped_reason
  | RunCancelled
  | Blocked string
  | RunSuspended
  | RunError string

datatype run_status = Created | Running | Waiting | Done

definition run_status_is_terminal :: "run_status \<Rightarrow> bool" where
  "run_status_is_terminal s = (s = Done)"

definition run_status_can_transition_to :: "run_status \<Rightarrow> run_status \<Rightarrow> bool" where
  "run_status_can_transition_to s next_status =
     (if s = next_status then True
      else case s of
          Created \<Rightarrow> next_status \<in> {Running, Done}
        | Running \<Rightarrow> next_status \<in> {Waiting, Done}
        | Waiting \<Rightarrow> next_status \<in> {Running, Done}
        | Done \<Rightarrow> False)"

text \<open>\<^verbatim>\<open>str::trim_start_matches\<close> with a string pattern: the pattern is removed repeatedly.\<close>

function trim_start_matches :: "string \<Rightarrow> string \<Rightarrow> string" where
  "trim_start_matches p s =
     (if p \<noteq> [] \<and> starts_with s p then trim_start_matches p (drop (length p) s) else s)"
  by pat_completeness auto
termination
  by (relation "measure (\<lambda>(p, s). length s)")
    (auto dest!: starts_with_length intro!: diff_less simp flip: length_greater_0_conv)

declare trim_start_matches.simps [simp del]

definition to_run_status :: "termination_reason \<Rightarrow> run_status \<times> string option" where
  "to_run_status r = (case r of
      RunSuspended \<Rightarrow> (Waiting, None)
    | NaturalEnd \<Rightarrow> (Done, Some ''natural'')
    | BehaviorRequested \<Rightarrow> (Done, Some ''behavior_requested'')
    | RunCancelled \<Rightarrow> (Done, Some ''cancelled'')
    | Blocked reason \<Rightarrow> (Done, Some (''blocked:'' @ reason))
    | RunError _ \<Rightarrow> (Done, Some ''error'')
    | Stopped stopped \<Rightarrow> (Done, Some (''stopped:'' @ sr_code stopped)))"

definition from_done_reason :: "string \<Rightarrow> termination_reason" where
  "from_done_reason s =
     (if s = ''natural'' then NaturalEnd
      else if s = ''behavior_requested'' then BehaviorRequested
      else if s = ''cancelled'' then RunCancelled
      else if starts_with s ''blocked:'' then Blocked (trim_start_matches ''blocked:'' s)
      else if starts_with s ''stopped:'' then
        Stopped (stopped_reason_new (trim_start_matches ''stopped:'' s))
      else if starts_with s ''error:'' then RunError (trim_start_matches ''error:'' s)
      else RunError s)"

section \<open>Tool call status\<close>

datatype tool_call_status =
  TcNew | TcRunning | TcSuspended | TcResuming | TcSucceeded | TcFailed | TcCancelled

definition tool_call_is_terminal :: "tool_call_status \<Rightarrow> bool" where
  "tool_call_is_terminal s = (s \<in> {TcSucceeded, TcFailed, TcCancelled})"

definition tool_call_can_transition_to :: "tool_call_status \<Rightarrow> tool_call_status \<Rightarrow> bool" where
  "tool_call_can_transition_to s next_status =
     (if s = next_status then True
      else case s of
          TcNew \<Rightarrow> True
        | TcRunning \<Rightarrow> next_status \<in> {TcSuspended, TcSucceeded, TcFailed, TcCancelled}
        | TcSuspended \<Rightarrow> next_status \<in> {TcResuming, TcCancelled}
        | TcResuming \<Rightarrow>
            next_status \<in> {TcRunning, TcSuspended, TcSucceeded, TcFailed, TcCancelled}
        | TcSucceeded \<Rightarrow> False
        | TcFailed \<Rightarrow> False
        | TcCancelled \<Rightarrow> False)"

section \<open>The interface: guarded status updates\<close>

text \<open>
  Both reducers look up the current status, skip the update when the table does not permit the
  transition to the update's target, and otherwise leave the status alone or move it to the
  target (\<^verbatim>\<open>StepCompleted\<close> is the update that is guarded by a target it does not move to). From
  these laws alone, a run of updates only follows permitted transitions and a terminal status is
  final.
\<close>

locale guarded_status =
  fixes is_terminal :: "'st \<Rightarrow> bool"
    and can_transition :: "'st \<Rightarrow> 'st \<Rightarrow> bool"
    and status_of :: "'v \<Rightarrow> 'st"
    and target_of :: "'u \<Rightarrow> 'st"
    and apply_update :: "'v \<Rightarrow> 'u \<Rightarrow> 'v"
  assumes refl: "can_transition s s"
    and terminal_final: "is_terminal s \<Longrightarrow> can_transition s t \<Longrightarrow> t = s"
    and update_taken: "can_transition (status_of v) (target_of u) \<Longrightarrow>
          status_of (apply_update v u) \<in> {status_of v, target_of u}"
    and update_skipped: "\<not> can_transition (status_of v) (target_of u) \<Longrightarrow>
          apply_update v u = v"
begin

lemma update_permitted: "can_transition (status_of v) (status_of (apply_update v u))"
proof (cases "can_transition (status_of v) (target_of u)")
  case True
  then show ?thesis using update_taken [OF True] refl by auto
next
  case False
  then show ?thesis by (simp add: update_skipped refl)
qed

lemma terminal_status_kept:
  "is_terminal (status_of v) \<Longrightarrow> status_of (apply_update v u) = status_of v"
  using update_permitted terminal_final by blast

lemma terminal_status_kept_run:
  "is_terminal (status_of v) \<Longrightarrow> status_of (foldl apply_update v us) = status_of v"
  by (induction us arbitrary: v) (simp_all add: terminal_status_kept)

lemma run_permitted:
  "can_transition\<^sup>*\<^sup>* (status_of v) (status_of (foldl apply_update v us))"
proof (induction us arbitrary: v)
  case Nil
  then show ?case by simp
next
  case (Cons u us)
  have "can_transition\<^sup>*\<^sup>* (status_of (apply_update v u))
      (status_of (foldl apply_update v (u # us)))"
    using Cons.IH [of "apply_update v u"] by simp
  with update_permitted [of v u] show ?case
    by (rule converse_rtranclp_into_rtranclp)
qed

end

section \<open>The run lifecycle state key\<close>

record run_lifecycle_state =
  rl_run_id :: string
  rl_status :: run_status
  rl_status_reason :: "string option"
  rl_updated_at :: u64
  rl_step_count :: u32

definition run_lifecycle_default :: run_lifecycle_state where
  "run_lifecycle_default =
     \<lparr>rl_run_id = [], rl_status = Running, rl_status_reason = None, rl_updated_at = 0,
      rl_step_count = 0\<rparr>"

datatype run_lifecycle_update =
    Start string u64
  | StepCompleted u64
  | SetWaiting u64 string
  | SetRunning u64
  | SetDone string u64

fun target_status :: "run_lifecycle_update \<Rightarrow> run_status" where
  "target_status (Start _ _) = Running"
| "target_status (StepCompleted _) = Running"
| "target_status (SetRunning _) = Running"
| "target_status (SetWaiting _ _) = Waiting"
| "target_status (SetDone _ _) = Done"

fun run_lifecycle_write :: "run_lifecycle_state \<Rightarrow> run_lifecycle_update \<Rightarrow> run_lifecycle_state" where
  "run_lifecycle_write v (Start rid t) =
     v\<lparr>rl_run_id := rid, rl_status := Running, rl_status_reason := None, rl_updated_at := t,
       rl_step_count := 0\<rparr>"
| "run_lifecycle_write v (StepCompleted t) =
     v\<lparr>rl_step_count := rl_step_count v + 1, rl_updated_at := t\<rparr>"
| "run_lifecycle_write v (SetWaiting t reason) =
     v\<lparr>rl_status := Waiting, rl_status_reason := Some reason, rl_updated_at := t\<rparr>"
| "run_lifecycle_write v (SetRunning t) =
     v\<lparr>rl_status := Running, rl_status_reason := None, rl_updated_at := t\<rparr>"
| "run_lifecycle_write v (SetDone reason t) =
     v\<lparr>rl_status := Done, rl_status_reason := Some reason, rl_updated_at := t\<rparr>"

definition run_lifecycle_apply ::
    "run_lifecycle_state \<Rightarrow> run_lifecycle_update \<Rightarrow> run_lifecycle_state" where
  "run_lifecycle_apply v u =
     (if \<not> run_status_can_transition_to (rl_status v) (target_status u) then v
      else run_lifecycle_write v u)"


section \<open>The tool call state key\<close>

text \<open>
  The state of one tool call and the keyed collection of them. JSON values (\<^verbatim>\<open>arguments\<close> and the
  payload of a resume decision) are not inspected by the reducer: their type is a parameter.
\<close>

datatype tool_call_resume_mode = ReplayToolCall | UseDecisionAsToolResult | PassDecisionToTool

datatype resume_decision_action = Resume | CancelDecision

record 'json tool_call_resume =
  tr_decision_id :: string
  tr_action :: resume_decision_action
  tr_result :: 'json
  tr_reason :: "string option"
  tr_updated_at :: u64

record 'json tool_call_state =
  tc_call_id :: string
  tc_tool_name :: string
  tc_arguments :: 'json
  tc_status :: tool_call_status
  tc_updated_at :: u64
  tc_resume_mode :: tool_call_resume_mode
  tc_suspension_id :: "string option"
  tc_suspension_reason :: "string option"
  tc_resume_input :: "'json tool_call_resume option"

definition normalize_optional_string :: "string option \<Rightarrow> string option" where
  "normalize_optional_string v =
     Option.bind v (\<lambda>s. let trimmed = trim s in if trimmed \<noteq> [] then Some trimmed else None)"

definition tool_call_state_new ::
    "string \<Rightarrow> string \<Rightarrow> 'json \<Rightarrow> tool_call_status \<Rightarrow> u64 \<Rightarrow> 'json tool_call_state" where
  "tool_call_state_new cid tool args st t =
     \<lparr>tc_call_id = cid, tc_tool_name = tool, tc_arguments = args, tc_status = st,
      tc_updated_at = t, tc_resume_mode = ReplayToolCall, tc_suspension_id = None,
      tc_suspension_reason = None, tc_resume_input = None\<rparr>"

definition tool_call_with_suspension ::
    "string option \<Rightarrow> string option \<Rightarrow> 'json tool_call_state \<Rightarrow> 'json tool_call_state" where
  "tool_call_with_suspension sid reason s =
     s\<lparr>tc_suspension_id := normalize_optional_string sid,
       tc_suspension_reason := normalize_optional_string reason\<rparr>"

datatype 'json tool_call_states_update = Put "'json tool_call_state" | Clear

definition tool_call_current_status ::
    "(string \<rightharpoonup> 'json tool_call_state) \<Rightarrow> string \<Rightarrow> tool_call_status" where
  "tool_call_current_status calls cid =
     (case calls cid of None \<Rightarrow> TcNew | Some s \<Rightarrow> tc_status s)"

fun tool_call_states_apply ::
    "(string \<rightharpoonup> 'json tool_call_state) \<Rightarrow> 'json tool_call_states_update \<Rightarrow>
     (string \<rightharpoonup> 'json tool_call_state)" where
  "tool_call_states_apply calls (Put s) =
     (if \<not> tool_call_can_transition_to (tool_call_current_status calls (tc_call_id s)) (tc_status s)
      then calls
      else calls(tc_call_id s \<mapsto>
        s\<lparr>tc_suspension_id := normalize_optional_string (tc_suspension_id s),
          tc_suspension_reason := normalize_optional_string (tc_suspension_reason s)\<rparr>))"
| "tool_call_states_apply calls Clear = Map.empty"

text \<open>The lifecycle of one call, seen through the collection: the \<^const>\<open>Put\<close>s of that call.\<close>

definition tool_call_put :: "(string \<rightharpoonup> 'json tool_call_state) \<Rightarrow> 'json tool_call_state \<Rightarrow>
     (string \<rightharpoonup> 'json tool_call_state)" where
  "tool_call_put calls s = tool_call_states_apply calls (Put s)"

section \<open>Both reducers provide the interface\<close>

interpretation run_lifecycle: guarded_status
  run_status_is_terminal run_status_can_transition_to rl_status target_status run_lifecycle_apply
proof
  fix v :: run_lifecycle_state and u
  assume "run_status_can_transition_to (rl_status v) (target_status u)"
  then show "rl_status (run_lifecycle_apply v u) \<in> {rl_status v, target_status u}"
    by (cases u) (simp_all add: run_lifecycle_apply_def)
qed (auto simp: run_status_can_transition_to_def run_status_is_terminal_def
       run_lifecycle_apply_def split: if_splits)

text \<open>
  For tool calls the value is the collection seen at one call id; an update is a put of a state,
  which concerns that id or another.
\<close>

definition tool_call_status_at :: "string \<Rightarrow> (string \<rightharpoonup> 'json tool_call_state) \<Rightarrow> tool_call_status" where
  "tool_call_status_at cid calls = tool_call_current_status calls cid"

definition tool_call_put_at :: "string \<Rightarrow> (string \<rightharpoonup> 'json tool_call_state) \<Rightarrow>
     'json tool_call_state \<Rightarrow> (string \<rightharpoonup> 'json tool_call_state)" where
  "tool_call_put_at cid calls s = tool_call_put calls (s\<lparr>tc_call_id := cid\<rparr>)"

interpretation tool_call: guarded_status
  tool_call_is_terminal tool_call_can_transition_to "tool_call_status_at cid" tc_status
  "tool_call_put_at cid" for cid
  by unfold_locales
    (auto simp: tool_call_can_transition_to_def tool_call_is_terminal_def tool_call_status_at_def
       tool_call_put_at_def tool_call_put_def tool_call_current_status_def
       split: tool_call_status.splits if_splits)

lemma tool_call_other_kept:
  "cid \<noteq> tc_call_id s \<Longrightarrow> tool_call_states_apply calls (Put s) cid = calls cid"
  by simp

lemma tool_call_put_status:
  "tool_call_status_at cid (tool_call_states_apply calls (Put s)) =
     (if tc_call_id s = cid then tool_call_status_at cid (tool_call_put_at cid calls s)
      else tool_call_status_at cid calls)"
proof -
  have "tc_call_id s = cid \<Longrightarrow> s\<lparr>tc_call_id := cid\<rparr> = s" by auto
  then show ?thesis
    by (auto simp: tool_call_put_at_def tool_call_put_def tool_call_status_at_def
        tool_call_current_status_def)
qed

section \<open>Properties\<close>

lemma run_lifecycle_apply_done:
  "rl_status v = Done \<Longrightarrow> rl_status (run_lifecycle_apply v u) = Done \<and>
     rl_run_id (run_lifecycle_apply v u) = rl_run_id v \<and>
     rl_step_count (run_lifecycle_apply v u) = rl_step_count v"
  by (cases u) (simp_all add: run_lifecycle_apply_def run_status_can_transition_to_def)

text \<open>
  A run's status only moves along the permitted transitions, whatever updates are applied in
  whatever order; and once the run is done it stays done, for the same run id and with the same
  number of steps.
\<close>
theorem run_lifecycle_follows_table:
  "run_status_can_transition_to\<^sup>*\<^sup>* (rl_status v) (rl_status (foldl run_lifecycle_apply v us)) \<and>
   (rl_status v = Done \<longrightarrow> rl_status (foldl run_lifecycle_apply v us) = Done \<and>
      rl_run_id (foldl run_lifecycle_apply v us) = rl_run_id v \<and>
      rl_step_count (foldl run_lifecycle_apply v us) = rl_step_count v)"
proof -
  have "rl_status v = Done \<longrightarrow> rl_status (foldl run_lifecycle_apply v us) = Done \<and>
      rl_run_id (foldl run_lifecycle_apply v us) = rl_run_id v \<and>
      rl_step_count (foldl run_lifecycle_apply v us) = rl_step_count v"
    by (induction us arbitrary: v) (use run_lifecycle_apply_done in auto)
  with run_lifecycle.run_permitted show ?thesis by blast
qed

theorem run_lifecycle_follows_table_witness:
  "rl_status (foldl run_lifecycle_apply (run_lifecycle_default\<lparr>rl_status := Done\<rparr>)
     [Start ''r'' 1, SetRunning 2, StepCompleted 3]) = Done"
  using run_lifecycle_follows_table [of "run_lifecycle_default\<lparr>rl_status := Done\<rparr>"
      "[Start ''r'' 1, SetRunning 2, StepCompleted 3]"]
  by (simp del: foldl_Cons)

text \<open>
  A tool call's status only moves along the permitted transitions and a finished tool call
  stays finished, whatever states are put for it and for other calls.
\<close>
theorem tool_call_follows_table:
  "tool_call_can_transition_to\<^sup>*\<^sup>* (tool_call_current_status calls cid)
     (tool_call_current_status (foldl tool_call_states_apply calls (map Put states)) cid) \<and>
   (tool_call_is_terminal (tool_call_current_status calls cid) \<longrightarrow>
     tool_call_current_status (foldl tool_call_states_apply calls (map Put states)) cid =
       tool_call_current_status calls cid)"
proof (induction states arbitrary: calls)
  case (Cons s states)
  let ?calls = "tool_call_states_apply calls (Put s)"
  have step: "tool_call_can_transition_to (tool_call_current_status calls cid)
        (tool_call_current_status ?calls cid)"
      "tool_call_is_terminal (tool_call_current_status calls cid) \<longrightarrow>
        tool_call_current_status ?calls cid = tool_call_current_status calls cid"
    using tool_call.update_permitted [where cid = cid and v = calls and u = s] tool_call.refl
      tool_call.terminal_status_kept [where cid = cid and v = calls and u = s]
      tool_call_put_status [of cid calls s]
    by (auto simp: tool_call_status_at_def split: if_splits simp del: tool_call_states_apply.simps)
  with Cons.IH [of ?calls] show ?case
    by (auto intro: converse_rtranclp_into_rtranclp simp del: tool_call_states_apply.simps)
qed simp

theorem tool_call_follows_table_witness:
  "tool_call_current_status (foldl tool_call_states_apply
     [''c'' \<mapsto> tool_call_state_new ''c'' ''t'' () TcSucceeded 1]
     (map Put [tool_call_state_new ''c'' ''t'' () TcRunning 2])) ''c'' = TcSucceeded"
proof -
  have "tool_call_current_status [''c'' \<mapsto> tool_call_state_new ''c'' ''t'' () TcSucceeded 1] ''c'' =
      TcSucceeded"
    by (simp add: tool_call_current_status_def tool_call_state_new_def)
  then show ?thesis
    using tool_call_follows_table [of "[''c'' \<mapsto> tool_call_state_new ''c'' ''t'' () TcSucceeded 1]" "''c''"
        "[tool_call_state_new ''c'' ''t'' () TcRunning 2]"]
    by (simp add: tool_call_is_terminal_def)
qed

lemma trim_start_matches_step:
  "p \<noteq> [] \<Longrightarrow> trim_start_matches p (p @ s) = trim_start_matches p s"
  by (subst trim_start_matches.simps) simp

text \<open>
  The stored done reason decodes to the termination reason it was written from, except for
  what the encoding loses: the message of an error, the detail of a stop, and repetitions of the
  prefix at the front of a blocking reason or a stop code.
\<close>
theorem done_reason_roundtrip:
  "(snd (to_run_status r) = None \<longleftrightarrow> r = RunSuspended) \<and>
   (\<forall>reason. snd (to_run_status r) = Some reason \<longrightarrow> from_done_reason reason =
     (case r of
        Blocked b \<Rightarrow> Blocked (trim_start_matches ''blocked:'' b)
      | Stopped st \<Rightarrow> Stopped (stopped_reason_new (trim_start_matches ''stopped:'' (sr_code st)))
      | RunError _ \<Rightarrow> RunError ''error''
      | _ \<Rightarrow> r))"
proof (cases r)
  case (Blocked b)
  then show ?thesis
    using trim_start_matches_step [of "''blocked:''" b] starts_with_append [of "''blocked:''" b]
    by (simp add: to_run_status_def from_done_reason_def)
next
  case (Stopped st)
  have "\<not> starts_with (''stopped:'' @ sr_code st) ''blocked:''" by (simp add: starts_with_def)
  with Stopped show ?thesis
    using trim_start_matches_step [of "''stopped:''" "sr_code st"]
      starts_with_append [of "''stopped:''" "sr_code st"]
    by (simp add: to_run_status_def from_done_reason_def)
qed (simp_all add: to_run_status_def from_done_reason_def starts_with_def)

theorem done_reason_roundtrip_witness:
  "from_done_reason ''blocked:quota'' = Blocked ''quota''"
proof -
  have "trim_start_matches ''blocked:'' ''quota'' = ''quota''"
    by (subst trim_start_matches.simps) (simp add: starts_with_def)
  then show ?thesis
    using done_reason_roundtrip [of "Blocked ''quota''"] by (simp add: to_run_status_def)
qed

end
