(* ===== verification/Dispatch.thy ===== *)
theory Dispatch
imports Lifecycle
begin

text \<open>
  The run dispatch of the mailbox contract (\<^verbatim>\<open>remo-server-contract/src/contract/mailbox.rs\<close>): its
  record, its validation, and the transitions of its six-state lifecycle. A transition is a
  \<^verbatim>\<open>&mut self\<close> method that returns a \<^verbatim>\<open>Result\<close>: the model returns the result together with the
  dispatch as the method leaves it, also when the result is an error (the methods assign the
  fields first and validate last). \<^verbatim>\<open>mailbox_state.rs\<close> wraps the transitions with \<^verbatim>\<open>expect\<close>, whose
  panic is a value here.
\<close>

section \<open>Storage errors\<close>

datatype storage_error =
    Validation string
  | NotFound string
  | AlreadyExists string
  | VersionConflict u64 u64
  | PendingSelectionConflict "string list" "string list"
  | Io string
  | CommitUnknown string
  | Serialization string

section \<open>The dispatch record\<close>

datatype run_dispatch_status = Queued | Claimed | Acked | Cancelled | Superseded | DeadLetter

definition is_terminal :: "run_dispatch_status \<Rightarrow> bool" where
  "is_terminal s = (s \<in> {Acked, Cancelled, Superseded, DeadLetter})"

record run_dispatch_result =
  res_run_id :: string
  res_dispatch_instance_id :: string
  res_status :: run_status
  res_termination :: "termination_reason option"
  res_response :: "string option"
  res_error :: "string option"

record run_dispatch =
  dispatch_id :: string
  thread_id :: string
  run_id :: string
  priority :: u8
  dedupe_key :: "string option"
  dispatch_epoch :: u64
  status :: run_dispatch_status
  available_at :: u64
  attempt_count :: u32
  max_attempts :: u32
  last_error :: "string option"
  claim_token :: "string option"
  claimed_by :: "string option"
  lease_until :: "u64 option"
  dispatch_instance_id :: "string option"
  run_status :: "run_status option"
  run_termination :: "termination_reason option"
  run_response :: "string option"
  run_error :: "string option"
  completed_at :: "u64 option"
  created_at :: u64
  updated_at :: u64

definition dispatch_queued :: "string \<Rightarrow> string \<Rightarrow> string \<Rightarrow> u64 \<Rightarrow> run_dispatch" where
  "dispatch_queued did tid rid t =
     \<lparr>dispatch_id = did, thread_id = tid, run_id = rid, priority = 128, dedupe_key = None,
      dispatch_epoch = 0, status = Queued, available_at = t, attempt_count = 0, max_attempts = 5,
      last_error = None, claim_token = None, claimed_by = None, lease_until = None,
      dispatch_instance_id = None, run_status = None, run_termination = None,
      run_response = None, run_error = None, completed_at = None, created_at = t,
      updated_at = t\<rparr>"

section \<open>Validation\<close>

definition debug_status :: "run_dispatch_status \<Rightarrow> string" where
  "debug_status s = (case s of
      Queued \<Rightarrow> ''Queued'' | Claimed \<Rightarrow> ''Claimed'' | Acked \<Rightarrow> ''Acked''
    | Cancelled \<Rightarrow> ''Cancelled'' | Superseded \<Rightarrow> ''Superseded'' | DeadLetter \<Rightarrow> ''DeadLetter'')"

definition require_non_empty :: "string \<Rightarrow> string \<Rightarrow> storage_error + unit" where
  "require_non_empty field v =
     (if is_blank v then Inl (Validation (field @ '' must not be empty'')) else Inr ())"

definition validate_identity_and_retry :: "run_dispatch \<Rightarrow> storage_error + unit" where
  "validate_identity_and_retry d =
     (case require_non_empty ''dispatch_id'' (dispatch_id d) of Inl e \<Rightarrow> Inl e | Inr _ \<Rightarrow>
      case require_non_empty ''thread_id'' (thread_id d) of Inl e \<Rightarrow> Inl e | Inr _ \<Rightarrow>
      case require_non_empty ''run_id'' (run_id d) of Inl e \<Rightarrow> Inl e | Inr _ \<Rightarrow>
      if max_attempts d = 0 then
        Inl (Validation (''dispatch '' @ quoted (dispatch_id d) @
               '' max_attempts must be greater than zero''))
      else if attempt_count d > max_attempts d then
        Inl (Validation (''dispatch '' @ quoted (dispatch_id d) @
               '' attempt_count must not exceed max_attempts''))
      else Inr ())"

definition validate_queued :: "run_dispatch \<Rightarrow> storage_error + unit" where
  "validate_queued d =
     (if claim_token d \<noteq> None \<or> claimed_by d \<noteq> None \<or> lease_until d \<noteq> None then
        Inl (Validation (''Queued dispatch '' @ quoted (dispatch_id d) @
               '' must not carry claim fields''))
      else if completed_at d \<noteq> None then
        Inl (Validation (''Queued dispatch '' @ quoted (dispatch_id d) @
               '' must not carry completed_at''))
      else if dispatch_instance_id d \<noteq> None \<or> run_status d \<noteq> None \<or> run_termination d \<noteq> None
           \<or> run_response d \<noteq> None \<or> run_error d \<noteq> None then
        Inl (Validation (''Queued dispatch '' @ quoted (dispatch_id d) @
               '' must not carry runtime result fields''))
      else Inr ())"

definition none_or_blank :: "string option \<Rightarrow> bool" where
  "none_or_blank v = (case v of None \<Rightarrow> True | Some s \<Rightarrow> is_blank s)"

definition validate_for_persist :: "run_dispatch \<Rightarrow> storage_error + unit" where
  "validate_for_persist d =
     (case validate_identity_and_retry d of Inl e \<Rightarrow> Inl e | Inr _ \<Rightarrow>
      (case status d of
         Queued \<Rightarrow> validate_queued d
       | Claimed \<Rightarrow>
           if none_or_blank (claim_token d) \<or> none_or_blank (claimed_by d) \<or> lease_until d = None
           then Inl (Validation (''Claimed dispatch '' @ quoted (dispatch_id d) @
                  '' must carry claim_token, claimed_by, and lease_until''))
           else Inr ()
       | _ \<Rightarrow>
           if claim_token d \<noteq> None \<or> claimed_by d \<noteq> None \<or> lease_until d \<noteq> None then
             Inl (Validation (debug_status (status d) @ '' dispatch '' @ quoted (dispatch_id d) @
                    '' must not carry active lease fields''))
           else if completed_at d = None then
             Inl (Validation (debug_status (status d) @ '' dispatch '' @ quoted (dispatch_id d) @
                    '' must carry completed_at''))
           else Inr ()))"

definition validate_for_enqueue :: "run_dispatch \<Rightarrow> storage_error + unit" where
  "validate_for_enqueue d =
     (case validate_identity_and_retry d of Inl e \<Rightarrow> Inl e | Inr _ \<Rightarrow>
      if status d \<noteq> Queued then
        Inl (Validation (''enqueued dispatch '' @ quoted (dispatch_id d) @
               '' must start as Queued''))
      else validate_queued d)"

definition from_persisted_parts :: "run_dispatch \<Rightarrow> storage_error + run_dispatch" where
  "from_persisted_parts d = (case validate_for_persist d of Inl e \<Rightarrow> Inl e | Inr _ \<Rightarrow> Inr d)"

section \<open>Transitions\<close>

type_synonym dispatch_step = "run_dispatch \<Rightarrow> (storage_error + unit) \<times> run_dispatch"

definition require_status :: "run_dispatch_status \<Rightarrow> string \<Rightarrow> run_dispatch \<Rightarrow> storage_error + unit"
where
  "require_status expected transition d =
     (if status d \<noteq> expected then
        Inl (Validation (''dispatch '' @ quoted (dispatch_id d) @ '' must be '' @
               debug_status expected @ '' before '' @ transition))
      else Inr ())"

definition clear_claim_fields :: "run_dispatch \<Rightarrow> run_dispatch" where
  "clear_claim_fields d = d\<lparr>claim_token := None, claimed_by := None, lease_until := None\<rparr>"

definition clear_runtime_projection :: "run_dispatch \<Rightarrow> run_dispatch" where
  "clear_runtime_projection d =
     d\<lparr>dispatch_instance_id := None, run_status := None, run_termination := None,
       run_response := None, run_error := None\<rparr>"

definition validated :: dispatch_step where
  "validated d = (validate_for_persist d, d)"

definition prepare_for_enqueue :: "u64 \<Rightarrow> run_dispatch \<Rightarrow> run_dispatch" where
  "prepare_for_enqueue epoch d =
     d\<lparr>dispatch_epoch := epoch, status := Queued, claim_token := None, claimed_by := None,
       lease_until := None, dispatch_instance_id := None, run_status := None,
       run_termination := None, run_response := None, run_error := None, completed_at := None\<rparr>"

definition dispatch_claim :: "string \<Rightarrow> string \<Rightarrow> u64 \<Rightarrow> u64 \<Rightarrow> dispatch_step" where
  "dispatch_claim consumer token lease now d =
     (case require_status Queued ''claim'' d of Inl e \<Rightarrow> (Inl e, d) | Inr _ \<Rightarrow>
      validated (d\<lparr>status := Claimed, claim_token := Some token, claimed_by := Some consumer,
                   lease_until := Some lease, updated_at := now\<rparr>))"

definition dispatch_extend_lease :: "u64 \<Rightarrow> u64 \<Rightarrow> dispatch_step" where
  "dispatch_extend_lease lease now d =
     (case require_status Claimed ''lease extension'' d of Inl e \<Rightarrow> (Inl e, d) | Inr _ \<Rightarrow>
      validated (d\<lparr>lease_until := Some lease, updated_at := now\<rparr>))"

definition dispatch_record_start :: "string \<Rightarrow> u64 \<Rightarrow> dispatch_step" where
  "dispatch_record_start inst now d =
     (case require_status Claimed ''recording runtime start'' d of Inl e \<Rightarrow> (Inl e, d) | Inr _ \<Rightarrow>
      validated (d\<lparr>dispatch_instance_id := Some inst, run_status := Some Running,
                   run_termination := None, run_response := None, run_error := None,
                   completed_at := None, updated_at := now\<rparr>))"

definition dispatch_record_run_result :: "run_dispatch_result \<Rightarrow> u64 \<Rightarrow> dispatch_step" where
  "dispatch_record_run_result result now d =
     (case require_status Claimed ''recording runtime result'' d of Inl e \<Rightarrow> (Inl e, d) | Inr _ \<Rightarrow>
      if res_run_id result \<noteq> run_id d then
        (Inl (Validation (''dispatch '' @ quoted (dispatch_id d) @ '' result run_id '' @
                quoted (res_run_id result) @ '' does not match '' @ quoted (run_id d))), d)
      else
        validated (d\<lparr>dispatch_instance_id := Some (res_dispatch_instance_id result),
                     run_status := Some (res_status result),
                     run_termination := res_termination result,
                     run_response := res_response result, run_error := res_error result,
                     completed_at := Some now, updated_at := now\<rparr>))"

definition dispatch_mark_acked :: "u64 \<Rightarrow> dispatch_step" where
  "dispatch_mark_acked now d =
     (case require_status Claimed ''ack'' d of Inl e \<Rightarrow> (Inl e, d) | Inr _ \<Rightarrow>
      validated (clear_claim_fields
        (d\<lparr>status := Acked, completed_at := Some now, updated_at := now\<rparr>)))"

definition dispatch_mark_cancelled :: "u64 \<Rightarrow> dispatch_step" where
  "dispatch_mark_cancelled now d =
     (case require_status Queued ''cancel'' d of Inl e \<Rightarrow> (Inl e, d) | Inr _ \<Rightarrow>
      validated (clear_claim_fields
        (d\<lparr>status := Cancelled, completed_at := Some now, updated_at := now\<rparr>)))"

definition set_reason :: "string option \<Rightarrow> run_dispatch \<Rightarrow> run_dispatch" where
  "set_reason reason d = (case reason of None \<Rightarrow> d | Some r \<Rightarrow> d\<lparr>last_error := Some r\<rparr>)"

definition dispatch_mark_superseded :: "u64 \<Rightarrow> string option \<Rightarrow> dispatch_step" where
  "dispatch_mark_superseded now reason d =
     (case require_status Queued ''supersede'' d of Inl e \<Rightarrow> (Inl e, d) | Inr _ \<Rightarrow>
      validated (clear_runtime_projection (clear_claim_fields (set_reason reason
        (d\<lparr>status := Superseded, completed_at := Some now, updated_at := now\<rparr>)))))"

definition dispatch_mark_superseded_at_epoch :: "u64 \<Rightarrow> u64 \<Rightarrow> string option \<Rightarrow> dispatch_step" where
  "dispatch_mark_superseded_at_epoch now epoch reason d0 =
     (let d = d0\<lparr>dispatch_epoch := epoch\<rparr> in
      case status d of
        Queued \<Rightarrow> dispatch_mark_superseded now reason d
      | Claimed \<Rightarrow>
          validated (clear_runtime_projection (clear_claim_fields (set_reason reason
            (d\<lparr>status := Superseded, completed_at := Some now, updated_at := now\<rparr>))))
      | _ \<Rightarrow> (Inl (Validation (''dispatch '' @ quoted (dispatch_id d) @
                 '' must be Queued or Claimed before epoch supersede'')), d))"

definition dispatch_mark_dead_letter :: "u64 \<Rightarrow> string \<Rightarrow> dispatch_step" where
  "dispatch_mark_dead_letter now err d =
     (case require_status Claimed ''dead letter'' d of Inl e \<Rightarrow> (Inl e, d) | Inr _ \<Rightarrow>
      validated (clear_claim_fields
        (d\<lparr>status := DeadLetter, last_error := Some err, completed_at := Some now,
           updated_at := now\<rparr>)))"

definition dispatch_mark_nack_result :: "u64 \<Rightarrow> u64 \<Rightarrow> string \<Rightarrow> dispatch_step" where
  "dispatch_mark_nack_result now retry_at err d0 =
     (case require_status Claimed ''nack'' d0 of Inl e \<Rightarrow> (Inl e, d0) | Inr _ \<Rightarrow>
      let d = clear_claim_fields
            (d0\<lparr>attempt_count := sat_add (attempt_count d0) 1, last_error := Some err,
                updated_at := now\<rparr>)
      in if attempt_count d \<ge> max_attempts d then
           validated (d\<lparr>status := DeadLetter, completed_at := Some now\<rparr>)
         else
           validated (clear_runtime_projection
             (d\<lparr>status := Queued, available_at := retry_at, completed_at := None\<rparr>)))"

definition dispatch_mark_expired_lease :: "u64 \<Rightarrow> string \<Rightarrow> dispatch_step" where
  "dispatch_mark_expired_lease now max_attempts_error d0 =
     (case require_status Claimed ''lease expiration'' d0 of Inl e \<Rightarrow> (Inl e, d0) | Inr _ \<Rightarrow>
      let d = clear_runtime_projection (clear_claim_fields
            (d0\<lparr>attempt_count := sat_add (attempt_count d0) 1, available_at := now,
                updated_at := now\<rparr>))
      in if attempt_count d \<ge> max_attempts d then
           validated (d\<lparr>status := DeadLetter, last_error := Some max_attempts_error,
                        completed_at := Some now\<rparr>)
         else validated (d\<lparr>status := Queued, completed_at := None\<rparr>))"

definition remap_identity :: "string \<Rightarrow> string \<Rightarrow> string \<Rightarrow> string option \<Rightarrow> run_dispatch \<Rightarrow> run_dispatch"
where
  "remap_identity did tid rid key d =
     d\<lparr>dispatch_id := did, thread_id := tid, run_id := rid, dedupe_key := key\<rparr>"

section \<open>What validation accepts\<close>

definition no_claim :: "run_dispatch \<Rightarrow> bool" where
  "no_claim d \<longleftrightarrow> claim_token d = None \<and> claimed_by d = None \<and> lease_until d = None"

definition no_runtime :: "run_dispatch \<Rightarrow> bool" where
  "no_runtime d \<longleftrightarrow> dispatch_instance_id d = None \<and> run_status d = None \<and>
     run_termination d = None \<and> run_response d = None \<and> run_error d = None"

definition identity_ok :: "run_dispatch \<Rightarrow> bool" where
  "identity_ok d \<longleftrightarrow> \<not> is_blank (dispatch_id d) \<and> \<not> is_blank (thread_id d) \<and>
     \<not> is_blank (run_id d) \<and> max_attempts d \<noteq> 0 \<and> attempt_count d \<le> max_attempts d"

definition shape_ok :: "run_dispatch \<Rightarrow> bool" where
  "shape_ok d = (case status d of
      Queued \<Rightarrow> no_claim d \<and> completed_at d = None \<and> no_runtime d
    | Claimed \<Rightarrow> \<not> none_or_blank (claim_token d) \<and> \<not> none_or_blank (claimed_by d) \<and>
        lease_until d \<noteq> None
    | _ \<Rightarrow> no_claim d \<and> completed_at d \<noteq> None)"

lemma validate_identity_iff: "validate_identity_and_retry d = Inr () \<longleftrightarrow> identity_ok d"
  by (auto simp: validate_identity_and_retry_def require_non_empty_def identity_ok_def not_less)

lemma validate_queued_iff:
  "validate_queued d = Inr () \<longleftrightarrow> no_claim d \<and> completed_at d = None \<and> no_runtime d"
  by (auto simp: validate_queued_def no_claim_def no_runtime_def)

lemma validate_for_persist_iff: "validate_for_persist d = Inr () \<longleftrightarrow> identity_ok d \<and> shape_ok d"
proof (cases "validate_identity_and_retry d")
  case (Inl e)
  then have "\<not> identity_ok d" by (metis validate_identity_iff Inl_Inr_False)
  with Inl show ?thesis by (simp add: validate_for_persist_def)
next
  case (Inr u)
  then have "identity_ok d" by (simp add: validate_identity_iff [symmetric])
  with Inr show ?thesis
    by (cases "status d")
      (auto simp: validate_for_persist_def shape_ok_def validate_queued_iff no_claim_def)
qed

lemma validate_for_enqueue_iff:
  "validate_for_enqueue d = Inr () \<longleftrightarrow> identity_ok d \<and> status d = Queued \<and> shape_ok d"
proof (cases "validate_identity_and_retry d")
  case (Inl e)
  then have "\<not> identity_ok d" by (metis validate_identity_iff Inl_Inr_False)
  with Inl show ?thesis by (simp add: validate_for_enqueue_def)
next
  case (Inr u)
  then have "identity_ok d" by (simp add: validate_identity_iff [symmetric])
  with Inr show ?thesis
    by (auto simp: validate_for_enqueue_def shape_ok_def validate_queued_iff)
qed

text \<open>
  A dispatch that is valid and, while it is live, has an attempt left. Validation accepts
  \<open>attempt_count = max_attempts\<close> on a live dispatch too, but the next failure of such a dispatch
  exceeds the maximum; the transitions keep the strict bound.
\<close>

definition dispatch_ok :: "run_dispatch \<Rightarrow> bool" where
  "dispatch_ok d \<longleftrightarrow> identity_ok d \<and> shape_ok d \<and>
     (\<not> is_terminal (status d) \<longrightarrow> attempt_count d < max_attempts d)"

lemma dispatch_ok_valid: "dispatch_ok d \<Longrightarrow> validate_for_persist d = Inr ()"
  by (simp add: dispatch_ok_def validate_for_persist_iff)

section \<open>The lifecycle diagram\<close>

text \<open>
  The edges of the diagram above \<^verbatim>\<open>RunDispatchStatus\<close>, and the edge the epoch check adds: a
  claimed dispatch is superseded when its thread was interrupted. A claimed dispatch also stays
  claimed (lease renewal and the recording of the runtime's start and result).
\<close>

inductive lifecycle_edge :: "run_dispatch_status \<Rightarrow> run_dispatch_status \<Rightarrow> bool" where
  claim: "lifecycle_edge Queued Claimed"
| cancel: "lifecycle_edge Queued Cancelled"
| supersede_queued: "lifecycle_edge Queued Superseded"
| supersede_claimed: "lifecycle_edge Claimed Superseded"
| ack: "lifecycle_edge Claimed Acked"
| retry: "lifecycle_edge Claimed Queued"
| exhausted: "lifecycle_edge Claimed DeadLetter"
| stay_claimed: "lifecycle_edge Claimed Claimed"

inductive_simps lifecycle_edge_from_queued: "lifecycle_edge Queued s"
inductive_simps lifecycle_edge_from_claimed: "lifecycle_edge Claimed s"
inductive_cases lifecycle_edgeE: "lifecycle_edge s t"

lemma lifecycle_edge_not_terminal: "lifecycle_edge s t \<Longrightarrow> \<not> is_terminal s"
  by (auto simp: is_terminal_def elim: lifecycle_edgeE)

text \<open>
  How a dispatch evolves: its identity never changes, its status follows an edge, the number of
  attempts never falls, and it grows by one exactly when an attempt failed.
\<close>

definition dispatch_evolves :: "run_dispatch \<Rightarrow> run_dispatch \<Rightarrow> bool" where
  "dispatch_evolves d d' \<longleftrightarrow>
     dispatch_id d' = dispatch_id d \<and> thread_id d' = thread_id d \<and> run_id d' = run_id d \<and>
     priority d' = priority d \<and> dedupe_key d' = dedupe_key d \<and>
     max_attempts d' = max_attempts d \<and> created_at d' = created_at d \<and>
     lifecycle_edge (status d) (status d') \<and> attempt_count d \<le> attempt_count d' \<and>
     (status d' = Queued \<longrightarrow> attempt_count d' = sat_add (attempt_count d) 1)"

lemma sat_add_one_ge: "(a :: u32) \<le> sat_add a 1"
proof -
  have "unat a < 2 ^ LENGTH(32)" by (rule unsigned_less)
  then show ?thesis by (simp add: word_le_nat_alt unat_sat_add min_def)
qed

section \<open>The contract of a transition\<close>

text \<open>
  What the mailbox store relies on when it applies a transition to a stored dispatch: on an
  acceptable dispatch that meets the transition's precondition it succeeds, keeps the dispatch
  acceptable, follows the lifecycle, and sets the epoch only to the given value.
\<close>

locale dispatch_transition =
  fixes step :: dispatch_step
    and pre :: "run_dispatch \<Rightarrow> bool"
    and new_epoch :: "u64 option"
  assumes succeeds: "dispatch_ok d \<Longrightarrow> pre d \<Longrightarrow> fst (step d) = Inr ()"
    and keeps_ok: "dispatch_ok d \<Longrightarrow> pre d \<Longrightarrow> dispatch_ok (snd (step d))"
    and evolves: "dispatch_ok d \<Longrightarrow> pre d \<Longrightarrow> dispatch_evolves d (snd (step d))"
    and sets_epoch: "dispatch_ok d \<Longrightarrow> pre d \<Longrightarrow> dispatch_epoch (snd (step d)) =
          (case new_epoch of None \<Rightarrow> dispatch_epoch d | Some e \<Rightarrow> e)"
begin

lemma result: "dispatch_ok d \<Longrightarrow> pre d \<Longrightarrow> step d = (Inr (), snd (step d))"
  by (metis prod.collapse succeeds)

lemma result_valid: "dispatch_ok d \<Longrightarrow> pre d \<Longrightarrow> validate_for_persist (snd (step d)) = Inr ()"
  by (simp add: dispatch_ok_valid keeps_ok)

end

lemma snd_validated [simp]: "snd (validated d) = d"
  by (simp add: validated_def)

lemma validated_inject [simp]: "validated d = validated d' \<longleftrightarrow> d = d'"
  by (auto simp: validated_def)

lemmas transition_defs =
  require_status_def clear_claim_fields_def clear_runtime_projection_def
  set_reason_def dispatch_evolves_def

text \<open>
  Every transition but \<^verbatim>\<open>claim\<close> also promises that it makes no dispatch claimed.
\<close>

locale settling_transition = dispatch_transition +
  assumes claims_nothing: "dispatch_ok d \<Longrightarrow> pre d \<Longrightarrow> status (snd (step d)) = Claimed \<Longrightarrow>
     status d = Claimed"
begin

lemma live_only_if_live:
  assumes "dispatch_ok d" "pre d" "\<not> is_terminal (status (snd (step d)))"
  shows "\<not> is_terminal (status d)"
  using evolves [OF assms(1,2)] lifecycle_edge_not_terminal by (auto simp: dispatch_evolves_def)

end

lemmas ok_defs =
  dispatch_ok_def identity_ok_def shape_ok_def no_claim_def no_runtime_def is_terminal_def

lemma dispatch_transitionI:
  assumes "\<And>d. dispatch_ok d \<Longrightarrow> pre d \<Longrightarrow> \<exists>d'. step d = validated d' \<and> dispatch_ok d' \<and>
     dispatch_evolves d d' \<and> dispatch_epoch d' = (case e of None \<Rightarrow> dispatch_epoch d | Some e \<Rightarrow> e)"
  shows "dispatch_transition step pre e"
  by unfold_locales (use assms in \<open>fastforce simp: validated_def dispatch_ok_valid\<close>)+

lemma settling_transitionI:
  assumes "dispatch_transition step pre e"
    and "\<And>d. dispatch_ok d \<Longrightarrow> pre d \<Longrightarrow> status (snd (step d)) = Claimed \<Longrightarrow> status d = Claimed"
  shows "settling_transition step pre e"
  using assms by (simp add: settling_transition_def settling_transition_axioms_def)

definition live :: "run_dispatch \<Rightarrow> bool" where
  "live d \<longleftrightarrow> status d \<in> {Queued, Claimed}"

lemma live_iff_not_terminal: "live d \<longleftrightarrow> \<not> is_terminal (status d)"
  by (cases "status d") (simp_all add: live_def is_terminal_def)

interpretation claim_step: dispatch_transition "dispatch_claim consumer token lease now"
    "\<lambda>d. status d = Queued \<and> \<not> is_blank consumer \<and> \<not> is_blank token" None
    for consumer token lease now
  by (rule dispatch_transitionI)
    (auto simp: dispatch_claim_def transition_defs ok_defs none_or_blank_def
      lifecycle_edge_from_queued)

interpretation extend_step: settling_transition "dispatch_extend_lease lease now"
    "\<lambda>d. status d = Claimed" None for lease now
  by (rule settling_transitionI, rule dispatch_transitionI)
    (auto simp: dispatch_extend_lease_def transition_defs ok_defs lifecycle_edge_from_claimed)

interpretation start_step: settling_transition "dispatch_record_start inst now"
    "\<lambda>d. status d = Claimed" None for inst now
  by (rule settling_transitionI, rule dispatch_transitionI)
    (auto simp: dispatch_record_start_def transition_defs ok_defs lifecycle_edge_from_claimed)

interpretation result_step: settling_transition "dispatch_record_run_result result now"
    "\<lambda>d. status d = Claimed \<and> res_run_id result = run_id d" None for result now
  by (rule settling_transitionI, rule dispatch_transitionI)
    (auto simp: dispatch_record_run_result_def transition_defs ok_defs
      lifecycle_edge_from_claimed)

interpretation ack_step: settling_transition "dispatch_mark_acked now"
    "\<lambda>d. status d = Claimed" None for now
  by (rule settling_transitionI, rule dispatch_transitionI)
    (auto simp: dispatch_mark_acked_def transition_defs ok_defs lifecycle_edge_from_claimed)

interpretation cancel_step: settling_transition "dispatch_mark_cancelled now"
    "\<lambda>d. status d = Queued" None for now
  by (rule settling_transitionI, rule dispatch_transitionI)
    (auto simp: dispatch_mark_cancelled_def transition_defs ok_defs lifecycle_edge_from_queued)

interpretation supersede_step: settling_transition "dispatch_mark_superseded now reason"
    "\<lambda>d. status d = Queued" None for now reason
  by (rule settling_transitionI, rule dispatch_transitionI)
    (auto simp: dispatch_mark_superseded_def transition_defs ok_defs lifecycle_edge_from_queued
      split: option.splits)

interpretation supersede_epoch_step: settling_transition
    "dispatch_mark_superseded_at_epoch now epoch reason" live "Some epoch" for now epoch reason
proof (rule settling_transitionI, rule dispatch_transitionI)
  fix d
  assume "dispatch_ok d" "live d"
    "status (snd (dispatch_mark_superseded_at_epoch now epoch reason d)) = Claimed"
  then show "status d = Claimed"
    by (cases "status d"; cases reason)
      (auto simp: live_def dispatch_mark_superseded_at_epoch_def dispatch_mark_superseded_def
        transition_defs)
next
  fix d
  assume "dispatch_ok d" "live d"
  then show "\<exists>d'. dispatch_mark_superseded_at_epoch now epoch reason d = validated d' \<and>
      dispatch_ok d' \<and> dispatch_evolves d d' \<and>
      dispatch_epoch d' = (case Some epoch of None \<Rightarrow> dispatch_epoch d | Some e \<Rightarrow> e)"
    by (cases "status d"; cases reason)
      (auto simp: live_def dispatch_mark_superseded_at_epoch_def dispatch_mark_superseded_def
        transition_defs ok_defs lifecycle_edge_from_queued lifecycle_edge_from_claimed)
qed

interpretation dead_letter_step: settling_transition "dispatch_mark_dead_letter now err"
    "\<lambda>d. status d = Claimed" None for now err
  by (rule settling_transitionI, rule dispatch_transitionI)
    (auto simp: dispatch_mark_dead_letter_def transition_defs ok_defs lifecycle_edge_from_claimed)

interpretation nack_step: settling_transition "dispatch_mark_nack_result now retry_at err"
    "\<lambda>d. status d = Claimed" None for now retry_at err
  by (rule settling_transitionI, rule dispatch_transitionI)
    (auto simp: dispatch_mark_nack_result_def transition_defs ok_defs lifecycle_edge_from_claimed
      Let_def sat_add_one_ge sat_add_one_le not_le)

interpretation expire_step: settling_transition "dispatch_mark_expired_lease now err"
    "\<lambda>d. status d = Claimed" None for now err
  by (rule settling_transitionI, rule dispatch_transitionI)
    (auto simp: dispatch_mark_expired_lease_def transition_defs ok_defs
      lifecycle_edge_from_claimed Let_def sat_add_one_ge sat_add_one_le not_le)

section \<open>The transitions with their panics\<close>

text \<open>
  \<^verbatim>\<open>mailbox_state.rs\<close>: each helper calls \<^verbatim>\<open>expect\<close> on the transition's result. A failed transition
  panics; the dispatch it was called on is left as the transition left it.
\<close>

datatype mailbox_failure = Storage storage_error | Panicked string

definition expect_ok ::
    "string \<Rightarrow> (storage_error + unit) \<times> run_dispatch \<Rightarrow> (mailbox_failure + unit) \<times> run_dispatch"
where
  "expect_ok msg r = (case r of
      (Inl e, d) \<Rightarrow> (Inl (Panicked msg), d)
    | (Inr _, d) \<Rightarrow> (Inr (), d))"

type_synonym state_step = "run_dispatch \<Rightarrow> (mailbox_failure + unit) \<times> run_dispatch"

definition state_mark_superseded :: "u64 \<Rightarrow> string option \<Rightarrow> state_step" where
  "state_mark_superseded now reason d =
     expect_ok ''superseded dispatch transition must preserve invariants''
       (dispatch_mark_superseded now reason d)"

definition state_mark_superseded_at_epoch :: "u64 \<Rightarrow> u64 \<Rightarrow> string option \<Rightarrow> state_step" where
  "state_mark_superseded_at_epoch now epoch reason d =
     expect_ok ''superseded dispatch transition must preserve invariants''
       (dispatch_mark_superseded_at_epoch now epoch reason d)"

definition state_mark_acked :: "u64 \<Rightarrow> state_step" where
  "state_mark_acked now d =
     expect_ok ''acked dispatch transition must preserve invariants'' (dispatch_mark_acked now d)"

definition state_mark_cancelled :: "u64 \<Rightarrow> state_step" where
  "state_mark_cancelled now d =
     expect_ok ''cancelled dispatch transition must preserve invariants''
       (dispatch_mark_cancelled now d)"

definition state_mark_dead_letter :: "u64 \<Rightarrow> string \<Rightarrow> state_step" where
  "state_mark_dead_letter now err d =
     expect_ok ''dead-letter dispatch transition must preserve invariants''
       (dispatch_mark_dead_letter now err d)"

definition state_mark_nack_result :: "u64 \<Rightarrow> u64 \<Rightarrow> string \<Rightarrow> state_step" where
  "state_mark_nack_result now retry_at err d =
     expect_ok ''nack dispatch transition must preserve invariants''
       (dispatch_mark_nack_result now retry_at err d)"

definition state_mark_expired_lease :: "u64 \<Rightarrow> state_step" where
  "state_mark_expired_lease now d =
     expect_ok ''expired-lease dispatch transition must preserve invariants''
       (dispatch_mark_expired_lease now ''lease expired; max attempts reached'' d)"

lemma expect_ok_Inr [simp]: "expect_ok msg (Inr u, d) = (Inr (), d)"
  by (simp add: expect_ok_def)

end
