(* ===== verification/Mailbox.thy ===== *)
theory Mailbox
imports Dispatch
begin

text \<open>
  The in-memory mailbox store (\<^verbatim>\<open>remo-stores/src/memory_mailbox.rs\<close>): the dispatches and the
  per-thread dispatch epochs, and the operations of the \<^verbatim>\<open>MailboxStore\<close> trait on them. Each
  operation runs under the store's write locks, so it is one step from state to state. An
  operation returns its \<^verbatim>\<open>Result\<close> (or the panic of an \<^verbatim>\<open>expect\<close>) and the state it leaves.

  The arguments the code obtains from its environment are explicit: \<open>ord\<close> is the order in which
  the dispatch table is iterated, \<open>token\<close> the fresh UUID of a claim. Times are milliseconds in a
  \<^verbatim>\<open>u64\<close>; \<^verbatim>\<open>now + lease_ms\<close> is the machine addition.
\<close>

section \<open>State\<close>

record mailbox =
  dispatches :: "string \<rightharpoonup> run_dispatch"
  epochs :: "string \<rightharpoonup> u64"

definition mailbox_new :: mailbox where
  "mailbox_new = \<lparr>dispatches = Map.empty, epochs = Map.empty\<rparr>"

definition current_epoch_from_state :: "(string \<rightharpoonup> u64) \<Rightarrow> string \<Rightarrow> u64" where
  "current_epoch_from_state st tid = (case st tid of None \<Rightarrow> 0 | Some e \<Rightarrow> e)"

definition reason_claimed_superseded_by_epoch :: string where
  "reason_claimed_superseded_by_epoch = ''claimed dispatch superseded by newer dispatch epoch''"
definition reason_claimed_superseded_before_start :: string where
  "reason_claimed_superseded_before_start = ''claimed dispatch superseded before runtime start''"
definition reason_claimed_superseded_before_result :: string where
  "reason_claimed_superseded_before_result = ''claimed dispatch superseded before run result''"
definition reason_claimed_superseded_before_nack :: string where
  "reason_claimed_superseded_before_nack = ''claimed dispatch superseded before nack''"
definition reason_claimed_superseded_before_dead_letter :: string where
  "reason_claimed_superseded_before_dead_letter =
     ''claimed dispatch superseded before dead letter''"
definition reason_claimed_superseded_during_lease_renewal :: string where
  "reason_claimed_superseded_during_lease_renewal =
     ''claimed dispatch superseded during lease renewal''"
definition reason_claimed_lease_expired_after_interrupt :: string where
  "reason_claimed_lease_expired_after_interrupt =
     ''claimed dispatch lease expired after interrupt''"
definition reason_queued_superseded_by_interrupt :: string where
  "reason_queued_superseded_by_interrupt = ''queued dispatch superseded by interrupt''"
definition reason_queued_superseded_by_epoch :: string where
  "reason_queued_superseded_by_epoch = ''queued dispatch superseded by newer dispatch epoch''"

section \<open>Shared pieces of the operations\<close>

text \<open>A transition applied in place to the entry \<open>did\<close>: the entry becomes what it leaves.\<close>

definition put_dispatch :: "string \<Rightarrow> run_dispatch \<Rightarrow> mailbox \<Rightarrow> mailbox" where
  "put_dispatch did d mb = mb\<lparr>dispatches := (dispatches mb)(did \<mapsto> d)\<rparr>"

definition reject_stale :: "string \<Rightarrow> u64 \<Rightarrow> u64 \<Rightarrow> string \<Rightarrow> run_dispatch \<Rightarrow> mailbox \<Rightarrow>
     (mailbox_failure + unit) \<times> mailbox" where
  "reject_stale did now cur reason d mb =
     (case state_mark_superseded_at_epoch now cur (Some reason) d of
        (Inl p, d') \<Rightarrow> (Inl p, put_dispatch did d' mb)
      | (Inr _, d') \<Rightarrow>
          (Inl (Storage (VersionConflict (dispatch_epoch d) cur)), put_dispatch did d' mb))"

text \<open>Lifting the result of a transition that is called with \<^verbatim>\<open>?\<close>.\<close>

definition storage :: "storage_error + 'a \<Rightarrow> mailbox_failure + 'a" where
  "storage r = (case r of Inl e \<Rightarrow> Inl (Storage e) | Inr x \<Rightarrow> Inr x)"

section \<open>Write path\<close>

definition mailbox_enqueue ::
    "string list \<Rightarrow> run_dispatch \<Rightarrow> mailbox \<Rightarrow> (mailbox_failure + unit) \<times> mailbox" where
  "mailbox_enqueue ord d mb =
     (case validate_for_enqueue d of Inl e \<Rightarrow> (Inl (Storage e), mb) | Inr _ \<Rightarrow>
      let duplicate = (\<lambda>dk. list_ex (\<lambda>j. thread_id j = thread_id d \<and> dedupe_key j = Some dk \<and>
              \<not> is_terminal (status j)) (hm_values ord (dispatches mb)))
      in if (case dedupe_key d of None \<Rightarrow> False | Some dk \<Rightarrow> duplicate dk) then
           (Inl (Storage (AlreadyExists (''dedupe_key='' @ the (dedupe_key d)))), mb)
         else
           let cur = current_epoch_from_state (epochs mb) (thread_id d);
               mb1 = mb\<lparr>epochs := (epochs mb)(thread_id d \<mapsto> cur)\<rparr>;
               d1 = prepare_for_enqueue cur d
           in (case validate_for_persist d1 of
                 Inl e \<Rightarrow> (Inl (Storage e), mb1)
               | Inr _ \<Rightarrow> (Inr (), put_dispatch (dispatch_id d1) d1 mb1)))"

text \<open>The loop over \<^verbatim>\<open>values_mut\<close> that supersedes a thread's queued dispatches of an older epoch.\<close>

fun supersede_stale_queued ::
    "string \<Rightarrow> u64 \<Rightarrow> u64 \<Rightarrow> string list \<Rightarrow> mailbox \<Rightarrow> (mailbox_failure + unit) \<times> mailbox" where
  "supersede_stale_queued tid cur now [] mb = (Inr (), mb)"
| "supersede_stale_queued tid cur now (k # ks) mb =
     (case dispatches mb k of
        None \<Rightarrow> supersede_stale_queued tid cur now ks mb
      | Some d \<Rightarrow>
          if thread_id d = tid \<and> status d = Queued \<and> dispatch_epoch d < cur then
            (case state_mark_superseded_at_epoch now cur (Some reason_queued_superseded_by_epoch) d of
               (Inl p, d') \<Rightarrow> (Inl p, put_dispatch k d' mb)
             | (Inr _, d') \<Rightarrow> supersede_stale_queued tid cur now ks (put_dispatch k d' mb))
          else supersede_stale_queued tid cur now ks mb)"

text \<open>The ids a claim may take, in the order it takes them (\<^verbatim>\<open>sort_by\<close> is stable).\<close>

definition claim_key :: "(string \<rightharpoonup> run_dispatch) \<Rightarrow> string \<Rightarrow> u8 \<times> u64" where
  "claim_key ds k = (case ds k of None \<Rightarrow> (0, 0) | Some d \<Rightarrow> (priority d, created_at d))"

definition eligible :: "string \<Rightarrow> u64 \<Rightarrow> run_dispatch \<Rightarrow> bool" where
  "eligible tid now d \<longleftrightarrow> thread_id d = tid \<and> status d = Queued \<and> available_at d \<le> now"

definition eligible_ids :: "string list \<Rightarrow> string \<Rightarrow> u64 \<Rightarrow> (string \<rightharpoonup> run_dispatch) \<Rightarrow> string list" where
  "eligible_ids ord tid now ds =
     sort_key (claim_key ds)
       (filter (\<lambda>k. case ds k of None \<Rightarrow> False | Some d \<Rightarrow> eligible tid now d) ord)"

fun claim_all :: "string \<Rightarrow> string \<Rightarrow> u64 \<Rightarrow> u64 \<Rightarrow> string list \<Rightarrow> run_dispatch list \<Rightarrow> mailbox \<Rightarrow>
     (mailbox_failure + run_dispatch list) \<times> mailbox" where
  "claim_all consumer token lease now [] acc mb = (Inr acc, mb)"
| "claim_all consumer token lease now (k # ks) acc mb =
     (case dispatches mb k of
        None \<Rightarrow> (Inl (Storage (NotFound k)), mb)
      | Some d \<Rightarrow>
          (case dispatch_claim consumer token lease now d of
             (Inl e, d') \<Rightarrow> (Inl (Storage e), put_dispatch k d' mb)
           | (Inr _, d') \<Rightarrow>
               claim_all consumer token lease now ks (acc @ [d']) (put_dispatch k d' mb)))"

definition has_claimed :: "string list \<Rightarrow> (run_dispatch \<Rightarrow> bool) \<Rightarrow> mailbox \<Rightarrow> bool" where
  "has_claimed ord P mb = list_ex (\<lambda>j. P j \<and> status j = Claimed) (hm_values ord (dispatches mb))"

definition mailbox_claim :: "string list \<Rightarrow> string \<Rightarrow> string \<Rightarrow> u64 \<Rightarrow> u64 \<Rightarrow> nat \<Rightarrow> string \<Rightarrow> mailbox \<Rightarrow>
     (mailbox_failure + run_dispatch list) \<times> mailbox" where
  "mailbox_claim ord tid consumer lease_ms now limit token mb =
     (case supersede_stale_queued tid (current_epoch_from_state (epochs mb) tid) now ord mb of
        (Inl p, mb1) \<Rightarrow> (Inl p, mb1)
      | (Inr _, mb1) \<Rightarrow>
          if has_claimed ord (\<lambda>j. thread_id j = tid) mb1 then (Inr [], mb1)
          else claim_all consumer token (now + lease_ms) now
                 (take limit (eligible_ids ord tid now (dispatches mb1))) [] mb1)"

definition mailbox_claim_dispatch :: "string list \<Rightarrow> string \<Rightarrow> string \<Rightarrow> u64 \<Rightarrow> u64 \<Rightarrow> string \<Rightarrow>
     mailbox \<Rightarrow> (mailbox_failure + run_dispatch option) \<times> mailbox" where
  "mailbox_claim_dispatch ord did consumer lease_ms now token mb =
     (case dispatches mb did of
        None \<Rightarrow> (Inr None, mb)
      | Some d \<Rightarrow>
          if status d \<noteq> Queued then (Inr None, mb)
          else
            let cur = current_epoch_from_state (epochs mb) (thread_id d) in
            if dispatch_epoch d < cur then
              (case state_mark_superseded_at_epoch now cur
                      (Some reason_queued_superseded_by_epoch) d of
                 (Inl p, d') \<Rightarrow> (Inl p, put_dispatch did d' mb)
               | (Inr _, d') \<Rightarrow> (Inr None, put_dispatch did d' mb))
            else if has_claimed ord (\<lambda>j. thread_id j = thread_id d \<and> dispatch_id j \<noteq> did) mb
            then (Inr None, mb)
            else
              (case dispatch_claim consumer token (now + lease_ms) now d of
                 (Inl e, d') \<Rightarrow> (Inl (Storage e), put_dispatch did d' mb)
               | (Inr _, d') \<Rightarrow> (Inr (Some d'), put_dispatch did d' mb)))"

definition mailbox_ack ::
    "string \<Rightarrow> string \<Rightarrow> u64 \<Rightarrow> mailbox \<Rightarrow> (mailbox_failure + unit) \<times> mailbox" where
  "mailbox_ack did token now mb =
     (case dispatches mb did of
        None \<Rightarrow> (Inl (Storage (NotFound did)), mb)
      | Some d \<Rightarrow>
          if claim_token d \<noteq> Some token then (Inl (Storage (VersionConflict 0 1)), mb)
          else
            let cur = current_epoch_from_state (epochs mb) (thread_id d) in
            if dispatch_epoch d < cur then
              reject_stale did now cur reason_claimed_superseded_by_epoch d mb
            else (case state_mark_acked now d of (r, d') \<Rightarrow> (r, put_dispatch did d' mb)))"

definition mailbox_record_dispatch_start ::
    "string \<Rightarrow> string \<Rightarrow> string \<Rightarrow> u64 \<Rightarrow> mailbox \<Rightarrow> (mailbox_failure + unit) \<times> mailbox" where
  "mailbox_record_dispatch_start did token inst now mb =
     (case dispatches mb did of
        None \<Rightarrow> (Inl (Storage (NotFound did)), mb)
      | Some d \<Rightarrow>
          if status d \<noteq> Claimed \<or> claim_token d \<noteq> Some token then
            (Inl (Storage (VersionConflict 0 1)), mb)
          else
            let cur = current_epoch_from_state (epochs mb) (thread_id d) in
            if dispatch_epoch d < cur then
              reject_stale did now cur reason_claimed_superseded_before_start d mb
            else (case dispatch_record_start inst now d of
                (r, d') \<Rightarrow> (storage r, put_dispatch did d' mb)))"

definition mailbox_record_run_result ::
    "string \<Rightarrow> string \<Rightarrow> run_dispatch_result \<Rightarrow> u64 \<Rightarrow> mailbox \<Rightarrow>
     (mailbox_failure + unit) \<times> mailbox" where
  "mailbox_record_run_result did token result now mb =
     (case dispatches mb did of
        None \<Rightarrow> (Inl (Storage (NotFound did)), mb)
      | Some d \<Rightarrow>
          if status d \<noteq> Claimed \<or> claim_token d \<noteq> Some token then
            (Inl (Storage (VersionConflict 0 1)), mb)
          else
            let cur = current_epoch_from_state (epochs mb) (thread_id d) in
            if dispatch_epoch d < cur then
              reject_stale did now cur reason_claimed_superseded_before_result d mb
            else (case dispatch_record_run_result result now d of
                (r, d') \<Rightarrow> (storage r, put_dispatch did d' mb)))"

definition mailbox_nack ::
    "string \<Rightarrow> string \<Rightarrow> u64 \<Rightarrow> string \<Rightarrow> u64 \<Rightarrow> mailbox \<Rightarrow> (mailbox_failure + unit) \<times> mailbox" where
  "mailbox_nack did token retry_at err now mb =
     (case dispatches mb did of
        None \<Rightarrow> (Inl (Storage (NotFound did)), mb)
      | Some d \<Rightarrow>
          if claim_token d \<noteq> Some token then (Inl (Storage (VersionConflict 0 1)), mb)
          else
            let cur = current_epoch_from_state (epochs mb) (thread_id d) in
            if dispatch_epoch d < cur then
              reject_stale did now cur reason_claimed_superseded_before_nack d mb
            else (case state_mark_nack_result now retry_at err d of
                (r, d') \<Rightarrow> (r, put_dispatch did d' mb)))"

definition mailbox_dead_letter ::
    "string \<Rightarrow> string \<Rightarrow> string \<Rightarrow> u64 \<Rightarrow> mailbox \<Rightarrow> (mailbox_failure + unit) \<times> mailbox" where
  "mailbox_dead_letter did token err now mb =
     (case dispatches mb did of
        None \<Rightarrow> (Inl (Storage (NotFound did)), mb)
      | Some d \<Rightarrow>
          if claim_token d \<noteq> Some token then (Inl (Storage (VersionConflict 0 1)), mb)
          else
            let cur = current_epoch_from_state (epochs mb) (thread_id d) in
            if dispatch_epoch d < cur then
              reject_stale did now cur reason_claimed_superseded_before_dead_letter d mb
            else (case state_mark_dead_letter now err d of
                (r, d') \<Rightarrow> (r, put_dispatch did d' mb)))"

definition mailbox_cancel ::
    "string \<Rightarrow> u64 \<Rightarrow> mailbox \<Rightarrow> (mailbox_failure + run_dispatch option) \<times> mailbox" where
  "mailbox_cancel did now mb =
     (case dispatches mb did of
        None \<Rightarrow> (Inr None, mb)
      | Some d \<Rightarrow>
          if status d \<noteq> Queued then (Inr None, mb)
          else (case state_mark_cancelled now d of
              (Inl p, d') \<Rightarrow> (Inl p, put_dispatch did d' mb)
            | (Inr _, d') \<Rightarrow> (Inr (Some d'), put_dispatch did d' mb)))"

definition mailbox_extend_lease ::
    "string \<Rightarrow> string \<Rightarrow> u64 \<Rightarrow> u64 \<Rightarrow> mailbox \<Rightarrow> (mailbox_failure + bool) \<times> mailbox" where
  "mailbox_extend_lease did token extension_ms now mb =
     (case dispatches mb did of
        None \<Rightarrow> (Inr False, mb)
      | Some d \<Rightarrow>
          if \<not> (status d = Claimed \<and> claim_token d = Some token) then (Inr False, mb)
          else
            let cur = current_epoch_from_state (epochs mb) (thread_id d) in
            if dispatch_epoch d < cur then
              (case state_mark_superseded_at_epoch now cur
                      (Some reason_claimed_superseded_during_lease_renewal) d of
                 (Inl p, d') \<Rightarrow> (Inl p, put_dispatch did d' mb)
               | (Inr _, d') \<Rightarrow> (Inr False, put_dispatch did d' mb))
            else
              (case dispatch_extend_lease (now + extension_ms) now d of
                 (Inl e, d') \<Rightarrow> (Inl (Storage e), put_dispatch did d' mb)
               | (Inr _, d') \<Rightarrow> (Inr True, put_dispatch did d' mb)))"

section \<open>Interrupt\<close>

record mailbox_interrupt_details =
  new_dispatch_epoch :: u64
  active_dispatch :: "run_dispatch option"
  superseded_count :: nat
  superseded_dispatches :: "run_dispatch list"

fun interrupt_loop :: "string \<Rightarrow> u64 \<Rightarrow> u64 \<Rightarrow> string list \<Rightarrow> mailbox_interrupt_details \<Rightarrow> mailbox \<Rightarrow>
     (mailbox_failure + mailbox_interrupt_details) \<times> mailbox" where
  "interrupt_loop tid old now [] acc mb = (Inr acc, mb)"
| "interrupt_loop tid old now (k # ks) acc mb =
     (case dispatches mb k of
        None \<Rightarrow> interrupt_loop tid old now ks acc mb
      | Some d \<Rightarrow>
          if thread_id d \<noteq> tid then interrupt_loop tid old now ks acc mb
          else if status d = Queued \<and> dispatch_epoch d \<le> old then
            (case state_mark_superseded now (Some reason_queued_superseded_by_interrupt) d of
               (Inl p, d') \<Rightarrow> (Inl p, put_dispatch k d' mb)
             | (Inr _, d') \<Rightarrow>
                 interrupt_loop tid old now ks
                   (acc\<lparr>superseded_count := superseded_count acc + 1,
                        superseded_dispatches := superseded_dispatches acc @ [d']\<rparr>)
                   (put_dispatch k d' mb))
          else if status d = Claimed then
            interrupt_loop tid old now ks (acc\<lparr>active_dispatch := Some d\<rparr>) mb
          else interrupt_loop tid old now ks acc mb)"

definition mailbox_interrupt_detailed :: "string list \<Rightarrow> string \<Rightarrow> u64 \<Rightarrow> mailbox \<Rightarrow>
     (mailbox_failure + mailbox_interrupt_details) \<times> mailbox" where
  "mailbox_interrupt_detailed ord tid now mb =
     (let old = current_epoch_from_state (epochs mb) tid;
          new_epoch = old + 1;
          mb1 = mb\<lparr>epochs := (epochs mb)(tid \<mapsto> new_epoch)\<rparr>
      in interrupt_loop tid old now ord
           \<lparr>new_dispatch_epoch = new_epoch, active_dispatch = None, superseded_count = 0,
            superseded_dispatches = []\<rparr> mb1)"

text \<open>\<^verbatim>\<open>interrupt\<close> keeps the summary of the details: epoch, active dispatch and count.\<close>

definition mailbox_interrupt :: "string list \<Rightarrow> string \<Rightarrow> u64 \<Rightarrow> mailbox \<Rightarrow>
     (mailbox_failure + u64 \<times> run_dispatch option \<times> nat) \<times> mailbox" where
  "mailbox_interrupt ord tid now mb =
     (case mailbox_interrupt_detailed ord tid now mb of
        (Inl p, mb') \<Rightarrow> (Inl p, mb')
      | (Inr i, mb') \<Rightarrow>
          (Inr (new_dispatch_epoch i, active_dispatch i, superseded_count i), mb'))"

definition mailbox_current_dispatch_epoch :: "string \<Rightarrow> mailbox \<Rightarrow> u64" where
  "mailbox_current_dispatch_epoch tid mb = current_epoch_from_state (epochs mb) tid"

definition mailbox_supersede_claimed :: "string \<Rightarrow> string \<Rightarrow> u64 \<Rightarrow> string \<Rightarrow> mailbox \<Rightarrow>
     (mailbox_failure + run_dispatch option) \<times> mailbox" where
  "mailbox_supersede_claimed did token now reason mb =
     (case dispatches mb did of
        None \<Rightarrow> (Inr None, mb)
      | Some d \<Rightarrow>
          if status d \<noteq> Claimed then (Inr None, mb)
          else if claim_token d \<noteq> Some token then (Inl (Storage (VersionConflict 0 1)), mb)
          else
            let cur = current_epoch_from_state (epochs mb) (thread_id d) in
            (case state_mark_superseded_at_epoch now (max (dispatch_epoch d) cur) (Some reason) d of
               (Inl p, d') \<Rightarrow> (Inl p, put_dispatch did d' mb)
             | (Inr _, d') \<Rightarrow> (Inr (Some d'), put_dispatch did d' mb)))"

section \<open>Read path\<close>

definition mailbox_load_dispatch :: "string \<Rightarrow> mailbox \<Rightarrow> run_dispatch option" where
  "mailbox_load_dispatch did mb = dispatches mb did"

definition mailbox_list_dispatches :: "string list \<Rightarrow> string \<Rightarrow> run_dispatch_status list option \<Rightarrow>
     nat \<Rightarrow> nat \<Rightarrow> mailbox \<Rightarrow> run_dispatch list" where
  "mailbox_list_dispatches ord tid status_filter limit offset mb =
     take limit (drop offset (sort_key (\<lambda>j. (priority j, created_at j))
       (filter (\<lambda>j. thread_id j = tid \<and>
           (case status_filter of None \<Rightarrow> True | Some sf \<Rightarrow> status j \<in> set sf))
         (hm_values ord (dispatches mb)))))"

definition mailbox_count_by_status :: "string list \<Rightarrow> run_dispatch_status \<Rightarrow> mailbox \<Rightarrow> nat" where
  "mailbox_count_by_status ord st mb =
     length (filter (\<lambda>j. status j = st) (hm_values ord (dispatches mb)))"

definition mailbox_list_terminal :: "string list \<Rightarrow> nat \<Rightarrow> nat \<Rightarrow> mailbox \<Rightarrow> run_dispatch list" where
  "mailbox_list_terminal ord limit offset mb =
     take limit (drop offset (sort_key (\<lambda>j. (updated_at j, created_at j, dispatch_id j))
       (filter (\<lambda>j. is_terminal (status j)) (hm_values ord (dispatches mb)))))"

definition mailbox_queued_thread_ids :: "string list \<Rightarrow> mailbox \<Rightarrow> string list" where
  "mailbox_queued_thread_ids ord mb =
     sort (remdups (map thread_id
       (filter (\<lambda>j. status j = Queued) (hm_values ord (dispatches mb)))))"

section \<open>Maintenance\<close>

fun reclaim_loop :: "u64 \<Rightarrow> string list \<Rightarrow> run_dispatch list \<Rightarrow> mailbox \<Rightarrow>
     (mailbox_failure + run_dispatch list) \<times> mailbox" where
  "reclaim_loop now [] acc mb = (Inr acc, mb)"
| "reclaim_loop now (k # ks) acc mb =
     (case dispatches mb k of
        None \<Rightarrow> (Inl (Storage (NotFound k)), mb)
      | Some d \<Rightarrow>
          let cur = current_epoch_from_state (epochs mb) (thread_id d) in
          if dispatch_epoch d < cur then
            (case state_mark_superseded_at_epoch now cur
                    (Some reason_claimed_lease_expired_after_interrupt) d of
               (Inl p, d') \<Rightarrow> (Inl p, put_dispatch k d' mb)
             | (Inr _, d') \<Rightarrow> reclaim_loop now ks acc (put_dispatch k d' mb))
          else
            (case state_mark_expired_lease now d of
               (Inl p, d') \<Rightarrow> (Inl p, put_dispatch k d' mb)
             | (Inr _, d') \<Rightarrow> reclaim_loop now ks (acc @ [d']) (put_dispatch k d' mb)))"

definition lease_expired :: "u64 \<Rightarrow> run_dispatch \<Rightarrow> bool" where
  "lease_expired now d \<longleftrightarrow> status d = Claimed \<and>
     (case lease_until d of None \<Rightarrow> False | Some lu \<Rightarrow> lu < now)"

definition mailbox_reclaim_expired_leases :: "string list \<Rightarrow> u64 \<Rightarrow> nat \<Rightarrow> mailbox \<Rightarrow>
     (mailbox_failure + run_dispatch list) \<times> mailbox" where
  "mailbox_reclaim_expired_leases ord now limit mb =
     reclaim_loop now
       (map dispatch_id (take limit (filter (lease_expired now) (hm_values ord (dispatches mb)))))
       [] mb"

definition mailbox_purge_terminal :: "string list \<Rightarrow> u64 \<Rightarrow> mailbox \<Rightarrow> nat \<times> mailbox" where
  "mailbox_purge_terminal ord older_than mb =
     (let before = length (hm_values ord (dispatches mb));
          ds = hm_retain (\<lambda>_ j. \<not> (is_terminal (status j) \<and> updated_at j < older_than))
                 (dispatches mb);
          live_threads = set (map thread_id (hm_values ord ds));
          st = hm_retain (\<lambda>tid _. tid \<in> live_threads) (epochs mb)
      in (before - length (hm_values ord ds), mb\<lparr>dispatches := ds, epochs := st\<rparr>))"

end
