(* ===== verification/Mailbox_Inv.thy ===== *)
theory Mailbox_Inv
imports Mailbox
begin

text \<open>
  Correctness of the in-memory mailbox: the invariant of the store, one preservation lemma per
  operation, the step relation of the store and its reachable states.
\<close>

section \<open>The invariant\<close>

definition entry_ok :: "mailbox \<Rightarrow> string \<Rightarrow> run_dispatch \<Rightarrow> bool" where
  "entry_ok mb k d \<longleftrightarrow> dispatch_id d = k \<and> dispatch_ok d \<and> thread_id d \<in> dom (epochs mb) \<and>
     dispatch_epoch d \<le> current_epoch_from_state (epochs mb) (thread_id d)"

definition mb_inv :: "mailbox \<Rightarrow> bool" where
  "mb_inv mb \<longleftrightarrow> (\<forall>k d. dispatches mb k = Some d \<longrightarrow> entry_ok mb k d)"

lemma mb_invD: "mb_inv mb \<Longrightarrow> dispatches mb k = Some d \<Longrightarrow> entry_ok mb k d"
  by (simp add: mb_inv_def)

lemma mb_inv_ok [intro]: "mb_inv mb \<Longrightarrow> dispatches mb k = Some d \<Longrightarrow> dispatch_ok d"
  by (simp add: mb_inv_def entry_ok_def)

lemma mb_inv_id: "mb_inv mb \<Longrightarrow> dispatches mb k = Some d \<Longrightarrow> dispatch_id d = k"
  by (simp add: mb_inv_def entry_ok_def)

lemma token_claimed: "dispatch_ok d \<Longrightarrow> claim_token d = Some t \<Longrightarrow> status d = Claimed"
  by (cases "status d") (auto simp: ok_defs)

text \<open>
  What an operation on the entries may do to the store: no entry appears or goes, epochs stay,
  and every entry evolves along the lifecycle. The second relation adds that no entry becomes
  claimed.
\<close>

definition mb_advances :: "mailbox \<Rightarrow> mailbox \<Rightarrow> bool" where
  "mb_advances mb mb' \<longleftrightarrow> epochs mb' = epochs mb \<and>
     (\<forall>k. rel_option dispatch_evolves\<^sup>*\<^sup>* (dispatches mb k) (dispatches mb' k))"

definition claims_none :: "mailbox \<Rightarrow> mailbox \<Rightarrow> bool" where
  "claims_none mb mb' \<longleftrightarrow>
     (\<forall>k d d'. dispatches mb k = Some d \<longrightarrow> dispatches mb' k = Some d' \<longrightarrow> status d' = Claimed \<longrightarrow>
        status d = Claimed)"

lemma mb_advances_refl [simp]: "mb_advances mb mb"
  by (simp add: mb_advances_def option.rel_refl)

lemma claims_none_refl [simp]: "claims_none mb mb"
  by (auto simp: claims_none_def)

lemma mb_advances_trans: "mb_advances a b \<Longrightarrow> mb_advances b c \<Longrightarrow> mb_advances a c"
  using transpD [OF option.rel_transp [OF transp_rtranclp [of dispatch_evolves]]]
  unfolding mb_advances_def by (intro conjI allI) (simp, blast)

lemma mb_advancesD:
  "mb_advances a b \<Longrightarrow> dispatches a k = Some d \<Longrightarrow>
     \<exists>d'. dispatches b k = Some d' \<and> dispatch_evolves\<^sup>*\<^sup>* d d'"
  unfolding mb_advances_def by (metis option_rel_Some1)

lemma mb_advances_back:
  "mb_advances a b \<Longrightarrow> dispatches b k = Some d' \<Longrightarrow>
     \<exists>d. dispatches a k = Some d \<and> dispatch_evolves\<^sup>*\<^sup>* d d'"
  unfolding mb_advances_def by (metis option_rel_Some2)

lemma claims_none_trans:
  "mb_advances a b \<Longrightarrow> claims_none a b \<Longrightarrow> claims_none b c \<Longrightarrow> claims_none a c"
  unfolding claims_none_def by (blast dest: mb_advancesD)

lemma put_dispatch_simps [simp]:
  "dispatches (put_dispatch k d mb) = (dispatches mb)(k \<mapsto> d)"
  "epochs (put_dispatch k d mb) = epochs mb"
  by (simp_all add: put_dispatch_def)

text \<open>What the store gets from a transition, whichever it is.\<close>

context dispatch_transition
begin

lemma expect: "dispatch_ok d \<Longrightarrow> pre d \<Longrightarrow> expect_ok msg (step d) = (Inr (), snd (step d))"
  by (metis expect_ok_Inr result)

lemma put_inv:
  assumes "mb_inv mb" "dispatches mb k = Some d" "pre d"
    and "\<And>e. new_epoch = Some e \<Longrightarrow> e \<le> current_epoch_from_state (epochs mb) (thread_id d)"
  shows "mb_inv (put_dispatch k (snd (step d)) mb)"
proof -
  have d: "entry_ok mb k d" using assms(1,2) by (rule mb_invD)
  then have ok: "dispatch_ok d" by (simp add: entry_ok_def)
  have "entry_ok mb k (snd (step d))"
    using d keeps_ok [OF ok assms(3)] evolves [OF ok assms(3)] sets_epoch [OF ok assms(3)] assms(4)
    by (auto simp: entry_ok_def dispatch_evolves_def split: option.splits)
  with assms(1) show ?thesis by (auto simp: mb_inv_def entry_ok_def)
qed

lemma put_advances:
  assumes "mb_inv mb" "dispatches mb k = Some d" "pre d"
  shows "mb_advances mb (put_dispatch k (snd (step d)) mb)"
  using evolves [of d] assms by (auto simp: mb_advances_def option.rel_refl)

end

text \<open>
  A step that is sound from a state of the invariant: it does not panic, and the state it leaves
  satisfies the invariant, has every entry evolved along the lifecycle, and no new claim.
\<close>

definition sound_step :: "mailbox \<Rightarrow> (mailbox_failure + 'a) \<times> mailbox \<Rightarrow> bool" where
  "sound_step mb r \<longleftrightarrow> (\<forall>m. fst r \<noteq> Inl (Panicked m)) \<and> mb_inv (snd r) \<and>
     mb_advances mb (snd r) \<and> claims_none mb (snd r)"

lemma sound_step_same: "mb_inv mb \<Longrightarrow> (\<And>m. r \<noteq> Inl (Panicked m)) \<Longrightarrow> sound_step mb (r, mb)"
  by (simp add: sound_step_def)

lemma sound_step_trans:
  "mb_advances a b \<Longrightarrow> claims_none a b \<Longrightarrow> sound_step b r \<Longrightarrow> sound_step a r"
  by (auto simp: sound_step_def intro: mb_advances_trans claims_none_trans)

lemma sound_step_seq: "sound_step a (r, b) \<Longrightarrow> sound_step b r' \<Longrightarrow> sound_step a r'"
  by (rule sound_step_trans [of a b]) (simp_all add: sound_step_def [of a])

lemma sound_step_inv: "sound_step a (r, b) \<Longrightarrow> mb_inv b"
  by (simp add: sound_step_def)

context settling_transition
begin

lemma put_claims_none:
  assumes "mb_inv mb" "dispatches mb k = Some d" "pre d"
  shows "claims_none mb (put_dispatch k (snd (step d)) mb)"
  using claims_nothing [of d] assms by (auto simp: claims_none_def)

lemma put_sound:
  assumes "mb_inv mb" "dispatches mb k = Some d" "pre d"
    and "\<And>e. new_epoch = Some e \<Longrightarrow> e \<le> current_epoch_from_state (epochs mb) (thread_id d)"
    and "\<And>m. r \<noteq> Inl (Panicked m)"
  shows "sound_step mb (r, put_dispatch k (snd (step d)) mb)"
  using put_inv [OF assms(1-4)] put_advances [OF assms(1-3)] put_claims_none [OF assms(1-3)]
    assms(5)
  by (simp add: sound_step_def)

end

section \<open>Every operation is sound\<close>

lemmas state_step_defs =
  state_mark_superseded_def state_mark_superseded_at_epoch_def state_mark_acked_def
  state_mark_cancelled_def state_mark_dead_letter_def state_mark_nack_result_def
  state_mark_expired_lease_def

lemma live_claimed: "status d = Claimed \<Longrightarrow> live d"
  and live_queued: "status d = Queued \<Longrightarrow> live d"
  by (simp_all add: live_def)

lemma storage_not_panicked [simp]: "storage r \<noteq> Inl (Panicked m)"
  by (cases r) (simp_all add: storage_def)

lemma state_superseded_at_epoch_eq:
  "dispatch_ok d \<Longrightarrow> live d \<Longrightarrow> state_mark_superseded_at_epoch now e r d =
     (Inr (), snd (dispatch_mark_superseded_at_epoch now e r d))"
  by (simp add: state_mark_superseded_at_epoch_def supersede_epoch_step.expect)

lemma reject_stale_sound:
  assumes "mb_inv mb" "dispatches mb k = Some d" "live d"
    and "e \<le> current_epoch_from_state (epochs mb) (thread_id d)"
  shows "sound_step mb (reject_stale k now e reason d mb)"
  using assms by (auto simp: reject_stale_def state_superseded_at_epoch_eq mb_inv_ok
      intro!: supersede_epoch_step.put_sound)

lemma mailbox_ack_sound: "mb_inv mb \<Longrightarrow> sound_step mb (mailbox_ack k token now mb)"
  by (auto simp: mailbox_ack_def Let_def state_mark_acked_def ack_step.expect token_claimed
      mb_inv_ok intro!: sound_step_same reject_stale_sound ack_step.put_sound
      intro: live_claimed split: option.split)

lemma mailbox_nack_sound: "mb_inv mb \<Longrightarrow> sound_step mb (mailbox_nack k token retry_at err now mb)"
  by (auto simp: mailbox_nack_def Let_def state_mark_nack_result_def nack_step.expect
      token_claimed mb_inv_ok intro!: sound_step_same reject_stale_sound nack_step.put_sound
      intro: live_claimed split: option.split)

lemma mailbox_dead_letter_sound:
  "mb_inv mb \<Longrightarrow> sound_step mb (mailbox_dead_letter k token err now mb)"
  by (auto simp: mailbox_dead_letter_def Let_def state_mark_dead_letter_def
      dead_letter_step.expect token_claimed mb_inv_ok
      intro!: sound_step_same reject_stale_sound dead_letter_step.put_sound
      intro: live_claimed split: option.split)

lemma mailbox_record_dispatch_start_sound:
  "mb_inv mb \<Longrightarrow> sound_step mb (mailbox_record_dispatch_start k token inst now mb)"
  by (auto simp: mailbox_record_dispatch_start_def Let_def mb_inv_ok split_beta
      intro!: sound_step_same reject_stale_sound start_step.put_sound
      intro: live_claimed split: option.split)

lemma mailbox_record_run_result_sound:
  assumes "mb_inv mb"
  shows "sound_step mb (mailbox_record_run_result k token result now mb)"
proof -
  have mismatch: "snd (dispatch_record_run_result result now d) = d"
    if "status d = Claimed" "res_run_id result \<noteq> run_id d" for d
    using that by (simp add: dispatch_record_run_result_def require_status_def)
  have same: "put_dispatch k d mb = mb" if "dispatches mb k = Some d" for d
    using that by (simp add: put_dispatch_def fun_upd_idem)
  show ?thesis
  proof (cases "dispatches mb k")
    case None
    with assms show ?thesis by (simp add: mailbox_record_run_result_def sound_step_same)
  next
    case (Some d)
    show ?thesis
    proof (cases "res_run_id result = run_id d")
      case True
      with Some assms show ?thesis
        by (auto simp: mailbox_record_run_result_def Let_def split_beta
            intro!: sound_step_same reject_stale_sound result_step.put_sound
            intro: live_claimed)
    next
      case False
      with Some assms mismatch [of d] show ?thesis
        by (auto simp: mailbox_record_run_result_def Let_def split_beta same
            intro!: sound_step_same reject_stale_sound intro: live_claimed)
    qed
  qed
qed

lemma mailbox_cancel_sound: "mb_inv mb \<Longrightarrow> sound_step mb (mailbox_cancel k now mb)"
  by (auto simp: mailbox_cancel_def state_mark_cancelled_def cancel_step.expect mb_inv_ok
      intro!: sound_step_same cancel_step.put_sound split: option.split)

lemma mailbox_extend_lease_sound:
  assumes "mb_inv mb"
  shows "sound_step mb (mailbox_extend_lease k token ext now mb)"
proof (cases "dispatches mb k")
  case None
  with assms show ?thesis by (simp add: mailbox_extend_lease_def sound_step_same)
next
  case (Some d)
  have ok: "dispatch_ok d" using assms Some by (rule mb_inv_ok)
  show ?thesis
  proof (cases "status d = Claimed")
    case True
    obtain d' where d': "dispatch_extend_lease (now + ext) now d = (Inr (), d')"
      using extend_step.result [OF ok True] by blast
    have "sound_step mb (Inr True, put_dispatch k d' mb)"
      using extend_step.put_sound [OF assms Some True, of "Inr True"] d'
      by (metis Inr_not_Inl option.distinct(1) snd_conv)
    with assms Some ok True d' show ?thesis
      by (auto simp: mailbox_extend_lease_def Let_def state_superseded_at_epoch_eq live_claimed
          intro!: sound_step_same supersede_epoch_step.put_sound)
  next
    case False
    with assms Some show ?thesis by (simp add: mailbox_extend_lease_def sound_step_same)
  qed
qed

lemma mailbox_supersede_claimed_sound:
  "mb_inv mb \<Longrightarrow> sound_step mb (mailbox_supersede_claimed k token now reason mb)"
  by (auto simp: mailbox_supersede_claimed_def Let_def state_superseded_at_epoch_eq mb_inv_ok
      live_claimed max_def intro!: sound_step_same supersede_epoch_step.put_sound
      dest: mb_invD simp: entry_ok_def split: option.split)

section \<open>The loops\<close>

lemma state_superseded_eq:
  "dispatch_ok d \<Longrightarrow> status d = Queued \<Longrightarrow> state_mark_superseded now r d =
     (Inr (), snd (dispatch_mark_superseded now r d))"
  by (simp add: state_mark_superseded_def supersede_step.expect)

lemma state_expired_eq:
  "dispatch_ok d \<Longrightarrow> status d = Claimed \<Longrightarrow> state_mark_expired_lease now d =
     (Inr (), snd (dispatch_mark_expired_lease now ''lease expired; max attempts reached'' d))"
  by (simp add: state_mark_expired_lease_def expire_step.expect)

lemma put_superseded_epoch_sound:
  assumes "mb_inv mb" "dispatches mb k = Some d" "live d"
    and "e \<le> current_epoch_from_state (epochs mb) (thread_id d)"
  shows "sound_step mb (Inr (), put_dispatch k (snd (dispatch_mark_superseded_at_epoch now e r d)) mb)"
  using assms by (intro supersede_epoch_step.put_sound) auto

text \<open>Superseding the stale queued dispatches of a thread, in full: a pointwise update.\<close>

definition stale_queued :: "string \<Rightarrow> u64 \<Rightarrow> run_dispatch \<Rightarrow> bool" where
  "stale_queued tid cur d \<longleftrightarrow> thread_id d = tid \<and> status d = Queued \<and> dispatch_epoch d < cur"

definition supersede_stale :: "u64 \<Rightarrow> u64 \<Rightarrow> run_dispatch \<Rightarrow> run_dispatch" where
  "supersede_stale cur now d = snd (dispatch_mark_superseded_at_epoch now cur
     (Some reason_queued_superseded_by_epoch) d)"

lemma supersede_stale_status: "status d = Queued \<Longrightarrow> status (supersede_stale cur now d) = Superseded"
  by (simp add: supersede_stale_def dispatch_mark_superseded_at_epoch_def
      dispatch_mark_superseded_def transition_defs)

text \<open>The entries of the given keys, each changed by \<open>f\<close>.\<close>

definition update_at :: "string set \<Rightarrow> (run_dispatch \<Rightarrow> run_dispatch) \<Rightarrow> mailbox \<Rightarrow> mailbox" where
  "update_at K f mb =
     mb\<lparr>dispatches := (\<lambda>k. if k \<in> K then map_option f (dispatches mb k) else dispatches mb k)\<rparr>"

lemma update_at_simps [simp]:
  "dispatches (update_at K f mb) k = (if k \<in> K then map_option f (dispatches mb k) else dispatches mb k)"
  "epochs (update_at K f mb) = epochs mb"
  "update_at {} f mb = mb"
  by (simp_all add: update_at_def)

lemma update_at_cong:
  "(\<And>k. dispatches (update_at K f mb) k = dispatches (update_at L g mb') k) \<Longrightarrow>
     epochs mb = epochs mb' \<Longrightarrow> update_at K f mb = update_at L g mb'"
  by (intro mailbox.equality ext) auto

lemma update_at_insert:
  "dispatches mb k = Some d \<Longrightarrow> k \<notin> K \<Longrightarrow>
     update_at K f (put_dispatch k (f d) mb) = update_at (insert k K) f mb"
  by (rule update_at_cong) auto

lemma update_at_insert_same:
  "map_option f (dispatches mb k) = dispatches mb k \<Longrightarrow> update_at (insert k K) f mb = update_at K f mb"
  by (rule update_at_cong) auto

lemma supersede_stale_queued_eq:
  assumes "mb_inv mb" "cur \<le> current_epoch_from_state (epochs mb) tid" "distinct ks"
  shows "supersede_stale_queued tid cur now ks mb = (Inr (), update_at (set ks)
     (\<lambda>d. if stale_queued tid cur d then supersede_stale cur now d else d) mb)"
    (is "_ = (_, update_at _ ?f _)")
  using assms
proof (induction ks arbitrary: mb)
  case Nil
  then show ?case by simp
next
  case (Cons k ks)
  show ?case
  proof (cases "\<exists>d. dispatches mb k = Some d \<and> stale_queued tid cur d")
    case False
    then have "supersede_stale_queued tid cur now (k # ks) mb = supersede_stale_queued tid cur now ks mb"
      by (auto simp: stale_queued_def split: option.split)
    moreover have "map_option ?f (dispatches mb k) = dispatches mb k"
      using False by (cases "dispatches mb k") auto
    ultimately show ?thesis
      using Cons by (simp add: update_at_insert_same del: supersede_stale_queued.simps)
  next
    case True
    then obtain d where d: "dispatches mb k = Some d" "stale_queued tid cur d" by blast
    have ok: "dispatch_ok d" using Cons.prems(1) d(1) by (rule mb_inv_ok)
    let ?mb = "put_dispatch k (?f d) mb"
    have "sound_step mb (Inr () :: mailbox_failure + unit, ?mb)"
      unfolding supersede_stale_def using Cons.prems d
      by (auto simp: stale_queued_def live_queued intro!: put_superseded_epoch_sound)
    then have "supersede_stale_queued tid cur now ks ?mb = (Inr (), update_at (set ks) ?f ?mb)"
      using Cons.prems sound_step_inv by (intro Cons.IH) auto
    moreover have
      "supersede_stale_queued tid cur now (k # ks) mb = supersede_stale_queued tid cur now ks ?mb"
      using d ok by (simp add: stale_queued_def state_superseded_at_epoch_eq live_queued
          supersede_stale_def)
    ultimately show ?thesis
      using Cons.prems(3) d(1) update_at_insert [of mb k d "set ks" ?f] by simp
  qed
qed

lemma supersede_stale_queued_sound:
  assumes "mb_inv mb" "cur \<le> current_epoch_from_state (epochs mb) tid"
  shows "sound_step mb (supersede_stale_queued tid cur now ks mb)"
  using assms
proof (induction ks arbitrary: mb)
  case Nil
  then show ?case by (simp add: sound_step_same)
next
  case (Cons k ks)
  show ?case
  proof (cases "\<exists>d. dispatches mb k = Some d \<and> stale_queued tid cur d")
    case False
    then have "supersede_stale_queued tid cur now (k # ks) mb = supersede_stale_queued tid cur now ks mb"
      by (auto simp: stale_queued_def split: option.split)
    with Cons show ?thesis by simp
  next
    case True
    then obtain d where d: "dispatches mb k = Some d" "stale_queued tid cur d" by blast
    have ok: "dispatch_ok d" using Cons.prems(1) d(1) by (rule mb_inv_ok)
    let ?mb = "put_dispatch k (supersede_stale cur now d) mb"
    have s: "sound_step mb (Inr () :: mailbox_failure + unit, ?mb)"
      unfolding supersede_stale_def
      using Cons.prems d by (intro put_superseded_epoch_sound) (auto simp: stale_queued_def live_queued)
    then have "sound_step ?mb (supersede_stale_queued tid cur now ks ?mb)"
      using Cons.prems by (intro Cons.IH) (auto simp: sound_step_def)
    moreover have "supersede_stale_queued tid cur now (k # ks) mb = supersede_stale_queued tid cur now ks ?mb"
      using d ok by (simp add: stale_queued_def state_superseded_at_epoch_eq live_queued
          supersede_stale_def)
    ultimately show ?thesis using sound_step_seq [OF s] by simp
  qed
qed

lemma interrupt_loop_sound:
  assumes "mb_inv mb"
  shows "sound_step mb (interrupt_loop tid old now ks acc mb)"
  using assms
proof (induction ks arbitrary: acc mb)
  case Nil
  then show ?case by (simp add: sound_step_same)
next
  case (Cons k ks)
  show ?case
  proof (cases "dispatches mb k")
    case None
    with Cons show ?thesis by simp
  next
    case (Some d)
    have ok: "dispatch_ok d" using Cons.prems Some by (rule mb_inv_ok)
    show ?thesis
    proof (cases "thread_id d = tid \<and> status d = Queued \<and> dispatch_epoch d \<le> old")
      case True
      let ?mb = "put_dispatch k (snd (dispatch_mark_superseded now
         (Some reason_queued_superseded_by_interrupt) d)) mb"
      have s: "sound_step mb (Inr () :: mailbox_failure + unit, ?mb)"
        using Cons.prems Some True by (intro supersede_step.put_sound) auto
      have "sound_step mb (interrupt_loop tid old now ks acc' ?mb)" for acc'
        using s by (rule sound_step_seq) (rule Cons.IH [OF sound_step_inv [OF s]])
      with True Some ok show ?thesis by (auto simp: state_superseded_eq)
    next
      case False
      with Cons Some show ?thesis by auto
    qed
  qed
qed

lemma reclaim_loop_sound:
  assumes "mb_inv mb" "distinct ks" "\<And>k. k \<in> set ks \<Longrightarrow> \<exists>d. dispatches mb k = Some d \<and> status d = Claimed"
  shows "sound_step mb (reclaim_loop now ks acc mb)"
  using assms
proof (induction ks arbitrary: acc mb)
  case Nil
  then show ?case by (simp add: sound_step_same)
next
  case (Cons k ks)
  obtain d where d: "dispatches mb k = Some d" "status d = Claimed"
    using Cons.prems(3) [of k] by auto
  have ok: "dispatch_ok d" using Cons.prems(1) d(1) by (rule mb_inv_ok)
  have step: "sound_step mb (reclaim_loop now ks acc' (put_dispatch k d' mb))"
    if s: "sound_step mb (Inr () :: mailbox_failure + unit, put_dispatch k d' mb)" for acc' d'
    using s
  proof (rule sound_step_seq)
    show "sound_step (put_dispatch k d' mb) (reclaim_loop now ks acc' (put_dispatch k d' mb))"
      using Cons.prems sound_step_inv [OF s] by (intro Cons.IH) auto
  qed
  let ?cur = "current_epoch_from_state (epochs mb) (thread_id d)"
  show ?case
  proof (cases "dispatch_epoch d < ?cur")
    case True
    have "sound_step mb (Inr () :: mailbox_failure + unit, put_dispatch k (snd (dispatch_mark_superseded_at_epoch
        now ?cur (Some reason_claimed_lease_expired_after_interrupt) d)) mb)"
      using Cons.prems d by (intro put_superseded_epoch_sound) (auto simp: live_claimed)
    then show ?thesis
      using d ok True step by (simp add: Let_def state_superseded_at_epoch_eq live_claimed)
  next
    case False
    have "sound_step mb (Inr () :: mailbox_failure + unit,
        put_dispatch k (snd (dispatch_mark_expired_lease now ''lease expired; max attempts reached'' d)) mb)"
      using Cons.prems d by (intro expire_step.put_sound) auto
    then show ?thesis
      using d ok False step by (simp add: Let_def state_expired_eq)
  qed
qed

end
