(* ===== verification/Mailbox_Claim.thy ===== *)
theory Mailbox_Claim
imports Mailbox_Inv
begin

text \<open>
  What \<^verbatim>\<open>claim\<close> and \<^verbatim>\<open>claim_dispatch\<close> of the in-memory mailbox return and leave: which dispatches
  they take, in which order, and that they keep the invariant of the store.
\<close>

section \<open>Taking a list of queued dispatches\<close>

definition claimed_as :: "string \<Rightarrow> string \<Rightarrow> u64 \<Rightarrow> u64 \<Rightarrow> run_dispatch \<Rightarrow> run_dispatch" where
  "claimed_as consumer token lease now d = snd (dispatch_claim consumer token lease now d)"

lemma claimed_as_eq:
  "status d = Queued \<Longrightarrow> claimed_as consumer token lease now d =
     d\<lparr>status := Claimed, claim_token := Some token, claimed_by := Some consumer,
       lease_until := Some lease, updated_at := now\<rparr>"
  by (simp add: claimed_as_def dispatch_claim_def require_status_def)

definition queued_at :: "mailbox \<Rightarrow> string \<Rightarrow> bool" where
  "queued_at mb k \<longleftrightarrow> (\<exists>d. dispatches mb k = Some d \<and> status d = Queued)"

lemma put_claimed:
  assumes "mb_inv mb" "dispatches mb k = Some d" "status d = Queued"
    "\<not> is_blank consumer" "\<not> is_blank token"
  shows "dispatch_claim consumer token lease now d = (Inr (), claimed_as consumer token lease now d)"
    and "mb_inv (put_dispatch k (claimed_as consumer token lease now d) mb)"
    and "mb_advances mb (put_dispatch k (claimed_as consumer token lease now d) mb)"
  using assms claim_step.result [of d consumer token lease now]
    claim_step.put_inv [of mb k d consumer token lease now]
    claim_step.put_advances [of mb k d consumer token lease now]
  by (auto simp: claimed_as_def mb_inv_ok)

lemma claim_all_spec:
  fixes lease now :: u64
  assumes "mb_inv mb" "distinct ks" "\<And>k. k \<in> set ks \<Longrightarrow> queued_at mb k"
    "\<not> is_blank consumer" "\<not> is_blank token"
  defines "f \<equiv> claimed_as consumer token lease now"
  shows "claim_all consumer token lease now ks acc mb =
       (Inr (acc @ map (\<lambda>k. f (the (dispatches mb k))) ks), update_at (set ks) f mb) \<and>
     mb_inv (update_at (set ks) f mb) \<and> mb_advances mb (update_at (set ks) f mb)"
  using assms(1-3)
proof (induction ks arbitrary: acc mb)
  case Nil
  then show ?case by simp
next
  case (Cons k ks)
  obtain d where d: "dispatches mb k = Some d" "status d = Queued"
    using Cons.prems(3) [of k] by (auto simp: queued_at_def)
  note put = put_claimed [OF Cons.prems(1) d assms(4,5), of lease now, folded f_def]
  have IH: "claim_all consumer token lease now ks (acc @ [f d]) (put_dispatch k (f d) mb) =
       (Inr ((acc @ [f d]) @ map (\<lambda>k'. f (the (dispatches (put_dispatch k (f d) mb) k'))) ks),
        update_at (set ks) f (put_dispatch k (f d) mb)) \<and>
     mb_inv (update_at (set ks) f (put_dispatch k (f d) mb)) \<and>
     mb_advances (put_dispatch k (f d) mb) (update_at (set ks) f (put_dispatch k (f d) mb))"
    using Cons.prems put(2) by (intro Cons.IH) (auto simp: queued_at_def)
  have upd: "update_at (set ks) f (put_dispatch k (f d) mb) = update_at (insert k (set ks)) f mb"
    using d(1) Cons.prems(2) by (intro update_at_insert) auto
  have "map (\<lambda>k'. f (the (dispatches (put_dispatch k (f d) mb) k'))) ks =
      map (\<lambda>k'. f (the (dispatches mb k'))) ks"
    using Cons.prems(2) by (intro map_cong) auto
  with IH show ?case
    using d put by (auto simp: upd simp del: put_dispatch_simps intro: mb_advances_trans)
qed

section \<open>The ids a claim takes\<close>

lemma set_eligible_ids:
  "hash_order ord ds \<Longrightarrow>
     set (eligible_ids ord tid now ds) = {k. \<exists>d. ds k = Some d \<and> eligible tid now d}"
  by (auto simp: eligible_ids_def hash_order_def split: option.splits)

lemma distinct_eligible_ids: "distinct ord \<Longrightarrow> distinct (eligible_ids ord tid now ds)"
  by (simp add: eligible_ids_def)

lemma sorted_eligible_ids: "sorted (map (claim_key ds) (eligible_ids ord tid now ds))"
  by (simp add: eligible_ids_def)

lemma claim_key_Some: "ds k = Some d \<Longrightarrow> claim_key ds k = (priority d, created_at d)"
  by (simp add: claim_key_def)

lemma sorted_take_drop:
  assumes "sorted (map f xs)" "x \<in> set (take n xs)" "y \<in> set (drop n xs)"
  shows "f x \<le> f y"
proof -
  have "sorted (map f (take n xs) @ map f (drop n xs))"
    using assms(1) by (metis append_take_drop_id map_append)
  with assms(2,3) show ?thesis by (auto simp: sorted_append)
qed

lemma has_claimed_iff:
  "hash_order ord (dispatches mb) \<Longrightarrow>
     has_claimed ord P mb \<longleftrightarrow> (\<exists>k d. dispatches mb k = Some d \<and> P d \<and> status d = Claimed)"
  by (auto simp: has_claimed_def list_ex_iff set_hm_values dest: hash_orderD)

lemma hash_order_update_at [simp]:
  "hash_order ord (dispatches (update_at K f mb)) \<longleftrightarrow> hash_order ord (dispatches mb)"
  by (auto simp: hash_order_def dom_def set_eq_iff)

text \<open>The state a claim works on, after the stale queued dispatches of the thread are superseded.\<close>

definition fenced :: "string \<Rightarrow> u64 \<Rightarrow> mailbox \<Rightarrow> mailbox" where
  "fenced tid now mb =
     update_at UNIV (\<lambda>d. if stale_queued tid (current_epoch_from_state (epochs mb) tid) d
        then supersede_stale (current_epoch_from_state (epochs mb) tid) now d else d) mb"

lemma epochs_fenced [simp]: "epochs (fenced tid now mb) = epochs mb"
  by (simp add: fenced_def)

lemma hash_order_fenced [simp]:
  "hash_order ord (dispatches (fenced tid now mb)) \<longleftrightarrow> hash_order ord (dispatches mb)"
  by (simp add: fenced_def)

lemma fenced_eq:
  assumes "mb_inv mb" "hash_order ord (dispatches mb)"
  shows "supersede_stale_queued tid (current_epoch_from_state (epochs mb) tid) now ord mb =
    (Inr (), fenced tid now mb)"
proof -
  have "update_at (set ord) f mb = update_at UNIV f mb" for f
    using assms(2) by (intro update_at_cong) (auto simp: hash_order_def dom_def set_eq_iff)
  with assms show ?thesis
    by (simp add: supersede_stale_queued_eq fenced_def hash_order_def)
qed

lemma fenced_sound: "mb_inv mb \<Longrightarrow> hash_order ord (dispatches mb) \<Longrightarrow>
    sound_step mb (Inr () :: mailbox_failure + unit, fenced tid now mb)"
  using supersede_stale_queued_sound [of mb "current_epoch_from_state (epochs mb) tid" tid now ord]
  by (simp add: fenced_eq)

lemma fenced_queued:
  "dispatches (fenced tid now mb) k = Some d \<Longrightarrow> status d = Queued \<Longrightarrow> dispatches mb k = Some d"
  by (auto simp: fenced_def stale_queued_def supersede_stale_status split: if_splits)

lemma fenced_queued_epoch:
  assumes "mb_inv mb" "dispatches (fenced tid now mb) k = Some d" "status d = Queued" "thread_id d = tid"
  shows "dispatch_epoch d = current_epoch_from_state (epochs mb) tid"
proof -
  have "dispatches mb k = Some d" using assms(2,3) by (rule fenced_queued)
  moreover have "\<not> stale_queued tid (current_epoch_from_state (epochs mb) tid) d"
    using assms(2,3) calculation supersede_stale_status [OF assms(3)]
    by (auto simp: fenced_def) (metis run_dispatch_status.distinct(7))
  ultimately show ?thesis
    using mb_invD [OF assms(1)] assms(3,4) by (fastforce simp: entry_ok_def stale_queued_def)
qed

lemma fenced_claimed:
  "dispatches (fenced tid now mb) k = Some d \<and> status d = Claimed \<longleftrightarrow>
     dispatches mb k = Some d \<and> status d = Claimed"
  by (auto simp: fenced_def stale_queued_def supersede_stale_status split: if_splits)

lemma has_claimed_fenced:
  "hash_order ord (dispatches mb) \<Longrightarrow> has_claimed ord P (fenced tid now mb) \<longleftrightarrow> has_claimed ord P mb"
  by (auto simp: has_claimed_iff) (metis fenced_claimed)+

section \<open>The claim\<close>

lemma mailbox_claim_eq:
  fixes lease_ms now :: u64 and tid :: string and limit :: nat
  assumes "mb_inv mb" "hash_order ord (dispatches mb)" "\<not> is_blank consumer" "\<not> is_blank token"
  defines "f \<equiv> claimed_as consumer token (now + lease_ms) now"
    and "mb1 \<equiv> fenced tid now mb"
  defines "ids \<equiv> if has_claimed ord (\<lambda>j. thread_id j = tid) mb then []
        else take limit (eligible_ids ord tid now (dispatches mb1))"
  shows "mailbox_claim ord tid consumer lease_ms now limit token mb =
      (Inr (map (\<lambda>k. f (the (dispatches mb1 k))) ids), update_at (set ids) f mb1)"
    and "mb_inv (update_at (set ids) f mb1) \<and> mb_advances mb (update_at (set ids) f mb1)"
proof -
  have s: "sound_step mb (Inr () :: mailbox_failure + unit, mb1)"
    unfolding mb1_def using assms(1,2) by (rule fenced_sound)
  have q: "queued_at mb1 k" if "k \<in> set ids" for k
    using that set_eligible_ids [of ord "dispatches mb1" tid now] assms(2)
    by (auto simp: ids_def mb1_def queued_at_def eligible_def dest!: in_set_takeD split: if_splits)
  have "distinct ids"
    using assms(2) by (auto simp: ids_def hash_order_def distinct_eligible_ids distinct_take)
  note spec = claim_all_spec [OF sound_step_inv [OF s] this q assms(3,4), of "now + lease_ms" now,
      folded f_def]
  show "mailbox_claim ord tid consumer lease_ms now limit token mb =
      (Inr (map (\<lambda>k. f (the (dispatches mb1 k))) ids), update_at (set ids) f mb1)"
    using spec [of "[]"] assms(1,2) has_claimed_fenced [OF assms(2), of "\<lambda>j. thread_id j = tid" tid now]
    by (cases "has_claimed ord (\<lambda>j. thread_id j = tid) mb")
      (simp_all add: mailbox_claim_def fenced_eq mb1_def [symmetric] ids_def)
  show "mb_inv (update_at (set ids) f mb1) \<and> mb_advances mb (update_at (set ids) f mb1)"
    using spec s by (auto simp: sound_step_def intro: mb_advances_trans)
qed

text \<open>
  C4: What a claim returns and leaves. The queued dispatches of the thread from an older epoch are
  superseded, and only those. When the thread has a claimed dispatch, nothing is returned; otherwise the
  first \<open>limit\<close> of the thread's queued, available dispatches of its current epoch, in the order of
  (priority, creation time): one of them that is not returned comes after all the returned ones, and is
  not returned only because the limit is reached. Each returned dispatch is the stored one with the fresh
  token, the consumer, and a lease from now on. Every other dispatch and every epoch stays as it was.
\<close>
theorem claim_takes_best:
  assumes "mb_inv mb" "hash_order ord (dispatches mb)" "\<not> is_blank consumer" "\<not> is_blank token"
    and "mailbox_claim ord tid consumer lease_ms now limit token mb = (r, mb')"
  shows "\<exists>ds. r = Inr ds \<and> length ds \<le> limit \<and> distinct (map dispatch_id ds) \<and>
    ((\<exists>k d. dispatches mb k = Some d \<and> thread_id d = tid \<and> status d = Claimed) \<longrightarrow> ds = []) \<and>
    sorted (map (\<lambda>d. (priority d, created_at d)) ds) \<and>
    (\<forall>d \<in> set ds. \<exists>d0. dispatches mb (dispatch_id d) = Some d0 \<and>
       dispatches mb' (dispatch_id d) = Some d \<and>
       thread_id d0 = tid \<and> status d0 = Queued \<and> available_at d0 \<le> now \<and>
       dispatch_epoch d0 = current_epoch_from_state (epochs mb) tid \<and>
       d = d0\<lparr>status := Claimed, claim_token := Some token, claimed_by := Some consumer,
             lease_until := Some (now + lease_ms), updated_at := now\<rparr>) \<and>
    (\<forall>k d. dispatches mb k = Some d \<longrightarrow> k \<notin> dispatch_id ` set ds \<longrightarrow>
       (if thread_id d = tid \<and> status d = Queued \<and>
           dispatch_epoch d < current_epoch_from_state (epochs mb) tid
        then \<exists>d'. dispatches mb' k = Some d' \<and> dispatch_id d' = k \<and> status d' = Superseded \<and>
          dispatch_epoch d' = current_epoch_from_state (epochs mb) tid
        else dispatches mb' k = Some d \<and>
          (thread_id d = tid \<and> status d = Queued \<and> available_at d \<le> now \<and>
           \<not> (\<exists>k d. dispatches mb k = Some d \<and> thread_id d = tid \<and> status d = Claimed) \<longrightarrow>
           length ds = limit \<and>
           (\<forall>e \<in> set ds. (priority e, created_at e) \<le> (priority d, created_at d))))) \<and>
    (\<forall>k. dispatches mb k = None \<longrightarrow> dispatches mb' k = None) \<and> epochs mb' = epochs mb"
proof -
  let ?mb1 = "fenced tid now mb"
  let ?f = "claimed_as consumer token (now + lease_ms) now"
  let ?cur = "current_epoch_from_state (epochs mb) tid"
  let ?busy = "\<exists>k d. dispatches mb k = Some d \<and> thread_id d = tid \<and> status d = Claimed"
  let ?el = "eligible_ids ord tid now (dispatches ?mb1)"
  define ids where "ids = (if ?busy then [] else take limit ?el)"
  define ds where "ds = map (\<lambda>k. ?f (the (dispatches ?mb1 k))) ids"
  have busy: "has_claimed ord (\<lambda>j. thread_id j = tid) mb \<longleftrightarrow> ?busy"
    using assms(2) by (rule has_claimed_iff)
  have r: "r = Inr ds" and mb': "mb' = update_at (set ids) ?f ?mb1"
    using mailbox_claim_eq(1) [OF assms(1-4), of tid lease_ms now limit] assms(5)
    by (simp_all add: ids_def ds_def busy)
  have set_el: "k \<in> set ?el \<longleftrightarrow> (\<exists>d. dispatches ?mb1 k = Some d \<and> eligible tid now d)" for k
    using assms(2) by (simp add: set_eligible_ids)
  have taken: "\<exists>d0. dispatches ?mb1 k = Some d0 \<and> eligible tid now d0 \<and> status d0 = Queued \<and>
      dispatches mb k = Some d0 \<and> dispatch_id d0 = k \<and> dispatch_epoch d0 = ?cur" if "k \<in> set ids" for k
    using that set_el [of k] fenced_queued [of tid now mb k] fenced_queued_epoch [OF assms(1)]
      mb_inv_id [OF assms(1), of k]
    by (auto simp: ids_def eligible_def dest!: in_set_takeD split: if_splits)
  have keys: "map (\<lambda>d. (priority d, created_at d)) ds = map (claim_key (dispatches ?mb1)) ids"
    using taken by (fastforce simp: ds_def claim_key_Some claimed_as_eq)
  have same_ids: "map dispatch_id ds = ids"
    unfolding ds_def map_map using taken by (intro map_idI) (fastforce simp: claimed_as_eq)
  have sorted: "sorted (map (\<lambda>d. (priority d, created_at d)) ds)"
    using sorted_eligible_ids [of "dispatches ?mb1" ord tid now]
    by (simp add: keys ids_def take_map [symmetric] sorted_wrt_take)
  have "distinct ids"
    using assms(2) by (auto simp: ids_def hash_order_def distinct_eligible_ids distinct_take)
  then have dist: "distinct (map dispatch_id ds)" by (simp only: same_ids)
  have members: "\<forall>d \<in> set ds. \<exists>d0. dispatches mb (dispatch_id d) = Some d0 \<and>
      dispatches mb' (dispatch_id d) = Some d \<and>
      thread_id d0 = tid \<and> status d0 = Queued \<and> available_at d0 \<le> now \<and> dispatch_epoch d0 = ?cur \<and>
      d = d0\<lparr>status := Claimed, claim_token := Some token, claimed_by := Some consumer,
            lease_until := Some (now + lease_ms), updated_at := now\<rparr>"
    using taken by (fastforce simp: ds_def mb' claimed_as_eq eligible_def)
  have rest: "length ds = limit \<and> (\<forall>e \<in> set ds. (priority e, created_at e) \<le> (priority d, created_at d))"
    if d: "dispatches ?mb1 k = Some d" "eligible tid now d" "k \<notin> set ids" and "\<not> ?busy" for k d
  proof -
    have "k \<in> set ?el" "k \<notin> set (take limit ?el)"
      using set_el d \<open>\<not> ?busy\<close> by (auto simp: ids_def)
    then have k: "k \<in> set (drop limit ?el)" "limit \<le> length ?el"
      by (metis Un_iff append_take_drop_id set_append, metis nle_le take_all_iff)
    have "claim_key (dispatches ?mb1) k' \<le> (priority d, created_at d)" if "k' \<in> set ids" for k'
      using sorted_take_drop [OF sorted_eligible_ids _ k(1), of k'] that \<open>\<not> ?busy\<close> d(1)
      by (simp add: ids_def claim_key_Some)
    then have "\<forall>x \<in> set (map (\<lambda>d. (priority d, created_at d)) ds). x \<le> (priority d, created_at d)"
      unfolding keys by auto
    moreover have "length ids = limit"
      using k(2) \<open>\<not> ?busy\<close> unfolding ids_def by (simp only: if_False length_take min_absorb2)
    ultimately show ?thesis by (simp add: ds_def)
  qed
  have others: "if thread_id d = tid \<and> status d = Queued \<and> dispatch_epoch d < ?cur
      then \<exists>d'. dispatches mb' k = Some d' \<and> dispatch_id d' = k \<and> status d' = Superseded \<and> dispatch_epoch d' = ?cur
      else dispatches mb' k = Some d \<and>
        (thread_id d = tid \<and> status d = Queued \<and> available_at d \<le> now \<and> \<not> ?busy \<longrightarrow>
         length ds = limit \<and> (\<forall>e \<in> set ds. (priority e, created_at e) \<le> (priority d, created_at d)))"
    if d: "dispatches mb k = Some d" and k: "k \<notin> dispatch_id ` set ds" for k d
  proof -
    have k': "k \<notin> set ids" using k same_ids by (metis list.set_map)
    then have entry: "dispatches mb' k = dispatches ?mb1 k" by (simp add: mb')
    show ?thesis
    proof (cases "stale_queued tid ?cur d")
      case True
      then have q: "status d = Queued" by (simp add: stale_queued_def)
      have "dispatches ?mb1 k = Some (supersede_stale ?cur now d)"
        using d True by (simp add: fenced_def)
      moreover have "dispatch_id (supersede_stale ?cur now d) = k" "dispatch_epoch (supersede_stale ?cur now d) = ?cur"
        using supersede_epoch_step.evolves [OF mb_inv_ok [OF assms(1) d] live_queued [OF q]]
          supersede_epoch_step.sets_epoch [OF mb_inv_ok [OF assms(1) d] live_queued [OF q]]
          mb_inv_id [OF assms(1) d]
        by (simp_all add: supersede_stale_def dispatch_evolves_def)
      ultimately show ?thesis
        using True supersede_stale_status [OF q] by (simp add: entry stale_queued_def)
    next
      case False
      then have mb1: "dispatches ?mb1 k = Some d" using d by (simp add: fenced_def)
      with rest [OF mb1 _ k'] False show ?thesis
        unfolding entry by (auto simp: stale_queued_def eligible_def)
    qed
  qed
  have "length ds \<le> limit" "?busy \<longrightarrow> ds = []" by (simp_all add: ds_def ids_def)
  moreover have "\<forall>k. dispatches mb k = None \<longrightarrow> dispatches mb' k = None" "epochs mb' = epochs mb"
    by (simp_all add: mb' fenced_def)
  ultimately show ?thesis using r sorted dist members others by blast
qed

end
