(* ===== verification/Mailbox_Steps.thy ===== *)
theory Mailbox_Steps
imports Mailbox_Claim
begin

text \<open>
  The in-memory mailbox as a transition system: one command per operation of the store, the step
  relation over them, the reachable states, and what holds in all of them.
\<close>

section \<open>The remaining operations keep the invariant\<close>

lemma mailbox_claim_sound:
  assumes "mb_inv mb" "hash_order ord (dispatches mb)" "\<not> is_blank consumer" "\<not> is_blank token"
    and "mailbox_claim ord tid consumer lease_ms now limit token mb = (r, mb')"
  shows "(\<exists>ds. r = Inr ds) \<and> mb_inv mb' \<and> mb_advances mb mb'"
  using mailbox_claim_eq [OF assms(1-4), where tid = tid and now = now and lease_ms = lease_ms and limit = limit] assms(5) by auto

lemma mailbox_claim_dispatch_sound:
  assumes "mb_inv mb" "\<not> is_blank consumer" "\<not> is_blank token"
    and "mailbox_claim_dispatch ord k consumer lease_ms now token mb = (r, mb')"
  shows "(\<exists>res. r = Inr res) \<and> mb_inv mb' \<and> mb_advances mb mb'"
proof (cases "\<exists>d. dispatches mb k = Some d \<and> status d = Queued")
  case False
  with assms show ?thesis by (auto simp: mailbox_claim_dispatch_def split: option.splits)
next
  case True
  then obtain d where d: "dispatches mb k = Some d" "status d = Queued" by blast
  let ?cur = "current_epoch_from_state (epochs mb) (thread_id d)"
  have ok: "dispatch_ok d" using assms(1) d(1) by (rule mb_inv_ok)
  have "sound_step mb (Inr () :: mailbox_failure + unit, put_dispatch k
      (snd (dispatch_mark_superseded_at_epoch now ?cur (Some reason_queued_superseded_by_epoch) d)) mb)"
    using assms(1) d by (intro put_superseded_epoch_sound) (auto simp: live_queued)
  then show ?thesis
    using assms(1,4) d ok put_claimed [OF assms(1) d assms(2,3), of "now + lease_ms" now]
    by (auto simp: mailbox_claim_dispatch_def Let_def state_superseded_at_epoch_eq live_queued
        sound_step_def split: if_splits)
qed

lemma reclaim_ids:
  assumes "mb_inv mb" "hash_order ord (dispatches mb)"
  defines "ids \<equiv> \<lambda>now limit. map dispatch_id
     (take limit (filter (lease_expired now) (hm_values ord (dispatches mb))))"
  shows "distinct (ids now limit)"
    and "k \<in> set (ids now limit) \<Longrightarrow> \<exists>d. dispatches mb k = Some d \<and> status d = Claimed"
proof -
  have ids: "map dispatch_id (hm_values ks (dispatches mb)) =
      filter (\<lambda>k. k \<in> dom (dispatches mb)) ks" for ks
    using mb_inv_id [OF assms(1)] by (induction ks) (auto split: option.splits)
  have "distinct (map dispatch_id (hm_values ord (dispatches mb)))"
    using assms(2) by (simp add: ids hash_order_def)
  then show "distinct (ids now limit)"
    by (simp add: ids_def take_map [symmetric] distinct_take distinct_map_filter)
  show "\<exists>d. dispatches mb k = Some d \<and> status d = Claimed" if "k \<in> set (ids now limit)"
    using that mb_inv_id [OF assms(1)]
    by (fastforce dest!: in_set_takeD simp: ids_def set_hm_values lease_expired_def)
qed

lemma mailbox_reclaim_sound:
  assumes "mb_inv mb" "hash_order ord (dispatches mb)"
  shows "sound_step mb (mailbox_reclaim_expired_leases ord now limit mb)"
  unfolding mailbox_reclaim_expired_leases_def
  using assms(1) reclaim_ids [OF assms] by (intro reclaim_loop_sound) auto

definition bump_epoch :: "string \<Rightarrow> mailbox \<Rightarrow> mailbox" where
  "bump_epoch tid mb =
     mb\<lparr>epochs := (epochs mb)(tid \<mapsto> current_epoch_from_state (epochs mb) tid + 1)\<rparr>"

lemma bump_epoch_inv:
  assumes "mb_inv mb" "current_epoch_from_state (epochs mb) tid \<noteq> - 1"
  shows "mb_inv (bump_epoch tid mb)"
proof -
  have "current_epoch_from_state (epochs mb) tid < current_epoch_from_state (epochs mb) tid + 1"
    using assms(2) by (rule less_plus_one)
  with assms(1) show ?thesis
    by (force simp: mb_inv_def entry_ok_def bump_epoch_def current_epoch_from_state_def)
qed

lemma bump_epoch_simps [simp]: "dispatches (bump_epoch tid mb) = dispatches mb"
  by (simp add: bump_epoch_def)

lemma mailbox_interrupt_detailed_sound:
  assumes "mb_inv mb" "current_epoch_from_state (epochs mb) tid \<noteq> - 1"
  shows "sound_step (bump_epoch tid mb) (mailbox_interrupt_detailed ord tid now mb)"
  unfolding mailbox_interrupt_detailed_def Let_def bump_epoch_def [symmetric]
  using interrupt_loop_sound [OF bump_epoch_inv [OF assms]] .

lemma mailbox_enqueue_cases:
  assumes "mailbox_enqueue ord d mb = (r, mb')"
  obtains (rejected) e where "r = Inl (Storage e)" "mb' = mb"
  | (accepted) "r = Inr ()" "validate_for_enqueue d = Inr ()"
      "\<And>dk. dedupe_key d = Some dk \<Longrightarrow> \<not> list_ex (\<lambda>j. thread_id j = thread_id d \<and>
          dedupe_key j = Some dk \<and> \<not> is_terminal (status j)) (hm_values ord (dispatches mb))"
      "mb' = put_dispatch (dispatch_id d)
          (prepare_for_enqueue (current_epoch_from_state (epochs mb) (thread_id d)) d)
          (mb\<lparr>epochs := (epochs mb)(thread_id d \<mapsto> current_epoch_from_state (epochs mb) (thread_id d))\<rparr>)"
proof (cases "validate_for_enqueue d")
  case (Inl e)
  with assms show thesis by (auto simp: mailbox_enqueue_def intro: rejected)
next
  case (Inr u)
  let ?d = "prepare_for_enqueue (current_epoch_from_state (epochs mb) (thread_id d)) d"
  have "validate_for_persist ?d = Inr ()"
    using Inr validate_for_enqueue_iff [of d]
    by (simp add: validate_for_persist_iff identity_ok_def shape_ok_def no_claim_def no_runtime_def
        prepare_for_enqueue_def)
  moreover have "dispatch_id ?d = dispatch_id d" by (simp add: prepare_for_enqueue_def)
  ultimately show thesis
    using assms Inr rejected accepted
    by (auto simp: mailbox_enqueue_def Let_def split: option.splits if_splits)
qed

lemma current_epoch_touch [simp]:
  "current_epoch_from_state (m(t \<mapsto> current_epoch_from_state m t)) = current_epoch_from_state m"
  by (rule ext) (simp add: current_epoch_from_state_def)

lemma mailbox_enqueue_inv:
  assumes "mb_inv mb" "attempt_count d < max_attempts d" "mailbox_enqueue ord d mb = (r, mb')"
  shows "mb_inv mb' \<and> (\<forall>m. r \<noteq> Inl (Panicked m))"
  using assms(3)
proof (cases rule: mailbox_enqueue_cases)
  case rejected
  with assms(1) show ?thesis by simp
next
  case accepted
  let ?d = "prepare_for_enqueue (current_epoch_from_state (epochs mb) (thread_id d)) d"
  have "dispatch_ok ?d"
    using accepted(2) assms(2) validate_for_enqueue_iff [of d]
    by (simp add: ok_defs prepare_for_enqueue_def)
  then show ?thesis
    using assms(1) accepted(1)
    by (auto simp: accepted(4) mb_inv_def entry_ok_def current_epoch_touch)
      (auto simp: prepare_for_enqueue_def)
qed

lemma mailbox_purge_entries:
  assumes "mb_inv mb" "hash_order ord (dispatches mb)" "mailbox_purge_terminal ord older_than mb = (n, mb')"
  shows "dispatches mb' k = Some d \<longleftrightarrow>
      dispatches mb k = Some d \<and> \<not> (is_terminal (status d) \<and> updated_at d < older_than)"
    and "dispatches mb' k = Some d \<Longrightarrow> epochs mb' (thread_id d) = epochs mb (thread_id d)"
proof -
  let ?ds = "hm_retain (\<lambda>_ j. \<not> (is_terminal (status j) \<and> updated_at j < older_than)) (dispatches mb)"
  show keep: "dispatches mb' k = Some d \<longleftrightarrow>
      dispatches mb k = Some d \<and> \<not> (is_terminal (status d) \<and> updated_at d < older_than)" for k d
    using assms(3) by (auto simp: mailbox_purge_terminal_def Let_def)
  assume d: "dispatches mb' k = Some d"
  then have "?ds k = Some d" "k \<in> set ord"
    using keep assms(2) by (auto dest: hash_orderD)
  then have "thread_id d \<in> thread_id ` set (hm_values ord ?ds)"
    unfolding set_hm_values by blast
  then show "epochs mb' (thread_id d) = epochs mb (thread_id d)"
    using assms(3) by (auto simp: mailbox_purge_terminal_def Let_def hm_retain_def split: option.split)
qed

lemma mailbox_purge_inv:
  assumes "mb_inv mb" "hash_order ord (dispatches mb)" "mailbox_purge_terminal ord older_than mb = (n, mb')"
  shows "mb_inv mb'"
  unfolding mb_inv_def
proof (intro allI impI)
  fix k d
  assume d: "dispatches mb' k = Some d"
  then have "entry_ok mb k d"
    using mailbox_purge_entries(1) [OF assms] mb_invD [OF assms(1)] by blast
  with mailbox_purge_entries(2) [OF assms d] show "entry_ok mb' k d"
    by (auto simp: entry_ok_def dom_def current_epoch_from_state_def)
qed

section \<open>Commands and steps\<close>

datatype mailbox_command =
    EnqueueCmd run_dispatch
  | ClaimCmd string string u64 u64 nat string
  | ClaimDispatchCmd string string u64 u64 string
  | AckCmd string string u64
  | NackCmd string string u64 string u64
  | DeadLetterCmd string string string u64
  | CancelCmd string u64
  | ExtendLeaseCmd string string u64 u64
  | RecordStartCmd string string string u64
  | RecordResultCmd string string run_dispatch_result u64
  | InterruptCmd string u64
  | SupersedeClaimedCmd string string u64 string
  | ReclaimCmd u64 nat
  | PurgeCmd u64

definition failed_with :: "(mailbox_failure + 'a) \<times> mailbox \<Rightarrow> mailbox_failure option \<times> mailbox" where
  "failed_with r = (case r of (Inl f, mb) \<Rightarrow> (Some f, mb) | (Inr _, mb) \<Rightarrow> (None, mb))"

lemma failed_with_simps [simp]:
  "failed_with (Inl f, mb) = (Some f, mb)" "failed_with (Inr x, mb) = (None, mb)"
  by (simp_all add: failed_with_def)

lemma failed_with_snd [simp]: "snd (failed_with r) = snd r"
  and failed_with_fst: "fst (failed_with r) = Some f \<longleftrightarrow> fst r = Inl f"
  by (cases r; cases "fst r"; simp)+

fun mailbox_exec ::
    "string list \<Rightarrow> mailbox_command \<Rightarrow> mailbox \<Rightarrow> mailbox_failure option \<times> mailbox" where
  "mailbox_exec ord (EnqueueCmd d) mb = failed_with (mailbox_enqueue ord d mb)"
| "mailbox_exec ord (ClaimCmd tid consumer lease_ms now limit token) mb =
     failed_with (mailbox_claim ord tid consumer lease_ms now limit token mb)"
| "mailbox_exec ord (ClaimDispatchCmd did consumer lease_ms now token) mb =
     failed_with (mailbox_claim_dispatch ord did consumer lease_ms now token mb)"
| "mailbox_exec ord (AckCmd did token now) mb = failed_with (mailbox_ack did token now mb)"
| "mailbox_exec ord (NackCmd did token retry_at err now) mb =
     failed_with (mailbox_nack did token retry_at err now mb)"
| "mailbox_exec ord (DeadLetterCmd did token err now) mb =
     failed_with (mailbox_dead_letter did token err now mb)"
| "mailbox_exec ord (CancelCmd did now) mb = failed_with (mailbox_cancel did now mb)"
| "mailbox_exec ord (ExtendLeaseCmd did token extension_ms now) mb =
     failed_with (mailbox_extend_lease did token extension_ms now mb)"
| "mailbox_exec ord (RecordStartCmd did token inst now) mb =
     failed_with (mailbox_record_dispatch_start did token inst now mb)"
| "mailbox_exec ord (RecordResultCmd did token result now) mb =
     failed_with (mailbox_record_run_result did token result now mb)"
| "mailbox_exec ord (InterruptCmd tid now) mb =
     failed_with (mailbox_interrupt_detailed ord tid now mb)"
| "mailbox_exec ord (SupersedeClaimedCmd did token now reason) mb =
     failed_with (mailbox_supersede_claimed did token now reason mb)"
| "mailbox_exec ord (ReclaimCmd now limit) mb =
     failed_with (mailbox_reclaim_expired_leases ord now limit mb)"
| "mailbox_exec ord (PurgeCmd older_than) mb =
     (case mailbox_purge_terminal ord older_than mb of (_, mb') \<Rightarrow> (None, mb'))"

text \<open>
  What the callers of the store provide: a new dispatch has a fresh id and an attempt left; the
  consumer and the fresh claim token are not blank; a claim takes at most \<open>cap\<close> dispatches (the
  server's delivery loop always claims one); an epoch does not reach the end of a \<^verbatim>\<open>u64\<close>.
\<close>

fun admissible :: "nat \<Rightarrow> mailbox_command \<Rightarrow> mailbox \<Rightarrow> bool" where
  "admissible cap (EnqueueCmd d) mb \<longleftrightarrow>
     attempt_count d < max_attempts d \<and> dispatches mb (dispatch_id d) = None"
| "admissible cap (ClaimCmd tid consumer lease_ms now limit token) mb \<longleftrightarrow>
     \<not> is_blank consumer \<and> \<not> is_blank token \<and> limit \<le> cap"
| "admissible cap (ClaimDispatchCmd did consumer lease_ms now token) mb \<longleftrightarrow>
     \<not> is_blank consumer \<and> \<not> is_blank token"
| "admissible cap (InterruptCmd tid now) mb \<longleftrightarrow> current_epoch_from_state (epochs mb) tid \<noteq> - 1"
| "admissible cap _ mb \<longleftrightarrow> True"

inductive mailbox_step ::
    "nat \<Rightarrow> mailbox \<Rightarrow> mailbox_command \<Rightarrow> mailbox_failure option \<Rightarrow> mailbox \<Rightarrow> bool" for cap where
  step: "hash_order ord (dispatches mb) \<Longrightarrow> admissible cap cmd mb \<Longrightarrow>
     mailbox_exec ord cmd mb = (f, mb') \<Longrightarrow> mailbox_step cap mb cmd f mb'"

inductive mailbox_reachable :: "nat \<Rightarrow> mailbox \<Rightarrow> bool" for cap where
  initial: "mailbox_reachable cap mailbox_new"
| steps: "mailbox_reachable cap mb \<Longrightarrow> mailbox_step cap mb cmd f mb' \<Longrightarrow> mailbox_reachable cap mb'"

inductive_cases mailbox_stepE: "mailbox_step cap mb cmd f mb'"

text \<open>
  What a step does to the entries: an entry that was there evolves along the lifecycle or is
  purged, and an entry that is new was enqueued.
\<close>

definition entries_follow :: "mailbox_command \<Rightarrow> mailbox \<Rightarrow> mailbox \<Rightarrow> bool" where
  "entries_follow cmd mb mb' \<longleftrightarrow>
     (\<forall>k d. dispatches mb k = Some d \<longrightarrow>
        (\<exists>d'. dispatches mb' k = Some d' \<and> dispatch_evolves\<^sup>*\<^sup>* d d') \<or>
        (dispatches mb' k = None \<and> (\<exists>t. cmd = PurgeCmd t \<and> is_terminal (status d) \<and> updated_at d < t))) \<and>
     (\<forall>k d'. dispatches mb k = None \<longrightarrow> dispatches mb' k = Some d' \<longrightarrow>
        (\<exists>d. cmd = EnqueueCmd d \<and> k = dispatch_id d) \<and> status d' = Queued)"

lemma mb_advances_follow: "mb_advances mb mb' \<Longrightarrow> entries_follow cmd mb mb'"
  unfolding entries_follow_def by (metis mb_advancesD mb_advances_back option.distinct(1))

definition single_claim :: "mailbox \<Rightarrow> bool" where
  "single_claim mb \<longleftrightarrow> (\<forall>k k' d d'. dispatches mb k = Some d \<longrightarrow> dispatches mb k' = Some d' \<longrightarrow>
     status d = Claimed \<longrightarrow> status d' = Claimed \<longrightarrow> thread_id d = thread_id d' \<longrightarrow> k = k')"

text \<open>All that a step from a state of the invariant guarantees.\<close>

definition step_good ::
    "nat \<Rightarrow> mailbox_command \<Rightarrow> mailbox \<Rightarrow> mailbox_failure option \<Rightarrow> mailbox \<Rightarrow> bool" where
  "step_good cap cmd mb f mb' \<longleftrightarrow> (\<forall>m. f \<noteq> Some (Panicked m)) \<and> mb_inv mb' \<and>
     entries_follow cmd mb mb' \<and> (cap \<le> 1 \<longrightarrow> single_claim mb \<longrightarrow> single_claim mb')"

lemma evolves_thread: "dispatch_evolves\<^sup>*\<^sup>* d d' \<Longrightarrow> thread_id d' = thread_id d"
  by (induction rule: rtranclp_induct) (auto simp: dispatch_evolves_def)

lemma single_claim_kept:
  assumes "single_claim mb" "\<And>k d'. dispatches mb' k = Some d' \<Longrightarrow> status d' = Claimed \<Longrightarrow>
     \<exists>d. dispatches mb k = Some d \<and> status d = Claimed \<and> thread_id d = thread_id d'"
  shows "single_claim mb'"
  unfolding single_claim_def
proof (intro allI impI)
  fix k k' d d'
  assume "dispatches mb' k = Some d" "dispatches mb' k' = Some d'" "status d = Claimed"
    "status d' = Claimed" "thread_id d = thread_id d'"
  then show "k = k'"
    using assms(1) assms(2) [of k d] assms(2) [of k' d'] unfolding single_claim_def by metis
qed

lemma single_claim_sound:
  assumes "mb_advances mb mb'" "claims_none mb mb'" "single_claim mb"
  shows "single_claim mb'"
  using assms(3)
proof (rule single_claim_kept)
  fix k d'
  assume "dispatches mb' k = Some d'" "status d' = Claimed"
  then show "\<exists>d. dispatches mb k = Some d \<and> status d = Claimed \<and> thread_id d = thread_id d'"
    using mb_advances_back [OF assms(1), of k d'] assms(2) evolves_thread
    unfolding claims_none_def by metis
qed

lemma sound_good:
  assumes "sound_step mb r" "failed_with r = (f, mb')"
  shows "step_good cap cmd mb f mb'"
proof -
  have "mb' = snd r" "f = Some g \<longleftrightarrow> fst r = Inl g" for g
    using assms(2) failed_with_snd [of r] failed_with_fst [of r g] by simp_all
  then show ?thesis
    using assms(1) mb_advances_follow single_claim_sound
    by (auto simp: step_good_def sound_step_def)
qed

lemma enqueue_good:
  assumes "mb_inv mb" "admissible cap (EnqueueCmd d) mb" "mailbox_exec ord (EnqueueCmd d) mb = (f, mb')"
  shows "step_good cap (EnqueueCmd d) mb f mb'"
proof -
  obtain r where r: "mailbox_enqueue ord d mb = (r, mb')" "failed_with (r, mb') = (f, mb')"
    using assms(3) failed_with_snd [of "mailbox_enqueue ord d mb"]
    by (cases "mailbox_enqueue ord d mb") auto
  have inv: "mb_inv mb'" "\<forall>m. f \<noteq> Some (Panicked m)"
    using mailbox_enqueue_inv [OF assms(1) _ r(1)] assms(2) r(2)
      failed_with_fst [of "(r, mb')"] by auto
  from r(1) show ?thesis
  proof (cases rule: mailbox_enqueue_cases)
    case rejected
    with inv show ?thesis by (simp add: step_good_def mb_advances_follow)
  next
    case accepted
    have "single_claim mb \<Longrightarrow> single_claim mb'"
      by (rule single_claim_kept)
        (auto simp: accepted(4) prepare_for_enqueue_def split: if_splits)
    moreover have "entries_follow (EnqueueCmd d) mb mb'"
      using assms(2) by (auto simp: entries_follow_def accepted(4) prepare_for_enqueue_def)
    ultimately show ?thesis using inv by (simp add: step_good_def)
  qed
qed

lemma bump_epoch_irrelevant [simp]:
  "entries_follow cmd (bump_epoch tid mb) mb' \<longleftrightarrow> entries_follow cmd mb mb'"
  "single_claim (bump_epoch tid mb) \<longleftrightarrow> single_claim mb"
  by (simp_all add: entries_follow_def single_claim_def)

lemma interrupt_good:
  assumes "mb_inv mb" "admissible cap (InterruptCmd tid now) mb"
    "mailbox_exec ord (InterruptCmd tid now) mb = (f, mb')"
  shows "step_good cap (InterruptCmd tid now) mb f mb'"
  using sound_good [OF mailbox_interrupt_detailed_sound, of mb tid ord now f mb' cap
      "InterruptCmd tid now"] assms
  by (simp add: step_good_def)

lemma purge_good:
  assumes "mb_inv mb" "hash_order ord (dispatches mb)" "mailbox_exec ord (PurgeCmd t) mb = (f, mb')"
  shows "step_good cap (PurgeCmd t) mb f mb'"
proof -
  obtain n where n: "mailbox_purge_terminal ord t mb = (n, mb')" "f = None"
    using assms(3) by (auto split: prod.splits)
  note keep = mailbox_purge_entries(1) [OF assms(1,2) n(1)]
  have "entries_follow (PurgeCmd t) mb mb'"
    unfolding entries_follow_def
  proof (intro conjI allI impI)
    fix k d
    assume d: "dispatches mb k = Some d"
    show "(\<exists>d'. dispatches mb' k = Some d' \<and> dispatch_evolves\<^sup>*\<^sup>* d d') \<or> dispatches mb' k = None \<and>
        (\<exists>t'. PurgeCmd t = PurgeCmd t' \<and> is_terminal (status d) \<and> updated_at d < t')"
    proof (cases "is_terminal (status d) \<and> updated_at d < t")
      case True
      then have "dispatches mb' k \<noteq> Some d'" for d' using d keep [of k d'] by auto
      with True show ?thesis by (metis not_Some_eq)
    next
      case False
      with d keep [of k d] show ?thesis by blast
    qed
  qed (auto simp: keep)
  moreover have "single_claim mb \<Longrightarrow> single_claim mb'"
    by (rule single_claim_kept) (auto simp: keep)
  ultimately show ?thesis
    using n(2) mailbox_purge_inv [OF assms(1,2) n(1)] by (simp add: step_good_def)
qed

text \<open>A claim: every entry that is claimed afterwards was claimed before or is a taken one.\<close>

lemma single_claim_claimed:
  assumes "mb_advances mb mb'" "single_claim mb"
    and new: "\<And>k d'. dispatches mb' k = Some d' \<Longrightarrow> status d' = Claimed \<Longrightarrow>
      (\<exists>d. dispatches mb k = Some d \<and> status d = Claimed) \<or> k = kc"
    and free: "\<And>k d d0. dispatches mb k = Some d \<Longrightarrow> status d = Claimed \<Longrightarrow> k \<noteq> kc \<Longrightarrow>
      dispatches mb' kc = Some d0 \<Longrightarrow> status d0 = Claimed \<Longrightarrow> thread_id d \<noteq> thread_id d0"
  shows "single_claim mb'"
proof -
  have old: "\<exists>d. dispatches mb k = Some d \<and> status d = Claimed \<and> thread_id d = thread_id d'"
    if "dispatches mb' k = Some d'" "status d' = Claimed" "k \<noteq> kc" for k d'
    using that new mb_advances_back [OF assms(1)] evolves_thread by (metis option.inject)
  show ?thesis
    unfolding single_claim_def
  proof (intro allI impI)
    fix k k' d d'
    assume a: "dispatches mb' k = Some d" "dispatches mb' k' = Some d'" "status d = Claimed"
      "status d' = Claimed" "thread_id d = thread_id d'"
    show "k = k'"
    proof (cases "k = kc \<or> k' = kc")
      case True
      then show ?thesis using a free old by metis
    next
      case False
      then show ?thesis
        using old [OF a(1,3)] old [OF a(2,4)] assms(2) a(5) unfolding single_claim_def by metis
    qed
  qed
qed

lemma claim_dispatch_claims:
  assumes "mailbox_claim_dispatch ord kc consumer lease_ms now token mb = (r, mb')"
    "mb_inv mb" "\<not> is_blank consumer" "\<not> is_blank token" "hash_order ord (dispatches mb)"
  shows "claims_none mb mb' \<or> (\<exists>d. dispatches mb kc = Some d \<and> status d = Queued \<and>
     mb' = put_dispatch kc (claimed_as consumer token (now + lease_ms) now d) mb \<and>
     \<not> has_claimed ord (\<lambda>j. thread_id j = thread_id d \<and> dispatch_id j \<noteq> kc) mb)"
proof (cases "\<exists>d. dispatches mb kc = Some d \<and> status d = Queued")
  case False
  with assms(1) show ?thesis by (auto simp: mailbox_claim_dispatch_def split: option.splits)
next
  case True
  then obtain d where d: "dispatches mb kc = Some d" "status d = Queued" by blast
  let ?cur = "current_epoch_from_state (epochs mb) (thread_id d)"
  have ok: "dispatch_ok d" using assms(2) d(1) by (rule mb_inv_ok)
  have "claims_none mb (put_dispatch kc
      (snd (dispatch_mark_superseded_at_epoch now ?cur (Some reason_queued_superseded_by_epoch) d)) mb)"
    using assms(2) d by (intro supersede_epoch_step.put_claims_none) (auto simp: live_queued)
  then show ?thesis
    using assms(1) d ok put_claimed(1) [OF assms(2) d assms(3,4), of "now + lease_ms" now]
    by (auto simp: mailbox_claim_dispatch_def Let_def state_superseded_at_epoch_eq live_queued
        split: if_splits)
qed

lemma claim_dispatch_good:
  assumes "mb_inv mb" "hash_order ord (dispatches mb)"
    "admissible cap (ClaimDispatchCmd kc consumer lease_ms now token) mb"
    "mailbox_exec ord (ClaimDispatchCmd kc consumer lease_ms now token) mb = (f, mb')"
  shows "step_good cap (ClaimDispatchCmd kc consumer lease_ms now token) mb f mb'"
proof -
  obtain r where r: "mailbox_claim_dispatch ord kc consumer lease_ms now token mb = (r, mb')"
      "failed_with (r, mb') = (f, mb')"
    using assms(4) failed_with_snd by (metis mailbox_exec.simps(3) prod.collapse snd_conv)
  have blank: "\<not> is_blank consumer" "\<not> is_blank token" using assms(3) by simp_all
  note sound = mailbox_claim_dispatch_sound [OF assms(1) blank r(1)]
  have "single_claim mb'" if s: "single_claim mb"
    using claim_dispatch_claims [OF r(1) assms(1) blank assms(2)]
  proof (elim disjE exE conjE)
    assume "claims_none mb mb'"
    with s sound show ?thesis by (blast intro: single_claim_sound)
  next
    fix d
    assume d: "dispatches mb kc = Some d" "status d = Queued"
      "mb' = put_dispatch kc (claimed_as consumer token (now + lease_ms) now d) mb"
      "\<not> has_claimed ord (\<lambda>j. thread_id j = thread_id d \<and> dispatch_id j \<noteq> kc) mb"
    have free: "\<not> (dispatches mb k = Some e \<and> thread_id e = thread_id d \<and> k \<noteq> kc \<and> status e = Claimed)"
      for k e
      using d(4) mb_inv_id [OF assms(1), of k e] by (auto simp: has_claimed_iff [OF assms(2)])
    have thread: "thread_id (claimed_as consumer token (now + lease_ms) now d) = thread_id d"
      by (simp add: claimed_as_eq d(2))
    show ?thesis
      using conjunct2 [OF conjunct2 [OF sound]] s
    proof (rule single_claim_claimed [where kc = kc])
      fix k d'
      assume "dispatches mb' k = Some d'" "status d' = Claimed"
      then show "(\<exists>d. dispatches mb k = Some d \<and> status d = Claimed) \<or> k = kc"
        by (simp add: d(3) split: if_splits)
    next
      fix k e e0
      assume "dispatches mb k = Some e" "status e = Claimed" "k \<noteq> kc" "dispatches mb' kc = Some e0"
      then show "thread_id e \<noteq> thread_id e0"
        using free [of k e] thread by (auto simp: d(3))
    qed
  qed
  with sound r(2) show ?thesis by (auto simp: step_good_def mb_advances_follow)
qed

lemma claim_good:
  assumes "mb_inv mb" "hash_order ord (dispatches mb)"
    "admissible cap (ClaimCmd tid consumer lease_ms now limit token) mb"
    "mailbox_exec ord (ClaimCmd tid consumer lease_ms now limit token) mb = (f, mb')"
  shows "step_good cap (ClaimCmd tid consumer lease_ms now limit token) mb f mb'"
proof -
  obtain r where r: "mailbox_claim ord tid consumer lease_ms now limit token mb = (r, mb')"
      "failed_with (r, mb') = (f, mb')"
    using assms(4) failed_with_snd by (metis mailbox_exec.simps(2) prod.collapse snd_conv)
  have blank: "\<not> is_blank consumer" "\<not> is_blank token" and limit: "limit \<le> cap"
    using assms(3) by simp_all
  note sound = mailbox_claim_sound [OF assms(1,2) blank r(1)]
  let ?busy = "has_claimed ord (\<lambda>j. thread_id j = tid) mb"
  let ?f = "claimed_as consumer token (now + lease_ms) now"
  define ids where "ids = (if ?busy then []
     else take limit (eligible_ids ord tid now (dispatches (fenced tid now mb))))"
  have mb': "mb' = update_at (set ids) ?f (fenced tid now mb)"
    using mailbox_claim_eq(1) [OF assms(1,2) blank, where tid = tid and now = now and
        lease_ms = lease_ms and limit = limit] r(1) by (simp add: ids_def)
  have taken: "\<exists>d. dispatches (fenced tid now mb) k = Some d \<and> status d = Queued \<and> thread_id d = tid"
    if "k \<in> set ids" for k
    using that set_eligible_ids [of ord "dispatches (fenced tid now mb)" tid now] assms(2)
    by (auto simp: ids_def eligible_def dest!: in_set_takeD split: if_splits)
  have free: "\<not> (\<exists>k d. dispatches mb k = Some d \<and> thread_id d = tid \<and> status d = Claimed)"
    if "k \<in> set ids" for k
    using that by (simp add: ids_def has_claimed_iff [OF assms(2)] split: if_splits)
  have "single_claim mb'" if s: "single_claim mb" and cap: "cap \<le> 1"
  proof -
    have "length (take limit xs) \<le> 1" for xs :: "string list"
      using limit cap by (simp add: min_def)
    then have "length ids \<le> 1" by (simp only: ids_def split: if_split) simp
    then obtain kc where ids: "set ids \<subseteq> {kc}" by (cases ids) auto
    have other: "dispatches mb k = Some d" if "dispatches mb' k = Some d" "status d = Claimed" "k \<notin> set ids" for k d
      using that fenced_claimed [of tid now mb k d] by (simp add: mb')
    have mine: "thread_id d = tid" if "dispatches mb' k = Some d" "k \<in> set ids" for k d
      using that taken [of k] by (auto simp: mb' claimed_as_eq)
    show ?thesis
      using conjunct2 [OF conjunct2 [OF sound]] s
    proof (rule single_claim_claimed [where kc = kc])
      fix k d'
      assume "dispatches mb' k = Some d'" "status d' = Claimed"
      then show "(\<exists>d. dispatches mb k = Some d \<and> status d = Claimed) \<or> k = kc"
        using other ids by blast
    next
      fix k d d0
      assume a: "dispatches mb k = Some d" "status d = Claimed" "k \<noteq> kc"
        "dispatches mb' kc = Some d0" "status d0 = Claimed"
      show "thread_id d \<noteq> thread_id d0"
      proof (cases "kc \<in> set ids")
        case True
        with a free mine show ?thesis by metis
      next
        case False
        with a other s show ?thesis unfolding single_claim_def by metis
      qed
    qed
  qed
  with sound r(2) show ?thesis by (auto simp: step_good_def mb_advances_follow)
qed

lemma step_is_good:
  assumes "mb_inv mb" "mailbox_step cap mb cmd f mb'"
  shows "step_good cap cmd mb f mb'"
  using assms(2)
proof (cases rule: mailbox_step.cases)
  case (step ord)
  note e = step(3)
  show ?thesis
  proof (cases cmd)
    case EnqueueCmd with assms(1) step enqueue_good show ?thesis by blast
  next
    case ClaimCmd with assms(1) step claim_good show ?thesis by blast
  next
    case ClaimDispatchCmd with assms(1) step claim_dispatch_good show ?thesis by blast
  next
    case InterruptCmd with assms(1) step interrupt_good show ?thesis by blast
  next
    case PurgeCmd with assms(1) step purge_good show ?thesis by blast
  next
    case ReclaimCmd
    with e show ?thesis using sound_good mailbox_reclaim_sound [OF assms(1) step(1)] by simp blast
  qed (use e assms(1) in \<open>simp, blast intro: sound_good mailbox_ack_sound mailbox_nack_sound
      mailbox_dead_letter_sound mailbox_cancel_sound mailbox_extend_lease_sound
      mailbox_record_dispatch_start_sound mailbox_record_run_result_sound
      mailbox_supersede_claimed_sound\<close>)+
qed

end
