(* ===== verification/Mailbox_Loops.thy ===== *)
theory Mailbox_Loops
imports Mailbox_Steps
begin

text \<open>
  What the loops of \<^verbatim>\<open>interrupt_detailed\<close> and \<^verbatim>\<open>reclaim_expired_leases\<close> compute, entry by entry.
\<close>

section \<open>Interrupt\<close>

definition interruptible :: "string \<Rightarrow> u64 \<Rightarrow> run_dispatch \<Rightarrow> bool" where
  "interruptible tid old d \<longleftrightarrow> thread_id d = tid \<and> status d = Queued \<and> dispatch_epoch d \<le> old"

definition interrupted :: "u64 \<Rightarrow> run_dispatch \<Rightarrow> run_dispatch" where
  "interrupted now d =
     snd (dispatch_mark_superseded now (Some reason_queued_superseded_by_interrupt) d)"

lemma interrupted_facts:
  "status d = Queued \<Longrightarrow> status (interrupted now d) = Superseded \<and>
     last_error (interrupted now d) = Some reason_queued_superseded_by_interrupt \<and>
     completed_at (interrupted now d) = Some now"
  by (simp add: interrupted_def dispatch_mark_superseded_def transition_defs)

text \<open>What the loop adds to its accumulator, as a function of the entries it visits.\<close>

definition interrupt_summary :: "string \<Rightarrow> u64 \<Rightarrow> u64 \<Rightarrow> run_dispatch list \<Rightarrow>
     mailbox_interrupt_details \<Rightarrow> mailbox_interrupt_details" where
  "interrupt_summary tid old now ds acc =
     acc\<lparr>superseded_count := superseded_count acc + length (filter (interruptible tid old) ds),
         superseded_dispatches :=
           superseded_dispatches acc @ map (interrupted now) (filter (interruptible tid old) ds),
         active_dispatch := fold (\<lambda>d a. if thread_id d = tid \<and> status d = Claimed then Some d else a)
           ds (active_dispatch acc)\<rparr>"

lemma interrupt_loop_eq:
  assumes "mb_inv mb" "distinct ks"
  shows "interrupt_loop tid old now ks acc mb =
    (Inr (interrupt_summary tid old now (hm_values ks (dispatches mb)) acc),
     update_at (set ks) (\<lambda>d. if interruptible tid old d then interrupted now d else d) mb)"
    (is "_ = (_, update_at _ ?f _)")
  using assms
proof (induction ks arbitrary: acc mb)
  case Nil
  then show ?case by (simp add: interrupt_summary_def)
next
  case (Cons k ks)
  show ?case
  proof (cases "dispatches mb k")
    case None
    with Cons show ?thesis by (simp add: update_at_insert_same)
  next
    case (Some d)
    have ok: "dispatch_ok d" using Cons.prems(1) Some by (rule mb_inv_ok)
    show ?thesis
    proof (cases "interruptible tid old d")
      case True
      then have queued: "status d = Queued" by (simp add: interruptible_def)
      let ?mb = "put_dispatch k (interrupted now d) mb"
      have "sound_step mb (Inr () :: mailbox_failure + unit, ?mb)"
        unfolding interrupted_def using Cons.prems(1) Some queued
        by (rule supersede_step.put_sound) simp_all
      then have inv: "mb_inv ?mb" by (rule sound_step_inv)
      have vals: "hm_values ks (dispatches ?mb) = hm_values ks (dispatches mb)"
        using Cons.prems(2) by simp
      have upd: "update_at (set ks) ?f ?mb = update_at (insert k (set ks)) ?f mb"
        using update_at_insert [OF Some, of "set ks" ?f] True Cons.prems(2) by simp
      have step: "interrupt_loop tid old now (k # ks) acc mb = interrupt_loop tid old now ks
          (acc\<lparr>superseded_count := superseded_count acc + 1,
               superseded_dispatches := superseded_dispatches acc @ [interrupted now d]\<rparr>) ?mb"
        using True Some ok by (simp add: state_superseded_eq interruptible_def interrupted_def)
      show ?thesis
        unfolding step using Cons.IH [OF inv] Cons.prems(2) True Some queued
        by (simp add: vals upd interrupt_summary_def del: put_dispatch_simps)
    next
      case False
      have "map_option ?f (dispatches mb k) = dispatches mb k" using False Some by simp
      with False Cons Some show ?thesis
        by (auto simp: update_at_insert_same interrupt_summary_def interruptible_def)
    qed
  qed
qed

lemma fold_last_claimed:
  "fold (\<lambda>d a. if P d then Some d else a) ds a =
     (case filter P ds of [] \<Rightarrow> a | _ \<Rightarrow> Some (last (filter P ds)))"
  by (induction ds arbitrary: a) (auto split: list.splits)

section \<open>Reclaiming expired leases\<close>

definition fenced_off :: "(string \<rightharpoonup> u64) \<Rightarrow> run_dispatch \<Rightarrow> bool" where
  "fenced_off es d \<longleftrightarrow> dispatch_epoch d < current_epoch_from_state es (thread_id d)"

definition reclaimed :: "(string \<rightharpoonup> u64) \<Rightarrow> u64 \<Rightarrow> run_dispatch \<Rightarrow> run_dispatch" where
  "reclaimed es now d =
     (if fenced_off es d then snd (dispatch_mark_superseded_at_epoch now
          (current_epoch_from_state es (thread_id d))
          (Some reason_claimed_lease_expired_after_interrupt) d)
      else snd (dispatch_mark_expired_lease now ''lease expired; max attempts reached'' d))"

lemma put_reclaimed:
  assumes "mb_inv mb" "dispatches mb k = Some d" "status d = Claimed"
  shows "mb_inv (put_dispatch k (reclaimed (epochs mb) now d) mb)"
proof (cases "fenced_off (epochs mb) d")
  case True
  with assms put_superseded_epoch_sound [of mb k d "current_epoch_from_state (epochs mb) (thread_id d)"]
  show ?thesis by (auto simp: reclaimed_def live_claimed dest: sound_step_inv)
next
  case False
  with assms show ?thesis by (auto simp: reclaimed_def intro!: expire_step.put_inv)
qed

lemma reclaim_loop_eq:
  assumes "mb_inv mb" "distinct ks"
    "\<And>k. k \<in> set ks \<Longrightarrow> \<exists>d. dispatches mb k = Some d \<and> status d = Claimed"
  shows "reclaim_loop now ks acc mb =
    (Inr (acc @ map (reclaimed (epochs mb) now)
        (filter (\<lambda>d. \<not> fenced_off (epochs mb) d) (hm_values ks (dispatches mb)))),
     update_at (set ks) (reclaimed (epochs mb) now) mb)"
  using assms
proof (induction ks arbitrary: acc mb)
  case Nil
  then show ?case by simp
next
  case (Cons k ks)
  obtain d where d: "dispatches mb k = Some d" "status d = Claimed"
    using Cons.prems(3) [of k] by auto
  have ok: "dispatch_ok d" using Cons.prems(1) d(1) by (rule mb_inv_ok)
  let ?f = "reclaimed (epochs mb) now"
  let ?mb = "put_dispatch k (?f d) mb"
  let ?acc = "if fenced_off (epochs mb) d then acc else acc @ [?f d]"
  have inv: "mb_inv ?mb" using put_reclaimed [OF Cons.prems(1) d] .
  have vals: "hm_values ks (dispatches ?mb) = hm_values ks (dispatches mb)"
    using Cons.prems(2) by simp
  have upd: "update_at (set ks) ?f ?mb = update_at (insert k (set ks)) ?f mb"
    using d(1) Cons.prems(2) by (intro update_at_insert) auto
  have step: "reclaim_loop now (k # ks) acc mb = reclaim_loop now ks ?acc ?mb"
    using d ok by (auto simp: Let_def state_superseded_at_epoch_eq state_expired_eq live_claimed
        reclaimed_def fenced_off_def)
  have "reclaim_loop now ks ?acc ?mb =
    (Inr (?acc @ map (reclaimed (epochs ?mb) now)
        (filter (\<lambda>d. \<not> fenced_off (epochs ?mb) d) (hm_values ks (dispatches ?mb)))),
     update_at (set ks) (reclaimed (epochs ?mb) now) ?mb)"
    using Cons.prems by (intro Cons.IH inv) auto
  with d(1) show ?case unfolding step by (simp add: vals upd del: put_dispatch_simps(1))
qed

end
