(* ===== verification/Mailbox_Correct.thy ===== *)
theory Mailbox_Correct
imports Mailbox_Loops
begin

text \<open>
  The properties of the in-memory mailbox over its reachable states and its single operations,
  each with a concrete run of the store that shows its hypotheses can hold.
\<close>

section \<open>A small run of the store\<close>

definition ex_dispatch :: run_dispatch where
  "ex_dispatch = dispatch_queued ''d'' ''t'' ''r'' 5"

definition ex_queued :: mailbox where
  "ex_queued = \<lparr>dispatches = [''d'' \<mapsto> ex_dispatch], epochs = [''t'' \<mapsto> 0]\<rparr>"

definition ex_claimed_dispatch :: run_dispatch where
  "ex_claimed_dispatch = claimed_as ''c'' ''k'' 105 5 ex_dispatch"

definition ex_claimed :: mailbox where
  "ex_claimed = \<lparr>dispatches = [''d'' \<mapsto> ex_claimed_dispatch], epochs = [''t'' \<mapsto> 0]\<rparr>"

lemma ex_enqueue: "mailbox_enqueue [] ex_dispatch mailbox_new = (Inr (), ex_queued)"
proof -
  have "validate_for_enqueue ex_dispatch = Inr ()" by code_simp
  moreover have "validate_for_persist ex_dispatch = Inr ()" by code_simp
  moreover have "prepare_for_enqueue 0 ex_dispatch = ex_dispatch"
    by (simp add: prepare_for_enqueue_def ex_dispatch_def dispatch_queued_def)
  moreover have "dedupe_key ex_dispatch = None" "thread_id ex_dispatch = ''t''"
      "dispatch_id ex_dispatch = ''d''"
    by (simp_all add: ex_dispatch_def dispatch_queued_def)
  ultimately show ?thesis
    by (simp add: mailbox_enqueue_def mailbox_new_def current_epoch_from_state_def Let_def
        put_dispatch_def ex_queued_def)
qed

lemma ex_queued_order: "hash_order [''d''] (dispatches ex_queued)"
  and ex_claimed_order: "hash_order [''d''] (dispatches ex_claimed)"
  by (simp_all add: hash_order_def ex_queued_def ex_claimed_def)

lemma ex_queued_reachable: "mailbox_reachable 1 ex_queued"
proof (rule mailbox_reachable.steps [OF mailbox_reachable.initial])
  show "mailbox_step 1 mailbox_new (EnqueueCmd ex_dispatch) None ex_queued"
    by (rule mailbox_step.step [where ord = "[]"])
      (simp_all add: ex_enqueue, simp_all add: hash_order_def mailbox_new_def ex_dispatch_def
        dispatch_queued_def)
qed

lemma ex_not_blank: "\<not> is_blank ''c''" "\<not> is_blank ''k''"
  by code_simp+

lemma ex_claim: "mailbox_claim [''d''] ''t'' ''c'' 100 5 1 ''k'' ex_queued =
    (Inr [ex_claimed_dispatch], ex_claimed)"
proof -
  have "dispatch_claim ''c'' ''k'' 105 5 ex_dispatch = (Inr (), ex_claimed_dispatch)"
    by code_simp
  then show ?thesis
    by (simp add: mailbox_claim_def ex_queued_def ex_claimed_def current_epoch_from_state_def
        has_claimed_def eligible_ids_def eligible_def put_dispatch_def)
      (simp add: ex_dispatch_def dispatch_queued_def)
qed

lemma ex_claim_step: "mailbox_step 1 ex_queued (ClaimCmd ''t'' ''c'' 100 5 1 ''k'') None ex_claimed"
  by (rule mailbox_step.step [OF ex_queued_order]) (simp_all add: ex_claim [simplified] ex_not_blank)

lemma ex_claimed_reachable: "mailbox_reachable 1 ex_claimed"
  by (rule mailbox_reachable.steps [OF ex_queued_reachable ex_claim_step])

section \<open>Reachable states\<close>

lemma unat_sat_add_one: "(a :: u32) < b \<Longrightarrow> unat (sat_add a 1) = unat a + 1"
proof -
  assume "a < b"
  moreover have "unat b < 2 ^ LENGTH(32)" by (rule unsigned_less)
  ultimately show ?thesis by (simp add: unat_sat_add word_less_nat_alt min_def)
qed

lemma reachable_inv: "mailbox_reachable cap mb \<Longrightarrow> mb_inv mb"
proof (induction rule: mailbox_reachable.induct)
  case initial
  show ?case by (simp add: mb_inv_def mailbox_new_def)
next
  case (steps mb cmd f mb')
  then show ?case using step_is_good unfolding step_good_def by blast
qed

lemma reachable_single_claim: "mailbox_reachable cap mb \<Longrightarrow> cap \<le> 1 \<Longrightarrow> single_claim mb"
proof (induction rule: mailbox_reachable.induct)
  case initial
  show ?case by (simp add: single_claim_def mailbox_new_def)
next
  case (steps mb cmd f mb')
  then show ?case using step_is_good reachable_inv unfolding step_good_def by blast
qed

lemma ex_queued_inv: "mb_inv ex_queued" and ex_claimed_inv: "mb_inv ex_claimed"
  using reachable_inv ex_queued_reachable ex_claimed_reachable by blast+

text \<open>
  C2: No panic for well-behaved callers. In a state reached from the empty store by steps whose callers
  keep the conditions of \<open>admissible\<close> (a new dispatch has a fresh id and an attempt left, consumers and
  claim tokens are not blank, an interrupted thread's epoch is below the largest \<^verbatim>\<open>u64\<close>), no such step
  panics (its \<^verbatim>\<open>expect\<close>s never fail), and the state it leaves is again well-formed: every entry is filed
  under its id, passes \<^verbatim>\<open>validate_for_persist\<close>, has an attempt left while it is live, and carries an
  epoch no newer than its thread's. (That a new dispatch has an attempt left is not checked by
  \<^verbatim>\<open>enqueue\<close>, and needed: \<open>exhausted_dispatch_panics\<close> below.)
\<close>
theorem mailbox_no_panic:
  assumes "mailbox_reachable cap mb" "mailbox_step cap mb cmd f mb'"
  shows "(\<forall>m. f \<noteq> Some (Panicked m)) \<and>
    (\<forall>k d. dispatches mb' k = Some d \<longrightarrow> dispatch_id d = k \<and> validate_for_persist d = Inr () \<and>
       (\<not> is_terminal (status d) \<longrightarrow> attempt_count d < max_attempts d) \<and>
       dispatch_epoch d \<le> current_epoch_from_state (epochs mb') (thread_id d))"
proof -
  have good: "step_good cap cmd mb f mb'"
    using step_is_good reachable_inv [OF assms(1)] assms(2) by blast
  then show ?thesis
    using mb_invD [of mb'] dispatch_ok_valid
    by (auto simp: step_good_def entry_ok_def) (auto simp: dispatch_ok_def)
qed

theorem mailbox_no_panic_witness:
  "(\<forall>m. None \<noteq> Some (Panicked m)) \<and> validate_for_persist ex_claimed_dispatch = Inr ()"
  using mailbox_no_panic [OF ex_queued_reachable ex_claim_step] by (simp add: ex_claimed_def)

text \<open>
  Without the condition that a new dispatch has an attempt left: \<^verbatim>\<open>enqueue\<close> accepts one whose attempts
  are used up, and once it is claimed a nack panics.
\<close>

lemma exhausted_dispatch_panics:
  assumes "dispatches mb k = Some d" "status d = Claimed" "claim_token d = Some token"
    and "\<not> dispatch_epoch d < current_epoch_from_state (epochs mb) (thread_id d)"
    and "attempt_count d = max_attempts d" "max_attempts d \<noteq> - 1"
  shows "\<exists>m. fst (mailbox_nack k token retry_at err now mb) = Inl (Panicked m)"
proof -
  have "max_attempts d < - 1"
    using assms(6) word_order.extremum [of "max_attempts d"] by (simp add: order.strict_iff_order)
  then have "unat (sat_add (max_attempts d) 1) = unat (max_attempts d) + 1" by (rule unat_sat_add_one)
  then have more: "max_attempts d < sat_add (max_attempts d) 1" by (simp add: word_less_nat_alt)
  let ?e = "(clear_claim_fields (d\<lparr>attempt_count := sat_add (max_attempts d) 1, last_error := Some err,
    updated_at := now\<rparr>))\<lparr>status := DeadLetter, completed_at := Some now\<rparr>"
  have "dispatch_mark_nack_result now retry_at err d = validated ?e"
    using assms(2,5) more by (simp add: dispatch_mark_nack_result_def require_status_def clear_claim_fields_def Let_def less_imp_le)
  moreover have "\<not> identity_ok ?e" using more by (simp add: identity_ok_def clear_claim_fields_def not_le)
  then have "validate_for_persist ?e \<noteq> Inr ()" by (simp add: validate_for_persist_iff)
  then obtain x where "validate_for_persist ?e = Inl x" by (cases "validate_for_persist ?e") auto
  ultimately show ?thesis
    using assms by (auto simp: mailbox_nack_def state_mark_nack_result_def validated_def expect_ok_def)
qed

lemma exhausted_dispatch_enqueued:
  "fst (mailbox_enqueue [] (ex_dispatch\<lparr>attempt_count := 5\<rparr>) mailbox_new) = Inr () \<and> max_attempts ex_dispatch = 5"
  by code_simp

text \<open>
  C1: Mutual exclusion. When every claim takes at most one dispatch, as the server's delivery loop
  does, no two dispatches of one thread are ever claimed at the same time, whatever the order of
  the operations.
\<close>
theorem one_claim_per_thread:
  assumes "mailbox_reachable cap mb" "cap \<le> 1"
    and "dispatches mb k = Some d" "dispatches mb k' = Some d'"
    and "status d = Claimed" "status d' = Claimed" "thread_id d = thread_id d'"
  shows "k = k'"
  using reachable_single_claim [OF assms(1,2)] assms(3-7) unfolding single_claim_def by blast

theorem one_claim_per_thread_witness:
  "mailbox_reachable 1 ex_claimed \<and> status (the (dispatches ex_claimed ''d'')) = Claimed \<and> ''d'' = ''d''"
proof (intro conjI)
  have c: "dispatches ex_claimed ''d'' = Some ex_claimed_dispatch" "status ex_claimed_dispatch = Claimed"
    by (simp add: ex_claimed_def, code_simp)
  then show "status (the (dispatches ex_claimed ''d'')) = Claimed" by simp
  show "''d'' = ''d''"
    using one_claim_per_thread [OF ex_claimed_reachable _ c(1) c(1) c(2) c(2)] by simp
qed (rule ex_claimed_reachable)

lemma evolves_from_terminal: "dispatch_evolves\<^sup>*\<^sup>* d d' \<Longrightarrow> is_terminal (status d) \<Longrightarrow> d' = d"
  by (erule converse_rtranclpE) (auto simp: dispatch_evolves_def dest: lifecycle_edge_not_terminal)

lemma evolves_facts:
  "dispatch_evolves\<^sup>*\<^sup>* d d' \<Longrightarrow> run_id d' = run_id d \<and> thread_id d' = thread_id d \<and>
     dispatch_id d' = dispatch_id d \<and> max_attempts d' = max_attempts d \<and>
     dedupe_key d' = dedupe_key d \<and> attempt_count d \<le> attempt_count d' \<and>
     lifecycle_edge\<^sup>*\<^sup>* (status d) (status d')"
proof (induction rule: rtranclp_induct)
  case (step y z)
  then show ?case
    by (auto simp: dispatch_evolves_def intro: rtranclp.rtrancl_into_rtrancl)
qed simp

section \<open>Settling a claim\<close>

definition fenced_outcome :: "mailbox \<Rightarrow> string \<Rightarrow> string \<Rightarrow> (mailbox_failure + unit) \<times> mailbox \<Rightarrow> bool" where
  "fenced_outcome mb k token out \<longleftrightarrow>
    (fst out = Inr () \<longrightarrow> (\<exists>d. dispatches mb k = Some d \<and> status d = Claimed \<and>
        claim_token d = Some token \<and>
        dispatch_epoch d = current_epoch_from_state (epochs mb) (thread_id d))) \<and>
    (fst out \<noteq> Inr () \<longrightarrow> (\<exists>e. fst out = Inl (Storage e)) \<and> (snd out = mb \<or>
       (\<exists>d d'. dispatches mb k = Some d \<and> dispatches (snd out) k = Some d' \<and> status d' = Superseded \<and>
          dispatch_epoch d < current_epoch_from_state (epochs mb) (thread_id d) \<and>
          dispatch_epoch d' = current_epoch_from_state (epochs mb) (thread_id d)))) \<and>
    epochs (snd out) = epochs mb \<and> (\<forall>k'. k' \<noteq> k \<longrightarrow> dispatches (snd out) k' = dispatches mb k')"

lemma fenced_rejected: "fenced_outcome mb k token (Inl (Storage e), mb)"
  by (simp add: fenced_outcome_def)

lemma superseded_at_epoch_facts:
  "status d = Claimed \<Longrightarrow> status (snd (dispatch_mark_superseded_at_epoch now e r d)) = Superseded \<and>
     dispatch_epoch (snd (dispatch_mark_superseded_at_epoch now e r d)) = e"
  by (cases r) (simp_all add: dispatch_mark_superseded_at_epoch_def transition_defs)

lemma fenced_stale:
  assumes "dispatches mb k = Some d" "dispatch_ok d" "status d = Claimed"
    "dispatch_epoch d < current_epoch_from_state (epochs mb) (thread_id d)"
  shows "fenced_outcome mb k token
    (reject_stale k now (current_epoch_from_state (epochs mb) (thread_id d)) reason d mb)"
  using assms superseded_at_epoch_facts [of d]
  by (simp add: fenced_outcome_def reject_stale_def state_superseded_at_epoch_eq live_claimed)

lemma fenced_applied:
  assumes "mb_inv mb" "dispatches mb k = Some d" "status d = Claimed" "claim_token d = Some token"
    "\<not> dispatch_epoch d < current_epoch_from_state (epochs mb) (thread_id d)"
    "r = Inr () \<or> (\<exists>e. r = Inl (Storage e)) \<and> d' = d"
  shows "fenced_outcome mb k token (r, put_dispatch k d' mb)"
proof -
  have "dispatch_epoch d \<le> current_epoch_from_state (epochs mb) (thread_id d)"
    using mb_invD [OF assms(1,2)] by (simp add: entry_ok_def)
  moreover have "put_dispatch k d mb = mb"
    using assms(2) by (simp add: put_dispatch_def fun_upd_idem)
  ultimately show ?thesis using assms by (auto simp: fenced_outcome_def)
qed

lemma record_run_result_cases:
  assumes "dispatch_ok d" "status d = Claimed"
  shows "storage (fst (dispatch_record_run_result result now d)) = Inr () \<or>
    (\<exists>e. storage (fst (dispatch_record_run_result result now d)) = Inl (Storage e)) \<and>
    snd (dispatch_record_run_result result now d) = d"
proof (cases "res_run_id result = run_id d")
  case True
  with assms show ?thesis
    using result_step.succeeds [of d result now] by (simp add: storage_def)
next
  case False
  with assms(2) show ?thesis
    by (auto simp: dispatch_record_run_result_def require_status_def storage_def)
qed

lemma settle_fenced:
  assumes "mb_inv mb"
  shows "fenced_outcome mb k token (mailbox_ack k token now mb)"
    and "fenced_outcome mb k token (mailbox_nack k token retry_at err now mb)"
    and "fenced_outcome mb k token (mailbox_dead_letter k token err now mb)"
    and "fenced_outcome mb k token (mailbox_record_dispatch_start k token inst now mb)"
    and "fenced_outcome mb k token (mailbox_record_run_result k token result now mb)"
proof -
  have started: "storage (fst (dispatch_record_start inst now d)) = Inr ()"
    if "dispatch_ok d" "status d = Claimed" for d
    using start_step.succeeds [OF that] by (simp add: storage_def)
  note ok = mb_inv_ok [OF assms]
  show "fenced_outcome mb k token (mailbox_ack k token now mb)"
    by (auto simp: mailbox_ack_def Let_def state_mark_acked_def ack_step.expect token_claimed ok
        intro!: fenced_rejected fenced_stale fenced_applied [OF assms] split: option.split)
  show "fenced_outcome mb k token (mailbox_nack k token retry_at err now mb)"
    by (auto simp: mailbox_nack_def Let_def state_mark_nack_result_def nack_step.expect token_claimed
        ok intro!: fenced_rejected fenced_stale fenced_applied [OF assms] split: option.split)
  show "fenced_outcome mb k token (mailbox_dead_letter k token err now mb)"
    by (auto simp: mailbox_dead_letter_def Let_def state_mark_dead_letter_def
        dead_letter_step.expect token_claimed ok
        intro!: fenced_rejected fenced_stale fenced_applied [OF assms] split: option.split)
  show "fenced_outcome mb k token (mailbox_record_dispatch_start k token inst now mb)"
    by (auto simp: mailbox_record_dispatch_start_def Let_def split_beta started ok
        intro!: fenced_rejected fenced_stale fenced_applied [OF assms] split: option.split)
  show "fenced_outcome mb k token (mailbox_record_run_result k token result now mb)"
    using record_run_result_cases [OF ok, of k _ result now]
    by (auto simp: mailbox_record_run_result_def Let_def split_beta ok
        intro!: fenced_rejected fenced_stale fenced_applied [OF assms] split: option.split)
qed

text \<open>
  C5: Fencing. An ack, nack, dead letter, recorded start or recorded result succeeds only for the
  caller that holds the dispatch's current claim token, while the dispatch is claimed at the current epoch
  of its thread. When it fails, it reports a storage error and leaves the store unchanged, except
  that a dispatch found to be behind its thread's epoch becomes superseded at that epoch. No other
  dispatch and no epoch is touched either way.
\<close>
theorem settlement_is_fenced:
  assumes "mb_inv mb"
    and "(r, mb') \<in> {mailbox_ack k token now mb, mailbox_nack k token retry_at err now mb,
      mailbox_dead_letter k token err now mb, mailbox_record_dispatch_start k token inst now mb,
      mailbox_record_run_result k token result now mb}"
  shows "(r = Inr () \<longrightarrow> (\<exists>d. dispatches mb k = Some d \<and> status d = Claimed \<and>
        claim_token d = Some token \<and>
        dispatch_epoch d = current_epoch_from_state (epochs mb) (thread_id d))) \<and>
    (r \<noteq> Inr () \<longrightarrow> (\<exists>e. r = Inl (Storage e)) \<and> (mb' = mb \<or>
       (\<exists>d d'. dispatches mb k = Some d \<and> dispatches mb' k = Some d' \<and> status d' = Superseded \<and>
          dispatch_epoch d < current_epoch_from_state (epochs mb) (thread_id d) \<and>
          dispatch_epoch d' = current_epoch_from_state (epochs mb) (thread_id d)))) \<and>
    epochs mb' = epochs mb \<and> (\<forall>k'. k' \<noteq> k \<longrightarrow> dispatches mb' k' = dispatches mb k')"
proof -
  have "fenced_outcome mb k token (r, mb')"
    using assms(2) unfolding insert_iff empty_iff
    by (elim disjE FalseE) (simp_all only: settle_fenced [OF assms(1)])
  then show ?thesis by (simp add: fenced_outcome_def)
qed

theorem settlement_is_fenced_witness:
  "fst (mailbox_ack ''d'' ''wrong'' 9 ex_claimed) \<noteq> Inr () \<and>
   snd (mailbox_ack ''d'' ''wrong'' 9 ex_claimed) = ex_claimed"
proof -
  have e: "mailbox_ack ''d'' ''wrong'' 9 ex_claimed =
      (Inl (Storage (VersionConflict 0 1)), ex_claimed)"
    by (simp add: mailbox_ack_def ex_claimed_def ex_claimed_dispatch_def claimed_as_eq
        ex_dispatch_def dispatch_queued_def)
  have "fst (mailbox_ack ''d'' ''wrong'' 9 ex_claimed) \<noteq> Inr ()"
    using settlement_is_fenced [OF ex_claimed_inv, of "Inr ()" "ex_claimed" "''d''" "''wrong''" 9]
    by (simp add: e)
  then show ?thesis by (simp add: e)
qed

section \<open>Interrupt\<close>

lemma mailbox_interrupt_eq:
  assumes "mb_inv mb" "hash_order ord (dispatches mb)"
    "current_epoch_from_state (epochs mb) tid \<noteq> - 1"
  defines "old \<equiv> current_epoch_from_state (epochs mb) tid"
  shows "mailbox_interrupt_detailed ord tid now mb =
    (Inr (interrupt_summary tid old now (hm_values ord (dispatches mb))
        \<lparr>new_dispatch_epoch = old + 1, active_dispatch = None, superseded_count = 0,
         superseded_dispatches = []\<rparr>),
     update_at (set ord) (\<lambda>d. if interruptible tid old d then interrupted now d else d)
       (bump_epoch tid mb))"
  using interrupt_loop_eq [OF bump_epoch_inv [OF assms(1,3)], of ord] assms(2)
  by (simp add: mailbox_interrupt_detailed_def Let_def bump_epoch_def [symmetric] hash_order_def
      old_def)

lemma last_filter:
  assumes "filter P xs = y # ys"
  shows "last (y # ys) \<in> set xs \<and> P (last (y # ys))"
proof -
  have "last (filter P xs) \<in> set (filter P xs)" using assms by (intro last_in_set) simp
  then have "last (filter P xs) \<in> set xs \<and> P (last (filter P xs))"
    unfolding set_filter by (rule CollectD)
  then show ?thesis unfolding assms .
qed

text \<open>
  Interrupt. It raises the thread's epoch by one and no other epoch; every dispatch the thread had queued
  becomes superseded, every other dispatch stays as it is. The result lists exactly the superseded
  dispatches, counts them, and reports the thread's claimed dispatch exactly when it has one.
\<close>
theorem interrupt_supersedes_queued:
  assumes "mb_inv mb" "hash_order ord (dispatches mb)"
    and "current_epoch_from_state (epochs mb) tid \<noteq> - 1"
    and "mailbox_interrupt_detailed ord tid now mb = (r, mb')"
  shows "\<exists>i. r = Inr i \<and>
    current_epoch_from_state (epochs mb) tid < new_dispatch_epoch i \<and>
    epochs mb' = (epochs mb)(tid \<mapsto> new_dispatch_epoch i) \<and>
    (\<forall>k d. dispatches mb k = Some d \<longrightarrow> (\<exists>d'. dispatches mb' k = Some d' \<and>
       (if thread_id d = tid \<and> status d = Queued
        then status d' = Superseded \<and> completed_at d' = Some now \<and> d' \<in> set (superseded_dispatches i)
        else d' = d))) \<and>
    (\<forall>k. dispatches mb k = None \<longrightarrow> dispatches mb' k = None) \<and>
    (\<forall>d' \<in> set (superseded_dispatches i). \<exists>k d. dispatches mb k = Some d \<and> thread_id d = tid \<and>
       status d = Queued \<and> dispatches mb' k = Some d') \<and>
    superseded_count i = length (superseded_dispatches i) \<and>
    (case active_dispatch i of
       None \<Rightarrow> \<not> (\<exists>k d. dispatches mb k = Some d \<and> thread_id d = tid \<and> status d = Claimed)
     | Some d \<Rightarrow> thread_id d = tid \<and> status d = Claimed \<and> (\<exists>k. dispatches mb k = Some d))"
proof -
  let ?old = "current_epoch_from_state (epochs mb) tid"
  let ?f = "\<lambda>d. if interruptible tid ?old d then interrupted now d else d"
  let ?vs = "hm_values ord (dispatches mb)"
  define i where "i = interrupt_summary tid ?old now ?vs
     \<lparr>new_dispatch_epoch = ?old + 1, active_dispatch = None, superseded_count = 0,
      superseded_dispatches = []\<rparr>"
  have r: "r = Inr i" and mb': "mb' = update_at (set ord) ?f (bump_epoch tid mb)"
    using mailbox_interrupt_eq [OF assms(1-3), of now] assms(4) by (simp_all add: i_def)
  have vs: "d \<in> set ?vs \<longleftrightarrow> (\<exists>k. dispatches mb k = Some d)" for d
    using hash_order_values [OF assms(2)] by (auto simp: ran_def)
  have queued: "interruptible tid ?old d \<longleftrightarrow> thread_id d = tid \<and> status d = Queued"
    if "dispatches mb k = Some d" for k d
    using mb_invD [OF assms(1) that] by (auto simp: interruptible_def entry_ok_def)
  have entry: "dispatches mb' k = map_option ?f (dispatches mb k)" for k
    using assms(2) by (cases "dispatches mb k") (auto simp: mb' dest: hash_orderD)
  have sup: "superseded_dispatches i = map (interrupted now) (filter (interruptible tid ?old) ?vs)"
    "superseded_count i = length (superseded_dispatches i)" "new_dispatch_epoch i = ?old + 1"
    by (simp_all add: i_def interrupt_summary_def)
  have act: "active_dispatch i = (case filter (\<lambda>d. thread_id d = tid \<and> status d = Claimed) ?vs of
      [] \<Rightarrow> None | _ \<Rightarrow> Some (last (filter (\<lambda>d. thread_id d = tid \<and> status d = Claimed) ?vs)))"
    by (simp add: i_def interrupt_summary_def fold_last_claimed)
  have active: "case active_dispatch i of
       None \<Rightarrow> \<not> (\<exists>k d. dispatches mb k = Some d \<and> thread_id d = tid \<and> status d = Claimed)
     | Some d \<Rightarrow> thread_id d = tid \<and> status d = Claimed \<and> (\<exists>k. dispatches mb k = Some d)"
  proof (cases "filter (\<lambda>d. thread_id d = tid \<and> status d = Claimed) ?vs")
    case Nil
    then have "\<forall>d \<in> set ?vs. \<not> (thread_id d = tid \<and> status d = Claimed)"
      by (simp add: filter_empty_conv)
    with Nil vs act show ?thesis by auto
  next
    case (Cons d ds)
    from last_filter [OF Cons] Cons vs act show ?thesis by (auto simp del: last.simps)
  qed
  have fwd: "\<exists>d'. dispatches mb' k = Some d' \<and> (if thread_id d = tid \<and> status d = Queued
        then status d' = Superseded \<and> completed_at d' = Some now \<and> d' \<in> set (superseded_dispatches i)
        else d' = d)" if d: "dispatches mb k = Some d" for k d
    using queued [OF d] vs [of d] d interrupted_facts [of d now] by (auto simp: entry sup(1))
  have bwd: "\<forall>d' \<in> set (superseded_dispatches i). \<exists>k d. dispatches mb k = Some d \<and> thread_id d = tid \<and>
       status d = Queued \<and> dispatches mb' k = Some d'"
    using vs queued by (auto simp: sup(1) entry) (metis (full_types) option.simps(9))
  have "epochs mb' = (epochs mb)(tid \<mapsto> new_dispatch_epoch i)"
    by (simp add: mb' sup(3) bump_epoch_def)
  moreover have "?old < new_dispatch_epoch i"
    using less_plus_one [OF assms(3)] by (simp add: sup(3))
  ultimately show ?thesis
    using r fwd bwd sup(2) active by (auto simp: entry)
qed

theorem interrupt_supersedes_queued_witness:
  "\<exists>i mb'. mailbox_interrupt_detailed [''d''] ''t'' 7 ex_queued = (Inr i, mb') \<and>
     (\<exists>d'. dispatches mb' ''d'' = Some d' \<and> status d' = Superseded)"
proof -
  obtain r mb' where e: "mailbox_interrupt_detailed [''d''] ''t'' 7 ex_queued = (r, mb')"
    by (cases "mailbox_interrupt_detailed [''d''] ''t'' 7 ex_queued")
  have "dispatches ex_queued ''d'' = Some ex_dispatch" "thread_id ex_dispatch = ''t''"
      "status ex_dispatch = Queued"
    by (simp_all add: ex_queued_def ex_dispatch_def dispatch_queued_def)
  moreover have "current_epoch_from_state (epochs ex_queued) ''t'' \<noteq> - 1"
    by (simp add: ex_queued_def current_epoch_from_state_def)
  ultimately show ?thesis
    using interrupt_supersedes_queued [OF ex_queued_inv ex_queued_order _ e] e by fastforce
qed

section \<open>Deduplication\<close>

definition dedupe_unique :: "mailbox \<Rightarrow> bool" where
  "dedupe_unique mb \<longleftrightarrow> (\<forall>k k' d d'. dispatches mb k = Some d \<longrightarrow> dispatches mb k' = Some d' \<longrightarrow>
     \<not> is_terminal (status d) \<longrightarrow> \<not> is_terminal (status d') \<longrightarrow> thread_id d = thread_id d' \<longrightarrow>
     dedupe_key d = dedupe_key d' \<longrightarrow> dedupe_key d \<noteq> None \<longrightarrow> k = k')"

lemma dedupe_follow:
  assumes "entries_follow cmd mb mb'" "dedupe_unique mb" "\<forall>d. cmd \<noteq> EnqueueCmd d"
  shows "dedupe_unique mb'"
proof -
  have prior: "\<exists>d. dispatches mb k = Some d \<and> thread_id d = thread_id d' \<and> dedupe_key d = dedupe_key d' \<and>
      (is_terminal (status d) \<longrightarrow> is_terminal (status d'))" if d': "dispatches mb' k = Some d'" for k d'
  proof -
    from assms(1,3) d' obtain d where d: "dispatches mb k = Some d" "dispatch_evolves\<^sup>*\<^sup>* d d'"
      unfolding entries_follow_def by (metis not_Some_eq option.inject)
    show ?thesis using evolves_facts [OF d(2)] evolves_from_terminal [OF d(2)] d(1) by auto
  qed
  show ?thesis
    unfolding dedupe_unique_def
  proof (intro allI impI)
    fix k k' d d'
    assume "dispatches mb' k = Some d" "dispatches mb' k' = Some d'"
      "\<not> is_terminal (status d)" "\<not> is_terminal (status d')" "thread_id d = thread_id d'"
      "dedupe_key d = dedupe_key d'" "dedupe_key d \<noteq> None"
    then show "k = k'"
      using prior [of k d] prior [of k' d'] assms(2) unfolding dedupe_unique_def by metis
  qed
qed

lemma dedupe_enqueue:
  assumes "mailbox_enqueue ord d mb = (r, mb')" "hash_order ord (dispatches mb)" "dedupe_unique mb"
    "dispatches mb (dispatch_id d) = None"
  shows "dedupe_unique mb'"
  using assms(1)
proof (cases rule: mailbox_enqueue_cases)
  case rejected
  with assms(3) show ?thesis by simp
next
  case accepted
  have fresh: "is_terminal (status e)"
    if e: "dispatches mb k = Some e" "thread_id e = thread_id d" "dedupe_key e = dedupe_key d"
      "dedupe_key d \<noteq> None" for k e
  proof -
    from e(4) obtain dk where "dedupe_key d = Some dk" by blast
    moreover have "e \<in> set (hm_values ord (dispatches mb))"
      using hash_order_values [OF assms(2)] e(1) by (auto simp: ran_def)
    ultimately show ?thesis
      using accepted(3) [of dk] e by (auto simp: list_ex_iff)
  qed
  have same: "thread_id (prepare_for_enqueue e d) = thread_id d"
      "dedupe_key (prepare_for_enqueue e d) = dedupe_key d" for e
    by (simp_all add: prepare_for_enqueue_def)
  show ?thesis
    unfolding dedupe_unique_def
  proof (intro allI impI)
    fix k k' e e'
    assume e: "dispatches mb' k = Some e" "dispatches mb' k' = Some e'"
      "\<not> is_terminal (status e)" "\<not> is_terminal (status e')" "thread_id e = thread_id e'"
      "dedupe_key e = dedupe_key e'" "dedupe_key e \<noteq> None"
    have new: "j = dispatch_id d \<and> thread_id x = thread_id d \<and> dedupe_key x = dedupe_key d \<or>
        j \<noteq> dispatch_id d \<and> dispatches mb j = Some x" if "dispatches mb' j = Some x" for j x
      using that same by (cases "j = dispatch_id d") (auto simp: accepted(4))
    show "k = k'"
      using new [OF e(1)] new [OF e(2)]
    proof (elim disjE conjE)
      assume "dispatches mb k = Some e" "dispatches mb k' = Some e'"
      then show ?thesis using assms(3) e unfolding dedupe_unique_def by blast
    next
      assume "dispatches mb k' = Some e'" "thread_id e = thread_id d" "dedupe_key e = dedupe_key d"
      then show ?thesis using fresh [of k' e'] e by simp
    next
      assume "dispatches mb k = Some e" "thread_id e' = thread_id d" "dedupe_key e' = dedupe_key d"
      then show ?thesis using fresh [of k e] e by simp
    qed simp
  qed
qed

lemma reachable_dedupe: "mailbox_reachable cap mb \<Longrightarrow> dedupe_unique mb"
proof (induction rule: mailbox_reachable.induct)
  case initial
  show ?case by (simp add: dedupe_unique_def mailbox_new_def)
next
  case (steps mb cmd f mb')
  show ?case
  proof (cases "\<exists>d. cmd = EnqueueCmd d")
    case True
    then obtain d where cmd: "cmd = EnqueueCmd d" by blast
    with steps(2) obtain ord where o: "hash_order ord (dispatches mb)"
        "dispatches mb (dispatch_id d) = None" "failed_with (mailbox_enqueue ord d mb) = (f, mb')"
      by (auto elim!: mailbox_stepE)
    then have "mailbox_enqueue ord d mb = (fst (mailbox_enqueue ord d mb), mb')"
      using failed_with_snd by (metis prod.collapse snd_conv)
    then show ?thesis using dedupe_enqueue o steps(3) by blast
  next
    case False
    have "entries_follow cmd mb mb'"
      using step_is_good [OF reachable_inv [OF steps(1)] steps(2)] by (simp add: step_good_def)
    with False steps(3) show ?thesis by (blast intro: dedupe_follow)
  qed
qed

text \<open>
  C8: Deduplication. In every reachable state, a thread has at most one live (queued or claimed)
  dispatch with a given dedupe key.
\<close>
theorem one_live_dispatch_per_dedupe_key:
  assumes "mailbox_reachable cap mb" "dispatches mb k = Some d" "dispatches mb k' = Some d'"
    and "\<not> is_terminal (status d)" "\<not> is_terminal (status d')" "thread_id d = thread_id d'"
    and "dedupe_key d = Some key" "dedupe_key d' = Some key"
  shows "k = k'"
  using reachable_dedupe [OF assms(1)] assms(2-) unfolding dedupe_unique_def by auto

definition ex_keyed :: run_dispatch where
  "ex_keyed = ex_dispatch\<lparr>dedupe_key := Some ''k''\<rparr>"

theorem one_live_dispatch_per_dedupe_key_witness:
  "\<exists>mb. mailbox_reachable 1 mb \<and> dispatches mb ''d'' = Some ex_keyed \<and> (\<forall>k. k \<noteq> ''d'' \<longrightarrow>
     dispatches mb k \<noteq> Some ex_keyed)"
proof -
  let ?mb = "\<lparr>dispatches = [''d'' \<mapsto> ex_keyed], epochs = [''t'' \<mapsto> 0]\<rparr>"
  have "validate_for_enqueue ex_keyed = Inr ()" "validate_for_persist ex_keyed = Inr ()"
      "prepare_for_enqueue 0 ex_keyed = ex_keyed"
    by (code_simp, code_simp, simp add: prepare_for_enqueue_def ex_keyed_def ex_dispatch_def
        dispatch_queued_def)
  moreover have keyed: "dedupe_key ex_keyed = Some ''k''" "thread_id ex_keyed = ''t''"
      "dispatch_id ex_keyed = ''d''" "status ex_keyed = Queued" "attempt_count ex_keyed = 0"
      "max_attempts ex_keyed = 5"
    by (simp_all add: ex_keyed_def ex_dispatch_def dispatch_queued_def)
  ultimately have "mailbox_enqueue [] ex_keyed mailbox_new = (Inr (), ?mb)"
    by (simp add: mailbox_enqueue_def mailbox_new_def current_epoch_from_state_def Let_def
        put_dispatch_def)
  then have "mailbox_step 1 mailbox_new (EnqueueCmd ex_keyed) None ?mb"
    by (intro mailbox_step.step [where ord = "[]"])
      (simp_all add: hash_order_def mailbox_new_def keyed)
  then have r: "mailbox_reachable 1 ?mb"
    by (rule mailbox_reachable.steps [OF mailbox_reachable.initial])
  have d: "dispatches ?mb ''d'' = Some ex_keyed" by simp
  have "''d'' = k" if "dispatches ?mb k = Some ex_keyed" for k
    by (rule one_live_dispatch_per_dedupe_key [OF r d that])
      (simp_all add: keyed is_terminal_def)
  with r show ?thesis by (intro exI [of _ ?mb]) auto
qed

section \<open>Retries\<close>

lemma expired_lease_facts:
  fixes msg :: string and now :: u64
  assumes "status d = Claimed" "attempt_count d < max_attempts d"
  defines "d' \<equiv> snd (dispatch_mark_expired_lease now msg d)"
  shows "unat (attempt_count d') = unat (attempt_count d) + 1 \<and> max_attempts d' = max_attempts d \<and>
    available_at d' = now \<and> no_claim d' \<and>
    status d' = (if unat (attempt_count d) + 1 < unat (max_attempts d) then Queued else DeadLetter)"
  using assms(1) unat_sat_add_one [OF assms(2)]
  by (auto simp: d'_def dispatch_mark_expired_lease_def transition_defs Let_def no_claim_def
      word_le_nat_alt)

lemma nack_facts:
  fixes err :: string and now retry_at :: u64
  assumes "status d = Claimed" "attempt_count d < max_attempts d"
  defines "d' \<equiv> snd (dispatch_mark_nack_result now retry_at err d)"
  shows "unat (attempt_count d') = unat (attempt_count d) + 1 \<and> max_attempts d' = max_attempts d \<and>
    status d' = (if unat (attempt_count d) + 1 < unat (max_attempts d) then Queued else DeadLetter)"
  using assms(1) unat_sat_add_one [OF assms(2)]
  by (auto simp: d'_def dispatch_mark_nack_result_def transition_defs Let_def word_le_nat_alt)

text \<open>One failed attempt: a claim, then a nack or the expiry of the lease.\<close>

datatype attempt_failure = Nacked u64 u64 string | LeaseExpired u64

definition failed_attempt ::
    "string \<times> string \<times> u64 \<times> u64 \<times> attempt_failure \<Rightarrow> run_dispatch \<Rightarrow> run_dispatch" where
  "failed_attempt a d = (case a of (consumer, token, lease, now, failure) \<Rightarrow>
     let d1 = snd (dispatch_claim consumer token lease now d) in
     case failure of
       Nacked t retry_at err \<Rightarrow> snd (state_mark_nack_result t retry_at err d1)
     | LeaseExpired t \<Rightarrow> snd (state_mark_expired_lease t d1))"

lemma snd_expect_ok [simp]: "snd (expect_ok msg r) = snd r"
  by (cases r; cases "fst r") (auto simp: expect_ok_def)

lemma failed_attempt_facts:
  fixes consumer token :: string and lease now :: u64 and failure :: attempt_failure
  assumes "dispatch_ok d" "status d = Queued" "\<not> is_blank consumer" "\<not> is_blank token"
  defines "d' \<equiv> failed_attempt (consumer, token, lease, now, failure) d"
  shows "dispatch_ok d' \<and> unat (attempt_count d') = unat (attempt_count d) + 1 \<and>
    max_attempts d' = max_attempts d \<and>
    status d' = (if unat (attempt_count d) + 1 < unat (max_attempts d) then Queued else DeadLetter)"
proof -
  let ?c = "claimed_as consumer token lease now d"
  have c: "dispatch_ok ?c" "status ?c = Claimed" "attempt_count ?c = attempt_count d"
      "max_attempts ?c = max_attempts d"
    using claim_step.keeps_ok [of d consumer token lease now] assms(1-4) claimed_as_eq [OF assms(2)]
    by (simp_all add: claimed_as_def)
  have lt: "attempt_count ?c < max_attempts ?c"
    using c(1,2) by (simp add: dispatch_ok_def is_terminal_def)
  show ?thesis
    unfolding d'_def failed_attempt_def
    using c nack_step.keeps_ok [OF c(1,2)] expire_step.keeps_ok [OF c(1,2)]
      nack_facts [OF c(2) lt] expired_lease_facts [OF c(2) lt]
    by (cases failure)
      (simp_all add: claimed_as_def [symmetric] state_mark_nack_result_def
        state_mark_expired_lease_def)
qed

text \<open>
  C7: Bounded retries. A queued dispatch with \<open>n\<close> attempts left goes back to the queue after each
  of its first \<open>n - 1\<close> failed attempts, however each fails (nack or expired lease), and is dead-lettered by the
  \<open>n\<close>-th, with its attempt count at the maximum.
\<close>
theorem retries_end_in_dead_letter:
  assumes "dispatch_ok d" "status d = Queued"
    and "\<forall>(consumer, token, lease, now, failure) \<in> set as. \<not> is_blank consumer \<and> \<not> is_blank token"
    and "unat (attempt_count d) + length as \<le> unat (max_attempts d)"
  shows "validate_for_persist (fold failed_attempt as d) = Inr () \<and>
    unat (attempt_count (fold failed_attempt as d)) = unat (attempt_count d) + length as \<and>
    status (fold failed_attempt as d) =
      (if unat (attempt_count d) + length as < unat (max_attempts d) then Queued else DeadLetter)"
  using assms
proof (induction as arbitrary: d)
  case Nil
  have "attempt_count d < max_attempts d"
    using Nil.prems(1,2) by (simp add: dispatch_ok_def is_terminal_def)
  with Nil show ?case by (simp add: dispatch_ok_valid word_less_nat_alt)
next
  case (Cons a as)
  obtain consumer token lease now failure where a: "a = (consumer, token, lease, now, failure)"
    by (cases a)
  then have "\<not> is_blank consumer" "\<not> is_blank token" using Cons.prems(3) by auto
  note f = failed_attempt_facts [OF Cons.prems(1,2) this, of lease now failure, folded a]
  show ?case
  proof (cases as)
    case Nil
    with f show ?thesis by (simp add: dispatch_ok_valid)
  next
    case (Cons b bs)
    with f Cons.IH [of "failed_attempt a d"] Cons.prems show ?thesis by simp
  qed
qed

theorem retries_end_in_dead_letter_witness:
  "status (fold failed_attempt (replicate 5 (''c'', ''k'', 9, 5, LeaseExpired 10)) ex_dispatch) = DeadLetter"
proof -
  have "dispatch_ok ex_dispatch" "status ex_dispatch = Queued" by code_simp+
  moreover have "unat (attempt_count ex_dispatch) = 0" "unat (max_attempts ex_dispatch) = 5"
    by (simp_all add: ex_dispatch_def dispatch_queued_def)
  ultimately show ?thesis
    using retries_end_in_dead_letter [of ex_dispatch "replicate 5 (''c'', ''k'', 9, 5, LeaseExpired 10)"]
      ex_not_blank by simp
qed

section \<open>Expired leases\<close>

lemma mailbox_reclaim_eq:
  fixes now :: u64 and limit :: nat
  assumes "mb_inv mb" "hash_order ord (dispatches mb)"
  defines "ds \<equiv> take limit (filter (lease_expired now) (hm_values ord (dispatches mb)))"
  shows "mailbox_reclaim_expired_leases ord now limit mb =
    (Inr (map (reclaimed (epochs mb) now) (filter (\<lambda>d. \<not> fenced_off (epochs mb) d) ds)),
     update_at (dispatch_id ` set ds) (reclaimed (epochs mb) now) mb)"
proof -
  have "dispatches mb (dispatch_id d) = Some d" if "d \<in> set ds" for d
    using that mb_inv_id [OF assms(1)] by (fastforce simp: ds_def set_hm_values dest!: in_set_takeD)
  then have "hm_values (map dispatch_id ds) (dispatches mb) = ds"
    by (induction ds) auto
  then show ?thesis
    using reclaim_loop_eq [OF assms(1) reclaim_ids [OF assms(1,2), where now = now and limit = limit],
        where now = now and acc = "[]"]
    by (simp add: mailbox_reclaim_expired_leases_def ds_def)
qed

text \<open>
  C6: Lease recovery. Reclaiming touches only claimed dispatches whose lease has expired, at most
  \<open>limit\<close> of them. Each one it takes is superseded when it is behind its thread's epoch; otherwise the attempt
  is counted, the claim is cleared, and the dispatch is returned: queued again from now on while
  attempts are left, dead-lettered when none is. When the limit covers all expired leases, none is
  left.
\<close>
theorem reclaim_recovers_expired:
  assumes "mb_inv mb" "hash_order ord (dispatches mb)"
    and "mailbox_reclaim_expired_leases ord now limit mb = (r, mb')"
  shows "\<exists>ds. r = Inr ds \<and> length ds \<le> limit \<and> epochs mb' = epochs mb \<and>
    (\<forall>k d. dispatches mb k = Some d \<longrightarrow> dispatches mb' k = Some d \<or>
      lease_expired now d \<and> (\<exists>d'. dispatches mb' k = Some d' \<and>
        (if dispatch_epoch d < current_epoch_from_state (epochs mb) (thread_id d)
         then status d' = Superseded
         else d' \<in> set ds \<and> unat (attempt_count d') = unat (attempt_count d) + 1 \<and> no_claim d' \<and>
           available_at d' = now \<and>
           status d' = (if unat (attempt_count d) + 1 < unat (max_attempts d) then Queued
                        else DeadLetter)))) \<and>
    (length (filter (lease_expired now) (hm_values ord (dispatches mb))) \<le> limit \<longrightarrow>
      (\<forall>k d'. dispatches mb' k = Some d' \<longrightarrow> \<not> lease_expired now d'))"
proof -
  let ?ex = "filter (lease_expired now) (hm_values ord (dispatches mb))"
  let ?f = "reclaimed (epochs mb) now"
  define ds where "ds = map ?f (filter (\<lambda>d. \<not> fenced_off (epochs mb) d) (take limit ?ex))"
  have r: "r = Inr ds" and mb': "mb' = update_at (dispatch_id ` set (take limit ?ex)) ?f mb"
    using mailbox_reclaim_eq [OF assms(1,2), of now limit] assms(3) by (simp_all add: ds_def)
  have facts: "lease_expired now d \<and> d \<in> set (take limit ?ex)"
    if "dispatches mb k = Some d" "k \<in> dispatch_id ` set (take limit ?ex)" for k d
  proof -
    from that(2) obtain e where e: "k = dispatch_id e" "e \<in> set (take limit ?ex)" by blast
    then have e': "e \<in> set ?ex" by (blast dest: in_set_takeD)
    then obtain j where "dispatches mb j = Some e" by (auto simp: set_hm_values)
    with mb_inv_id [OF assms(1)] e(1) that(1) have "e = d" by fastforce
    with e e' show ?thesis by simp
  qed
  have taken: "if dispatch_epoch d < current_epoch_from_state (epochs mb) (thread_id d)
      then status (?f d) = Superseded
      else unat (attempt_count (?f d)) = unat (attempt_count d) + 1 \<and> no_claim (?f d) \<and>
        available_at (?f d) = now \<and>
        status (?f d) = (if unat (attempt_count d) + 1 < unat (max_attempts d) then Queued
                         else DeadLetter)"
    if "dispatches mb k = Some d" "lease_expired now d" for k d
  proof -
    have c: "status d = Claimed" using that(2) by (simp add: lease_expired_def)
    moreover have "attempt_count d < max_attempts d"
      using mb_inv_ok [OF assms(1) that(1)] c by (simp add: dispatch_ok_def is_terminal_def)
    ultimately show ?thesis
      using superseded_at_epoch_facts [OF c] expired_lease_facts
      by (auto simp: reclaimed_def fenced_off_def)
  qed
  have "length ds \<le> limit"
    using length_filter_le [of _ "take limit ?ex"] by (simp add: ds_def le_trans)
  moreover have "\<not> lease_expired now d'" if "length ?ex \<le> limit" "dispatches mb' k = Some d'" for k d'
  proof (cases "k \<in> dispatch_id ` set (take limit ?ex)")
    case True
    with that(2) obtain d where d: "dispatches mb k = Some d" "d' = ?f d" by (auto simp: mb')
    with taken [OF d(1)] facts [OF d(1) True] show ?thesis
      by (auto simp: lease_expired_def split: if_splits)
  next
    case False
    with that(2) have d: "dispatches mb k = Some d'" by (simp add: mb')
    then have "d' \<in> set (hm_values ord (dispatches mb))"
      using hash_order_values [OF assms(2)] by (auto simp: ran_def)
    with False that(1) mb_inv_id [OF assms(1) d] show ?thesis by auto
  qed
  moreover have "dispatches mb' k = Some d \<or> lease_expired now d \<and> (\<exists>d'. dispatches mb' k = Some d' \<and>
        (if dispatch_epoch d < current_epoch_from_state (epochs mb) (thread_id d)
         then status d' = Superseded
         else d' \<in> set ds \<and> unat (attempt_count d') = unat (attempt_count d) + 1 \<and> no_claim d' \<and>
           available_at d' = now \<and>
           status d' = (if unat (attempt_count d) + 1 < unat (max_attempts d) then Queued
                        else DeadLetter)))" if d: "dispatches mb k = Some d" for k d
  proof (cases "k \<in> dispatch_id ` set (take limit ?ex)")
    case True
    have "\<not> fenced_off (epochs mb) d \<Longrightarrow> ?f d \<in> set ds"
      using facts [OF d True] by (simp add: ds_def)
    with True d facts [OF d True] taken [OF d] show ?thesis
      by (simp add: mb' fenced_off_def split: if_splits)
  next
    case False
    with d show ?thesis by (simp add: mb')
  qed
  moreover have "epochs mb' = epochs mb" by (simp add: mb')
  ultimately show ?thesis using r by blast
qed

theorem reclaim_recovers_expired_witness:
  "\<exists>ds mb'. mailbox_reclaim_expired_leases [''d''] 200 10 ex_claimed = (Inr ds, mb') \<and>
     (\<exists>d'. dispatches mb' ''d'' = Some d' \<and> \<not> lease_expired 200 d')"
proof -
  obtain r mb' where e: "mailbox_reclaim_expired_leases [''d''] 200 10 ex_claimed = (r, mb')"
    by (cases "mailbox_reclaim_expired_leases [''d''] 200 10 ex_claimed")
  have d: "dispatches ex_claimed ''d'' = Some ex_claimed_dispatch"
    by (simp add: ex_claimed_def)
  note t = reclaim_recovers_expired [OF ex_claimed_inv ex_claimed_order e]
  have "length (filter (lease_expired 200) (hm_values [''d''] (dispatches ex_claimed))) \<le> 10"
    using d by simp
  with t obtain ds where ds: "r = Inr ds"
    and none: "\<And>k d'. dispatches mb' k = Some d' \<Longrightarrow> \<not> lease_expired 200 d'" by blast
  from t d have "\<exists>d'. dispatches mb' ''d'' = Some d'" by blast
  with ds none e show ?thesis by blast
qed

section \<open>A claim on the small run\<close>

theorem claim_takes_best_witness:
  "status (hd [ex_claimed_dispatch]) = Claimed \<and> claim_token ex_claimed_dispatch = Some ''k''"
proof -
  from claim_takes_best [OF ex_queued_inv ex_queued_order ex_not_blank ex_claim]
  obtain d0 where "ex_claimed_dispatch = d0\<lparr>status := Claimed, claim_token := Some ''k'', claimed_by := Some ''c'',
      lease_until := Some 105, updated_at := 5\<rparr>" by auto
  moreover have "x = d0\<lparr>status := Claimed, claim_token := Some ''k'', claimed_by := Some ''c'', lease_until := Some 105,
      updated_at := 5\<rparr> \<Longrightarrow> status x = Claimed \<and> claim_token x = Some ''k''" for x :: run_dispatch
    by (cases d0) auto
  ultimately show ?thesis by simp
qed

end
