(* ===== verification/Mailbox_Moves.thy ===== *)
theory Mailbox_Moves
imports Mailbox_Correct
begin

text \<open>
  Which status each operation of the in-memory mailbox moves a dispatch to, operation by operation,
  and that every step of the store moves dispatches exactly so.
\<close>

section \<open>The specification of the moves\<close>

definition behind :: "mailbox \<Rightarrow> run_dispatch \<Rightarrow> bool" where
  "behind mb d \<longleftrightarrow> dispatch_epoch d < current_epoch_from_state (epochs mb) (thread_id d)"

definition holds_claim :: "string \<Rightarrow> string \<Rightarrow> run_dispatch \<Rightarrow> bool" where
  "holds_claim did token d \<longleftrightarrow>
     dispatch_id d = did \<and> status d = Claimed \<and> claim_token d = Some token"

definition after_failure :: "run_dispatch \<Rightarrow> run_dispatch_status" where
  "after_failure d =
     (if unat (attempt_count d) + 1 < unat (max_attempts d) then Queued else DeadLetter)"

text \<open>
  The status a command gives to a stored dispatch, when it is one the command applies to: one edge
  per command, except that a dispatch behind its thread's epoch is superseded instead.
\<close>

fun command_target ::
    "mailbox_command \<Rightarrow> mailbox \<Rightarrow> run_dispatch \<Rightarrow> run_dispatch_status option" where
  "command_target (ClaimCmd tid _ _ now _ _) mb d =
     (if thread_id d = tid \<and> status d = Queued then
        if behind mb d then Some Superseded
        else if available_at d \<le> now then Some Claimed else None
      else None)"
| "command_target (ClaimDispatchCmd did _ _ _ _) mb d =
     (if dispatch_id d = did \<and> status d = Queued
      then Some (if behind mb d then Superseded else Claimed) else None)"
| "command_target (AckCmd did token _) mb d =
     (if holds_claim did token d then Some (if behind mb d then Superseded else Acked) else None)"
| "command_target (NackCmd did token _ _ _) mb d =
     (if holds_claim did token d
      then Some (if behind mb d then Superseded else after_failure d) else None)"
| "command_target (DeadLetterCmd did token _ _) mb d =
     (if holds_claim did token d
      then Some (if behind mb d then Superseded else DeadLetter) else None)"
| "command_target (CancelCmd did _) mb d =
     (if dispatch_id d = did \<and> status d = Queued then Some Cancelled else None)"
| "command_target (ExtendLeaseCmd did token _ _) mb d =
     (if holds_claim did token d then Some (if behind mb d then Superseded else Claimed) else None)"
| "command_target (RecordStartCmd did token _ _) mb d =
     (if holds_claim did token d then Some (if behind mb d then Superseded else Claimed) else None)"
| "command_target (RecordResultCmd did token _ _) mb d =
     (if holds_claim did token d then Some (if behind mb d then Superseded else Claimed) else None)"
| "command_target (InterruptCmd tid _) mb d =
     (if thread_id d = tid \<and> status d = Queued then Some Superseded else None)"
| "command_target (SupersedeClaimedCmd did token _ _) mb d =
     (if holds_claim did token d then Some Superseded else None)"
| "command_target (ReclaimCmd now _) mb d =
     (if lease_expired now d
      then Some (if behind mb d then Superseded else after_failure d) else None)"
| "command_target (EnqueueCmd _) mb d = None"
| "command_target (PurgeCmd _) mb d = None"

text \<open>
  The commands that may leave a dispatch they apply to as it is: a claim is limited and takes
  nothing from a busy thread, a reclaim is limited.
\<close>

fun may_skip :: "mailbox_command \<Rightarrow> bool" where
  "may_skip (ClaimCmd _ _ _ _ _ _) = True"
| "may_skip (ClaimDispatchCmd _ _ _ _ _) = True"
| "may_skip (ReclaimCmd _ _) = True"
| "may_skip _ = False"

text \<open>The commands that count a failed attempt on a dispatch that is not behind.\<close>

fun counts_attempt :: "mailbox_command \<Rightarrow> bool" where
  "counts_attempt (NackCmd _ _ _ _ _) = True"
| "counts_attempt (ReclaimCmd _ _) = True"
| "counts_attempt _ = False"

definition moved :: "mailbox_command \<Rightarrow> mailbox \<Rightarrow> run_dispatch \<Rightarrow> run_dispatch \<Rightarrow> bool" where
  "moved cmd mb d d' \<longleftrightarrow> command_target cmd mb d = Some (status d') \<and>
     unat (attempt_count d') = unat (attempt_count d) +
       (if counts_attempt cmd \<and> \<not> behind mb d then 1 else 0)"

definition moves_as :: "mailbox_command \<Rightarrow> mailbox \<Rightarrow> mailbox \<Rightarrow> bool" where
  "moves_as cmd mb mb' \<longleftrightarrow> (\<forall>k d. dispatches mb k = Some d \<longrightarrow>
     (\<exists>d'. dispatches mb' k = Some d' \<and> (d' = d \<or> moved cmd mb d d') \<and>
        (\<not> may_skip cmd \<longrightarrow> command_target cmd mb d \<in> {None, Some (status d')})))"

lemma moves_same:
  "(\<And>k d s. dispatches mb k = Some d \<Longrightarrow> command_target cmd mb d = Some s \<Longrightarrow> may_skip cmd \<or> s = status d)
     \<Longrightarrow> moves_as cmd mb mb"
  unfolding moves_as_def by (metis insertCI not_Some_eq)

lemma moves_put:
  assumes "mb_inv mb" "dispatches mb k = Some d" "moved cmd mb d d'"
    and "\<And>e. dispatch_id e \<noteq> k \<Longrightarrow> command_target cmd mb e = None"
  shows "moves_as cmd mb (put_dispatch k d' mb)"
  using assms mb_inv_id [OF assms(1)] by (auto simp: moves_as_def moved_def)

section \<open>What each transition does to the status and the attempts\<close>

lemma supersede_at_epoch_move:
  "live d \<Longrightarrow> status (snd (dispatch_mark_superseded_at_epoch now e r d)) = Superseded \<and>
     attempt_count (snd (dispatch_mark_superseded_at_epoch now e r d)) = attempt_count d"
  by (cases "status d"; cases r) (simp_all add: live_def dispatch_mark_superseded_at_epoch_def
      dispatch_mark_superseded_def transition_defs)

lemma claimed_move:
  assumes "status d = Claimed"
  shows "status (snd (dispatch_mark_acked now d)) = Acked"
    "attempt_count (snd (dispatch_mark_acked now d)) = attempt_count d"
    "status (snd (dispatch_mark_dead_letter now err d)) = DeadLetter"
    "attempt_count (snd (dispatch_mark_dead_letter now err d)) = attempt_count d"
    "status (snd (dispatch_record_start inst now d)) = Claimed"
    "attempt_count (snd (dispatch_record_start inst now d)) = attempt_count d"
    "status (snd (dispatch_record_run_result result now d)) = Claimed"
    "attempt_count (snd (dispatch_record_run_result result now d)) = attempt_count d"
    "status (snd (dispatch_extend_lease lease now d)) = Claimed"
    "attempt_count (snd (dispatch_extend_lease lease now d)) = attempt_count d"
  using assms by (simp_all add: dispatch_mark_acked_def dispatch_mark_dead_letter_def
      dispatch_record_start_def dispatch_record_run_result_def dispatch_extend_lease_def transition_defs)

lemma queued_move:
  assumes "status d = Queued"
  shows "status (snd (dispatch_mark_cancelled now d)) = Cancelled"
    "attempt_count (snd (dispatch_mark_cancelled now d)) = attempt_count d"
    "status (snd (dispatch_mark_superseded now r d)) = Superseded"
    "attempt_count (snd (dispatch_mark_superseded now r d)) = attempt_count d"
  using assms by (simp_all add: dispatch_mark_cancelled_def dispatch_mark_superseded_def transition_defs
      split: option.split)

lemma attempt_left: "dispatch_ok d \<Longrightarrow> status d = Claimed \<Longrightarrow> attempt_count d < max_attempts d"
  by (simp add: dispatch_ok_def is_terminal_def)

section \<open>The operations on one dispatch\<close>

lemma reject_stale_moves:
  assumes "mb_inv mb" "dispatches mb k = Some d" "status d = Claimed" "behind mb d"
    and "command_target cmd mb d = Some Superseded"
    and "\<And>e. dispatch_id e \<noteq> k \<Longrightarrow> command_target cmd mb e = None"
  shows "moves_as cmd mb (snd (reject_stale k now cur reason d mb))"
  using assms supersede_at_epoch_move [of d]
  by (auto simp: reject_stale_def state_superseded_at_epoch_eq live_claimed mb_inv_ok moved_def
      intro!: moves_put)

lemma settle_moves:
  assumes "mb_inv mb"
  shows "moves_as (AckCmd k token now) mb (snd (mailbox_ack k token now mb))"
    and "moves_as (DeadLetterCmd k token err now) mb (snd (mailbox_dead_letter k token err now mb))"
    and "moves_as (NackCmd k token retry_at err now) mb (snd (mailbox_nack k token retry_at err now mb))"
    and "moves_as (RecordStartCmd k token inst now) mb
          (snd (mailbox_record_dispatch_start k token inst now mb))"
    and "moves_as (RecordResultCmd k token result now) mb
          (snd (mailbox_record_run_result k token result now mb))"
    and "moves_as (ExtendLeaseCmd k token ext now) mb (snd (mailbox_extend_lease k token ext now mb))"
    and "moves_as (SupersedeClaimedCmd k token now reason) mb
          (snd (mailbox_supersede_claimed k token now reason mb))"
    and "moves_as (CancelCmd k now) mb (snd (mailbox_cancel k now mb))"
proof -
  note ok = mb_inv_ok [OF assms] and id = mb_inv_id [OF assms]
  note put = moves_put [OF assms] and stale = reject_stale_moves [OF assms]
  show "moves_as (AckCmd k token now) mb (snd (mailbox_ack k token now mb))"
    using ok id by (auto simp: mailbox_ack_def Let_def state_mark_acked_def ack_step.expect token_claimed
        holds_claim_def behind_def moved_def claimed_move
        intro!: stale put split: option.split) (auto intro!: moves_same simp: holds_claim_def split: if_splits)
  show "moves_as (DeadLetterCmd k token err now) mb (snd (mailbox_dead_letter k token err now mb))"
    using ok id by (auto simp: mailbox_dead_letter_def Let_def state_mark_dead_letter_def
        dead_letter_step.expect token_claimed holds_claim_def behind_def moved_def claimed_move
        intro!: stale put split: option.split) (auto intro!: moves_same simp: holds_claim_def split: if_splits)
  show "moves_as (NackCmd k token retry_at err now) mb (snd (mailbox_nack k token retry_at err now mb))"
    using ok id nack_facts attempt_left
    by (auto simp: mailbox_nack_def Let_def state_mark_nack_result_def nack_step.expect token_claimed
        holds_claim_def behind_def moved_def after_failure_def
        intro!: stale put split: option.split) (auto intro!: moves_same simp: holds_claim_def split: if_splits)
  show "moves_as (RecordStartCmd k token inst now) mb
      (snd (mailbox_record_dispatch_start k token inst now mb))"
    using ok id by (auto simp: mailbox_record_dispatch_start_def Let_def split_beta
        holds_claim_def behind_def moved_def claimed_move
        intro!: stale put split: option.split) (auto intro!: moves_same simp: holds_claim_def split: if_splits)
  show "moves_as (RecordResultCmd k token result now) mb
      (snd (mailbox_record_run_result k token result now mb))"
    using ok id by (auto simp: mailbox_record_run_result_def Let_def split_beta
        holds_claim_def behind_def moved_def claimed_move
        intro!: stale put split: option.split) (auto intro!: moves_same simp: holds_claim_def split: if_splits)
  show "moves_as (ExtendLeaseCmd k token ext now) mb (snd (mailbox_extend_lease k token ext now mb))"
    using ok id supersede_at_epoch_move
    by (auto simp: mailbox_extend_lease_def Let_def split_beta state_superseded_at_epoch_eq
        live_claimed holds_claim_def behind_def moved_def claimed_move
        intro!: put split: option.split sum.split prod.split) (auto intro!: moves_same simp: holds_claim_def split: if_splits)
  show "moves_as (SupersedeClaimedCmd k token now reason) mb
      (snd (mailbox_supersede_claimed k token now reason mb))"
    using ok id supersede_at_epoch_move
    by (auto simp: mailbox_supersede_claimed_def Let_def state_superseded_at_epoch_eq
        live_claimed holds_claim_def moved_def
        intro!: put split: option.split) (auto intro!: moves_same simp: holds_claim_def split: if_splits)
  show "moves_as (CancelCmd k now) mb (snd (mailbox_cancel k now mb))"
    using ok id by (auto simp: mailbox_cancel_def state_mark_cancelled_def cancel_step.expect
        moved_def queued_move intro!: put split: option.split) (auto intro!: moves_same split: if_splits)
qed

section \<open>The operations on several dispatches\<close>

lemma claim_dispatch_moves:
  assumes "mb_inv mb" "\<not> is_blank consumer" "\<not> is_blank token"
  shows "moves_as (ClaimDispatchCmd k consumer lease_ms now token) mb
    (snd (mailbox_claim_dispatch ord k consumer lease_ms now token mb))"
proof (cases "\<exists>d. dispatches mb k = Some d \<and> status d = Queued")
  case False
  then have "snd (mailbox_claim_dispatch ord k consumer lease_ms now token mb) = mb"
    by (auto simp: mailbox_claim_dispatch_def split: option.splits)
  then show ?thesis by (auto intro!: moves_same)
next
  case True
  then obtain d where d: "dispatches mb k = Some d" "status d = Queued" by blast
  have "status (claimed_as consumer token (now + lease_ms) now d) = Claimed"
      "attempt_count (claimed_as consumer token (now + lease_ms) now d) = attempt_count d"
    using d(2) by (simp_all add: claimed_as_eq)
  then show ?thesis
    using d put_claimed(1) [OF assms(1) d assms(2,3), of "now + lease_ms" now] mb_inv_ok [OF assms(1) d(1)]
      mb_inv_id [OF assms(1) d(1)] supersede_at_epoch_move [of d]
    by (auto simp: mailbox_claim_dispatch_def Let_def state_superseded_at_epoch_eq live_queued
        behind_def moved_def intro!: moves_put [OF assms(1)] moves_same)
qed

lemma moves_update:
  assumes "\<And>k d. dispatches mb k = Some d \<Longrightarrow> if k \<in> K then f d = d \<or> moved cmd mb d (f d) else True"
    and "\<And>k d. dispatches mb k = Some d \<Longrightarrow> \<not> may_skip cmd \<Longrightarrow>
      command_target cmd mb d \<in> {None, Some (status (if k \<in> K then f d else d))}"
    and "dispatches mb' = dispatches (update_at K f mb)"
  shows "moves_as cmd mb mb'"
  unfolding moves_as_def
proof (intro allI impI)
  fix k d
  assume d: "dispatches mb k = Some d"
  from assms(1) [OF d] assms(2) [OF d] d
  show "\<exists>d'. dispatches mb' k = Some d' \<and> (d' = d \<or> moved cmd mb d d') \<and>
      (\<not> may_skip cmd \<longrightarrow> command_target cmd mb d \<in> {None, Some (status d')})"
    by (intro exI [of _ "if k \<in> K then f d else d"]) (auto simp: assms(3))
qed

lemma interrupt_moves:
  assumes "mb_inv mb" "hash_order ord (dispatches mb)"
    "current_epoch_from_state (epochs mb) tid \<noteq> - 1"
  shows "moves_as (InterruptCmd tid now) mb (snd (mailbox_interrupt_detailed ord tid now mb))"
proof (rule moves_update)
  let ?old = "current_epoch_from_state (epochs mb) tid"
  let ?f = "\<lambda>d. if interruptible tid ?old d then interrupted now d else d"
  show "dispatches (snd (mailbox_interrupt_detailed ord tid now mb)) = dispatches (update_at (set ord) ?f mb)"
    by (rule ext) (simp add: mailbox_interrupt_eq [OF assms])
  fix k d
  assume d: "dispatches mb k = Some d"
  have q: "interruptible tid ?old d \<longleftrightarrow> thread_id d = tid \<and> status d = Queued"
    using mb_invD [OF assms(1) d] by (auto simp: interruptible_def entry_ok_def)
  show "if k \<in> set ord then ?f d = d \<or> moved (InterruptCmd tid now) mb d (?f d) else True"
    using q queued_move(3,4) by (simp add: moved_def interrupted_def)
  have "k \<in> set ord" using assms(2) d by (rule hash_orderD)
  then show "command_target (InterruptCmd tid now) mb d \<in> {None, Some (status (if k \<in> set ord then ?f d else d))}"
    using q queued_move(3) by (simp add: interrupted_def)
qed

lemma reclaim_moves:
  assumes "mb_inv mb" "hash_order ord (dispatches mb)"
  shows "moves_as (ReclaimCmd now limit) mb (snd (mailbox_reclaim_expired_leases ord now limit mb))"
proof (rule moves_update)
  let ?K = "dispatch_id ` set (take limit (filter (lease_expired now) (hm_values ord (dispatches mb))))"
  show "dispatches (snd (mailbox_reclaim_expired_leases ord now limit mb)) =
      dispatches (update_at ?K (reclaimed (epochs mb) now) mb)"
    by (simp add: mailbox_reclaim_eq [OF assms])
  fix k d
  assume d: "dispatches mb k = Some d"
  show "if k \<in> ?K then reclaimed (epochs mb) now d = d \<or>
      moved (ReclaimCmd now limit) mb d (reclaimed (epochs mb) now d) else True"
  proof (cases "k \<in> ?K")
    case True
    then obtain e where e: "k = dispatch_id e" "e \<in> set (hm_values ord (dispatches mb))" "lease_expired now e"
      by (auto dest!: in_set_takeD)
    then obtain j where "dispatches mb j = Some e" by (auto simp: set_hm_values)
    with mb_inv_id [OF assms(1)] e(1) d have "e = d" by fastforce
    with e(3) have ex: "lease_expired now d" by simp
    then have c: "status d = Claimed" by (simp add: lease_expired_def)
    note left = attempt_left [OF mb_inv_ok [OF assms(1) d] c]
    have "moved (ReclaimCmd now limit) mb d (reclaimed (epochs mb) now d)"
      using ex supersede_at_epoch_move [OF live_claimed [OF c]] expired_lease_facts [OF c left]
      by (auto simp: moved_def reclaimed_def fenced_off_def behind_def after_failure_def)
    then show ?thesis by simp
  qed simp
qed simp

lemma claim_moves:
  assumes "mb_inv mb" "hash_order ord (dispatches mb)" "\<not> is_blank consumer" "\<not> is_blank token"
  shows "moves_as (ClaimCmd tid consumer lease_ms now limit token) mb
    (snd (mailbox_claim ord tid consumer lease_ms now limit token mb))"
proof -
  let ?cur = "current_epoch_from_state (epochs mb) tid"
  let ?f = "claimed_as consumer token (now + lease_ms) now"
  define K where "K = set (if has_claimed ord (\<lambda>j. thread_id j = tid) mb then []
    else take limit (eligible_ids ord tid now (dispatches (fenced tid now mb))))"
  have mb': "snd (mailbox_claim ord tid consumer lease_ms now limit token mb) = update_at K ?f (fenced tid now mb)"
    using mailbox_claim_eq(1) [OF assms, where tid = tid and now = now and lease_ms = lease_ms and limit = limit]
    by (simp add: K_def)
  have taken: "eligible tid now e" if "k \<in> K" "dispatches (fenced tid now mb) k = Some e" for k e
    using that set_eligible_ids [of ord "dispatches (fenced tid now mb)" tid now] assms(2)
    by (auto simp: K_def dest!: in_set_takeD split: if_splits)
  show ?thesis
    unfolding moves_as_def
  proof (intro allI impI)
    fix k d
    assume d: "dispatches mb k = Some d"
    have ok: "dispatch_ok d" "dispatch_epoch d \<le> current_epoch_from_state (epochs mb) (thread_id d)"
      using mb_invD [OF assms(1) d] by (simp_all add: entry_ok_def)
    let ?e = "if stale_queued tid ?cur d then supersede_stale ?cur now d else d"
    have e: "dispatches (fenced tid now mb) k = Some ?e" using d by (simp add: fenced_def)
    have "\<not> stale_queued tid ?cur d \<and> moved (ClaimCmd tid consumer lease_ms now limit token) mb d (?f ?e)"
      if "k \<in> K"
    proof -
      have q: "thread_id ?e = tid" "status ?e = Queued" "available_at ?e \<le> now"
        using taken [OF that e] by (simp_all add: eligible_def)
      then have fresh: "\<not> stale_queued tid ?cur d"
        using supersede_stale_status [of d ?cur now] by (auto simp: stale_queued_def)
      then have d': "thread_id d = tid" "status d = Queued" "available_at d \<le> now"
        using q by simp_all
      with fresh have "\<not> behind mb d" by (simp add: stale_queued_def behind_def)
      have "status (?f d) = Claimed \<and> attempt_count (?f d) = attempt_count d"
        by (simp add: claimed_as_eq [OF d'(2)])
      with d' fresh \<open>\<not> behind mb d\<close> show ?thesis by (simp add: moved_def)
    qed
    moreover have "moved (ClaimCmd tid consumer lease_ms now limit token) mb d ?e" if "stale_queued tid ?cur d"
      using that supersede_at_epoch_move [of d] live_queued [of d]
      by (auto simp: moved_def behind_def stale_queued_def supersede_stale_def)
    ultimately have out: "(if k \<in> K then ?f ?e else ?e) = d \<or>
        moved (ClaimCmd tid consumer lease_ms now limit token) mb d (if k \<in> K then ?f ?e else ?e)"
      by (cases "k \<in> K"; cases "stale_queued tid ?cur d") (auto simp only: if_True if_False)
    have "dispatches (snd (mailbox_claim ord tid consumer lease_ms now limit token mb)) k =
        Some (if k \<in> K then ?f ?e else ?e)"
      unfolding mb' update_at_simps e by simp
    with out show "\<exists>d'. dispatches (snd (mailbox_claim ord tid consumer lease_ms now limit token mb)) k = Some d' \<and>
        (d' = d \<or> moved (ClaimCmd tid consumer lease_ms now limit token) mb d d') \<and>
        (\<not> may_skip (ClaimCmd tid consumer lease_ms now limit token) \<longrightarrow>
          command_target (ClaimCmd tid consumer lease_ms now limit token) mb d \<in> {None, Some (status d')})"
      by (simp only: may_skip.simps) blast
  qed
qed

section \<open>Every step\<close>

lemma step_moves:
  assumes "mb_inv mb" "mailbox_step cap mb cmd f mb'" "\<And>t. cmd \<noteq> PurgeCmd t"
  shows "moves_as cmd mb mb'"
  using assms(2)
proof (cases rule: mailbox_step.cases)
  case (step ord)
  note e = step(3)
  have mb': "mb' = snd (mailbox_exec ord cmd mb)" using e by simp
  show ?thesis
  proof (cases cmd)
    case (EnqueueCmd d)
    have new: "mailbox_enqueue ord d mb = (fst (mailbox_enqueue ord d mb), mb')"
      using mb' by (simp add: EnqueueCmd)
    have "dispatches mb' k = dispatches mb k" if "dispatches mb k \<noteq> None" for k
      using new
    proof (cases rule: mailbox_enqueue_cases)
      case accepted
      with that step(2) show ?thesis by (auto simp: EnqueueCmd)
    qed simp
    then show ?thesis by (simp add: moves_as_def EnqueueCmd)
  next
    case ClaimCmd
    with mb' step(1,2) show ?thesis using claim_moves [OF assms(1) step(1)] by simp
  next
    case ClaimDispatchCmd
    with mb' step(2) show ?thesis using claim_dispatch_moves [OF assms(1)] by simp
  next
    case InterruptCmd
    with mb' step(2) show ?thesis using interrupt_moves [OF assms(1) step(1)] by simp
  next
    case ReclaimCmd
    with mb' show ?thesis using reclaim_moves [OF assms(1) step(1)] by simp
  qed (use mb' assms(3) settle_moves [OF assms(1)] in simp_all)
qed

lemma step_keeps_identity:
  assumes "entries_follow cmd mb mb'" "dispatches mb k = Some d" "dispatches mb' k = Some d'"
  shows "dispatch_id d' = dispatch_id d \<and> thread_id d' = thread_id d \<and> run_id d' = run_id d \<and>
    dedupe_key d' = dedupe_key d \<and> max_attempts d' = max_attempts d"
proof -
  have "dispatch_evolves\<^sup>*\<^sup>* d d'"
    using assms unfolding entries_follow_def by (metis option.inject option.distinct(1))
  from evolves_facts [OF this] show ?thesis by simp
qed

text \<open>
  C3: Lifecycle refinement. In every step of the store each dispatch either stays exactly as it is or
  moves to the status that \<open>command_target\<close> names for the operation of the step: one edge of the lifecycle
  per operation (a claim takes a queued dispatch to claimed, an ack the claimed dispatch of its token to
  acked, a cancel a queued one to cancelled, a nack or an expired lease a claimed one back to queued or,
  with its attempts used up, to the dead letters, ...), and superseded instead when the dispatch is behind
  its thread's epoch. Every operation but the two claims and the reclaim moves all it applies to. A
  moved dispatch keeps its identity, and its attempts grow by one exactly when a nack or an expired lease
  counts one. Only \<^verbatim>\<open>purge_terminal\<close> removes a dispatch, in a terminal state and older than the given time,
  and one that appears was enqueued in this step and is queued. (Steps are those of callers that keep
  the conditions of \<open>admissible\<close>.)
\<close>
theorem mailbox_step_refines_lifecycle:
  assumes "mailbox_reachable cap mb" "mailbox_step cap mb cmd f mb'"
  shows "(\<forall>k d. dispatches mb k = Some d \<longrightarrow> (case dispatches mb' k of
        Some d' \<Rightarrow> (d' = d \<or>
            command_target cmd mb d = Some (status d') \<and>
            dispatch_id d' = dispatch_id d \<and> thread_id d' = thread_id d \<and> run_id d' = run_id d \<and>
            dedupe_key d' = dedupe_key d \<and> max_attempts d' = max_attempts d \<and>
            unat (attempt_count d') = unat (attempt_count d) +
              (if counts_attempt cmd \<and> \<not> behind mb d then 1 else 0)) \<and>
          (\<not> may_skip cmd \<longrightarrow> command_target cmd mb d \<in> {None, Some (status d')})
      | None \<Rightarrow> is_terminal (status d) \<and> (\<exists>t. cmd = PurgeCmd t \<and> updated_at d < t))) \<and>
    (\<forall>k d'. dispatches mb k = None \<longrightarrow> dispatches mb' k = Some d' \<longrightarrow>
        (\<exists>d. cmd = EnqueueCmd d \<and> k = dispatch_id d) \<and> status d' = Queued)"
proof -
  have inv: "mb_inv mb" by (rule reachable_inv [OF assms(1)])
  have follow: "entries_follow cmd mb mb'"
    using step_is_good [OF inv assms(2)] by (simp add: step_good_def)
  show ?thesis
  proof (intro conjI allI impI)
    fix k d
    assume d: "dispatches mb k = Some d"
    show "case dispatches mb' k of
        Some d' \<Rightarrow> (d' = d \<or>
            command_target cmd mb d = Some (status d') \<and>
            dispatch_id d' = dispatch_id d \<and> thread_id d' = thread_id d \<and> run_id d' = run_id d \<and>
            dedupe_key d' = dedupe_key d \<and> max_attempts d' = max_attempts d \<and>
            unat (attempt_count d') = unat (attempt_count d) +
              (if counts_attempt cmd \<and> \<not> behind mb d then 1 else 0)) \<and>
          (\<not> may_skip cmd \<longrightarrow> command_target cmd mb d \<in> {None, Some (status d')})
      | None \<Rightarrow> is_terminal (status d) \<and> (\<exists>t. cmd = PurgeCmd t \<and> updated_at d < t)"
    proof (cases "\<exists>t. cmd = PurgeCmd t")
      case True
      then obtain t where t: "cmd = PurgeCmd t" by blast
      from assms(2) obtain ord where o: "hash_order ord (dispatches mb)" "mailbox_exec ord cmd mb = (f, mb')"
        by (cases rule: mailbox_step.cases) blast
      from o(2) obtain n where n: "mailbox_purge_terminal ord t mb = (n, mb')"
        by (auto simp: t split: prod.splits)
      note keep = mailbox_purge_entries(1) [OF inv o(1) n, of k]
      show ?thesis
      proof (cases "dispatches mb' k")
        case None
        with keep [of d] d t show ?thesis by auto
      next
        case (Some d')
        with keep [of d'] d t show ?thesis by simp
      qed
    next
      case False
      then have "moves_as cmd mb mb'" using step_moves [OF inv assms(2)] by blast
      with d obtain d' where d': "dispatches mb' k = Some d'" "d' = d \<or> moved cmd mb d d'"
          "\<not> may_skip cmd \<longrightarrow> command_target cmd mb d \<in> {None, Some (status d')}"
        unfolding moves_as_def by blast
      with step_keeps_identity [OF follow d d'(1)] show ?thesis by (auto simp: moved_def)
    qed
  qed (use follow in \<open>auto simp: entries_follow_def\<close>)
qed

theorem mailbox_step_refines_lifecycle_witness:
  "command_target (ClaimCmd ''t'' ''c'' 100 5 1 ''k'') ex_queued ex_dispatch = Some (status ex_claimed_dispatch)"
proof -
  have "dispatches ex_queued ''d'' = Some ex_dispatch" "ex_claimed_dispatch \<noteq> ex_dispatch"
    by (simp add: ex_queued_def, rule notI, drule arg_cong [where f = status], code_simp)
  with mailbox_step_refines_lifecycle [OF ex_queued_reachable ex_claim_step] show ?thesis
    by (fastforce simp: ex_claimed_def)
qed

end
