(* ===== verification/Scope.thy ===== *)
theory Scope
imports Prelude
begin

text \<open>
  Scope identifiers and scoped keys (\<^verbatim>\<open>remo-server-contract/src/contract/scope.rs\<close>): the validation
  of a scope id, and the encoding of a key into the key space of a scope.
\<close>

section \<open>Scope ids\<close>

datatype scope_error = ScopeEmpty | ScopeTooLong nat | ScopeControlCharacter

definition max_scope_id_len :: nat where
  "max_scope_id_len = 512"

definition default_scope_id :: string where
  "default_scope_id = ''default''"

text \<open>
  \<^verbatim>\<open>char::is_control\<close> over the UTF-8 encoding: the characters U+0000 to U+001F and U+007F are one
  byte, U+0080 to U+009F are the byte C2 followed by 80 to 9F.
\<close>

fun has_control :: "string \<Rightarrow> bool" where
  "has_control [] = False"
| "has_control (c # cs) \<longleftrightarrow> of_char c < (32 :: nat) \<or> of_char c = (127 :: nat) \<or>
     (of_char c = (194 :: nat) \<and> (case cs of [] \<Rightarrow> False | d # _ \<Rightarrow> of_char d < (160 :: nat))) \<or>
     has_control cs"

definition scope_id_new :: "string \<Rightarrow> scope_error + string" where
  "scope_id_new value =
     (if is_blank value then Inl ScopeEmpty
      else if length value > max_scope_id_len then Inl (ScopeTooLong max_scope_id_len)
      else if has_control value then Inl ScopeControlCharacter
      else Inr value)"

definition scope_prefix :: "string \<Rightarrow> string" where
  "scope_prefix scope = ''scope:'' @ show_nat (length scope) @ '':'' @ scope @ '':''"

definition scoped_key :: "string \<Rightarrow> string \<Rightarrow> string" where
  "scoped_key scope v = scope_prefix scope @ v"

definition unscoped_key :: "string \<Rightarrow> string \<Rightarrow> string option" where
  "unscoped_key scope v = strip_prefix v (scope_prefix scope)"

section \<open>Scopes are disjoint key spaces\<close>

lemma show_nat_colon_split:
  assumes "show_nat m @ CHR '':'' # xs = show_nat n @ CHR '':'' # ys"
  shows "m = n \<and> xs = ys"
proof -
  have no_colon: "CHR '':'' \<notin> set (show_nat i)" for i
    using show_nat_digits [of "CHR '':''" i] by (auto simp: is_ascii_digit_def)
  have "takeWhile (\<lambda>c. c \<noteq> CHR '':'') (show_nat i @ CHR '':'' # zs) = show_nat i" for i zs
    using no_colon [of i] by (subst takeWhile_append2) auto
  then have "show_nat m = show_nat n" using assms by metis
  with assms show ?thesis by simp
qed

lemma scope_prefix_disjoint:
  assumes "scope_prefix s @ v = scope_prefix t @ w"
  shows "s = t \<and> v = w"
proof -
  from assms have "length s = length t \<and> s @ CHR '':'' # v = t @ CHR '':'' # w"
    by (intro show_nat_colon_split) (simp add: scope_prefix_def)
  then show ?thesis by (metis append_eq_append_conv list.inject)
qed

lemma unscoped_scoped_other: "s \<noteq> t \<Longrightarrow> unscoped_key t (scoped_key s v) = None"
  using scope_prefix_disjoint [of s v t]
  by (cases "unscoped_key t (scoped_key s v)")
    (auto simp: unscoped_key_def scoped_key_def strip_prefix_Some_iff)

lemma unscoped_scoped [simp]: "unscoped_key s (scoped_key s v) = Some v"
  by (simp add: unscoped_key_def scoped_key_def)

lemma unscoped_key_Some_iff: "unscoped_key s k = Some v \<longleftrightarrow> k = scoped_key s v"
  by (auto simp: unscoped_key_def scoped_key_def strip_prefix_Some_iff)

lemma scoped_key_inject [simp]: "scoped_key s v = scoped_key s w \<longleftrightarrow> v = w"
  by (simp add: scoped_key_def)

text \<open>
  Scope isolation. A key encoded for one scope decodes to itself in that scope and to nothing
  in any other; so two scopes never share an encoded key, whatever the scope names and the keys
  contain (separators and digits included).
\<close>
theorem scoped_keys_isolated:
  "unscoped_key t (scoped_key s v) = (if s = t then Some v else None) \<and>
   (scoped_key s v = scoped_key t w \<longleftrightarrow> s = t \<and> v = w) \<and>
   (unscoped_key t k = Some w \<longleftrightarrow> k = scoped_key t w)"
  using unscoped_scoped_other [of s t v] scope_prefix_disjoint [of s v t w]
  by (auto simp: unscoped_key_Some_iff)

end
