(* ===== verification/Mailbox_Store.thy ===== *)
theory Mailbox_Store
imports Mailbox_Moves Scope
begin

text \<open>
  The trait \<^verbatim>\<open>MailboxStore\<close> as a table of operations, the in-memory store as one such table, and
  \<^verbatim>\<open>ScopedMailboxStore\<close> (\<^verbatim>\<open>remo-server-contract/src/contract/mailbox.rs\<close>), which wraps any store and
  keeps the ids of one scope apart from all others. The live-command channels and the dispatch
  signals are left out: they are message channels, not state of the store.

  An operation that iterates a hash map takes the iteration order, and one that draws a UUID takes
  it, as in \<^verbatim>\<open>Mailbox\<close>.
\<close>

section \<open>The trait\<close>

record 'st mailbox_ops =
  op_enqueue :: "string list \<Rightarrow> run_dispatch \<Rightarrow> 'st \<Rightarrow> (mailbox_failure + unit) \<times> 'st"
  op_claim :: "string list \<Rightarrow> string \<Rightarrow> string \<Rightarrow> u64 \<Rightarrow> u64 \<Rightarrow> nat \<Rightarrow> string \<Rightarrow> 'st \<Rightarrow>
     (mailbox_failure + run_dispatch list) \<times> 'st"
  op_claim_dispatch :: "string list \<Rightarrow> string \<Rightarrow> string \<Rightarrow> u64 \<Rightarrow> u64 \<Rightarrow> string \<Rightarrow> 'st \<Rightarrow>
     (mailbox_failure + run_dispatch option) \<times> 'st"
  op_ack :: "string \<Rightarrow> string \<Rightarrow> u64 \<Rightarrow> 'st \<Rightarrow> (mailbox_failure + unit) \<times> 'st"
  op_record_dispatch_start :: "string \<Rightarrow> string \<Rightarrow> string \<Rightarrow> u64 \<Rightarrow> 'st \<Rightarrow> (mailbox_failure + unit) \<times> 'st"
  op_record_run_result :: "string \<Rightarrow> string \<Rightarrow> run_dispatch_result \<Rightarrow> u64 \<Rightarrow> 'st \<Rightarrow>
     (mailbox_failure + unit) \<times> 'st"
  op_nack :: "string \<Rightarrow> string \<Rightarrow> u64 \<Rightarrow> string \<Rightarrow> u64 \<Rightarrow> 'st \<Rightarrow> (mailbox_failure + unit) \<times> 'st"
  op_dead_letter :: "string \<Rightarrow> string \<Rightarrow> string \<Rightarrow> u64 \<Rightarrow> 'st \<Rightarrow> (mailbox_failure + unit) \<times> 'st"
  op_cancel :: "string \<Rightarrow> u64 \<Rightarrow> 'st \<Rightarrow> (mailbox_failure + run_dispatch option) \<times> 'st"
  op_extend_lease :: "string \<Rightarrow> string \<Rightarrow> u64 \<Rightarrow> u64 \<Rightarrow> 'st \<Rightarrow> (mailbox_failure + bool) \<times> 'st"
  op_interrupt :: "string list \<Rightarrow> string \<Rightarrow> u64 \<Rightarrow> 'st \<Rightarrow>
     (mailbox_failure + u64 \<times> run_dispatch option \<times> nat) \<times> 'st"
  op_interrupt_detailed :: "string list \<Rightarrow> string \<Rightarrow> u64 \<Rightarrow> 'st \<Rightarrow>
     (mailbox_failure + mailbox_interrupt_details) \<times> 'st"
  op_current_dispatch_epoch :: "string \<Rightarrow> 'st \<Rightarrow> mailbox_failure + u64"
  op_supersede_claimed :: "string \<Rightarrow> string \<Rightarrow> u64 \<Rightarrow> string \<Rightarrow> 'st \<Rightarrow>
     (mailbox_failure + run_dispatch option) \<times> 'st"
  op_load_dispatch :: "string \<Rightarrow> 'st \<Rightarrow> mailbox_failure + run_dispatch option"
  op_list_dispatches :: "string list \<Rightarrow> string \<Rightarrow> run_dispatch_status list option \<Rightarrow> nat \<Rightarrow> nat \<Rightarrow> 'st \<Rightarrow>
     mailbox_failure + run_dispatch list"
  op_count_dispatches_by_status :: "string list \<Rightarrow> run_dispatch_status \<Rightarrow> 'st \<Rightarrow> mailbox_failure + nat"
  op_list_terminal_dispatches :: "string list \<Rightarrow> nat \<Rightarrow> nat \<Rightarrow> 'st \<Rightarrow> mailbox_failure + run_dispatch list"
  op_reclaim_expired_leases :: "string list \<Rightarrow> u64 \<Rightarrow> nat \<Rightarrow> 'st \<Rightarrow>
     (mailbox_failure + run_dispatch list) \<times> 'st"
  op_purge_terminal :: "string list \<Rightarrow> u64 \<Rightarrow> 'st \<Rightarrow> (mailbox_failure + nat) \<times> 'st"
  op_queued_thread_ids :: "string list \<Rightarrow> 'st \<Rightarrow> mailbox_failure + string list"

definition memory_store :: "mailbox mailbox_ops" where
  "memory_store =
     \<lparr>op_enqueue = mailbox_enqueue, op_claim = mailbox_claim,
      op_claim_dispatch = mailbox_claim_dispatch, op_ack = mailbox_ack,
      op_record_dispatch_start = mailbox_record_dispatch_start,
      op_record_run_result = mailbox_record_run_result, op_nack = mailbox_nack,
      op_dead_letter = mailbox_dead_letter, op_cancel = mailbox_cancel,
      op_extend_lease = mailbox_extend_lease, op_interrupt = mailbox_interrupt,
      op_interrupt_detailed = mailbox_interrupt_detailed,
      op_current_dispatch_epoch = (\<lambda>tid mb. Inr (mailbox_current_dispatch_epoch tid mb)),
      op_supersede_claimed = mailbox_supersede_claimed,
      op_load_dispatch = (\<lambda>did mb. Inr (mailbox_load_dispatch did mb)),
      op_list_dispatches = (\<lambda>ord tid sf limit offset mb.
         Inr (mailbox_list_dispatches ord tid sf limit offset mb)),
      op_count_dispatches_by_status = (\<lambda>ord s mb. Inr (mailbox_count_by_status ord s mb)),
      op_list_terminal_dispatches = (\<lambda>ord limit offset mb.
         Inr (mailbox_list_terminal ord limit offset mb)),
      op_reclaim_expired_leases = mailbox_reclaim_expired_leases,
      op_purge_terminal = (\<lambda>ord t mb. (Inr (fst (mailbox_purge_terminal ord t mb)),
         snd (mailbox_purge_terminal ord t mb))),
      op_queued_thread_ids = (\<lambda>ord mb. Inr (mailbox_queued_thread_ids ord mb))\<rparr>"

section \<open>Encoding and decoding\<close>

definition encode_dispatch :: "string \<Rightarrow> run_dispatch \<Rightarrow> run_dispatch" where
  "encode_dispatch s d =
     d\<lparr>dispatch_id := scoped_key s (dispatch_id d), thread_id := scoped_key s (thread_id d),
       run_id := scoped_key s (run_id d), dedupe_key := map_option (scoped_key s) (dedupe_key d)\<rparr>"

definition decode_dispatch :: "string \<Rightarrow> run_dispatch \<Rightarrow> run_dispatch option" where
  "decode_dispatch s d =
     (case unscoped_key s (dispatch_id d) of None \<Rightarrow> None | Some did \<Rightarrow>
      case unscoped_key s (thread_id d) of None \<Rightarrow> None | Some tid \<Rightarrow>
      case unscoped_key s (run_id d) of None \<Rightarrow> None | Some rid \<Rightarrow>
        Some (d\<lparr>dispatch_id := did, thread_id := tid, run_id := rid,
                dedupe_key := Option.bind (dedupe_key d) (unscoped_key s)\<rparr>))"

definition encode_result :: "string \<Rightarrow> run_dispatch_result \<Rightarrow> run_dispatch_result" where
  "encode_result s r = r\<lparr>res_run_id := scoped_key s (res_run_id r)\<rparr>"

text \<open>\<^verbatim>\<open>Ok(inner?.map(f))\<close>, with the state threaded through.\<close>

definition mapped :: "('a \<Rightarrow> 'b) \<Rightarrow> ('e + 'a) \<times> 'st \<Rightarrow> ('e + 'b) \<times> 'st" where
  "mapped f r = (case r of (Inl e, st) \<Rightarrow> (Inl e, st) | (Inr x, st) \<Rightarrow> (Inr (f x), st))"

definition decode_all :: "string \<Rightarrow> run_dispatch list \<Rightarrow> run_dispatch list" where
  "decode_all s ds = List.map_filter (decode_dispatch s) ds"

definition decode_opt :: "string \<Rightarrow> run_dispatch option \<Rightarrow> run_dispatch option" where
  "decode_opt s d = Option.bind d (decode_dispatch s)"

section \<open>The scoped store\<close>

definition scoped_enqueue where
  "scoped_enqueue s inner ord d st = op_enqueue inner ord (encode_dispatch s d) st"

definition scoped_claim where
  "scoped_claim s inner ord tid consumer lease_ms now limit token st =
     mapped (decode_all s) (op_claim inner ord (scoped_key s tid) consumer lease_ms now limit token st)"

definition scoped_claim_dispatch where
  "scoped_claim_dispatch s inner ord did consumer lease_ms now token st =
     mapped (decode_opt s)
       (op_claim_dispatch inner ord (scoped_key s did) consumer lease_ms now token st)"

definition scoped_ack where
  "scoped_ack s inner did token now st = op_ack inner (scoped_key s did) token now st"

definition scoped_record_dispatch_start where
  "scoped_record_dispatch_start s inner did token inst now st =
     op_record_dispatch_start inner (scoped_key s did) token inst now st"

definition scoped_record_run_result where
  "scoped_record_run_result s inner did token result now st =
     op_record_run_result inner (scoped_key s did) token (encode_result s result) now st"

definition scoped_nack where
  "scoped_nack s inner did token retry_at err now st =
     op_nack inner (scoped_key s did) token retry_at err now st"

definition scoped_dead_letter where
  "scoped_dead_letter s inner did token err now st =
     op_dead_letter inner (scoped_key s did) token err now st"

definition scoped_cancel where
  "scoped_cancel s inner did now st =
     mapped (decode_opt s) (op_cancel inner (scoped_key s did) now st)"

definition scoped_extend_lease where
  "scoped_extend_lease s inner did token extension_ms now st =
     op_extend_lease inner (scoped_key s did) token extension_ms now st"

definition scoped_interrupt where
  "scoped_interrupt s inner ord tid now st =
     mapped (\<lambda>(epoch, active, n). (epoch, decode_opt s active, n))
       (op_interrupt inner ord (scoped_key s tid) now st)"

definition scoped_interrupt_detailed where
  "scoped_interrupt_detailed s inner ord tid now st =
     mapped (\<lambda>i. \<lparr>new_dispatch_epoch = new_dispatch_epoch i,
                  active_dispatch = decode_opt s (active_dispatch i),
                  superseded_count = length (decode_all s (superseded_dispatches i)),
                  superseded_dispatches = decode_all s (superseded_dispatches i)\<rparr>)
       (op_interrupt_detailed inner ord (scoped_key s tid) now st)"

definition scoped_current_dispatch_epoch where
  "scoped_current_dispatch_epoch s inner tid st = op_current_dispatch_epoch inner (scoped_key s tid) st"

definition scoped_supersede_claimed where
  "scoped_supersede_claimed s inner did token now reason st =
     mapped (decode_opt s) (op_supersede_claimed inner (scoped_key s did) token now reason st)"

definition scoped_load_dispatch where
  "scoped_load_dispatch s inner did st =
     (case op_load_dispatch inner (scoped_key s did) st of
        Inl e \<Rightarrow> Inl e | Inr d \<Rightarrow> Inr (decode_opt s d))"

definition scoped_list_dispatches where
  "scoped_list_dispatches s inner ord tid status_filter limit offset st =
     (case op_list_dispatches inner ord (scoped_key s tid) status_filter limit offset st of
        Inl e \<Rightarrow> Inl e | Inr ds \<Rightarrow> Inr (decode_all s ds))"

definition usize_max :: nat where
  "usize_max = 2 ^ 64 - 1"

definition scoped_list_terminal_dispatches where
  "scoped_list_terminal_dispatches s inner ord limit offset st =
     (case op_list_terminal_dispatches inner ord usize_max 0 st of
        Inl e \<Rightarrow> Inl e | Inr ds \<Rightarrow> Inr (take limit (drop offset (decode_all s ds))))"

definition scoped_queued_thread_ids where
  "scoped_queued_thread_ids s inner ord st =
     (case op_queued_thread_ids inner ord st of
        Inl e \<Rightarrow> Inl e | Inr tids \<Rightarrow> Inr (List.map_filter (unscoped_key s) tids))"

fun sum_queued :: "(string \<Rightarrow> 'e + run_dispatch list) \<Rightarrow> string list \<Rightarrow> nat \<Rightarrow> 'e + nat" where
  "sum_queued f [] n = Inr n"
| "sum_queued f (tid # tids) n =
     (case f tid of Inl e \<Rightarrow> Inl e | Inr ds \<Rightarrow> sum_queued f tids (n + length ds))"

definition scoped_count_dispatches_by_status where
  "scoped_count_dispatches_by_status s inner ord st0 st =
     (if st0 = Queued then
        (case scoped_queued_thread_ids s inner ord st of
           Inl e \<Rightarrow> Inl e
         | Inr tids \<Rightarrow> sum_queued
             (\<lambda>tid. scoped_list_dispatches s inner ord tid (Some [Queued]) usize_max 0 st) tids 0)
      else if is_terminal st0 then
        (case scoped_list_terminal_dispatches s inner ord usize_max 0 st of
           Inl e \<Rightarrow> Inl e | Inr ds \<Rightarrow> Inr (length (filter (\<lambda>d. status d = st0) ds)))
      else Inl (Storage (Io ''scoped claimed dispatch count is not supported'')))"

definition scoped_reclaim_expired_leases where
  "scoped_reclaim_expired_leases s inner ord now limit st =
     mapped (decode_all s) (op_reclaim_expired_leases inner ord now limit st)"

definition scoped_purge_terminal where
  "scoped_purge_terminal s inner ord older_than st =
     (Inl (Storage (Io ''scoped terminal dispatch purge is not supported'')), st)"

definition scoped_store :: "string \<Rightarrow> 'st mailbox_ops \<Rightarrow> 'st mailbox_ops" where
  "scoped_store s inner =
     \<lparr>op_enqueue = scoped_enqueue s inner, op_claim = scoped_claim s inner,
      op_claim_dispatch = scoped_claim_dispatch s inner, op_ack = scoped_ack s inner,
      op_record_dispatch_start = scoped_record_dispatch_start s inner,
      op_record_run_result = scoped_record_run_result s inner, op_nack = scoped_nack s inner,
      op_dead_letter = scoped_dead_letter s inner, op_cancel = scoped_cancel s inner,
      op_extend_lease = scoped_extend_lease s inner, op_interrupt = scoped_interrupt s inner,
      op_interrupt_detailed = scoped_interrupt_detailed s inner,
      op_current_dispatch_epoch = scoped_current_dispatch_epoch s inner,
      op_supersede_claimed = scoped_supersede_claimed s inner,
      op_load_dispatch = scoped_load_dispatch s inner,
      op_list_dispatches = scoped_list_dispatches s inner,
      op_count_dispatches_by_status = scoped_count_dispatches_by_status s inner,
      op_list_terminal_dispatches = scoped_list_terminal_dispatches s inner,
      op_reclaim_expired_leases = scoped_reclaim_expired_leases s inner,
      op_purge_terminal = scoped_purge_terminal s inner,
      op_queued_thread_ids = scoped_queued_thread_ids s inner\<rparr>"

section \<open>The contract of a mailbox store\<close>

text \<open>The state changes an operation on the single dispatch \<open>k\<close> can make.\<close>

inductive_set entry_steps :: "'st mailbox_ops \<Rightarrow> string \<Rightarrow> ('st \<Rightarrow> 'st) set"
  for ops :: "'st mailbox_ops" and k :: string where
  claim: "\<not> is_blank consumer \<Longrightarrow> \<not> is_blank token \<Longrightarrow>
     (\<lambda>st. snd (op_claim_dispatch ops ord k consumer lease_ms now token st)) \<in> entry_steps ops k"
| ack: "(\<lambda>st. snd (op_ack ops k token now st)) \<in> entry_steps ops k"
| start: "(\<lambda>st. snd (op_record_dispatch_start ops k token inst now st)) \<in> entry_steps ops k"
| result: "(\<lambda>st. snd (op_record_run_result ops k token result now st)) \<in> entry_steps ops k"
| nack: "(\<lambda>st. snd (op_nack ops k token retry_at err now st)) \<in> entry_steps ops k"
| dead_letter: "(\<lambda>st. snd (op_dead_letter ops k token err now st)) \<in> entry_steps ops k"
| cancel: "(\<lambda>st. snd (op_cancel ops k now st)) \<in> entry_steps ops k"
| extend: "(\<lambda>st. snd (op_extend_lease ops k token extension_ms now st)) \<in> entry_steps ops k"
| supersede: "(\<lambda>st. snd (op_supersede_claimed ops k token now reason st)) \<in> entry_steps ops k"

inductive_cases entry_stepsE: "step \<in> entry_steps ops k"

locale mailbox_store =
  fixes ops :: "'st mailbox_ops" and ok :: "'st \<Rightarrow> bool"
  assumes load_total: "\<exists>x. op_load_dispatch ops k st = Inr x"
    and enqueue_ok: "ok st \<Longrightarrow> attempt_count d < max_attempts d \<Longrightarrow>
      op_load_dispatch ops (dispatch_id d) st = Inr None \<Longrightarrow> ok (snd (op_enqueue ops ord d st))"
    and enqueue_load: "ok st \<Longrightarrow> fst (op_enqueue ops ord d st) = Inr () \<Longrightarrow>
      \<exists>e. op_load_dispatch ops (dispatch_id d) (snd (op_enqueue ops ord d st)) =
        Inr (Some (prepare_for_enqueue e d))"
    and enqueue_frame: "ok st \<Longrightarrow> k \<noteq> dispatch_id d \<or> fst (op_enqueue ops ord d st) \<noteq> Inr () \<Longrightarrow>
      op_load_dispatch ops k (snd (op_enqueue ops ord d st)) = op_load_dispatch ops k st"
    and entry_ok: "ok st \<Longrightarrow> step \<in> entry_steps ops k \<Longrightarrow> ok (step st)"
    and entry_frame: "ok st \<Longrightarrow> step \<in> entry_steps ops k \<Longrightarrow> k' \<noteq> k \<Longrightarrow>
      op_load_dispatch ops k' (step st) = op_load_dispatch ops k' st"
    and entry_evolves: "ok st \<Longrightarrow> step \<in> entry_steps ops k \<Longrightarrow>
      op_load_dispatch ops k st = Inr (Some d) \<Longrightarrow>
      \<exists>d'. op_load_dispatch ops k (step st) = Inr (Some d') \<and> dispatch_evolves\<^sup>*\<^sup>* d d'"
    and entry_none: "ok st \<Longrightarrow> step \<in> entry_steps ops k \<Longrightarrow>
      op_load_dispatch ops k st = Inr None \<Longrightarrow> op_load_dispatch ops k (step st) = Inr None"
    and ack_acks: "ok st \<Longrightarrow> fst (op_ack ops k token now st) = Inr () \<Longrightarrow>
      \<exists>d d'. op_load_dispatch ops k st = Inr (Some d) \<and> status d = Claimed \<and>
        claim_token d = Some token \<and>
        op_load_dispatch ops k (snd (op_ack ops k token now st)) = Inr (Some d') \<and> status d' = Acked"
begin

text \<open>Runs of single-dispatch operations, on any dispatches.\<close>

lemma run_ok: "ok st \<Longrightarrow> set steps \<subseteq> (\<Union>k. entry_steps ops k) \<Longrightarrow> ok (fold (\<lambda>f. f) steps st)"
  by (induction steps arbitrary: st) (auto intro: entry_ok)

lemma entry_evolves_any:
  assumes "ok st" "step \<in> entry_steps ops j" "op_load_dispatch ops k st = Inr (Some d)"
  shows "\<exists>d'. op_load_dispatch ops k (step st) = Inr (Some d') \<and> dispatch_evolves\<^sup>*\<^sup>* d d'"
  using entry_evolves [OF assms(1), of step k d] entry_frame [OF assms(1,2), of k] assms(2,3)
  by (cases "j = k") auto

lemma run_evolves:
  assumes "ok st" "set steps \<subseteq> (\<Union>k. entry_steps ops k)" "op_load_dispatch ops k st = Inr (Some d)"
  shows "\<exists>d'. op_load_dispatch ops k (fold (\<lambda>f. f) steps st) = Inr (Some d') \<and> dispatch_evolves\<^sup>*\<^sup>* d d'"
  using assms
proof (induction steps arbitrary: st d)
  case (Cons f fs)
  then obtain j where j: "f \<in> entry_steps ops j" by auto
  then obtain d1 where "op_load_dispatch ops k (f st) = Inr (Some d1)" "dispatch_evolves\<^sup>*\<^sup>* d d1"
    using entry_evolves_any [OF Cons.prems(1)] Cons.prems(3) by blast
  then show ?case
    using Cons.IH [of "f st" d1] entry_ok [OF Cons.prems(1) j] Cons.prems(2)
    by (auto intro: rtranclp_trans)
qed simp

text \<open>A dispatch that reached a terminal state stays there, so it is acknowledged at most once.\<close>

lemma terminal_kept:
  assumes "ok st" "set steps \<subseteq> (\<Union>k. entry_steps ops k)" "op_load_dispatch ops k st = Inr (Some d)"
    "is_terminal (status d)"
  shows "op_load_dispatch ops k (fold (\<lambda>f. f) steps st) = Inr (Some d)"
  using run_evolves [OF assms(1-3)] evolves_from_terminal [OF _ assms(4)] by blast

lemma acked_once:
  assumes "ok st" "fst (op_ack ops k token now st) = Inr ()" "set steps \<subseteq> (\<Union>k. entry_steps ops k)"
  shows "fst (op_ack ops k token' now' (fold (\<lambda>f. f) steps (snd (op_ack ops k token now st)))) \<noteq> Inr ()"
proof
  let ?st = "snd (op_ack ops k token now st)"
  let ?fin = "fold (\<lambda>f. f) steps ?st"
  assume again: "fst (op_ack ops k token' now' ?fin) = Inr ()"
  have ok: "ok ?st" using entry_ok [OF assms(1) entry_steps.ack] by simp
  obtain d where d: "op_load_dispatch ops k ?st = Inr (Some d)" "status d = Acked"
    using ack_acks [OF assms(1,2)] by blast
  have "op_load_dispatch ops k ?fin = Inr (Some d)"
    using terminal_kept [OF ok assms(3) d(1)] d(2) by (simp add: is_terminal_def)
  with ack_acks [OF run_ok [OF ok assms(3)] again] d(2) show False by auto
qed

end

section \<open>The in-memory store meets the contract\<close>

lemma memory_ops [simp]:
  "op_enqueue memory_store = mailbox_enqueue"
  "op_claim_dispatch memory_store = mailbox_claim_dispatch"
  "op_ack memory_store = mailbox_ack"
  "op_record_dispatch_start memory_store = mailbox_record_dispatch_start"
  "op_record_run_result memory_store = mailbox_record_run_result"
  "op_nack memory_store = mailbox_nack"
  "op_dead_letter memory_store = mailbox_dead_letter"
  "op_cancel memory_store = mailbox_cancel"
  "op_extend_lease memory_store = mailbox_extend_lease"
  "op_supersede_claimed memory_store = mailbox_supersede_claimed"
  "op_load_dispatch memory_store k mb = Inr (dispatches mb k)"
  by (simp_all add: memory_store_def mailbox_load_dispatch_def)

text \<open>An operation that puts at most the entry \<open>k\<close>.\<close>

definition touches_only :: "string \<Rightarrow> mailbox \<Rightarrow> 'a \<times> mailbox \<Rightarrow> bool" where
  "touches_only k mb r \<longleftrightarrow> snd r = mb \<or> (\<exists>d. snd r = put_dispatch k d mb)"

lemma touches_only_simps [simp]:
  "touches_only k mb (r, mb)" "touches_only k mb (r, put_dispatch k d mb)"
  by (auto simp: touches_only_def)

lemma touches_only_frame: "touches_only k mb r \<Longrightarrow> k' \<noteq> k \<Longrightarrow> dispatches (snd r) k' = dispatches mb k'"
  by (auto simp: touches_only_def)

lemma reject_stale_touches: "touches_only k mb (reject_stale k now e reason d mb)"
  by (simp add: reject_stale_def split: prod.split sum.split)

lemma entry_steps_touch:
  assumes "step \<in> entry_steps memory_store k"
  obtains r where "step mb = snd r" "touches_only k mb (r :: (mailbox_failure + unit) \<times> mailbox)"
proof -
  have "\<exists>d. step mb = mb \<or> step mb = put_dispatch k d mb"
    using assms
  proof (cases rule: entry_steps.cases)
    case (claim consumer token ord lease_ms now)
    then show ?thesis
      by (auto simp: mailbox_claim_dispatch_def Let_def split: option.split prod.split sum.split)
  next
    case (ack token now)
    have "touches_only k mb (mailbox_ack k token now mb)"
      by (auto simp: mailbox_ack_def Let_def reject_stale_touches split: option.split prod.split)
    with ack show ?thesis by (auto simp: touches_only_def)
  next
    case (start token inst now)
    have "touches_only k mb (mailbox_record_dispatch_start k token inst now mb)"
      by (auto simp: mailbox_record_dispatch_start_def Let_def reject_stale_touches
          split: option.split prod.split)
    with start show ?thesis by (auto simp: touches_only_def)
  next
    case (result token result now)
    have "touches_only k mb (mailbox_record_run_result k token result now mb)"
      by (auto simp: mailbox_record_run_result_def Let_def reject_stale_touches
          split: option.split prod.split)
    with result show ?thesis by (auto simp: touches_only_def)
  next
    case (nack token retry_at err now)
    have "touches_only k mb (mailbox_nack k token retry_at err now mb)"
      by (auto simp: mailbox_nack_def Let_def reject_stale_touches split: option.split prod.split)
    with nack show ?thesis by (auto simp: touches_only_def)
  next
    case (dead_letter token err now)
    have "touches_only k mb (mailbox_dead_letter k token err now mb)"
      by (auto simp: mailbox_dead_letter_def Let_def reject_stale_touches
          split: option.split prod.split)
    with dead_letter show ?thesis by (auto simp: touches_only_def)
  next
    case (cancel now)
    then show ?thesis
      by (auto simp: mailbox_cancel_def split: option.split prod.split sum.split)
  next
    case (extend token extension_ms now)
    then show ?thesis
      by (auto simp: mailbox_extend_lease_def Let_def split: option.split prod.split sum.split)
  next
    case (supersede token now reason)
    then show ?thesis
      by (auto simp: mailbox_supersede_claimed_def Let_def
          split: option.split prod.split sum.split)
  qed
  then obtain d where "step mb = mb \<or> step mb = put_dispatch k d mb" by blast
  then show thesis
    using that [of "(Inr (), step mb)"] by (auto simp: touches_only_def)
qed

lemma entry_steps_sound:
  assumes "mb_inv mb" "step \<in> entry_steps memory_store k"
  shows "mb_inv (step mb) \<and> mb_advances mb (step mb)"
  using assms(2)
proof (cases rule: entry_steps.cases)
  case (claim consumer token ord lease_ms now)
  with mailbox_claim_dispatch_sound [OF assms(1) claim(2,3), of ord k lease_ms now] show ?thesis
    by (cases "mailbox_claim_dispatch ord k consumer lease_ms now token mb") auto
qed (use assms(1) mailbox_ack_sound mailbox_record_dispatch_start_sound
      mailbox_record_run_result_sound mailbox_nack_sound mailbox_dead_letter_sound
      mailbox_cancel_sound mailbox_extend_lease_sound mailbox_supersede_claimed_sound
      in \<open>auto simp: sound_step_def\<close>)

lemma ack_result:
  assumes "mb_inv mb" "fst (mailbox_ack k token now mb) = Inr ()"
  shows "\<exists>d d'. dispatches mb k = Some d \<and> status d = Claimed \<and> claim_token d = Some token \<and>
    dispatches (snd (mailbox_ack k token now mb)) k = Some d' \<and> status d' = Acked"
proof -
  obtain d where d: "dispatches mb k = Some d" "status d = Claimed" "claim_token d = Some token"
      "dispatch_epoch d = current_epoch_from_state (epochs mb) (thread_id d)"
    using settle_fenced(1) [OF assms(1), of k token now] assms(2) by (auto simp: fenced_outcome_def)
  have "snd (dispatch_mark_acked now d) = clear_claim_fields
      (d\<lparr>status := Acked, completed_at := Some now, updated_at := now\<rparr>)"
    using d(2) by (simp add: dispatch_mark_acked_def require_status_def)
  with d show ?thesis
    by (auto simp: mailbox_ack_def Let_def state_mark_acked_def ack_step.expect
        mb_inv_ok [OF assms(1)] clear_claim_fields_def)
qed

interpretation memory: mailbox_store memory_store mb_inv
proof
  fix mb :: mailbox and ord k d
  show "mb_inv (snd (op_enqueue memory_store ord d mb))"
    if "mb_inv mb" "attempt_count d < max_attempts d"
    using mailbox_enqueue_inv [OF that, of ord]
    by (cases "mailbox_enqueue ord d mb") simp
  show "\<exists>e. op_load_dispatch memory_store (dispatch_id d) (snd (op_enqueue memory_store ord d mb)) =
      Inr (Some (prepare_for_enqueue e d))" if "fst (op_enqueue memory_store ord d mb) = Inr ()"
  proof (cases "mailbox_enqueue ord d mb")
    case (Pair r mb')
    from Pair show ?thesis
    proof (cases rule: mailbox_enqueue_cases)
      case rejected
      with that Pair show ?thesis by simp
    next
      case accepted
      with that Pair show ?thesis by auto
    qed
  qed
  show "op_load_dispatch memory_store k (snd (op_enqueue memory_store ord d mb)) =
      op_load_dispatch memory_store k mb"
    if "k \<noteq> dispatch_id d \<or> fst (op_enqueue memory_store ord d mb) \<noteq> Inr ()"
  proof (cases "mailbox_enqueue ord d mb")
    case (Pair r mb')
    from Pair show ?thesis
    proof (cases rule: mailbox_enqueue_cases)
      case rejected
      with that Pair show ?thesis by simp
    next
      case accepted
      with that Pair show ?thesis by auto
    qed
  qed
next
  fix mb and step :: "mailbox \<Rightarrow> mailbox" and k k'
  assume s: "mb_inv mb" "step \<in> entry_steps memory_store k"
  show "mb_inv (step mb)" using entry_steps_sound [OF s] by simp
  show "op_load_dispatch memory_store k' (step mb) = op_load_dispatch memory_store k' mb" if "k' \<noteq> k"
    using s(2) by (rule entry_steps_touch [where mb = mb]) (simp add: touches_only_frame that)
  show "\<exists>d'. op_load_dispatch memory_store k (step mb) = Inr (Some d') \<and> dispatch_evolves\<^sup>*\<^sup>* d d'"
    if "op_load_dispatch memory_store k mb = Inr (Some d)" for d
    using entry_steps_sound [OF s] mb_advancesD that by auto
  show "op_load_dispatch memory_store k (step mb) = Inr None"
    if "op_load_dispatch memory_store k mb = Inr None"
  proof (cases "dispatches (step mb) k")
    case (Some d')
    then show ?thesis using entry_steps_sound [OF s] mb_advances_back that by fastforce
  qed simp
qed (use ack_result in auto)

section \<open>A scoped store meets the contract when its inner store does\<close>

lemma snd_mapped [simp]: "snd (mapped f r) = snd r"
  by (cases r; cases "fst r") (auto simp: mapped_def)

lemma scoped_ops [simp]:
  "op_enqueue (scoped_store s ops) ord d st = op_enqueue ops ord (encode_dispatch s d) st"
  "op_ack (scoped_store s ops) k token now st = op_ack ops (scoped_key s k) token now st"
  by (simp_all add: scoped_store_def scoped_enqueue_def scoped_ack_def)

lemma scoped_entry_steps:
  "step \<in> entry_steps (scoped_store s ops) k \<Longrightarrow> step \<in> entry_steps ops (scoped_key s k)"
  by (erule entry_steps.cases)
    (auto simp: scoped_store_def scoped_claim_dispatch_def scoped_ack_def
      scoped_record_dispatch_start_def scoped_record_run_result_def scoped_nack_def
      scoped_dead_letter_def scoped_cancel_def scoped_extend_lease_def scoped_supersede_claimed_def
      intro: entry_steps.intros)

lemma scoped_load:
  "op_load_dispatch ops (scoped_key s k) st = Inr d \<Longrightarrow>
     op_load_dispatch (scoped_store s ops) k st = Inr (decode_opt s d)"
  by (simp add: scoped_store_def scoped_load_dispatch_def)

lemma decode_evolves:
  assumes "dispatch_evolves d d'" "decode_dispatch s d = Some e"
  shows "\<exists>e'. decode_dispatch s d' = Some e' \<and> dispatch_evolves e e'"
  using assms by (auto simp: decode_dispatch_def dispatch_evolves_def split: option.splits)

lemma decode_evolves_star:
  assumes "dispatch_evolves\<^sup>*\<^sup>* d d'" "decode_dispatch s d = Some e"
  shows "\<exists>e'. decode_dispatch s d' = Some e' \<and> dispatch_evolves\<^sup>*\<^sup>* e e'"
  using assms(1)
proof (induction rule: rtranclp_induct)
  case base
  with assms(2) show ?case by blast
next
  case (step y z)
  then show ?case using decode_evolves by (meson rtranclp.rtrancl_into_rtrancl)
qed

lemma decode_encode: "decode_dispatch s (encode_dispatch s d) = Some d"
  by (cases "dedupe_key d") (simp_all add: decode_dispatch_def encode_dispatch_def)

lemma decode_prepared:
  "decode_dispatch s (prepare_for_enqueue e (encode_dispatch s d)) = Some (prepare_for_enqueue e d)"
  by (cases "dedupe_key d")
    (simp_all add: decode_dispatch_def encode_dispatch_def prepare_for_enqueue_def)

lemma decode_keeps:
  "decode_dispatch s d = Some e \<Longrightarrow> status e = status d \<and> claim_token e = claim_token d"
  by (auto simp: decode_dispatch_def split: option.splits)

lemma encode_keeps [simp]:
  "dispatch_id (encode_dispatch s d) = scoped_key s (dispatch_id d)"
  "attempt_count (encode_dispatch s d) = attempt_count d"
  "max_attempts (encode_dispatch s d) = max_attempts d"
  by (simp_all add: encode_dispatch_def)

text \<open>Every dispatch filed in the scope's key space belongs to it.\<close>

definition scoped_ok :: "string \<Rightarrow> 'st mailbox_ops \<Rightarrow> ('st \<Rightarrow> bool) \<Rightarrow> 'st \<Rightarrow> bool" where
  "scoped_ok s ops ok st \<longleftrightarrow> ok st \<and>
     (\<forall>k d. op_load_dispatch ops (scoped_key s k) st = Inr (Some d) \<longrightarrow> decode_dispatch s d \<noteq> None)"

context mailbox_store
begin

lemma scoped_entry_ok:
  assumes "scoped_ok s ops ok st" "step \<in> entry_steps (scoped_store s ops) k"
  shows "scoped_ok s ops ok (step st)"
proof -
  have ok: "ok st" and step: "step \<in> entry_steps ops (scoped_key s k)"
    using assms scoped_entry_steps by (auto simp: scoped_ok_def)
  show ?thesis
    unfolding scoped_ok_def
  proof (intro conjI allI impI)
    show "ok (step st)" using ok step by (rule entry_ok)
    fix k' d'
    assume d': "op_load_dispatch ops (scoped_key s k') (step st) = Inr (Some d')"
    obtain x where x: "op_load_dispatch ops (scoped_key s k') st = Inr x"
      using load_total by blast
    then obtain d where d: "x = Some d"
      using d' entry_none [OF ok step] entry_frame [OF ok step, of "scoped_key s k'"]
      by (cases x; cases "k' = k") auto
    then have "dispatch_evolves\<^sup>*\<^sup>* d d'"
      using entry_evolves_any [OF ok step] x d' by fastforce
    moreover obtain e where "decode_dispatch s d = Some e"
      using assms(1) x d by (auto simp: scoped_ok_def)
    ultimately show "decode_dispatch s d' \<noteq> None" using decode_evolves_star by fastforce
  qed
qed

lemma scoped_enqueue_ok:
  assumes "scoped_ok s ops ok st" "attempt_count d < max_attempts d"
    "op_load_dispatch (scoped_store s ops) (dispatch_id d) st = Inr None"
  shows "scoped_ok s ops ok (snd (op_enqueue (scoped_store s ops) ord d st))"
proof -
  let ?st = "snd (op_enqueue ops ord (encode_dispatch s d) st)"
  have ok: "ok st" using assms(1) by (simp add: scoped_ok_def)
  obtain x where x: "op_load_dispatch ops (scoped_key s (dispatch_id d)) st = Inr x"
    using load_total by blast
  have "decode_dispatch s y \<noteq> None" if "x = Some y" for y
    using assms(1) x that unfolding scoped_ok_def by blast
  with assms(3) scoped_load [OF x] have "x = None"
    by (cases x) (auto simp: decode_opt_def)
  with x ok assms(2) have "ok ?st"
    by (intro enqueue_ok) simp_all
  moreover have "decode_dispatch s d' \<noteq> None"
    if "op_load_dispatch ops (scoped_key s k) ?st = Inr (Some d')" for k d'
  proof (cases "k \<noteq> dispatch_id d \<or> fst (op_enqueue ops ord (encode_dispatch s d) st) \<noteq> Inr ()")
    case True
    then have "op_load_dispatch ops (scoped_key s k) ?st = op_load_dispatch ops (scoped_key s k) st"
      using ok by (intro enqueue_frame) auto
    with that assms(1) show ?thesis by (auto simp: scoped_ok_def)
  next
    case False
    then show ?thesis
      using enqueue_load [OF ok, of ord "encode_dispatch s d"] that decode_prepared by force
  qed
  ultimately show ?thesis by (auto simp: scoped_ok_def)
qed

lemma scoped_is_store: "mailbox_store (scoped_store s ops) (scoped_ok s ops ok)"
proof
  fix k st
  show "\<exists>x. op_load_dispatch (scoped_store s ops) k st = Inr x"
    using load_total [of "scoped_key s k" st] by (auto intro: scoped_load)
next
  fix st ord d
  assume ok: "scoped_ok s ops ok st"
  then have ok': "ok st" by (simp add: scoped_ok_def)
  show "scoped_ok s ops ok (snd (op_enqueue (scoped_store s ops) ord d st))"
    if "attempt_count d < max_attempts d"
      "op_load_dispatch (scoped_store s ops) (dispatch_id d) st = Inr None"
    using ok that by (rule scoped_enqueue_ok)
  show "\<exists>e. op_load_dispatch (scoped_store s ops) (dispatch_id d)
      (snd (op_enqueue (scoped_store s ops) ord d st)) = Inr (Some (prepare_for_enqueue e d))"
    if "fst (op_enqueue (scoped_store s ops) ord d st) = Inr ()"
    using enqueue_load [OF ok', of ord "encode_dispatch s d"] that decode_prepared
    by (fastforce dest!: scoped_load simp: decode_opt_def)
  show "op_load_dispatch (scoped_store s ops) k (snd (op_enqueue (scoped_store s ops) ord d st)) =
      op_load_dispatch (scoped_store s ops) k st"
    if "k \<noteq> dispatch_id d \<or> fst (op_enqueue (scoped_store s ops) ord d st) \<noteq> Inr ()" for k
  proof -
    have "op_load_dispatch ops (scoped_key s k) (snd (op_enqueue ops ord (encode_dispatch s d) st)) =
        op_load_dispatch ops (scoped_key s k) st"
      using that by (intro enqueue_frame [OF ok']) auto
    then show ?thesis by (simp add: scoped_store_def scoped_load_dispatch_def scoped_enqueue_def)
  qed
next
  fix st step k k'
  assume s: "scoped_ok s ops ok st" "step \<in> entry_steps (scoped_store s ops) k"
  then have ok: "ok st" and step: "step \<in> entry_steps ops (scoped_key s k)"
    using scoped_entry_steps by (auto simp: scoped_ok_def)
  show "scoped_ok s ops ok (step st)" using s by (rule scoped_entry_ok)
  show "op_load_dispatch (scoped_store s ops) k' (step st) = op_load_dispatch (scoped_store s ops) k' st"
    if "k' \<noteq> k"
    using entry_frame [OF ok step, of "scoped_key s k'"] that
    by (simp add: scoped_store_def scoped_load_dispatch_def)
  obtain x where x: "op_load_dispatch ops (scoped_key s k) st = Inr x" using load_total by blast
  show "\<exists>d'. op_load_dispatch (scoped_store s ops) k (step st) = Inr (Some d') \<and>
      dispatch_evolves\<^sup>*\<^sup>* d d'"
    if d: "op_load_dispatch (scoped_store s ops) k st = Inr (Some d)" for d
  proof -
    obtain y where y: "x = Some y" "decode_dispatch s y = Some d"
      using d scoped_load [OF x] by (cases x) (auto simp: decode_opt_def)
    then obtain y' where "op_load_dispatch ops (scoped_key s k) (step st) = Inr (Some y')"
        "dispatch_evolves\<^sup>*\<^sup>* y y'"
      using entry_evolves [OF ok step] x by blast
    then show ?thesis
      using decode_evolves_star [OF _ y(2)] by (fastforce dest!: scoped_load simp: decode_opt_def)
  qed
  show "op_load_dispatch (scoped_store s ops) k (step st) = Inr None"
    if "op_load_dispatch (scoped_store s ops) k st = Inr None"
  proof -
    have "decode_dispatch s y \<noteq> None" if "x = Some y" for y
      using s(1) x that unfolding scoped_ok_def by blast
    with that scoped_load [OF x] have "x = None"
      by (cases x) (auto simp: decode_opt_def)
    then show ?thesis
      using entry_none [OF ok step] x by (auto dest!: scoped_load simp: decode_opt_def)
  qed
next
  fix st k token now
  assume ok: "scoped_ok s ops ok st" and ack: "fst (op_ack (scoped_store s ops) k token now st) = Inr ()"
  then obtain d d' where d: "op_load_dispatch ops (scoped_key s k) st = Inr (Some d)"
      "status d = Claimed" "claim_token d = Some token" "status d' = Acked"
      "op_load_dispatch ops (scoped_key s k) (snd (op_ack ops (scoped_key s k) token now st)) =
        Inr (Some d')"
    using ack_acks [of st "scoped_key s k" token now] unfolding scoped_ok_def scoped_ops by blast
  obtain e where e: "decode_dispatch s d = Some e" using ok d(1) by (auto simp: scoped_ok_def)
  have "scoped_ok s ops ok (snd (op_ack ops (scoped_key s k) token now st))"
    using scoped_entry_ok [OF ok entry_steps.ack] by simp
  then obtain e' where e': "decode_dispatch s d' = Some e'" using d(5) by (auto simp: scoped_ok_def)
  show "\<exists>d d'. op_load_dispatch (scoped_store s ops) k st = Inr (Some d) \<and> status d = Claimed \<and>
      claim_token d = Some token \<and> op_load_dispatch (scoped_store s ops) k
        (snd (op_ack (scoped_store s ops) k token now st)) = Inr (Some d') \<and> status d' = Acked"
    using d e e' decode_keeps [OF e] decode_keeps [OF e']
    by (auto dest!: scoped_load simp: decode_opt_def)
qed

end

interpretation scoped_memory: mailbox_store "scoped_store s memory_store"
    "scoped_ok s memory_store mb_inv" for s
  by (rule memory.scoped_is_store)

section \<open>Scopes do not interfere\<close>

text \<open>
  The state changes that the operations of the store of scope \<open>s\<close> make on the shared in-memory store.
  Reclaiming expired leases is one of them, and the only one that works on the whole inner store: it is
  marked with the time it was called with. (\<^verbatim>\<open>purge_terminal\<close> fails on a scoped store.)
\<close>

inductive scope_step :: "string \<Rightarrow> u64 option \<Rightarrow> mailbox \<Rightarrow> mailbox \<Rightarrow> bool" for s where
  entry: "step \<in> entry_steps (scoped_store s memory_store) k \<Longrightarrow> scope_step s None mb (step mb)"
| enqueue: "scope_step s None mb (snd (op_enqueue (scoped_store s memory_store) ord d mb))"
| claim: "hash_order ord (dispatches mb) \<Longrightarrow> \<not> is_blank consumer \<Longrightarrow> \<not> is_blank token \<Longrightarrow>
    scope_step s None mb
      (snd (op_claim (scoped_store s memory_store) ord tid consumer lease_ms now limit token mb))"
| interrupt: "hash_order ord (dispatches mb) \<Longrightarrow>
    current_epoch_from_state (epochs mb) (scoped_key s tid) \<noteq> - 1 \<Longrightarrow>
    scope_step s None mb (snd (op_interrupt_detailed (scoped_store s memory_store) ord tid now mb))"
| reclaim: "hash_order ord (dispatches mb) \<Longrightarrow>
    scope_step s (Some now) mb (snd (op_reclaim_expired_leases (scoped_store s memory_store) ord now limit mb))"
| purge: "scope_step s None mb (snd (op_purge_terminal (scoped_store s memory_store) ord older_than mb))"

text \<open>A change that leaves what scope \<open>t\<close> sees: entries of other scopes evolve, epochs stay.\<close>

definition invisible_to :: "string \<Rightarrow> mailbox \<Rightarrow> mailbox \<Rightarrow> bool" where
  "invisible_to t mb mb' \<longleftrightarrow> (\<forall>k. Option.bind (dispatches mb' (scoped_key t k)) (decode_dispatch t) =
       Option.bind (dispatches mb (scoped_key t k)) (decode_dispatch t)) \<and>
     (\<forall>tid. current_epoch_from_state (epochs mb') (scoped_key t tid) =
       current_epoch_from_state (epochs mb) (scoped_key t tid))"

lemma scoped_key_other: "s \<noteq> t \<Longrightarrow> scoped_key s v \<noteq> scoped_key t w"
  using unscoped_scoped_other unscoped_scoped by (metis option.distinct(1))

lemma decode_other_thread:
  "thread_id d = scoped_key s v \<Longrightarrow> s \<noteq> t \<Longrightarrow> decode_dispatch t d = None"
  by (simp add: decode_dispatch_def unscoped_scoped_other split: option.split)

lemma invisible_by_thread:
  assumes "s \<noteq> t" and "\<And>k d. dispatches mb k = Some d \<Longrightarrow> \<exists>d'. dispatches mb' k = Some d' \<and>
      (d' = d \<or> thread_id d = scoped_key s v \<and> thread_id d' = scoped_key s v)"
    and "\<And>k. dispatches mb k = None \<Longrightarrow> dispatches mb' k = None"
    and "\<And>tid. tid \<noteq> scoped_key s v \<Longrightarrow>
      current_epoch_from_state (epochs mb') tid = current_epoch_from_state (epochs mb) tid"
  shows "invisible_to t mb mb'"
  unfolding invisible_to_def
proof (intro conjI allI)
  fix k
  show "Option.bind (dispatches mb' (scoped_key t k)) (decode_dispatch t) =
      Option.bind (dispatches mb (scoped_key t k)) (decode_dispatch t)"
  proof (cases "dispatches mb (scoped_key t k)")
    case (Some d)
    with assms(2) [OF Some] show ?thesis using decode_other_thread [OF _ assms(1)] by auto
  qed (simp add: assms(3))
next
  fix tid
  show "current_epoch_from_state (epochs mb') (scoped_key t tid) =
      current_epoch_from_state (epochs mb) (scoped_key t tid)"
    using scoped_key_other [OF assms(1)] by (intro assms(4)) metis
qed

lemma thread_kept [simp]:
  "thread_id (supersede_stale cur now d) = thread_id d"
  "thread_id (claimed_as consumer token lease now d) = thread_id d"
  "thread_id (interrupted now d) = thread_id d"
proof -
  show "thread_id (supersede_stale cur now d) = thread_id d"
    by (cases "status d") (simp_all add: supersede_stale_def dispatch_mark_superseded_at_epoch_def
        dispatch_mark_superseded_def transition_defs)
  show "thread_id (claimed_as consumer token lease now d) = thread_id d"
    by (simp add: claimed_as_def dispatch_claim_def transition_defs)
  show "thread_id (interrupted now d) = thread_id d"
    by (simp add: interrupted_def dispatch_mark_superseded_def transition_defs)
qed

lemma claim_invisible:
  assumes "mb_inv mb" "hash_order ord (dispatches mb)" "\<not> is_blank consumer" "\<not> is_blank token"
    "s \<noteq> t" "mailbox_claim ord (scoped_key s v) consumer lease_ms now limit token mb = (r, mb')"
  shows "invisible_to t mb mb'"
proof -
  let ?tid = "scoped_key s v"
  let ?f = "claimed_as consumer token (now + lease_ms) now"
  define ids where "ids = (if has_claimed ord (\<lambda>j. thread_id j = ?tid) mb then []
     else take limit (eligible_ids ord ?tid now (dispatches (fenced ?tid now mb))))"
  have mb': "mb' = update_at (set ids) ?f (fenced ?tid now mb)"
    using mailbox_claim_eq(1) [OF assms(1-4), where tid = ?tid and now = now and
        lease_ms = lease_ms and limit = limit] assms(6) by (simp add: ids_def)
  have taken: "thread_id d = ?tid" if "k \<in> set ids" "dispatches (fenced ?tid now mb) k = Some d" for k d
    using that set_eligible_ids [of ord "dispatches (fenced ?tid now mb)" ?tid now] assms(2)
    by (auto simp: ids_def eligible_def dest!: in_set_takeD split: if_splits)
  show ?thesis
  proof (rule invisible_by_thread [OF assms(5), where v = v])
    fix k d
    assume d: "dispatches mb k = Some d"
    define e where "e = the (dispatches (fenced ?tid now mb) k)"
    have e: "dispatches (fenced ?tid now mb) k = Some e" "e = d \<or> thread_id d = ?tid"
        "thread_id e = thread_id d"
      using d by (auto simp: e_def fenced_def stale_queued_def)
    with taken [OF _ e(1)] show "\<exists>d'. dispatches mb' k = Some d' \<and>
        (d' = d \<or> thread_id d = ?tid \<and> thread_id d' = ?tid)"
      by (auto simp: mb')
  qed (auto simp: mb' fenced_def)
qed

lemma interrupt_invisible:
  assumes "mb_inv mb" "hash_order ord (dispatches mb)"
    "current_epoch_from_state (epochs mb) (scoped_key s v) \<noteq> - 1"
    "s \<noteq> t" "mailbox_interrupt_detailed ord (scoped_key s v) now mb = (r, mb')"
  shows "invisible_to t mb mb'"
  using mailbox_interrupt_eq [OF assms(1-3), of now] assms(5)
  by (intro invisible_by_thread [OF assms(4), where v = v])
    (auto simp: interruptible_def bump_epoch_def current_epoch_from_state_def)

lemma scope_step_invisible:
  assumes "mb_inv mb" "scope_step s None mb mb'" "s \<noteq> t"
  shows "invisible_to t mb mb'"
  using assms(2)
proof (cases rule: scope_step.cases)
  case (entry step k)
  then have step: "step \<in> entry_steps memory_store (scoped_key s k)" by (simp add: scoped_entry_steps)
  have "dispatches (step mb) (scoped_key t k') = dispatches mb (scoped_key t k')" for k'
    using memory.entry_frame [OF assms(1) step, of "scoped_key t k'"] scoped_key_other [OF assms(3)]
    by simp metis
  moreover have "epochs (step mb) = epochs mb"
    using entry_steps_sound [OF assms(1) step] by (simp add: mb_advances_def)
  ultimately show ?thesis by (simp add: invisible_to_def entry(1))
next
  case (enqueue ord d)
  let ?d = "encode_dispatch s d"
  have mb': "mailbox_enqueue ord ?d mb = (fst (mailbox_enqueue ord ?d mb), mb')"
    by (simp add: enqueue)
  then show ?thesis
  proof (cases rule: mailbox_enqueue_cases)
    case accepted
    have "scoped_key t k \<noteq> scoped_key s (dispatch_id d)" for k
      using scoped_key_other [OF assms(3)] by metis
    then show ?thesis by (simp add: invisible_to_def accepted(4))
  qed (simp add: invisible_to_def)
next
  case (claim ord consumer token tid lease_ms now limit)
  then show ?thesis
    using claim_invisible [OF assms(1) claim(2-4) assms(3), of tid lease_ms now limit]
    by (simp add: scoped_store_def scoped_claim_def memory_store_def) (metis prod.collapse)
next
  case (interrupt ord tid now)
  then show ?thesis
    using interrupt_invisible [OF assms(1) interrupt(2,3) assms(3), of now]
    by (simp add: scoped_store_def scoped_interrupt_detailed_def memory_store_def)
      (metis prod.collapse)
next
  case (purge ord older_than)
  then show ?thesis by (simp add: scoped_store_def scoped_purge_terminal_def invisible_to_def)
qed

text \<open>What a reclaim by any scope does to one dispatch of another.\<close>

lemma decode_lease:
  "decode_dispatch t d = Some e \<Longrightarrow> lease_expired now e = lease_expired now d \<and>
     dispatch_epoch e = dispatch_epoch d \<and> after_failure e = after_failure d \<and>
     thread_id d = scoped_key t (thread_id e)"
  by (auto simp: decode_dispatch_def lease_expired_def after_failure_def unscoped_key_Some_iff
      split: option.splits)

lemma reclaim_seen:
  assumes "mb_inv mb" "hash_order ord (dispatches mb)"
    and mb': "mb' = snd (mailbox_reclaim_expired_leases ord now limit mb)"
  shows "epochs mb' = epochs mb"
    and "case Option.bind (dispatches mb (scoped_key t k)) (decode_dispatch t) of
      None \<Rightarrow> Option.bind (dispatches mb' (scoped_key t k)) (decode_dispatch t) = None
    | Some d \<Rightarrow> \<exists>d'. Option.bind (dispatches mb' (scoped_key t k)) (decode_dispatch t) = Some d' \<and>
        (d' = d \<or> lease_expired now d \<and> thread_id d' = thread_id d \<and> status d' =
          (if dispatch_epoch d < current_epoch_from_state (epochs mb) (scoped_key t (thread_id d))
           then Superseded else after_failure d))"
proof -
  have adv: "mb_advances mb mb'"
    using mailbox_reclaim_sound [OF assms(1,2), of now limit] by (simp add: mb' sound_step_def)
  then show "epochs mb' = epochs mb" by (simp add: mb_advances_def)
  have moves: "moves_as (ReclaimCmd now limit) mb mb'"
    unfolding mb' by (rule reclaim_moves [OF assms(1,2)])
  show "case Option.bind (dispatches mb (scoped_key t k)) (decode_dispatch t) of
      None \<Rightarrow> Option.bind (dispatches mb' (scoped_key t k)) (decode_dispatch t) = None
    | Some d \<Rightarrow> \<exists>d'. Option.bind (dispatches mb' (scoped_key t k)) (decode_dispatch t) = Some d' \<and>
        (d' = d \<or> lease_expired now d \<and> thread_id d' = thread_id d \<and> status d' =
          (if dispatch_epoch d < current_epoch_from_state (epochs mb) (scoped_key t (thread_id d))
           then Superseded else after_failure d))"
  proof (cases "dispatches mb (scoped_key t k)")
    case None
    then have "dispatches mb' (scoped_key t k) = None"
      using mb_advances_back [OF adv] by (metis not_Some_eq)
    with None show ?thesis by simp
  next
    case (Some y)
    then obtain y' where y': "dispatches mb' (scoped_key t k) = Some y'" "dispatch_evolves\<^sup>*\<^sup>* y y'"
      using mb_advancesD [OF adv] by blast
    have kind: "y' = y \<or> moved (ReclaimCmd now limit) mb y y'"
      using moves Some y'(1) unfolding moves_as_def by force
    show ?thesis
    proof (cases "decode_dispatch t y")
      case None
      have "decode_dispatch t y' = None"
        using evolves_facts [OF y'(2)] None by (auto simp: decode_dispatch_def split: option.splits)
      with Some None y'(1) show ?thesis by simp
    next
      case (Some d)
      then obtain d' where d': "decode_dispatch t y' = Some d'" "dispatch_evolves\<^sup>*\<^sup>* d d'"
        using decode_evolves_star [OF y'(2)] by blast
      have "thread_id d' = thread_id d" using evolves_facts [OF d'(2)] by simp
      moreover have "d' = d \<or> lease_expired now d \<and> status d' =
          (if dispatch_epoch d < current_epoch_from_state (epochs mb) (scoped_key t (thread_id d))
           then Superseded else after_failure d)"
        using kind decode_lease [OF Some, of now] decode_keeps [OF d'(1)] Some d'(1)
        by (auto simp: moved_def behind_def split: if_splits)
      ultimately show ?thesis using Some d'(1) y'(1) \<open>dispatches mb (scoped_key t k) = Some y\<close> by auto
    qed
  qed
qed

text \<open>
  C9: Non-interference of scopes. Whatever the store of scope \<open>s\<close> does to the shared in-memory
  store, the store of another scope \<open>t\<close> sees the same dispatch epochs and loads the same dispatches
  afterwards, with one exception: a reclaim of expired leases works on the whole inner store, so it also
  recovers expired claims of \<open>t\<close>, each exactly as a reclaim by \<open>t\<close> would (superseded when it is behind its
  thread's epoch, otherwise back to queued or, with its attempts used up, to the dead letters). No
  dispatch of \<open>t\<close> whose lease is valid changes, and none appears or disappears.
\<close>
theorem scopes_do_not_interfere:
  assumes "mb_inv mb" "scope_step s reclaim_time mb mb'" "s \<noteq> t"
  shows "op_current_dispatch_epoch (scoped_store t memory_store) tid mb' =
      op_current_dispatch_epoch (scoped_store t memory_store) tid mb \<and>
    (case op_load_dispatch (scoped_store t memory_store) k mb of
       Inr (Some d) \<Rightarrow> (\<exists>d'. op_load_dispatch (scoped_store t memory_store) k mb' = Inr (Some d') \<and>
         (d' = d \<or> (\<exists>now. reclaim_time = Some now \<and> lease_expired now d \<and> thread_id d' = thread_id d \<and>
            status d' = (if Inr (dispatch_epoch d) \<noteq>
                op_current_dispatch_epoch (scoped_store t memory_store) (thread_id d) mb
              then Superseded else after_failure d))))
     | none \<Rightarrow> op_load_dispatch (scoped_store t memory_store) k mb' = none)"
proof -
  have load: "op_load_dispatch (scoped_store t memory_store) k m =
      Inr (Option.bind (dispatches m (scoped_key t k)) (decode_dispatch t))" for m
    by (simp add: scoped_store_def scoped_load_dispatch_def decode_opt_def)
  have epoch: "op_current_dispatch_epoch (scoped_store t memory_store) tid m =
      Inr (current_epoch_from_state (epochs m) (scoped_key t tid))" for tid m
    by (simp add: scoped_store_def scoped_current_dispatch_epoch_def memory_store_def
        mailbox_current_dispatch_epoch_def)
  show ?thesis
  proof (cases reclaim_time)
    case None
    with scope_step_invisible [OF assms(1) _ assms(3)] assms(2) have "invisible_to t mb mb'" by simp
    then show ?thesis unfolding load epoch by (auto simp: invisible_to_def split: option.split)
  next
    case (Some now)
    with assms(2) obtain ord limit where o: "hash_order ord (dispatches mb)"
        "mb' = snd (mailbox_reclaim_expired_leases ord now limit mb)"
      by (cases rule: scope_step.cases)
        (auto simp: scoped_store_def scoped_reclaim_expired_leases_def memory_store_def)
    note seen = reclaim_seen [OF assms(1) o]
    have "dispatch_epoch d \<le> current_epoch_from_state (epochs mb) (scoped_key t (thread_id d))"
      if "Option.bind (dispatches mb (scoped_key t k)) (decode_dispatch t) = Some d" for d
    proof -
      from that obtain y where y: "dispatches mb (scoped_key t k) = Some y" "decode_dispatch t y = Some d"
        by (auto simp: bind_eq_Some_conv)
      with mb_invD [OF assms(1) y(1)] decode_lease [OF y(2)] show ?thesis by (simp add: entry_ok_def)
    qed
    then have "dispatch_epoch d < current_epoch_from_state (epochs mb) (scoped_key t (thread_id d)) \<longleftrightarrow>
        dispatch_epoch d \<noteq> current_epoch_from_state (epochs mb) (scoped_key t (thread_id d))"
      if "Option.bind (dispatches mb (scoped_key t k)) (decode_dispatch t) = Some d" for d
      using that by (auto simp: order.order_iff_strict)
    with seen(2) [of t k] show ?thesis
      unfolding load epoch by (auto simp: seen(1) Some split: option.splits)
  qed
qed

theorem scopes_do_not_interfere_witness:
  "op_load_dispatch (scoped_store ''b'' memory_store) ''d''
     (snd (op_enqueue (scoped_store ''a'' memory_store) [] ex_dispatch mailbox_new)) = Inr None"
  using scopes_do_not_interfere [OF reachable_inv [OF mailbox_reachable.initial]
      scope_step.enqueue [of "''a''" mailbox_new "[]" ex_dispatch], of "''b''" _ "''d''"]
  by (simp add: scoped_store_def scoped_load_dispatch_def decode_opt_def memory_store_def
      mailbox_load_dispatch_def mailbox_new_def)

text \<open>
  Acknowledged at most once, through the store of a scope. After a successful ack, the dispatch
  stays acknowledged and no other ack of it succeeds, with whatever token, after any sequence of operations
  on single dispatches of the scope (claims, nacks, cancels, lease renewals, recorded results).
\<close>
theorem scoped_ack_is_final:
  assumes "scoped_ok s memory_store mb_inv mb"
    and "fst (op_ack (scoped_store s memory_store) k token now mb) = Inr ()"
    and "set steps \<subseteq> (\<Union>j. entry_steps (scoped_store s memory_store) j)"
  defines "mb' \<equiv> fold (\<lambda>f. f) steps (snd (op_ack (scoped_store s memory_store) k token now mb))"
  shows "(\<exists>d. op_load_dispatch (scoped_store s memory_store) k mb' = Inr (Some d) \<and> status d = Acked) \<and>
    fst (op_ack (scoped_store s memory_store) k token' now' mb') \<noteq> Inr ()"
proof -
  let ?mb = "snd (op_ack (scoped_store s memory_store) k token now mb)"
  obtain d where d: "op_load_dispatch (scoped_store s memory_store) k ?mb = Inr (Some d)" "status d = Acked"
    using scoped_memory.ack_acks [OF assms(1,2)] by blast
  have "op_load_dispatch (scoped_store s memory_store) k mb' = Inr (Some d)"
    unfolding mb'_def using scoped_memory.entry_ok [OF assms(1) entry_steps.ack] assms(3) d
    by (intro scoped_memory.terminal_kept) (simp_all add: is_terminal_def)
  with d(2) show ?thesis
    using scoped_memory.acked_once [OF assms(1-3)] by (simp add: mb'_def)
qed

definition ex_scoped :: mailbox where
  "ex_scoped = \<lparr>dispatches = [scoped_key ''a'' ''d'' \<mapsto> encode_dispatch ''a'' ex_claimed_dispatch],
     epochs = [scoped_key ''a'' ''t'' \<mapsto> 0]\<rparr>"

lemma ex_scoped_ok: "scoped_ok ''a'' memory_store mb_inv ex_scoped"
proof -
  have "dispatch_ok (encode_dispatch ''a'' ex_claimed_dispatch)" by code_simp
  moreover have "thread_id (encode_dispatch ''a'' ex_claimed_dispatch) = scoped_key ''a'' ''t''"
      "dispatch_epoch (encode_dispatch ''a'' ex_claimed_dispatch) = 0"
      "dispatch_id ex_claimed_dispatch = ''d''"
    by (simp_all add: encode_dispatch_def ex_claimed_dispatch_def claimed_as_eq ex_dispatch_def
        dispatch_queued_def)
  ultimately have "mb_inv ex_scoped"
    by (simp add: mb_inv_def entry_ok_def ex_scoped_def)
  then show ?thesis
    by (auto simp: scoped_ok_def ex_scoped_def decode_encode split: if_splits)
qed

text \<open>
  The exception of non-interference on a concrete store: the reclaim of scope \<^verbatim>\<open>b\<close> puts the expired
  dispatch of scope \<^verbatim>\<open>a\<close> back into the queue, and returns nothing to its caller.
\<close>

lemma scoped_reclaim_crosses_scopes:
  "(case op_reclaim_expired_leases (scoped_store ''b'' memory_store) [scoped_key ''a'' ''d''] 200 10 ex_scoped of
     (r, mb) \<Rightarrow> r = Inr [] \<and> map_option status (dispatches mb (scoped_key ''a'' ''d'')) = Some Queued)"
  by code_simp

theorem scoped_ack_is_final_witness:
  "fst (op_ack (scoped_store ''a'' memory_store) ''d'' ''k'' 9
     (snd (op_ack (scoped_store ''a'' memory_store) ''d'' ''k'' 8 ex_scoped))) \<noteq> Inr ()"
proof -
  have "dispatch_ok (encode_dispatch ''a'' ex_claimed_dispatch)" by code_simp
  moreover have "status (encode_dispatch ''a'' ex_claimed_dispatch) = Claimed"
      "claim_token (encode_dispatch ''a'' ex_claimed_dispatch) = Some ''k''"
      "thread_id (encode_dispatch ''a'' ex_claimed_dispatch) = scoped_key ''a'' ''t''"
    by (simp_all add: encode_dispatch_def ex_claimed_dispatch_def claimed_as_eq ex_dispatch_def
        dispatch_queued_def)
  ultimately have "fst (op_ack (scoped_store ''a'' memory_store) ''d'' ''k'' 8 ex_scoped) = Inr ()"
    by (simp add: mailbox_ack_def ex_scoped_def current_epoch_from_state_def state_mark_acked_def
        ack_step.expect)
  then show ?thesis
    using scoped_ack_is_final [OF ex_scoped_ok, of "''d''" "''k''" 8 "[]"] by simp
qed

end
