(* ===== verification/Tool_Id.thy ===== *)
theory Tool_Id
imports Prelude
begin

text \<open>
  Tool-id globs (\<^verbatim>\<open>remo-tool-pattern/src/tool_id.rs\<close>): the backtracking matcher with its one
  remembered star, the validation of patterns, and the declarative meaning of a pattern, which
  the matcher computes.

  The matcher's indices into the two byte slices are the slices from those indices on.
\<close>

section \<open>The matcher\<close>

abbreviation star :: char where "star \<equiv> CHR ''*''"
abbreviation backslash :: char where "backslash \<equiv> CHR 0x5C"

text \<open>
  \<open>p\<close> and \<open>v\<close> are what is left of the pattern and the tool id; \<open>mark\<close> is the pattern after the last
  star and the tool id from \<^verbatim>\<open>star_vi\<close> on. One iteration of the loop either gives the next state or
  returns \<^verbatim>\<open>false\<close> (\<^const>\<open>None\<close>). (The empty marked tool id does not occur: the tool id left
  is a suffix of the marked one, and the loop ends when it is empty.)
\<close>

type_synonym match_state = "string \<times> string \<times> (string \<times> string) option"

definition backtrack :: "(string \<times> string) option \<Rightarrow> match_state option" where
  "backtrack mark = (case mark of
      None \<Rightarrow> None
    | Some (sp, []) \<Rightarrow> None
    | Some (sp, _ # sv) \<Rightarrow> Some (sp, sv, Some (sp, sv)))"

definition match_step :: "string \<Rightarrow> char \<Rightarrow> string \<Rightarrow> (string \<times> string) option \<Rightarrow> match_state option" where
  "match_step p x v mark =
     (case p of
        [] \<Rightarrow> backtrack mark
      | c # ps \<Rightarrow>
          if c = backslash \<and> ps \<noteq> [] then
            (if hd ps = x then Some (tl ps, v, mark) else backtrack mark)
          else if c = star then Some (ps, x # v, Some (ps, x # v))
          else if c = x then Some (ps, v, mark)
          else backtrack mark)"

abbreviation stars :: "string \<Rightarrow> nat" where
  "stars p \<equiv> length (filter (\<lambda>c. c = star) p)"

text \<open>The measure: stars ahead, then the marked tool id, then the tool id.\<close>

definition match_measure :: "(match_state \<times> match_state) set" where
  "match_measure =
     (\<lambda>(p, v, mark). max (stars p) (case mark of None \<Rightarrow> 0 | Some (sp, _) \<Rightarrow> stars sp)) <*mlex*>
     ((\<lambda>(p, v, mark). case mark of None \<Rightarrow> 0 | Some (_, sv) \<Rightarrow> length sv) <*mlex*>
      measure (\<lambda>(p, v, mark). length v))"

lemma wf_match_measure: "wf match_measure"
  unfolding match_measure_def by (intro wf_mlex wf_measure)

lemma backtrack_decreases: "backtrack mark = Some st \<Longrightarrow> (st, (p, v, mark)) \<in> match_measure"
  by (auto simp: backtrack_def match_measure_def mlex_prod_def max_def
      split: option.splits list.splits)

lemma match_step_decreases:
  assumes "match_step p x v mark = Some st"
  shows "(st, (p, x # v, mark)) \<in> match_measure"
proof (cases p)
  case Nil
  with assms show ?thesis by (simp add: match_step_def backtrack_decreases)
next
  case (Cons c ps)
  have shorter: "stars (tl qs) \<le> stars qs" for qs by (cases qs) auto
  show ?thesis
    using assms shorter [of ps]
    by (auto simp: Cons match_step_def match_measure_def mlex_prod_def max_def
        intro: backtrack_decreases [unfolded match_measure_def mlex_prod_def]
        split: if_splits option.splits dest!: backtrack_decreases
          [of _ _ p "x # v", unfolded match_measure_def Cons])
qed

function match_loop :: "string \<Rightarrow> string \<Rightarrow> (string \<times> string) option \<Rightarrow> bool" where
  "match_loop p [] mark = (dropWhile (\<lambda>c. c = star) p = [])"
| "match_loop p (x # v) mark = (case match_step p x v mark of
     None \<Rightarrow> False
   | Some (p', v', mark') \<Rightarrow> match_loop p' v' mark')"
  by pat_completeness auto
termination
  by (relation match_measure) (auto simp: wf_match_measure match_step_decreases)

definition tool_id_match :: "string \<Rightarrow> string \<Rightarrow> bool" where
  "tool_id_match pattern tool_id = match_loop pattern tool_id None"

section \<open>Validation\<close>

datatype tool_id_pattern_error = PatternEmpty | DanglingEscape

fun scan_escapes :: "string \<Rightarrow> tool_id_pattern_error + unit" where
  "scan_escapes [] = Inr ()"
| "scan_escapes (c # cs) =
     (if c = backslash then (case cs of [] \<Rightarrow> Inl DanglingEscape | _ # rest \<Rightarrow> scan_escapes rest)
      else scan_escapes cs)"

definition validate_tool_id_pattern :: "string \<Rightarrow> tool_id_pattern_error + unit" where
  "validate_tool_id_pattern pattern =
     (if pattern = [] then Inl PatternEmpty else scan_escapes pattern)"

section \<open>What a pattern means\<close>

datatype glob_token = AnySequence | Literal char

text \<open>A backslash takes the next character literally; a final one stands for itself.\<close>

fun glob_tokens :: "string \<Rightarrow> glob_token list" where
  "glob_tokens [] = []"
| "glob_tokens [c] = [if c = star then AnySequence else Literal c]"
| "glob_tokens (c # d # cs) =
     (if c = backslash then Literal d # glob_tokens cs
      else (if c = star then AnySequence else Literal c) # glob_tokens (d # cs))"

fun glob_accepts :: "glob_token list \<Rightarrow> string \<Rightarrow> bool" where
  "glob_accepts [] v \<longleftrightarrow> v = []"
| "glob_accepts (Literal c # ts) v \<longleftrightarrow> (case v of [] \<Rightarrow> False | x # xs \<Rightarrow> x = c \<and> glob_accepts ts xs)"
| "glob_accepts (AnySequence # ts) v \<longleftrightarrow> (\<exists>k \<le> length v. glob_accepts ts (drop k v))"

lemma accepts_literals:
  "glob_accepts (map Literal u @ ts) v \<longleftrightarrow> (\<exists>w. v = u @ w \<and> glob_accepts ts w)"
  by (induction u arbitrary: v) (auto split: list.splits)

lemma accepts_any_suffix:
  assumes "glob_accepts (AnySequence # ts) w" "v = u @ w"
  shows "glob_accepts (AnySequence # ts) v"
proof -
  obtain k where "k \<le> length w" "glob_accepts ts (drop k w)" using assms(1) by auto
  with assms(2) show ?thesis by (auto intro!: exI [of _ "length u + k"])
qed

lemma accepts_empty: "glob_accepts (glob_tokens p) [] \<longleftrightarrow> dropWhile (\<lambda>c. c = star) p = []"
proof (induction p rule: glob_tokens.induct)
  case (3 c d cs)
  have "star \<noteq> backslash" by simp
  with 3 show ?case by (cases "c = backslash") auto
qed auto

lemma tokens_escape: "ps \<noteq> [] \<Longrightarrow> glob_tokens (backslash # ps) = Literal (hd ps) # glob_tokens (tl ps)"
  by (cases ps) auto

lemma tokens_star: "glob_tokens (star # ps) = AnySequence # glob_tokens ps"
  by (cases ps) auto

lemma tokens_plain:
  "c \<noteq> star \<Longrightarrow> \<not> (c = backslash \<and> ps \<noteq> []) \<Longrightarrow> glob_tokens (c # ps) = Literal c # glob_tokens ps"
  by (cases ps) auto

section \<open>The matcher computes the meaning\<close>

text \<open>
  Since the last star, the matcher has consumed only literals \<open>u\<close>, and they equal what it consumed of the
  tool id. So a longer match of an earlier star can never do better than a longer match of the last one.
\<close>

definition mark_ok :: "string \<Rightarrow> string \<Rightarrow> (string \<times> string) option \<Rightarrow> bool" where
  "mark_ok p v mark \<longleftrightarrow> (case mark of None \<Rightarrow> True | Some (sp, sv) \<Rightarrow>
     \<exists>u. glob_tokens sp = map Literal u @ glob_tokens p \<and> sv = u @ v)"

definition retry_accepts :: "(string \<times> string) option \<Rightarrow> bool" where
  "retry_accepts mark \<longleftrightarrow> (case mark of None \<Rightarrow> False | Some (sp, sv) \<Rightarrow>
     \<exists>k. 1 \<le> k \<and> k \<le> length sv \<and> glob_accepts (glob_tokens sp) (drop k sv))"

lemma retry_accepts_unfold:
  "retry_accepts (Some (sp, x # sv)) \<longleftrightarrow> glob_accepts (glob_tokens sp) sv \<or> retry_accepts (Some (sp, sv))"
proof
  assume "retry_accepts (Some (sp, x # sv))"
  then obtain k where "1 \<le> k" "k \<le> Suc (length sv)" "glob_accepts (glob_tokens sp) (drop k (x # sv))"
    by (auto simp: retry_accepts_def)
  then show "glob_accepts (glob_tokens sp) sv \<or> retry_accepts (Some (sp, sv))"
    by (cases k; cases "k - 1") (auto simp: retry_accepts_def)
next
  assume "glob_accepts (glob_tokens sp) sv \<or> retry_accepts (Some (sp, sv))"
  then show "retry_accepts (Some (sp, x # sv))"
    unfolding retry_accepts_def by (auto intro: exI [of _ 1] exI [of _ "Suc _"])
qed

lemma drop_neq_longer: "1 \<le> k \<Longrightarrow> k \<le> length u \<Longrightarrow> drop k u \<noteq> u @ w"
  by (auto dest: arg_cong [where f = length and x = "drop k u"])

lemma retry_subsumed_at_end: "mark_ok p [] mark \<Longrightarrow> \<not> retry_accepts mark"
  using drop_neq_longer
  by (fastforce simp: mark_ok_def retry_accepts_def accepts_literals split: option.splits)

lemma retry_subsumed_at_star:
  assumes "mark_ok (star # ps) v mark" "retry_accepts mark"
  shows "glob_accepts (glob_tokens (star # ps)) v"
proof -
  obtain sp sv u k where m: "glob_tokens sp = map Literal u @ AnySequence # glob_tokens ps" "sv = u @ v"
      "k \<le> length sv" "glob_accepts (glob_tokens sp) (drop k sv)"
    using assms by (auto simp: mark_ok_def retry_accepts_def tokens_star split: option.splits)
  then obtain w where w: "drop k (u @ v) = u @ w" "glob_accepts (AnySequence # glob_tokens ps) w"
    by (auto simp: accepts_literals)
  have "w = drop (k + length u) (u @ v)"
    using w(1) by (metis append_eq_conv_conj drop_drop add.commute)
  then have "v = take k v @ w" by (simp add: add.commute)
  from accepts_any_suffix [OF w(2) this] show ?thesis by (simp only: tokens_star)
qed

lemma accepts_star_retry:
  "glob_accepts (glob_tokens (star # ps)) v \<longleftrightarrow>
     glob_accepts (glob_tokens ps) v \<or> retry_accepts (Some (ps, v))"
proof
  assume "glob_accepts (glob_tokens (star # ps)) v"
  then obtain k where "k \<le> length v" "glob_accepts (glob_tokens ps) (drop k v)"
    by (auto simp: tokens_star)
  then show "glob_accepts (glob_tokens ps) v \<or> retry_accepts (Some (ps, v))"
    by (cases "k = 0") (auto simp: retry_accepts_def intro!: exI [of _ k])
next
  assume "glob_accepts (glob_tokens ps) v \<or> retry_accepts (Some (ps, v))"
  then show "glob_accepts (glob_tokens (star # ps)) v"
    by (auto simp: tokens_star retry_accepts_def intro: exI [of _ 0])
qed

lemma mark_ok_self: "mark_ok p v (Some (p, v))"
  by (simp add: mark_ok_def)

lemma mark_ok_literal:
  assumes "mark_ok p (x # v) mark" "glob_tokens p = Literal x # glob_tokens q"
  shows "mark_ok q v mark"
proof (cases mark)
  case (Some m)
  obtain sp sv where m: "m = (sp, sv)" by (cases m)
  with assms Some obtain u where "glob_tokens sp = map Literal u @ Literal x # glob_tokens q"
      "sv = u @ x # v" by (auto simp: mark_ok_def)
  then show ?thesis by (auto simp: Some m mark_ok_def intro!: exI [of _ "u @ [x]"])
qed (simp add: mark_ok_def)

lemma match_loop_correct:
  assumes "mark_ok p v mark"
  shows "match_loop p v mark \<longleftrightarrow> glob_accepts (glob_tokens p) v \<or> retry_accepts mark"
  using assms
proof (induction p v mark rule: match_loop.induct)
  case (1 p mark)
  then show ?case using retry_subsumed_at_end by (simp add: accepts_empty)
next
  case (2 p x v mark)
  have IH: "match_loop p (x # v) mark \<longleftrightarrow> glob_accepts (glob_tokens p') v' \<or> retry_accepts mark'"
    if "match_step p x v mark = Some (p', v', mark')" "mark_ok p' v' mark'" for p' v' mark'
    using "2.IH" [OF that(1) refl refl that(2)] that(1) by simp
  have literal: "match_loop p (x # v) mark \<longleftrightarrow> glob_accepts (glob_tokens p) (x # v) \<or> retry_accepts mark"
    if "match_step p x v mark = Some (q, v, mark)" "glob_tokens p = Literal x # glob_tokens q" for q
    using IH [OF that(1)] mark_ok_literal [OF "2.prems" that(2)] that(2) by simp
  have again: "match_loop p (x # v) mark \<longleftrightarrow> retry_accepts mark"
    if b: "match_step p x v mark = backtrack mark"
  proof (cases "backtrack mark")
    case None
    with b have "\<not> match_loop p (x # v) mark" by simp
    with None show ?thesis
      by (auto simp: backtrack_def retry_accepts_def split: option.splits list.splits)
  next
    case (Some st)
    then obtain sp y sv where m: "mark = Some (sp, y # sv)" "st = (sp, sv, Some (sp, sv))"
      by (auto simp: backtrack_def split: option.splits list.splits)
    with IH [of sp sv "Some (sp, sv)"] Some b mark_ok_self show ?thesis
      by (simp add: retry_accepts_unfold)
  qed
  show ?case
  proof (cases p)
    case Nil
    then show ?thesis using again by (simp add: match_step_def)
  next
    case (Cons c ps)
    consider (escape) "c = backslash" "ps \<noteq> []" | (star) "c = star"
      | (plain) "c \<noteq> star" "\<not> (c = backslash \<and> ps \<noteq> [])" by blast
    then show ?thesis
    proof cases
      case escape
      then show ?thesis
        using literal [of "tl ps"] again by (cases "hd ps = x") (auto simp: Cons match_step_def tokens_escape)
    next
      case star
      have "match_loop p (x # v) mark \<longleftrightarrow>
          glob_accepts (glob_tokens ps) (x # v) \<or> retry_accepts (Some (ps, x # v))"
        by (rule IH) (simp_all add: Cons star match_step_def mark_ok_self)
      also have "\<dots> \<longleftrightarrow> glob_accepts (glob_tokens p) (x # v)"
        using accepts_star_retry [of ps "x # v"] by (simp add: Cons star)
      also have "\<dots> \<longleftrightarrow> glob_accepts (glob_tokens p) (x # v) \<or> retry_accepts mark"
        using retry_subsumed_at_star "2.prems" by (auto simp: Cons star)
      finally show ?thesis .
    next
      case plain
      then show ?thesis
        using literal [of ps] again by (cases "c = x") (auto simp: Cons match_step_def tokens_plain)
    qed
  qed
qed

text \<open>
  C10: The backtracking matcher decides exactly the meaning of the pattern, for every pattern and
  every tool id: a star stands for any sequence of characters, a backslash takes the next character literally,
  everything else stands for itself. That it keeps only the last star loses no match.
\<close>
theorem tool_id_match_correct: "tool_id_match p v \<longleftrightarrow> glob_accepts (glob_tokens p) v"
  using match_loop_correct [of p v None]
  by (simp add: tool_id_match_def mark_ok_def retry_accepts_def)

section \<open>Escaping\<close>

definition escape_tool_id :: "string \<Rightarrow> string" where
  "escape_tool_id s = concat (map (\<lambda>c. if c = star \<or> c = backslash then [backslash, c] else [c]) s)"

lemma tokens_escaped: "glob_tokens (escape_tool_id s) = map Literal s"
proof (induction s)
  case (Cons c s)
  then show ?case
    by (auto simp: escape_tool_id_def tokens_escape tokens_plain)
qed (simp add: escape_tool_id_def)

text \<open>
  A tool id with its stars and backslashes escaped is a valid pattern (unless the id is empty)
  that matches exactly that tool id. A pattern is valid when it is not empty and every backslash in it escapes a
  character.
\<close>
theorem escaped_tool_id_matches_itself:
  "(tool_id_match (escape_tool_id s) v \<longleftrightarrow> v = s) \<and>
   (validate_tool_id_pattern (escape_tool_id s) = Inr () \<longleftrightarrow> s \<noteq> [])"
proof -
  have "scan_escapes (escape_tool_id s) = Inr ()"
    by (induction s) (auto simp: escape_tool_id_def)
  moreover have "escape_tool_id s = [] \<longleftrightarrow> s = []"
    by (cases s) (auto simp: escape_tool_id_def)
  moreover have "match_loop (escape_tool_id s) v None \<longleftrightarrow> v = s"
    using match_loop_correct [of "escape_tool_id s" v None] accepts_literals [of s "[]" v]
    by (simp add: mark_ok_def retry_accepts_def tokens_escaped)
  ultimately show ?thesis
    by (auto simp: validate_tool_id_pattern_def tool_id_match_def)
qed

end
