(* ===== verification/Tool_Pattern.thy ===== *)
theory Tool_Pattern
imports Prelude
begin

text \<open>
  Tool call patterns and their evaluation (\<^verbatim>\<open>remo-tool-pattern/src/types.rs\<close>, \<^verbatim>\<open>matcher.rs\<close>): the
  pattern types with their \<^verbatim>\<open>Display\<close>, matching of a pattern against a tool id and JSON arguments,
  and the check of a pattern's fields against a JSON schema.

  The crates \<^verbatim>\<open>glob_match\<close>, \<^verbatim>\<open>regex\<close> and the JSON writer of \<^verbatim>\<open>serde_json\<close> are the fields of
  \<open>pattern_env\<close>; a compiled regular expression is its source text. A JSON object lists its members
  in key order, a number is its text.
\<close>

section \<open>JSON values\<close>

datatype json =
    JNull
  | JBool bool
  | JNumber string
  | JString string
  | JArray "json list"
  | JObject "(string \<times> json) list"

definition json_get :: "json \<Rightarrow> string \<Rightarrow> json option" where
  "json_get v key = (case v of JObject ms \<Rightarrow> map_of ms key | _ \<Rightarrow> None)"

definition json_array :: "json \<Rightarrow> json list option" where
  "json_array v = (case v of JArray vs \<Rightarrow> Some vs | _ \<Rightarrow> None)"

definition json_object :: "json \<Rightarrow> (string \<times> json) list option" where
  "json_object v = (case v of JObject ms \<Rightarrow> Some ms | _ \<Rightarrow> None)"

section \<open>Patterns\<close>

datatype path_segment = Field string | Index nat | AnyIndex | Wildcard

datatype match_op = Glob | Exact | Regex | NotGlob | NotExact | NotRegex

record field_condition =
  fc_path :: "path_segment list"
  fc_op :: match_op
  fc_value :: string

datatype tool_matcher = ExactTool string | GlobTool string | RegexTool string

datatype arg_matcher = AnyArgs | Primary match_op string | Fields "field_condition list"

record tool_call_pattern =
  tp_tool :: tool_matcher
  tp_args :: arg_matcher

definition pattern_tool :: "string \<Rightarrow> tool_call_pattern" where
  "pattern_tool name = \<lparr>tp_tool = ExactTool name, tp_args = AnyArgs\<rparr>"

definition pattern_tool_with_primary :: "string \<Rightarrow> string \<Rightarrow> tool_call_pattern" where
  "pattern_tool_with_primary name pat = \<lparr>tp_tool = ExactTool name, tp_args = Primary Glob pat\<rparr>"

definition pattern_tool_glob :: "string \<Rightarrow> tool_call_pattern" where
  "pattern_tool_glob pat = \<lparr>tp_tool = GlobTool pat, tp_args = AnyArgs\<rparr>"

definition pattern_with_args :: "arg_matcher \<Rightarrow> tool_call_pattern \<Rightarrow> tool_call_pattern" where
  "pattern_with_args args p = p\<lparr>tp_args := args\<rparr>"

section \<open>Display\<close>

definition double_quote :: char where
  "double_quote = CHR 0x22"

fun show_segment :: "path_segment \<Rightarrow> string" where
  "show_segment (Field name) = name"
| "show_segment (Index i) = ''['' @ show_nat i @ '']''"
| "show_segment AnyIndex = ''[*]''"
| "show_segment Wildcard = ''*''"

fun show_op :: "match_op \<Rightarrow> string" where
  "show_op Glob = ''~''"
| "show_op Exact = ''=''"
| "show_op Regex = ''=~''"
| "show_op NotGlob = ''!~''"
| "show_op NotExact = ''!=''"
| "show_op NotRegex = ''!=~''"

definition is_index_segment :: "path_segment \<Rightarrow> bool" where
  "is_index_segment seg = (case seg of Index _ \<Rightarrow> True | AnyIndex \<Rightarrow> True | _ \<Rightarrow> False)"

text \<open>The segments after the first: a dot before each, except before an index.\<close>

fun show_path_rest :: "path_segment list \<Rightarrow> string" where
  "show_path_rest [] = []"
| "show_path_rest (seg # segs) =
     (if is_index_segment seg then show_segment seg else ''.'' @ show_segment seg) @ show_path_rest segs"

definition show_path :: "path_segment list \<Rightarrow> string" where
  "show_path path = (case path of [] \<Rightarrow> [] | seg # segs \<Rightarrow> show_segment seg @ show_path_rest segs)"

definition show_condition :: "field_condition \<Rightarrow> string" where
  "show_condition c =
     show_path (fc_path c) @ '' '' @ show_op (fc_op c) @ '' '' @ [double_quote] @ fc_value c @ [double_quote]"

definition show_tool :: "tool_matcher \<Rightarrow> string" where
  "show_tool t = (case t of
      ExactTool s \<Rightarrow> s | GlobTool s \<Rightarrow> s | RegexTool re \<Rightarrow> ''/'' @ re @ ''/'')"

fun show_conditions :: "field_condition list \<Rightarrow> string" where
  "show_conditions [] = []"
| "show_conditions [c] = show_condition c"
| "show_conditions (c # cs) = show_condition c @ '', '' @ show_conditions cs"

definition show_args :: "arg_matcher \<Rightarrow> string" where
  "show_args a = (case a of
      AnyArgs \<Rightarrow> ''*''
    | Primary op v \<Rightarrow> (if op = Glob then v else show_op op @ '' '' @ [double_quote] @ v @ [double_quote])
    | Fields cs \<Rightarrow> show_conditions cs)"

definition show_pattern :: "tool_call_pattern \<Rightarrow> string" where
  "show_pattern p = show_tool (tp_tool p) @
     (if tp_args p = AnyArgs then [] else ''('' @ show_args (tp_args p) @ '')'')"

section \<open>Specificity\<close>

datatype specificity = Specificity (tool_kind: u8) (has_args: bool) (field_count: u8) (field_precision: u8)

text \<open>The derived ordering compares the fields in order.\<close>

definition specificity_key :: "specificity \<Rightarrow> u8 \<times> bool \<times> u8 \<times> u8" where
  "specificity_key s = (tool_kind s, has_args s, field_count s, field_precision s)"

lemma specificity_key_inject: "specificity_key s = specificity_key t \<Longrightarrow> s = t"
  by (cases s; cases t) (simp add: specificity_key_def)

instantiation specificity :: linorder
begin

definition less_eq_specificity :: "specificity \<Rightarrow> specificity \<Rightarrow> bool" where
  "less_eq_specificity s t = (specificity_key s \<le> specificity_key t)"

definition less_specificity :: "specificity \<Rightarrow> specificity \<Rightarrow> bool" where
  "less_specificity s t = (specificity_key s < specificity_key t)"

instance
  by intro_classes
    (auto simp: less_eq_specificity_def less_specificity_def intro: specificity_key_inject)

end

datatype match_result = NoMatch | Match specificity

definition is_match :: "match_result \<Rightarrow> bool" where
  "is_match r = (case r of Match _ \<Rightarrow> True | NoMatch \<Rightarrow> False)"

section \<open>Matching\<close>

record pattern_env =
  glob_match :: "string \<Rightarrow> string \<Rightarrow> bool"
  regex_error :: "string \<Rightarrow> string option"
  regex_is_match :: "string \<Rightarrow> string \<Rightarrow> bool"
  json_text :: "json \<Rightarrow> string"

text \<open>\<^verbatim>\<open>bytes[i] as char\<close> pushed to a string: the byte taken as a code point, in UTF-8.\<close>

definition push_byte_as_char :: "char \<Rightarrow> string" where
  "push_byte_as_char b =
     (let n = (of_char b :: nat) in
      if n < 128 then [b] else [char_of (192 + n div 64), char_of (128 + n mod 64)])"

text \<open>\<open>done\<close> are the bytes before the position, \<open>rest\<close> those from it on.\<close>

function normalize_from :: "string \<Rightarrow> string \<Rightarrow> string" where
  "normalize_from before [] = []"
| "normalize_from before (b # rest) =
     (if b = CHR ''*'' then
        let run = b # takeWhile (\<lambda>c. c = CHR ''*'') rest;
            after = dropWhile (\<lambda>c. c = CHR ''*'') rest
        in (if length run \<ge> 2 then run
            else if ends_with before ''**/'' \<or> starts_with after ''/**'' then ''*''
            else ''**'') @ normalize_from (before @ run) after
      else push_byte_as_char b @ normalize_from (before @ [b]) rest)"
  by pat_completeness auto
termination
  by (relation "measure (\<lambda>(before, rest). length rest)")
    (auto simp: le_imp_less_Suc length_dropWhile_le)

definition normalize_wildcards :: "string \<Rightarrow> string" where
  "normalize_wildcards pattern = normalize_from [] pattern"

definition wildcard_match :: "pattern_env \<Rightarrow> string \<Rightarrow> string \<Rightarrow> bool" where
  "wildcard_match env pattern v = glob_match env (normalize_wildcards pattern) v"

fun value_to_string :: "pattern_env \<Rightarrow> json \<Rightarrow> string" where
  "value_to_string env (JString s) = s"
| "value_to_string env JNull = []"
| "value_to_string env (JBool b) = (if b then ''true'' else ''false'')"
| "value_to_string env (JNumber n) = n"
| "value_to_string env v = json_text env v"

fun resolve_path :: "json \<Rightarrow> path_segment list \<Rightarrow> json list" where
  "resolve_path v [] = [v]"
| "resolve_path v (Field name # segs) =
     (case json_get v name of Some child \<Rightarrow> resolve_path child segs | None \<Rightarrow> [])"
| "resolve_path v (Index i # segs) =
     (case json_array v of
        Some vs \<Rightarrow> if i < length vs then resolve_path (vs ! i) segs else []
      | None \<Rightarrow> [])"
| "resolve_path v (AnyIndex # segs) =
     (case json_array v of Some vs \<Rightarrow> concat (map (\<lambda>e. resolve_path e segs) vs) | None \<Rightarrow> [])"
| "resolve_path v (Wildcard # segs) =
     (case json_object v of
        Some ms \<Rightarrow> concat (map (\<lambda>e. resolve_path (snd e) segs) ms)
      | None \<Rightarrow> [])"

definition infer_primary_value :: "pattern_env \<Rightarrow> json \<Rightarrow> string" where
  "infer_primary_value env args =
     (case args of JObject [(_, v)] \<Rightarrow> value_to_string env v | _ \<Rightarrow> value_to_string env args)"

definition evaluate_op :: "pattern_env \<Rightarrow> match_op \<Rightarrow> string \<Rightarrow> string \<Rightarrow> bool" where
  "evaluate_op env op pattern v =
     (case op of
        Glob \<Rightarrow> wildcard_match env pattern v
      | Exact \<Rightarrow> pattern = v
      | Regex \<Rightarrow> (case regex_error env pattern of
          None \<Rightarrow> regex_is_match env pattern v | Some _ \<Rightarrow> False)
      | NotGlob \<Rightarrow> \<not> wildcard_match env pattern v
      | NotExact \<Rightarrow> pattern \<noteq> v
      | NotRegex \<Rightarrow> (case regex_error env pattern of
          None \<Rightarrow> \<not> regex_is_match env pattern v | Some _ \<Rightarrow> True))"

definition evaluate_field_condition :: "pattern_env \<Rightarrow> field_condition \<Rightarrow> json \<Rightarrow> bool" where
  "evaluate_field_condition env cond args =
     (let resolved = resolve_path args (fc_path cond) in
      if resolved = [] then False
      else list_ex (\<lambda>v. evaluate_op env (fc_op cond) (fc_value cond) (value_to_string env v)) resolved)"

definition op_precision :: "match_op \<Rightarrow> u8" where
  "op_precision op = (case op of
      Exact \<Rightarrow> 3 | NotExact \<Rightarrow> 3 | Glob \<Rightarrow> 2 | NotGlob \<Rightarrow> 2 | Regex \<Rightarrow> 1 | NotRegex \<Rightarrow> 1)"

text \<open>The loop over the conditions, with its early return.\<close>

fun match_fields :: "pattern_env \<Rightarrow> field_condition list \<Rightarrow> json \<Rightarrow> u8 \<Rightarrow> u8 option" where
  "match_fields env [] args prec = Some prec"
| "match_fields env (cond # conds) args prec =
     (if \<not> evaluate_field_condition env cond args then None
      else match_fields env conds args (sat_add prec (op_precision (fc_op cond))))"

definition match_tool :: "pattern_env \<Rightarrow> tool_matcher \<Rightarrow> string \<Rightarrow> u8 option" where
  "match_tool env t tool_id = (case t of
      ExactTool name \<Rightarrow> if name \<noteq> tool_id then None else Some 3
    | GlobTool pat \<Rightarrow> if \<not> wildcard_match env pat tool_id then None else Some 2
    | RegexTool re \<Rightarrow> if \<not> regex_is_match env re tool_id then None else Some 1)"

definition pattern_matches :: "pattern_env \<Rightarrow> tool_call_pattern \<Rightarrow> string \<Rightarrow> json \<Rightarrow> match_result" where
  "pattern_matches env p tool_id args =
     (case match_tool env (tp_tool p) tool_id of None \<Rightarrow> NoMatch | Some kind \<Rightarrow>
      (case tp_args p of
         AnyArgs \<Rightarrow> Match (Specificity kind False 0 0)
       | Primary op v \<Rightarrow>
           if evaluate_op env op v (infer_primary_value env args)
           then Match (Specificity kind True 1 (op_precision op)) else NoMatch
       | Fields conds \<Rightarrow>
           (case match_fields env conds args 0 of
              None \<Rightarrow> NoMatch
            | Some prec \<Rightarrow>
                Match (Specificity kind True (of_nat (min (length conds) 255)) prec))))"

section \<open>Schema check\<close>

fun schema_has_path :: "json \<Rightarrow> path_segment list \<Rightarrow> bool" where
  "schema_has_path schema [] = True"
| "schema_has_path schema (Field name # segs) =
     (case Option.bind (json_get schema ''properties'') (\<lambda>p. json_get p name) of
        Some sub \<Rightarrow> schema_has_path sub segs
      | None \<Rightarrow> (case json_get schema ''additionalProperties'' of
          None \<Rightarrow> False
        | Some ap \<Rightarrow> json_object ap \<noteq> None \<and> schema_has_path ap segs))"
| "schema_has_path schema (Index _ # segs) =
     (case json_get schema ''items'' of None \<Rightarrow> False | Some items \<Rightarrow> schema_has_path items segs)"
| "schema_has_path schema (AnyIndex # segs) =
     (case json_get schema ''items'' of None \<Rightarrow> False | Some items \<Rightarrow> schema_has_path items segs)"
| "schema_has_path schema (Wildcard # segs) =
     (case Option.bind (json_get schema ''properties'') json_object of
        Some props \<Rightarrow> list_ex (\<lambda>m. schema_has_path (snd m) segs) props
      | None \<Rightarrow> (case json_get schema ''additionalProperties'' of
          None \<Rightarrow> False
        | Some ap \<Rightarrow> json_object ap \<noteq> None \<and> schema_has_path ap segs))"

fun joined :: "string \<Rightarrow> string list \<Rightarrow> string" where
  "joined sep [] = []"
| "joined sep [s] = s"
| "joined sep (s # ss) = s @ sep @ joined sep ss"

definition validate_pattern_fields :: "tool_call_pattern \<Rightarrow> json \<Rightarrow> string list" where
  "validate_pattern_fields p schema =
     (case tp_args p of
        AnyArgs \<Rightarrow> []
      | Primary _ _ \<Rightarrow> []
      | Fields conds \<Rightarrow>
          map (\<lambda>c. joined ''.'' (map show_segment (fc_path c)))
            (filter (\<lambda>c. \<not> schema_has_path schema (fc_path c)) conds))"

section \<open>Path resolution\<close>

lemma concat_map_concat: "concat (map f (concat xss)) = concat (map (\<lambda>xs. concat (map f xs)) xss)"
  by (induction xss) auto

lemma resolve_path_append:
  "resolve_path v (p @ q) = concat (map (\<lambda>w. resolve_path w q) (resolve_path v p))"
proof (induction p arbitrary: v)
  case (Cons seg p)
  then show ?case
    by (cases seg) (simp_all add: concat_map_concat comp_def split: option.split)
qed simp

section \<open>What matching decides\<close>

definition tool_accepts :: "pattern_env \<Rightarrow> tool_matcher \<Rightarrow> string \<Rightarrow> bool" where
  "tool_accepts env t tool_id = (case t of
      ExactTool name \<Rightarrow> name = tool_id
    | GlobTool pat \<Rightarrow> wildcard_match env pat tool_id
    | RegexTool re \<Rightarrow> regex_is_match env re tool_id)"

definition condition_accepts :: "pattern_env \<Rightarrow> json \<Rightarrow> field_condition \<Rightarrow> bool" where
  "condition_accepts env args c \<longleftrightarrow> (\<exists>v \<in> set (resolve_path args (fc_path c)).
     evaluate_op env (fc_op c) (fc_value c) (value_to_string env v))"

definition args_accept :: "pattern_env \<Rightarrow> arg_matcher \<Rightarrow> json \<Rightarrow> bool" where
  "args_accept env a args = (case a of
      AnyArgs \<Rightarrow> True
    | Primary op v \<Rightarrow> evaluate_op env op v (infer_primary_value env args)
    | Fields conds \<Rightarrow> (\<forall>c \<in> set conds. condition_accepts env args c))"

definition conditions_of :: "arg_matcher \<Rightarrow> match_op list" where
  "conditions_of a = (case a of AnyArgs \<Rightarrow> [] | Primary op _ \<Rightarrow> [op] | Fields conds \<Rightarrow> map fc_op conds)"

lemma evaluate_field_condition_iff: "evaluate_field_condition env c args = condition_accepts env args c"
  by (auto simp: evaluate_field_condition_def condition_accepts_def Let_def list_ex_iff)

lemma match_fields_None_iff:
  "match_fields env conds args prec = None \<longleftrightarrow> \<not> (\<forall>c \<in> set conds. condition_accepts env args c)"
  by (induction conds arbitrary: prec) (auto simp: evaluate_field_condition_iff)

lemma match_fields_precision:
  "match_fields env conds args prec = Some r \<Longrightarrow>
     unat r = min 255 (unat prec + sum_list (map (\<lambda>c. unat (op_precision (fc_op c))) conds))"
proof (induction conds arbitrary: prec)
  case Nil
  have "unat prec < 2 ^ LENGTH(8)" by (rule unsigned_less)
  with Nil show ?case by simp
next
  case (Cons c conds)
  then have "unat r = min 255 (unat (sat_add prec (op_precision (fc_op c))) +
      sum_list (map (\<lambda>c. unat (op_precision (fc_op c))) conds))"
    by (auto split: if_splits)
  then show ?case by (simp add: unat_sat_add min_def split: if_splits)
qed

lemma op_precision_bounds: "0 < unat (op_precision op) \<and> unat (op_precision op) \<le> 3"
  by (cases op) (simp_all add: op_precision_def)

text \<open>
  Matching decides exactly: the tool part accepts the tool id, and the argument part accepts the
  arguments, where a field condition accepts when one of the values its path resolves to satisfies
  its operator. So a condition on a missing field never holds, not even a negated one. A match is
  ranked by the kind of the tool part, by whether arguments are constrained, and by the number and the summed precision of
  the conditions, both capped at 255 and never wrapped around.
\<close>
theorem pattern_matches_spec:
  "(is_match (pattern_matches env p tool_id args) \<longleftrightarrow>
      tool_accepts env (tp_tool p) tool_id \<and> args_accept env (tp_args p) args) \<and>
   (\<forall>s. pattern_matches env p tool_id args = Match s \<longrightarrow>
      tool_kind s = (case tp_tool p of ExactTool _ \<Rightarrow> 3 | GlobTool _ \<Rightarrow> 2 | RegexTool _ \<Rightarrow> 1) \<and>
      (has_args s \<longleftrightarrow> tp_args p \<noteq> AnyArgs) \<and>
      unat (field_count s) = min 255 (length (conditions_of (tp_args p))) \<and>
      unat (field_precision s) =
        min 255 (sum_list (map (\<lambda>op. unat (op_precision op)) (conditions_of (tp_args p)))))"
proof -
  have tool: "match_tool env (tp_tool p) tool_id = (if tool_accepts env (tp_tool p) tool_id
      then Some (case tp_tool p of ExactTool _ \<Rightarrow> 3 | GlobTool _ \<Rightarrow> 2 | RegexTool _ \<Rightarrow> 1) else None)"
    by (simp add: match_tool_def tool_accepts_def split: tool_matcher.split)
  have count: "unat (of_nat (min (length conds) 255) :: u8) = min 255 (length conds)"
    for conds :: "field_condition list"
    by (simp add: unat_of_nat min.commute)
  show ?thesis
  proof (cases "tp_args p")
    case AnyArgs
    then show ?thesis
      by (simp add: pattern_matches_def tool is_match_def args_accept_def conditions_of_def)
  next
    case (Primary op v)
    then show ?thesis
      using op_precision_bounds [of op]
      by (simp add: pattern_matches_def tool is_match_def args_accept_def conditions_of_def)
  next
    case (Fields conds)
    show ?thesis
    proof (cases "match_fields env conds args 0")
      case None
      with Fields show ?thesis
        using match_fields_None_iff [of env conds args 0]
        by (auto simp: pattern_matches_def tool is_match_def args_accept_def)
    next
      case (Some prec)
      then have "\<forall>c \<in> set conds. condition_accepts env args c"
        using match_fields_None_iff [of env conds args 0] by auto
      with Fields Some show ?thesis
        using match_fields_precision [OF Some] count
        by (simp add: pattern_matches_def tool is_match_def args_accept_def conditions_of_def comp_def)
    qed
  qed
qed

theorem pattern_matches_spec_witness:
  "\<not> is_match (pattern_matches
      \<lparr>glob_match = (=), regex_error = (\<lambda>_. None), regex_is_match = (=), json_text = (\<lambda>_. [])\<rparr>
      \<lparr>tp_tool = ExactTool ''Bash'', tp_args = Fields [\<lparr>fc_path = [Field ''cmd''], fc_op = NotExact, fc_value = ''rm''\<rparr>]\<rparr>
      ''Bash'' (JObject []))"
  using pattern_matches_spec by (simp add: args_accept_def condition_accepts_def json_get_def)

section \<open>Wildcards\<close>

definition ascii :: "string \<Rightarrow> bool" where
  "ascii s \<longleftrightarrow> (\<forall>c \<in> set s. of_char c < (128 :: nat))"

definition glob_special :: "char \<Rightarrow> bool" where
  "glob_special c \<longleftrightarrow> c \<in> set ''*?[]{}!,'' \<or> c = CHR 0x5C"

definition glob_literal :: "string \<Rightarrow> bool" where
  "glob_literal s \<longleftrightarrow> (\<forall>c \<in> set s. \<not> glob_special c)"

text \<open>The documented behaviour of the crate on patterns without special characters.\<close>

definition literal_globs :: "pattern_env \<Rightarrow> bool" where
  "literal_globs env \<longleftrightarrow> (\<forall>s v. glob_literal s \<longrightarrow> glob_match env s v = (s = v))"

lemma normalize_literal:
  "glob_literal rest \<Longrightarrow> normalize_from before rest = concat (map push_byte_as_char rest)"
proof (induction rest arbitrary: before)
  case (Cons b rest)
  then have "b \<noteq> CHR ''*''" by (auto simp: glob_literal_def glob_special_def)
  moreover have "glob_literal rest" using Cons.prems by (simp add: glob_literal_def)
  ultimately show ?case using Cons.IH by simp
qed simp

lemma push_ascii: "of_char c < (128 :: nat) \<Longrightarrow> push_byte_as_char c = [c]"
  by (simp add: push_byte_as_char_def)

lemma concat_push_ascii: "ascii s \<Longrightarrow> concat (map push_byte_as_char s) = s"
  by (induction s) (auto simp: ascii_def push_ascii)

lemma length_push: "length (push_byte_as_char c) = (if of_char c < (128 :: nat) then 1 else 2)"
  by (simp add: push_byte_as_char_def Let_def)

lemma length_concat_push:
  "length s \<le> length (concat (map push_byte_as_char s)) \<and>
     (\<not> ascii s \<longrightarrow> length s < length (concat (map push_byte_as_char s)))"
  by (induction s) (auto simp: ascii_def length_push)

lemma push_literal: "glob_literal [c] \<Longrightarrow> glob_literal (push_byte_as_char c)"
proof (cases "of_char c < (128 :: nat)")
  case False
  assume "glob_literal [c]"
  have "of_char c < (256 :: nat)" by simp
  then have "of_char c div 64 < (4 :: nat)" by (rule less_mult_imp_div_less [of _ 4 64, simplified])
  moreover have "of_char c mod 64 < (64 :: nat)" by simp
  ultimately have ge: "\<forall>d \<in> set (push_byte_as_char c). of_char d \<ge> (128 :: nat)"
    using False by (auto simp: push_byte_as_char_def Let_def)
  have "of_char d < (128 :: nat)" if "glob_special d" for d
    using that by (auto simp: glob_special_def)
  with ge show ?thesis unfolding glob_literal_def by (meson linorder_not_less)
qed (simp add: push_ascii)

lemma concat_push_literal: "glob_literal s \<Longrightarrow> glob_literal (concat (map push_byte_as_char s))"
proof (induction s)
  case (Cons c s)
  then have "glob_literal (push_byte_as_char c)" by (intro push_literal) (simp add: glob_literal_def)
  with Cons show ?case by (auto simp: glob_literal_def)
qed (simp add: glob_literal_def)

text \<open>
  Patterns without glob characters. An ASCII pattern matches exactly itself. A pattern with
  a character outside ASCII does not match itself: its bytes are re-encoded one by one before the
  match, so the text that is compared is longer than the pattern.
\<close>
theorem wildcard_match_literal:
  assumes "literal_globs env" "glob_literal p"
  shows "if ascii p then wildcard_match env p v \<longleftrightarrow> v = p else \<not> wildcard_match env p p"
proof -
  have n: "normalize_wildcards p = concat (map push_byte_as_char p)"
    by (simp add: normalize_wildcards_def normalize_literal assms(2))
  have "wildcard_match env p v \<longleftrightarrow> concat (map push_byte_as_char p) = v" for v
    using assms concat_push_literal [OF assms(2)]
    by (simp add: wildcard_match_def n literal_globs_def)
  note * = this
  show ?thesis
  proof (cases "ascii p")
    case True
    with * [of v] concat_push_ascii [OF True] show ?thesis by (metis (full_types))
  next
    case False
    then have "concat (map push_byte_as_char p) \<noteq> p"
      using length_concat_push [of p] by (metis less_irrefl)
    with * [of p] False show ?thesis by simp
  qed
qed

definition literal_env :: pattern_env where
  "literal_env = \<lparr>glob_match = (=), regex_error = (\<lambda>_. None), regex_is_match = (=),
     json_text = (\<lambda>_. [])\<rparr>"

theorem wildcard_match_literal_witness:
  "\<not> wildcard_match literal_env [CHR 0xC3, CHR 0xA9] [CHR 0xC3, CHR 0xA9]"
proof -
  have lit: "glob_literal [CHR 0xC3, CHR 0xA9]" and "\<not> ascii [CHR 0xC3, CHR 0xA9]"
    by code_simp+
  moreover have "literal_globs literal_env" by (simp add: literal_globs_def literal_env_def)
  from wildcard_match_literal [OF this lit, of "[]"] calculation(2) show ?thesis
    by (simp only: if_False not_False_eq_True)
qed

end
