(* ===== verification/Pattern_Parser.thy ===== *)
theory Pattern_Parser
imports Tool_Pattern
begin

text \<open>
  The parser of tool call patterns (\<^verbatim>\<open>remo-tool-pattern/src/parser.rs\<close>). The cursor is the text from
  its position on; an error carries its message and that text, and the position is recovered at the
  end. The text is UTF-8: stepping over a character byte by byte visits the same ASCII characters.
  Slicing off a character boundary is the panic \<open>ParsePanic\<close>.
\<close>

section \<open>The cursor\<close>

datatype parse_failure = ParseError string string | ParsePanic

type_synonym 'a parser = "string \<Rightarrow> parse_failure + ('a \<times> string)"

abbreviation single_quote :: char where "single_quote \<equiv> CHR 0x27"
abbreviation backslash :: char where "backslash \<equiv> CHR 0x5C"

definition skip_whitespace :: "string \<Rightarrow> string" where
  "skip_whitespace s = dropWhile is_ascii_whitespace s"

definition utf8_length :: "char \<Rightarrow> nat" where
  "utf8_length c = (let n = (of_char c :: nat) in
     if n < 128 then 1 else if n < 224 then 2 else if n < 240 then 3 else 4)"

text \<open>The first character of a text that is not empty.\<close>

definition first_char :: "string \<Rightarrow> string" where
  "first_char s = take (utf8_length (hd s)) s"

definition expect_char :: "char \<Rightarrow> unit parser" where
  "expect_char ch s =
     (let s' = skip_whitespace s in
      case s' of
        c # r \<Rightarrow> if c = ch then Inr ((), r)
                  else Inl (ParseError (''expected '' @ quoted [ch] @ '', found '' @ quoted (first_char s')) s')
      | [] \<Rightarrow> Inl (ParseError (''expected '' @ quoted [ch] @ '', found end of input'') s'))"

section \<open>The tool part\<close>

definition cons_body :: "char \<Rightarrow> (string \<times> string) option \<Rightarrow> (string \<times> string) option" where
  "cons_body c r = map_option (\<lambda>(body, rest). (c # body, rest)) r"

text \<open>
  The scan of a regular expression: what it consumes and what is left. An escaped character is
  stepped over as one byte; when it is longer, the next look at the text is off a character
  boundary (\<^const>\<open>None\<close>).
\<close>

fun regex_scan :: "nat \<Rightarrow> string \<Rightarrow> (string \<times> string) option" where
  "regex_scan depth [] = Some ([], [])"
| "regex_scan depth (c # cs) =
     (if c = backslash then
        (case cs of
           [] \<Rightarrow> Some ([c], [])
         | e # es \<Rightarrow> if utf8_length e > 1 then None
                      else cons_body c (cons_body e (regex_scan depth es)))
      else if c = CHR ''('' then cons_body c (regex_scan (depth + 1) cs)
      else if c = CHR '')'' then cons_body c (regex_scan (depth - 1) cs)
      else if c = CHR ''/'' \<and> depth = 0 then Some ([], c # cs)
      else cons_body c (regex_scan depth cs))"

definition has_glob_chars :: "string \<Rightarrow> bool" where
  "has_glob_chars s \<longleftrightarrow> CHR ''*'' \<in> set s \<or> CHR ''?'' \<in> set s \<or> CHR ''['' \<in> set s"

definition name_char :: "char \<Rightarrow> bool" where
  "name_char c \<longleftrightarrow> \<not> (c = CHR ''('' \<or> is_ascii_whitespace c)"

text \<open>
  The cursor of the code is a text and a byte position in it; here it is the rest of the text. All its moves
  are by whole characters, except the step over an escaped one in the scan of a regular expression, so that
  is the only place where slicing at the position can panic: \<open>regex_scan\<close> is \<^const>\<open>None\<close> exactly when
  the step ends within a character.
\<close>

definition parse_tool_part :: "pattern_env \<Rightarrow> tool_matcher parser" where
  "parse_tool_part env s0 =
     (let s = skip_whitespace s0 in
      if s \<noteq> [] \<and> hd s = CHR ''/'' then
        (case regex_scan 0 (tl s) of
           None \<Rightarrow> Inl ParsePanic
         | Some (body, rest) \<Rightarrow>
             if body = [] then Inl (ParseError ''empty regex pattern'' rest)
             else (case expect_char (CHR ''/'') rest of
                 Inl e \<Rightarrow> Inl e
               | Inr (_, rest') \<Rightarrow> (case regex_error env body of
                   Some e \<Rightarrow> Inl (ParseError (''invalid regex: '' @ e) rest')
                 | None \<Rightarrow> Inr (RegexTool body, rest'))))
      else
        let name = takeWhile name_char s; rest = dropWhile name_char s in
        if name = [] then Inl (ParseError ''empty tool name'' rest)
        else if has_glob_chars name then Inr (GlobTool name, rest)
        else Inr (ExactTool name, rest))"

section \<open>Field conditions\<close>

definition is_path_char :: "char \<Rightarrow> bool" where
  "is_path_char c \<longleftrightarrow> is_ascii_alphanumeric c \<or> c = CHR ''_'' \<or> c = CHR ''.''"

function skip_path :: "string \<Rightarrow> string" where
  "skip_path [] = []"
| "skip_path (c # cs) =
     (if is_path_char c then skip_path cs
      else if c = CHR ''['' then skip_path (drop 1 (dropWhile (\<lambda>d. d \<noteq> CHR '']'') cs))
      else if c = CHR ''*'' then
        (if cs \<noteq> [] \<and> (hd cs = CHR ''.'' \<or> hd cs = CHR ''['') then skip_path cs else cs)
      else c # cs)"
  by pat_completeness auto
termination
  by (relation "measure length") (auto simp: le_imp_less_Suc length_dropWhile_le diff_le_self
      intro: le_less_trans [OF diff_le_self])

definition looks_like_field_conditions :: "string \<Rightarrow> bool" where
  "looks_like_field_conditions s =
     (let remaining = skip_whitespace (skip_path (trim s)) in
      starts_with remaining ''~'' \<or> starts_with remaining ''='' \<or>
      starts_with remaining ''!~'' \<or> starts_with remaining ''!='')"

definition is_ident_char :: "char \<Rightarrow> bool" where
  "is_ident_char c \<longleftrightarrow> is_ascii_alphanumeric c \<or> c = CHR ''_'' \<or> c = CHR ''-''"

definition parse_identifier :: "string parser" where
  "parse_identifier s =
     (let ident = takeWhile is_ident_char s; rest = dropWhile is_ident_char s in
      if ident = [] then Inl (ParseError ''expected identifier'' rest) else Inr (ident, rest))"

definition parse_usize :: "nat parser" where
  "parse_usize s =
     (let digits = takeWhile is_ascii_digit s; rest = dropWhile is_ascii_digit s in
      if digits = [] \<or> read_nat digits \<ge> 2 ^ 64 then
        Inl (ParseError (''invalid index: '' @ quoted digits) rest)
      else Inr (read_nat digits, rest))"

definition parse_index :: "path_segment parser" where
  "parse_index s0 =
     (let s = skip_whitespace s0;
          seg = (if s \<noteq> [] \<and> hd s = CHR ''*'' then Inr (AnyIndex, tl s)
                 else case parse_usize s of Inl e \<Rightarrow> Inl e | Inr (i, r) \<Rightarrow> Inr (Index i, r))
      in case seg of
           Inl e \<Rightarrow> Inl e
         | Inr (x, r) \<Rightarrow> (case expect_char (CHR '']'') r of Inl e \<Rightarrow> Inl e | Inr (_, r') \<Rightarrow> Inr (x, r')))"

lemma skip_whitespace_length: "length (skip_whitespace s) \<le> length s"
  by (simp add: skip_whitespace_def length_dropWhile_le)

lemma expect_char_shorter: "expect_char ch s = Inr (u, r) \<Longrightarrow> length r < length s"
  using skip_whitespace_length [of s]
  by (cases "skip_whitespace s") (auto simp: expect_char_def Let_def split: if_splits)

lemma parse_usize_length: "parse_usize s = Inr (i, r) \<Longrightarrow> length r \<le> length s"
  by (auto simp: parse_usize_def Let_def length_dropWhile_le split: if_splits)

lemma parse_index_shorter:
  assumes "parse_index s = Inr (x, r)"
  shows "length r < length s"
proof -
  let ?s = "skip_whitespace s"
  from assms obtain r' where "expect_char (CHR '']'') r' = Inr ((), r)" "length r' \<le> length ?s"
    by (auto simp: parse_index_def Let_def parse_usize_length split: if_splits sum.splits prod.splits)
  then show ?thesis
    using expect_char_shorter [of "CHR '']''" r' "()" r] skip_whitespace_length [of s] by simp
qed

text \<open>The indices after a segment.\<close>

function parse_indices :: "path_segment list parser" where
  "parse_indices s =
     (if s \<noteq> [] \<and> hd s = CHR ''['' then
        (case parse_index (tl s) of
           Inl e \<Rightarrow> Inl e
         | Inr (x, r) \<Rightarrow> (case parse_indices r of Inl e \<Rightarrow> Inl e | Inr (xs, r') \<Rightarrow> Inr (x # xs, r')))
      else Inr ([], s))"
  by pat_completeness auto
termination
  by (relation "measure length") (fastforce dest: parse_index_shorter)+

declare parse_indices.simps [simp del]

lemma parse_indices_length: "parse_indices s = Inr (xs, r) \<Longrightarrow> length r \<le> length s"
proof (induction s arbitrary: xs r rule: parse_indices.induct)
  case (1 s)
  show ?case
  proof (cases "s \<noteq> [] \<and> hd s = CHR ''[''")
    case True
    with "1.prems" obtain x r1 ys where i: "parse_index (tl s) = Inr (x, r1)"
        "parse_indices r1 = Inr (ys, r)"
      by (subst (asm) parse_indices.simps) (auto split: sum.splits prod.splits)
    with "1.IH" [OF True i(1) refl, of ys r] parse_index_shorter [OF i(1)] True show ?thesis
      by (cases s) auto
  next
    case False
    with "1.prems" show ?thesis by (subst (asm) parse_indices.simps) (auto split: if_splits)
  qed
qed

definition parse_segment :: "path_segment parser" where
  "parse_segment s0 =
     (let s = skip_whitespace s0 in
      if s \<noteq> [] \<and> hd s = CHR ''*'' then Inr (Wildcard, tl s)
      else case parse_identifier s of Inl e \<Rightarrow> Inl e | Inr (ident, r) \<Rightarrow> Inr (Field ident, r))"

lemma parse_segment_length: "parse_segment s = Inr (x, r) \<Longrightarrow> length r \<le> length s"
  using skip_whitespace_length [of s] length_dropWhile_le [of is_ident_char "skip_whitespace s"]
  by (auto simp: parse_segment_def parse_identifier_def Let_def split: if_splits)

function parse_field_path :: "path_segment list parser" where
  "parse_field_path s =
     (case parse_segment s of Inl e \<Rightarrow> Inl e | Inr (seg, r) \<Rightarrow>
      case parse_indices r of Inl e \<Rightarrow> Inl e | Inr (idx, r1) \<Rightarrow>
      if r1 \<noteq> [] \<and> hd r1 = CHR ''.'' then
        (case parse_field_path (tl r1) of Inl e \<Rightarrow> Inl e | Inr (segs, r2) \<Rightarrow> Inr (seg # idx @ segs, r2))
      else Inr (seg # idx, r1))"
  by pat_completeness auto
termination
proof (relation "measure length")
  fix s y seg r z idx r1
  assume "parse_segment s = Inr y" "(seg, r) = y" "parse_indices r = Inr z" "(idx, r1) = z"
    "r1 \<noteq> [] \<and> hd r1 = CHR ''.''"
  then have "length r \<le> length s" "length r1 \<le> length r" "r1 \<noteq> []"
    using parse_segment_length parse_indices_length by auto
  then show "(tl r1, s) \<in> measure length" by (cases r1) auto
qed simp

declare parse_field_path.simps [simp del]

definition parse_match_op :: "match_op parser" where
  "parse_match_op s =
     (if starts_with s ''!=~'' then Inr (NotRegex, drop 3 s)
      else if starts_with s ''!='' then Inr (NotExact, drop 2 s)
      else if starts_with s ''!~'' then Inr (NotGlob, drop 2 s)
      else if starts_with s ''=~'' then Inr (Regex, drop 2 s)
      else if starts_with s ''~'' then Inr (Glob, drop 1 s)
      else if starts_with s ''='' then Inr (Exact, drop 1 s)
      else Inl (ParseError ''expected operator: ~, =, =~, !~, !=, or !=~'' s))"

definition prepend :: "string \<Rightarrow> parse_failure + (string \<times> string) \<Rightarrow> parse_failure + (string \<times> string)" where
  "prepend p r = (case r of Inl e \<Rightarrow> Inl e | Inr (v, rest) \<Rightarrow> Inr (p @ v, rest))"

fun parse_quoted_body :: "string parser" where
  "parse_quoted_body [] = Inl (ParseError ''unterminated string literal'' [])"
| "parse_quoted_body (c # cs) =
     (if c = double_quote then Inr ([], cs)
      else if c = backslash then
        (case cs of
           [] \<Rightarrow> Inl (ParseError ''unterminated escape sequence'' [])
         | e # es \<Rightarrow>
             if e = double_quote \<or> e = backslash then prepend [e] (parse_quoted_body es)
             else prepend [c, e] (parse_quoted_body es))
      else prepend [c] (parse_quoted_body cs))"

definition parse_quoted_value :: "string parser" where
  "parse_quoted_value s0 =
     (let s = skip_whitespace s0 in
      if s \<noteq> [] \<and> hd s = double_quote then parse_quoted_body (tl s)
      else Inl (ParseError (''expected '' @ quoted [double_quote] @ '' to start value'') s))"

definition parse_single_field_condition :: "field_condition parser" where
  "parse_single_field_condition s =
     (case parse_field_path (skip_whitespace s) of Inl e \<Rightarrow> Inl e | Inr (path, r) \<Rightarrow>
      case parse_match_op (skip_whitespace r) of Inl e \<Rightarrow> Inl e | Inr (op, r1) \<Rightarrow>
      case parse_quoted_value (skip_whitespace r1) of Inl e \<Rightarrow> Inl e | Inr (v, r2) \<Rightarrow>
        Inr (\<lparr>fc_path = path, fc_op = op, fc_value = v\<rparr>, r2))"

section \<open>Argument part and pattern\<close>

lemma expect_op_shorter: "parse_match_op s = Inr (op, r) \<Longrightarrow> length r < length s"
  by (cases s) (auto simp: parse_match_op_def starts_with_def split: if_splits)

lemma prepend_Inr: "prepend p r = Inr (v, rest) \<longleftrightarrow> (\<exists>w. r = Inr (w, rest) \<and> v = p @ w)"
  by (cases r) (auto simp: prepend_def)

lemma parse_quoted_body_length: "parse_quoted_body s = Inr (v, r) \<Longrightarrow> length r \<le> length s"
  by (induction s arbitrary: v rule: parse_quoted_body.induct)
    (fastforce simp: prepend_Inr split: if_splits list.splits)+

lemma parse_quoted_value_length:
  assumes "parse_quoted_value s = Inr (v, r)"
  shows "length r \<le> length s"
proof -
  let ?s = "skip_whitespace s"
  from assms have "parse_quoted_body (tl ?s) = Inr (v, r)"
    by (auto simp: parse_quoted_value_def Let_def split: if_splits)
  from parse_quoted_body_length [OF this] skip_whitespace_length [of s] show ?thesis by simp
qed

lemma parse_field_path_length: "parse_field_path s = Inr (p, r) \<Longrightarrow> length r \<le> length s"
proof (induction s arbitrary: p r rule: parse_field_path.induct)
  case (1 s)
  from "1.prems" obtain seg r0 idx r1 where seg: "parse_segment s = Inr (seg, r0)"
      and idx: "parse_indices r0 = Inr (idx, r1)"
    by (subst (asm) parse_field_path.simps) (auto split: sum.splits prod.splits)
  have le: "length r1 \<le> length s"
    using parse_segment_length [OF seg] parse_indices_length [OF idx] by simp
  show ?case
  proof (cases "r1 \<noteq> [] \<and> hd r1 = CHR ''.''")
    case True
    with "1.prems" seg idx obtain ys where "parse_field_path (tl r1) = Inr (ys, r)"
      by (subst (asm) parse_field_path.simps) (auto split: sum.splits prod.splits)
    with "1.IH" [OF seg refl idx refl True, of ys r] le show ?thesis by simp
  next
    case False
    with "1.prems" seg idx le show ?thesis
      by (subst (asm) parse_field_path.simps) (auto split: if_splits)
  qed
qed

lemma parse_condition_shorter:
  assumes "parse_single_field_condition s = Inr (c, r)"
  shows "length r < length s"
proof -
  from assms obtain path r0 op r1 v where
    "parse_field_path (skip_whitespace s) = Inr (path, r0)"
    "parse_match_op (skip_whitespace r0) = Inr (op, r1)"
    "parse_quoted_value (skip_whitespace r1) = Inr (v, r)"
    by (auto simp: parse_single_field_condition_def split: sum.splits prod.splits)
  note steps = parse_field_path_length [OF this(1)] expect_op_shorter [OF this(2)]
    parse_quoted_value_length [OF this(3)]
  show ?thesis
    using steps skip_whitespace_length [of s] skip_whitespace_length [of r0]
      skip_whitespace_length [of r1] by linarith
qed

function parse_field_conditions :: "field_condition list parser" where
  "parse_field_conditions s =
     (case parse_single_field_condition (skip_whitespace s) of Inl e \<Rightarrow> Inl e | Inr (c, r) \<Rightarrow>
      let r1 = skip_whitespace r in
      if r1 \<noteq> [] \<and> hd r1 = CHR '','' then
        (case parse_field_conditions (tl r1) of Inl e \<Rightarrow> Inl e | Inr (cs, r2) \<Rightarrow> Inr (c # cs, r2))
      else Inr ([c], r1))"
  by pat_completeness auto
termination
proof (relation "measure length")
  fix s y c r r1
  assume "parse_single_field_condition (skip_whitespace s) = Inr y" "(c, r) = y"
    "r1 = skip_whitespace r" "r1 \<noteq> [] \<and> hd r1 = CHR '',''"
  then have "length r < length (skip_whitespace s)" "length r1 \<le> length r"
    using parse_condition_shorter skip_whitespace_length by auto
  then show "(tl r1, s) \<in> measure length" using skip_whitespace_length [of s] by simp
qed simp

declare parse_field_conditions.simps [simp del]

text \<open>What a primary pattern consumes: up to the closing parenthesis that matches.\<close>

fun primary_scan :: "nat \<Rightarrow> string \<Rightarrow> string \<times> string" where
  "primary_scan depth [] = ([], [])"
| "primary_scan depth (c # cs) =
     (if c = CHR ''('' then apfst ((#) c) (primary_scan (depth + 1) cs)
      else if c = CHR '')'' then
        (if depth > 0 then apfst ((#) c) (primary_scan (depth - 1) cs) else ([], c # cs))
      else apfst ((#) c) (primary_scan depth cs))"

definition parse_primary_value :: "arg_matcher parser" where
  "parse_primary_value s =
     (case primary_scan 0 (skip_whitespace s) of (consumed, rest) \<Rightarrow>
      let v = trim consumed in
      if v = [] then Inl (ParseError ''empty primary pattern'' rest) else Inr (Primary Glob v, rest))"

text \<open>
  \<^verbatim>\<open>remaining().get(1..2)\<close> is missing at the end of the text and before a character of several
  bytes.
\<close>

definition any_args_follow :: "string \<Rightarrow> bool" where
  "any_args_follow r \<longleftrightarrow> r = [] \<or> utf8_length (hd r) > 1 \<or> hd r = CHR '')'' \<or> is_ascii_whitespace (hd r)"

definition parse_arg_part :: "arg_matcher parser" where
  "parse_arg_part s0 =
     (let s = skip_whitespace s0 in
      if s \<noteq> [] \<and> hd s = CHR ''*'' \<and> any_args_follow (tl s) then Inr (AnyArgs, skip_whitespace (tl s))
      else if looks_like_field_conditions s then
        (case parse_field_conditions s of Inl e \<Rightarrow> Inl e | Inr (cs, r) \<Rightarrow> Inr (Fields cs, r))
      else parse_primary_value s)"

definition parse_at_cursor :: "pattern_env \<Rightarrow> tool_call_pattern parser" where
  "parse_at_cursor env s =
     (case parse_tool_part env s of Inl e \<Rightarrow> Inl e | Inr (tool, r0) \<Rightarrow>
      let r1 = skip_whitespace r0;
          args = (if r1 \<noteq> [] \<and> hd r1 = CHR ''('' then
                    (case parse_arg_part (tl r1) of Inl e \<Rightarrow> Inl e | Inr (a, r2) \<Rightarrow>
                     case expect_char (CHR '')'') r2 of Inl e \<Rightarrow> Inl e | Inr (_, r3) \<Rightarrow> Inr (a, r3))
                  else Inr (AnyArgs, r1))
      in case args of
           Inl e \<Rightarrow> Inl e
         | Inr (a, r4) \<Rightarrow>
             let r5 = skip_whitespace r4 in
             if r5 \<noteq> [] then Inl (ParseError (''unexpected trailing: '' @ quoted r5) r5)
             else Inr (\<lparr>tp_tool = tool, tp_args = a\<rparr>, r5))"

datatype parse_outcome = Parsed tool_call_pattern | ParseFailed string nat | ParsePanicked

definition parse_pattern :: "pattern_env \<Rightarrow> string \<Rightarrow> parse_outcome" where
  "parse_pattern env input =
     (let text = trim input in
      case parse_at_cursor env text of
        Inl (ParseError message rest) \<Rightarrow> ParseFailed message (length text - length rest)
      | Inl ParsePanic \<Rightarrow> ParsePanicked
      | Inr (p, _) \<Rightarrow> Parsed p)"

end
