(* ===== verification/Agent_Event.thy ===== *)
theory Agent_Event
imports Lifecycle Tool_Pattern
begin

text \<open>
  The events a run streams to its observers (\<^verbatim>\<open>remo-runtime-contract/src/contract/event.rs\<close>) with the
  data they carry: run identities (\<^verbatim>\<open>identity.rs\<close>), tool results (\<^verbatim>\<open>tool.rs\<close>), suspension tickets
  (\<^verbatim>\<open>suspension.rs\<close>) and token usage (\<^verbatim>\<open>inference.rs\<close>); and the contract of the encoders that turn the
  stream into the events of a protocol (\<^verbatim>\<open>remo-server/src/protocols/shared.rs\<close>).

  The metadata of a tool result is a hash map of which only the emptiness and the JSON object made
  of it are read; it is given in the key order of that object.
\<close>

section \<open>Run identities\<close>

datatype run_origin = OriginUser | OriginMcp | OriginSubagent | OriginInternal

datatype run_mode = RunForeground | RunScheduled | RunResume | RunInternalWake

datatype adapter_kind = AdapterInternal | AdapterAcp | AdapterAiSdk | AdapterAgUi | AdapterA2a | AdapterMcp

record run_ref =
  rr_thread_id :: string
  rr_parent_thread_id :: "string option"
  rr_run_id :: string
  rr_parent_run_id :: "string option"
  rr_agent_id :: string
  rr_parent_tool_call_id :: "string option"

record run_trace =
  rtr_dispatch_id :: "string option"
  rtr_session_id :: "string option"
  rtr_transport_request_id :: "string option"

record run_execution_context =
  rx_origin :: run_origin
  rx_run_mode :: run_mode
  rx_adapter :: adapter_kind

record run_identity =
  ri_run :: run_ref
  ri_trace :: run_trace
  ri_execution :: run_execution_context

section \<open>Tool results\<close>

record suspension =
  suspension_id :: string
  suspension_action :: string
  suspension_message :: string
  suspension_parameters :: json
  response_schema :: "json option"

record pending_tool_call =
  pending_id :: string
  pending_name :: string
  pending_arguments :: json

record suspend_ticket =
  ticket_suspension :: suspension
  ticket_pending :: pending_tool_call
  ticket_resume_mode :: tool_call_resume_mode

datatype tool_status = ToolSuccess | ToolPending | ToolError

record tool_result =
  tr_tool_name :: string
  tr_status :: tool_status
  tr_data :: json
  tr_message :: "string option"
  tr_suspension :: "suspend_ticket option"
  tr_metadata :: "(string \<times> json) list"

datatype tool_call_outcome = OutcomeSuspended | OutcomeSucceeded | OutcomeFailed

definition outcome_from_tool_result :: "tool_result \<Rightarrow> tool_call_outcome" where
  "outcome_from_tool_result r = (case tr_status r of
      ToolPending \<Rightarrow> OutcomeSuspended
    | ToolError \<Rightarrow> OutcomeFailed
    | ToolSuccess \<Rightarrow> OutcomeSucceeded)"

record token_usage =
  tu_prompt_tokens :: "32 word option"
  tu_completion_tokens :: "32 word option"
  tu_total_tokens :: "32 word option"
  tu_cache_read_tokens :: "32 word option"
  tu_cache_creation_tokens :: "32 word option"
  tu_thinking_tokens :: "32 word option"

section \<open>Events\<close>

datatype agent_event =
    EvRunStart string string "string option" "run_identity option"
  | EvRunFinish string string "run_identity option" "json option" termination_reason
  | EvTextDelta string
  | EvReasoningDelta string
  | EvToolCallStart string string
  | EvToolCallDelta string string
  | EvToolCallReady string string json
  | EvToolCallDone string string tool_result tool_call_outcome
  | EvToolCallStreamDelta string string string
  | EvReasoningEncryptedValue string
  | EvMessagesSnapshot "json list"
  | EvActivitySnapshot string string json "bool option"
  | EvActivityDelta string string "json list"
  | EvToolCallResumed string json
  | EvToolCallCancel string string string
  | EvStreamReset string
  | EvStepStart string
  | EvStepEnd
  | EvInferenceComplete string "token_usage option" u64
  | EvStateSnapshot json
  | EvStateDelta "json list"
  | EvError string "string option"

fun event_is_terminal :: "agent_event \<Rightarrow> bool" where
  "event_is_terminal (EvRunFinish _ _ _ _ _) = True"
| "event_is_terminal (EvError _ _) = True"
| "event_is_terminal _ = False"

fun event_is_run_start :: "agent_event \<Rightarrow> bool" where
  "event_is_run_start (EvRunStart _ _ _ _) = True"
| "event_is_run_start _ = False"

lemma run_start_not_terminal [simp]: "event_is_run_start e \<Longrightarrow> \<not> event_is_terminal e"
  by (cases e) auto

fun json_str :: "json \<Rightarrow> string option" where
  "json_str (JString s) = Some s"
| "json_str _ = None"

definition extract_response :: "json option \<Rightarrow> string" where
  "extract_response r = (case Option.bind (Option.bind r (\<lambda>v. json_get v ''response'')) json_str of
      None \<Rightarrow> [] | Some s \<Rightarrow> s)"

section \<open>What the encoders share\<close>

datatype resumed_outcome = ResumedError string | ResumedDenied | ResumedSuccess

definition classify_resumed_result :: "json \<Rightarrow> resumed_outcome" where
  "classify_resumed_result r = (case Option.bind (json_get r ''error'') json_str of
      Some e \<Rightarrow> ResumedError e
    | None \<Rightarrow> if json_get r ''approved'' = Some (JBool False) then ResumedDenied else ResumedSuccess)"

text \<open>
  An encoder processes one event of the agent at a time and yields events of its protocol. \<open>'c\<close> is
  what a step takes from outside (the iteration order of its hash maps).
\<close>

fun encode_run :: "('c \<Rightarrow> agent_event \<Rightarrow> 's \<Rightarrow> 'e list \<times> 's) \<Rightarrow> ('c \<times> agent_event) list \<Rightarrow> 's \<Rightarrow> 'e list \<times> 's" where
  "encode_run encode [] s = ([], s)"
| "encode_run encode ((c, e) # es) s =
     (let (out, s1) = encode c e s; (outs, s2) = encode_run encode es s1 in (out @ outs, s2))"

lemma encode_run_append:
  "encode_run encode (es @ fs) s =
     (fst (encode_run encode es s) @ fst (encode_run encode fs (snd (encode_run encode es s))),
      snd (encode_run encode fs (snd (encode_run encode es s))))"
  by (induction encode es s rule: encode_run.induct) (auto simp: Let_def split: prod.splits)

text \<open>
  The contract of the terminal guard: after a terminal event nothing is emitted until a new run
  starts.
\<close>

locale guarded_encoder =
  fixes encode :: "'c \<Rightarrow> agent_event \<Rightarrow> 's \<Rightarrow> 'e list \<times> 's"
    and finished :: "'s \<Rightarrow> bool"
  assumes guard_law: "finished s \<Longrightarrow> \<not> event_is_run_start e \<Longrightarrow> encode c e s = ([], s)"
    and finish_law: "\<not> finished s \<or> event_is_run_start e \<Longrightarrow> finished (snd (encode c e s)) = event_is_terminal e"
begin

lemma silent: "finished s \<Longrightarrow> \<forall>(c, e) \<in> set es. \<not> event_is_run_start e \<Longrightarrow> encode_run encode es s = ([], s)"
  by (induction es) (auto simp: guard_law)

lemma finished_after_terminal: "event_is_terminal e \<Longrightarrow> finished (snd (encode c e s))"
  using guard_law [of s e c] finish_law [of s e c]
  by (cases "finished s"; cases "event_is_run_start e") auto

text \<open>What follows a terminal event, up to the next start of a run, is as if it had not come.\<close>

lemma nothing_after_terminal:
  assumes "event_is_terminal e" "\<forall>(c, e) \<in> set fs. \<not> event_is_run_start e"
  shows "encode_run encode (es @ (c, e) # fs) s = encode_run encode (es @ [(c, e)]) s"
proof -
  let ?s = "snd (encode_run encode es s)"
  have "encode_run encode fs (snd (encode c e ?s)) = ([], snd (encode c e ?s))"
    by (rule silent [OF finished_after_terminal [OF assms(1)] assms(2)])
  then show ?thesis by (auto simp add: encode_run_append Let_def split: prod.splits)
qed

end

end
