(* ===== verification/Permission.thy ===== *)
theory Permission
imports Pattern_Parser Agent_Event
begin

text \<open>
  The permission extension (\<^verbatim>\<open>remo-ext-permission/src\<close>): the rules and their evaluation for a tool call
  (\<^verbatim>\<open>rules.rs\<close>), the policy and override states with their reducers (\<^verbatim>\<open>state.rs\<close>, \<^verbatim>\<open>actions.rs\<close>), the
  configuration (\<^verbatim>\<open>config.rs\<close>, \<^verbatim>\<open>plugin/plugin.rs\<close>), and the two hooks that enforce the decision
  (\<^verbatim>\<open>plugin/checker.rs\<close>, \<^verbatim>\<open>plugin/filter.rs\<close>).

  \<^verbatim>\<open>HashMap\<close> iteration takes the order of the keys as an argument. A reducer parses patterns, which may
  panic: its result is \<^const>\<open>None\<close> then.
\<close>

section \<open>Rules\<close>

datatype behavior = Allow | Ask | Deny

datatype permission_subject = ToolSubject string | PatternSubject tool_call_pattern

definition subject_key :: "permission_subject \<Rightarrow> string" where
  "subject_key subject = (case subject of
      ToolSubject tool_id \<Rightarrow> ''tool:'' @ tool_id
    | PatternSubject p \<Rightarrow> ''pattern:'' @ show_pattern p)"

definition subject_matches_tool :: "pattern_env \<Rightarrow> permission_subject \<Rightarrow> string \<Rightarrow> bool" where
  "subject_matches_tool env subject tool_id = (case subject of
      ToolSubject t \<Rightarrow> t = tool_id
    | PatternSubject p \<Rightarrow> is_match (pattern_matches env p tool_id JNull))"

definition subject_matches_tool_call ::
    "pattern_env \<Rightarrow> permission_subject \<Rightarrow> string \<Rightarrow> json \<Rightarrow> specificity option" where
  "subject_matches_tool_call env subject tool_id args = (case subject of
      ToolSubject t \<Rightarrow> if t = tool_id then Some (Specificity 3 False 0 0) else None
    | PatternSubject p \<Rightarrow>
        (case pattern_matches env p tool_id args of Match s \<Rightarrow> Some s | NoMatch \<Rightarrow> None))"

datatype rule_scope = ScopeOnce | ScopeSession | ScopeThread | ScopeProject | ScopeUser

datatype rule_source = SourceSystem | SourceDefinition | SourceSkill | SourceSession | SourceUser
  | SourceCli | SourceRuntime

record permission_rule =
  rule_subject :: permission_subject
  rule_behavior :: behavior
  rule_scope_of :: rule_scope
  rule_source_of :: rule_source

definition rule_new_tool :: "string \<Rightarrow> behavior \<Rightarrow> permission_rule" where
  "rule_new_tool tool_id b = \<lparr>rule_subject = ToolSubject tool_id, rule_behavior = b,
     rule_scope_of = ScopeThread, rule_source_of = SourceRuntime\<rparr>"

definition rule_new_pattern :: "tool_call_pattern \<Rightarrow> behavior \<Rightarrow> permission_rule" where
  "rule_new_pattern p b = \<lparr>rule_subject = PatternSubject p, rule_behavior = b,
     rule_scope_of = ScopeThread, rule_source_of = SourceRuntime\<rparr>"

definition rule_with_scope :: "rule_scope \<Rightarrow> permission_rule \<Rightarrow> permission_rule" where
  "rule_with_scope s r = r\<lparr>rule_scope_of := s\<rparr>"

definition rule_with_source :: "rule_source \<Rightarrow> permission_rule \<Rightarrow> permission_rule" where
  "rule_with_source s r = r\<lparr>rule_source_of := s\<rparr>"

type_synonym rule_map = "string \<rightharpoonup> permission_rule"

record permission_ruleset =
  default_behavior :: behavior
  rules :: rule_map

section \<open>Evaluation\<close>

definition behavior_priority :: "behavior \<Rightarrow> u8" where
  "behavior_priority b = (case b of Deny \<Rightarrow> 2 | Allow \<Rightarrow> 1 | Ask \<Rightarrow> 0)"

text \<open>\<^verbatim>\<open>Iterator::max_by\<close> keeps the last of several maximal elements.\<close>

fun max_by :: "('a \<Rightarrow> 'k :: linorder) \<Rightarrow> 'a list \<Rightarrow> 'a option" where
  "max_by key [] = None"
| "max_by key (x # xs) = Some (foldl (\<lambda>a b. if key b < key a then a else b) x xs)"

definition rule_rank :: "permission_rule \<times> specificity \<Rightarrow> u8 \<times> specificity" where
  "rule_rank m = (behavior_priority (rule_behavior (fst m)), snd m)"

definition matching_rules ::
    "pattern_env \<Rightarrow> permission_rule list \<Rightarrow> string \<Rightarrow> json \<Rightarrow> (permission_rule \<times> specificity) list" where
  "matching_rules env rs tool_id args =
     List.map_filter (\<lambda>rule. map_option (Pair rule)
       (subject_matches_tool_call env (rule_subject rule) tool_id args)) rs"

definition rule_for_tool ::
    "string list \<Rightarrow> pattern_env \<Rightarrow> permission_ruleset \<Rightarrow> string \<Rightarrow> permission_rule option" where
  "rule_for_tool ord env rs tool_id =
     find (\<lambda>rule. subject_matches_tool env (rule_subject rule) tool_id) (hm_values ord (rules rs))"

definition rule_for_tool_call ::
    "string list \<Rightarrow> pattern_env \<Rightarrow> permission_ruleset \<Rightarrow> string \<Rightarrow> json \<Rightarrow> permission_rule option" where
  "rule_for_tool_call ord env rs tool_id args =
     map_option fst (max_by rule_rank (matching_rules env (hm_values ord (rules rs)) tool_id args))"

record permission_evaluation =
  eval_subject :: permission_subject
  eval_behavior :: behavior
  matched_rule :: "permission_rule option"

definition evaluate_tool_permission ::
    "string list \<Rightarrow> pattern_env \<Rightarrow> permission_ruleset \<Rightarrow> string \<Rightarrow> json \<Rightarrow> permission_evaluation" where
  "evaluate_tool_permission ord env rs tool_id args =
     (let matched = rule_for_tool_call ord env rs tool_id args in
      \<lparr>eval_subject = ToolSubject tool_id,
       eval_behavior = (case matched of None \<Rightarrow> default_behavior rs | Some r \<Rightarrow> rule_behavior r),
       matched_rule = matched\<rparr>)"

section \<open>Unconditional denials\<close>

text \<open>The tool id of a denial of an exact tool with any arguments.\<close>

definition exact_denial :: "permission_rule \<Rightarrow> string option" where
  "exact_denial rule = (case rule_subject rule of
      ToolSubject tool_id \<Rightarrow> Some tool_id
    | PatternSubject p \<Rightarrow>
        (case tp_tool p of
           ExactTool name \<Rightarrow> (if tp_args p = AnyArgs then Some name else None)
         | _ \<Rightarrow> None))"

definition unconditionally_denied_tools :: "string list \<Rightarrow> permission_ruleset \<Rightarrow> string list" where
  "unconditionally_denied_tools ord rs =
     List.map_filter exact_denial
       (filter (\<lambda>rule. rule_behavior rule = Deny) (hm_values ord (rules rs)))"

text \<open>The tool ids a rule adds to the set: those of the registry its pattern matches.\<close>

definition expanded_denials :: "pattern_env \<Rightarrow> string list \<Rightarrow> permission_rule \<Rightarrow> string set" where
  "expanded_denials env tool_ids rule =
     (if rule_behavior rule \<noteq> Deny then {}
      else case rule_subject rule of
        ToolSubject _ \<Rightarrow> {}
      | PatternSubject p \<Rightarrow>
          if tp_args p \<noteq> AnyArgs then {}
          else if (case tp_tool p of ExactTool _ \<Rightarrow> True | _ \<Rightarrow> False) then {}
          else set (filter (subject_matches_tool env (rule_subject rule)) tool_ids))"

definition unconditionally_denied_against ::
    "string list \<Rightarrow> pattern_env \<Rightarrow> permission_ruleset \<Rightarrow> string list \<Rightarrow> string set" where
  "unconditionally_denied_against ord env rs tool_ids =
     (let denied = set (unconditionally_denied_tools ord rs) in
      if tool_ids = [] then denied
      else foldl (\<lambda>d rule. d \<union> expanded_denials env tool_ids rule) denied (hm_values ord (rules rs)))"

section \<open>Actions and reducers\<close>

datatype permission_action =
    SetDefault behavior
  | SetTool string behavior
  | SetRule string behavior
  | RemoveTool string
  | RemoveRule string
  | ClearTools
  | AllowTool string
  | DenyTool string

record permission_policy =
  policy_default :: behavior
  policy_rules :: rule_map

record permission_overrides =
  override_rules :: rule_map

definition initial_policy :: permission_policy where
  "initial_policy = \<lparr>policy_default = Ask, policy_rules = Map.empty\<rparr>"

definition initial_overrides :: permission_overrides where
  "initial_overrides = \<lparr>override_rules = Map.empty\<rparr>"

definition upsert_tool_rule :: "string \<Rightarrow> behavior \<Rightarrow> rule_source \<Rightarrow> rule_map \<Rightarrow> rule_map" where
  "upsert_tool_rule tool_id b source rm =
     (let rule = rule_with_source source (rule_with_scope ScopeThread (rule_new_tool tool_id b))
      in rm(subject_key (rule_subject rule) \<mapsto> rule))"

definition upsert_pattern_rule ::
    "pattern_env \<Rightarrow> string \<Rightarrow> behavior \<Rightarrow> rule_source \<Rightarrow> rule_map \<Rightarrow> rule_map option" where
  "upsert_pattern_rule env text b source rm = (case parse_pattern env text of
      Parsed p \<Rightarrow>
        let rule = rule_with_source source (rule_with_scope ScopeThread (rule_new_pattern p b))
        in Some (rm(subject_key (rule_subject rule) \<mapsto> rule))
    | ParseFailed _ _ \<Rightarrow> Some rm
    | ParsePanicked \<Rightarrow> None)"

definition reduce_permission_action ::
    "pattern_env \<Rightarrow> permission_action \<Rightarrow> rule_source \<Rightarrow> rule_map \<Rightarrow> rule_map option" where
  "reduce_permission_action env action source rm = (case action of
      SetTool tool_id b \<Rightarrow> Some (upsert_tool_rule tool_id b source rm)
    | SetRule text b \<Rightarrow> upsert_pattern_rule env text b source rm
    | AllowTool tool_id \<Rightarrow> Some (upsert_tool_rule tool_id Allow source rm)
    | DenyTool tool_id \<Rightarrow> Some (upsert_tool_rule tool_id Deny source rm)
    | RemoveTool tool_id \<Rightarrow> Some (rm(subject_key (rule_subject (rule_new_tool tool_id Ask)) := None))
    | RemoveRule text \<Rightarrow> (case parse_pattern env text of
          Parsed p \<Rightarrow> Some (rm(subject_key (PatternSubject p) := None))
        | ParseFailed _ _ \<Rightarrow> Some rm
        | ParsePanicked \<Rightarrow> None)
    | ClearTools \<Rightarrow> Some Map.empty
    | SetDefault _ \<Rightarrow> Some rm)"

definition reduce_policy :: "pattern_env \<Rightarrow> permission_policy \<Rightarrow> permission_action \<Rightarrow> permission_policy option" where
  "reduce_policy env policy action = (case action of
      SetDefault b \<Rightarrow> Some (policy\<lparr>policy_default := b\<rparr>)
    | _ \<Rightarrow> map_option (\<lambda>rm. policy\<lparr>policy_rules := rm\<rparr>)
        (reduce_permission_action env action SourceRuntime (policy_rules policy)))"

definition reduce_overrides ::
    "pattern_env \<Rightarrow> permission_overrides \<Rightarrow> permission_action \<Rightarrow> permission_overrides option" where
  "reduce_overrides env ov action =
     map_option (\<lambda>rm. ov\<lparr>override_rules := rm\<rparr>)
       (reduce_permission_action env action SourceSkill (override_rules ov))"

definition permission_rules_from_state ::
    "permission_policy option \<Rightarrow> permission_overrides option \<Rightarrow> permission_ruleset" where
  "permission_rules_from_state policy ov =
     (let rs = (case policy of
            None \<Rightarrow> \<lparr>default_behavior = Ask, rules = Map.empty\<rparr>
          | Some p \<Rightarrow> \<lparr>default_behavior = policy_default p, rules = Map.empty ++ policy_rules p\<rparr>)
      in case ov of
           None \<Rightarrow> rs
         | Some o' \<Rightarrow> rs\<lparr>rules := rules rs ++ override_rules o'\<rparr>)"

section \<open>Configuration\<close>

record permission_rule_entry =
  entry_tool :: string
  entry_behavior :: behavior
  entry_scope :: rule_scope

record permission_rules_config =
  config_default :: behavior
  config_rules :: "permission_rule_entry list"

definition rule_from_entry :: "pattern_env \<Rightarrow> permission_rule_entry \<Rightarrow> permission_rule option" where
  "rule_from_entry env entry =
     (let rule = (\<lambda>subject. \<lparr>rule_subject = subject, rule_behavior = entry_behavior entry,
            rule_scope_of = entry_scope entry, rule_source_of = SourceDefinition\<rparr>)
      in case parse_pattern env (entry_tool entry) of
           Parsed p \<Rightarrow> Some (rule (PatternSubject p))
         | ParsePanicked \<Rightarrow> None
         | ParseFailed _ _ \<Rightarrow>
             if has_glob_chars (entry_tool entry)
             then Some (rule (PatternSubject (pattern_tool_glob (entry_tool entry))))
             else Some (rule (ToolSubject (entry_tool entry))))"

fun insert_entries :: "pattern_env \<Rightarrow> permission_rule_entry list \<Rightarrow> rule_map \<Rightarrow> rule_map option" where
  "insert_entries env [] rm = Some rm"
| "insert_entries env (e # es) rm = (case rule_from_entry env e of
      None \<Rightarrow> None
    | Some rule \<Rightarrow> insert_entries env es (rm(subject_key (rule_subject rule) \<mapsto> rule)))"

definition into_ruleset :: "pattern_env \<Rightarrow> permission_rules_config \<Rightarrow> permission_ruleset option" where
  "into_ruleset env config =
     map_option (\<lambda>rm. \<lparr>default_behavior = config_default config, rules = rm\<rparr>)
       (insert_entries env (config_rules config) Map.empty)"

text \<open>The updates of the policy that \<^verbatim>\<open>on_activate\<close> records, in order.\<close>

definition activation_actions :: "permission_rules_config \<Rightarrow> permission_action list" where
  "activation_actions config =
     (if config_default config \<noteq> Ask then [SetDefault (config_default config)] else []) @
     map (\<lambda>e. SetRule (entry_tool e) (entry_behavior e)) (config_rules config)"

section \<open>Hooks\<close>

datatype tool_intercept = Block string | Suspend suspend_ticket

record gate_context =
  ctx_tool_name :: "string option"
  ctx_tool_args :: "json option"
  ctx_tool_call_id :: "string option"
  ctx_resume :: "json tool_call_resume option"
  ctx_policy :: "permission_policy option"
  ctx_overrides :: "permission_overrides option"

text \<open>\<^verbatim>\<open>Value::default()\<close> is null.\<close>

definition suspend_payload :: "gate_context \<Rightarrow> string \<Rightarrow> json \<Rightarrow> suspend_ticket" where
  "suspend_payload ctx tool_name args =
     (let id = ''perm_'' @ (case ctx_tool_call_id ctx of None \<Rightarrow> [] | Some c \<Rightarrow> c) in
      \<lparr>ticket_suspension = \<lparr>suspension_id = id, suspension_action = ''tool:PermissionConfirm'',
         suspension_message = ''Permission required for tool '' @ quoted tool_name,
         suspension_parameters = args, response_schema = None\<rparr>,
       ticket_pending = \<lparr>pending_id = id, pending_name = ''permission_confirm'', pending_arguments = args\<rparr>,
       ticket_resume_mode = ReplayToolCall\<rparr>)"

definition tool_gate :: "string list \<Rightarrow> pattern_env \<Rightarrow> gate_context \<Rightarrow> tool_intercept option" where
  "tool_gate ord env ctx = (case ctx_tool_name ctx of
      None \<Rightarrow> None
    | Some tool_name \<Rightarrow>
        let args = (case ctx_tool_args ctx of None \<Rightarrow> JNull | Some v \<Rightarrow> v);
            is_resume = (case ctx_resume ctx of None \<Rightarrow> False | Some r \<Rightarrow> tr_action r = Resume);
            rs = permission_rules_from_state (ctx_policy ctx) (ctx_overrides ctx)
        in case eval_behavior (evaluate_tool_permission ord env rs tool_name args) of
             Allow \<Rightarrow> None
           | Deny \<Rightarrow> Some (Block (''Tool '' @ quoted tool_name @ '' denied by permission rules''))
           | Ask \<Rightarrow> if is_resume then None else Some (Suspend (suspend_payload ctx tool_name args)))"

text \<open>
  The tools the filter hook excludes, in the order of its actions. Strings are ordered by their
  bytes, as in \<^verbatim>\<open>sort\<close> on strings.
\<close>

definition tool_filter ::
    "string list \<Rightarrow> pattern_env \<Rightarrow> permission_policy option \<Rightarrow> permission_overrides option \<Rightarrow>
     string list option \<Rightarrow> string list" where
  "tool_filter ord env policy ov registry =
     (let rs = permission_rules_from_state policy ov;
          tool_ids = (case registry of None \<Rightarrow> [] | Some ids \<Rightarrow> ids)
      in sorted_list_of_set (unconditionally_denied_against ord env rs tool_ids))"

end
