(* ===== verification/Pattern_Roundtrip.thy ===== *)
theory Pattern_Roundtrip
imports Pattern_Parser
begin

text \<open>
  What the parser makes of a displayed pattern: \<^verbatim>\<open>parse_pattern(&p.to_string())\<close> is \<open>p\<close> for the patterns
  of \<open>displayable\<close>, on which the \<^verbatim>\<open>Serialize\<close> and \<^verbatim>\<open>Deserialize\<close> instances of a pattern rest.
\<close>

section \<open>Characters and trimming\<close>

definition graphic :: "char \<Rightarrow> bool" where
  "graphic c \<longleftrightarrow> (33 :: nat) \<le> of_char c \<and> of_char c \<le> (126 :: nat)"

named_theorems char_defs \<open>definitions of the character classes\<close>

declare graphic_def [char_defs] is_ascii_whitespace_def [char_defs] is_ascii_alphanumeric_def [char_defs]
  is_ident_char_def [char_defs] is_path_char_def [char_defs] name_char_def [char_defs]

lemma graphic_not_space: "graphic c \<Longrightarrow> \<not> is_ascii_whitespace c"
  by (auto simp: char_defs)

lemma ident_graphic: "is_ident_char c \<Longrightarrow> graphic c"
  by (auto simp: char_defs Let_def)

lemma white_space_ends: "w \<in> set white_space \<Longrightarrow> \<not> graphic (hd w) \<and> \<not> graphic (last w)"
  by (auto simp: white_space_def graphic_def)

lemma trim_start_graphic:
  assumes "s \<noteq> []" "graphic (hd s)"
  shows "trim_start s = s"
proof -
  have "find (starts_with s) white_space = None"
  proof (rule ccontr)
    assume "find (starts_with s) white_space \<noteq> None"
    then obtain w where w: "w \<in> set white_space" "starts_with s w" by (auto simp: find_None_iff)
    then have "s = w @ drop (length w) s"
      unfolding starts_with_def by (metis append_take_drop_id)
    then have "hd w = hd s" using white_space_nonempty [OF w(1)] by (metis hd_append)
    with white_space_ends [OF w(1)] assms(2) show False by simp
  qed
  then show ?thesis by (subst trim_start.simps) simp
qed

lemma trim_end_graphic:
  assumes "s \<noteq> []" "graphic (last s)"
  shows "trim_end s = s"
proof -
  have "find (ends_with s) white_space = None"
  proof (rule ccontr)
    assume "find (ends_with s) white_space \<noteq> None"
    then obtain w where w: "w \<in> set white_space" "ends_with s w" by (auto simp: find_None_iff)
    then have "s = take (length s - length w) s @ w"
      unfolding ends_with_def by (metis append_take_drop_id)
    then have "last w = last s" using white_space_nonempty [OF w(1)] by (metis last_append)
    with white_space_ends [OF w(1)] assms(2) show False by simp
  qed
  then show ?thesis by (subst trim_end.simps) simp
qed

lemma trim_graphic: "s \<noteq> [] \<Longrightarrow> graphic (hd s) \<Longrightarrow> graphic (last s) \<Longrightarrow> trim s = s"
  by (simp add: trim_def trim_start_graphic trim_end_graphic)

lemma skip_graphic: "s = [] \<or> graphic (hd s) \<Longrightarrow> skip_whitespace s = s"
  by (cases s) (auto simp: skip_whitespace_def graphic_not_space)

lemma skip_space [simp]: "skip_whitespace (CHR '' '' # s) = skip_whitespace s"
  by (simp add: skip_whitespace_def is_ascii_whitespace_def)

lemma skip_Cons [simp]: "graphic c \<Longrightarrow> skip_whitespace (c # s) = c # s"
  by (simp add: skip_graphic)

lemma graphic_chars [simp]:
  "graphic (CHR ''('')" "graphic (CHR '')'')" "graphic (CHR ''/'')" "graphic (CHR '']'')"
  "graphic (CHR ''['')" "graphic (CHR ''*'')" "graphic (CHR '','')" "graphic (CHR ''~'')"
  "graphic (CHR ''='')" "graphic (CHR ''!'')" "graphic double_quote"
  by (simp_all add: graphic_def double_quote_def)

lemma expect_char_here [simp]: "graphic c \<Longrightarrow> expect_char c (c # r) = Inr ((), r)"
  by (simp add: expect_char_def)

lemma takeWhile_name:
  assumes "\<forall>c \<in> set name. P c" "rest = [] \<or> \<not> P (hd rest)"
  shows "takeWhile P (name @ rest) = name" "dropWhile P (name @ rest) = rest"
  using assms by (cases rest; simp)+

text \<open>Parentheses are balanced from depth \<open>d\<close> on.\<close>

fun closes :: "nat \<Rightarrow> string \<Rightarrow> bool" where
  "closes d [] \<longleftrightarrow> d = 0"
| "closes d (c # cs) \<longleftrightarrow>
     (if c = CHR ''('' then closes (d + 1) cs
      else if c = CHR '')'' then d > 0 \<and> closes (d - 1) cs
      else closes d cs)"

section \<open>The tool part\<close>

definition plain_name :: "string \<Rightarrow> bool" where
  "plain_name name \<longleftrightarrow> name \<noteq> [] \<and> hd name \<noteq> CHR ''/'' \<and>
     list_all (\<lambda>c. graphic c \<and> c \<noteq> CHR ''('') name"

definition displayable_tool :: "pattern_env \<Rightarrow> tool_matcher \<Rightarrow> bool" where
  "displayable_tool env t = (case t of
      ExactTool name \<Rightarrow> plain_name name \<and> \<not> has_glob_chars name
    | GlobTool pat \<Rightarrow> plain_name pat \<and> has_glob_chars pat
    | RegexTool re \<Rightarrow> re \<noteq> [] \<and> CHR ''/'' \<notin> set re \<and> backslash \<notin> set re \<and> closes 0 re \<and>
        regex_error env re = None)"

lemma regex_scan_body:
  "CHR ''/'' \<notin> set re \<Longrightarrow> backslash \<notin> set re \<Longrightarrow> closes d re \<Longrightarrow>
     regex_scan d (re @ CHR ''/'' # rest) = Some (re, CHR ''/'' # rest)"
  by (induction re arbitrary: d) (auto simp: cons_body_def split: if_splits)

lemma plain_name_scan:
  assumes "plain_name name" "rest = [] \<or> hd rest = CHR ''(''"
  shows "takeWhile name_char (name @ rest) = name" "dropWhile name_char (name @ rest) = rest"
proof -
  have "\<forall>c \<in> set name. name_char c"
    using assms(1) by (auto simp: plain_name_def list_all_iff name_char_def graphic_not_space)
  moreover have "rest = [] \<or> \<not> name_char (hd rest)"
    using assms(2) by (auto simp: name_char_def)
  ultimately show "takeWhile name_char (name @ rest) = name" "dropWhile name_char (name @ rest) = rest"
    by (rule takeWhile_name)+
qed

lemma parse_plain_name:
  assumes "plain_name name" "rest = [] \<or> hd rest = CHR ''(''"
  shows "parse_tool_part env (name @ rest) =
    Inr (if has_glob_chars name then GlobTool name else ExactTool name, rest)"
proof -
  have "name \<noteq> []" "graphic (hd name)" "hd name \<noteq> CHR ''/''"
    using assms(1) by (cases name; simp add: plain_name_def)+
  moreover from this have "skip_whitespace (name @ rest) = name @ rest"
    by (intro skip_graphic) simp
  ultimately show ?thesis
    using plain_name_scan [OF assms] by (simp add: parse_tool_part_def Let_def)
qed

lemma parse_tool_displayed:
  assumes "displayable_tool env t" "rest = [] \<or> hd rest = CHR ''(''"
  shows "parse_tool_part env (show_tool t @ rest) = Inr (t, rest)"
proof (cases t)
  case (RegexTool re)
  with assms(1) show ?thesis
    using regex_scan_body [of re 0 rest]
    by (simp add: displayable_tool_def show_tool_def parse_tool_part_def Let_def)
qed (use assms in \<open>simp_all add: displayable_tool_def show_tool_def parse_plain_name\<close>)

section \<open>Paths\<close>

lemma index_shown:
  "is_index_segment seg \<Longrightarrow> \<exists>body. show_segment seg = CHR ''['' # body @ '']'' \<and>
     (\<forall>c \<in> set body. c \<noteq> CHR '']'')"
  by (cases seg)
    (auto simp: is_index_segment_def is_ascii_digit_def less_eq_char_def dest!: show_nat_digits)

definition displayable_segment :: "path_segment \<Rightarrow> bool" where
  "displayable_segment seg = (case seg of
      Field name \<Rightarrow> name \<noteq> [] \<and> list_all is_ident_char name
    | Index i \<Rightarrow> i < 2 ^ 64
    | AnyIndex \<Rightarrow> True
    | Wildcard \<Rightarrow> True)"

text \<open>What may follow a path segment in a displayed pattern.\<close>

definition segment_end :: "string \<Rightarrow> bool" where
  "segment_end s \<longleftrightarrow> s \<noteq> [] \<and> hd s \<in> {CHR ''['', CHR ''.'', CHR '' ''}"

lemma parse_segment_displayed:
  assumes "displayable_segment seg" "\<not> is_index_segment seg" "segment_end rest"
  shows "parse_segment (show_segment seg @ rest) = Inr (seg, rest)"
proof (cases seg)
  case (Field name)
  then have name: "name \<noteq> []" "\<forall>c \<in> set name. is_ident_char c"
    using assms(1) by (auto simp: displayable_segment_def list_all_iff)
  then have hd: "is_ident_char (hd name)" by simp
  then have "skip_whitespace (name @ rest) = name @ rest"
    using ident_graphic name(1) by (intro skip_graphic) simp
  moreover have "hd name \<noteq> CHR ''*''" using hd by (auto simp: char_defs)
  moreover have "rest = [] \<or> \<not> is_ident_char (hd rest)"
    using assms(3) by (auto simp: segment_end_def char_defs)
  note takeWhile_name [OF name(2) this]
  ultimately show ?thesis
    using Field name(1) by (simp add: parse_segment_def parse_identifier_def Let_def)
qed (use assms in \<open>simp_all add: is_index_segment_def parse_segment_def\<close>)

lemma parse_index_displayed:
  assumes "displayable_segment seg" "is_index_segment seg"
  shows "parse_index (tl (show_segment seg @ rest)) = Inr (seg, rest)"
proof (cases seg)
  case (Index i)
  have dig: "\<forall>c \<in> set (show_nat i). is_ascii_digit c" using show_nat_digits by blast
  moreover have "hd (show_nat i) \<in> set (show_nat i)" by simp
  ultimately have "is_ascii_digit (hd (show_nat i))" by blast
  then have "graphic (hd (show_nat i))" "hd (show_nat i) \<noteq> CHR ''*''"
    by (auto simp: is_ascii_digit_def graphic_def less_eq_char_def)
  then have "skip_whitespace (show_nat i @ CHR '']'' # rest) = show_nat i @ CHR '']'' # rest"
    by (intro skip_graphic) simp
  moreover have "CHR '']'' # rest = [] \<or> \<not> is_ascii_digit (hd (CHR '']'' # rest))"
    by (simp add: is_ascii_digit_def less_eq_char_def)
  note takeWhile_name [OF dig this]
  ultimately show ?thesis
    using Index assms(1) \<open>hd (show_nat i) \<noteq> CHR ''*''\<close>
    by (simp add: parse_index_def parse_usize_def Let_def displayable_segment_def)
qed (use assms in \<open>simp_all add: is_index_segment_def parse_index_def\<close>)

lemma index_segment_hd: "is_index_segment seg \<Longrightarrow> \<exists>s. show_segment seg = CHR ''['' # s"
  by (cases seg) (auto simp: is_index_segment_def)

lemma parse_indices_displayed:
  assumes "list_all displayable_segment idx" "list_all is_index_segment idx" "hd rest \<noteq> CHR ''[''"
  shows "parse_indices (concat (map show_segment idx) @ rest) = Inr (idx, rest)"
  using assms(1,2)
proof (induction idx)
  case Nil
  then show ?case using assms(3) by (subst parse_indices.simps) simp
next
  case (Cons seg idx)
  let ?more = "concat (map show_segment idx) @ rest"
  from Cons.prems obtain s where "show_segment seg = CHR ''['' # s" using index_segment_hd by auto
  moreover from Cons.prems have "parse_index (tl (show_segment seg @ ?more)) = Inr (seg, ?more)"
    by (intro parse_index_displayed) auto
  ultimately show ?case
    using Cons by (subst parse_indices.simps) simp
qed

lemma show_path_rest_indices:
  "list_all is_index_segment idx \<Longrightarrow>
     show_path_rest (idx @ segs) = concat (map show_segment idx) @ show_path_rest segs"
  by (induction idx) auto

definition displayable_path :: "path_segment list \<Rightarrow> bool" where
  "displayable_path path \<longleftrightarrow> path \<noteq> [] \<and> \<not> is_index_segment (hd path) \<and> list_all displayable_segment path"

text \<open>A path is a segment, its indices, and the path after the dot.\<close>

lemma path_split:
  obtains idx segs where "path = idx @ segs" "list_all is_index_segment idx"
    "segs = [] \<or> \<not> is_index_segment (hd segs)"
proof
  show "path = takeWhile is_index_segment path @ dropWhile is_index_segment path" by simp
  show "list_all is_index_segment (takeWhile is_index_segment path)"
    by (auto simp: list_all_iff dest: set_takeWhileD)
  show "dropWhile is_index_segment path = [] \<or> \<not> is_index_segment (hd (dropWhile is_index_segment path))"
    using hd_dropWhile by blast
qed

lemma show_path_rest_start:
  "segs = [] \<or> \<not> is_index_segment (hd segs) \<Longrightarrow>
     show_path_rest segs = (if segs = [] then [] else CHR ''.'' # show_path segs)"
  by (cases segs) (auto simp: show_path_def)

lemma parse_path_displayed:
  "displayable_path path \<Longrightarrow> parse_field_path (show_path path @ CHR '' '' # rest) = Inr (path, CHR '' '' # rest)"
proof (induction path rule: length_induct)
  case (1 path)
  then obtain seg more where path: "path = seg # more" by (cases path) (auto simp: displayable_path_def)
  obtain idx segs where more: "more = idx @ segs" "list_all is_index_segment idx"
      "segs = [] \<or> \<not> is_index_segment (hd segs)"
    by (rule path_split)
  define tail where "tail = show_path_rest segs @ CHR '' '' # rest"
  have seg: "displayable_segment seg" "\<not> is_index_segment seg"
      and idx: "list_all displayable_segment idx" and segs: "list_all displayable_segment segs"
    using 1 path more by (auto simp: displayable_path_def)
  have tail: "tail = (if segs = [] then CHR '' '' # rest else CHR ''.'' # show_path segs @ CHR '' '' # rest)"
    using show_path_rest_start [OF more(3)] by (simp add: tail_def)
  have "show_path path @ CHR '' '' # rest = show_segment seg @ concat (map show_segment idx) @ tail"
    using more by (simp add: path show_path_def show_path_rest_indices tail_def)
  moreover have "segment_end (concat (map show_segment idx) @ tail)"
  proof (cases idx)
    case (Cons i more_idx)
    with more(2) show ?thesis using index_segment_hd [of i] by (auto simp: segment_end_def)
  qed (simp add: tail segment_end_def)
  note parse_segment_displayed [OF seg this]
  moreover have "hd tail \<noteq> CHR ''[''" by (simp add: tail)
  note parse_indices_displayed [OF idx more(2) this]
  moreover have "parse_field_path (show_path segs @ CHR '' '' # rest) = Inr (segs, CHR '' '' # rest)"
    if "segs \<noteq> []"
    using 1 path more segs that by (auto simp: displayable_path_def)
  ultimately show ?case
    by (subst parse_field_path.simps) (auto simp: tail path more)
qed

section \<open>Field conditions\<close>

definition plain_value :: "string \<Rightarrow> bool" where
  "plain_value v \<longleftrightarrow> double_quote \<notin> set v \<and> backslash \<notin> set v"

definition displayable_condition :: "field_condition \<Rightarrow> bool" where
  "displayable_condition c \<longleftrightarrow> displayable_path (fc_path c) \<and> plain_value (fc_value c)"

lemma parse_op_displayed: "parse_match_op (show_op op @ CHR '' '' # rest) = Inr (op, CHR '' '' # rest)"
  by (cases op) (simp_all add: parse_match_op_def starts_with_def)

lemma parse_body_displayed: "plain_value v \<Longrightarrow> parse_quoted_body (v @ double_quote # rest) = Inr (v, rest)"
  by (induction v) (auto simp: plain_value_def prepend_def)

lemma show_op_graphic: "graphic (hd (show_op op)) \<and> show_op op \<noteq> []"
  by (cases op) simp_all

lemma parse_condition_displayed:
  assumes "displayable_condition c" "graphic (hd (show_condition c @ rest))"
  shows "parse_single_field_condition (show_condition c @ rest) = Inr (c, rest)"
proof -
  let ?val = "double_quote # fc_value c @ double_quote # rest"
  let ?op = "show_op (fc_op c) @ CHR '' '' # ?val"
  have shown: "show_condition c @ rest = show_path (fc_path c) @ CHR '' '' # ?op"
    by (simp add: show_condition_def)
  have "skip_whitespace (show_condition c @ rest) = show_condition c @ rest"
    using assms(2) by (intro skip_graphic) simp
  moreover have "skip_whitespace ?op = ?op"
    using show_op_graphic [of "fc_op c"] by (intro skip_graphic) simp
  moreover have "parse_quoted_value ?val = Inr (fc_value c, rest)"
    using assms(1) parse_body_displayed [of "fc_value c" rest]
    by (simp add: parse_quoted_value_def displayable_condition_def)
  ultimately show ?thesis
    using assms(1) parse_path_displayed [of "fc_path c" ?op] parse_op_displayed [of "fc_op c" ?val]
    by (simp add: parse_single_field_condition_def shown displayable_condition_def)
qed

lemma path_start:
  assumes "displayable_path path"
  shows "graphic (hd (show_path path)) \<and> show_path path \<noteq> []"
proof -
  from assms obtain seg segs where path: "path = seg # segs" by (cases path) (auto simp: displayable_path_def)
  have "graphic (hd (show_segment seg)) \<and> show_segment seg \<noteq> []"
    using assms path ident_graphic
    by (cases seg) (auto simp: displayable_path_def displayable_segment_def is_index_segment_def
        list_all_iff)
  then show ?thesis by (simp add: path show_path_def)
qed

lemma condition_start:
  "displayable_condition c \<Longrightarrow> graphic (hd (show_condition c)) \<and> show_condition c \<noteq> []"
  using path_start [of "fc_path c"] by (simp add: displayable_condition_def show_condition_def)

lemma parse_conditions_space: "parse_field_conditions (CHR '' '' # s) = parse_field_conditions s"
  by (subst (1 2) parse_field_conditions.simps) simp

lemma parse_conditions_displayed:
  "cs \<noteq> [] \<Longrightarrow> list_all displayable_condition cs \<Longrightarrow>
     parse_field_conditions (show_conditions cs @ CHR '')'' # rest) = Inr (cs, CHR '')'' # rest)"
proof (induction cs rule: show_conditions.induct)
  case (2 c)
  let ?s = "show_condition c @ CHR '')'' # rest"
  from 2 have c: "displayable_condition c" by simp
  then have g: "graphic (hd ?s)" using condition_start by simp
  then have "skip_whitespace ?s = ?s" by (intro skip_graphic) simp
  with parse_condition_displayed [OF c g] show ?case
    by (subst parse_field_conditions.simps) simp
next
  case (3 c d cs)
  let ?more = "CHR '' '' # show_conditions (d # cs) @ CHR '')'' # rest"
  let ?s = "show_condition c @ CHR '','' # ?more"
  from 3 have c: "displayable_condition c" by simp
  then have g: "graphic (hd ?s)" using condition_start by simp
  then have "skip_whitespace ?s = ?s" by (intro skip_graphic) simp
  moreover have "parse_field_conditions ?more = Inr (d # cs, CHR '')'' # rest)"
    using 3 by (simp add: parse_conditions_space)
  ultimately have "parse_field_conditions ?s = Inr (c # d # cs, CHR '')'' # rest)"
    using parse_condition_displayed [OF c g] by (subst parse_field_conditions.simps) simp
  then show ?case by simp
qed simp

subsection \<open>Recognising field conditions\<close>

text \<open>The identifiers the look-ahead steps over.\<close>

definition recognised_path :: "path_segment list \<Rightarrow> bool" where
  "recognised_path path \<longleftrightarrow> path \<noteq> [Wildcard] \<and>
     list_all (\<lambda>seg. case seg of Field name \<Rightarrow> CHR ''-'' \<notin> set name | _ \<Rightarrow> True) path"

lemma skip_path_chars: "\<forall>c \<in> set name. is_path_char c \<Longrightarrow> skip_path (name @ rest) = skip_path rest"
  by (induction name) auto

lemma skip_segment:
  assumes "displayable_segment seg" "segment_end rest"
    "case seg of Field name \<Rightarrow> CHR ''-'' \<notin> set name | _ \<Rightarrow> True"
  shows "skip_path (show_segment seg @ rest) = skip_path rest"
proof (cases "is_index_segment seg")
  case True
  then obtain body where body: "show_segment seg = CHR ''['' # body @ '']''"
      "\<forall>c \<in> set body. c \<noteq> CHR '']''"
    using index_shown by blast
  have "dropWhile (\<lambda>d. d \<noteq> CHR '']'') (body @ CHR '']'' # rest) = CHR '']'' # rest"
    by (rule takeWhile_name) (use body in auto)
  then show ?thesis by (simp add: body char_defs)
next
  case False
  show ?thesis
  proof (cases seg)
    case (Field name)
    with assms have "\<forall>c \<in> set name. is_path_char c"
      by (auto simp: displayable_segment_def list_all_iff is_ident_char_def is_path_char_def)
    with Field show ?thesis by (simp add: skip_path_chars)
  next
    case Wildcard
    with assms(2) show ?thesis
      by (cases rest) (auto simp: segment_end_def char_defs)
  qed (use False in \<open>simp_all add: is_index_segment_def\<close>)
qed

lemma segment_end_rest: "segment_end (show_path_rest segs @ CHR '' '' # rest)"
proof (cases segs)
  case (Cons seg more)
  then show ?thesis using index_segment_hd [of seg] by (auto simp: segment_end_def)
qed (simp add: segment_end_def)

lemma skip_path_rest:
  "list_all displayable_segment segs \<Longrightarrow>
   list_all (\<lambda>seg. case seg of Field name \<Rightarrow> CHR ''-'' \<notin> set name | _ \<Rightarrow> True) segs \<Longrightarrow>
     skip_path (show_path_rest segs @ CHR '' '' # rest) = CHR '' '' # rest"
proof (induction segs)
  case (Cons seg segs)
  let ?tail = "show_path_rest segs @ CHR '' '' # rest"
  have "skip_path (show_segment seg @ ?tail) = skip_path ?tail"
    using Cons.prems segment_end_rest by (intro skip_segment) auto
  with Cons show ?case by (simp add: is_path_char_def)
qed (simp add: char_defs)

lemma skip_path_displayed:
  assumes "displayable_path path" "recognised_path path"
  shows "skip_path (show_path path @ CHR '' '' # rest) = CHR '' '' # rest"
proof -
  from assms(1) obtain seg segs where path: "path = seg # segs" by (cases path) (auto simp: displayable_path_def)
  let ?tail = "show_path_rest segs @ CHR '' '' # rest"
  have "skip_path (show_segment seg @ ?tail) = skip_path ?tail"
    using assms path segment_end_rest
    by (intro skip_segment) (auto simp: displayable_path_def recognised_path_def)
  moreover have "skip_path ?tail = CHR '' '' # rest"
    using assms path by (intro skip_path_rest) (auto simp: displayable_path_def recognised_path_def)
  ultimately show ?thesis by (simp add: path show_path_def)
qed

lemma looks_like_displayed:
  assumes "displayable_condition c" "recognised_path (fc_path c)" "rest \<noteq> []" "graphic (last rest)"
  shows "looks_like_field_conditions (show_condition c @ rest)"
proof -
  let ?op = "show_op (fc_op c)"
  let ?val = "CHR '' '' # double_quote # fc_value c @ double_quote # rest"
  have "trim (show_condition c @ rest) = show_condition c @ rest"
    using assms condition_start by (intro trim_graphic) auto
  moreover have "show_condition c @ rest = show_path (fc_path c) @ CHR '' '' # ?op @ ?val"
    by (simp add: show_condition_def)
  moreover have "skip_whitespace (?op @ ?val) = ?op @ ?val"
    using show_op_graphic [of "fc_op c"] by (intro skip_graphic) simp
  moreover have "starts_with (?op @ ?val) ''~'' \<or> starts_with (?op @ ?val) ''='' \<or>
      starts_with (?op @ ?val) ''!~'' \<or> starts_with (?op @ ?val) ''!=''"
    by (cases "fc_op c") (simp_all add: starts_with_def)
  ultimately show ?thesis
    using skip_path_displayed [of "fc_path c" "?op @ ?val"] assms(1,2)
    by (simp add: looks_like_field_conditions_def displayable_condition_def)
qed

section \<open>Arguments\<close>

text \<open>
  A primary pattern: trimmed, with balanced parentheses, without the characters of an operator, and
  when it starts with a star, followed by an ASCII character that is no space.
\<close>

definition displayable_primary :: "string \<Rightarrow> bool" where
  "displayable_primary v \<longleftrightarrow> v \<noteq> [] \<and> graphic (hd v) \<and> graphic (last v) \<and> closes 0 v \<and>
     CHR ''~'' \<notin> set v \<and> CHR ''='' \<notin> set v \<and>
     (hd v = CHR ''*'' \<longrightarrow> tl v \<noteq> [] \<and> graphic (hd (tl v)))"

definition displayable_args :: "arg_matcher \<Rightarrow> bool" where
  "displayable_args a = (case a of
      AnyArgs \<Rightarrow> True
    | Primary op v \<Rightarrow> op = Glob \<and> displayable_primary v
    | Fields cs \<Rightarrow> cs \<noteq> [] \<and> list_all displayable_condition cs \<and> recognised_path (fc_path (hd cs)))"

definition displayable :: "pattern_env \<Rightarrow> tool_call_pattern \<Rightarrow> bool" where
  "displayable env p \<longleftrightarrow> displayable_tool env (tp_tool p) \<and> displayable_args (tp_args p)"

lemma primary_scan_closes:
  "closes d v \<Longrightarrow> primary_scan d (v @ CHR '')'' # rest) = (v, CHR '')'' # rest)"
  by (induction v arbitrary: d) (auto split: if_splits)

lemma set_skip_whitespace: "set (skip_whitespace s) \<subseteq> set s"
  by (auto simp: skip_whitespace_def dest: set_dropWhileD)

lemma set_skip_path: "set (skip_path s) \<subseteq> set s"
proof (induction s rule: skip_path.induct)
  case (2 c cs)
  have "set (drop 1 (dropWhile (\<lambda>d. d \<noteq> CHR '']'') cs)) \<subseteq> set cs"
    by (meson set_drop_subset set_dropWhileD subset_iff)
  with 2 show ?case by (auto simp del: drop_Suc_Cons)
qed simp

lemma not_looks_like:
  assumes "trim s = s" "CHR ''~'' \<notin> set s" "CHR ''='' \<notin> set s"
  shows "\<not> looks_like_field_conditions s"
proof -
  let ?r = "skip_whitespace (skip_path s)"
  have "set ?r \<subseteq> set s" using set_skip_whitespace set_skip_path by blast
  with assms(2,3) have "CHR ''~'' \<notin> set ?r" "CHR ''='' \<notin> set ?r" by auto
  moreover have "p \<noteq> [] \<Longrightarrow> starts_with ?r p \<Longrightarrow> last p \<in> set ?r" for p
    unfolding starts_with_def by (metis in_set_takeD last_in_set)
  ultimately show ?thesis
    unfolding looks_like_field_conditions_def assms(1) Let_def by fastforce
qed

lemma parse_primary_displayed:
  assumes "displayable_primary v"
  shows "parse_arg_part (v @ '')'') = Inr (Primary Glob v, '')'')"
proof -
  have v: "v \<noteq> []" "graphic (hd v)" "graphic (last v)" "closes 0 v"
      "CHR ''~'' \<notin> set v" "CHR ''='' \<notin> set v" "hd v = CHR ''*'' \<longrightarrow> tl v \<noteq> [] \<and> graphic (hd (tl v))"
    using assms by (auto simp: displayable_primary_def)
  have "skip_whitespace (v @ '')'') = v @ '')''" using v by (intro skip_graphic) simp
  moreover have "\<not> any_args_follow (tl (v @ '')''))" if star: "hd v = CHR ''*''"
  proof -
    obtain c w where w: "v = CHR ''*'' # c # w" "graphic c"
      using v star by (metis list.collapse)
    then have "c \<noteq> CHR '')''" using v(4) by auto
    with w show ?thesis
      by (simp add: any_args_follow_def graphic_not_space utf8_length_def graphic_def Let_def)
  qed
  moreover have "\<not> looks_like_field_conditions (v @ '')'')"
    using v by (intro not_looks_like trim_graphic) auto
  moreover have "parse_primary_value (v @ '')'') = Inr (Primary Glob v, '')'')"
    using v calculation(1) primary_scan_closes [OF v(4), of "[]"] trim_graphic [OF v(1-3)]
    by (simp add: parse_primary_value_def)
  ultimately show ?thesis
    using v(1) by (simp add: parse_arg_part_def Let_def)
qed

lemma first_condition: "cs \<noteq> [] \<Longrightarrow> \<exists>s. show_conditions cs = show_condition (hd cs) @ s"
  by (cases cs rule: show_conditions.cases) auto

lemma condition_not_any:
  assumes "displayable_condition c" "recognised_path (fc_path c)" "hd (show_condition c) = CHR ''*''"
  shows "\<not> any_args_follow (tl (show_condition c @ s))"
proof -
  from assms(1) obtain seg segs where path: "fc_path c = seg # segs"
    by (cases "fc_path c") (auto simp: displayable_condition_def displayable_path_def)
  have seg: "displayable_segment seg" "\<not> is_index_segment seg"
    using assms(1) path by (auto simp: displayable_condition_def displayable_path_def)
  have "seg = Wildcard"
  proof (cases seg)
    case (Field name)
    with seg assms(3) have "is_ident_char (CHR ''*'')"
      by (cases name) (auto simp: displayable_segment_def show_condition_def show_path_def path)
    then show ?thesis by (simp add: char_defs)
  qed (use seg in \<open>auto simp: is_index_segment_def\<close>)
  moreover from this assms(2) path obtain seg2 more where "segs = seg2 # more"
    by (cases segs) (auto simp: recognised_path_def)
  ultimately show ?thesis
    using index_segment_hd [of seg2]
    by (auto simp: show_condition_def show_path_def path any_args_follow_def utf8_length_def char_defs Let_def)
qed

lemma parse_fields_displayed:
  assumes "cs \<noteq> []" "list_all displayable_condition cs" "recognised_path (fc_path (hd cs))"
  shows "parse_arg_part (show_conditions cs @ '')'') = Inr (Fields cs, '')'')"
proof -
  obtain s where s: "show_conditions cs = show_condition (hd cs) @ s"
    using first_condition [OF assms(1)] by blast
  have c: "displayable_condition (hd cs)" using assms by (cases cs) auto
  then have "skip_whitespace (show_conditions cs @ '')'') = show_conditions cs @ '')''"
    using condition_start [OF c] by (intro skip_graphic) (simp add: s)
  moreover have "looks_like_field_conditions (show_conditions cs @ '')'')"
    using looks_like_displayed [OF c assms(3), of "s @ '')''"] by (simp add: s)
  moreover have "\<not> (hd (show_conditions cs @ '')'') = CHR ''*'' \<and> any_args_follow (tl (show_conditions cs @ '')'')))"
    using condition_not_any [OF c assms(3), of "s @ '')''"] condition_start [OF c] by (auto simp: s)
  ultimately show ?thesis
    using parse_conditions_displayed [OF assms(1,2), of "[]"]
    by (simp add: parse_arg_part_def Let_def)
qed

lemma parse_args_displayed:
  assumes "displayable_args a" "a \<noteq> AnyArgs"
  shows "parse_arg_part (show_args a @ '')'') = Inr (a, '')'')"
  using assms parse_primary_displayed parse_fields_displayed
  by (cases a) (auto simp: displayable_args_def show_args_def)

section \<open>Patterns\<close>

lemma tool_ends:
  assumes "displayable_tool env t"
  shows "show_tool t \<noteq> [] \<and> graphic (hd (show_tool t)) \<and> graphic (last (show_tool t))"
  using assms
  by (cases t) (auto simp: displayable_tool_def show_tool_def plain_name_def list_all_iff)

lemma pattern_round_trip:
  assumes "displayable env p"
  shows "parse_pattern env (show_pattern p) = Parsed p"
proof -
  let ?tool = "show_tool (tp_tool p)"
  let ?args = "if tp_args p = AnyArgs then [] else CHR ''('' # show_args (tp_args p) @ '')''"
  have t: "displayable_tool env (tp_tool p)" and a: "displayable_args (tp_args p)"
    using assms by (auto simp: displayable_def)
  have shown: "show_pattern p = ?tool @ ?args" by (simp add: show_pattern_def)
  have "trim (show_pattern p) = show_pattern p"
    using tool_ends [OF t] by (intro trim_graphic) (auto simp: shown)
  moreover have "parse_tool_part env (?tool @ ?args) = Inr (tp_tool p, ?args)"
    by (rule parse_tool_displayed [OF t]) simp
  moreover have "skip_whitespace [] = []" by (simp add: skip_whitespace_def)
  ultimately have "parse_pattern env (show_pattern p) =
      Parsed \<lparr>tp_tool = tp_tool p, tp_args = tp_args p\<rparr>"
    using parse_args_displayed [OF a]
    by (simp add: parse_pattern_def parse_at_cursor_def shown Let_def)
  then show ?thesis by simp
qed


text \<open>\<^verbatim>\<open>mcp__*(a.b[0][*].c !~ "x", d = "y")\<close>\<close>

definition sample_pattern :: tool_call_pattern where
  "sample_pattern = \<lparr>tp_tool = GlobTool ''mcp__*'', tp_args = Fields
     [\<lparr>fc_path = [Field ''a'', Field ''b'', Index 0, AnyIndex, Field ''c''], fc_op = NotGlob, fc_value = ''x''\<rparr>,
      \<lparr>fc_path = [Field ''d''], fc_op = Exact, fc_value = ''y''\<rparr>]\<rparr>"

lemma sample_displayable: "displayable literal_env sample_pattern"
  by (simp add: sample_pattern_def displayable_def displayable_tool_def plain_name_def
        has_glob_chars_def displayable_args_def displayable_condition_def displayable_path_def
        displayable_segment_def is_index_segment_def plain_value_def recognised_path_def
        double_quote_def graphic_def is_ident_char_def is_ascii_alphanumeric_def)


lemma parse_operator_first:
  assumes "op \<noteq> Glob" "s = show_op op @ '' '' @ rest" "graphic (last s)"
  shows "parse_arg_part s = Inl (ParseError ''expected identifier'' s)"
proof -
  have g: "graphic (hd s)" "s \<noteq> []" using show_op_graphic [of op] assms(2) by auto
  then have skip: "skip_whitespace s = s" by (intro skip_graphic) simp
  obtain c cs where s: "s = c # cs" "c = CHR ''='' \<or> c = CHR ''!''" "c = CHR ''!'' \<longrightarrow> hd cs = CHR ''~'' \<or> hd cs = CHR ''=''" "cs \<noteq> []"
    using assms(1,2) by (cases op) auto
  have "trim s = s" using g assms(3) by (intro trim_graphic) auto
  moreover have "skip_path s = s" using s by (auto simp: is_path_char_def char_defs)
  ultimately have looks: "looks_like_field_conditions s"
    using s skip by (cases cs) (auto simp: looks_like_field_conditions_def starts_with_def)
  have "parse_segment s = Inl (ParseError ''expected identifier'' s)"
    using s skip by (auto simp: parse_segment_def parse_identifier_def char_defs)
  then have "parse_field_path s = Inl (ParseError ''expected identifier'' s)"
    by (subst parse_field_path.simps) simp
  then have "parse_field_conditions s = Inl (ParseError ''expected identifier'' s)"
    by (subst parse_field_conditions.simps) (simp add: skip parse_single_field_condition_def)
  with looks skip s show ?thesis by (auto simp: parse_arg_part_def)
qed

text \<open>
  A pattern whose primary argument is constrained by another operator than a glob does not
  survive: its displayed text \<^verbatim>\<open>Tool(= "x")\<close> is refused by the parser, which takes the operator for the
  start of a field condition, at the position after the parenthesis.
\<close>
theorem operator_primary_refused:
  assumes "plain_name name" "\<not> has_glob_chars name" "op \<noteq> Glob"
  shows "parse_pattern env (show_pattern \<lparr>tp_tool = ExactTool name, tp_args = Primary op v\<rparr>) =
    ParseFailed ''expected identifier'' (length name + 1)"
proof -
  let ?args = "show_op op @ '' '' @ ([double_quote] @ v @ [double_quote] @ '')'')"
  let ?text = "name @ CHR ''('' # ?args"
  have ends: "name \<noteq> []" "graphic (hd name)"
    using assms(1) by (cases name; simp add: plain_name_def)+
  then have "trim ?text = ?text" by (intro trim_graphic) auto
  moreover have "parse_tool_part env ?text = Inr (ExactTool name, CHR ''('' # ?args)"
    using assms by (simp add: parse_plain_name)
  moreover have "parse_arg_part ?args = Inl (ParseError ''expected identifier'' ?args)"
    by (rule parse_operator_first [OF assms(3) refl]) simp
  ultimately show ?thesis
    using assms(3)
    by (simp add: parse_pattern_def parse_at_cursor_def show_pattern_def show_tool_def show_args_def)
qed

theorem operator_primary_refused_witness:
  "parse_pattern literal_env (show_pattern \<lparr>tp_tool = ExactTool ''Bash'', tp_args = Primary Exact ''ls''\<rparr>) =
    ParseFailed ''expected identifier'' 5"
proof -
  have "plain_name ''Bash''" "\<not> has_glob_chars ''Bash''" by code_simp+
  from operator_primary_refused [OF this, of Exact literal_env "''ls''"] show ?thesis by simp
qed

section \<open>Panics\<close>

lemma set_trim_start: "set (trim_start s) \<subseteq> set s"
proof (induction s rule: trim_start.induct)
  case (1 s)
  then show ?case
    by (subst trim_start.simps) (auto split: option.split dest!: set_mp dest: in_set_dropD)
qed

lemma set_trim_end: "set (trim_end s) \<subseteq> set s"
proof (induction s rule: trim_end.induct)
  case (1 s)
  then show ?case
    by (subst trim_end.simps) (auto split: option.split dest!: set_mp dest: in_set_takeD)
qed

lemma ascii_subset: "ascii s \<Longrightarrow> set t \<subseteq> set s \<Longrightarrow> ascii t"
  by (auto simp: ascii_def)

lemma ascii_trim: "ascii s \<Longrightarrow> ascii (trim s)"
  using set_trim_start set_trim_end unfolding trim_def by (meson ascii_subset)

lemma cons_body_None [simp]: "cons_body c r = None \<longleftrightarrow> r = None"
  by (simp add: cons_body_def)

lemma regex_scan_ascii: "ascii s \<Longrightarrow> regex_scan d s \<noteq> None"
proof (induction d s rule: regex_scan.induct)
  case (2 d c cs)
  then have sub: "ascii cs" "cs = e # es \<Longrightarrow> ascii es \<and> utf8_length e = 1" for e es
    by (auto simp: ascii_def utf8_length_def)
  show ?case
  proof (cases "c = backslash")
    case True
    with 2 sub show ?thesis by (cases cs) (simp_all del: not_None_eq)
  next
    case False
    with "2.IH"(2-4) sub(1) show ?thesis by (simp del: not_None_eq)
  qed
qed simp

lemma expect_char_no_panic: "expect_char ch s \<noteq> Inl ParsePanic"
  by (auto simp: expect_char_def Let_def split: list.split)

lemma parse_identifier_no_panic: "parse_identifier s \<noteq> Inl ParsePanic"
  by (simp add: parse_identifier_def Let_def)

lemma parse_segment_no_panic: "parse_segment s \<noteq> Inl ParsePanic"
  using parse_identifier_no_panic by (auto simp: parse_segment_def Let_def split: sum.split)

lemma parse_index_no_panic: "parse_index s \<noteq> Inl ParsePanic"
  using expect_char_no_panic
  by (auto simp: parse_index_def parse_usize_def Let_def split: sum.split prod.split if_splits)

lemma parse_indices_no_panic: "parse_indices s \<noteq> Inl ParsePanic"
proof (induction s rule: parse_indices.induct)
  case (1 s)
  show ?case
  proof (cases "parse_index (tl s)")
    case (Inr y)
    with 1 [OF _ Inr, of "fst y" "snd y"] show ?thesis
      by (cases y, subst parse_indices.simps) (auto split: sum.split)
  qed (use parse_index_no_panic [of "tl s"] in \<open>subst parse_indices.simps, simp\<close>)
qed

lemma parse_path_no_panic: "parse_field_path s \<noteq> Inl ParsePanic"
proof (induction s rule: parse_field_path.induct)
  case (1 s)
  show ?case
  proof (cases "parse_segment s")
    case seg: (Inr y)
    show ?thesis
    proof (cases "parse_indices (snd y)")
      case (Inr z)
      with seg 1 [OF seg _ Inr, of "fst y" "fst z" "snd z"] show ?thesis
        by (cases y, cases z, subst parse_field_path.simps) (auto split: sum.split)
    qed (use seg parse_indices_no_panic [of "snd y"] in
        \<open>cases y, subst parse_field_path.simps, simp\<close>)
  qed (use parse_segment_no_panic [of s] in \<open>subst parse_field_path.simps, simp\<close>)
qed

lemma prepend_no_panic: "r \<noteq> Inl ParsePanic \<Longrightarrow> prepend p r \<noteq> Inl ParsePanic"
  by (cases r) (auto simp: prepend_def)

lemma parse_quoted_body_no_panic: "parse_quoted_body s \<noteq> Inl ParsePanic"
  by (induction s rule: parse_quoted_body.induct) (simp_all add: prepend_no_panic split: list.split)

lemma parse_condition_no_panic: "parse_single_field_condition s \<noteq> Inl ParsePanic"
  using parse_path_no_panic parse_quoted_body_no_panic
  by (auto simp: parse_single_field_condition_def parse_match_op_def parse_quoted_value_def Let_def
      split: sum.split prod.split)

lemma parse_conditions_no_panic: "parse_field_conditions s \<noteq> Inl ParsePanic"
proof (induction s rule: parse_field_conditions.induct)
  case (1 s)
  show ?case
  proof (cases "parse_single_field_condition (skip_whitespace s)")
    case (Inr y)
    with 1 [OF Inr, of "fst y" "snd y"] show ?thesis
      by (cases y, subst parse_field_conditions.simps) (auto simp: Let_def split: sum.split)
  qed (use parse_condition_no_panic [of "skip_whitespace s"] in
      \<open>subst parse_field_conditions.simps, simp\<close>)
qed

lemma parse_arg_no_panic: "parse_arg_part s \<noteq> Inl ParsePanic"
  using parse_conditions_no_panic
  by (auto simp: parse_arg_part_def parse_primary_value_def Let_def split: sum.split prod.split)

lemma parse_tool_no_panic:
  assumes "ascii s"
  shows "parse_tool_part env s \<noteq> Inl ParsePanic"
proof -
  have "set (tl (skip_whitespace s)) \<subseteq> set s"
    using set_skip_whitespace [of s] by (cases "skip_whitespace s") auto
  with assms have "ascii (tl (skip_whitespace s))" by (rule ascii_subset)
  then have "regex_scan 0 (tl (skip_whitespace s)) \<noteq> None" by (rule regex_scan_ascii)
  then show ?thesis
    using expect_char_no_panic
    by (auto simp: parse_tool_part_def Let_def split: sum.split prod.split option.split)
qed

text \<open>
  On ASCII text the scan of a regular expression never leaves a character boundary, so the parser does not
  panic; an escaped character outside ASCII makes it panic.
\<close>
theorem parse_ascii_never_panics:
  "(ascii s \<longrightarrow> parse_pattern env s \<noteq> ParsePanicked) \<and>
   parse_pattern env (''/'' @ [backslash, CHR 0xC3, CHR 0xA9] @ ''/'') = ParsePanicked"
proof
  show "ascii s \<longrightarrow> parse_pattern env s \<noteq> ParsePanicked"
  proof
    assume "ascii s"
    then have "parse_tool_part env (trim s) \<noteq> Inl ParsePanic" by (intro parse_tool_no_panic ascii_trim)
    then have "parse_at_cursor env (trim s) \<noteq> Inl ParsePanic"
      using parse_arg_no_panic expect_char_no_panic
      by (auto simp: parse_at_cursor_def Let_def split: sum.split prod.split if_splits)
    then show "parse_pattern env s \<noteq> ParsePanicked"
      by (auto simp: parse_pattern_def Let_def split: sum.split parse_failure.split)
  qed
  have "trim (''/'' @ [backslash, CHR 0xC3, CHR 0xA9] @ ''/'') = ''/'' @ [backslash, CHR 0xC3, CHR 0xA9] @ ''/''"
    by (rule trim_graphic) simp_all
  then show "parse_pattern env (''/'' @ [backslash, CHR 0xC3, CHR 0xA9] @ ''/'') = ParsePanicked"
    by (simp add: parse_pattern_def parse_at_cursor_def parse_tool_part_def utf8_length_def)
qed

theorem parse_ascii_never_panics_witness:
  "parse_pattern literal_env ''/[a(/'' \<noteq> ParsePanicked"
proof -
  have "ascii ''/[a(/''" by code_simp
  with parse_ascii_never_panics show ?thesis by blast
qed

end
