(* ===== verification/Permission_Correct.thy ===== *)
theory Permission_Correct
imports Permission Pattern_Roundtrip
begin

text \<open>
  What the permission extension guarantees: evaluation is a firewall decision that does not depend
  on the iteration order of the rules, the tools hidden from the model are those every call of which
  is blocked, and what the reducers and the configuration leave in the policy.
\<close>

section \<open>The best rule\<close>

lemma foldl_max:
  "foldl (\<lambda>a b. if key b < key a then a else b) x xs \<in> insert x (set xs) \<and>
   (\<forall>y \<in> insert x (set xs). key y \<le> key (foldl (\<lambda>a b. if key b < key a then a else b) x xs))"
  for key :: "'a \<Rightarrow> 'k :: linorder"
proof (induction xs arbitrary: x)
  case (Cons y ys)
  let ?m = "if key y < key x then x else y"
  have "key x \<le> key ?m" "key y \<le> key ?m" by auto
  with Cons [of ?m] show ?case by (auto intro: order_trans)
qed simp

lemma max_by_None [simp]: "max_by key xs = None \<longleftrightarrow> xs = []"
  by (cases xs) auto

lemma max_by_Some:
  assumes "max_by key xs = Some m"
  shows "m \<in> set xs" "x \<in> set xs \<Longrightarrow> key x \<le> key m"
  using assms foldl_max [of key] by (cases xs; auto)+

lemma set_matching_rules:
  "set (matching_rules env rs t args) =
     {(r, s). r \<in> set rs \<and> subject_matches_tool_call env (rule_subject r) t args = Some s}"
  by (induction rs) (auto simp: matching_rules_def List.map_filter_simps split: option.split)

lemma priority_le_iff [simp]:
  "behavior_priority a \<le> behavior_priority b \<longleftrightarrow>
     (b = Deny \<or> b = Allow \<and> a \<noteq> Deny \<or> a = Ask)"
  by (cases a; cases b) (simp_all add: behavior_priority_def word_le_nat_alt)

lemma priority_inject [simp]: "behavior_priority a = behavior_priority b \<longleftrightarrow> a = b"
  by (cases a; cases b) (simp_all add: behavior_priority_def)

definition some_rule :: "pattern_env \<Rightarrow> permission_ruleset \<Rightarrow> string \<Rightarrow> json \<Rightarrow> behavior \<Rightarrow> bool" where
  "some_rule env rs t args b \<longleftrightarrow> (\<exists>r \<in> ran (rules rs). rule_behavior r = b \<and>
     subject_matches_tool_call env (rule_subject r) t args \<noteq> None)"

text \<open>The decision as a firewall takes it.\<close>

definition firewall_decision :: "pattern_env \<Rightarrow> permission_ruleset \<Rightarrow> string \<Rightarrow> json \<Rightarrow> behavior" where
  "firewall_decision env rs t args =
     (if some_rule env rs t args Deny then Deny
      else if some_rule env rs t args Allow then Allow
      else if some_rule env rs t args Ask then Ask
      else default_behavior rs)"

lemma rule_for_tool_call_None:
  assumes "hash_order ord (rules rs)"
  shows "rule_for_tool_call ord env rs t args = None \<longleftrightarrow> (\<forall>b. \<not> some_rule env rs t args b)"
proof -
  have "rule_for_tool_call ord env rs t args = None \<longleftrightarrow>
      set (matching_rules env (hm_values ord (rules rs)) t args) = {}"
    by (simp add: rule_for_tool_call_def)
  also have "\<dots> \<longleftrightarrow> (\<forall>b. \<not> some_rule env rs t args b)"
    by (auto simp: set_matching_rules hash_order_values [OF assms] some_rule_def)
  finally show ?thesis .
qed

lemma rule_for_tool_call_Some:
  assumes "hash_order ord (rules rs)" "rule_for_tool_call ord env rs t args = Some r"
  shows "r \<in> ran (rules rs) \<and> (\<exists>s. subject_matches_tool_call env (rule_subject r) t args = Some s \<and>
    (\<forall>r' \<in> ran (rules rs). \<forall>s'. subject_matches_tool_call env (rule_subject r') t args = Some s' \<longrightarrow>
       (behavior_priority (rule_behavior r'), s') \<le> (behavior_priority (rule_behavior r), s)))"
proof -
  from assms(2) obtain s where
    m: "max_by rule_rank (matching_rules env (hm_values ord (rules rs)) t args) = Some (r, s)"
    by (auto simp: rule_for_tool_call_def)
  note best = max_by_Some [OF m, unfolded set_matching_rules hash_order_values [OF assms(1)]]
  from best(1) best(2) [of "(r', s')" for r' s'] show ?thesis
    unfolding rule_rank_def fst_conv snd_conv by blast
qed

lemma evaluation_decides:
  assumes "hash_order ord (rules rs)"
  shows "eval_behavior (evaluate_tool_permission ord env rs t args) = firewall_decision env rs t args"
proof (cases "rule_for_tool_call ord env rs t args")
  case None
  then have "\<forall>b. \<not> some_rule env rs t args b" using rule_for_tool_call_None [OF assms] by blast
  with None show ?thesis
    by (simp add: evaluate_tool_permission_def firewall_decision_def Let_def)
next
  case (Some r)
  from rule_for_tool_call_Some [OF assms Some] obtain s where
    r: "r \<in> ran (rules rs)" "subject_matches_tool_call env (rule_subject r) t args = Some s" and
    best: "\<And>r' s'. r' \<in> ran (rules rs) \<Longrightarrow>
      subject_matches_tool_call env (rule_subject r') t args = Some s' \<Longrightarrow>
      behavior_priority (rule_behavior r') \<le> behavior_priority (rule_behavior r)"
    by (fastforce simp del: priority_le_iff)
  have here: "some_rule env rs t args (rule_behavior r)" using r by (auto simp: some_rule_def)
  have le: "some_rule env rs t args b \<Longrightarrow> behavior_priority b \<le> behavior_priority (rule_behavior r)" for b
    using best by (auto simp: some_rule_def simp del: priority_le_iff)
  from here le [of Deny] le [of Allow] show ?thesis
    by (cases "rule_behavior r") (auto simp: evaluate_tool_permission_def firewall_decision_def Some Let_def)
qed

text \<open>
  C12: Evaluation is a firewall decision: a matching deny rule wins over any allow rule, an allow rule
  over an ask rule, and without a matching rule the default applies, whatever order the hash map
  iterates its rules in. The rule reported is a matching rule of that behaviour, and none of the
  same behaviour is more specific.
\<close>
theorem evaluation_is_firewall:
  fixes env t args
  assumes "hash_order ord (rules rs)"
  defines "e \<equiv> evaluate_tool_permission ord env rs t args"
  shows "eval_behavior e = firewall_decision env rs t args \<and>
    (case matched_rule e of
       None \<Rightarrow> \<forall>b. \<not> some_rule env rs t args b
     | Some r \<Rightarrow> r \<in> ran (rules rs) \<and> rule_behavior r = eval_behavior e \<and>
         (\<exists>s. subject_matches_tool_call env (rule_subject r) t args = Some s \<and>
            (\<forall>r' \<in> ran (rules rs). \<forall>s'. rule_behavior r' = rule_behavior r \<longrightarrow>
               subject_matches_tool_call env (rule_subject r') t args = Some s' \<longrightarrow> s' \<le> s)))"
proof (cases "rule_for_tool_call ord env rs t args")
  case None
  then have "matched_rule e = None" "\<forall>b. \<not> some_rule env rs t args b"
    using rule_for_tool_call_None [OF assms(1)]
    by (simp add: e_def evaluate_tool_permission_def Let_def, blast)
  moreover have "eval_behavior e = firewall_decision env rs t args"
    unfolding e_def by (rule evaluation_decides [OF assms(1)])
  ultimately show ?thesis by simp
next
  case (Some r)
  have "matched_rule e = Some r" "eval_behavior e = rule_behavior r"
    using Some by (simp_all add: e_def evaluate_tool_permission_def Let_def)
  moreover have "eval_behavior e = firewall_decision env rs t args"
    unfolding e_def by (rule evaluation_decides [OF assms(1)])
  ultimately show ?thesis
    using rule_for_tool_call_Some [OF assms(1) Some] by fastforce
qed

definition sample_rules :: rule_map where
  "sample_rules = [''tool:Bash'' \<mapsto> rule_new_tool ''Bash'' Allow,
     ''pattern:Bash'' \<mapsto> rule_new_pattern (pattern_tool ''Bash'') Deny]"

definition sample_ruleset :: permission_ruleset where
  "sample_ruleset = \<lparr>default_behavior = Ask, rules = sample_rules\<rparr>"

lemma sample_order: "hash_order [''tool:Bash'', ''pattern:Bash''] sample_rules"
  by (auto simp: hash_order_def sample_rules_def)

lemma sample_deny_rule: "rule_new_pattern (pattern_tool ''Bash'') Deny \<in> ran sample_rules"
  by (rule ranI [of _ "''pattern:Bash''"]) (simp add: sample_rules_def)

lemma sample_denied: "firewall_decision env sample_ruleset ''Bash'' args = Deny"
proof -
  have "rule_new_pattern (pattern_tool ''Bash'') Deny \<in> ran sample_rules"
    by (rule sample_deny_rule)
  then have "some_rule env sample_ruleset ''Bash'' args Deny"
    unfolding some_rule_def
    by (intro bexI) (simp_all add: rule_new_pattern_def pattern_tool_def subject_matches_tool_call_def
        pattern_matches_def match_tool_def sample_ruleset_def)
  then show ?thesis by (simp add: firewall_decision_def)
qed

theorem evaluation_is_firewall_witness:
  "eval_behavior (evaluate_tool_permission [''tool:Bash'', ''pattern:Bash''] literal_env sample_ruleset
     ''Bash'' JNull) = Deny"
proof -
  have "hash_order [''tool:Bash'', ''pattern:Bash''] (rules sample_ruleset)"
    using sample_order by (simp add: sample_ruleset_def)
  from evaluation_is_firewall [OF this] sample_denied show ?thesis by simp
qed

section \<open>Unconditional denials\<close>

text \<open>The subjects that match a tool whatever its arguments are.\<close>

definition unconditional :: "permission_subject \<Rightarrow> bool" where
  "unconditional subject = (case subject of ToolSubject _ \<Rightarrow> True | PatternSubject p \<Rightarrow> tp_args p = AnyArgs)"

lemma unconditional_matches:
  assumes "unconditional subject"
  shows "subject_matches_tool_call env subject t args \<noteq> None \<longleftrightarrow> subject_matches_tool env subject t"
  using assms
  by (cases subject)
    (auto simp: unconditional_def subject_matches_tool_call_def subject_matches_tool_def
      pattern_matches_def is_match_def split: option.splits match_result.splits)

lemma exact_denial_Some:
  "exact_denial r = Some t \<Longrightarrow>
     unconditional (rule_subject r) \<and> subject_matches_tool env (rule_subject r) t"
  by (auto simp: exact_denial_def unconditional_def subject_matches_tool_def pattern_matches_def
      match_tool_def is_match_def split: permission_subject.splits tool_matcher.splits if_splits)

lemma expanded_denials_iff:
  "t \<in> expanded_denials env ids r \<longleftrightarrow> rule_behavior r = Deny \<and> unconditional (rule_subject r) \<and>
     t \<in> set ids \<and> subject_matches_tool env (rule_subject r) t \<and>
     (\<exists>p. rule_subject r = PatternSubject p \<and> (\<forall>name. tp_tool p \<noteq> ExactTool name))"
  by (auto simp: expanded_denials_def unconditional_def
      split: permission_subject.splits tool_matcher.splits)

lemma foldl_union: "foldl (\<lambda>d r. d \<union> f r) D xs = D \<union> (\<Union>r \<in> set xs. f r)"
  by (induction xs arbitrary: D) auto

lemma denied_tools_iff:
  "set (unconditionally_denied_tools ord rs) =
     {t. \<exists>r \<in> set (hm_values ord (rules rs)). rule_behavior r = Deny \<and> exact_denial r = Some t}"
proof -
  have "set (List.map_filter f xs) = {y. \<exists>x \<in> set xs. f x = Some y}" for f :: "permission_rule \<Rightarrow> string option" and xs
    by (induction xs) (auto simp: List.map_filter_simps split: option.split)
  then show ?thesis by (auto simp: unconditionally_denied_tools_def)
qed

lemma denied_against_iff:
  assumes "hash_order ord (rules rs)"
  shows "t \<in> unconditionally_denied_against ord env rs ids \<longleftrightarrow>
    (\<exists>r \<in> ran (rules rs). rule_behavior r = Deny \<and>
       (exact_denial r = Some t \<or> t \<in> expanded_denials env ids r))"
proof -
  have "expanded_denials env [] r = {}" for r
    by (auto simp: expanded_denials_iff)
  then show ?thesis
    using hash_order_values [OF assms]
    by (auto simp: unconditionally_denied_against_def Let_def foldl_union denied_tools_iff
        expanded_denials_iff)
qed

lemma denied_against_sound:
  assumes "hash_order ord (rules rs)" "t \<in> unconditionally_denied_against ord env rs ids"
  shows "some_rule env rs t args Deny"
proof -
  obtain r where r: "r \<in> ran (rules rs)" "rule_behavior r = Deny"
      "exact_denial r = Some t \<or> t \<in> expanded_denials env ids r"
    using assms by (auto simp: denied_against_iff)
  then have "unconditional (rule_subject r)" "subject_matches_tool env (rule_subject r) t"
    using exact_denial_Some by (auto simp: expanded_denials_iff)
  with unconditional_matches r show ?thesis unfolding some_rule_def by blast
qed

lemma denied_against_complete:
  assumes "hash_order ord (rules rs)" "r \<in> ran (rules rs)" "rule_behavior r = Deny"
    and "unconditional (rule_subject r)" "subject_matches_tool env (rule_subject r) t" "t \<in> set ids"
  shows "t \<in> unconditionally_denied_against ord env rs ids"
proof (cases "\<exists>p. rule_subject r = PatternSubject p \<and> (\<forall>name. tp_tool p \<noteq> ExactTool name)")
  case True
  with assms show ?thesis by (auto simp: denied_against_iff expanded_denials_iff)
next
  case False
  then have "exact_denial r = Some t"
    using assms(4,5)
    by (auto simp: exact_denial_def unconditional_def subject_matches_tool_def pattern_matches_def
        match_tool_def is_match_def split: permission_subject.splits tool_matcher.splits if_splits)
  with assms show ?thesis by (auto simp: denied_against_iff)
qed

section \<open>The hooks\<close>

definition context_rules :: "gate_context \<Rightarrow> permission_ruleset" where
  "context_rules ctx = permission_rules_from_state (ctx_policy ctx) (ctx_overrides ctx)"

definition context_args :: "gate_context \<Rightarrow> json" where
  "context_args ctx = (case ctx_tool_args ctx of None \<Rightarrow> JNull | Some v \<Rightarrow> v)"

definition approved :: "gate_context \<Rightarrow> bool" where
  "approved ctx \<longleftrightarrow> (\<exists>r. ctx_resume ctx = Some r \<and> tr_action r = Resume)"

lemma tool_gate_eq:
  assumes "hash_order ord (rules (context_rules ctx))" "ctx_tool_name ctx = Some t"
  shows "tool_gate ord env ctx = (case firewall_decision env (context_rules ctx) t (context_args ctx) of
      Allow \<Rightarrow> None
    | Deny \<Rightarrow> Some (Block (''Tool '' @ quoted t @ '' denied by permission rules''))
    | Ask \<Rightarrow> if approved ctx then None
             else Some (Suspend (suspend_payload ctx t (context_args ctx))))"
proof -
  have "approved ctx = (case ctx_resume ctx of None \<Rightarrow> False | Some r \<Rightarrow> tr_action r = Resume)"
    by (simp add: approved_def split: option.split)
  then show ?thesis
    using evaluation_decides [OF assms(1), of env t "context_args ctx"] assms(2)
    by (simp add: tool_gate_def Let_def flip: context_rules_def context_args_def cong: behavior.case_cong)
qed

text \<open>
  C13: The gate lets a named call through exactly when it is allowed, or when it must be asked for and
  the decision resumed it; a denied call is blocked even on resumption, and an unapproved one is
  suspended with its arguments for a replay of the call.
\<close>
theorem gate_enforces_decision:
  fixes env
  assumes "hash_order ord (rules (context_rules ctx))" "ctx_tool_name ctx = Some t"
  defines "d \<equiv> firewall_decision env (context_rules ctx) t (context_args ctx)"
  shows "(tool_gate ord env ctx = None \<longleftrightarrow> d = Allow \<or> (d = Ask \<and> approved ctx)) \<and>
    ((\<exists>reason. tool_gate ord env ctx = Some (Block reason)) \<longleftrightarrow> d = Deny) \<and>
    (\<forall>ticket. tool_gate ord env ctx = Some (Suspend ticket) \<longrightarrow> d = Ask \<and> \<not> approved ctx \<and>
       pending_arguments (ticket_pending ticket) = context_args ctx \<and>
       ticket_resume_mode ticket = ReplayToolCall)"
  using tool_gate_eq [OF assms(1,2), of env]
  by (cases d) (auto simp: d_def suspend_payload_def Let_def)

text \<open>
  C14: The tools that the filter hook hides from the model, listed once each in order, are tools every
  call of which the gate blocks, whatever the arguments and even on resumption. They include every
  registered tool that a deny rule without argument conditions matches.
\<close>
theorem hidden_tools_are_blocked:
  fixes registry env
  assumes "hash_order ord (rules (context_rules ctx))"
  defines "hidden \<equiv> tool_filter ord env (ctx_policy ctx) (ctx_overrides ctx) registry"
  shows "distinct hidden \<and> sorted hidden \<and>
    (ctx_tool_name ctx = Some t \<and> t \<in> set hidden \<longrightarrow> (\<exists>reason. tool_gate ord env ctx = Some (Block reason))) \<and>
    (\<forall>r \<in> ran (rules (context_rules ctx)). \<forall>ids. registry = Some ids \<longrightarrow> t \<in> set ids \<longrightarrow>
       rule_behavior r = Deny \<and> unconditional (rule_subject r) \<and>
       subject_matches_tool env (rule_subject r) t \<longrightarrow> t \<in> set hidden)"
proof -
  let ?ids = "case registry of None \<Rightarrow> [] | Some ids \<Rightarrow> ids"
  let ?denied = "unconditionally_denied_against ord env (context_rules ctx) ?ids"
  have hidden: "hidden = sorted_list_of_set ?denied"
    by (simp add: hidden_def tool_filter_def context_rules_def)
  have "?denied \<subseteq> set ?ids \<union> {t. \<exists>r \<in> set (hm_values ord (rules (context_rules ctx))). exact_denial r = Some t}"
    using hash_order_values [OF assms(1)]
    by (auto simp: denied_against_iff [OF assms(1)] expanded_denials_iff)
  moreover have "{t. \<exists>r \<in> set rs. exact_denial r = Some t} = set (List.map_filter exact_denial rs)" for rs
    by (induction rs) (auto simp: List.map_filter_simps split: option.split)
  ultimately have set_hidden: "set hidden = ?denied"
    unfolding hidden by (intro set_sorted_list_of_set) (metis List.finite_set finite_Un finite_subset)
  have "\<exists>reason. tool_gate ord env ctx = Some (Block reason)"
    if "ctx_tool_name ctx = Some t" "t \<in> set hidden"
  proof -
    have "some_rule env (context_rules ctx) t (context_args ctx) Deny"
      using that(2) by (intro denied_against_sound [OF assms(1)]) (simp add: set_hidden)
    then show ?thesis using tool_gate_eq [OF assms(1) that(1)] by (simp add: firewall_decision_def)
  qed
  moreover have "t \<in> set hidden"
    if "r \<in> ran (rules (context_rules ctx))" "registry = Some ids" "t \<in> set ids"
      "rule_behavior r = Deny" "unconditional (rule_subject r)" "subject_matches_tool env (rule_subject r) t"
    for r ids
    using denied_against_complete [OF assms(1) that(1,4-6), of ?ids] that(2,3) by (simp add: set_hidden)
  ultimately show ?thesis by (auto simp: hidden)
qed

definition sample_context :: gate_context where
  "sample_context = \<lparr>ctx_tool_name = Some ''Bash'', ctx_tool_args = None, ctx_tool_call_id = Some ''c1'',
     ctx_resume = None, ctx_policy = Some \<lparr>policy_default = Ask, policy_rules = sample_rules\<rparr>,
     ctx_overrides = None\<rparr>"

lemma sample_context_rules: "context_rules sample_context = sample_ruleset"
  by (simp add: context_rules_def sample_context_def sample_ruleset_def permission_rules_from_state_def)

theorem gate_enforces_decision_witness:
  "\<exists>reason. tool_gate [''tool:Bash'', ''pattern:Bash''] literal_env sample_context = Some (Block reason)"
proof -
  have "hash_order [''tool:Bash'', ''pattern:Bash''] (rules (context_rules sample_context))"
    using sample_order by (simp add: sample_context_rules sample_ruleset_def)
  from gate_enforces_decision [OF this, of "''Bash''" literal_env] sample_denied show ?thesis
    by (simp add: sample_context_rules) (simp add: sample_context_def)
qed

theorem hidden_tools_are_blocked_witness:
  "''Bash'' \<in> set (tool_filter [''tool:Bash'', ''pattern:Bash''] literal_env
     (ctx_policy sample_context) (ctx_overrides sample_context) (Some [''Bash'', ''Read'']))"
proof -
  have o: "hash_order [''tool:Bash'', ''pattern:Bash''] (rules (context_rules sample_context))"
    using sample_order by (simp add: sample_context_rules sample_ruleset_def)
  let ?r = "rule_new_pattern (pattern_tool ''Bash'') Deny"
  have "?r \<in> ran (rules (context_rules sample_context))"
    using sample_deny_rule by (simp add: sample_context_rules sample_ruleset_def)
  moreover have "rule_behavior ?r = Deny \<and> unconditional (rule_subject ?r) \<and>
      subject_matches_tool literal_env (rule_subject ?r) ''Bash''"
    by (simp add: unconditional_def rule_new_pattern_def pattern_tool_def subject_matches_tool_def
        pattern_matches_def match_tool_def is_match_def)
  moreover have "''Bash'' \<in> set [''Bash'', ''Read'']" by simp
  ultimately show ?thesis
    using hidden_tools_are_blocked [OF o, of literal_env "Some [''Bash'', ''Read'']" "''Bash''"]
    by blast
qed

section \<open>Overrides\<close>

text \<open>
  The overrides of a run replace rules of the policy under the same key only. A denial of the
  policy under a key without an override is not lifted by any override: the call stays denied.
\<close>
theorem overrides_do_not_lift_denials:
  fixes policy ov
  assumes "policy_rules policy k = Some r" "rule_behavior r = Deny" "override_rules ov k = None"
    and "subject_matches_tool_call env (rule_subject r) t args \<noteq> None"
  defines "rs \<equiv> permission_rules_from_state (Some policy) (Some ov)"
  assumes "hash_order ord (rules rs)"
  shows "eval_behavior (evaluate_tool_permission ord env rs t args) = Deny"
proof -
  have "rules rs k = Some r"
    using assms(1,3) by (simp add: rs_def permission_rules_from_state_def map_add_def)
  then have "r \<in> ran (rules rs)" by (auto simp: ran_def)
  with assms(2,4) have "some_rule env rs t args Deny" by (auto simp: some_rule_def)
  with evaluation_decides [OF assms(6)] show ?thesis by (simp add: firewall_decision_def)
qed

theorem overrides_do_not_lift_denials_witness:
  "eval_behavior (evaluate_tool_permission [''tool:Bash'', ''pattern:Bash''] literal_env
     (permission_rules_from_state
        (Some \<lparr>policy_default = Ask, policy_rules = [''pattern:Bash'' \<mapsto> rule_new_pattern (pattern_tool ''Bash'') Deny]\<rparr>)
        (Some \<lparr>override_rules = [''tool:Bash'' \<mapsto> rule_new_tool ''Bash'' Allow]\<rparr>)) ''Bash'' JNull) = Deny"
  by (rule overrides_do_not_lift_denials
      [where k = "''pattern:Bash''" and r = "rule_new_pattern (pattern_tool ''Bash'') Deny"])
    (auto simp: rule_new_pattern_def pattern_tool_def subject_matches_tool_call_def
      pattern_matches_def match_tool_def permission_rules_from_state_def hash_order_def)

end
