(* ===== verification/State_Key.thy ===== *)
theory State_Key
imports Prelude
begin

text \<open>
  The contract of a typed state key (\<^verbatim>\<open>trait StateKey\<close> of
  \<^verbatim>\<open>remo-runtime-contract/src/state/slot.rs\<close>): a default value and an \<^verbatim>\<open>apply\<close> that changes the
  value by an update. An \<^verbatim>\<open>apply\<close> that panics is \<^const>\<open>None\<close>.
\<close>

fun apply_updates :: "('v \<Rightarrow> 'u \<Rightarrow> 'v option) \<Rightarrow> 'v \<Rightarrow> 'u list \<Rightarrow> 'v option" where
  "apply_updates f v [] = Some v"
| "apply_updates f v (u # us) = (case f v u of None \<Rightarrow> None | Some v' \<Rightarrow> apply_updates f v' us)"

lemma apply_updates_append:
  "apply_updates f v (us @ ws) = Option.bind (apply_updates f v us) (\<lambda>v'. apply_updates f v' ws)"
  by (induction us arbitrary: v) (auto split: option.split)

text \<open>A key whose values keep a law: the default has it and every update keeps it.\<close>

locale lawful_key =
  fixes initial :: 'v
    and apply_update :: "'v \<Rightarrow> 'u \<Rightarrow> 'v option"
    and law :: "'v \<Rightarrow> bool"
  assumes initial_law: "law initial"
    and update_law: "law v \<Longrightarrow> apply_update v u = Some v' \<Longrightarrow> law v'"
begin

lemma updates_law: "law v \<Longrightarrow> apply_updates apply_update v us = Some v' \<Longrightarrow> law v'"
  by (induction us arbitrary: v) (auto intro: update_law split: option.splits)

lemma reachable_law: "apply_updates apply_update initial us = Some v \<Longrightarrow> law v"
  using initial_law by (rule updates_law)

end

end
