(* ===== verification/Permission_Config.thy ===== *)
theory Permission_Config
imports Permission_Correct State_Key
begin

text \<open>
  The policy and the overrides as state keys, and the two ways a configuration becomes a rule set:
  converted as a whole (\<^verbatim>\<open>into_ruleset\<close>) or seeded as updates of the policy when the plugin is
  activated.
\<close>

section \<open>Invariants of the reducers\<close>

definition keyed :: "rule_map \<Rightarrow> bool" where
  "keyed rm \<longleftrightarrow> (\<forall>k r. rm k = Some r \<longrightarrow> k = subject_key (rule_subject r))"

definition stamped :: "rule_source \<Rightarrow> rule_map \<Rightarrow> bool" where
  "stamped source rm \<longleftrightarrow> (\<forall>r \<in> ran rm. rule_source_of r = source \<and> rule_scope_of r = ScopeThread)"

lemmas rule_defs = rule_new_tool_def rule_new_pattern_def rule_with_scope_def rule_with_source_def

lemma keyed_upd: "keyed rm \<Longrightarrow> k = subject_key (rule_subject r) \<Longrightarrow> keyed (rm(k \<mapsto> r))"
  by (simp add: keyed_def)

lemma keyed_del: "keyed rm \<Longrightarrow> keyed (rm(k := None))"
  by (simp add: keyed_def)

lemma stamped_upd:
  "stamped source rm \<Longrightarrow> rule_source_of r = source \<Longrightarrow> rule_scope_of r = ScopeThread \<Longrightarrow>
     stamped source (rm(k \<mapsto> r))"
  by (auto simp: stamped_def ran_def)

lemma stamped_del: "stamped source rm \<Longrightarrow> stamped source (rm(k := None))"
  by (auto simp: stamped_def ran_def)

lemma reduce_action_law:
  assumes "keyed rm" "stamped source rm" "reduce_permission_action env action source rm = Some rm'"
  shows "keyed rm' \<and> stamped source rm'"
  using assms
  by (auto simp: reduce_permission_action_def upsert_tool_rule_def upsert_pattern_rule_def Let_def
      rule_defs keyed_upd keyed_del stamped_upd stamped_del keyed_def [of Map.empty]
      stamped_def [of _ Map.empty] split: permission_action.splits parse_outcome.splits)

definition policy_law :: "permission_policy \<Rightarrow> bool" where
  "policy_law p \<longleftrightarrow> keyed (policy_rules p) \<and> stamped SourceRuntime (policy_rules p)"

definition overrides_law :: "permission_overrides \<Rightarrow> bool" where
  "overrides_law ov \<longleftrightarrow> keyed (override_rules ov) \<and> stamped SourceSkill (override_rules ov)"

lemma policy_initial_law: "policy_law initial_policy"
  by (simp add: policy_law_def initial_policy_def keyed_def stamped_def)

lemma policy_update_law: "policy_law p \<Longrightarrow> reduce_policy env p a = Some p' \<Longrightarrow> policy_law p'"
  by (cases a) (auto simp: policy_law_def reduce_policy_def dest: reduce_action_law)

lemma overrides_initial_law: "overrides_law initial_overrides"
  by (simp add: overrides_law_def initial_overrides_def keyed_def stamped_def)

lemma overrides_update_law: "overrides_law p \<Longrightarrow> reduce_overrides env p a = Some p' \<Longrightarrow> overrides_law p'"
  by (auto simp: overrides_law_def reduce_overrides_def dest: reduce_action_law)

interpretation policy_key: lawful_key initial_policy "reduce_policy env" policy_law for env
  by unfold_locales (auto intro: policy_initial_law policy_update_law)

interpretation overrides_key: lawful_key initial_overrides "reduce_overrides env" overrides_law for env
  by unfold_locales (auto intro: overrides_initial_law overrides_update_law)

text \<open>
  In every policy and every set of overrides that updates can produce, a rule is stored under the key
  of its own subject, so two rules never have the same subject; the rules of the policy are
  marked as set at run time and those of the overrides as granted by a skill.
\<close>
theorem permission_state_keyed:
  "(apply_updates (reduce_policy env) initial_policy actions = Some p \<longrightarrow>
      keyed (policy_rules p) \<and> stamped SourceRuntime (policy_rules p)) \<and>
   (apply_updates (reduce_overrides env) initial_overrides actions = Some ov \<longrightarrow>
      keyed (override_rules ov) \<and> stamped SourceSkill (override_rules ov))"
  using policy_key.reachable_law [of env actions p] overrides_key.reachable_law [of env actions ov]
  by (simp add: policy_law_def overrides_law_def)

theorem permission_state_keyed_witness:
  "keyed (policy_rules (the (apply_updates (reduce_policy literal_env) initial_policy
     [AllowTool ''Bash'', DenyTool ''Bash'', RemoveTool ''Edit''])))"
proof -
  have "\<exists>p. apply_updates (reduce_policy literal_env) initial_policy
     [AllowTool ''Bash'', DenyTool ''Bash'', RemoveTool ''Edit''] = Some p"
    by (simp add: reduce_policy_def reduce_permission_action_def)
  with permission_state_keyed show ?thesis by fastforce
qed

text \<open>
  Removing a rule by the text it was set with, or by the canonical text of its pattern, undoes
  the setting: the policy has no rule under that subject any more and is otherwise unchanged.
\<close>
theorem remove_rule_undoes_set_rule:
  assumes "parse_pattern env text = Parsed q"
    and "reduce_policy env p (SetRule text b) = Some p1"
    and "removal = text \<or> (displayable env q \<and> removal = show_pattern q)"
  shows "reduce_policy env p1 (RemoveRule removal) =
    Some (p\<lparr>policy_rules := (policy_rules p)(subject_key (PatternSubject q) := None)\<rparr>)"
proof -
  have "parse_pattern env removal = Parsed q" using assms(1,3) pattern_round_trip by auto
  then show ?thesis
    using assms(1,2)
    by (auto simp: reduce_policy_def reduce_permission_action_def upsert_pattern_rule_def Let_def rule_defs)
qed

theorem remove_rule_undoes_set_rule_witness:
  "reduce_policy literal_env
     (the (reduce_policy literal_env initial_policy (SetRule (show_pattern sample_pattern) Deny)))
     (RemoveRule (show_pattern sample_pattern)) = Some initial_policy"
proof -
  have q: "parse_pattern literal_env (show_pattern sample_pattern) = Parsed sample_pattern"
    by (rule pattern_round_trip [OF sample_displayable])
  then obtain p1 where p1: "reduce_policy literal_env initial_policy (SetRule (show_pattern sample_pattern) Deny) = Some p1"
    by (simp add: reduce_policy_def reduce_permission_action_def upsert_pattern_rule_def Let_def)
  from remove_rule_undoes_set_rule [OF q p1, of "show_pattern sample_pattern"] p1 show ?thesis
    by (simp add: initial_policy_def)
qed

section \<open>Two readings of a configuration\<close>

text \<open>What decides about a rule map: the subject and the behaviour under each key.\<close>

definition essence :: "rule_map \<Rightarrow> string \<rightharpoonup> (permission_subject \<times> behavior)" where
  "essence rm = (\<lambda>k. map_option (\<lambda>r. (rule_subject r, rule_behavior r)) (rm k))"

lemma essence_upd:
  "essence rm = essence rm' \<Longrightarrow> rule_subject r = rule_subject r' \<Longrightarrow> rule_behavior r = rule_behavior r' \<Longrightarrow>
     essence (rm(k \<mapsto> r)) = essence (rm'(k \<mapsto> r'))"
  by (auto simp: essence_def fun_eq_iff)

lemma some_rule_essence:
  "some_rule env rs t args b \<longleftrightarrow>
     (\<exists>subject. (subject, b) \<in> ran (essence (rules rs)) \<and> subject_matches_tool_call env subject t args \<noteq> None)"
  by (fastforce simp: some_rule_def essence_def ran_def)

lemma firewall_essence:
  "essence (rules rs) = essence (rules rs') \<Longrightarrow> default_behavior rs = default_behavior rs' \<Longrightarrow>
     firewall_decision env rs t args = firewall_decision env rs' t args"
proof -
  assume "essence (rules rs) = essence (rules rs')" "default_behavior rs = default_behavior rs'"
  moreover from this have "some_rule env rs t args b = some_rule env rs' t args b" for b
    by (simp only: some_rule_essence)
  ultimately show ?thesis by (simp add: firewall_decision_def)
qed

definition entries_parse :: "pattern_env \<Rightarrow> permission_rule_entry list \<Rightarrow> bool" where
  "entries_parse env es \<longleftrightarrow> (\<forall>e \<in> set es. \<exists>q. parse_pattern env (entry_tool e) = Parsed q)"

lemma entries_agree:
  "entries_parse env es \<Longrightarrow> essence rm = essence (policy_rules p) \<Longrightarrow>
     \<exists>rm' p'. insert_entries env es rm = Some rm' \<and>
       apply_updates (reduce_policy env) p (map (\<lambda>e. SetRule (entry_tool e) (entry_behavior e)) es) = Some p' \<and>
       essence rm' = essence (policy_rules p') \<and> policy_default p' = policy_default p"
proof (induction es arbitrary: rm p)
  case (Cons e es)
  from Cons.prems(1) obtain q where q: "parse_pattern env (entry_tool e) = Parsed q"
      and es: "entries_parse env es"
    by (auto simp: entries_parse_def)
  define r where "r = \<lparr>rule_subject = PatternSubject q, rule_behavior = entry_behavior e,
    rule_scope_of = entry_scope e, rule_source_of = SourceDefinition\<rparr>"
  define r' where "r' = rule_with_source SourceRuntime (rule_with_scope ScopeThread (rule_new_pattern q (entry_behavior e)))"
  define k where "k = subject_key (PatternSubject q)"
  define rm1 where "rm1 = rm(k \<mapsto> r)"
  define p1 where "p1 = p\<lparr>policy_rules := (policy_rules p)(k \<mapsto> r')\<rparr>"
  have "insert_entries env (e # es) rm = insert_entries env es rm1"
    by (simp add: rule_from_entry_def q r_def rm1_def k_def)
  moreover have "reduce_policy env p (SetRule (entry_tool e) (entry_behavior e)) = Some p1"
    by (simp add: reduce_policy_def reduce_permission_action_def upsert_pattern_rule_def q r'_def
        rule_defs p1_def k_def)
  moreover have "essence rm1 = essence (policy_rules p1)"
    using Cons.prems(2) by (simp add: rm1_def p1_def essence_upd r_def r'_def rule_defs)
  moreover have "policy_default p1 = policy_default p" by (simp add: p1_def)
  ultimately show ?case
    using Cons.IH [OF es, of rm1 p1] by (simp del: insert_entries.simps)
qed simp

text \<open>
  When every entry of a configuration parses, converting the configuration and activating the
  plugin with it decide every tool call in the same way, although the stored rules differ in scope
  and source.
\<close>
theorem activation_agrees_with_ruleset:
  assumes "entries_parse env (config_rules config)"
  shows "\<exists>rs p. into_ruleset env config = Some rs \<and>
    apply_updates (reduce_policy env) initial_policy (activation_actions config) = Some p \<and>
    (\<forall>ord ord' t args. hash_order ord (rules rs) \<longrightarrow> hash_order ord' (policy_rules p) \<longrightarrow>
       eval_behavior (evaluate_tool_permission ord env rs t args) =
       eval_behavior (evaluate_tool_permission ord' env (permission_rules_from_state (Some p) None) t args))"
proof -
  let ?p0 = "initial_policy\<lparr>policy_default := config_default config\<rparr>"
  let ?sets = "map (\<lambda>e. SetRule (entry_tool e) (entry_behavior e)) (config_rules config)"
  obtain rm p where rm: "insert_entries env (config_rules config) Map.empty = Some rm" and
    p: "apply_updates (reduce_policy env) ?p0 ?sets = Some p"
      "essence rm = essence (policy_rules p)" "policy_default p = config_default config"
    using entries_agree [OF assms, of Map.empty ?p0] by (auto simp: initial_policy_def)
  have "apply_updates (reduce_policy env) initial_policy (activation_actions config) =
      apply_updates (reduce_policy env) ?p0 ?sets"
    by (simp add: activation_actions_def reduce_policy_def initial_policy_def)
  moreover have "eval_behavior (evaluate_tool_permission ord env \<lparr>default_behavior = config_default config, rules = rm\<rparr> t args) =
      eval_behavior (evaluate_tool_permission ord' env (permission_rules_from_state (Some p) None) t args)"
    if "hash_order ord rm" "hash_order ord' (policy_rules p)" for ord ord' t args
    using that p(2,3)
    by (simp add: evaluation_decides permission_rules_from_state_def)
      (rule firewall_essence; simp)
  ultimately show ?thesis
    using rm p(1) by (simp add: into_ruleset_def)
qed

definition sample_config :: permission_rules_config where
  "sample_config = \<lparr>config_default = Deny, config_rules =
     [\<lparr>entry_tool = show_pattern sample_pattern, entry_behavior = Allow, entry_scope = ScopeProject\<rparr>]\<rparr>"

theorem activation_agrees_with_ruleset_witness:
  "\<exists>rs p. into_ruleset literal_env sample_config = Some rs \<and>
    apply_updates (reduce_policy literal_env) initial_policy (activation_actions sample_config) = Some p"
proof -
  have "entries_parse literal_env (config_rules sample_config)"
    using pattern_round_trip [OF sample_displayable] by (auto simp: sample_config_def entries_parse_def)
  from activation_agrees_with_ruleset [OF this] show ?thesis by blast
qed

end
