(* ===== verification/State_Engine.thy ===== *)
theory State_Engine
imports State_Key Tool_Pattern
begin

text \<open>
  The state engine of the runtime: typed state maps, mutation batches and commands
  (\<^verbatim>\<open>remo-runtime-contract/src/state\<close>), the key registry of the plugins (\<^verbatim>\<open>remo-runtime/src/plugins/registry.rs\<close>),
  the store with its commit (\<^verbatim>\<open>remo-runtime/src/state/store.rs\<close>), persistence (\<^verbatim>\<open>persistence.rs\<close>), and
  the check of parallel batches (\<^verbatim>\<open>loop_runner/parallel_merge.rs\<close>).

  A \<^verbatim>\<open>TypeId\<close> is a name; the values of all keys live in one type \<open>'v\<close> and their updates in \<open>'u\<close>. An
  operation runs under the locks the code holds, so it is one step. The commit hooks are told the
  event that \<open>commit\<close> returns.
\<close>

section \<open>Errors and keys\<close>

datatype phase = RunStart | StepStart | BeforeInference | AfterInference | ToolGate
  | BeforeToolExecute | AfterToolExecute | StepEnd | RunEnd

datatype state_error =
    RevisionConflict u64 u64
  | MutationBaseRevisionMismatch u64 u64
  | PluginAlreadyInstalled string
  | PluginNotInstalled string
  | KeyAlreadyRegistered string
  | UnknownKey string
  | KeyDecode string string
  | KeyEncode string string
  | HandlerAlreadyRegistered string
  | EffectHandlerAlreadyRegistered string
  | PhaseRunLoopExceeded phase nat
  | UnknownScheduledActionHandler string
  | UnknownEffectHandler string
  | ParallelMergeConflict string
  | ToolAlreadyRegistered string
  | OperationCancelled

fun show_phase :: "phase \<Rightarrow> string" where
  "show_phase RunStart = ''RunStart''"
| "show_phase StepStart = ''StepStart''"
| "show_phase BeforeInference = ''BeforeInference''"
| "show_phase AfterInference = ''AfterInference''"
| "show_phase ToolGate = ''ToolGate''"
| "show_phase BeforeToolExecute = ''BeforeToolExecute''"
| "show_phase AfterToolExecute = ''AfterToolExecute''"
| "show_phase StepEnd = ''StepEnd''"
| "show_phase RunEnd = ''RunEnd''"

fun show_state_error :: "state_error \<Rightarrow> string" where
  "show_state_error (RevisionConflict e a) =
     ''revision conflict: expected '' @ show_nat (unat e) @ '', actual '' @ show_nat (unat a)"
| "show_state_error (MutationBaseRevisionMismatch l r) =
     ''patch base revision mismatch: '' @ show_nat (unat l) @ '' vs '' @ show_nat (unat r)"
| "show_state_error (PluginAlreadyInstalled n) = ''plugin already installed: '' @ n"
| "show_state_error (PluginNotInstalled n) = ''plugin not installed: '' @ n"
| "show_state_error (KeyAlreadyRegistered k) = ''key already registered: '' @ k"
| "show_state_error (UnknownKey k) = ''unknown key: '' @ k"
| "show_state_error (KeyDecode k m) = ''failed to decode key '' @ k @ '': '' @ m"
| "show_state_error (KeyEncode k m) = ''failed to encode key '' @ k @ '': '' @ m"
| "show_state_error (HandlerAlreadyRegistered k) = ''scheduled action handler already registered: '' @ k"
| "show_state_error (EffectHandlerAlreadyRegistered k) = ''effect handler already registered: '' @ k"
| "show_state_error (PhaseRunLoopExceeded p n) =
     ''phase '' @ show_phase p @ '' did not converge after '' @ show_nat n @ '' rounds''"
| "show_state_error (UnknownScheduledActionHandler k) =
     ''no scheduled action handler registered for '' @ k"
| "show_state_error (UnknownEffectHandler k) = ''no effect handler registered for '' @ k"
| "show_state_error (ParallelMergeConflict k) = ''parallel merge conflict on exclusive key: '' @ k"
| "show_state_error (ToolAlreadyRegistered t) = ''tool already registered: '' @ t"
| "show_state_error OperationCancelled = ''operation cancelled''"

datatype unknown_key_policy = FailOnUnknown | SkipUnknown

type_synonym type_id = string

datatype key_scope = RunScope | ThreadScope

datatype merge_strategy = Exclusive | Commutative

record state_key_options =
  persistent :: bool
  retain_on_uninstall :: bool
  opt_scope :: key_scope

text \<open>\<^verbatim>\<open>trait StateKey\<close>: the constants and functions of a key type.\<close>

record ('v, 'u) state_key =
  key_type :: type_id
  key_name :: string
  key_merge :: merge_strategy
  key_default :: 'v
  key_apply :: "'v \<Rightarrow> 'u \<Rightarrow> 'v"
  key_encode :: "'v \<Rightarrow> state_error + json"
  key_decode :: "json \<Rightarrow> state_error + 'v"

section \<open>State maps\<close>

type_synonym 'v state_map = "type_id \<rightharpoonup> 'v"

definition state_contains :: "('v, 'u) state_key \<Rightarrow> 'v state_map \<Rightarrow> bool" where
  "state_contains k m \<longleftrightarrow> m (key_type k) \<noteq> None"

definition state_get :: "('v, 'u) state_key \<Rightarrow> 'v state_map \<Rightarrow> 'v option" where
  "state_get k m = m (key_type k)"

definition state_insert :: "('v, 'u) state_key \<Rightarrow> 'v \<Rightarrow> 'v state_map \<Rightarrow> 'v state_map" where
  "state_insert k v m = m(key_type k \<mapsto> v)"

definition state_remove :: "('v, 'u) state_key \<Rightarrow> 'v state_map \<Rightarrow> 'v option \<times> 'v state_map" where
  "state_remove k m = (m (key_type k), m(key_type k := None))"

text \<open>The value, and the map that holds it; its \<^verbatim>\<open>expect\<close> never fails.\<close>

definition get_or_insert_default :: "('v, 'u) state_key \<Rightarrow> 'v state_map \<Rightarrow> 'v \<times> 'v state_map" where
  "get_or_insert_default k m =
     (let m' = (if state_contains k m then m else state_insert k (key_default k) m)
      in (the (state_get k m'), m'))"

record 'v snapshot =
  revision :: u64
  ext :: "'v state_map"

section \<open>Mutation batches\<close>

datatype ('v, 'u) mutation_op =
    KeyPatch "('v, 'u) state_key" 'u
  | ClearKey "'v state_map \<Rightarrow> 'v state_map"

definition op_apply :: "('v, 'u) mutation_op \<Rightarrow> 'v snapshot \<Rightarrow> 'v snapshot" where
  "op_apply op s = (case op of
      KeyPatch k u \<Rightarrow> (case get_or_insert_default k (ext s) of
        (v, m) \<Rightarrow> s\<lparr>ext := state_insert k (key_apply k v u) m\<rparr>)
    | ClearKey clear \<Rightarrow> s\<lparr>ext := clear (ext s)\<rparr>)"

record ('v, 'u) mutation_batch =
  base_revision :: "u64 option"
  batch_ops :: "('v, 'u) mutation_op list"
  touched_keys :: "string list"

definition batch_new :: "('v, 'u) mutation_batch" where
  "batch_new = \<lparr>base_revision = None, batch_ops = [], touched_keys = []\<rparr>"

definition with_base_revision :: "u64 \<Rightarrow> ('v, 'u) mutation_batch \<Rightarrow> ('v, 'u) mutation_batch" where
  "with_base_revision r b = b\<lparr>base_revision := Some r\<rparr>"

definition batch_is_empty :: "('v, 'u) mutation_batch \<Rightarrow> bool" where
  "batch_is_empty b \<longleftrightarrow> batch_ops b = []"

definition batch_update :: "('v, 'u) state_key \<Rightarrow> 'u \<Rightarrow> ('v, 'u) mutation_batch \<Rightarrow> ('v, 'u) mutation_batch" where
  "batch_update k u b =
     b\<lparr>batch_ops := batch_ops b @ [KeyPatch k u], touched_keys := touched_keys b @ [key_name k]\<rparr>"

definition clear_extension_with ::
    "string \<Rightarrow> ('v state_map \<Rightarrow> 'v state_map) \<Rightarrow> ('v, 'u) mutation_batch \<Rightarrow> ('v, 'u) mutation_batch" where
  "clear_extension_with key clear b =
     b\<lparr>batch_ops := batch_ops b @ [ClearKey clear], touched_keys := touched_keys b @ [key]\<rparr>"

definition reconcile_revisions :: "u64 option \<Rightarrow> u64 option \<Rightarrow> state_error + u64 option" where
  "reconcile_revisions l r = (case (l, r) of
      (Some a, Some b) \<Rightarrow> if a \<noteq> b then Inl (MutationBaseRevisionMismatch a b) else Inr (Some a)
    | (Some a, None) \<Rightarrow> Inr (Some a)
    | (None, Some b) \<Rightarrow> Inr (Some b)
    | (None, None) \<Rightarrow> Inr None)"

definition append_batch :: "u64 option \<Rightarrow> ('v, 'u) mutation_batch \<Rightarrow> ('v, 'u) mutation_batch \<Rightarrow>
    ('v, 'u) mutation_batch" where
  "append_batch base a b = \<lparr>base_revision = base, batch_ops = batch_ops a @ batch_ops b,
     touched_keys = touched_keys a @ touched_keys b\<rparr>"

definition batch_extend ::
    "('v, 'u) mutation_batch \<Rightarrow> ('v, 'u) mutation_batch \<Rightarrow> (state_error + unit) \<times> ('v, 'u) mutation_batch" where
  "batch_extend a b = (case reconcile_revisions (base_revision a) (base_revision b) of
      Inl e \<Rightarrow> (Inl e, a)
    | Inr base \<Rightarrow> (Inr (), append_batch base a b))"

text \<open>The first key of the right batch that both touch and that is exclusive is the conflict.\<close>

definition batch_merge_parallel :: "(string \<Rightarrow> merge_strategy) \<Rightarrow> ('v, 'u) mutation_batch \<Rightarrow>
    ('v, 'u) mutation_batch \<Rightarrow> state_error + ('v, 'u) mutation_batch" where
  "batch_merge_parallel strategy a b =
     (case reconcile_revisions (base_revision a) (base_revision b) of
        Inl e \<Rightarrow> Inl e
      | Inr base \<Rightarrow>
          (case find (\<lambda>key. key \<in> set (touched_keys a) \<and> strategy key = Exclusive) (touched_keys b) of
             Some key \<Rightarrow> Inl (ParallelMergeConflict key)
           | None \<Rightarrow> Inr (append_batch base a b)))"

section \<open>Commands\<close>

record ('v, 'u, 'a, 'e) state_command =
  cmd_patch :: "('v, 'u) mutation_batch"
  scheduled_actions :: "'a list"
  cmd_effects :: "'e list"

definition command_new :: "('v, 'u, 'a, 'e) state_command" where
  "command_new = \<lparr>cmd_patch = batch_new, scheduled_actions = [], cmd_effects = []\<rparr>"

definition command_is_empty :: "('v, 'u, 'a, 'e) state_command \<Rightarrow> bool" where
  "command_is_empty c \<longleftrightarrow> batch_is_empty (cmd_patch c) \<and> scheduled_actions c = [] \<and> cmd_effects c = []"

definition command_extend :: "('v, 'u, 'a, 'e) state_command \<Rightarrow> ('v, 'u, 'a, 'e) state_command \<Rightarrow>
    (state_error + unit) \<times> ('v, 'u, 'a, 'e) state_command" where
  "command_extend c d = (case batch_extend (cmd_patch c) (cmd_patch d) of
      (Inl e, p) \<Rightarrow> (Inl e, c\<lparr>cmd_patch := p\<rparr>)
    | (Inr _, p) \<Rightarrow> (Inr (), c\<lparr>cmd_patch := p, scheduled_actions := scheduled_actions c @ scheduled_actions d,
        cmd_effects := cmd_effects c @ cmd_effects d\<rparr>))"

definition command_merge_parallel :: "(string \<Rightarrow> merge_strategy) \<Rightarrow> ('v, 'u, 'a, 'e) state_command \<Rightarrow>
    ('v, 'u, 'a, 'e) state_command \<Rightarrow> state_error + ('v, 'u, 'a, 'e) state_command" where
  "command_merge_parallel strategy c d =
     (case batch_merge_parallel strategy (cmd_patch c) (cmd_patch d) of
        Inl e \<Rightarrow> Inl e
      | Inr p \<Rightarrow> Inr \<lparr>cmd_patch = p, scheduled_actions = scheduled_actions c @ scheduled_actions d,
                   cmd_effects = cmd_effects c @ cmd_effects d\<rparr>)"

section \<open>The key registry\<close>

record 'v key_registration =
  reg_type :: type_id
  reg_key :: string
  reg_options :: state_key_options
  reg_merge :: merge_strategy
  reg_scope :: key_scope
  reg_export :: "'v state_map \<Rightarrow> state_error + json option"
  reg_import :: "'v state_map \<Rightarrow> json \<Rightarrow> state_error + 'v state_map"
  reg_clear :: "'v state_map \<Rightarrow> 'v state_map"

definition key_registration_new :: "('v, 'u) state_key \<Rightarrow> state_key_options \<Rightarrow> 'v key_registration" where
  "key_registration_new k options =
     \<lparr>reg_type = key_type k, reg_key = key_name k, reg_options = options, reg_merge = key_merge k,
      reg_scope = opt_scope options,
      reg_export = (\<lambda>m. case state_get k m of
          Some v \<Rightarrow> (case key_encode k v of Inl e \<Rightarrow> Inl e | Inr j \<Rightarrow> Inr (Some j))
        | None \<Rightarrow> Inr None),
      reg_import = (\<lambda>m j. case key_decode k j of Inl e \<Rightarrow> Inl e | Inr v \<Rightarrow> Inr (state_insert k v m)),
      reg_clear = (\<lambda>m. snd (state_remove k m))\<rparr>"

record 'v plugin_registry =
  plugins :: "type_id \<rightharpoonup> type_id list"
  keys_by_type :: "type_id \<rightharpoonup> 'v key_registration"
  keys_by_name :: "string \<rightharpoonup> 'v key_registration"

definition registry_merge_strategy :: "'v plugin_registry \<Rightarrow> string \<Rightarrow> merge_strategy" where
  "registry_merge_strategy reg key =
     (case keys_by_name reg key of Some r \<Rightarrow> reg_merge r | None \<Rightarrow> Exclusive)"

definition ensure_key :: "'v plugin_registry \<Rightarrow> string \<Rightarrow> state_error + unit" where
  "ensure_key reg key = (if keys_by_name reg key \<noteq> None then Inr () else Inl (UnknownKey key))"

text \<open>What a plugin registers while it is installed.\<close>

record 'v plugin_registrar =
  pr_keys :: "'v key_registration list"
  pr_type_ids :: "type_id set"
  pr_names :: "string set"

definition registrar_new :: "'v plugin_registrar" where
  "registrar_new = \<lparr>pr_keys = [], pr_type_ids = {}, pr_names = {}\<rparr>"

definition register_key :: "('v, 'u) state_key \<Rightarrow> state_key_options \<Rightarrow> 'v plugin_registrar \<Rightarrow>
    (state_error + unit) \<times> 'v plugin_registrar" where
  "register_key k options r =
     (if key_type k \<in> pr_type_ids r then (Inl (KeyAlreadyRegistered (key_name k)), r)
      else
        let r1 = r\<lparr>pr_type_ids := insert (key_type k) (pr_type_ids r)\<rparr> in
        if key_name k \<in> pr_names r then (Inl (KeyAlreadyRegistered (key_name k)), r1)
        else (Inr (), r1\<lparr>pr_names := insert (key_name k) (pr_names r),
                pr_keys := pr_keys r @ [key_registration_new k options]\<rparr>))"

section \<open>The store\<close>

record 'v state_store =
  snap :: "'v snapshot"
  registry :: "'v plugin_registry"

record 'v commit_event =
  previous_revision :: u64
  new_revision :: u64
  op_count :: nat
  event_snapshot :: "'v snapshot"

definition state_store_new :: "'v state_store" where
  "state_store_new = \<lparr>snap = \<lparr>revision = 0, ext = Map.empty\<rparr>,
     registry = \<lparr>plugins = Map.empty, keys_by_type = Map.empty, keys_by_name = Map.empty\<rparr>\<rparr>"

definition store_read :: "('v, 'u) state_key \<Rightarrow> 'v state_store \<Rightarrow> 'v option" where
  "store_read k st = state_get k (ext (snap st))"

definition store_merge_parallel :: "'v state_store \<Rightarrow> ('v, 'u) mutation_batch \<Rightarrow> ('v, 'u) mutation_batch \<Rightarrow>
    state_error + ('v, 'u) mutation_batch" where
  "store_merge_parallel st l r = batch_merge_parallel (registry_merge_strategy (registry st)) l r"

fun merge_commands_from :: "(string \<Rightarrow> merge_strategy) \<Rightarrow> ('v, 'u, 'a, 'e) state_command \<Rightarrow>
    ('v, 'u, 'a, 'e) state_command list \<Rightarrow> state_error + ('v, 'u, 'a, 'e) state_command" where
  "merge_commands_from strategy acc [] = Inr acc"
| "merge_commands_from strategy acc (c # cs) =
     (case command_merge_parallel strategy acc c of
        Inl e \<Rightarrow> Inl e
      | Inr acc' \<Rightarrow> merge_commands_from strategy acc' cs)"

definition merge_all_commands :: "'v state_store \<Rightarrow> ('v, 'u, 'a, 'e) state_command list \<Rightarrow>
    state_error + ('v, 'u, 'a, 'e) state_command" where
  "merge_all_commands st cs = merge_commands_from (registry_merge_strategy (registry st)) command_new cs"

fun ensure_keys :: "'v plugin_registry \<Rightarrow> string list \<Rightarrow> state_error + unit" where
  "ensure_keys reg [] = Inr ()"
| "ensure_keys reg (k # ks) = (case ensure_key reg k of Inl e \<Rightarrow> Inl e | Inr _ \<Rightarrow> ensure_keys reg ks)"

definition apply_ops :: "('v, 'u) mutation_op list \<Rightarrow> 'v snapshot \<Rightarrow> 'v snapshot" where
  "apply_ops ops s = foldl (\<lambda>s op. op_apply op s) s ops"

text \<open>The result, the store after it, and the event the hooks are told.\<close>

definition store_commit :: "('v, 'u) mutation_batch \<Rightarrow> 'v state_store \<Rightarrow>
    (state_error + u64) \<times> 'v state_store \<times> 'v commit_event option" where
  "store_commit patch st =
     (if batch_is_empty patch then (Inr (revision (snap st)), st, None)
      else if (case base_revision patch of None \<Rightarrow> False | Some expected \<Rightarrow> revision (snap st) \<noteq> expected)
      then (Inl (RevisionConflict (the (base_revision patch)) (revision (snap st))), st, None)
      else (case ensure_keys (registry st) (touched_keys patch) of
          Inl e \<Rightarrow> (Inl e, st, None)
        | Inr _ \<Rightarrow>
            let prev = revision (snap st);
                s1 = apply_ops (batch_ops patch) (snap st);
                s2 = s1\<lparr>revision := revision s1 + 1\<rparr>
            in (Inr (revision s2), st\<lparr>snap := s2\<rparr>,
                Some \<lparr>previous_revision = prev, new_revision = revision s2,
                      op_count = length (batch_ops patch), event_snapshot = s2\<rparr>)))"

definition insert_registration :: "'v key_registration \<Rightarrow> 'v plugin_registry \<Rightarrow> 'v plugin_registry" where
  "insert_registration r reg = reg\<lparr>keys_by_name := (keys_by_name reg)(reg_key r \<mapsto> r),
     keys_by_type := (keys_by_type reg)(reg_type r \<mapsto> r)\<rparr>"

definition install_plugin_with_keys :: "type_id \<Rightarrow> string \<Rightarrow> 'v key_registration list \<Rightarrow> 'v state_store \<Rightarrow>
    (state_error + unit) \<times> 'v state_store" where
  "install_plugin_with_keys ptype name regs st =
     (let reg = registry st in
      if plugins reg ptype \<noteq> None then (Inl (PluginAlreadyInstalled name), st)
      else (case find (\<lambda>r. keys_by_name reg (reg_key r) \<noteq> None) regs of
          Some r \<Rightarrow> (Inl (KeyAlreadyRegistered (reg_key r)), st)
        | None \<Rightarrow>
            let reg1 = foldl (\<lambda>g r. insert_registration r g) reg regs in
            (Inr (), st\<lparr>registry := reg1\<lparr>plugins := (plugins reg1)(ptype \<mapsto> map reg_type regs)\<rparr>\<rparr>)))"

text \<open>\<open>register\<close> is what the plugin does with a fresh registrar.\<close>

definition install_plugin :: "type_id \<Rightarrow> string \<Rightarrow>
    ('v plugin_registrar \<Rightarrow> (state_error + unit) \<times> 'v plugin_registrar) \<Rightarrow> 'v state_store \<Rightarrow>
    (state_error + unit) \<times> 'v state_store" where
  "install_plugin ptype name register st = (case register registrar_new of
      (Inl e, _) \<Rightarrow> (Inl e, st)
    | (Inr _, r) \<Rightarrow> install_plugin_with_keys ptype name (pr_keys r) st)"

definition register_keys :: "'v key_registration list \<Rightarrow> 'v state_store \<Rightarrow> 'v state_store" where
  "register_keys regs st = st\<lparr>registry := foldl (\<lambda>g r.
     if keys_by_name g (reg_key r) \<noteq> None then g else insert_registration r g) (registry st) regs\<rparr>"

definition unregister_type :: "type_id \<Rightarrow> 'v plugin_registry \<Rightarrow> 'v plugin_registry" where
  "unregister_type t reg = (case keys_by_type reg t of
      None \<Rightarrow> reg
    | Some r \<Rightarrow> reg\<lparr>keys_by_type := (keys_by_type reg)(t := None),
                  keys_by_name := (keys_by_name reg)(reg_key r := None)\<rparr>)"

definition unregister_plugin_type_id :: "type_id \<Rightarrow> 'v state_store \<Rightarrow> (state_error + unit) \<times> 'v state_store" where
  "unregister_plugin_type_id ptype st = (case plugins (registry st) ptype of
      None \<Rightarrow> (Inl (PluginNotInstalled ''unknown''), st)
    | Some owned \<Rightarrow>
        let reg = (registry st)\<lparr>plugins := (plugins (registry st))(ptype := None)\<rparr>
        in (Inr (), st\<lparr>registry := foldl (\<lambda>g t. unregister_type t g) reg owned\<rparr>))"

definition uninstall_patch :: "'v key_registration list \<Rightarrow> u64 \<Rightarrow> ('v, unit) mutation_batch" where
  "uninstall_patch regs base =
     foldl (\<lambda>b r. if retain_on_uninstall (reg_options r) then b
                  else clear_extension_with (reg_key r) (reg_clear r) b)
       (with_base_revision base batch_new) regs"

text \<open>
  \<^verbatim>\<open>uninstall_plugin\<close> takes a lock four times (to read the registrations, to read the revision, to commit
  and to unregister); the model is one step, the run in which nothing is committed or installed in between. A
  commit between the second and the third makes the code fail with \<open>RevisionConflict\<close> and leave the plugin
  installed, as \<open>store_commit\<close> does for a stale base revision.
\<close>

definition uninstall_plugin :: "type_id \<Rightarrow> string \<Rightarrow> 'v state_store \<Rightarrow>
    (state_error + unit) \<times> 'v state_store" where
  "uninstall_plugin ptype type_name st = (case plugins (registry st) ptype of
      None \<Rightarrow> (Inl (PluginNotInstalled type_name), st)
    | Some owned \<Rightarrow>
        (case store_commit (uninstall_patch (List.map_filter (keys_by_type (registry st)) owned)
                  (revision (snap st))) st of
           (Inl e, st1, _) \<Rightarrow> (Inl e, st1)
         | (Inr _, st1, _) \<Rightarrow> unregister_plugin_type_id ptype st1))"

section \<open>Persistence\<close>

record persisted_state =
  persisted_revision :: u64
  extensions :: "string \<rightharpoonup> json"

definition export_error :: "'v key_registration \<Rightarrow> state_error \<Rightarrow> state_error" where
  "export_error r e = (case e of KeyEncode k m \<Rightarrow> KeyEncode k m
     | other \<Rightarrow> KeyEncode (reg_key r) (show_state_error other))"

definition import_error :: "'v key_registration \<Rightarrow> state_error \<Rightarrow> state_error" where
  "import_error r e = (case e of KeyDecode k m \<Rightarrow> KeyDecode k m
     | other \<Rightarrow> KeyDecode (reg_key r) (show_state_error other))"

text \<open>The loop over the registrations, in the order \<^verbatim>\<open>keys_by_type\<close> iterates.\<close>

fun export_loop :: "(key_scope \<Rightarrow> bool) \<Rightarrow> 'v state_map \<Rightarrow> 'v key_registration list \<Rightarrow> (string \<rightharpoonup> json) \<Rightarrow>
    state_error + (string \<rightharpoonup> json)" where
  "export_loop incl m [] out = Inr out"
| "export_loop incl m (r # rs) out =
     (if \<not> persistent (reg_options r) \<or> \<not> incl (reg_scope r) then export_loop incl m rs out
      else (case reg_export r m of
          Inl e \<Rightarrow> Inl (export_error r e)
        | Inr None \<Rightarrow> export_loop incl m rs out
        | Inr (Some j) \<Rightarrow> export_loop incl m rs (out(reg_key r \<mapsto> j))))"

definition export_filtered :: "type_id list \<Rightarrow> (key_scope \<Rightarrow> bool) \<Rightarrow> 'v state_store \<Rightarrow>
    state_error + persisted_state" where
  "export_filtered ord incl st =
     (case export_loop incl (ext (snap st)) (hm_values ord (keys_by_type (registry st))) Map.empty of
        Inl e \<Rightarrow> Inl e
      | Inr out \<Rightarrow> Inr \<lparr>persisted_revision = revision (snap st), extensions = out\<rparr>)"

definition export_persisted :: "type_id list \<Rightarrow> 'v state_store \<Rightarrow> state_error + persisted_state" where
  "export_persisted ord st = export_filtered ord (\<lambda>_. True) st"

definition export_thread_scoped :: "type_id list \<Rightarrow> 'v state_store \<Rightarrow> state_error + persisted_state" where
  "export_thread_scoped ord st = export_filtered ord (\<lambda>scope. scope = ThreadScope) st"

definition export_run_scoped :: "type_id list \<Rightarrow> 'v state_store \<Rightarrow> state_error + persisted_state" where
  "export_run_scoped ord st = export_filtered ord (\<lambda>scope. scope \<noteq> ThreadScope) st"

text \<open>
  The loop over the persisted keys in the order their map iterates: the error it stops with and the
  state map it leaves.
\<close>

fun import_loop :: "'v plugin_registry \<Rightarrow> unknown_key_policy \<Rightarrow> (key_scope \<Rightarrow> bool) \<Rightarrow> (string \<rightharpoonup> json) \<Rightarrow>
    string list \<Rightarrow> 'v state_map \<Rightarrow> (state_error + unit) \<times> 'v state_map" where
  "import_loop reg policy incl exts [] m = (Inr (), m)"
| "import_loop reg policy incl exts (k # ks) m =
     (case exts k of
        None \<Rightarrow> import_loop reg policy incl exts ks m
      | Some j \<Rightarrow>
          (case keys_by_name reg k of
             None \<Rightarrow> (case policy of
                 FailOnUnknown \<Rightarrow> (Inl (UnknownKey k), m)
               | SkipUnknown \<Rightarrow> import_loop reg policy incl exts ks m)
           | Some r \<Rightarrow>
               if \<not> incl (reg_scope r) then import_loop reg policy incl exts ks m
               else (case reg_import r m j of
                   Inl e \<Rightarrow> (Inl (import_error r e), m)
                 | Inr m' \<Rightarrow> import_loop reg policy incl exts ks m')))"

definition restore_persisted :: "string list \<Rightarrow> persisted_state \<Rightarrow> unknown_key_policy \<Rightarrow> 'v state_store \<Rightarrow>
    (state_error + unit) \<times> 'v state_store" where
  "restore_persisted ord p policy st =
     (case import_loop (registry st) policy (\<lambda>_. True) (extensions p) ord Map.empty of
        (Inl e, _) \<Rightarrow> (Inl e, st)
      | (Inr _, m) \<Rightarrow> (Inr (), st\<lparr>snap := \<lparr>revision = persisted_revision p, ext = m\<rparr>\<rparr>))"

definition restore_thread_scoped :: "string list \<Rightarrow> persisted_state \<Rightarrow> unknown_key_policy \<Rightarrow> 'v state_store \<Rightarrow>
    (state_error + unit) \<times> 'v state_store" where
  "restore_thread_scoped ord p policy st =
     (case import_loop (registry st) policy (\<lambda>scope. scope = ThreadScope) (extensions p) ord (ext (snap st)) of
        (r, m) \<Rightarrow> (r, st\<lparr>snap := (snap st)\<lparr>ext := m\<rparr>\<rparr>))"

definition apply_seed :: "string list \<Rightarrow> persisted_state \<Rightarrow> unknown_key_policy \<Rightarrow> 'v state_store \<Rightarrow>
    (state_error + unit) \<times> 'v state_store" where
  "apply_seed ord p policy st =
     (case import_loop (registry st) policy (\<lambda>_. True) (extensions p) ord (ext (snap st)) of
        (Inl e, _) \<Rightarrow> (Inl e, st)
      | (Inr _, m) \<Rightarrow> (Inr (), st\<lparr>snap := (snap st)\<lparr>ext := m\<rparr>\<rparr>))"

definition clear_run_scoped :: "type_id list \<Rightarrow> 'v state_store \<Rightarrow> 'v state_store" where
  "clear_run_scoped ord st = st\<lparr>snap := (snap st)\<lparr>ext :=
     foldl (\<lambda>m r. if reg_scope r = RunScope then reg_clear r m else m)
       (ext (snap st)) (hm_values ord (keys_by_type (registry st)))\<rparr>\<rparr>"

section \<open>Parallel batches of tool calls\<close>

record tool_state_batch =
  tsb_call_id :: string
  tsb_touched :: "string list"

datatype parallel_merge_error = ExclusiveConflict string string string

definition add_owner :: "string \<Rightarrow> (string \<rightharpoonup> string list) \<Rightarrow> string \<Rightarrow> (string \<rightharpoonup> string list)" where
  "add_owner call_id owners key =
     owners(key \<mapsto> (case owners key of None \<Rightarrow> [] | Some cs \<Rightarrow> cs) @ [call_id])"

definition key_owners :: "tool_state_batch list \<Rightarrow> (string \<rightharpoonup> string list)" where
  "key_owners batches =
     foldl (\<lambda>owners b. foldl (add_owner (tsb_call_id b)) owners (tsb_touched b)) Map.empty batches"

text \<open>\<open>ord\<close> is the order in which \<open>key_owners batches\<close> iterates.\<close>

definition validate_parallel_state_batches :: "string list \<Rightarrow> tool_state_batch list \<Rightarrow>
    (string \<Rightarrow> merge_strategy) \<Rightarrow> parallel_merge_error + unit" where
  "validate_parallel_state_batches ord batches strategy =
     (let owners = key_owners batches in
      case find (\<lambda>key. case owners key of
          None \<Rightarrow> False
        | Some cs \<Rightarrow> length cs > 1 \<and> strategy key = Exclusive) ord of
        None \<Rightarrow> Inr ()
      | Some key \<Rightarrow> (case owners key of
            Some (l # r # _) \<Rightarrow> Inl (ExclusiveConflict key l r)
          | _ \<Rightarrow> Inr ()))"

fun collect_keys :: "string list \<Rightarrow> string list \<Rightarrow> string list" where
  "collect_keys seen [] = seen"
| "collect_keys seen (k # ks) = collect_keys (if k \<in> set seen then seen else seen @ [k]) ks"

definition collect_all_touched_keys :: "tool_state_batch list \<Rightarrow> string list" where
  "collect_all_touched_keys batches = collect_keys [] (concat (map tsb_touched batches))"

end
