(* ===== verification/State_Correct.thy ===== *)
theory State_Correct
imports State_Engine
begin

text \<open>
  What the state engine guarantees: a commit is atomic and refuses a stale base revision, batches
  that merge may be applied in either order, persisted keys survive an export and a restore, and
  uninstalling a plugin undoes its installation.
\<close>

section \<open>Commits\<close>

lemma op_apply_revision [simp]: "revision (op_apply op s) = revision s"
  by (simp add: op_apply_def split: mutation_op.split prod.split)

lemma apply_ops_simps [simp]:
  "apply_ops [] s = s"
  "apply_ops (op # ops) s = apply_ops ops (op_apply op s)"
  "apply_ops (ops @ ops') s = apply_ops ops' (apply_ops ops s)"
  by (simp_all add: apply_ops_def)

lemma apply_ops_revision [simp]: "revision (apply_ops ops s) = revision s"
  by (induction ops arbitrary: s) simp_all

lemma ensure_keys_Inr: "ensure_keys reg ks = Inr () \<longleftrightarrow> (\<forall>k \<in> set ks. keys_by_name reg k \<noteq> None)"
  by (induction ks) (auto simp: ensure_key_def)

lemma ensure_keys_cases: "ensure_keys reg ks = Inr () \<or> (\<exists>k. ensure_keys reg ks = Inl (UnknownKey k))"
  by (induction ks) (auto simp: ensure_key_def)

text \<open>When a batch may be committed.\<close>

definition commit_ready :: "('v, 'u) mutation_batch \<Rightarrow> 'v state_store \<Rightarrow> bool" where
  "commit_ready p st \<longleftrightarrow> (\<forall>b. base_revision p = Some b \<longrightarrow> b = revision (snap st)) \<and>
     (\<forall>k \<in> set (touched_keys p). keys_by_name (registry st) k \<noteq> None)"

lemma store_commit_ready:
  assumes "commit_ready p st" "batch_ops p \<noteq> []"
  defines "s \<equiv> (apply_ops (batch_ops p) (snap st))\<lparr>revision := revision (snap st) + 1\<rparr>"
  shows "store_commit p st = (Inr (revision (snap st) + 1), st\<lparr>snap := s\<rparr>,
     Some \<lparr>previous_revision = revision (snap st), new_revision = revision (snap st) + 1,
           op_count = length (batch_ops p), event_snapshot = s\<rparr>)"
proof -
  have "ensure_keys (registry st) (touched_keys p) = Inr ()"
    using assms(1) by (simp add: ensure_keys_Inr commit_ready_def)
  with assms show ?thesis
    by (auto simp: store_commit_def commit_ready_def batch_is_empty_def Let_def s_def split: option.split)
qed

lemma store_commit_refused:
  assumes "\<not> commit_ready p st" "batch_ops p \<noteq> []"
  shows "\<exists>e. store_commit p st = (Inl e, st, None)"
proof (cases "\<exists>b. base_revision p = Some b \<and> b \<noteq> revision (snap st)")
  case True
  with assms(2) show ?thesis by (auto simp: store_commit_def batch_is_empty_def)
next
  case False
  with assms(1) have "ensure_keys (registry st) (touched_keys p) \<noteq> Inr ()"
    unfolding ensure_keys_Inr commit_ready_def by blast
  with ensure_keys_cases obtain k where "ensure_keys (registry st) (touched_keys p) = Inl (UnknownKey k)"
    by blast
  with False assms(2) show ?thesis by (auto simp: store_commit_def batch_is_empty_def split: option.split)
qed

text \<open>
  C15: A commit is all or nothing. It succeeds exactly when the batch is based on the current revision
  (or on none) and touches only registered keys; then every operation is applied in order, the
  revision is raised by one and the hooks see the committed state. Otherwise nothing changes and
  no hook runs. After a successful commit every other batch of the same base revision is refused, so
  no update is lost.
\<close>
theorem commit_is_atomic:
  assumes "batch_ops p \<noteq> []"
  shows "(if commit_ready p st
      then \<exists>st' ev. store_commit p st = (Inr (revision (snap st) + 1), st', Some ev) \<and>
        registry st' = registry st \<and> revision (snap st') = revision (snap st) + 1 \<and>
        ext (snap st') = ext (apply_ops (batch_ops p) (snap st)) \<and>
        event_snapshot ev = snap st' \<and> previous_revision ev = revision (snap st) \<and>
        (\<forall>q. batch_ops q \<noteq> [] \<and> base_revision q = Some (revision (snap st)) \<longrightarrow>
           store_commit q st' = (Inl (RevisionConflict (revision (snap st)) (revision (snap st) + 1)), st', None))
      else \<exists>e. store_commit p st = (Inl e, st, None))"
  using store_commit_ready [OF _ assms, of st] store_commit_refused [OF _ assms, of st]
  by (auto simp: store_commit_def batch_is_empty_def)

section \<open>Parallel batches\<close>

text \<open>An operation on the slot of one key type.\<close>

definition local_op :: "type_id \<Rightarrow> ('v, 'u) mutation_op \<Rightarrow> bool" where
  "local_op t op \<longleftrightarrow> (\<exists>f. \<forall>s. op_apply op s = s\<lparr>ext := (ext s)(t := f (ext s t))\<rparr>)"

lemma local_patch: "local_op (key_type k) (KeyPatch k u)"
  unfolding local_op_def
  by (rule exI [of _ "\<lambda>v. Some (key_apply k (case v of None \<Rightarrow> key_default k | Some w \<Rightarrow> w) u)"])
    (auto simp: op_apply_def get_or_insert_default_def state_contains_def state_get_def
      state_insert_def fun_eq_iff)

lemma local_clear: "local_op t (ClearKey (\<lambda>m. m(t := None)))"
  unfolding local_op_def by (rule exI [of _ "\<lambda>_. None"]) (simp add: op_apply_def)

definition commuting_ops :: "('v, 'u) mutation_op \<Rightarrow> ('v, 'u) mutation_op \<Rightarrow> bool" where
  "commuting_ops op op' \<longleftrightarrow> (\<forall>s. op_apply op (op_apply op' s) = op_apply op' (op_apply op s))"

lemma local_commute:
  assumes "local_op t op" "local_op t' op'" "t \<noteq> t'"
  shows "commuting_ops op op'"
proof -
  obtain f g where "\<And>s. op_apply op s = s\<lparr>ext := (ext s)(t := f (ext s t))\<rparr>"
      "\<And>s. op_apply op' s = s\<lparr>ext := (ext s)(t' := g (ext s t'))\<rparr>"
    using assms by (auto simp: local_op_def)
  with assms(3) show ?thesis by (simp add: commuting_ops_def fun_upd_twist)
qed

text \<open>Batches as \<^verbatim>\<open>update\<close> and \<^verbatim>\<open>clear_extension_with\<close> build them: each operation with the name of its key.\<close>

definition well_built :: "(type_id \<Rightarrow> string) \<Rightarrow> ('v, 'u) mutation_batch \<Rightarrow> bool" where
  "well_built name_of b \<longleftrightarrow> list_all2 (\<lambda>op key. \<exists>t. local_op t op \<and> name_of t = key) (batch_ops b) (touched_keys b)"

lemma well_built_new: "well_built name_of batch_new"
  by (simp add: well_built_def batch_new_def)

lemma well_built_update:
  "well_built name_of b \<Longrightarrow> name_of (key_type k) = key_name k \<Longrightarrow> well_built name_of (batch_update k u b)"
  using local_patch [of k u] by (auto simp: well_built_def batch_update_def intro!: list_all2_appendI)

lemma well_built_op:
  assumes "well_built name_of b" "op \<in> set (batch_ops b)"
  shows "\<exists>t. local_op t op \<and> name_of t \<in> set (touched_keys b)"
  using assms unfolding well_built_def in_set_conv_nth list_all2_conv_all_nth by metis

lemma apply_ops_commute_one:
  "\<forall>op' \<in> set ops. commuting_ops op op' \<Longrightarrow> apply_ops ops (op_apply op s) = op_apply op (apply_ops ops s)"
proof (induction ops arbitrary: s)
  case (Cons a ops)
  then have "op_apply a (op_apply op s) = op_apply op (op_apply a s)"
    by (simp add: commuting_ops_def)
  with Cons show ?case by simp
qed simp

lemma apply_ops_commute:
  "\<forall>op \<in> set ops. \<forall>op' \<in> set ops'. commuting_ops op op' \<Longrightarrow>
     apply_ops ops' (apply_ops ops s) = apply_ops ops (apply_ops ops' s)"
  by (induction ops arbitrary: s) (auto simp: apply_ops_commute_one)

lemma merge_parallel_Inr:
  "batch_merge_parallel strategy a b = Inr m \<longleftrightarrow>
     (\<exists>base. reconcile_revisions (base_revision a) (base_revision b) = Inr base \<and> m = append_batch base a b) \<and>
     (\<forall>key \<in> set (touched_keys a) \<inter> set (touched_keys b). strategy key = Commutative)"
proof (cases "reconcile_revisions (base_revision a) (base_revision b)")
  case (Inr base)
  have strategy: "strategy key = Exclusive \<longleftrightarrow> strategy key \<noteq> Commutative" for key
    by (cases "strategy key") auto
  show ?thesis
  proof (cases "find (\<lambda>key. key \<in> set (touched_keys a) \<and> strategy key = Exclusive) (touched_keys b)")
    case None
    then have "\<forall>key \<in> set (touched_keys a) \<inter> set (touched_keys b). strategy key = Commutative"
      unfolding find_None_iff strategy by blast
    with Inr None show ?thesis by (auto simp: batch_merge_parallel_def)
  next
    case (Some key)
    then have "key \<in> set (touched_keys b)" "key \<in> set (touched_keys a)" "strategy key = Exclusive"
      by (auto simp: find_Some_iff)
    then have "\<not> (\<forall>key \<in> set (touched_keys a) \<inter> set (touched_keys b). strategy key = Commutative)"
      by force
    with Inr Some show ?thesis by (simp add: batch_merge_parallel_def)
  qed
qed (simp add: batch_merge_parallel_def)

text \<open>
  C16: Two batches merge exactly when their base revisions agree (or one has none) and no exclusive key is
  touched by both. The operations of merged batches can be applied in either order with the same result, if
  the updates which the two batches make to a key declared commutative do commute. That is a duty of the key:
  the declaration is not checked, and some keys of the program declare it without keeping it.
\<close>
theorem merged_batches_commute:
  assumes "well_built name_of a" "well_built name_of b"
    and "\<And>t op op'. strategy (name_of t) = Commutative \<Longrightarrow> op \<in> set (batch_ops a) \<Longrightarrow>
       op' \<in> set (batch_ops b) \<Longrightarrow> local_op t op \<Longrightarrow> local_op t op' \<Longrightarrow> commuting_ops op op'"
  shows "(\<forall>m. batch_merge_parallel strategy a b = Inr m \<longrightarrow>
       (\<forall>s. apply_ops (batch_ops m) s = apply_ops (batch_ops b @ batch_ops a) s)) \<and>
     ((\<exists>m. batch_merge_parallel strategy a b = Inr m) \<longleftrightarrow>
       (\<exists>base. reconcile_revisions (base_revision a) (base_revision b) = Inr base) \<and>
       (\<forall>key \<in> set (touched_keys a) \<inter> set (touched_keys b). strategy key = Commutative))"
proof -
  have "apply_ops (batch_ops m) s = apply_ops (batch_ops b @ batch_ops a) s"
    if m: "batch_merge_parallel strategy a b = Inr m" for m s
  proof -
    have ok: "\<forall>key \<in> set (touched_keys a) \<inter> set (touched_keys b). strategy key = Commutative"
      and ops: "batch_ops m = batch_ops a @ batch_ops b"
      using m by (auto simp: merge_parallel_Inr append_batch_def)
    have "commuting_ops op op'" if op: "op \<in> set (batch_ops a)" "op' \<in> set (batch_ops b)" for op op'
    proof -
      obtain t t' where t: "local_op t op" "name_of t \<in> set (touched_keys a)"
          "local_op t' op'" "name_of t' \<in> set (touched_keys b)"
        using well_built_op assms(1,2) op by meson
      show ?thesis
      proof (cases "t = t'")
        case True
        with t ok have "strategy (name_of t) = Commutative" by blast
        with assms(3) op t True show ?thesis by blast
      qed (use local_commute t in blast)
    qed
    then show ?thesis by (simp add: ops apply_ops_commute)
  qed
  then show ?thesis by (auto simp: merge_parallel_Inr)
qed

section \<open>The registry\<close>

text \<open>\<open>name_of\<close> is the constant \<^verbatim>\<open>KEY\<close> of each key type.\<close>

definition registry_ok :: "(type_id \<Rightarrow> string) \<Rightarrow> 'v plugin_registry \<Rightarrow> bool" where
  "registry_ok name_of reg \<longleftrightarrow>
     (\<forall>t r. keys_by_type reg t = Some r \<longrightarrow>
        reg_type r = t \<and> reg_key r = name_of t \<and> keys_by_name reg (reg_key r) = Some r) \<and>
     (\<forall>n r. keys_by_name reg n = Some r \<longrightarrow> reg_key r = n \<and> keys_by_type reg (reg_type r) = Some r)"

lemma registry_ok_empty: "registry_ok name_of (registry state_store_new)"
  by (simp add: registry_ok_def state_store_new_def)

lemma registry_by_type:
  "registry_ok name_of reg \<Longrightarrow> keys_by_type reg t = Some r \<Longrightarrow>
     reg_type r = t \<and> reg_key r = name_of t \<and> keys_by_name reg (reg_key r) = Some r"
  unfolding registry_ok_def by blast

lemma registry_by_name:
  "registry_ok name_of reg \<Longrightarrow> keys_by_name reg n = Some r \<Longrightarrow>
     reg_key r = n \<and> keys_by_type reg (reg_type r) = Some r"
  unfolding registry_ok_def by blast

lemma registry_ok_inj:
  assumes "registry_ok name_of reg"
  shows "inj_on reg_key (ran (keys_by_type reg))"
proof (rule inj_onI)
  fix r r' assume "r \<in> ran (keys_by_type reg)" "r' \<in> ran (keys_by_type reg)" "reg_key r = reg_key r'"
  then obtain t t' where "keys_by_type reg t = Some r" "keys_by_type reg t' = Some r'" by (auto simp: ran_def)
  with registry_by_type [OF assms] \<open>reg_key r = reg_key r'\<close> show "r = r'" by (metis option.inject)
qed

lemma registry_ok_insert:
  assumes "registry_ok name_of reg" "keys_by_name reg (reg_key r) = None" "reg_key r = name_of (reg_type r)"
  shows "registry_ok name_of (insert_registration r reg) \<and> keys_by_type reg (reg_type r) = None"
proof -
  have "keys_by_type reg (reg_type r) = None"
  proof (rule ccontr)
    assume "keys_by_type reg (reg_type r) \<noteq> None"
    then obtain r' where "keys_by_type reg (reg_type r) = Some r'" by blast
    from registry_by_type [OF assms(1) this] assms(2,3) show False by auto
  qed
  have type: "reg_type ra = t \<and> reg_key ra = name_of t \<and> keys_by_name reg (reg_key ra) = Some ra \<and> reg_key ra \<noteq> reg_key r"
    if "keys_by_type reg t = Some ra" for t ra
    using registry_by_type [OF assms(1) that] assms(2) by auto
  have name: "reg_key ra = n \<and> keys_by_type reg (reg_type ra) = Some ra \<and> reg_type ra \<noteq> reg_type r"
    if "keys_by_name reg n = Some ra" for n ra
    using registry_by_name [OF assms(1) that] \<open>keys_by_type reg (reg_type r) = None\<close> by auto
  have "registry_ok name_of (insert_registration r reg)"
    unfolding registry_ok_def using assms(3)
    by (auto simp: insert_registration_def dest: type name)
  with \<open>keys_by_type reg (reg_type r) = None\<close> show ?thesis by simp
qed

lemma registry_ok_register_keys:
  assumes "registry_ok name_of (registry st)" "\<forall>r \<in> set regs. reg_key r = name_of (reg_type r)"
  shows "registry_ok name_of (registry (register_keys regs st))"
proof -
  have "registry_ok name_of g \<Longrightarrow> \<forall>r \<in> set regs. reg_key r = name_of (reg_type r) \<Longrightarrow>
      registry_ok name_of (foldl (\<lambda>g r. if keys_by_name g (reg_key r) \<noteq> None then g
        else insert_registration r g) g regs)" for g
    by (induction regs arbitrary: g) (auto simp: registry_ok_insert)
  with assms show ?thesis by (simp add: register_keys_def)
qed

section \<open>Persistence\<close>

text \<open>The function pointers of a registration act on the slot of its type, and the codec round-trips.\<close>

definition registration_law :: "'v key_registration \<Rightarrow> bool" where
  "registration_law r \<longleftrightarrow>
     reg_clear r = (\<lambda>m. m(reg_type r := None)) \<and>
     (\<forall>m. m (reg_type r) = None \<longrightarrow> reg_export r m = Inr None) \<and>
     (\<forall>m v. m (reg_type r) = Some v \<longrightarrow> (\<exists>j. reg_export r m = Inr (Some j) \<and>
        (\<forall>m'. reg_import r m' j = Inr (m'(reg_type r \<mapsto> v)))))"

lemma registration_export:
  "registration_law r \<Longrightarrow> m (reg_type r) = Some v \<Longrightarrow>
     \<exists>j. reg_export r m = Inr (Some j) \<and> (\<forall>m'. reg_import r m' j = Inr (m'(reg_type r \<mapsto> v)))"
  by (simp add: registration_law_def)

lemma key_registration_law:
  assumes "\<And>v. \<exists>j. key_encode k v = Inr j \<and> key_decode k j = Inr v"
  shows "registration_law (key_registration_new k options)"
proof -
  have "\<exists>j. (case key_encode k v of Inl e \<Rightarrow> Inl e | Inr j \<Rightarrow> Inr (Some j)) = Inr (Some j) \<and>
      (\<forall>m'. (case key_decode k j of Inl e \<Rightarrow> Inl e | Inr v \<Rightarrow> Inr (state_insert k v m')) =
        Inr (m'(key_type k \<mapsto> v)))" for v
    using assms [of v] by (auto simp: state_insert_def)
  then show ?thesis
    by (auto simp: registration_law_def key_registration_new_def state_get_def state_remove_def fun_eq_iff)
qed

definition exported :: "'v state_map \<Rightarrow> 'v key_registration \<Rightarrow> json option" where
  "exported m r = (case reg_export r m of Inl _ \<Rightarrow> None | Inr j \<Rightarrow> j)"

lemma export_loop_spec:
  assumes "\<forall>r \<in> set rs. registration_law r" "inj_on reg_key (set rs)"
  shows "\<exists>out'. export_loop incl m rs out = Inr out' \<and>
    (\<forall>k j. out' k = Some j \<longleftrightarrow>
      (\<exists>r \<in> set rs. reg_key r = k \<and> persistent (reg_options r) \<and> incl (reg_scope r) \<and> exported m r = Some j) \<or>
      (out k = Some j \<and> (\<forall>r \<in> set rs. reg_key r = k \<and> persistent (reg_options r) \<and> incl (reg_scope r) \<longrightarrow>
         exported m r = None)))"
  using assms
proof (induction rs arbitrary: out)
  case (Cons r rs)
  then have law: "registration_law r" and laws: "\<forall>r \<in> set rs. registration_law r"
      and inj: "inj_on reg_key (set rs)"
    by (auto simp: inj_on_def)
  have other: "r' \<in> set rs \<Longrightarrow> reg_key r' = reg_key r \<Longrightarrow> r' = r" for r'
    using Cons.prems(2) by (auto simp: inj_on_def)
  consider (skip) "\<not> persistent (reg_options r) \<or> \<not> incl (reg_scope r)"
    | (none) "persistent (reg_options r)" "incl (reg_scope r)" "reg_export r m = Inr None" "exported m r = None"
    | (some) j where "persistent (reg_options r)" "incl (reg_scope r)" "reg_export r m = Inr (Some j)" "exported m r = Some j"
  proof (cases "m (reg_type r)")
    case None
    then have "reg_export r m = Inr None" using law by (simp add: registration_law_def)
    with that(1,2) show thesis by (fastforce simp: exported_def)
  next
    case (Some v)
    then obtain j where "reg_export r m = Inr (Some j)" using registration_export [OF law] by blast
    with that(1,3) show thesis by (fastforce simp: exported_def)
  qed
  then show ?case
  proof cases
    case skip
    with Cons.IH [of out] Cons.prems inj show ?thesis by auto
  next
    case none
    with Cons.IH [of out] Cons.prems inj show ?thesis by auto
  next
    case (some j)
    from Cons.IH [OF laws inj, of "out(reg_key r \<mapsto> j)"] obtain out' where
      out': "export_loop incl m rs (out(reg_key r \<mapsto> j)) = Inr out'" and
      spec: "\<And>k j'. out' k = Some j' \<longleftrightarrow>
        (\<exists>r \<in> set rs. reg_key r = k \<and> persistent (reg_options r) \<and> incl (reg_scope r) \<and> exported m r = Some j') \<or>
        ((out(reg_key r \<mapsto> j)) k = Some j' \<and> (\<forall>r \<in> set rs. reg_key r = k \<and> persistent (reg_options r) \<and>
           incl (reg_scope r) \<longrightarrow> exported m r = None))"
      by blast
    have "out' k = Some j' \<longleftrightarrow>
      (\<exists>r' \<in> set (r # rs). reg_key r' = k \<and> persistent (reg_options r') \<and> incl (reg_scope r') \<and> exported m r' = Some j') \<or>
      (out k = Some j' \<and> (\<forall>r' \<in> set (r # rs). reg_key r' = k \<and> persistent (reg_options r') \<and>
         incl (reg_scope r') \<longrightarrow> exported m r' = None))" for k j'
    proof (cases "k = reg_key r")
      case True
      then show ?thesis using spec [of k j'] some other by fastforce
    next
      case False
      then show ?thesis using spec [of k j'] by auto
    qed
    with some out' show ?thesis by auto
  qed
qed simp

lemma import_loop_spec:
  assumes "\<And>k j. exts k = Some j \<Longrightarrow> \<exists>r v. keys_by_name reg k = Some r \<and> incl (reg_scope r) \<and>
      src (reg_type r) = Some v \<and> (\<forall>m. reg_import r m j = Inr (m(reg_type r \<mapsto> v)))"
  shows "import_loop reg policy incl exts ks m =
    (Inr (), \<lambda>t. if \<exists>k \<in> set ks. \<exists>r. exts k \<noteq> None \<and> keys_by_name reg k = Some r \<and> reg_type r = t then src t else m t)"
proof (induction ks arbitrary: m)
  case (Cons k ks)
  show ?case
  proof (cases "exts k")
    case None
    with Cons show ?thesis by simp
  next
    case (Some j)
    with assms obtain r v where r: "keys_by_name reg k = Some r" "incl (reg_scope r)" "src (reg_type r) = Some v"
        "\<forall>m. reg_import r m j = Inr (m(reg_type r \<mapsto> v))"
      by blast
    have "import_loop reg policy incl exts (k # ks) m = import_loop reg policy incl exts ks (m(reg_type r \<mapsto> v))"
      using Some r by simp
    also note Cons [of "m(reg_type r \<mapsto> v)"]
    finally show ?thesis using Some r(1,3) by (auto simp: fun_eq_iff)
  qed
qed simp

text \<open>The persistent keys that a registry exports.\<close>

definition persistent_type :: "'v plugin_registry \<Rightarrow> (key_scope \<Rightarrow> bool) \<Rightarrow> type_id \<Rightarrow> bool" where
  "persistent_type reg incl t \<longleftrightarrow>
     (\<exists>r. keys_by_type reg t = Some r \<and> persistent (reg_options r) \<and> incl (reg_scope r))"

lemma export_filtered_spec:
  assumes "registry_ok name_of (registry st)" "\<forall>r \<in> ran (keys_by_type (registry st)). registration_law r"
    and "hash_order ord (keys_by_type (registry st))"
  shows "\<exists>p. export_filtered ord incl st = Inr p \<and> persisted_revision p = revision (snap st) \<and>
    (\<forall>k j. extensions p k = Some j \<longleftrightarrow> (\<exists>r. keys_by_name (registry st) k = Some r \<and>
       persistent (reg_options r) \<and> incl (reg_scope r) \<and> exported (ext (snap st)) r = Some j))"
proof -
  note vals = hash_order_values [OF assms(3)]
  have named: "r \<in> ran (keys_by_type (registry st)) \<and> reg_key r = k \<longleftrightarrow> keys_by_name (registry st) k = Some r" for r k
  proof
    assume "r \<in> ran (keys_by_type (registry st)) \<and> reg_key r = k"
    then show "keys_by_name (registry st) k = Some r"
      using registry_by_type [OF assms(1)] by (auto simp: ran_def)
  next
    assume "keys_by_name (registry st) k = Some r"
    from registry_by_name [OF assms(1) this] show "r \<in> ran (keys_by_type (registry st)) \<and> reg_key r = k"
      by (blast intro: ranI)
  qed
  let ?rs = "hm_values ord (keys_by_type (registry st))"
  have "\<forall>r \<in> set ?rs. registration_law r" "inj_on reg_key (set ?rs)"
    using assms(2) registry_ok_inj [OF assms(1)] by (simp_all add: vals)
  from export_loop_spec [OF this, of incl "ext (snap st)" Map.empty] obtain out where
    loop: "export_loop incl (ext (snap st)) ?rs Map.empty = Inr out" and
    out: "\<forall>k j. out k = Some j \<longleftrightarrow> (\<exists>r \<in> set ?rs. reg_key r = k \<and>
       persistent (reg_options r) \<and> incl (reg_scope r) \<and> exported (ext (snap st)) r = Some j)"
    by auto
  have "out k = Some j \<longleftrightarrow> (\<exists>r. keys_by_name (registry st) k = Some r \<and>
       persistent (reg_options r) \<and> incl (reg_scope r) \<and> exported (ext (snap st)) r = Some j)" for k j
    unfolding named [symmetric] using out by (auto simp: vals)
  with loop show ?thesis by (simp add: export_filtered_def)
qed

lemma exported_Some:
  assumes "registration_law r"
  shows "exported m r = Some j \<Longrightarrow> \<exists>v. m (reg_type r) = Some v \<and> (\<forall>m'. reg_import r m' j = Inr (m'(reg_type r \<mapsto> v)))"
    and "m (reg_type r) = Some v \<Longrightarrow> exported m r \<noteq> None"
proof -
  show "exported m r \<noteq> None" if v: "m (reg_type r) = Some v"
  proof -
    obtain j where "reg_export r m = Inr (Some j)"
      using registration_export [of r m v, OF assms v] by blast
    then show ?thesis by (simp add: exported_def)
  qed
  show "\<exists>v. m (reg_type r) = Some v \<and> (\<forall>m'. reg_import r m' j = Inr (m'(reg_type r \<mapsto> v)))" if "exported m r = Some j"
  proof (cases "m (reg_type r)")
    case None
    with assms have "reg_export r m = Inr None" by (simp add: registration_law_def)
    with that show ?thesis by (simp add: exported_def)
  next
    case (Some v)
    with registration_export [OF assms] obtain j' where "reg_export r m = Inr (Some j')"
        "\<forall>m'. reg_import r m' j' = Inr (m'(reg_type r \<mapsto> v))"
      by blast
    with that Some show ?thesis by (simp add: exported_def)
  qed
qed

text \<open>
  C17: Persisted state survives: restoring what was exported, into any store with the same registry
  and in any iteration order, gives exactly the values of the persistent keys and the revision back.
  The thread-scoped and the run-scoped export are disjoint and together make up the full one. It is assumed
  that the codec of every registered key encodes every value and decodes it to the same value
  (\<open>registration_law\<close>, kept by \<open>key_registration_law\<close> for a key whose codec does); a key whose codec
  normalises its values comes back normalised instead.
\<close>
theorem exported_state_is_restored:
  assumes "registry_ok name_of (registry st)" "\<forall>r \<in> ran (keys_by_type (registry st)). registration_law r"
    and "hash_order ord (keys_by_type (registry st))"
  shows "\<exists>p pt pr. export_persisted ord st = Inr p \<and> export_thread_scoped ord st = Inr pt \<and>
    export_run_scoped ord st = Inr pr \<and>
    extensions p = extensions pt ++ extensions pr \<and> dom (extensions pt) \<inter> dom (extensions pr) = {} \<and>
    (\<forall>ord' policy st0. set ord' = dom (extensions p) \<and> registry st0 = registry st \<longrightarrow>
       restore_persisted ord' p policy st0 = (Inr (), st0\<lparr>snap := \<lparr>revision = revision (snap st),
         ext = (\<lambda>t. if persistent_type (registry st) (\<lambda>_. True) t then ext (snap st) t else None)\<rparr>\<rparr>))"
proof -
  let ?reg = "registry st" and ?m = "ext (snap st)"
  define here where "here incl k j \<longleftrightarrow> (\<exists>r. keys_by_name ?reg k = Some r \<and> persistent (reg_options r) \<and>
    incl (reg_scope r) \<and> exported ?m r = Some j)" for incl k j
  note spec = export_filtered_spec [OF assms, folded here_def]
  obtain p where p: "export_persisted ord st = Inr p" "persisted_revision p = revision (snap st)"
      "\<And>k j. extensions p k = Some j \<longleftrightarrow> here (\<lambda>_. True) k j"
    using spec [of "\<lambda>_. True"] by (auto simp: export_persisted_def)
  obtain pt where pt: "export_thread_scoped ord st = Inr pt"
      "\<And>k j. extensions pt k = Some j \<longleftrightarrow> here (\<lambda>scope. scope = ThreadScope) k j"
    using spec [of "\<lambda>scope. scope = ThreadScope"] by (auto simp: export_thread_scoped_def)
  obtain pr where pr: "export_run_scoped ord st = Inr pr"
      "\<And>k j. extensions pr k = Some j \<longleftrightarrow> here (\<lambda>scope. scope \<noteq> ThreadScope) k j"
    using spec [of "\<lambda>scope. scope \<noteq> ThreadScope"] by (auto simp: export_run_scoped_def)
  have disjoint: "dom (extensions pt) \<inter> dom (extensions pr) = {}"
    by (auto simp: pt(2) pr(2) here_def)
  have "extensions p k = Some j \<longleftrightarrow> (extensions pt ++ extensions pr) k = Some j" for k j
  proof -
    have "(extensions pt ++ extensions pr) k = Some j \<longleftrightarrow> extensions pt k = Some j \<or> extensions pr k = Some j"
      using disjoint by (auto simp: map_add_Some_iff)
    then show ?thesis by (auto simp: p(3) pt(2) pr(2) here_def)
  qed
  then have split: "extensions p = extensions pt ++ extensions pr"
    by (intro ext) (metis not_Some_eq)
  have "restore_persisted ord' p policy st0 = (Inr (), st0\<lparr>snap := \<lparr>revision = revision (snap st),
      ext = (\<lambda>t. if persistent_type ?reg (\<lambda>_. True) t then ?m t else None)\<rparr>\<rparr>)"
    if "set ord' = dom (extensions p)" "registry st0 = ?reg" for ord' policy st0
  proof -
    have law: "registration_law r" if "keys_by_name ?reg k = Some r" for k r
      using registry_by_name [OF assms(1) that] assms(2) by (blast intro: ranI)
    have "\<exists>r v. keys_by_name ?reg k = Some r \<and> True \<and> ?m (reg_type r) = Some v \<and>
        (\<forall>m. reg_import r m j = Inr (m(reg_type r \<mapsto> v)))" if "extensions p k = Some j" for k j
    proof -
      from that p(3) obtain r where "keys_by_name ?reg k = Some r" "exported ?m r = Some j"
        by (auto simp: here_def)
      with exported_Some(1) [OF law] show ?thesis by blast
    qed
    note restored = import_loop_spec [where incl = "\<lambda>_. True" and policy = policy and ks = ord'
        and m = Map.empty, OF this]
    have "(\<exists>k \<in> set ord'. \<exists>r. extensions p k \<noteq> None \<and> keys_by_name ?reg k = Some r \<and> reg_type r = t) \<longleftrightarrow>
        persistent_type ?reg (\<lambda>_. True) t \<and> ?m t \<noteq> None" (is "?l \<longleftrightarrow> ?r") for t
    proof
      assume ?l
      then obtain k r j where r: "keys_by_name ?reg k = Some r" "reg_type r = t" "extensions p k = Some j"
        by blast
      with p(3) have "persistent (reg_options r)" "exported ?m r = Some j" by (auto simp: here_def)
      moreover from this(2) have "?m t \<noteq> None" using exported_Some(1) [OF law [OF r(1)]] r(2) by blast
      ultimately show ?r using registry_by_name [OF assms(1) r(1)] r(2) by (auto simp: persistent_type_def)
    next
      assume ?r
      then obtain r v where r: "keys_by_type ?reg t = Some r" "persistent (reg_options r)" "?m t = Some v"
        by (auto simp: persistent_type_def)
      note key = registry_by_type [OF assms(1) r(1)]
      with exported_Some(2) [OF law, of "reg_key r" r ?m v] r(3) obtain j where "exported ?m r = Some j"
        by blast
      with key r(2) have "extensions p (reg_key r) = Some j" by (auto simp: p(3) here_def)
      with key that(1) show ?l by blast
    qed
    then have "(\<lambda>t. if \<exists>k \<in> set ord'. \<exists>r. extensions p k \<noteq> None \<and> keys_by_name ?reg k = Some r \<and> reg_type r = t
        then ?m t else None) = (\<lambda>t. if persistent_type ?reg (\<lambda>_. True) t then ?m t else None)"
      by (intro ext) auto
    with restored that(2) p(2) show ?thesis
      by (simp only: restore_persisted_def prod.case sum.case)
  qed
  with p(1) pt(1) pr(1) split disjoint show ?thesis by blast
qed

section \<open>Installing and uninstalling a plugin\<close>

text \<open>What a registrar hands over: registrations with distinct names, named by their types.\<close>

definition registrations_ok :: "(type_id \<Rightarrow> string) \<Rightarrow> 'v key_registration list \<Rightarrow> bool" where
  "registrations_ok name_of regs \<longleftrightarrow> distinct (map reg_key regs) \<and>
     (\<forall>r \<in> set regs. reg_key r = name_of (reg_type r) \<and> registration_law r)"

definition insert_all :: "'v key_registration list \<Rightarrow> 'v plugin_registry \<Rightarrow> 'v plugin_registry" where
  "insert_all regs g = foldl (\<lambda>g r. insert_registration r g) g regs"

definition unregister_all :: "type_id list \<Rightarrow> 'v plugin_registry \<Rightarrow> 'v plugin_registry" where
  "unregister_all ts g = foldl (\<lambda>g t. unregister_type t g) g ts"

lemma insert_all_spec:
  assumes "registrations_ok name_of regs" "registry_ok name_of g"
    and "\<forall>r \<in> set regs. keys_by_name g (reg_key r) = None"
  shows "registry_ok name_of (insert_all regs g) \<and> plugins (insert_all regs g) = plugins g \<and>
    (\<forall>r \<in> set regs. keys_by_type (insert_all regs g) (reg_type r) = Some r \<and> keys_by_type g (reg_type r) = None) \<and>
    (\<forall>n. n \<notin> reg_key ` set regs \<longrightarrow> keys_by_name (insert_all regs g) n = keys_by_name g n) \<and>
    (\<forall>t. t \<notin> reg_type ` set regs \<longrightarrow> keys_by_type (insert_all regs g) t = keys_by_type g t)"
  using assms
proof (induction regs arbitrary: g)
  case Nil
  then show ?case by (simp add: insert_all_def)
next
  case (Cons r regs)
  let ?g = "insert_registration r g"
  have r: "registry_ok name_of ?g" "keys_by_type g (reg_type r) = None"
    using registry_ok_insert [of name_of g r] Cons.prems by (auto simp: registrations_ok_def)
  have key: "reg_key q \<noteq> reg_key r" if "q \<in> set regs" for q
  proof -
    have "distinct (map reg_key (r # regs))" using Cons.prems(1) unfolding registrations_ok_def by blast
    moreover have "reg_key q \<in> reg_key ` set regs" using that by blast
    ultimately show ?thesis by auto
  qed
  then have fresh: "\<forall>q \<in> set regs. keys_by_name ?g (reg_key q) = None"
    using Cons.prems(3) by (simp add: insert_registration_def)
  have regs: "registrations_ok name_of regs" using Cons.prems(1) by (simp add: registrations_ok_def)
  have other: "reg_type q \<noteq> reg_type r" if "q \<in> set regs" for q
    using key [OF that] Cons.prems(1) that by (auto simp: registrations_ok_def)
  have step: "insert_all (r # regs) g = insert_all regs ?g" by (simp add: insert_all_def)
  note rest = Cons.IH [OF regs r(1) fresh]
  have ok: "registry_ok name_of (insert_all regs ?g)"
    and pl: "plugins (insert_all regs ?g) = plugins ?g"
    and own: "q \<in> set regs \<Longrightarrow> keys_by_type (insert_all regs ?g) (reg_type q) = Some q \<and>
        keys_by_type ?g (reg_type q) = None"
    and names: "n \<notin> reg_key ` set regs \<Longrightarrow> keys_by_name (insert_all regs ?g) n = keys_by_name ?g n"
    and types: "t \<notin> reg_type ` set regs \<Longrightarrow> keys_by_type (insert_all regs ?g) t = keys_by_type ?g t"
    for q n t
    using rest by blast+
  have "reg_type r \<notin> reg_type ` set regs" using other by (metis imageE)
  from types [OF this] have "keys_by_type (insert_all regs ?g) (reg_type r) = Some r"
    by (simp add: insert_registration_def)
  moreover have "keys_by_type g (reg_type q) = None" if "q \<in> set regs" for q
    using own [OF that] other [OF that] by (simp add: insert_registration_def)
  ultimately show ?case
    using ok pl own names types r(2) unfolding step by (auto simp: insert_registration_def)
qed

lemma unregister_all_spec:
  "\<forall>t \<in> set ts. \<exists>r. keys_by_type g t = Some r \<and> reg_key r = name_of t \<Longrightarrow> distinct ts \<Longrightarrow>
   keys_by_type (unregister_all ts g) t = (if t \<in> set ts then None else keys_by_type g t) \<and>
   keys_by_name (unregister_all ts g) n = (if n \<in> name_of ` set ts then None else keys_by_name g n) \<and>
   plugins (unregister_all ts g) = plugins g"
proof (induction ts arbitrary: g)
  case Nil
  then show ?case by (simp add: unregister_all_def)
next
  case (Cons x ts)
  then obtain r where r: "keys_by_type g x = Some r" "reg_key r = name_of x" by auto
  let ?g = "unregister_type x g"
  have g: "keys_by_type ?g = (keys_by_type g)(x := None)"
      "keys_by_name ?g = (keys_by_name g)(name_of x := None)" "plugins ?g = plugins g"
    using r by (simp_all add: unregister_type_def)
  have step: "unregister_all (x # ts) g = unregister_all ts ?g" by (simp add: unregister_all_def)
  have "\<forall>t \<in> set ts. \<exists>r. keys_by_type ?g t = Some r \<and> reg_key r = name_of t"
    using Cons.prems by (auto simp: g)
  with Cons.IH [of ?g] Cons.prems(2) show ?case unfolding step by (auto simp: g)
qed

lemma uninstall_patch_facts:
  "batch_ops (uninstall_patch regs b) =
     map (\<lambda>r. ClearKey (reg_clear r)) (filter (\<lambda>r. \<not> retain_on_uninstall (reg_options r)) regs) \<and>
   touched_keys (uninstall_patch regs b) =
     map reg_key (filter (\<lambda>r. \<not> retain_on_uninstall (reg_options r)) regs) \<and>
   base_revision (uninstall_patch regs b) = Some b"
  by (induction regs rule: rev_induct)
    (simp_all add: uninstall_patch_def with_base_revision_def batch_new_def clear_extension_with_def)

lemma apply_clear:
  "registration_law r \<Longrightarrow> op_apply (ClearKey (reg_clear r)) s = s\<lparr>ext := (ext s)(reg_type r := None)\<rparr>"
  by (simp add: op_apply_def registration_law_def)

lemma apply_clears:
  "\<forall>r \<in> set rs. registration_law r \<Longrightarrow>
     apply_ops (map (\<lambda>r. ClearKey (reg_clear r) :: ('v, 'u) mutation_op) rs) s =
       s\<lparr>ext := (\<lambda>t. if t \<in> reg_type ` set rs then None else ext s t)\<rparr>"
proof (induction rs arbitrary: s)
  case (Cons r rs)
  let ?s = "s\<lparr>ext := (ext s)(reg_type r := None)\<rparr>"
  have "apply_ops (map (\<lambda>r. ClearKey (reg_clear r) :: ('v, 'u) mutation_op) (r # rs)) s = apply_ops (map (\<lambda>r. ClearKey (reg_clear r) :: ('v, 'u) mutation_op) rs) ?s"
    using Cons.prems by (simp add: apply_clear)
  also have "\<dots> = ?s\<lparr>ext := (\<lambda>t. if t \<in> reg_type ` set rs then None else ext ?s t)\<rparr>"
    using Cons.prems by (intro Cons.IH) simp
  also have "(\<lambda>t. if t \<in> reg_type ` set rs then None else ext ?s t) =
      (\<lambda>t. if t \<in> reg_type ` set (r # rs) then None else ext s t)"
    by auto
  finally show ?case by simp
qed simp

lemma commit_clears:
  fixes st regs
  assumes "\<forall>r \<in> set regs. registration_law r \<and> keys_by_name (registry st) (reg_key r) \<noteq> None"
  defines "cleared \<equiv> filter (\<lambda>r. \<not> retain_on_uninstall (reg_options r)) regs"
  shows "\<exists>v ev. store_commit (uninstall_patch regs (revision (snap st))) st =
    (Inr v, st\<lparr>snap := \<lparr>revision = revision (snap st) + (if cleared = [] then 0 else 1),
       ext = (\<lambda>t. if t \<in> reg_type ` set cleared then None else ext (snap st) t)\<rparr>\<rparr>, ev)"
proof (cases "cleared = []")
  case True
  then show ?thesis
    using uninstall_patch_facts [of regs "revision (snap st)"]
    by (simp add: store_commit_def batch_is_empty_def cleared_def)
next
  case False
  let ?p = "uninstall_patch regs (revision (snap st))"
  have "commit_ready ?p st"
    using assms(1) uninstall_patch_facts [of regs "revision (snap st)"] by (auto simp: commit_ready_def)
  moreover have "batch_ops ?p \<noteq> []"
    using False uninstall_patch_facts [of regs "revision (snap st)"] by (simp add: cleared_def)
  moreover have "apply_ops (batch_ops ?p) (snap st) =
      (snap st)\<lparr>ext := (\<lambda>t. if t \<in> reg_type ` set cleared then None else ext (snap st) t)\<rparr>"
    using uninstall_patch_facts [of regs "revision (snap st)"] apply_clears [of cleared "snap st"] assms(1)
    by (simp add: cleared_def)
  ultimately show ?thesis using store_commit_ready [of ?p st] False by simp
qed


section \<open>The counter of the unit tests\<close>

definition counter_key :: "(nat, nat) state_key" where
  "counter_key = \<lparr>key_type = ''Counter'', key_name = ''counter'', key_merge = Commutative,
     key_default = 0, key_apply = (+), key_encode = (\<lambda>v. Inr (JNumber (show_nat v))),
     key_decode = (\<lambda>j. case j of JNumber s \<Rightarrow> Inr (read_nat s) | _ \<Rightarrow> Inl (KeyDecode ''counter'' []))\<rparr>"

definition counter_registration :: "nat key_registration" where
  "counter_registration = key_registration_new counter_key
     \<lparr>persistent = True, retain_on_uninstall = False, opt_scope = ThreadScope\<rparr>"

definition counter_name :: "type_id \<Rightarrow> string" where
  "counter_name t = (if t = ''Counter'' then ''counter'' else t)"

definition counter_store :: "nat state_store" where
  "counter_store = (register_keys [counter_registration] state_store_new)\<lparr>snap := \<lparr>revision = 5, ext = [''Counter'' \<mapsto> 7]\<rparr>\<rparr>"

lemma counter_registration_fields:
  "reg_key counter_registration = ''counter''" "reg_type counter_registration = ''Counter''"
  "persistent (reg_options counter_registration)" "\<not> retain_on_uninstall (reg_options counter_registration)"
  by (simp_all add: counter_registration_def key_registration_new_def counter_key_def)

lemma counter_registration_law: "registration_law counter_registration"
  unfolding counter_registration_def by (rule key_registration_law) (simp add: counter_key_def)

lemma counter_keys:
  "keys_by_type (registry counter_store) = [''Counter'' \<mapsto> counter_registration]"
  "keys_by_name (registry counter_store) = [''counter'' \<mapsto> counter_registration]"
  by (simp_all add: counter_store_def register_keys_def state_store_new_def insert_registration_def
      counter_registration_fields)

lemma counter_registry_ok: "registry_ok counter_name (registry counter_store)"
  by (simp add: registry_ok_def counter_keys counter_registration_fields counter_name_def)

theorem commit_is_atomic_witness:
  "\<exists>st' ev. store_commit (batch_update counter_key 4 batch_new) counter_store = (Inr 6, st', Some ev)"
proof -
  let ?p = "batch_update counter_key 4 batch_new"
  have "batch_ops ?p \<noteq> []" by (simp add: batch_update_def batch_new_def)
  from commit_is_atomic [OF this, of counter_store]
  have "commit_ready ?p counter_store \<Longrightarrow> \<exists>st' ev.
      store_commit ?p counter_store = (Inr (revision (snap counter_store) + 1), st', Some ev)"
    by auto
  moreover have "commit_ready ?p counter_store"
    by (simp add: commit_ready_def batch_update_def batch_new_def counter_keys counter_key_def)
  ultimately show ?thesis by (simp add: counter_store_def)
qed

theorem merged_batches_commute_witness:
  "\<exists>m. batch_merge_parallel (\<lambda>_. Commutative) (batch_update counter_key 1 batch_new)
     (batch_update counter_key 2 batch_new) = Inr m"
proof -
  have built: "well_built counter_name (batch_update counter_key u batch_new)" for u
    by (intro well_built_update well_built_new) (simp add: counter_key_def counter_name_def)
  have "commuting_ops (KeyPatch counter_key u) (KeyPatch counter_key w)" for u w
    by (simp add: commuting_ops_def op_apply_def get_or_insert_default_def state_contains_def
        state_get_def state_insert_def counter_key_def Let_def ac_simps)
  then have "commuting_ops op op'" if "op \<in> set (batch_ops (batch_update counter_key 1 batch_new))"
      "op' \<in> set (batch_ops (batch_update counter_key 2 batch_new))" for op op'
    using that by (simp add: batch_update_def batch_new_def)
  from merged_batches_commute [OF built built this, of "\<lambda>_. Commutative"] show ?thesis
    by (simp add: batch_update_def batch_new_def reconcile_revisions_def)
qed

theorem exported_state_is_restored_witness:
  "\<exists>p. export_persisted [''Counter''] counter_store = Inr p \<and>
     (\<exists>ord' st1. restore_persisted ord' p FailOnUnknown counter_store = (Inr (), st1) \<and>
        ext (snap st1) ''Counter'' = Some 7)"
proof -
  have laws: "\<forall>r \<in> ran (keys_by_type (registry counter_store)). registration_law r"
    by (simp add: counter_keys counter_registration_law)
  have "hash_order [''Counter''] (keys_by_type (registry counter_store))"
    by (simp add: hash_order_def counter_keys)
  from exported_state_is_restored [OF counter_registry_ok laws this] obtain p where
    p: "export_persisted [''Counter''] counter_store = Inr p" and
    restored: "\<And>ord'. set ord' = dom (extensions p) \<Longrightarrow> restore_persisted ord' p FailOnUnknown counter_store =
      (Inr (), counter_store\<lparr>snap := \<lparr>revision = revision (snap counter_store),
        ext = (\<lambda>t. if persistent_type (registry counter_store) (\<lambda>_. True) t
          then ext (snap counter_store) t else None)\<rparr>\<rparr>)"
    by blast
  have "finite (dom (extensions p))"
  proof -
    have "dom (extensions p) \<subseteq> {''counter''}"
      using p by (auto simp: export_persisted_def export_filtered_def counter_keys counter_registration_fields
          split: sum.splits option.splits if_splits)
    then show ?thesis by (rule finite_subset) simp
  qed
  from finite_list [OF this] obtain ord' where "set ord' = dom (extensions p)" ..
  note restore = restored [OF this]
  have "(if persistent_type (registry counter_store) (\<lambda>_. True) ''Counter''
      then ext (snap counter_store) ''Counter'' else None) = Some 7"
    by (simp add: persistent_type_def counter_keys counter_registration_fields) (simp add: counter_store_def)
  with restore p show ?thesis by (intro exI conjI) (assumption | simp)+
qed


end
