(* ===== verification/Circuit_Breaker.thy ===== *)
theory Circuit_Breaker
imports Prelude
begin

text \<open>
  The per-model circuit breaker of LLM inference (\<^verbatim>\<open>remo-runtime/src/engine/circuit_breaker.rs\<close>). An
  \<^verbatim>\<open>Instant\<close> and a \<^verbatim>\<open>Duration\<close> are natural numbers of nanoseconds; \<^verbatim>\<open>elapsed\<close> saturates at zero, as
  subtraction of natural numbers does. The clock reading is an argument.
\<close>

section \<open>State and operations\<close>

datatype circuit_status = CircuitClosed | CircuitOpen | CircuitHalfOpen

record circuit_state =
  consecutive_failures :: u32
  last_failure :: nat
  circuit :: circuit_status
  half_open_attempts :: u32

definition circuit_state_new :: "nat \<Rightarrow> circuit_state" where
  "circuit_state_new now = \<lparr>consecutive_failures = 0, last_failure = now, circuit = CircuitClosed,
     half_open_attempts = 0\<rparr>"

record circuit_breaker_config =
  failure_threshold :: u32
  cooldown :: nat
  half_open_max :: u32

definition circuit_breaker_default :: circuit_breaker_config where
  "circuit_breaker_default = \<lparr>failure_threshold = 5, cooldown = 30 * 10 ^ 9, half_open_max = 1\<rparr>"

type_synonym breaker = "string \<rightharpoonup> circuit_state"

datatype inference_error = ProviderError string

definition open_error :: "string \<Rightarrow> inference_error" where
  "open_error model = ProviderError (''circuit breaker open for model '' @ model)"

definition entry_or_new :: "nat \<Rightarrow> string \<Rightarrow> breaker \<Rightarrow> circuit_state" where
  "entry_or_new now model b = (case b model of None \<Rightarrow> circuit_state_new now | Some s \<Rightarrow> s)"

definition circuit_check :: "circuit_breaker_config \<Rightarrow> nat \<Rightarrow> string \<Rightarrow> breaker \<Rightarrow>
    (inference_error + unit) \<times> breaker" where
  "circuit_check cfg now model b =
     (let s = entry_or_new now model b; b' = b(model \<mapsto> s) in
      case circuit s of
        CircuitClosed \<Rightarrow> (Inr (), b')
      | CircuitOpen \<Rightarrow>
          if now - last_failure s \<ge> cooldown cfg
          then (Inr (), b(model \<mapsto> s\<lparr>circuit := CircuitHalfOpen, half_open_attempts := 1\<rparr>))
          else (Inl (open_error model), b')
      | CircuitHalfOpen \<Rightarrow>
          if half_open_attempts s < half_open_max cfg
          then (Inr (), b(model \<mapsto> s\<lparr>half_open_attempts := half_open_attempts s + 1\<rparr>))
          else (Inl (open_error model), b'))"

definition circuit_is_available :: "circuit_breaker_config \<Rightarrow> nat \<Rightarrow> string \<Rightarrow> breaker \<Rightarrow> bool" where
  "circuit_is_available cfg now model b = (case b model of
      None \<Rightarrow> True
    | Some s \<Rightarrow> (case circuit s of
        CircuitClosed \<Rightarrow> True
      | CircuitOpen \<Rightarrow> now - last_failure s \<ge> cooldown cfg
      | CircuitHalfOpen \<Rightarrow> half_open_attempts s < half_open_max cfg))"

definition circuit_record_success :: "string \<Rightarrow> breaker \<Rightarrow> breaker" where
  "circuit_record_success model b = (case b model of
      None \<Rightarrow> b
    | Some s \<Rightarrow> b(model \<mapsto> s\<lparr>consecutive_failures := 0, half_open_attempts := 0, circuit := CircuitClosed\<rparr>))"

definition circuit_record_failure :: "circuit_breaker_config \<Rightarrow> nat \<Rightarrow> string \<Rightarrow> breaker \<Rightarrow> breaker" where
  "circuit_record_failure cfg now model b =
     (let s = (entry_or_new now model b);
          s1 = s\<lparr>consecutive_failures := consecutive_failures s + 1, last_failure := now\<rparr>;
          s2 = (if circuit s1 = CircuitHalfOpen then s1\<lparr>circuit := CircuitOpen\<rparr>
                else if consecutive_failures s1 \<ge> failure_threshold cfg then s1\<lparr>circuit := CircuitOpen\<rparr>
                else s1)
      in b(model \<mapsto> s2))"

definition circuit_record_abandoned_probe :: "nat \<Rightarrow> string \<Rightarrow> breaker \<Rightarrow> breaker" where
  "circuit_record_abandoned_probe now model b = (case b model of
      None \<Rightarrow> b
    | Some s \<Rightarrow> if circuit s = CircuitHalfOpen
        then b(model \<mapsto> s\<lparr>circuit := CircuitOpen, half_open_attempts := 0, last_failure := now\<rparr>)
        else b)"

section \<open>Runs of the breaker\<close>

datatype circuit_event = Check string | Success string | Failure string | Abandoned string

fun event_model :: "circuit_event \<Rightarrow> string" where
  "event_model (Check m) = m"
| "event_model (Success m) = m"
| "event_model (Failure m) = m"
| "event_model (Abandoned m) = m"

text \<open>An event at a clock reading: whether a check was admitted, and the breaker after it.\<close>

fun circuit_event_step :: "circuit_breaker_config \<Rightarrow> nat \<Rightarrow> circuit_event \<Rightarrow> breaker \<Rightarrow> bool \<times> breaker" where
  "circuit_event_step cfg now (Check m) b = (case circuit_check cfg now m b of (r, b') \<Rightarrow> (r = Inr (), b'))"
| "circuit_event_step cfg now (Success m) b = (False, circuit_record_success m b)"
| "circuit_event_step cfg now (Failure m) b = (False, circuit_record_failure cfg now m b)"
| "circuit_event_step cfg now (Abandoned m) b = (False, circuit_record_abandoned_probe now m b)"

fun circuit_run :: "circuit_breaker_config \<Rightarrow> (nat \<times> circuit_event) list \<Rightarrow> breaker \<Rightarrow> breaker" where
  "circuit_run cfg [] b = b"
| "circuit_run cfg ((now, e) # es) b = circuit_run cfg es (snd (circuit_event_step cfg now e b))"

section \<open>What holds\<close>

lemma peek_agrees_with_check:
  "circuit_is_available cfg now m b \<longleftrightarrow> fst (circuit_check cfg now m b) = Inr ()"
  by (auto simp: circuit_is_available_def circuit_check_def entry_or_new_def circuit_state_new_def Let_def
      split: option.split circuit_status.split)

lemma event_other_model:
  "event_model e \<noteq> m \<Longrightarrow> snd (circuit_event_step cfg now e b) m = b m"
  by (cases e) (auto simp: circuit_check_def circuit_record_success_def circuit_record_failure_def
      circuit_record_abandoned_probe_def Let_def split: option.split circuit_status.split)

text \<open>The failures of a model after its last success.\<close>

fun failures_since_success :: "string \<Rightarrow> circuit_event list \<Rightarrow> nat \<Rightarrow> nat" where
  "failures_since_success m [] n = n"
| "failures_since_success m (Success k # es) n = failures_since_success m es (if k = m then 0 else n)"
| "failures_since_success m (Failure k # es) n = failures_since_success m es (if k = m then n + 1 else n)"
| "failures_since_success m (_ # es) n = failures_since_success m es n"

text \<open>The breaker has counted \<open>n\<close> failures of the model and is closed exactly below the threshold.\<close>

definition counts :: "circuit_breaker_config \<Rightarrow> string \<Rightarrow> breaker \<Rightarrow> nat \<Rightarrow> bool" where
  "counts cfg m b n \<longleftrightarrow> (case b m of
      None \<Rightarrow> n = 0
    | Some s \<Rightarrow> unat (consecutive_failures s) = n \<and>
        (circuit s = CircuitClosed \<longleftrightarrow> n < unat (failure_threshold cfg)))"

lemma counts_step:
  assumes "counts cfg m b n" "failure_threshold cfg > 0" "n + 1 < 2 ^ 32"
  shows "counts cfg m (snd (circuit_event_step cfg now e b)) (failures_since_success m [e] n)"
proof (cases "event_model e = m")
  case False
  then have "failures_since_success m [e] n = n" by (cases e) auto
  with False assms(1) show ?thesis by (simp add: counts_def event_other_model)
next
  case True
  have pos: "0 < unat (failure_threshold cfg)" using assms(2) by (simp add: word_less_nat_alt)
  have suc: "unat (w + 1) = n + 1" if "unat w = n" for w :: u32
    using that assms(3) by (simp add: unat_word_ariths)
  show ?thesis
  proof (cases e)
    case (Failure k)
    with True assms(1) pos suc show ?thesis
      by (auto simp: counts_def circuit_record_failure_def entry_or_new_def circuit_state_new_def Let_def
          word_le_nat_alt split: option.splits)
  qed (use True assms(1) pos in \<open>auto simp: counts_def circuit_check_def entry_or_new_def circuit_state_new_def
      circuit_record_success_def circuit_record_abandoned_probe_def Let_def
      split: option.splits circuit_status.splits\<close>)
qed

lemma failures_append:
  "failures_since_success m (e # es) n = failures_since_success m es (failures_since_success m [e] n)"
  by (cases e) auto

lemma failures_bound: "failures_since_success m es n \<le> n + length es"
proof (induction es arbitrary: n)
  case (Cons e es)
  show ?case using Cons [of n] Cons [of 0] Cons [of "n + 1"] by (cases e) auto
qed simp

lemma counts_run:
  assumes "failure_threshold cfg > 0" "counts cfg m b n" "n + length es < 2 ^ 32"
  shows "counts cfg m (circuit_run cfg es b) (failures_since_success m (map snd es) n)"
  using assms(2,3)
proof (induction es arbitrary: b n)
  case (Cons p es)
  obtain now e where p: "p = (now, e)" by (cases p)
  have "failures_since_success m [e] n \<le> n + 1" using failures_bound [of m "[e]" n] by simp
  then have "failures_since_success m [e] n + length es < 2 ^ 32" using Cons.prems by simp
  moreover have "counts cfg m (snd (circuit_event_step cfg now e b)) (failures_since_success m [e] n)"
    using Cons.prems assms(1) by (intro counts_step) auto
  ultimately show ?case
    using Cons.IH [of "snd (circuit_event_step cfg now e b)" "failures_since_success m [e] n"]
      failures_append [of m e "map snd es" n] by (simp add: p)
qed simp

text \<open>
  C19: The circuit of a model is closed exactly while fewer failures than the threshold followed its
  last success, whatever checks, abandoned probes and events of other models happened in between. While
  it is closed, every check is admitted; the read-only peek tells exactly what a check would say.
\<close>
theorem circuit_opens_at_threshold:
  fixes m
  assumes "failure_threshold cfg > 0" "length es < 2 ^ 32"
  defines "b \<equiv> circuit_run cfg es Map.empty" and "n \<equiv> failures_since_success m (map snd es) 0"
  shows "(\<forall>s. b m = Some s \<longrightarrow> (circuit s = CircuitClosed \<longleftrightarrow> n < unat (failure_threshold cfg))) \<and>
    (n < unat (failure_threshold cfg) \<longrightarrow> fst (circuit_check cfg now m b) = Inr ()) \<and>
    (circuit_is_available cfg now m b \<longleftrightarrow> fst (circuit_check cfg now m b) = Inr ())"
proof -
  have "counts cfg m b n"
    unfolding b_def n_def using assms(1,2) by (intro counts_run) (simp_all add: counts_def)
  then show ?thesis
    by (auto simp: counts_def peek_agrees_with_check circuit_check_def entry_or_new_def
        circuit_state_new_def Let_def split: option.splits)
qed

theorem circuit_opens_at_threshold_witness:
  "fst (circuit_check circuit_breaker_default 9 ''m''
     (circuit_run circuit_breaker_default [(1, Failure ''m''), (2, Check ''n''), (3, Failure ''m'')] Map.empty)) = Inr ()"
  using circuit_opens_at_threshold [of circuit_breaker_default
      "[(1, Failure ''m''), (2, Check ''n''), (3, Failure ''m'')]" "''m''" 9]
  by (simp add: circuit_breaker_default_def)

fun admitted_checks :: "circuit_breaker_config \<Rightarrow> string \<Rightarrow> (nat \<times> circuit_event) list \<Rightarrow> breaker \<Rightarrow> nat" where
  "admitted_checks cfg m [] b = 0"
| "admitted_checks cfg m ((now, e) # es) b =
     (if e = Check m \<and> fst (circuit_event_step cfg now e b) then 1 else 0) +
     admitted_checks cfg m es (snd (circuit_event_step cfg now e b))"

text \<open>Nothing but checks happens to the model.\<close>

definition only_checks :: "string \<Rightarrow> (nat \<times> circuit_event) list \<Rightarrow> bool" where
  "only_checks m es \<longleftrightarrow> (\<forall>(now, e) \<in> set es. event_model e = m \<longrightarrow> e = Check m)"

lemma unat_plus_one: "a < b \<Longrightarrow> unat (a + 1) = unat a + 1" for a b :: u32
proof -
  assume "a < b"
  then have "unat a + 1 < 2 ^ 32"
    using unsigned_less [of b, where 'a = nat] by (simp add: word_less_nat_alt)
  then show ?thesis by (simp add: unat_word_ariths)
qed

lemma half_open_admits:
  "b m = Some s \<Longrightarrow> circuit s = CircuitHalfOpen \<Longrightarrow> only_checks m es \<Longrightarrow>
     admitted_checks cfg m es b \<le> unat (half_open_max cfg) - unat (half_open_attempts s)"
proof (induction es arbitrary: b s)
  case (Cons p es)
  obtain now e where p: "p = (now, e)" by (cases p)
  have rest: "only_checks m es" using Cons.prems(3) by (simp add: only_checks_def)
  show ?case
  proof (cases "event_model e = m")
    case False
    then have "snd (circuit_event_step cfg now e b) m = Some s" "e \<noteq> Check m"
      using Cons.prems(1) by (auto simp: event_other_model)
    with Cons.IH [OF _ Cons.prems(2) rest] show ?thesis by (simp add: p)
  next
    case True
    then have e: "e = Check m" using Cons.prems(3) by (auto simp: only_checks_def p)
    show ?thesis
    proof (cases "half_open_attempts s < half_open_max cfg")
      case less: True
      then have "unat (half_open_attempts s + 1) = unat (half_open_attempts s) + 1"
        by (rule unat_plus_one)
      moreover have "admitted_checks cfg m es (b(m \<mapsto> s\<lparr>half_open_attempts := half_open_attempts s + 1\<rparr>)) \<le>
          unat (half_open_max cfg) - unat (half_open_attempts (s\<lparr>half_open_attempts := half_open_attempts s + 1\<rparr>))"
        by (rule Cons.IH) (use Cons.prems(2) rest in simp_all)
      ultimately show ?thesis
        using less Cons.prems(1,2)
        by (simp add: p e circuit_check_def entry_or_new_def word_less_nat_alt)
    next
      case False
      then have "unat (half_open_max cfg) \<le> unat (half_open_attempts s)" by (simp add: word_less_nat_alt)
      moreover have "b(m \<mapsto> s) = b" using Cons.prems(1) by (rule fun_upd_idem)
      ultimately show ?thesis
        using Cons.IH [of b s] rest Cons.prems(1,2) False
        by (simp add: p e circuit_check_def entry_or_new_def)
    qed
  qed
qed simp

lemma open_admits:
  "b m = Some s \<Longrightarrow> circuit s = CircuitOpen \<Longrightarrow> only_checks m es \<Longrightarrow>
     admitted_checks cfg m es b \<le> max 1 (unat (half_open_max cfg)) \<and>
     ((\<forall>(now, e) \<in> set es. now - last_failure s < cooldown cfg) \<longrightarrow> admitted_checks cfg m es b = 0)"
proof (induction es arbitrary: b)
  case (Cons p es)
  obtain now e where p: "p = (now, e)" by (cases p)
  have rest: "only_checks m es" using Cons.prems(3) by (simp add: only_checks_def)
  show ?case
  proof (cases "event_model e = m \<and> cooldown cfg \<le> now - last_failure s")
    case False
    have "snd (circuit_event_step cfg now e b) m = Some s \<and>
        \<not> (e = Check m \<and> fst (circuit_event_step cfg now e b))"
    proof (cases "event_model e = m")
      case True
      then have "e = Check m" using Cons.prems(3) by (auto simp: only_checks_def p)
      with False Cons.prems(1,2) show ?thesis by (simp add: circuit_check_def entry_or_new_def)
    next
      case False
      with Cons.prems(1) show ?thesis by (auto simp: event_other_model)
    qed
    with Cons.IH [OF _ Cons.prems(2) rest] show ?thesis by (auto simp: p)
  next
    case True
    then have e: "e = Check m" using Cons.prems(3) by (auto simp: only_checks_def p)
    let ?s = "s\<lparr>circuit := CircuitHalfOpen, half_open_attempts := 1\<rparr>"
    have "admitted_checks cfg m es (b(m \<mapsto> ?s)) \<le> unat (half_open_max cfg) - 1"
      using half_open_admits [of "b(m \<mapsto> ?s)" m ?s es cfg] rest by simp
    with True Cons.prems(1,2) show ?thesis
      by (auto simp: p e circuit_check_def entry_or_new_def)
  qed
qed simp

text \<open>
  An open circuit admits nothing until the cooldown has passed since the last failure, and then, as long as no
  outcome is recorded for the model, at most as many probes as configured (at least one), however many
  checks are made.
\<close>
theorem probes_are_limited:
  assumes "b m = Some s" "circuit s = CircuitOpen" "only_checks m es"
  shows "admitted_checks cfg m es b \<le> max 1 (unat (half_open_max cfg)) \<and>
    ((\<forall>(now, e) \<in> set es. now - last_failure s < cooldown cfg) \<longrightarrow> admitted_checks cfg m es b = 0)"
  using assms by (rule open_admits)

theorem probes_are_limited_witness:
  "admitted_checks circuit_breaker_default ''m'' [(40 * 10 ^ 9, Check ''m''), (41 * 10 ^ 9, Check ''m'')]
     [''m'' \<mapsto> \<lparr>consecutive_failures = 5, last_failure = 0, circuit = CircuitOpen, half_open_attempts = 0\<rparr>] \<le> 1"
proof -
  let ?s = "\<lparr>consecutive_failures = 5, last_failure = 0, circuit = CircuitOpen, half_open_attempts = 0\<rparr>"
  have "only_checks ''m'' [(40 * 10 ^ 9, Check ''m''), (41 * 10 ^ 9, Check ''m'')]"
    by (simp add: only_checks_def)
  from probes_are_limited [of "[''m'' \<mapsto> ?s]" "''m''" ?s, OF _ _ this, of circuit_breaker_default]
  show ?thesis by (simp add: circuit_breaker_default_def)
qed

end
