(* ===== verification/Outbox.thy ===== *)
theory Outbox
imports Ordered_Map Tool_Pattern Scope
begin

text \<open>
  The transactional outbox: the messages and the store trait
  (\<^verbatim>\<open>remo-server-contract/src/contract/outbox.rs\<close>), the in-memory store
  (\<^verbatim>\<open>remo-stores/src/memory_outbox.rs\<close>), and the store of one scope that wraps another.

  The clock, the UUIDs of the claim tokens and the serialised draft that serves as digest are
  arguments.
\<close>

section \<open>Messages\<close>

datatype outbox_error =
    OutboxValidation string
  | OutboxConflict string
  | OutboxIo string
  | OutboxSerialization string

datatype outbox_status = OutboxPending | OutboxClaimed | OutboxDelivered | OutboxDeadLetter

record outbox_draft =
  od_lane :: string
  od_target :: string
  od_payload :: json
  od_dedupe_key :: "string option"
  od_available_at :: u64
  od_max_attempts :: u32

definition outbox_reject_blank :: "string \<Rightarrow> string \<Rightarrow> outbox_error + unit" where
  "outbox_reject_blank field v =
     (if is_blank v then Inl (OutboxValidation (field @ '' is required'')) else Inr ())"

definition draft_validate :: "outbox_draft \<Rightarrow> outbox_error + unit" where
  "draft_validate d =
     (case outbox_reject_blank ''lane'' (od_lane d) of Inl e \<Rightarrow> Inl e | Inr _ \<Rightarrow>
      case outbox_reject_blank ''target'' (od_target d) of Inl e \<Rightarrow> Inl e | Inr _ \<Rightarrow>
      case (case od_dedupe_key d of None \<Rightarrow> Inr () | Some k \<Rightarrow> outbox_reject_blank ''dedupe_key'' k) of
        Inl e \<Rightarrow> Inl e
      | Inr _ \<Rightarrow> if od_max_attempts d = 0
          then Inl (OutboxValidation ''max_attempts must be greater than zero'') else Inr ())"

definition outbox_default_max_attempts :: u32 where
  "outbox_default_max_attempts = 5"

definition draft_new :: "string \<Rightarrow> string \<Rightarrow> json \<Rightarrow> outbox_error + outbox_draft" where
  "draft_new lane target payload =
     (let d = \<lparr>od_lane = lane, od_target = target, od_payload = payload, od_dedupe_key = None,
               od_available_at = 0, od_max_attempts = outbox_default_max_attempts\<rparr>
      in case draft_validate d of Inl e \<Rightarrow> Inl e | Inr _ \<Rightarrow> Inr d)"

record outbox_message =
  om_id :: string
  om_lane :: string
  om_target :: string
  om_payload :: json
  om_dedupe_key :: "string option"
  om_status :: outbox_status
  om_available_at :: u64
  om_attempt_count :: u32
  om_max_attempts :: u32
  om_claimed_by :: "string option"
  om_claim_token :: "string option"
  om_lease_expires_at :: "u64 option"
  om_last_error :: "string option"
  om_created_at :: u64
  om_updated_at :: u64

definition message_from_enqueue :: "string \<Rightarrow> outbox_draft \<Rightarrow> u64 \<Rightarrow> outbox_error + outbox_message" where
  "message_from_enqueue oid d now =
     (case draft_validate d of Inl e \<Rightarrow> Inl e | Inr _ \<Rightarrow>
      case outbox_reject_blank ''outbox_id'' oid of Inl e \<Rightarrow> Inl e | Inr _ \<Rightarrow>
      Inr \<lparr>om_id = oid, om_lane = od_lane d, om_target = od_target d, om_payload = od_payload d,
           om_dedupe_key = od_dedupe_key d, om_status = OutboxPending,
           om_available_at = od_available_at d, om_attempt_count = 0, om_max_attempts = od_max_attempts d,
           om_claimed_by = None, om_claim_token = None, om_lease_expires_at = None, om_last_error = None,
           om_created_at = now, om_updated_at = now\<rparr>)"

datatype outbox_nack_outcome = Requeued | DeadLettered | LostClaim

section \<open>The in-memory store\<close>

record dedupe_record =
  dr_digest :: string
  dr_outbox_id :: string

record outbox =
  next_id :: u64
  messages :: "(string, outbox_message) btree"
  dedupe :: "(string \<times> string \<times> string, dedupe_record) btree"

definition outbox_new :: outbox where
  "outbox_new = \<lparr>next_id = 0, messages = [], dedupe = []\<rparr>"

definition put_message :: "string \<Rightarrow> outbox_message \<Rightarrow> outbox \<Rightarrow> outbox" where
  "put_message oid m ob = ob\<lparr>messages := bt_insert oid m (messages ob)\<rparr>"

definition outbox_add :: "string \<Rightarrow> u64 \<Rightarrow> outbox_draft \<Rightarrow> outbox \<Rightarrow> (outbox_error + outbox_message) \<times> outbox" where
  "outbox_add digest clock d ob0 =
     (let ob = ob0\<lparr>next_id := next_id ob0 + 1\<rparr>;
          oid = ''out_mem_'' @ show_nat (unat (next_id ob))
      in case message_from_enqueue oid d clock of
           Inl e \<Rightarrow> (Inl e, ob)
         | Inr m \<Rightarrow>
             let ob1 = (case od_dedupe_key d of
                   None \<Rightarrow> ob
                 | Some k \<Rightarrow> ob\<lparr>dedupe := bt_insert (od_lane d, od_target d, k)
                                 \<lparr>dr_digest = digest, dr_outbox_id = oid\<rparr> (dedupe ob)\<rparr>)
             in (Inr m, put_message (om_id m) m ob1))"

definition outbox_enqueue :: "(outbox_draft \<Rightarrow> outbox_error + string) \<Rightarrow> u64 \<Rightarrow> outbox_draft \<Rightarrow> outbox \<Rightarrow>
    (outbox_error + outbox_message) \<times> outbox" where
  "outbox_enqueue digest_of clock d ob =
     (case draft_validate d of Inl e \<Rightarrow> (Inl e, ob) | Inr _ \<Rightarrow>
      case digest_of d of Inl e \<Rightarrow> (Inl e, ob) | Inr digest \<Rightarrow>
      case od_dedupe_key d of
        None \<Rightarrow> outbox_add digest clock d ob
      | Some k \<Rightarrow>
          (case map_of (dedupe ob) (od_lane d, od_target d, k) of
             None \<Rightarrow> outbox_add digest clock d ob
           | Some rec \<Rightarrow>
               if dr_digest rec \<noteq> digest
               then (Inl (OutboxConflict (''outbox dedupe key reused with different input: '' @ k)), ob)
               else (case map_of (messages ob) (dr_outbox_id rec) of
                   None \<Rightarrow> (Inl (OutboxIo (''outbox dedupe index points at missing message: '' @ dr_outbox_id rec)), ob)
                 | Some m \<Rightarrow> (Inr m, ob))))"

definition is_claimable :: "outbox_message \<Rightarrow> string \<Rightarrow> string \<Rightarrow> u64 \<Rightarrow> bool" where
  "is_claimable m lane target now \<longleftrightarrow>
     om_lane m = lane \<and> om_target m = target \<and>
     (om_status m = OutboxPending \<or> om_status m = OutboxClaimed) \<and>
     om_available_at m \<le> now \<and>
     (om_status m = OutboxPending \<or>
        (case om_lease_expires_at m of None \<Rightarrow> False | Some e \<Rightarrow> e \<le> now))"

definition claim_message :: "string \<Rightarrow> string \<Rightarrow> u64 \<Rightarrow> u64 \<Rightarrow> outbox_message \<Rightarrow> outbox_message" where
  "claim_message consumer uuid lease_ms now m =
     (let n = sat_add (om_attempt_count m) 1 in
      m\<lparr>om_status := OutboxClaimed, om_attempt_count := n, om_claimed_by := Some consumer,
        om_claim_token := Some (''claim_'' @ uuid @ ''_'' @ show_nat (unat n)),
        om_lease_expires_at := Some (sat_add now lease_ms), om_updated_at := now\<rparr>)"

definition claim_order :: "outbox \<Rightarrow> string list" where
  "claim_order ob =
     sort_key (\<lambda>oid. case map_of (messages ob) oid of
         None \<Rightarrow> (0, 0, [])
       | Some m \<Rightarrow> (om_available_at m, om_created_at m, om_id m)) (map fst (messages ob))"

text \<open>The loop over the sorted ids; the \<open>n\<close>-th claim of a call draws the UUID \<open>uuids n\<close>.\<close>

fun claim_loop :: "string \<Rightarrow> string \<Rightarrow> nat \<Rightarrow> u64 \<Rightarrow> string \<Rightarrow> u64 \<Rightarrow> (nat \<Rightarrow> string) \<Rightarrow> string list \<Rightarrow>
    outbox_message list \<Rightarrow> outbox \<Rightarrow> outbox_message list \<times> outbox" where
  "claim_loop lane target limit lease_ms consumer now uuids [] claimed ob = (claimed, ob)"
| "claim_loop lane target limit lease_ms consumer now uuids (oid # oids) claimed ob =
     (if length claimed \<ge> limit then (claimed, ob)
      else (case map_of (messages ob) oid of
          None \<Rightarrow> claim_loop lane target limit lease_ms consumer now uuids oids claimed ob
        | Some m \<Rightarrow>
            if \<not> is_claimable m lane target now
            then claim_loop lane target limit lease_ms consumer now uuids oids claimed ob
            else let m' = claim_message consumer (uuids (length claimed)) lease_ms now m in
              claim_loop lane target limit lease_ms consumer now uuids oids (claimed @ [m']) (put_message oid m' ob)))"

definition outbox_claim :: "string \<Rightarrow> string \<Rightarrow> nat \<Rightarrow> u64 \<Rightarrow> string \<Rightarrow> u64 \<Rightarrow> (nat \<Rightarrow> string) \<Rightarrow> outbox \<Rightarrow>
    (outbox_error + outbox_message list) \<times> outbox" where
  "outbox_claim lane target limit lease_ms consumer now uuids ob =
     (case outbox_reject_blank ''lane'' lane of Inl e \<Rightarrow> (Inl e, ob) | Inr _ \<Rightarrow>
      case outbox_reject_blank ''target'' target of Inl e \<Rightarrow> (Inl e, ob) | Inr _ \<Rightarrow>
      case outbox_reject_blank ''consumer_id'' consumer of Inl e \<Rightarrow> (Inl e, ob) | Inr _ \<Rightarrow>
      case claim_loop lane target limit lease_ms consumer now uuids (claim_order ob) [] ob of
        (ms, ob') \<Rightarrow> (Inr ms, ob'))"

definition holds_claim :: "string \<Rightarrow> outbox_message \<Rightarrow> bool" where
  "holds_claim token m \<longleftrightarrow> om_status m = OutboxClaimed \<and> om_claim_token m = Some token"

definition outbox_ack :: "string \<Rightarrow> string \<Rightarrow> u64 \<Rightarrow> outbox \<Rightarrow> (outbox_error + bool) \<times> outbox" where
  "outbox_ack oid token now ob = (case map_of (messages ob) oid of
      None \<Rightarrow> (Inr False, ob)
    | Some m \<Rightarrow> if \<not> holds_claim token m then (Inr False, ob)
        else (Inr True, put_message oid (m\<lparr>om_status := OutboxDelivered, om_claimed_by := None,
               om_claim_token := None, om_lease_expires_at := None, om_updated_at := now\<rparr>) ob))"

definition outbox_nack :: "string \<Rightarrow> string \<Rightarrow> string \<Rightarrow> u64 \<Rightarrow> u64 \<Rightarrow> outbox \<Rightarrow>
    (outbox_error + outbox_nack_outcome) \<times> outbox" where
  "outbox_nack oid token err retry_at now ob = (case map_of (messages ob) oid of
      None \<Rightarrow> (Inr LostClaim, ob)
    | Some m \<Rightarrow> if \<not> holds_claim token m then (Inr LostClaim, ob)
        else let m1 = m\<lparr>om_last_error := Some err, om_claimed_by := None, om_claim_token := None,
                       om_lease_expires_at := None, om_updated_at := now\<rparr>
          in if om_attempt_count m1 \<ge> om_max_attempts m1
             then (Inr DeadLettered, put_message oid (m1\<lparr>om_status := OutboxDeadLetter\<rparr>) ob)
             else (Inr Requeued, put_message oid (m1\<lparr>om_status := OutboxPending, om_available_at := retry_at\<rparr>) ob))"

definition outbox_list :: "outbox_status option \<Rightarrow> nat \<Rightarrow> outbox \<Rightarrow> outbox_error + outbox_message list" where
  "outbox_list st limit ob =
     Inr (take limit (filter (\<lambda>m. case st of None \<Rightarrow> True | Some s \<Rightarrow> om_status m = s)
       (sort_key (\<lambda>m. (om_created_at m, om_available_at m, om_id m)) (map snd (messages ob)))))"

section \<open>The trait and the scoped store\<close>

record 'st outbox_ops =
  op_enqueue_outbox :: "u64 \<Rightarrow> outbox_draft \<Rightarrow> 'st \<Rightarrow> (outbox_error + outbox_message) \<times> 'st"
  op_claim_outbox :: "string \<Rightarrow> string \<Rightarrow> nat \<Rightarrow> u64 \<Rightarrow> string \<Rightarrow> u64 \<Rightarrow> (nat \<Rightarrow> string) \<Rightarrow> 'st \<Rightarrow>
    (outbox_error + outbox_message list) \<times> 'st"
  op_ack_outbox :: "string \<Rightarrow> string \<Rightarrow> u64 \<Rightarrow> 'st \<Rightarrow> (outbox_error + bool) \<times> 'st"
  op_nack_outbox :: "string \<Rightarrow> string \<Rightarrow> string \<Rightarrow> u64 \<Rightarrow> u64 \<Rightarrow> 'st \<Rightarrow>
    (outbox_error + outbox_nack_outcome) \<times> 'st"
  op_list_outbox :: "outbox_status option \<Rightarrow> nat \<Rightarrow> 'st \<Rightarrow> outbox_error + outbox_message list"

definition memory_outbox :: "(outbox_draft \<Rightarrow> outbox_error + string) \<Rightarrow> outbox outbox_ops" where
  "memory_outbox digest_of = \<lparr>op_enqueue_outbox = outbox_enqueue digest_of, op_claim_outbox = outbox_claim,
     op_ack_outbox = outbox_ack, op_nack_outbox = outbox_nack, op_list_outbox = outbox_list\<rparr>"

definition outbox_encode_draft :: "string \<Rightarrow> outbox_draft \<Rightarrow> outbox_draft" where
  "outbox_encode_draft scope d = d\<lparr>od_lane := scoped_key scope (od_lane d),
     od_dedupe_key := map_option (scoped_key scope) (od_dedupe_key d)\<rparr>"

definition outbox_decode_message :: "string \<Rightarrow> outbox_message \<Rightarrow> outbox_message option" where
  "outbox_decode_message scope m = (case unscoped_key scope (om_lane m) of
      None \<Rightarrow> None
    | Some lane \<Rightarrow> Some (m\<lparr>om_lane := lane,
        om_dedupe_key := Option.bind (om_dedupe_key m) (unscoped_key scope)\<rparr>))"

text \<open>\<^verbatim>\<open>usize::MAX\<close> as a limit is no limit: no list is that long.\<close>

definition usize_max :: nat where
  "usize_max = 2 ^ 64 - 1"

definition scoped_outbox_list :: "string \<Rightarrow> 'st outbox_ops \<Rightarrow> outbox_status option \<Rightarrow> nat \<Rightarrow> 'st \<Rightarrow>
    outbox_error + outbox_message list" where
  "scoped_outbox_list scope ops st limit s = (case op_list_outbox ops st usize_max s of
      Inl e \<Rightarrow> Inl e
    | Inr ms \<Rightarrow> Inr (take limit (List.map_filter (outbox_decode_message scope) ms)))"

definition scoped_outbox_enqueue :: "string \<Rightarrow> 'st outbox_ops \<Rightarrow> u64 \<Rightarrow> outbox_draft \<Rightarrow> 'st \<Rightarrow>
    (outbox_error + outbox_message) \<times> 'st" where
  "scoped_outbox_enqueue scope ops clock d s =
     (case op_enqueue_outbox ops clock (outbox_encode_draft scope d) s of
        (Inl e, s') \<Rightarrow> (Inl e, s')
      | (Inr m, s') \<Rightarrow> (case outbox_decode_message scope m of
          Some m' \<Rightarrow> (Inr m', s')
        | None \<Rightarrow> (Inl (OutboxIo ''scoped outbox store returned a message outside its scope''), s')))"

definition scoped_outbox_claim :: "string \<Rightarrow> 'st outbox_ops \<Rightarrow> string \<Rightarrow> string \<Rightarrow> nat \<Rightarrow> u64 \<Rightarrow> string \<Rightarrow> u64 \<Rightarrow>
    (nat \<Rightarrow> string) \<Rightarrow> 'st \<Rightarrow> (outbox_error + outbox_message list) \<times> 'st" where
  "scoped_outbox_claim scope ops lane target limit lease_ms consumer now uuids s =
     (case op_claim_outbox ops (scoped_key scope lane) target limit lease_ms consumer now uuids s of
        (Inl e, s') \<Rightarrow> (Inl e, s')
      | (Inr ms, s') \<Rightarrow> (Inr (List.map_filter (outbox_decode_message scope) ms), s'))"

text \<open>The claimed message of the scope with an id.\<close>

definition scoped_claimed :: "string \<Rightarrow> 'st outbox_ops \<Rightarrow> string \<Rightarrow> 'st \<Rightarrow> outbox_error + outbox_message option" where
  "scoped_claimed scope ops oid s = (case scoped_outbox_list scope ops (Some OutboxClaimed) usize_max s of
      Inl e \<Rightarrow> Inl e
    | Inr ms \<Rightarrow> Inr (find (\<lambda>m. om_id m = oid) ms))"

definition scoped_outbox_ack :: "string \<Rightarrow> 'st outbox_ops \<Rightarrow> string \<Rightarrow> string \<Rightarrow> u64 \<Rightarrow> 'st \<Rightarrow>
    (outbox_error + bool) \<times> 'st" where
  "scoped_outbox_ack scope ops oid token now s = (case scoped_claimed scope ops oid s of
      Inl e \<Rightarrow> (Inl e, s)
    | Inr None \<Rightarrow> (Inr False, s)
    | Inr (Some m) \<Rightarrow> op_ack_outbox ops (om_id m) token now s)"

definition scoped_outbox_nack :: "string \<Rightarrow> 'st outbox_ops \<Rightarrow> string \<Rightarrow> string \<Rightarrow> string \<Rightarrow> u64 \<Rightarrow> u64 \<Rightarrow> 'st \<Rightarrow>
    (outbox_error + outbox_nack_outcome) \<times> 'st" where
  "scoped_outbox_nack scope ops oid token err retry_at now s = (case scoped_claimed scope ops oid s of
      Inl e \<Rightarrow> (Inl e, s)
    | Inr None \<Rightarrow> (Inr LostClaim, s)
    | Inr (Some m) \<Rightarrow> op_nack_outbox ops (om_id m) token err retry_at now s)"

definition scoped_outbox :: "string \<Rightarrow> 'st outbox_ops \<Rightarrow> 'st outbox_ops" where
  "scoped_outbox scope ops = \<lparr>op_enqueue_outbox = scoped_outbox_enqueue scope ops,
     op_claim_outbox = scoped_outbox_claim scope ops, op_ack_outbox = scoped_outbox_ack scope ops,
     op_nack_outbox = scoped_outbox_nack scope ops, op_list_outbox = scoped_outbox_list scope ops\<rparr>"

end
