(* ===== verification/Outbox_Correct.thy ===== *)
theory Outbox_Correct
imports Outbox
begin

text \<open>
  What the outbox guarantees, stated as a contract of the store trait that the in-memory store and
  the scoped store over it satisfy: messages are never lost, follow the delivery lifecycle, and are
  settled at most once; a dedupe key stands for at most one message.
\<close>

section \<open>The lifecycle of a message\<close>

fun outbox_edge :: "outbox_status \<Rightarrow> outbox_status \<Rightarrow> bool" where
  "outbox_edge OutboxPending s = (s = OutboxClaimed)"
| "outbox_edge OutboxClaimed s = True"
| "outbox_edge OutboxDelivered s = False"
| "outbox_edge OutboxDeadLetter s = False"

definition outbox_terminal :: "outbox_status \<Rightarrow> bool" where
  "outbox_terminal s \<longleftrightarrow> s = OutboxDelivered \<or> s = OutboxDeadLetter"

definition message_identity :: "outbox_message \<Rightarrow> string \<times> string \<times> string \<times> json \<times> string option \<times> u64" where
  "message_identity m =
     (om_id m, om_lane m, om_target m, om_payload m, om_dedupe_key m, om_created_at m)"

definition message_evolves :: "outbox_message \<Rightarrow> outbox_message \<Rightarrow> bool" where
  "message_evolves m m' \<longleftrightarrow> m' = m \<or>
     (outbox_edge (om_status m) (om_status m') \<and> message_identity m' = message_identity m)"

lemma evolves_terminal: "message_evolves m m' \<Longrightarrow> outbox_terminal (om_status m) \<Longrightarrow> m' = m"
  by (auto simp: message_evolves_def outbox_terminal_def)

type_synonym outbox_view = "string \<Rightarrow> outbox_message option"

text \<open>No message is lost, and each stays or takes an edge; \<open>P\<close> holds of those that changed.\<close>

definition view_evolves :: "outbox_view \<Rightarrow> outbox_view \<Rightarrow> bool" where
  "view_evolves v v' \<longleftrightarrow> (\<forall>i m. v i = Some m \<longrightarrow> (\<exists>m'. v' i = Some m' \<and> message_evolves m m'))"

lemma view_evolves_refl [simp]: "view_evolves v v"
  by (auto simp: view_evolves_def message_evolves_def)

section \<open>The contract of the trait\<close>

datatype outbox_command =
    EnqueueOutbox u64 outbox_draft
  | ClaimOutbox string string nat u64 string u64 "nat \<Rightarrow> string"
  | AckOutbox string string u64
  | NackOutbox string string string u64 u64

fun outbox_step :: "'st outbox_ops \<Rightarrow> outbox_command \<Rightarrow> 'st \<Rightarrow> 'st" where
  "outbox_step ops (EnqueueOutbox clock d) s = snd (op_enqueue_outbox ops clock d s)"
| "outbox_step ops (ClaimOutbox lane target limit lease consumer now uuids) s =
     snd (op_claim_outbox ops lane target limit lease consumer now uuids s)"
| "outbox_step ops (AckOutbox oid token now) s = snd (op_ack_outbox ops oid token now s)"
| "outbox_step ops (NackOutbox oid token err retry_at now) s = snd (op_nack_outbox ops oid token err retry_at now s)"

fun outbox_run :: "'st outbox_ops \<Rightarrow> outbox_command list \<Rightarrow> 'st \<Rightarrow> 'st" where
  "outbox_run ops [] s = s"
| "outbox_run ops (c # cs) s = outbox_run ops cs (outbox_step ops c s)"

definition enqueues :: "outbox_command list \<Rightarrow> nat" where
  "enqueues cs = length (filter (\<lambda>c. case c of EnqueueOutbox _ _ \<Rightarrow> True | _ \<Rightarrow> False) cs)"

text \<open>
  \<open>view\<close> is what the store holds, \<open>room\<close> how many messages it can still take before its ids repeat.
\<close>

locale outbox_store =
  fixes ops :: "'st outbox_ops"
    and inv :: "'st \<Rightarrow> bool"
    and view :: "'st \<Rightarrow> outbox_view"
    and room :: "'st \<Rightarrow> nat"
  assumes enqueue_law: "inv s \<Longrightarrow> room s > 0 \<Longrightarrow> op_enqueue_outbox ops clock d s = (r, s') \<Longrightarrow>
      inv s' \<and> view_evolves (view s) (view s') \<and> room s \<le> room s' + 1"
    and claim_law: "inv s \<Longrightarrow> op_claim_outbox ops lane target limit lease consumer now uuids s = (q, s') \<Longrightarrow>
      inv s' \<and> view_evolves (view s) (view s') \<and> room s' = room s"
    and ack_law: "inv s \<Longrightarrow> op_ack_outbox ops oid token now s = (b, s') \<Longrightarrow>
      inv s' \<and> view_evolves (view s) (view s') \<and> room s' = room s \<and>
      (b = Inr True \<longleftrightarrow> (\<exists>m. view s oid = Some m \<and> holds_claim token m)) \<and>
      (b = Inr True \<longrightarrow> (\<exists>m. view s' oid = Some m \<and> om_status m = OutboxDelivered))"
    and nack_law: "inv s \<Longrightarrow> op_nack_outbox ops oid token err retry_at now s = (n, s') \<Longrightarrow>
      inv s' \<and> view_evolves (view s) (view s') \<and> room s' = room s \<and>
      (n \<noteq> Inr LostClaim \<longleftrightarrow> (\<exists>m. view s oid = Some m \<and> holds_claim token m)) \<and>
      (n = Inr DeadLettered \<longrightarrow> (\<exists>m. view s' oid = Some m \<and> om_status m = OutboxDeadLetter))"
begin

lemma step_law:
  assumes "inv s" "enqueues [c] \<le> room s"
  shows "inv (outbox_step ops c s) \<and> view_evolves (view s) (view (outbox_step ops c s)) \<and>
    room s \<le> room (outbox_step ops c s) + enqueues [c]"
proof (cases c)
  case (EnqueueOutbox clock d)
  obtain r s' where "op_enqueue_outbox ops clock d s = (r, s')" by fastforce
  with enqueue_law [OF assms(1) _ this] assms(2) EnqueueOutbox show ?thesis by (simp add: enqueues_def)
next
  case (ClaimOutbox lane target limit lease consumer now uuids)
  obtain q s' where "op_claim_outbox ops lane target limit lease consumer now uuids s = (q, s')" by fastforce
  with claim_law [OF assms(1) this] ClaimOutbox show ?thesis by simp
next
  case (AckOutbox oid token now)
  obtain b s' where "op_ack_outbox ops oid token now s = (b, s')" by fastforce
  with ack_law [OF assms(1) this] AckOutbox show ?thesis by simp
next
  case (NackOutbox oid token err retry_at now)
  obtain n s' where "op_nack_outbox ops oid token err retry_at now s = (n, s')" by fastforce
  with nack_law [OF assms(1) this] NackOutbox show ?thesis by simp
qed

lemma enqueues_Cons: "enqueues (c # cs) = enqueues [c] + enqueues cs"
  by (simp add: enqueues_def)

lemma run_law:
  "inv s \<Longrightarrow> enqueues cs \<le> room s \<Longrightarrow> inv (outbox_run ops cs s) \<and>
     (\<forall>i m. view s i = Some m \<longrightarrow> (\<exists>m'. view (outbox_run ops cs s) i = Some m' \<and>
        message_identity m' = message_identity m \<and>
        (outbox_terminal (om_status m) \<longrightarrow> m' = m)))"
proof (induction cs arbitrary: s)
  case (Cons c cs)
  let ?s = "outbox_step ops c s"
  have le: "enqueues [c] \<le> room s" "enqueues cs \<le> room s - enqueues [c]"
    using Cons.prems(2) enqueues_Cons [of c cs] by auto
  note step = step_law [OF Cons.prems(1) le(1)]
  then have "enqueues cs \<le> room ?s" using le by linarith
  with Cons.IH [of ?s] step have rest: "inv (outbox_run ops cs ?s)"
    "\<And>i m. view ?s i = Some m \<Longrightarrow> \<exists>m'. view (outbox_run ops cs ?s) i = Some m' \<and>
       message_identity m' = message_identity m \<and> (outbox_terminal (om_status m) \<longrightarrow> m' = m)"
    by auto
  have "\<exists>m'. view (outbox_run ops cs ?s) i = Some m' \<and> message_identity m' = message_identity m \<and>
      (outbox_terminal (om_status m) \<longrightarrow> m' = m)" if "view s i = Some m" for i m
  proof -
    have "view_evolves (view s) (view ?s)" using step by blast
    with that obtain m1 where m1: "view ?s i = Some m1" "message_evolves m m1"
      unfolding view_evolves_def by blast
    moreover have "message_identity m1 = message_identity m"
      using m1(2) by (auto simp: message_evolves_def)
    ultimately show ?thesis using rest(2) [OF m1(1)] evolves_terminal [OF m1(2)] by auto
  qed
  with rest(1) show ?case by simp
qed simp

text \<open>Whatever happens after a settlement, the message cannot be settled again.\<close>

lemma settled_once:
  assumes "inv s" "(op_ack_outbox ops oid token now s = (Inr True, s1)) \<or>
      (op_nack_outbox ops oid token err retry_at now s = (Inr DeadLettered, s1))"
    and "enqueues cs \<le> room s1"
  shows "fst (op_ack_outbox ops oid token2 now2 (outbox_run ops cs s1)) \<noteq> Inr True \<and>
    fst (op_nack_outbox ops oid token2 err2 retry2 now2 (outbox_run ops cs s1)) = Inr LostClaim"
proof -
  have "inv s1 \<and> (\<exists>m. view s1 oid = Some m \<and> outbox_terminal (om_status m))"
    using assms(2)
  proof
    assume "op_ack_outbox ops oid token now s = (Inr True, s1)"
    from ack_law [OF assms(1) this] show ?thesis by (auto simp: outbox_terminal_def)
  next
    assume "op_nack_outbox ops oid token err retry_at now s = (Inr DeadLettered, s1)"
    from nack_law [OF assms(1) this] show ?thesis by (auto simp: outbox_terminal_def)
  qed
  then obtain m where s1: "inv s1" and m: "view s1 oid = Some m" "outbox_terminal (om_status m)" by blast
  let ?s = "outbox_run ops cs s1"
  from run_law [OF s1 assms(3)] m have inv: "inv ?s" and "view ?s oid = Some m" by auto
  moreover have "\<not> holds_claim t m" for t using m(2) by (auto simp: holds_claim_def outbox_terminal_def)
  ultimately have none: "\<not> (\<exists>m. view ?s oid = Some m \<and> holds_claim token2 m)" by simp
  obtain b sa where ack: "op_ack_outbox ops oid token2 now2 ?s = (b, sa)" by fastforce
  obtain n sn where nack: "op_nack_outbox ops oid token2 err2 retry2 now2 ?s = (n, sn)" by fastforce
  from ack_law [OF inv ack] nack_law [OF inv nack] none ack nack show ?thesis by auto
qed

end

section \<open>The invariant of the in-memory store\<close>

definition claim_fields_ok :: "outbox_message \<Rightarrow> bool" where
  "claim_fields_ok m \<longleftrightarrow>
     (om_status m = OutboxClaimed \<longleftrightarrow> om_claim_token m \<noteq> None) \<and>
     (om_status m = OutboxClaimed \<longleftrightarrow> om_claimed_by m \<noteq> None) \<and>
     (om_status m = OutboxClaimed \<longleftrightarrow> om_lease_expires_at m \<noteq> None)"

definition memory_id :: "nat \<Rightarrow> string" where
  "memory_id n = ''out_mem_'' @ show_nat n"

lemma memory_id_inject [simp]: "memory_id m = memory_id n \<longleftrightarrow> m = n"
  by (simp add: memory_id_def)

definition messages_ok :: "outbox \<Rightarrow> bool" where
  "messages_ok ob \<longleftrightarrow> (\<forall>i m. map_of (messages ob) i = Some m \<longrightarrow> om_id m = i \<and> claim_fields_ok m \<and>
     i \<in> memory_id ` {1..unat (next_id ob)})"

text \<open>The dedupe index and the messages that carry a dedupe key point at each other.\<close>

definition dedupe_key_of :: "outbox_message \<Rightarrow> (string \<times> string \<times> string) option" where
  "dedupe_key_of m = map_option (\<lambda>k. (om_lane m, om_target m, k)) (om_dedupe_key m)"

definition dedupe_ok :: "outbox \<Rightarrow> bool" where
  "dedupe_ok ob \<longleftrightarrow>
     (\<forall>k r. map_of (dedupe ob) k = Some r \<longrightarrow>
        (\<exists>m. map_of (messages ob) (dr_outbox_id r) = Some m \<and> dedupe_key_of m = Some k)) \<and>
     (\<forall>i m k. map_of (messages ob) i = Some m \<longrightarrow> dedupe_key_of m = Some k \<longrightarrow>
        map_option dr_outbox_id (map_of (dedupe ob) k) = Some i)"

definition outbox_inv :: "outbox \<Rightarrow> bool" where
  "outbox_inv ob \<longleftrightarrow> bt_ok (messages ob) \<and> bt_ok (dedupe ob) \<and> messages_ok ob \<and> dedupe_ok ob"

definition outbox_room :: "outbox \<Rightarrow> nat" where
  "outbox_room ob = 2 ^ 64 - 1 - unat (next_id ob)"

definition message_view :: "outbox \<Rightarrow> outbox_view" where
  "message_view ob = map_of (messages ob)"

lemma outbox_inv_new [simp]: "outbox_inv outbox_new"
  by (simp add: outbox_inv_def outbox_new_def messages_ok_def dedupe_ok_def)

lemma put_message_simps [simp]:
  "next_id (put_message i m ob) = next_id ob"
  "dedupe (put_message i m ob) = dedupe ob"
  "outbox_room (put_message i m ob) = outbox_room ob"
  by (simp_all add: put_message_def outbox_room_def)

lemma view_put: "outbox_inv ob \<Longrightarrow> message_view (put_message i m ob) = (message_view ob)(i \<mapsto> m)"
  by (simp add: message_view_def put_message_def bt_lookup_insert outbox_inv_def)

lemma message_identity_keys:
  "message_identity m' = message_identity m \<Longrightarrow> om_id m' = om_id m \<and> dedupe_key_of m' = dedupe_key_of m"
  by (simp add: message_identity_def dedupe_key_of_def)

text \<open>Replacing a message by a later version of itself.\<close>

lemma put_message_inv:
  assumes "outbox_inv ob" "message_view ob i = Some m" "message_identity m' = message_identity m"
    "claim_fields_ok m'"
  shows "outbox_inv (put_message i m' ob)"
proof -
  note keys = message_identity_keys [OF assms(3)]
  have look: "map_of (messages (put_message i m' ob)) = (map_of (messages ob))(i \<mapsto> m')"
    using view_put [OF assms(1), of i m'] by (simp add: message_view_def)
  have ok: "messages_ok ob" "dedupe_ok ob" and at: "map_of (messages ob) i = Some m"
    using assms(1,2) by (auto simp: outbox_inv_def message_view_def)
  have "messages_ok (put_message i m' ob)"
    using ok(1) at keys assms(4) by (auto simp: messages_ok_def look)
  moreover have "dedupe_ok (put_message i m' ob)"
    unfolding dedupe_ok_def look put_message_simps
  proof (intro conjI allI impI)
    fix k r
    assume "map_of (dedupe ob) k = Some r"
    with ok(2) obtain m0 where "map_of (messages ob) (dr_outbox_id r) = Some m0" "dedupe_key_of m0 = Some k"
      unfolding dedupe_ok_def by blast
    with at keys show "\<exists>m. ((map_of (messages ob))(i \<mapsto> m')) (dr_outbox_id r) = Some m \<and> dedupe_key_of m = Some k"
      by auto
  next
    fix j m0 k
    assume "((map_of (messages ob))(i \<mapsto> m')) j = Some m0" "dedupe_key_of m0 = Some k"
    with at keys have "\<exists>m1. map_of (messages ob) j = Some m1 \<and> dedupe_key_of m1 = Some k"
      by (auto split: if_splits)
    with ok(2) show "map_option dr_outbox_id (map_of (dedupe ob) k) = Some j"
      unfolding dedupe_ok_def by blast
  qed
  ultimately show ?thesis using assms(1) by (simp add: outbox_inv_def put_message_def)
qed

lemma view_evolves_upd:
  "v i = Some m \<Longrightarrow> message_evolves m m' \<Longrightarrow> view_evolves v (v(i \<mapsto> m'))"
  by (auto simp: view_evolves_def message_evolves_def)

section \<open>Its operations satisfy the contract\<close>

lemma inv_message:
  "outbox_inv ob \<Longrightarrow> message_view ob i = Some m \<Longrightarrow> om_id m = i \<and> claim_fields_ok m"
  by (simp add: outbox_inv_def messages_ok_def message_view_def)

lemma memory_ack_law:
  assumes "outbox_inv ob" "outbox_ack oid token now ob = (b, ob')"
  shows "outbox_inv ob' \<and> view_evolves (message_view ob) (message_view ob') \<and> outbox_room ob' = outbox_room ob \<and>
    (b = Inr True \<longleftrightarrow> (\<exists>m. message_view ob oid = Some m \<and> holds_claim token m)) \<and>
    (b = Inr True \<longrightarrow> (\<exists>m. message_view ob' oid = Some m \<and> om_status m = OutboxDelivered))"
proof (cases "\<exists>m. message_view ob oid = Some m \<and> holds_claim token m")
  case True
  then obtain m where m: "message_view ob oid = Some m" "holds_claim token m" by blast
  let ?m = "m\<lparr>om_status := OutboxDelivered, om_claimed_by := None, om_claim_token := None,
    om_lease_expires_at := None, om_updated_at := now\<rparr>"
  have res: "b = Inr True" "ob' = put_message oid ?m ob"
    using assms(2) m by (auto simp: outbox_ack_def message_view_def)
  have "message_evolves m ?m"
    using m(2) by (simp add: message_evolves_def holds_claim_def message_identity_def)
  moreover have "outbox_inv ob'"
    unfolding res by (rule put_message_inv [OF assms(1) m(1)])
      (simp_all add: message_identity_def claim_fields_ok_def)
  ultimately show ?thesis using m by (auto simp: res view_put [OF assms(1)] view_evolves_upd)
next
  case False
  with assms(2) have "b = Inr False" "ob' = ob"
    by (auto simp: outbox_ack_def message_view_def split: option.splits if_splits)
  with False assms(1) show ?thesis by auto
qed

lemma memory_nack_law:
  assumes "outbox_inv ob" "outbox_nack oid token err retry_at now ob = (n, ob')"
  shows "outbox_inv ob' \<and> view_evolves (message_view ob) (message_view ob') \<and> outbox_room ob' = outbox_room ob \<and>
    (n \<noteq> Inr LostClaim \<longleftrightarrow> (\<exists>m. message_view ob oid = Some m \<and> holds_claim token m)) \<and>
    (n = Inr DeadLettered \<longrightarrow> (\<exists>m. message_view ob' oid = Some m \<and> om_status m = OutboxDeadLetter))"
proof (cases "\<exists>m. message_view ob oid = Some m \<and> holds_claim token m")
  case True
  then obtain m where m: "message_view ob oid = Some m" "holds_claim token m" by blast
  let ?m = "m\<lparr>om_last_error := Some err, om_claimed_by := None, om_claim_token := None,
    om_lease_expires_at := None, om_updated_at := now\<rparr>"
  obtain m' where res: "ob' = put_message oid m' ob" and m': "message_identity m' = message_identity m"
      "claim_fields_ok m'" and n: "n = Inr DeadLettered \<and> om_status m' = OutboxDeadLetter \<or> n = Inr Requeued"
    using assms(2) m
    by (auto simp: outbox_nack_def message_view_def Let_def message_identity_def claim_fields_ok_def
        split: if_splits)
  have "message_evolves m m'" using m(2) m'(1) by (simp add: message_evolves_def holds_claim_def)
  moreover have "outbox_inv ob'" unfolding res by (rule put_message_inv [OF assms(1) m(1) m'])
  ultimately show ?thesis using m n by (auto simp: res view_put [OF assms(1)] view_evolves_upd)
next
  case False
  with assms(2) have "n = Inr LostClaim" "ob' = ob"
    by (auto simp: outbox_nack_def message_view_def split: option.splits if_splits)
  with False assms(1) show ?thesis by auto
qed

lemma claim_message_later:
  "message_identity (claim_message consumer uuid lease now m) = message_identity m \<and>
   claim_fields_ok (claim_message consumer uuid lease now m) \<and>
   om_status (claim_message consumer uuid lease now m) = OutboxClaimed"
  by (simp add: claim_message_def message_identity_def claim_fields_ok_def Let_def)

lemma claim_evolves:
  "is_claimable m lane target t \<Longrightarrow> message_evolves m (claim_message consumer uuid lease now m)"
  using claim_message_later [of consumer uuid lease now m]
  by (auto simp: message_evolves_def is_claimable_def)

text \<open>What a run of the loop does to the store: it only claims messages that are not settled.\<close>

definition only_claims :: "outbox_view \<Rightarrow> outbox_view \<Rightarrow> bool" where
  "only_claims v v' \<longleftrightarrow> (\<forall>i m. v i = Some m \<longrightarrow> (\<exists>m'. v' i = Some m' \<and> (m' = m \<or>
     om_status m \<in> {OutboxPending, OutboxClaimed} \<and> om_status m' = OutboxClaimed \<and>
     message_identity m' = message_identity m)))"

lemma only_claims_refl [simp]: "only_claims v v"
  by (simp add: only_claims_def)

lemma only_claims_trans: "only_claims u v \<Longrightarrow> only_claims v w \<Longrightarrow> only_claims u w"
  unfolding only_claims_def by (smt (verit, best) insert_iff)

lemma only_claims_evolves: "only_claims v v' \<Longrightarrow> view_evolves v v'"
  unfolding only_claims_def view_evolves_def message_evolves_def
  by (metis insert_iff outbox_edge.simps(1,2) singletonD)

lemma only_claims_claim:
  "v i = Some m \<Longrightarrow> is_claimable m lane target t \<Longrightarrow>
   only_claims v (v(i \<mapsto> claim_message consumer uuid lease now m))"
  using claim_message_later [of consumer uuid lease now m]
  by (auto simp: only_claims_def is_claimable_def)

lemma claim_loop_inv:
  "claim_loop lane target limit lease consumer now uuids oids claimed ob = (out, ob') \<Longrightarrow> outbox_inv ob \<Longrightarrow>
   outbox_inv ob' \<and> outbox_room ob' = outbox_room ob \<and> only_claims (message_view ob) (message_view ob')"
proof (induction lane target limit lease consumer now uuids oids claimed ob arbitrary: out ob' rule: claim_loop.induct)
  case (2 lane target limit lease consumer now uuids oid oids claimed ob)
  note run = 2(4)
  show ?case
  proof (cases "limit \<le> length claimed")
    case False
    note IH = 2(1,2,3) [OF False]
    show ?thesis
    proof (cases "message_view ob oid")
      case None
      with False run 2(5) IH(1) show ?thesis by (simp add: message_view_def)
    next
      case (Some m)
      show ?thesis
      proof (cases "is_claimable m lane target now")
        case False
        with Some \<open>\<not> limit \<le> length claimed\<close> run 2(5) IH(2) [of m] show ?thesis by (simp add: message_view_def)
      next
        case True
        define m' where "m' = claim_message consumer (uuids (length claimed)) lease now m"
        note later = claim_message_later [of consumer "uuids (length claimed)" lease now m, folded m'_def]
        have inv: "outbox_inv (put_message oid m' ob)"
          using put_message_inv [OF 2(5) Some] later by blast
        have "claim_loop lane target limit lease consumer now uuids oids (claimed @ [m'])
            (put_message oid m' ob) = (out, ob')"
          using run Some True False by (simp add: message_view_def m'_def Let_def)
        with IH(3) [of m m' out ob'] Some True inv
        have "outbox_inv ob' \<and> outbox_room ob' = outbox_room ob \<and>
            only_claims (message_view (put_message oid m' ob)) (message_view ob')"
          by (simp add: message_view_def m'_def)
        moreover have "only_claims (message_view ob) (message_view (put_message oid m' ob))"
          unfolding view_put [OF 2(5)] m'_def using Some True by (rule only_claims_claim)
        ultimately show ?thesis using only_claims_trans by blast
      qed
    qed
  qed (use run 2(5) in simp)
qed simp

lemma memory_claim_law:
  assumes "outbox_inv ob" "outbox_claim lane target limit lease consumer now uuids ob = (q, ob')"
  shows "outbox_inv ob' \<and> view_evolves (message_view ob) (message_view ob') \<and> outbox_room ob' = outbox_room ob"
proof -
  have "ob' = ob \<or> (\<exists>out. claim_loop lane target limit lease consumer now uuids (claim_order ob) [] ob = (out, ob'))"
    using assms(2) by (auto simp: outbox_claim_def split: sum.splits prod.splits)
  with claim_loop_inv [OF _ assms(1)] only_claims_evolves show ?thesis
    using assms(1) view_evolves_refl by blast
qed

lemma fresh_memory_id:
  assumes "outbox_inv ob" "outbox_room ob > 0"
  shows "unat (next_id ob + 1) = unat (next_id ob) + 1"
    and "message_view ob (memory_id (unat (next_id ob + 1))) = None"
proof -
  show succ: "unat (next_id ob + 1) = unat (next_id ob) + 1"
    using assms(2) by (simp add: outbox_room_def unat_word_ariths)
  show "message_view ob (memory_id (unat (next_id ob + 1))) = None"
  proof (rule ccontr)
    assume "\<not> ?thesis"
    then obtain m where "map_of (messages ob) (memory_id (unat (next_id ob + 1))) = Some m"
      by (auto simp: message_view_def)
    with assms(1) have "memory_id (unat (next_id ob + 1)) \<in> memory_id ` {1..unat (next_id ob)}"
      unfolding outbox_inv_def messages_ok_def by blast
    with succ show False by auto
  qed
qed

lemma dedupe_ok_add:
  assumes ok: "dedupe_ok ob" and none: "map_of (messages ob) i = None"
    and free: "\<And>k. dedupe_key_of m = Some k \<Longrightarrow> map_of (dedupe ob) k = None"
    and look: "map_of (messages ob') = (map_of (messages ob))(i \<mapsto> m)"
    and dlook: "map_of (dedupe ob') = (case dedupe_key_of m of None \<Rightarrow> map_of (dedupe ob)
         | Some k \<Rightarrow> (map_of (dedupe ob))(k \<mapsto> \<lparr>dr_digest = digest, dr_outbox_id = i\<rparr>))"
  shows "dedupe_ok ob'"
  unfolding dedupe_ok_def look
proof (intro conjI allI impI)
  fix k r
  assume "map_of (dedupe ob') k = Some r"
  then have "map_of (dedupe ob) k = Some r \<or> (dr_outbox_id r = i \<and> dedupe_key_of m = Some k)"
    by (auto simp: dlook split: option.splits if_splits)
  with ok none show "\<exists>m'. ((map_of (messages ob))(i \<mapsto> m)) (dr_outbox_id r) = Some m' \<and> dedupe_key_of m' = Some k"
    unfolding dedupe_ok_def by (metis fun_upd_apply option.distinct(1))
next
  fix j m0 k
  assume m0: "((map_of (messages ob))(i \<mapsto> m)) j = Some m0" "dedupe_key_of m0 = Some k"
  show "map_option dr_outbox_id (map_of (dedupe ob') k) = Some j"
  proof (cases "j = i")
    case True
    with m0 dlook show ?thesis by simp
  next
    case False
    with m0(1) have "map_of (messages ob) j = Some m0" by simp
    with m0(2) ok have old: "map_option dr_outbox_id (map_of (dedupe ob) k) = Some j"
      unfolding dedupe_ok_def by blast
    with free [of k] have "dedupe_key_of m \<noteq> Some k" by auto
    with old dlook show ?thesis by (auto split: option.splits)
  qed
qed

lemma outbox_add_stored:
  assumes "n = next_id ob + 1" "message_from_enqueue (memory_id (unat n)) d clock = Inr m"
  shows "outbox_add digest clock d ob = (Inr m, ob\<lparr>next_id := n,
     dedupe := (case od_dedupe_key d of None \<Rightarrow> dedupe ob
       | Some k \<Rightarrow> bt_insert (od_lane d, od_target d, k) \<lparr>dr_digest = digest, dr_outbox_id = memory_id (unat n)\<rparr> (dedupe ob)),
     messages := bt_insert (om_id m) m (messages ob)\<rparr>)"
  using assms by (simp add: outbox_add_def memory_id_def put_message_def Let_def split: option.splits)

lemma outbox_add_refused:
  assumes "n = next_id ob + 1" "message_from_enqueue (memory_id (unat n)) d clock = Inl e"
  shows "outbox_add digest clock d ob = (Inl e, ob\<lparr>next_id := n\<rparr>)"
  using assms by (simp add: outbox_add_def memory_id_def Let_def)

text \<open>Adding a message whose dedupe key, if it has one, is not recorded yet.\<close>

lemma outbox_add_inv:
  assumes inv: "outbox_inv ob" and room: "outbox_room ob > 0"
    and free: "\<And>k. od_dedupe_key d = Some k \<Longrightarrow> map_of (dedupe ob) (od_lane d, od_target d, k) = None"
    and add: "outbox_add digest clock d ob = (r, ob')"
  shows "outbox_inv ob' \<and> view_evolves (message_view ob) (message_view ob') \<and> outbox_room ob \<le> outbox_room ob' + 1"
proof -
  define n where "n = next_id ob + 1"
  note fresh = fresh_memory_id [OF inv room, folded n_def]
  have msgs: "messages_ok ob" "dedupe_ok ob" and bt: "bt_ok (messages ob)" "bt_ok (dedupe ob)"
    using inv by (auto simp: outbox_inv_def)
  have room': "outbox_room ob \<le> (2 ^ 64 - 1 - unat n) + 1"
    using fresh(1) by (simp add: outbox_room_def)
  have later: "messages_ok (ob\<lparr>next_id := n\<rparr>)"
  proof -
    have "memory_id ` {1..unat (next_id ob)} \<subseteq> memory_id ` {1..unat n}" using fresh(1) by auto
    with msgs(1) show ?thesis unfolding messages_ok_def by auto
  qed
  show ?thesis
  proof (cases "message_from_enqueue (memory_id (unat n)) d clock")
    case (Inl e)
    then have "ob' = ob\<lparr>next_id := n\<rparr>"
      using add outbox_add_refused [OF n_def Inl] by simp
    with inv later room' show ?thesis
      by (simp add: outbox_inv_def dedupe_ok_def message_view_def outbox_room_def)
  next
    case (Inr m)
    define i where "i = memory_id (unat n)"
    have m: "om_id m = i" "claim_fields_ok m" "om_lane m = od_lane d" "om_target m = od_target d"
        "om_dedupe_key m = od_dedupe_key d"
      using Inr by (auto simp: message_from_enqueue_def claim_fields_ok_def i_def split: sum.splits)
    have key: "dedupe_key_of m = map_option (\<lambda>k. (od_lane d, od_target d, k)) (od_dedupe_key d)"
      by (simp add: dedupe_key_of_def m)
    have ms: "messages ob' = bt_insert i m (messages ob)" and nid: "next_id ob' = n"
      and dd: "dedupe ob' = (case od_dedupe_key d of None \<Rightarrow> dedupe ob
         | Some k \<Rightarrow> bt_insert (od_lane d, od_target d, k) \<lparr>dr_digest = digest, dr_outbox_id = i\<rparr> (dedupe ob))"
      using add outbox_add_stored [OF n_def Inr] m(1) unfolding i_def by auto
    have look: "map_of (messages ob') = (map_of (messages ob))(i \<mapsto> m)"
      by (simp add: ms bt_lookup_insert bt)
    have none: "map_of (messages ob) i = None" using fresh(2) by (simp add: message_view_def i_def)
    have dlook: "map_of (dedupe ob') = (case dedupe_key_of m of None \<Rightarrow> map_of (dedupe ob)
         | Some k \<Rightarrow> (map_of (dedupe ob))(k \<mapsto> \<lparr>dr_digest = digest, dr_outbox_id = i\<rparr>))"
      using bt(2) by (simp add: dd key bt_lookup_insert split: option.splits)
    have kfree: "map_of (dedupe ob) k = None" if "dedupe_key_of m = Some k" for k
      using that free by (auto simp: key)
    have "i \<in> memory_id ` {1..unat n}" using fresh(1) by (simp add: i_def)
    then have "messages_ok ob'"
      using later m(1,2) unfolding messages_ok_def look nid by auto
    moreover have "dedupe_ok ob'"
      using dedupe_ok_add [OF msgs(2) none kfree look dlook] by blast
    moreover have "bt_ok (messages ob')" "bt_ok (dedupe ob')"
      using bt by (simp_all add: ms dd split: option.splits)
    moreover have "view_evolves (message_view ob) (message_view ob')"
      using none by (auto simp: view_evolves_def message_evolves_def message_view_def look)
    ultimately show ?thesis using room' by (simp add: outbox_inv_def outbox_room_def nid)
  qed
qed

lemma memory_enqueue_law:
  assumes "outbox_inv ob" "outbox_room ob > 0" "outbox_enqueue digest_of clock d ob = (r, ob')"
  shows "outbox_inv ob' \<and> view_evolves (message_view ob) (message_view ob') \<and> outbox_room ob \<le> outbox_room ob' + 1"
proof -
  have "ob' = ob \<or> (\<exists>digest. outbox_add digest clock d ob = (r, ob') \<and>
      (\<forall>k. od_dedupe_key d = Some k \<longrightarrow> map_of (dedupe ob) (od_lane d, od_target d, k) = None))"
    using assms(3) by (auto simp: outbox_enqueue_def split: sum.splits option.splits if_splits)
  then show ?thesis using outbox_add_inv [OF assms(1,2)] assms(1) by force
qed

interpretation memory_store: outbox_store "memory_outbox digest_of" outbox_inv message_view outbox_room
  by unfold_locales
    (unfold memory_outbox_def outbox_ops.select_convs,
      (rule memory_enqueue_law memory_claim_law memory_ack_law memory_nack_law; assumption)+)

section \<open>The store of a scope\<close>

definition scoped_view :: "string \<Rightarrow> outbox_view \<Rightarrow> outbox_view" where
  "scoped_view scope v i = Option.bind (v i) (outbox_decode_message scope)"

lemma scoped_view_iff:
  "scoped_view scope v i = Some d \<longleftrightarrow> (\<exists>m. v i = Some m \<and> outbox_decode_message scope m = Some d)"
  by (simp add: scoped_view_def bind_eq_Some_conv)

lemma in_map_filter: "d \<in> set (List.map_filter f xs) \<longleftrightarrow> (\<exists>x \<in> set xs. f x = Some d)"
  by (force simp: List.map_filter_def)

lemma decode_message_keeps:
  "outbox_decode_message scope m = Some d \<Longrightarrow>
   om_id d = om_id m \<and> om_status d = om_status m \<and> (holds_claim t d \<longleftrightarrow> holds_claim t m)"
  by (auto simp: outbox_decode_message_def holds_claim_def split: option.splits)

lemma decode_message_evolves:
  assumes "message_evolves m m'" "outbox_decode_message scope m = Some d"
  shows "\<exists>d'. outbox_decode_message scope m' = Some d' \<and> message_evolves d d'"
  using assms by (auto simp: message_evolves_def outbox_decode_message_def message_identity_def split: option.splits)

lemma scoped_evolves: "view_evolves v v' \<Longrightarrow> view_evolves (scoped_view scope v) (scoped_view scope v')"
  unfolding view_evolves_def scoped_view_def bind_eq_Some_conv using decode_message_evolves by meson

text \<open>
  The scoped store finds the message to settle by listing, so it relies on one more law: a listing
  without a limit shows the messages of the status that was asked for.
\<close>

locale listed_outbox = outbox_store +
  assumes list_law: "inv s \<Longrightarrow> \<exists>ms. op_list_outbox ops st usize_max s = Inr ms \<and> length ms \<le> usize_max \<and>
    (\<forall>i m. m \<in> set ms \<and> om_id m = i \<longleftrightarrow> view s i = Some m \<and> (st = None \<or> st = Some (om_status m)))"
begin

lemma scoped_claimed_law:
  assumes "inv s"
  shows "scoped_claimed scope ops oid s =
    Inr (Option.bind (scoped_view scope (view s) oid) (\<lambda>d. if om_status d = OutboxClaimed then Some d else None))"
proof -
  obtain ms where ms: "op_list_outbox ops (Some OutboxClaimed) usize_max s = Inr ms" "length ms \<le> usize_max"
    and iff: "\<And>i m. m \<in> set ms \<and> om_id m = i \<longleftrightarrow> view s i = Some m \<and> om_status m = OutboxClaimed"
    using list_law [OF assms, of "Some OutboxClaimed"] by (auto simp: eq_commute [of OutboxClaimed])
  let ?ds = "List.map_filter (outbox_decode_message scope) ms"
  have len: "length ?ds \<le> usize_max"
    using ms(2) by (simp add: List.map_filter_def) (meson le_trans length_filter_le)
  have mem: "d \<in> set ?ds \<and> om_id d = oid \<longleftrightarrow>
      scoped_view scope (view s) oid = Some d \<and> om_status d = OutboxClaimed" for d
    unfolding scoped_view_iff in_map_filter using iff [of _ oid] decode_message_keeps by metis
  have "find (\<lambda>d. om_id d = oid) ?ds =
      Option.bind (scoped_view scope (view s) oid) (\<lambda>d. if om_status d = OutboxClaimed then Some d else None)"
  proof (cases "find (\<lambda>d. om_id d = oid) ?ds")
    case None
    then have "\<not> (\<exists>d. d \<in> set ?ds \<and> om_id d = oid)" by (auto simp: find_None_iff)
    with mem have "\<not> (\<exists>d. scoped_view scope (view s) oid = Some d \<and> om_status d = OutboxClaimed)" by blast
    then have "Option.bind (scoped_view scope (view s) oid)
        (\<lambda>d. if om_status d = OutboxClaimed then Some d else None) = None"
      unfolding bind_eq_None_conv by (metis option.collapse)
    with None show ?thesis by (rule trans [OF _ sym])
  next
    case (Some d)
    then have "d \<in> set ?ds \<and> om_id d = oid" by (auto simp: find_Some_iff)
    with mem [of d] Some show ?thesis by simp
  qed
  with ms len show ?thesis by (simp add: scoped_claimed_def scoped_outbox_list_def)
qed

lemma scoped_view_id: "inv s \<Longrightarrow> scoped_view scope (view s) oid = Some d \<Longrightarrow> om_id d = oid"
  unfolding scoped_view_iff using list_law [of s None] decode_message_keeps by metis

text \<open>A message of the scope is claimed with a token in the store exactly when it is in the scope.\<close>

lemma scoped_holds:
  "scoped_view scope v oid = Some d \<Longrightarrow> (\<exists>m. v oid = Some m \<and> holds_claim token m) \<longleftrightarrow> holds_claim token d"
  unfolding scoped_view_iff using decode_message_keeps by fastforce

lemma scoped_settled:
  assumes "scoped_view scope v oid = Some d" "view_evolves v v'" "v' oid = Some m'"
  shows "\<exists>d'. scoped_view scope v' oid = Some d' \<and> om_status d' = om_status m'"
proof -
  from scoped_evolves [OF assms(2)] assms(1) obtain d' where d': "scoped_view scope v' oid = Some d'"
    unfolding view_evolves_def by blast
  with assms(3) have "outbox_decode_message scope m' = Some d'" by (simp add: scoped_view_def)
  with d' decode_message_keeps show ?thesis by blast
qed

text \<open>The store of a scope over a lawful store is lawful, for the messages of its scope.\<close>

theorem scoped_lawful: "outbox_store (scoped_outbox scope ops) inv (\<lambda>s. scoped_view scope (view s)) room"
proof (unfold_locales, goal_cases)
  case (1 s clock d r s')
  then obtain r' where "op_enqueue_outbox ops clock (outbox_encode_draft scope d) s = (r', s')"
    by (auto simp: scoped_outbox_def scoped_outbox_enqueue_def split: prod.splits sum.splits option.splits)
  from enqueue_law [OF 1(1,2) this] show ?case using scoped_evolves by blast
next
  case (2 s lane target limit lease consumer now uuids q s')
  then obtain q' where "op_claim_outbox ops (scoped_key scope lane) target limit lease consumer now uuids s = (q', s')"
    by (auto simp: scoped_outbox_def scoped_outbox_claim_def split: prod.splits sum.splits)
  from claim_law [OF 2(1) this] show ?case using scoped_evolves by blast
next
  case (3 s oid token now b s')
  show ?case
  proof (cases "\<exists>d. scoped_view scope (view s) oid = Some d \<and> om_status d = OutboxClaimed")
    case True
    then obtain d where d: "scoped_view scope (view s) oid = Some d" "om_status d = OutboxClaimed" by blast
    with 3 have ack: "op_ack_outbox ops oid token now s = (b, s')"
      by (simp add: scoped_outbox_def scoped_outbox_ack_def scoped_claimed_law scoped_view_id)
    from ack_law [OF 3(1) ack] d(1) scoped_holds [OF d(1), of token]
    show ?thesis using scoped_evolves scoped_settled [OF d(1)] by fastforce
  next
    case False
    with 3 have "b = Inr False" "s' = s"
      by (auto simp: scoped_outbox_def scoped_outbox_ack_def scoped_claimed_law split: option.splits bind_splits)
    with 3(1) False show ?thesis by (auto simp: holds_claim_def)
  qed
next
  case (4 s oid token err retry_at now n s')
  show ?case
  proof (cases "\<exists>d. scoped_view scope (view s) oid = Some d \<and> om_status d = OutboxClaimed")
    case True
    then obtain d where d: "scoped_view scope (view s) oid = Some d" "om_status d = OutboxClaimed" by blast
    with 4 have nack: "op_nack_outbox ops oid token err retry_at now s = (n, s')"
      by (simp add: scoped_outbox_def scoped_outbox_nack_def scoped_claimed_law scoped_view_id)
    from nack_law [OF 4(1) nack] d(1) scoped_holds [OF d(1), of token]
    show ?thesis using scoped_evolves scoped_settled [OF d(1)] by fastforce
  next
    case False
    with 4 have "n = Inr LostClaim" "s' = s"
      by (auto simp: scoped_outbox_def scoped_outbox_nack_def scoped_claimed_law split: option.splits bind_splits)
    with 4(1) False show ?thesis by (auto simp: holds_claim_def)
  qed
qed

end

lemma memory_message_count:
  assumes "outbox_inv ob"
  shows "length (messages ob) \<le> usize_max"
proof -
  have keys: "fst ` set (messages ob) \<subseteq> memory_id ` {1..unat (next_id ob)}"
    using assms by (force simp: outbox_inv_def messages_ok_def bt_entries)
  have "length (messages ob) = card (fst ` set (messages ob))"
    using assms bt_ok_distinct [of "messages ob"] distinct_card [of "map fst (messages ob)"]
    by (simp add: outbox_inv_def)
  also have "\<dots> \<le> card (memory_id ` {1..unat (next_id ob)})" by (rule card_mono [OF _ keys]) simp
  also have "\<dots> \<le> unat (next_id ob)" by (metis card_atLeastAtMost card_image_le diff_Suc_1 finite_atLeastAtMost)
  also have "\<dots> < 2 ^ 64" using unsigned_less [of "next_id ob"] by simp
  finally show ?thesis by (simp add: usize_max_def)
qed

lemma memory_list_law:
  assumes "outbox_inv ob"
  shows "\<exists>ms. outbox_list st usize_max ob = Inr ms \<and> length ms \<le> usize_max \<and>
    (\<forall>i m. m \<in> set ms \<and> om_id m = i \<longleftrightarrow> message_view ob i = Some m \<and> (st = None \<or> st = Some (om_status m)))"
proof -
  let ?ms = "filter (\<lambda>m. case st of None \<Rightarrow> True | Some s \<Rightarrow> om_status m = s)
    (sort_key (\<lambda>m. (om_created_at m, om_available_at m, om_id m)) (map snd (messages ob)))"
  have "length ?ms \<le> length (messages ob)" by (rule le_trans [OF length_filter_le]) simp
  with memory_message_count [OF assms] have len: "length ?ms \<le> usize_max" by linarith
  have stored: "m \<in> set (map snd (messages ob)) \<longleftrightarrow> (\<exists>i. message_view ob i = Some m)" for m
    using assms bt_values [of "messages ob" m] by (simp add: outbox_inv_def message_view_def)
  have "m \<in> set ?ms \<longleftrightarrow> m \<in> set (map snd (messages ob)) \<and> (st = None \<or> st = Some (om_status m))" for m
    by (auto split: option.splits)
  moreover have "(\<exists>j. message_view ob j = Some m) \<and> om_id m = i \<longleftrightarrow> message_view ob i = Some m" for i m
    using inv_message [OF assms, of _ m] by auto
  ultimately have "\<forall>i m. m \<in> set ?ms \<and> om_id m = i \<longleftrightarrow>
      message_view ob i = Some m \<and> (st = None \<or> st = Some (om_status m))"
    unfolding stored by auto
  moreover have "outbox_list st usize_max ob = Inr ?ms" using len by (simp add: outbox_list_def)
  ultimately show ?thesis using len by blast
qed

interpretation memory_listed: listed_outbox "memory_outbox digest_of" outbox_inv message_view outbox_room
proof
  show "\<exists>ms. op_list_outbox (memory_outbox digest_of) st usize_max s = Inr ms \<and> length ms \<le> usize_max \<and>
    (\<forall>i m. m \<in> set ms \<and> om_id m = i \<longleftrightarrow> message_view s i = Some m \<and> (st = None \<or> st = Some (om_status m)))"
    if "outbox_inv s" for st s
    unfolding memory_outbox_def outbox_ops.select_convs by (rule memory_list_law [OF that])
qed

interpretation scoped_store: outbox_store "scoped_outbox scope (memory_outbox digest_of)" outbox_inv
    "\<lambda>ob. scoped_view scope (message_view ob)" outbox_room
  by (rule memory_listed.scoped_lawful)

section \<open>Properties of the store\<close>

text \<open>Rust's ids are taken from a 64-bit counter; the runs below add fewer messages than that.\<close>

lemma outbox_room_new [simp]: "outbox_room outbox_new = 2 ^ 64 - 1"
  by (simp add: outbox_room_def outbox_new_def)

lemma outbox_run_append: "outbox_run ops (cs @ ds) s = outbox_run ops ds (outbox_run ops cs s)"
  by (induction cs arbitrary: s) simp_all

lemma enqueues_append: "enqueues (cs @ ds) = enqueues cs + enqueues ds"
  by (simp add: enqueues_def)

context outbox_store begin

lemma run_room: "inv s \<Longrightarrow> enqueues cs \<le> room s \<Longrightarrow> room s \<le> room (outbox_run ops cs s) + enqueues cs"
proof (induction cs arbitrary: s)
  case (Cons c cs)
  have le: "enqueues [c] \<le> room s" "enqueues cs \<le> room s - enqueues [c]"
    using Cons.prems(2) enqueues_Cons [of c cs] by auto
  note step = step_law [OF Cons.prems(1) le(1)]
  with le have "enqueues cs \<le> room (outbox_step ops c s)" by linarith
  with Cons.IH step have "room (outbox_step ops c s) \<le> room (outbox_run ops (c # cs) s) + enqueues cs" by simp
  with step show ?case by (simp add: enqueues_Cons [of c cs])
qed (simp add: enqueues_def)

lemma final_after:
  assumes init: "inv s0" and room: "enqueues cs + enqueues ds \<le> room s0"
    and settled: "op_ack_outbox ops oid token now (outbox_run ops cs s0) = (Inr True, s1) \<or>
      op_nack_outbox ops oid token err retry_at now (outbox_run ops cs s0) = (Inr DeadLettered, s1)"
  shows "fst (op_ack_outbox ops oid token2 now2 (outbox_run ops ds s1)) \<noteq> Inr True \<and>
    fst (op_nack_outbox ops oid token2 err2 retry2 now2 (outbox_run ops ds s1)) = Inr LostClaim"
proof -
  let ?s = "outbox_run ops cs s0"
  have inv: "inv ?s" using run_law [OF init, of cs] room by simp
  have "enqueues ds \<le> room ?s" using run_room [OF init, of cs] room by linarith
  moreover have "room s1 = room ?s" using settled ack_law [OF inv] nack_law [OF inv] by blast
  ultimately have "enqueues ds \<le> room s1" by simp
  from settled_once [OF inv settled this] show ?thesis .
qed

lemma never_lost:
  assumes "inv s0" "enqueues cs + enqueues ds \<le> room s0" "view (outbox_run ops cs s0) i = Some m"
  shows "\<exists>m'. view (outbox_run ops (cs @ ds) s0) i = Some m' \<and> message_identity m' = message_identity m \<and>
    (outbox_terminal (om_status m) \<longrightarrow> m' = m)"
proof -
  have "inv (outbox_run ops cs s0)" using run_law [OF assms(1), of cs] assms(2) by simp
  moreover have "enqueues ds \<le> room (outbox_run ops cs s0)" using run_room [OF assms(1), of cs] assms(2) by linarith
  ultimately show ?thesis using run_law [of "outbox_run ops cs s0" ds] assms(3) by (simp add: outbox_run_append)
qed

end


definition ex_draft :: outbox_draft where
  "ex_draft = \<lparr>od_lane = ''l'', od_target = ''t'', od_payload = JNull, od_dedupe_key = Some ''k'',
     od_available_at = 0, od_max_attempts = 5\<rparr>"

definition ex_digest :: "outbox_draft \<Rightarrow> outbox_error + string" where
  "ex_digest d = Inr (od_lane d @ od_target d)"

text \<open>A message is added at 1 and claimed at 2.\<close>

definition ex_commands :: "outbox_command list" where
  "ex_commands = [EnqueueOutbox 1 ex_draft, ClaimOutbox ''l'' ''t'' 1 10 ''c'' 2 (\<lambda>n. ''u'')]"

definition ex_outbox :: outbox where
  "ex_outbox = outbox_run (memory_outbox ex_digest) ex_commands outbox_new"


subsection \<open>One message per dedupe key\<close>

lemma put_message_keeps_dedupe: "dedupe (put_message i m ob) = dedupe ob"
  by simp

lemma claim_loop_dedupe:
  "dedupe (snd (claim_loop lane target limit lease consumer now uuids oids claimed ob)) = dedupe ob"
  by (induction lane target limit lease consumer now uuids oids claimed ob rule: claim_loop.induct)
    (auto simp: Let_def split: option.splits)

text \<open>A recorded key keeps its record.\<close>

lemma step_keeps_record:
  assumes "outbox_inv ob" "map_of (dedupe ob) k = Some r"
  shows "map_of (dedupe (outbox_step (memory_outbox digest_of) c ob)) k = Some r"
proof (cases c)
  case (EnqueueOutbox clock d)
  have bt: "bt_ok (dedupe ob)" using assms(1) by (simp add: outbox_inv_def)
  have add: "map_of (dedupe (snd (outbox_add digest clock d ob))) k = Some r"
    if "\<And>k'. od_dedupe_key d = Some k' \<Longrightarrow> map_of (dedupe ob) (od_lane d, od_target d, k') = None" for digest
    using that assms(2) bt_lookup_insert [OF bt]
    by (auto simp: outbox_add_def Let_def put_message_def split: sum.splits option.splits)
  show ?thesis
    using EnqueueOutbox assms(2) add
    by (auto simp: memory_outbox_def outbox_enqueue_def split: sum.splits option.splits)
next
  case (ClaimOutbox lane target limit lease consumer now uuids)
  with assms(2) claim_loop_dedupe [of lane target limit lease consumer now uuids "claim_order ob" "[]" ob]
  show ?thesis by (auto simp: memory_outbox_def outbox_claim_def split: sum.splits prod.splits)
next
  case (AckOutbox oid token now)
  with assms(2) show ?thesis by (auto simp: memory_outbox_def outbox_ack_def split: option.splits)
next
  case (NackOutbox oid token err retry_at now)
  with assms(2) show ?thesis by (auto simp: memory_outbox_def outbox_nack_def Let_def split: option.splits)
qed

lemma run_keeps_record:
  "outbox_inv ob \<Longrightarrow> enqueues cs \<le> outbox_room ob \<Longrightarrow> map_of (dedupe ob) k = Some r \<Longrightarrow>
   map_of (dedupe (outbox_run (memory_outbox digest_of) cs ob)) k = Some r"
proof (induction cs arbitrary: ob)
  case (Cons c cs)
  have le: "enqueues [c] \<le> outbox_room ob" "enqueues cs \<le> outbox_room ob - enqueues [c]"
    using Cons.prems(2) memory_store.enqueues_Cons [of c cs] by auto
  note step = memory_store.step_law [OF Cons.prems(1) le(1)]
  with le have "enqueues cs \<le> outbox_room (outbox_step (memory_outbox digest_of) c ob)" by (meson add_le_cancel_right diff_le_mono le_diff_conv le_trans)
  with Cons.IH step step_keeps_record [OF Cons.prems(1,3)] show ?case by simp
qed simp

text \<open>A successful enqueue with a key leaves the key recorded, for the digest and the message.\<close>

lemma enqueue_records:
  assumes inv: "outbox_inv ob" and room: "outbox_room ob > 0" and key: "od_dedupe_key d = Some k"
    and enq: "outbox_enqueue digest_of clock d ob = (Inr m, ob')"
  shows "draft_validate d = Inr () \<and> (\<exists>digest. digest_of d = Inr digest \<and>
    map_of (dedupe ob') (od_lane d, od_target d, k) = Some \<lparr>dr_digest = digest, dr_outbox_id = om_id m\<rparr>) \<and>
    message_view ob' (om_id m) = Some m"
proof -
  have bt: "bt_ok (dedupe ob)" "bt_ok (messages ob)" using inv by (auto simp: outbox_inv_def)
  have valid: "draft_validate d = Inr ()" and "\<exists>digest. digest_of d = Inr digest"
    using enq by (auto simp: outbox_enqueue_def split: sum.splits)
  then obtain digest where digest: "digest_of d = Inr digest" by blast
  show ?thesis
  proof (cases "map_of (dedupe ob) (od_lane d, od_target d, k)")
    case None
    with enq valid digest key have add: "outbox_add digest clock d ob = (Inr m, ob')"
      by (simp add: outbox_enqueue_def)
    define n where "n = next_id ob + 1"
    have "\<exists>m'. message_from_enqueue (memory_id (unat n)) d clock = Inr m'"
      using add outbox_add_refused [OF n_def] by (cases "message_from_enqueue (memory_id (unat n)) d clock") auto
    then obtain m' where m': "message_from_enqueue (memory_id (unat n)) d clock = Inr m'" by blast
    then have "om_id m' = memory_id (unat n)" by (auto simp: message_from_enqueue_def split: sum.splits)
    with outbox_add_stored [OF n_def m', of digest] add key bt valid digest show ?thesis
      by (auto simp: bt_lookup_insert message_view_def)
  next
    case (Some r)
    with enq valid digest key have r: "dr_digest r = digest" "map_of (messages ob) (dr_outbox_id r) = Some m" "ob' = ob"
      by (auto simp: outbox_enqueue_def split: if_splits option.splits)
    with inv_message [OF inv, of "dr_outbox_id r" m] Some valid digest show ?thesis
      by (cases r) (auto simp: message_view_def)
  qed
qed



subsection \<open>Which messages a claim returns\<close>

lemma insort_key_map: "insort_key f (g x) (map g xs) = map g (insort_key (\<lambda>x. f (g x)) x xs)"
  by (induction xs) auto

lemma sort_key_map: "sort_key f (map g xs) = map g (sort_key (\<lambda>x. f (g x)) xs)"
  by (induction xs) (simp_all add: insort_key_map)

lemma sort_key_cong: "(\<And>x. x \<in> set xs \<Longrightarrow> f x = g x) \<Longrightarrow> sort_key f xs = sort_key g xs"
proof (induction xs)
  case (Cons x xs)
  have "insort_key f x ys = insort_key g x ys" if "set ys \<subseteq> set xs" for ys
    using that Cons.prems by (induction ys) auto
  with Cons show ?case by simp
qed simp

definition message_order :: "outbox_message \<Rightarrow> u64 \<times> u64 \<times> string" where
  "message_order m = (om_available_at m, om_created_at m, om_id m)"

lemma claim_order_messages:
  assumes "outbox_inv ob"
  shows "map (\<lambda>i. the (message_view ob i)) (claim_order ob) = sort_key message_order (map snd (messages ob))"
    and "set (claim_order ob) = dom (message_view ob)" and "distinct (claim_order ob)"
proof -
  have bt: "bt_ok (messages ob)" using assms by (simp add: outbox_inv_def)
  have at: "map_of (messages ob) (fst e) = Some (snd e)" if "e \<in> set (messages ob)" for e
    using bt_entries [OF bt, of "fst e" "snd e"] that by simp
  let ?es = "sort_key (\<lambda>e. message_order (snd e)) (messages ob)"
  have ord: "claim_order ob = map fst ?es"
    unfolding claim_order_def sort_key_map using at
    by (intro arg_cong [of _ _ "map fst"] sort_key_cong) (simp add: message_order_def)
  have "map (\<lambda>i. the (message_view ob i)) (map fst ?es) = map snd ?es"
    by (auto simp: message_view_def at)
  then show "map (\<lambda>i. the (message_view ob i)) (claim_order ob) = sort_key message_order (map snd (messages ob))"
    unfolding ord sort_key_map [symmetric] by simp
  show "set (claim_order ob) = dom (message_view ob)"
    by (simp add: claim_order_def message_view_def dom_map_of_conv_image_fst)
  show "distinct (claim_order ob)" using bt_ok_distinct [OF bt] by (simp add: claim_order_def)
qed

lemma claim_message_id [simp]: "om_id (claim_message consumer uuid lease now m) = om_id m"
  by (simp add: claim_message_def Let_def)

lemma claimed_ids:
  "map om_id (map (\<lambda>(n, m). claim_message consumer (uuids n) lease now m) (enumerate k ms)) = map om_id ms"
  by (induction ms arbitrary: k) simp_all

lemma claim_loop_result:
  "claim_loop lane target limit lease consumer now uuids oids claimed ob = (out, ob') \<Longrightarrow> outbox_inv ob \<Longrightarrow>
   distinct oids \<Longrightarrow> set oids \<subseteq> dom (message_view ob) \<Longrightarrow>
   \<exists>new. out = claimed @ new \<and>
     new = map (\<lambda>(n, m). claim_message consumer (uuids n) lease now m)
       (enumerate (length claimed) (take (limit - length claimed)
         (filter (\<lambda>m. is_claimable m lane target now) (map (\<lambda>i. the (message_view ob i)) oids)))) \<and>
     message_view ob' = message_view ob ++ map_of (map (\<lambda>m. (om_id m, m)) new)"
proof (induction lane target limit lease consumer now uuids oids claimed ob arbitrary: out ob' rule: claim_loop.induct)
  case (2 lane target limit lease consumer now uuids oid oids claimed ob)
  note run = 2(4)
  from 2(7) obtain m where m: "message_view ob oid = Some m" by auto
  then have look: "map_of (messages ob) oid = Some m" by (simp add: message_view_def)
  show ?case
  proof (cases "limit \<le> length claimed")
    case False
    show ?thesis
    proof (cases "is_claimable m lane target now")
      case False
      have "claim_loop lane target limit lease consumer now uuids oids claimed ob = (out, ob')"
        using run look False \<open>\<not> limit \<le> length claimed\<close> by simp
      from 2(2) [OF \<open>\<not> limit \<le> length claimed\<close> look False this 2(5)] 2(6,7) m False show ?thesis by simp
    next
      case True
      define m' where "m' = claim_message consumer (uuids (length claimed)) lease now m"
      note later = claim_message_later [of consumer "uuids (length claimed)" lease now m, folded m'_def]
      have inv: "outbox_inv (put_message oid m' ob)"
        using put_message_inv [OF 2(5) m] later by blast
      have id: "om_id m' = oid" using inv_message [OF 2(5) m] by (simp add: m'_def)
      note view = view_put [OF 2(5), of oid m']
      have rest: "claim_loop lane target limit lease consumer now uuids oids (claimed @ [m'])
          (put_message oid m' ob) = (out, ob')"
        using run look True False by (simp add: m'_def Let_def)
      have same: "map (\<lambda>i. the (message_view (put_message oid m' ob) i)) oids = map (\<lambda>i. the (message_view ob i)) oids"
        using 2(6) by (auto simp: view)
      have "set oids \<subseteq> dom (message_view (put_message oid m' ob))" using 2(7) by (auto simp: view)
      with 2(3) [OF False look _ m'_def rest inv] True 2(6) obtain new where new: "out = (claimed @ [m']) @ new"
        "new = map (\<lambda>(n, m). claim_message consumer (uuids n) lease now m)
           (enumerate (length (claimed @ [m'])) (take (limit - length (claimed @ [m']))
             (filter (\<lambda>m. is_claimable m lane target now) (map (\<lambda>i. the (message_view ob i)) oids))))"
        "message_view ob' = message_view (put_message oid m' ob) ++ map_of (map (\<lambda>m. (om_id m, m)) new)"
        unfolding same by auto
      have "message_view ob' = message_view ob ++ map_of (map (\<lambda>m. (om_id m, m)) (m' # new))"
      proof -
        let ?ms = "map (\<lambda>i. the (message_view ob i)) oids"
        have "om_id ` set new = om_id ` set (take (limit - length (claimed @ [m']))
            (filter (\<lambda>m. is_claimable m lane target now) ?ms))"
          unfolding new(2) by (metis (no_types) claimed_ids list.set_map)
        also have "\<dots> \<subseteq> om_id ` set ?ms" by (auto dest!: in_set_takeD)
        also have "\<dots> \<subseteq> set oids" using 2(7) inv_message [OF 2(5)] by fastforce
        finally have "oid \<notin> om_id ` set new" using 2(6) by auto
        then have "oid \<notin> dom (map_of (map (\<lambda>m. (om_id m, m)) new))"
          by (simp add: dom_map_of_conv_image_fst image_image)
        then show ?thesis by (simp add: new(3) view id map_add_upd_left)
      qed
      moreover have "limit - length claimed = Suc (limit - length (claimed @ [m']))" using False by simp
      moreover have "m' # new = map (\<lambda>(n, m). claim_message consumer (uuids n) lease now m)
          (enumerate (length claimed) (take (limit - length claimed)
            (filter (\<lambda>m. is_claimable m lane target now) (map (\<lambda>i. the (message_view ob i)) (oid # oids)))))"
        unfolding calculation(2) using True m by (simp add: new(2) m'_def)
      ultimately show ?thesis using new(1) by (intro exI [of _ "m' # new"]) (simp del: map_of.simps)
    qed
  qed (use run in simp)
qed simp

lemma outbox_claim_result:
  assumes inv: "outbox_inv ob" and "\<not> is_blank lane" "\<not> is_blank target" "\<not> is_blank consumer"
    and out: "out = map (\<lambda>(n, m). claim_message consumer (uuids n) lease now m) (enumerate 0 (take limit
         (filter (\<lambda>m. is_claimable m lane target now) (sort_key message_order (map snd (messages ob))))))"
  shows "\<exists>ob'. outbox_claim lane target limit lease consumer now uuids ob = (Inr out, ob') \<and>
     map_of (messages ob') = map_of (messages ob) ++ map_of (map (\<lambda>m. (om_id m, m)) out) \<and>
     dedupe ob' = dedupe ob"
proof -
  obtain out' ob' where loop: "claim_loop lane target limit lease consumer now uuids (claim_order ob) [] ob = (out', ob')"
    by fastforce
  note order = claim_order_messages [OF inv]
  have "outbox_claim lane target limit lease consumer now uuids ob = (Inr out', ob')"
    using assms(2-4) loop by (simp add: outbox_claim_def outbox_reject_blank_def)
  moreover have "dedupe ob' = dedupe ob"
    using claim_loop_dedupe [of lane target limit lease consumer now uuids "claim_order ob" "[]" ob] loop by simp
  ultimately show ?thesis
    using claim_loop_result [OF loop inv order(3)] order(1,2) by (simp add: message_view_def out)
qed

text \<open>
  Which messages a claim delivers. In every reachable outbox, a claim returns the first \<open>limit\<close>
  deliverable messages of its lane and target (pending and due, or claimed with an expired lease), in
  the order of availability, creation and id, each claimed for the consumer with its attempt count
  raised and a token of its own draw; those are stored and every other message is left as it was.
\<close>
theorem claim_delivers_in_order:
  assumes "ob = outbox_run (memory_outbox digest_of) cs outbox_new" "enqueues cs < 2 ^ 64"
    and "\<not> is_blank lane" "\<not> is_blank target" "\<not> is_blank consumer"
  shows "\<exists>ob'. outbox_claim lane target limit lease consumer now uuids ob = (Inr
       (map (\<lambda>(n, m). claim_message consumer (uuids n) lease now m) (enumerate 0 (take limit
         (filter (\<lambda>m. is_claimable m lane target now) (sort_key message_order (map snd (messages ob))))))), ob') \<and>
     map_of (messages ob') = map_of (messages ob) ++ map_of (map (\<lambda>m. (om_id m, m))
       (map (\<lambda>(n, m). claim_message consumer (uuids n) lease now m) (enumerate 0 (take limit
         (filter (\<lambda>m. is_claimable m lane target now) (sort_key message_order (map snd (messages ob)))))))) \<and>
     dedupe ob' = dedupe ob"
proof -
  have "outbox_inv ob"
    using memory_store.run_law [OF outbox_inv_new, of cs digest_of] assms(1,2) by simp
  from outbox_claim_result [OF this assms(3-5) refl] show ?thesis .
qed

theorem claim_delivers_in_order_witness:
  "\<exists>ob'. outbox_claim ''l'' ''t'' 2 10 ''c'' 20 (\<lambda>n. ''v'') ex_outbox =
     (Inr [claim_message ''c'' ''v'' 10 20 (snd (hd (messages ex_outbox)))], ob')"
proof -
  have "\<not> is_blank ''l''" "\<not> is_blank ''t''" "\<not> is_blank ''c''" by code_simp+
  note claim = claim_delivers_in_order [OF ex_outbox_def _ this, of 2 10 20 "\<lambda>n. ''v''"]
  have "length (messages ex_outbox) = 1" by code_simp
  then obtain e where e: "messages ex_outbox = [e]" by (cases "messages ex_outbox") auto
  have "is_claimable (snd (hd (messages ex_outbox))) ''l'' ''t'' 20" by code_simp
  with e claim show ?thesis by (auto simp: enqueues_def ex_commands_def)
qed

end
