(* ===== verification/Outbox_Relay.thy ===== *)
theory Outbox_Relay
imports Outbox_Correct
begin

text \<open>
  The relay that delivers the messages of an outbox (\<^verbatim>\<open>remo-server/src/outbox_relay.rs\<close>): the
  validation of its configuration, one tick, and the delay before a retry.

  The handler that delivers, the clock, and what other users of the store do while the relay waits
  are arguments: \<open>deliver\<close> gives the outcome of delivering a message, \<open>clock n\<close> the \<open>n\<close>-th reading of
  the clock, and \<open>others n\<close> the operations that happen to the store before the relay settles the \<open>n\<close>-th
  message of its claim.
\<close>

section \<open>Configuration\<close>

datatype relay_error =
    RelayValidation string
  | RelayDelivery string
  | RelayStore outbox_error

fun show_outbox_error :: "outbox_error \<Rightarrow> string" where
  "show_outbox_error (OutboxValidation e) = ''validation error: '' @ e"
| "show_outbox_error (OutboxConflict e) = ''conflict: '' @ e"
| "show_outbox_error (OutboxIo e) = ''io error: '' @ e"
| "show_outbox_error (OutboxSerialization e) = ''serialization error: '' @ e"

fun show_relay_error :: "relay_error \<Rightarrow> string" where
  "show_relay_error (RelayValidation e) = ''validation error: '' @ e"
| "show_relay_error (RelayDelivery e) = ''delivery error: '' @ e"
| "show_relay_error (RelayStore e) = show_outbox_error e"

record relay_config =
  rc_lane :: string
  rc_target :: string
  rc_consumer_id :: string
  rc_batch_limit :: nat
  rc_lease_ms :: u64
  rc_retry_delay_ms :: u64
  rc_max_retry_delay_ms :: u64

definition relay_reject_blank :: "string \<Rightarrow> string \<Rightarrow> relay_error + unit" where
  "relay_reject_blank field v =
     (if is_blank v then Inl (RelayValidation (field @ '' is required'')) else Inr ())"

definition relay_config_validate :: "relay_config \<Rightarrow> relay_error + unit" where
  "relay_config_validate c =
     (case relay_reject_blank ''lane'' (rc_lane c) of Inl e \<Rightarrow> Inl e | Inr _ \<Rightarrow>
      case relay_reject_blank ''target'' (rc_target c) of Inl e \<Rightarrow> Inl e | Inr _ \<Rightarrow>
      case relay_reject_blank ''consumer_id'' (rc_consumer_id c) of Inl e \<Rightarrow> Inl e | Inr _ \<Rightarrow>
      if rc_batch_limit c = 0 then Inl (RelayValidation ''batch_limit must be greater than zero'')
      else if rc_lease_ms c = 0 then Inl (RelayValidation ''lease_ms must be greater than zero'')
      else if rc_max_retry_delay_ms c < rc_retry_delay_ms c
      then Inl (RelayValidation ''max_retry_delay_ms must be >= retry_delay_ms'')
      else Inr ())"

section \<open>The delay before a retry\<close>

text \<open>\<^verbatim>\<open>1u64.checked_shl(exponent)\<close> always succeeds here: the exponent is at most 31.\<close>

definition retry_at_ms :: "u64 \<Rightarrow> u32 \<Rightarrow> u64 \<Rightarrow> u64 \<Rightarrow> u64" where
  "retry_at_ms now attempt_count base_delay max_delay =
     (let exponent = min (sat_sub attempt_count 1) 31;
          multiplier = push_bit (unat exponent) 1;
          delay = min (sat_mul base_delay multiplier) max_delay
      in sat_add now delay)"

section \<open>One tick\<close>

record relay_tick =
  rt_claimed :: nat
  rt_delivered :: nat
  rt_requeued :: nat
  rt_dead_lettered :: nat
  rt_lost_claims :: nat

text \<open>The readings of the clock for the \<open>n\<close>-th message are \<open>clock (2 n + 1)\<close> and \<open>clock (2 n + 2)\<close>.\<close>

fun relay_loop :: "'st outbox_ops \<Rightarrow> relay_config \<Rightarrow> (outbox_message \<Rightarrow> relay_error + unit) \<Rightarrow> (nat \<Rightarrow> u64) \<Rightarrow>
    (nat \<Rightarrow> 'st \<Rightarrow> 'st) \<Rightarrow> nat \<Rightarrow> outbox_message list \<Rightarrow> relay_tick \<Rightarrow> 'st \<Rightarrow> (relay_error + relay_tick) \<times> 'st" where
  "relay_loop ops cfg deliver clock others n [] stats s = (Inr stats, s)"
| "relay_loop ops cfg deliver clock others n (m # ms) stats s = (case om_claim_token m of
      None \<Rightarrow> relay_loop ops cfg deliver clock others (n + 1) ms
        (stats\<lparr>rt_lost_claims := rt_lost_claims stats + 1\<rparr>) s
    | Some token \<Rightarrow> (case deliver m of
        Inr _ \<Rightarrow> (case op_ack_outbox ops (om_id m) token (clock (2 * n + 1)) (others n s) of
            (Inl e, s') \<Rightarrow> (Inl (RelayStore e), s')
          | (Inr True, s') \<Rightarrow> relay_loop ops cfg deliver clock others (n + 1) ms
              (stats\<lparr>rt_delivered := rt_delivered stats + 1\<rparr>) s'
          | (Inr False, s') \<Rightarrow> relay_loop ops cfg deliver clock others (n + 1) ms
              (stats\<lparr>rt_lost_claims := rt_lost_claims stats + 1\<rparr>) s')
      | Inl err \<Rightarrow>
          let retry_at = retry_at_ms (clock (2 * n + 1)) (om_attempt_count m)
                (rc_retry_delay_ms cfg) (rc_max_retry_delay_ms cfg)
          in (case op_nack_outbox ops (om_id m) token (show_relay_error err) retry_at (clock (2 * n + 2)) (others n s) of
            (Inl e, s') \<Rightarrow> (Inl (RelayStore e), s')
          | (Inr Requeued, s') \<Rightarrow> relay_loop ops cfg deliver clock others (n + 1) ms
              (stats\<lparr>rt_requeued := rt_requeued stats + 1\<rparr>) s'
          | (Inr DeadLettered, s') \<Rightarrow> relay_loop ops cfg deliver clock others (n + 1) ms
              (stats\<lparr>rt_dead_lettered := rt_dead_lettered stats + 1\<rparr>) s'
          | (Inr LostClaim, s') \<Rightarrow> relay_loop ops cfg deliver clock others (n + 1) ms
              (stats\<lparr>rt_lost_claims := rt_lost_claims stats + 1\<rparr>) s')))"

definition relay_tick_run :: "'st outbox_ops \<Rightarrow> relay_config \<Rightarrow> (outbox_message \<Rightarrow> relay_error + unit) \<Rightarrow>
    (nat \<Rightarrow> u64) \<Rightarrow> (nat \<Rightarrow> string) \<Rightarrow> (nat \<Rightarrow> 'st \<Rightarrow> 'st) \<Rightarrow> 'st \<Rightarrow> (relay_error + relay_tick) \<times> 'st" where
  "relay_tick_run ops cfg deliver clock uuids others s =
     (case op_claim_outbox ops (rc_lane cfg) (rc_target cfg) (rc_batch_limit cfg) (rc_lease_ms cfg)
         (rc_consumer_id cfg) (clock 0) uuids s of
        (Inl e, s') \<Rightarrow> (Inl (RelayStore e), s')
      | (Inr claimed, s') \<Rightarrow> relay_loop ops cfg deliver clock others 0 claimed
          \<lparr>rt_claimed = length claimed, rt_delivered = 0, rt_requeued = 0, rt_dead_lettered = 0,
           rt_lost_claims = 0\<rparr> s')"

section \<open>Backing off\<close>

lemma unat_min: "unat (min a b) = min (unat a) (unat b)"
  for a b :: "'w::len word"
  by (simp add: min_def word_le_nat_alt)

lemma unat_u64_le: "unat (w :: u64) \<le> 2 ^ 64 - 1"
proof -
  have "unat w < 2 ^ 64" using unsigned_less [of w, where ?'a = nat] by simp
  then show ?thesis by simp
qed

text \<open>
  The retry delay. The time of a retry is the base delay doubled for every earlier attempt (at most
  31 times), capped at the maximum delay and added to the clock, all without wrapping around: the
  result saturates at the largest time. So it never lies in the past, never beyond the maximum
  delay, and a later attempt never waits less.
\<close>
theorem retry_delay_backs_off:
  "unat (retry_at_ms now n base cap) =
     min (unat now + min (unat base * 2 ^ min (unat n - 1) 31) (unat cap)) (2 ^ 64 - 1) \<and>
   now \<le> retry_at_ms now n base cap \<and>
   (n \<le> n' \<longrightarrow> retry_at_ms now n base cap \<le> retry_at_ms now n' base cap)"
proof -
  have time: "unat (retry_at_ms now n base cap) =
      min (unat now + min (unat base * 2 ^ min (unat n - 1) 31) (unat cap)) (2 ^ 64 - 1)" for n
  proof -
    let ?e = "min (unat n - 1) 31"
    have e: "unat (min (sat_sub n 1) 31) = ?e" by (simp add: unat_min unat_sat_sub)
    have pow: "unat (push_bit ?e (1 :: u64)) = 2 ^ ?e"
    proof -
      have "(2 :: nat) ^ ?e < 2 ^ 64" by (rule power_strict_increasing) auto
      then have "unat (of_nat (2 ^ ?e) :: u64) = 2 ^ ?e"
        unfolding unsigned_of_nat by (simp only: take_bit_nat_eq_self len_of_numeral_defs) (simp add: take_bit_nat_eq_self)
      then show ?thesis by (simp add: push_bit_eq_mult)
    qed
    have cap: "unat cap \<le> 2 ^ 64 - 1" by (rule unat_u64_le)
    show ?thesis
      unfolding retry_at_ms_def Let_def e
      using cap pow by (simp add: unat_sat_add unat_sat_mul unat_min min.assoc min_absorb2)
  qed
  have "now \<le> retry_at_ms now n base cap"
    using time [of n] unat_u64_le [of now] by (simp add: word_le_nat_alt)
  moreover have "retry_at_ms now n base cap \<le> retry_at_ms now n' base cap" if "n \<le> n'"
  proof -
    have "min (unat n - 1) 31 \<le> min (unat n' - 1) 31" using that by (simp add: word_le_nat_alt)
    then have "unat base * 2 ^ min (unat n - 1) 31 \<le> unat base * 2 ^ min (unat n' - 1) 31"
      by (intro mult_left_mono power_increasing) auto
    then show ?thesis unfolding word_le_nat_alt time by linarith
  qed
  ultimately show ?thesis using time by blast
qed

theorem retry_delay_backs_off_witness:
  "retry_at_ms 10 1 5 20 \<le> retry_at_ms 10 3 5 20"
  using retry_delay_backs_off [of 10 1 5 20 3] by simp

section \<open>What a tick does\<close>

text \<open>The relay settles every message it claims, when nobody else touches the store.\<close>

definition settled_as :: "relay_config \<Rightarrow> (outbox_message \<Rightarrow> relay_error + unit) \<Rightarrow> outbox_message \<Rightarrow> outbox_status" where
  "settled_as cfg deliver m =
     (case deliver m of Inr _ \<Rightarrow> OutboxDelivered
      | Inl _ \<Rightarrow> if om_attempt_count m \<ge> om_max_attempts m then OutboxDeadLetter else OutboxPending)"

definition count_settled :: "relay_config \<Rightarrow> (outbox_message \<Rightarrow> relay_error + unit) \<Rightarrow> outbox_status \<Rightarrow> outbox_message list \<Rightarrow> nat" where
  "count_settled cfg deliver st ms = length (filter (\<lambda>m. settled_as cfg deliver m = st) ms)"

lemma outbox_ack_held:
  "message_view ob (om_id m) = Some m \<Longrightarrow> holds_claim token m \<Longrightarrow> outbox_inv ob \<Longrightarrow>
   \<exists>m' ob'. outbox_ack (om_id m) token now ob = (Inr True, ob') \<and>
     message_view ob' = (message_view ob)(om_id m \<mapsto> m') \<and> om_status m' = OutboxDelivered"
  using view_put [of ob]
  by (intro exI [of _ "m\<lparr>om_status := OutboxDelivered, om_claimed_by := None, om_claim_token := None,
        om_lease_expires_at := None, om_updated_at := now\<rparr>"])
    (simp add: outbox_ack_def message_view_def)

lemma outbox_nack_held:
  assumes "message_view ob (om_id m) = Some m" "holds_claim token m" "outbox_inv ob"
  shows "\<exists>m' ob'. outbox_nack (om_id m) token err retry_at now ob =
       (Inr (if om_attempt_count m \<ge> om_max_attempts m then DeadLettered else Requeued), ob') \<and>
     message_view ob' = (message_view ob)(om_id m \<mapsto> m') \<and>
     om_status m' = (if om_attempt_count m \<ge> om_max_attempts m then OutboxDeadLetter else OutboxPending) \<and>
     (om_attempt_count m < om_max_attempts m \<longrightarrow> om_available_at m' = retry_at)"
proof -
  let ?m = "m\<lparr>om_last_error := Some err, om_claimed_by := None, om_claim_token := None,
    om_lease_expires_at := None, om_updated_at := now\<rparr>"
  let ?m' = "if om_attempt_count m \<ge> om_max_attempts m then ?m\<lparr>om_status := OutboxDeadLetter\<rparr>
    else ?m\<lparr>om_status := OutboxPending, om_available_at := retry_at\<rparr>"
  have "outbox_nack (om_id m) token err retry_at now ob =
      (Inr (if om_attempt_count m \<ge> om_max_attempts m then DeadLettered else Requeued), put_message (om_id m) ?m' ob)"
    using assms(1,2) by (simp add: outbox_nack_def message_view_def Let_def)
  with view_put [OF assms(3), of "om_id m" ?m'] show ?thesis
    by (intro exI [of _ ?m'] exI [of _ "put_message (om_id m) ?m' ob"]) (auto simp: not_le)
qed

lemma relay_loop_alone:
  assumes "outbox_inv ob" "distinct (map om_id ms)"
    and "\<And>m. m \<in> set ms \<Longrightarrow> message_view ob (om_id m) = Some m \<and> om_status m = OutboxClaimed \<and> om_claim_token m \<noteq> None"
  shows "\<exists>ob'. relay_loop (memory_outbox digest_of) cfg deliver clock (\<lambda>_ s. s) n ms stats ob =
      (Inr (stats\<lparr>rt_delivered := rt_delivered stats + count_settled cfg deliver OutboxDelivered ms,
          rt_requeued := rt_requeued stats + count_settled cfg deliver OutboxPending ms,
          rt_dead_lettered := rt_dead_lettered stats + count_settled cfg deliver OutboxDeadLetter ms\<rparr>), ob') \<and>
    (\<forall>m \<in> set ms. \<exists>m'. message_view ob' (om_id m) = Some m' \<and> om_status m' = settled_as cfg deliver m) \<and>
    (\<forall>i. i \<notin> om_id ` set ms \<longrightarrow> message_view ob' i = message_view ob i)"
  using assms
proof (induction ms arbitrary: n stats ob)
  case (Cons m ms)
  from Cons.prems(3) [of m] obtain token where m: "message_view ob (om_id m) = Some m" "holds_claim token m"
      "om_claim_token m = Some token"
    by (auto simp: holds_claim_def)
  have next_ok: "\<exists>ob'. relay_loop (memory_outbox digest_of) cfg deliver clock (\<lambda>_ s. s) (n + 1) ms st ob1 =
      (Inr (st\<lparr>rt_delivered := rt_delivered st + count_settled cfg deliver OutboxDelivered ms,
          rt_requeued := rt_requeued st + count_settled cfg deliver OutboxPending ms,
          rt_dead_lettered := rt_dead_lettered st + count_settled cfg deliver OutboxDeadLetter ms\<rparr>), ob') \<and>
      (\<forall>m \<in> set (m # ms). \<exists>m'. message_view ob' (om_id m) = Some m' \<and> om_status m' = settled_as cfg deliver m) \<and>
      (\<forall>i. i \<notin> om_id ` set (m # ms) \<longrightarrow> message_view ob' i = message_view ob i)"
    if inv1: "outbox_inv ob1" and view1: "message_view ob1 = (message_view ob)(om_id m \<mapsto> m1)"
      and st1: "om_status m1 = settled_as cfg deliver m" for ob1 m1 st
  proof -
    have other: "om_id m' \<noteq> om_id m" if "m' \<in> set ms" for m'
      using Cons.prems(2) that by (metis distinct.simps(2) image_eqI list.set_map list.simps(9))
    have "message_view ob1 (om_id m') = Some m' \<and> om_status m' = OutboxClaimed \<and> om_claim_token m' \<noteq> None"
      if "m' \<in> set ms" for m'
      using Cons.prems(3) [of m'] other [OF that] that by (simp add: view1)
    with Cons.IH [OF inv1, of "n + 1" st] Cons.prems(2) obtain ob' where ob':
      "relay_loop (memory_outbox digest_of) cfg deliver clock (\<lambda>_ s. s) (n + 1) ms st ob1 =
        (Inr (st\<lparr>rt_delivered := rt_delivered st + count_settled cfg deliver OutboxDelivered ms,
          rt_requeued := rt_requeued st + count_settled cfg deliver OutboxPending ms,
          rt_dead_lettered := rt_dead_lettered st + count_settled cfg deliver OutboxDeadLetter ms\<rparr>), ob')"
      "\<forall>m \<in> set ms. \<exists>m'. message_view ob' (om_id m) = Some m' \<and> om_status m' = settled_as cfg deliver m"
      "\<forall>i. i \<notin> om_id ` set ms \<longrightarrow> message_view ob' i = message_view ob1 i" by auto
    have "om_id m \<notin> om_id ` set ms" using other by force
    with ob'(3) have "message_view ob' (om_id m) = Some m1" by (simp add: view1)
    with ob' st1 show ?thesis by (auto simp: view1)
  qed
  show ?case
  proof (cases "deliver m")
    case (Inr u)
    then have as: "settled_as cfg deliver m = OutboxDelivered" by (simp add: settled_as_def)
    from outbox_ack_held [OF m(1,2) Cons.prems(1), of "clock (2 * n + 1)"] obtain m1 ob1 where
      ack: "outbox_ack (om_id m) token (clock (2 * n + 1)) ob = (Inr True, ob1)"
        "message_view ob1 = (message_view ob)(om_id m \<mapsto> m1)" "om_status m1 = OutboxDelivered" by blast
    have inv1: "outbox_inv ob1" using memory_ack_law [OF Cons.prems(1) ack(1)] by blast
    from next_ok [OF inv1 ack(2), of "stats\<lparr>rt_delivered := rt_delivered stats + 1\<rparr>"] ack as Inr m(3)
    show ?thesis by (auto simp: memory_outbox_def count_settled_def)
  next
    case (Inl err)
    let ?r = "retry_at_ms (clock (2 * n + 1)) (om_attempt_count m) (rc_retry_delay_ms cfg) (rc_max_retry_delay_ms cfg)"
    have as: "settled_as cfg deliver m =
        (if om_attempt_count m \<ge> om_max_attempts m then OutboxDeadLetter else OutboxPending)"
      using Inl by (simp add: settled_as_def)
    from outbox_nack_held [OF m(1,2) Cons.prems(1), of "show_relay_error err" ?r "clock (2 * n + 2)"] as
    obtain m1 ob1 where nack: "outbox_nack (om_id m) token (show_relay_error err) ?r (clock (2 * n + 2)) ob =
        (Inr (if om_attempt_count m \<ge> om_max_attempts m then DeadLettered else Requeued), ob1)"
        "message_view ob1 = (message_view ob)(om_id m \<mapsto> m1)" "om_status m1 = settled_as cfg deliver m" by auto
    have inv1: "outbox_inv ob1" using memory_nack_law [OF Cons.prems(1) nack(1)] by blast
    show ?thesis
    proof (cases "om_attempt_count m \<ge> om_max_attempts m")
      case True
      with next_ok [OF inv1 nack(2,3), of "stats\<lparr>rt_dead_lettered := rt_dead_lettered stats + 1\<rparr>"] nack as Inl m(3)
      show ?thesis by (auto simp: memory_outbox_def count_settled_def Let_def)
    next
      case False
      with next_ok [OF inv1 nack(2,3), of "stats\<lparr>rt_requeued := rt_requeued stats + 1\<rparr>"] nack as Inl m(3)
      show ?thesis by (auto simp: memory_outbox_def count_settled_def Let_def)
    qed
  qed
qed (simp add: count_settled_def)

text \<open>What a claim returns is in the store, once per id, claimed with a token.\<close>

lemma claimed_are_stored:
  assumes inv: "outbox_inv ob"
    and out: "out = map (\<lambda>(n, m). claim_message consumer (uuids n) lease now m) (enumerate 0 (take limit
         (filter (\<lambda>m. is_claimable m lane target now) (sort_key message_order (map snd (messages ob))))))"
  shows "distinct (map om_id out)"
    and "m \<in> set out \<Longrightarrow> map_of (map (\<lambda>m. (om_id m, m)) out) (om_id m) = Some m \<and>
      om_status m = OutboxClaimed \<and> om_claim_token m \<noteq> None"
proof -
  let ?ms = "map snd (messages ob)"
  have "map om_id ?ms = map fst (messages ob)"
    using inv by (auto simp: outbox_inv_def messages_ok_def bt_entries)
  then have "distinct (map om_id ?ms)"
    using inv bt_ok_distinct [of "messages ob"] by (metis outbox_inv_def)
  then have "distinct (map om_id (sort_key message_order ?ms))"
    by (simp only: distinct_map [of om_id] distinct_sort set_sort)
  then have "distinct (map om_id (take limit (filter (\<lambda>m. is_claimable m lane target now)
      (sort_key message_order ?ms))))"
    by (simp add: distinct_map_filter take_map [symmetric] del: map_map)
  then show dist: "distinct (map om_id out)" unfolding out claimed_ids .
  assume m: "m \<in> set out"
  have "map_of (map (\<lambda>m. (om_id m, m)) out) (om_id m) = Some m"
    using dist m by (intro map_of_is_SomeI) (auto simp: comp_def)
  moreover have "\<exists>k m0. m = claim_message consumer (uuids k) lease now m0" using m unfolding out by auto
  ultimately show "map_of (map (\<lambda>m. (om_id m, m)) out) (om_id m) = Some m \<and>
      om_status m = OutboxClaimed \<and> om_claim_token m \<noteq> None"
    by (auto simp: claim_message_def Let_def)
qed

lemma count_settled_total:
  "count_settled cfg deliver OutboxDelivered ms + count_settled cfg deliver OutboxPending ms +
   count_settled cfg deliver OutboxDeadLetter ms = length ms"
  by (induction ms) (auto simp: count_settled_def settled_as_def split: sum.splits)

text \<open>Whatever others do to the store between the settlements, every claimed message is counted once.\<close>

definition settled_total :: "relay_tick \<Rightarrow> nat" where
  "settled_total t = rt_delivered t + rt_requeued t + rt_dead_lettered t + rt_lost_claims t"

lemma ack_never_fails: "\<exists>r s'. outbox_ack i token now s = (Inr r, s')"
  by (auto simp: outbox_ack_def split: option.splits)

lemma nack_never_fails: "\<exists>r s'. outbox_nack i token err at now s = (Inr r, s')"
  by (auto simp: outbox_nack_def Let_def split: option.splits)

lemma relay_loop_counts:
  "\<exists>stats' s'. relay_loop (memory_outbox digest_of) cfg deliver clock others n ms stats s = (Inr stats', s') \<and>
     rt_claimed stats' = rt_claimed stats \<and> settled_total stats' = settled_total stats + length ms"
proof (induction ms arbitrary: n stats s)
  case (Cons m ms)
  have one: "\<exists>stats' s'. relay_loop (memory_outbox digest_of) cfg deliver clock others k ms st s1 = (Inr stats', s') \<and>
      rt_claimed stats' = rt_claimed stats \<and> settled_total stats' = settled_total stats + Suc (length ms)"
    if "rt_claimed st = rt_claimed stats" "settled_total st = Suc (settled_total stats)" for st k s1
    using Cons.IH [of k st s1] that by auto
  show ?case
  proof (cases "om_claim_token m")
    case None
    with one [of "stats\<lparr>rt_lost_claims := rt_lost_claims stats + 1\<rparr>" "n + 1" s] show ?thesis
      by (simp add: settled_total_def)
  next
    case (Some token)
    show ?thesis
    proof (cases "deliver m")
      case (Inl err)
      let ?r = "retry_at_ms (clock (2 * n + 1)) (om_attempt_count m) (rc_retry_delay_ms cfg) (rc_max_retry_delay_ms cfg)"
      obtain r s1 where "outbox_nack (om_id m) token (show_relay_error err) ?r (clock (2 * n + 2)) (others n s) = (Inr r, s1)"
        using nack_never_fails by blast
      with Some Inl one show ?thesis
        by (cases r) (simp_all add: memory_outbox_def Let_def settled_total_def)
    next
      case (Inr u)
      obtain r s1 where "outbox_ack (om_id m) token (clock (2 * n + 1)) (others n s) = (Inr r, s1)"
        using ack_never_fails by blast
      with Some Inr one show ?thesis
        by (cases r) (simp_all add: memory_outbox_def settled_total_def)
    qed
  qed
qed simp

text \<open>
  C22: What a tick of the relay does, with a valid configuration and on any reachable in-memory outbox.
  Whatever other users do to the outbox between its settlements, the tick succeeds and counts each message
  that its claim returned once: as delivered, put back, dead-lettered or lost. When nobody else uses the
  outbox during the tick, exactly the messages that the claim returns are handed to the handler and settled,
  delivered when the handler succeeds, otherwise dead-lettered when their attempts are used up and put back
  to pending when not; the statistics count them, no claim is lost, and every other message is untouched.
\<close>
theorem relay_tick_settles:
  assumes "ob = outbox_run (memory_outbox digest_of) cs outbox_new" "enqueues cs < 2 ^ 64"
    and "relay_config_validate cfg = Inr ()"
  shows "\<exists>ms stats ob'.
     fst (outbox_claim (rc_lane cfg) (rc_target cfg) (rc_batch_limit cfg) (rc_lease_ms cfg) (rc_consumer_id cfg)
       (clock 0) uuids ob) = Inr ms \<and>
     (\<forall>others. \<exists>t ob1. relay_tick_run (memory_outbox digest_of) cfg deliver clock uuids others ob = (Inr t, ob1) \<and>
        rt_claimed t = length ms \<and>
        rt_delivered t + rt_requeued t + rt_dead_lettered t + rt_lost_claims t = length ms) \<and>
     relay_tick_run (memory_outbox digest_of) cfg deliver clock uuids (\<lambda>_ s. s) ob = (Inr stats, ob') \<and>
     rt_claimed stats = length ms \<and>
     rt_delivered stats = count_settled cfg deliver OutboxDelivered ms \<and>
     rt_requeued stats = count_settled cfg deliver OutboxPending ms \<and>
     rt_dead_lettered stats = count_settled cfg deliver OutboxDeadLetter ms \<and>
     rt_lost_claims stats = 0 \<and>
     rt_claimed stats = rt_delivered stats + rt_requeued stats + rt_dead_lettered stats \<and>
     (\<forall>m \<in> set ms. \<exists>m'. map_of (messages ob') (om_id m) = Some m' \<and> om_status m' = settled_as cfg deliver m) \<and>
     (\<forall>i. i \<notin> om_id ` set ms \<longrightarrow> map_of (messages ob') i = map_of (messages ob) i)"
proof -
  have inv: "outbox_inv ob"
    using memory_store.run_law [OF outbox_inv_new, of cs digest_of] assms(1,2) by simp
  have blank: "\<not> is_blank (rc_lane cfg)" "\<not> is_blank (rc_target cfg)" "\<not> is_blank (rc_consumer_id cfg)"
    using assms(3) by (auto simp: relay_config_validate_def relay_reject_blank_def split: if_splits)
  define ms where "ms = map (\<lambda>(n, m). claim_message (rc_consumer_id cfg) (uuids n) (rc_lease_ms cfg) (clock 0) m)
      (enumerate 0 (take (rc_batch_limit cfg) (filter (\<lambda>m. is_claimable m (rc_lane cfg) (rc_target cfg) (clock 0))
        (sort_key message_order (map snd (messages ob))))))"
  from outbox_claim_result [OF inv blank ms_def] obtain ob1 where
    claim: "outbox_claim (rc_lane cfg) (rc_target cfg) (rc_batch_limit cfg) (rc_lease_ms cfg) (rc_consumer_id cfg)
      (clock 0) uuids ob = (Inr ms, ob1)"
    and view1: "message_view ob1 = message_view ob ++ map_of (map (\<lambda>m. (om_id m, m)) ms)"
    by (auto simp: message_view_def)
  note stored = claimed_are_stored [OF inv ms_def]
  have inv1: "outbox_inv ob1" using memory_claim_law [OF inv claim] by blast
  let ?stats = "\<lparr>rt_claimed = length ms, rt_delivered = 0, rt_requeued = 0, rt_dead_lettered = 0, rt_lost_claims = 0\<rparr>"
  have "message_view ob1 (om_id m) = Some m \<and> om_status m = OutboxClaimed \<and> om_claim_token m \<noteq> None"
    if "m \<in> set ms" for m
    using stored(2) [OF that] by (simp add: view1)
  from relay_loop_alone [OF inv1 stored(1) this, of digest_of cfg deliver clock 0 ?stats] obtain ob' where
    loop: "relay_loop (memory_outbox digest_of) cfg deliver clock (\<lambda>_ s. s) 0 ms ?stats ob1 =
      (Inr (?stats\<lparr>rt_delivered := count_settled cfg deliver OutboxDelivered ms,
        rt_requeued := count_settled cfg deliver OutboxPending ms,
        rt_dead_lettered := count_settled cfg deliver OutboxDeadLetter ms\<rparr>), ob')"
    and settled: "\<forall>m \<in> set ms. \<exists>m'. message_view ob' (om_id m) = Some m' \<and> om_status m' = settled_as cfg deliver m"
    and rest: "\<forall>i. i \<notin> om_id ` set ms \<longrightarrow> message_view ob' i = message_view ob1 i" by auto
  have "message_view ob1 i = message_view ob i" if "i \<notin> om_id ` set ms" for i
  proof -
    have "i \<notin> dom (map_of (map (\<lambda>m. (om_id m, m)) ms))"
      using that by (simp add: dom_map_of_conv_image_fst image_image)
    then show ?thesis unfolding view1 by (simp add: map_add_dom_app_simps)
  qed
  with rest have rest': "\<forall>i. i \<notin> om_id ` set ms \<longrightarrow> map_of (messages ob') i = map_of (messages ob) i"
    by (simp add: message_view_def)
  have "relay_tick_run (memory_outbox digest_of) cfg deliver clock uuids (\<lambda>_ s. s) ob =
      (Inr (?stats\<lparr>rt_delivered := count_settled cfg deliver OutboxDelivered ms,
        rt_requeued := count_settled cfg deliver OutboxPending ms,
        rt_dead_lettered := count_settled cfg deliver OutboxDeadLetter ms\<rparr>), ob')"
    using claim loop by (simp add: relay_tick_run_def memory_outbox_def)
  moreover have "\<forall>others. \<exists>t ob'. relay_tick_run (memory_outbox digest_of) cfg deliver clock uuids others ob = (Inr t, ob') \<and>
      rt_claimed t = length ms \<and> rt_delivered t + rt_requeued t + rt_dead_lettered t + rt_lost_claims t = length ms"
  proof
    fix others
    from relay_loop_counts [of digest_of cfg deliver clock others 0 ms ?stats ob1] claim
    show "\<exists>t ob'. relay_tick_run (memory_outbox digest_of) cfg deliver clock uuids others ob = (Inr t, ob') \<and>
        rt_claimed t = length ms \<and> rt_delivered t + rt_requeued t + rt_dead_lettered t + rt_lost_claims t = length ms"
      by (auto simp: relay_tick_run_def memory_outbox_def settled_total_def)
  qed
  ultimately show ?thesis using claim settled rest' count_settled_total [of cfg deliver ms]
    unfolding message_view_def
    by (intro exI [of _ ms] exI [of _ "?stats\<lparr>rt_delivered := count_settled cfg deliver OutboxDelivered ms,
        rt_requeued := count_settled cfg deliver OutboxPending ms,
        rt_dead_lettered := count_settled cfg deliver OutboxDeadLetter ms\<rparr>"] exI [of _ ob']) simp
qed

definition ex_relay :: relay_config where
  "ex_relay = \<lparr>rc_lane = ''l'', rc_target = ''t'', rc_consumer_id = ''c'', rc_batch_limit = 2, rc_lease_ms = 10,
     rc_retry_delay_ms = 5, rc_max_retry_delay_ms = 20\<rparr>"

theorem relay_tick_settles_witness:
  "\<exists>stats ob'. relay_tick_run (memory_outbox ex_digest) ex_relay (\<lambda>m. Inl (RelayDelivery ''x'')) (\<lambda>n. 20)
     (\<lambda>n. ''v'') (\<lambda>_ s. s) ex_outbox = (Inr stats, ob') \<and> rt_delivered stats = 0 \<and> rt_lost_claims stats = 0"
proof -
  have "relay_config_validate ex_relay = Inr ()" by code_simp
  note tick = relay_tick_settles [OF ex_outbox_def _ this,
      of "\<lambda>n. 20" "\<lambda>n. ''v''" "\<lambda>m. Inl (RelayDelivery ''x'')"]
  have "count_settled ex_relay (\<lambda>m. Inl (RelayDelivery ''x'')) OutboxDelivered ms = 0" for ms
    by (simp add: count_settled_def settled_as_def)
  with tick show ?thesis by (auto simp: enqueues_def ex_commands_def)
qed

end
