(* ===== verification/Agui_Encoder.thy ===== *)
theory Agui_Encoder
imports Agent_Event
begin

text \<open>
  The AG-UI encoder (\<^verbatim>\<open>remo-server/src/protocols/ag_ui/encoder.rs\<close>) and the events of that protocol
  (\<^verbatim>\<open>types.rs\<close>), with the grammar a receiver expects of the stream.

  The text of a JSON value (\<^verbatim>\<open>serde_json::to_string\<close>) is a parameter. The order in which the hash map
  of pending interrupts is iterated is an argument of every step.
\<close>

section \<open>Protocol events\<close>

datatype agui_role = RoleSystem | RoleUser | RoleAssistant | RoleReasoning | RoleTool

record interrupt_payload =
  ip_id :: "string option"
  ip_reason :: "string option"
  ip_payload :: "json option"

record base_event =
  be_timestamp :: "u64 option"
  be_raw_event :: "json option"

definition base_default :: base_event where
  "base_default = \<lparr>be_timestamp = None, be_raw_event = None\<rparr>"

datatype agui_event =
    AgRunStarted string string "string option" base_event
  | AgRunFinished string string "json option" "string option" "interrupt_payload option" base_event
  | AgRunError string "string option" base_event
  | AgStepStarted string base_event
  | AgStepFinished string base_event
  | AgTextMessageStart string agui_role base_event
  | AgTextMessageContent string string base_event
  | AgTextMessageEnd string base_event
  | AgReasoningMessageStart string agui_role base_event
  | AgReasoningMessageContent string string base_event
  | AgReasoningMessageEnd string base_event
  | AgReasoningEncryptedValue string string base_event
  | AgToolCallStart string string "string option" base_event
  | AgToolCallArgs string string base_event
  | AgToolCallEnd string base_event
  | AgToolCallResult string string string "agui_role option" base_event
  | AgStateSnapshot json base_event
  | AgStateDelta "json list" base_event
  | AgMessagesSnapshot "json list" base_event
  | AgActivitySnapshot string string "string \<rightharpoonup> json" "bool option" base_event
  | AgActivityDelta string string "json list" base_event
  | AgCustom string json base_event

definition ag_run_started :: "string \<Rightarrow> string \<Rightarrow> string option \<Rightarrow> agui_event" where
  "ag_run_started tid rid parent = AgRunStarted tid rid parent base_default"

definition ag_run_finished :: "string \<Rightarrow> string \<Rightarrow> json option \<Rightarrow> agui_event" where
  "ag_run_finished tid rid result = AgRunFinished tid rid result None None base_default"

definition ag_run_interrupted :: "string \<Rightarrow> string \<Rightarrow> interrupt_payload \<Rightarrow> agui_event" where
  "ag_run_interrupted tid rid p = AgRunFinished tid rid None (Some ''interrupt'') (Some p) base_default"

definition ag_run_error :: "string \<Rightarrow> string option \<Rightarrow> agui_event" where
  "ag_run_error msg code = AgRunError msg code base_default"

definition ag_step_started :: "string \<Rightarrow> agui_event" where
  "ag_step_started name = AgStepStarted name base_default"

definition ag_step_finished :: "string \<Rightarrow> agui_event" where
  "ag_step_finished name = AgStepFinished name base_default"

definition ag_text_message_start :: "string \<Rightarrow> agui_event" where
  "ag_text_message_start mid = AgTextMessageStart mid RoleAssistant base_default"

definition ag_text_message_content :: "string \<Rightarrow> string \<Rightarrow> agui_event" where
  "ag_text_message_content mid delta = AgTextMessageContent mid delta base_default"

definition ag_text_message_end :: "string \<Rightarrow> agui_event" where
  "ag_text_message_end mid = AgTextMessageEnd mid base_default"

definition ag_tool_call_start :: "string \<Rightarrow> string \<Rightarrow> string option \<Rightarrow> agui_event" where
  "ag_tool_call_start tcid name parent = AgToolCallStart tcid name parent base_default"

definition ag_tool_call_args :: "string \<Rightarrow> string \<Rightarrow> agui_event" where
  "ag_tool_call_args tcid delta = AgToolCallArgs tcid delta base_default"

definition ag_tool_call_end :: "string \<Rightarrow> agui_event" where
  "ag_tool_call_end tcid = AgToolCallEnd tcid base_default"

definition ag_tool_call_result :: "string \<Rightarrow> string \<Rightarrow> string \<Rightarrow> agui_event" where
  "ag_tool_call_result mid tcid content = AgToolCallResult mid tcid content (Some RoleTool) base_default"

definition ag_state_snapshot :: "json \<Rightarrow> agui_event" where
  "ag_state_snapshot v = AgStateSnapshot v base_default"

definition ag_state_delta :: "json list \<Rightarrow> agui_event" where
  "ag_state_delta vs = AgStateDelta vs base_default"

definition ag_messages_snapshot :: "json list \<Rightarrow> agui_event" where
  "ag_messages_snapshot vs = AgMessagesSnapshot vs base_default"

lemmas ag_event_defs = ag_run_started_def ag_run_finished_def ag_run_interrupted_def ag_run_error_def
  ag_step_started_def ag_step_finished_def ag_text_message_start_def ag_text_message_content_def
  ag_text_message_end_def ag_tool_call_start_def ag_tool_call_args_def ag_tool_call_end_def
  ag_tool_call_result_def ag_state_snapshot_def ag_state_delta_def ag_messages_snapshot_def

section \<open>The encoder\<close>

type_synonym interrupt = "string \<times> string option"

record agui_encoder =
  ag_message_id :: string
  ag_text_open :: bool
  ag_step_counter :: u32
  ag_reasoning_open :: bool
  ag_finished :: bool
  ag_pending_interrupts :: "string \<rightharpoonup> interrupt"
  ag_last_interrupt :: "interrupt option"

definition agui_new :: agui_encoder where
  "agui_new = \<lparr>ag_message_id = [], ag_text_open = False, ag_step_counter = 0, ag_reasoning_open = False,
     ag_finished = False, ag_pending_interrupts = Map.empty, ag_last_interrupt = None\<rparr>"

definition agui_close_text :: "agui_encoder \<Rightarrow> agui_event option \<times> agui_encoder" where
  "agui_close_text s =
     (if ag_text_open s then (Some (ag_text_message_end (ag_message_id s)), s\<lparr>ag_text_open := False\<rparr>)
      else (None, s))"

definition agui_close_reasoning :: "agui_encoder \<Rightarrow> agui_event option \<times> agui_encoder" where
  "agui_close_reasoning s =
     (if ag_reasoning_open s
      then (Some (AgReasoningMessageEnd (ag_message_id s) base_default), s\<lparr>ag_reasoning_open := False\<rparr>)
      else (None, s))"

fun option_list :: "'a option \<Rightarrow> 'a list" where
  "option_list None = []"
| "option_list (Some x) = [x]"

text \<open>The two closings that precede a tool call, the end of a step and the end of a run.\<close>

definition agui_close_blocks :: "agui_encoder \<Rightarrow> agui_event list \<times> agui_encoder" where
  "agui_close_blocks s =
     (let (t, s1) = agui_close_text s; (r, s2) = agui_close_reasoning s1 in (option_list t @ option_list r, s2))"

text \<open>\<^verbatim>\<open>pending_interrupts.remove(id); last_interrupt = pending_interrupts.values().next()\<close>.\<close>

definition agui_drop_interrupt :: "string list \<Rightarrow> string \<Rightarrow> agui_encoder \<Rightarrow> agui_encoder" where
  "agui_drop_interrupt ord tcid s =
     (let m = (ag_pending_interrupts s)(tcid := None)
      in s\<lparr>ag_pending_interrupts := m,
           ag_last_interrupt := (case hm_values ord m of [] \<Rightarrow> None | v # _ \<Rightarrow> Some v)\<rparr>)"

definition agui_on_tool_call_done :: "(json \<Rightarrow> string) \<Rightarrow> string list \<Rightarrow> string \<Rightarrow> string \<Rightarrow> tool_result \<Rightarrow>
    agui_encoder \<Rightarrow> agui_event list \<times> agui_encoder" where
  "agui_on_tool_call_done to_text ord tcid mid result s = (case tr_status result of
      ToolSuccess \<Rightarrow>
        let content = (if tr_metadata result = [] then to_text (tr_data result)
              else to_text (JObject [(''data'', tr_data result), (''metadata'', JObject (tr_metadata result))]))
        in ([ag_tool_call_result mid tcid content], agui_drop_interrupt ord tcid s)
    | ToolError \<Rightarrow>
        ([ag_tool_call_result mid tcid (case tr_message result of None \<Rightarrow> ''tool error'' | Some m \<Rightarrow> m)],
         agui_drop_interrupt ord tcid s)
    | ToolPending \<Rightarrow> (case tr_suspension result of
          None \<Rightarrow> ([], s)
        | Some ticket \<Rightarrow>
            let interrupt = (suspension_id (ticket_suspension ticket),
                  if is_blank (suspension_action (ticket_suspension ticket)) then None
                  else Some (suspension_action (ticket_suspension ticket)))
            in ([], s\<lparr>ag_pending_interrupts := (ag_pending_interrupts s)(tcid \<mapsto> interrupt),
                      ag_last_interrupt := Some interrupt\<rparr>)))"

definition agui_on_run_finish :: "string \<Rightarrow> string \<Rightarrow> json option \<Rightarrow> termination_reason \<Rightarrow> agui_encoder \<Rightarrow>
    agui_event list \<times> agui_encoder" where
  "agui_on_run_finish tid rid result termination s0 =
     (let (closing, s) = agui_close_blocks (s0\<lparr>ag_finished := True\<rparr>)
      in (closing @ [case termination of
            RunError msg \<Rightarrow> ag_run_error msg None
          | RunSuspended \<Rightarrow>
              (let (iid, reason) = (case ag_last_interrupt s of
                     None \<Rightarrow> (None, Some ''tool_approval'') | Some (i, r) \<Rightarrow> (Some i, r))
               in ag_run_interrupted tid rid \<lparr>ip_id = iid, ip_reason = reason, ip_payload = None\<rparr>)
          | _ \<Rightarrow> ag_run_finished tid rid result], s))"

definition step_name :: "agui_encoder \<Rightarrow> string" where
  "step_name s = ''step_'' @ show_nat (unat (ag_step_counter s))"

text \<open>
  The step counter is a \<^verbatim>\<open>u32\<close> and wraps around after 2^32 steps of one stream, as in a release build (a
  debug build panics there); nothing but the names of steps depends on it.
\<close>

fun agui_process :: "(json \<Rightarrow> string) \<Rightarrow> string list \<Rightarrow> agent_event \<Rightarrow> agui_encoder \<Rightarrow>
    agui_event list \<times> agui_encoder" where
  "agui_process to_text ord (EvRunStart tid rid parent _) s =
     ([ag_run_started tid rid parent], s\<lparr>ag_message_id := rid\<rparr>)"
| "agui_process to_text ord (EvTextDelta delta) s =
     ((if ag_text_open s then [] else [ag_text_message_start (ag_message_id s)]) @
        [ag_text_message_content (ag_message_id s) delta], s\<lparr>ag_text_open := True\<rparr>)"
| "agui_process to_text ord (EvReasoningDelta delta) s =
     ((if ag_reasoning_open s then [] else [AgReasoningMessageStart (ag_message_id s) RoleReasoning base_default]) @
        [AgReasoningMessageContent (ag_message_id s) delta base_default], s\<lparr>ag_reasoning_open := True\<rparr>)"
| "agui_process to_text ord (EvReasoningEncryptedValue v) s =
     ([AgReasoningEncryptedValue (ag_message_id s) v base_default], s)"
| "agui_process to_text ord (EvToolCallStart tcid name) s =
     (let (closing, s1) = agui_close_blocks s
      in (closing @ [ag_tool_call_start tcid name (Some (ag_message_id s1))], s1))"
| "agui_process to_text ord (EvToolCallDelta tcid args_delta) s = ([ag_tool_call_args tcid args_delta], s)"
| "agui_process to_text ord (EvToolCallReady tcid _ _) s = ([ag_tool_call_end tcid], s)"
| "agui_process to_text ord (EvToolCallDone tcid mid result _) s =
     agui_on_tool_call_done to_text ord tcid mid result s"
| "agui_process to_text ord (EvStepStart mid) s =
     (let s1 = s\<lparr>ag_step_counter := ag_step_counter s + 1\<rparr>;
          s2 = (if mid = [] then s1 else s1\<lparr>ag_message_id := mid\<rparr>)
      in ([ag_step_started (step_name s2)], s2))"
| "agui_process to_text ord EvStepEnd s =
     (let (closing, s1) = agui_close_blocks s in (closing @ [ag_step_finished (step_name s1)], s1))"
| "agui_process to_text ord (EvRunFinish tid rid _ result termination) s =
     agui_on_run_finish tid rid result termination s"
| "agui_process to_text ord (EvError msg code) s = ([ag_run_error msg code], s\<lparr>ag_finished := True\<rparr>)"
| "agui_process to_text ord (EvStateSnapshot v) s = ([ag_state_snapshot v], s)"
| "agui_process to_text ord (EvStateDelta vs) s = ([ag_state_delta vs], s)"
| "agui_process to_text ord (EvMessagesSnapshot vs) s = ([ag_messages_snapshot vs], s)"
| "agui_process to_text ord (EvActivitySnapshot mid kind content replace) s =
     ([AgActivitySnapshot mid kind
         (case json_object content of Some ms \<Rightarrow> map_of ms | None \<Rightarrow> [''value'' \<mapsto> content]) replace base_default], s)"
| "agui_process to_text ord (EvActivityDelta mid kind patch) s =
     ([AgActivityDelta mid kind patch base_default], s)"
| "agui_process to_text ord (EvToolCallResumed target result) s =
     ([ag_tool_call_result (ag_message_id s) target (to_text result)], agui_drop_interrupt ord target s)"
| "agui_process to_text ord (EvToolCallStreamDelta tcid _ delta) s =
     ([AgActivityDelta tcid ''tool-stream-output''
         [JObject [(''op'', JString ''add''), (''path'', JString ''/delta''), (''value'', JString delta)]] base_default], s)"
| "agui_process to_text ord (EvInferenceComplete _ _ _) s = ([], s)"
| "agui_process to_text ord (EvToolCallCancel _ _ _) s = ([], s)"
| "agui_process to_text ord (EvStreamReset _) s = ([], s)"

definition agui_on_agent_event :: "(json \<Rightarrow> string) \<Rightarrow> string list \<Rightarrow> agent_event \<Rightarrow> agui_encoder \<Rightarrow>
    agui_event list \<times> agui_encoder" where
  "agui_on_agent_event to_text ord ev s =
     (if ag_finished s \<and> \<not> event_is_run_start ev then ([], s)
      else agui_process to_text ord ev (s\<lparr>ag_finished := False\<rparr>))"

section \<open>What a receiver expects\<close>

text \<open>
  The receiver tracks the open text block, the open reasoning block and whether the stream has
  ended. A block is opened when none is open, continued and closed under the id it was opened with;
  the stream does not end while a block is open, unless with an error; after its end nothing comes
  but the start of another run.
\<close>

type_synonym agui_receiver = "string option \<times> string option \<times> bool"

fun agui_receive :: "agui_event \<Rightarrow> agui_receiver \<Rightarrow> agui_receiver option" where
  "agui_receive (AgRunStarted _ _ _ _) (t, r, ended) = (if t = None \<and> r = None then Some (t, r, False) else None)"
| "agui_receive e (t, r, True) = None"
| "agui_receive (AgRunFinished _ _ _ _ _ _) (t, r, False) =
     (if t = None \<and> r = None then Some (None, None, True) else None)"
| "agui_receive (AgRunError _ _ _) (t, r, False) = Some (t, r, True)"
| "agui_receive (AgTextMessageStart mid _ _) (t, r, False) = (if t = None then Some (Some mid, r, False) else None)"
| "agui_receive (AgTextMessageContent mid _ _) (t, r, False) = (if t = Some mid then Some (t, r, False) else None)"
| "agui_receive (AgTextMessageEnd mid _) (t, r, False) = (if t = Some mid then Some (None, r, False) else None)"
| "agui_receive (AgReasoningMessageStart mid _ _) (t, r, False) = (if r = None then Some (t, Some mid, False) else None)"
| "agui_receive (AgReasoningMessageContent mid _ _) (t, r, False) = (if r = Some mid then Some (t, r, False) else None)"
| "agui_receive (AgReasoningMessageEnd mid _) (t, r, False) = (if r = Some mid then Some (t, None, False) else None)"
| "agui_receive e (t, r, False) = Some (t, r, False)"

fun receive_all :: "('e \<Rightarrow> 'r \<Rightarrow> 'r option) \<Rightarrow> 'e list \<Rightarrow> 'r \<Rightarrow> 'r option" where
  "receive_all receive [] s = Some s"
| "receive_all receive (e # es) s = (case receive e s of None \<Rightarrow> None | Some s' \<Rightarrow> receive_all receive es s')"

lemma receive_all_append:
  "receive_all receive (es @ fs) s = Option.bind (receive_all receive es s) (receive_all receive fs)"
  by (induction es arbitrary: s) (auto split: option.splits)

text \<open>
  The agent's part of the contract: it names another message (a step or a run starts) only while no
  block is open. A block is open from a delta to the next tool call, end of the step or end of the
  run. \<open>b\<close> says that a block is open, \<open>f\<close> that the stream has ended.
\<close>

fun switches_between_blocks :: "bool \<Rightarrow> bool \<Rightarrow> agent_event list \<Rightarrow> bool" where
  "switches_between_blocks b f [] = True"
| "switches_between_blocks b f (e # es) =
     (if f \<and> \<not> event_is_run_start e then switches_between_blocks b f es
      else (case e of
          EvRunStart _ _ _ _ \<Rightarrow> \<not> b \<and> switches_between_blocks b False es
        | EvStepStart mid \<Rightarrow> (mid = [] \<or> \<not> b) \<and> switches_between_blocks b False es
        | EvTextDelta _ \<Rightarrow> switches_between_blocks True False es
        | EvReasoningDelta _ \<Rightarrow> switches_between_blocks True False es
        | EvToolCallStart _ _ \<Rightarrow> switches_between_blocks False False es
        | EvStepEnd \<Rightarrow> switches_between_blocks False False es
        | EvRunFinish _ _ _ _ _ \<Rightarrow> switches_between_blocks False True es
        | EvError _ _ \<Rightarrow> switches_between_blocks b True es
        | _ \<Rightarrow> switches_between_blocks b False es))"

section \<open>Properties\<close>

definition agui_receiver_of :: "agui_encoder \<Rightarrow> agui_receiver" where
  "agui_receiver_of s =
     (if ag_text_open s then Some (ag_message_id s) else None,
      if ag_reasoning_open s then Some (ag_message_id s) else None, ag_finished s)"

definition agui_block_open :: "agui_encoder \<Rightarrow> bool" where
  "agui_block_open s \<longleftrightarrow> ag_text_open s \<or> ag_reasoning_open s"

lemma agui_close_blocks_eq:
  "agui_close_blocks s =
     ((if ag_text_open s then [AgTextMessageEnd (ag_message_id s) base_default] else []) @
      (if ag_reasoning_open s then [AgReasoningMessageEnd (ag_message_id s) base_default] else []),
      s\<lparr>ag_text_open := False, ag_reasoning_open := False\<rparr>)"
  by (cases s) (simp add: agui_close_blocks_def agui_close_text_def agui_close_reasoning_def ag_text_message_end_def)

lemma drop_interrupt_receiver [simp]: "agui_receiver_of (agui_drop_interrupt ord tcid s) = agui_receiver_of s"
  by (simp add: agui_drop_interrupt_def agui_receiver_of_def Let_def)

interpretation agui: guarded_encoder "agui_on_agent_event to_text" ag_finished
proof
  show "agui_on_agent_event to_text c e s = ([], s)" if "ag_finished s" "\<not> event_is_run_start e" for c e s
    using that by (simp add: agui_on_agent_event_def)
  show "ag_finished (snd (agui_on_agent_event to_text c e s)) = event_is_terminal e"
    if "\<not> ag_finished s \<or> event_is_run_start e" for c e s
    using that
    by (cases e) (auto simp: agui_on_agent_event_def agui_on_tool_call_done_def agui_on_run_finish_def
      agui_close_blocks_eq Let_def agui_drop_interrupt_def split: tool_status.splits option.splits prod.splits)
qed

fun switches_message :: "agent_event \<Rightarrow> bool" where
  "switches_message (EvRunStart _ _ _ _) = True"
| "switches_message (EvStepStart mid) = (mid \<noteq> [])"
| "switches_message _ = False"

lemma agui_tool_call_done_received:
  "agui_on_tool_call_done to_text ord tcid mid result s = (out, s') \<Longrightarrow> \<not> ag_finished s \<Longrightarrow>
   receive_all agui_receive out (agui_receiver_of s) = Some (agui_receiver_of s') \<and>
   agui_block_open s' = agui_block_open s"
  by (auto simp: agui_on_tool_call_done_def Let_def ag_event_defs agui_receiver_of_def agui_block_open_def
      agui_drop_interrupt_def split: tool_status.splits option.splits)

lemma agui_run_finish_received:
  assumes "agui_on_run_finish tid rid result reason s = (out, s')" "\<not> ag_finished s"
  shows "receive_all agui_receive out (agui_receiver_of s) = Some (agui_receiver_of s') \<and> \<not> agui_block_open s' \<and> ag_finished s'"
  using assms
  by (auto simp: agui_on_run_finish_def agui_close_blocks_eq Let_def agui_receiver_of_def agui_block_open_def ag_event_defs
      split: termination_reason.splits option.splits prod.splits)

lemma agui_process_received:
  assumes "agui_process to_text ord e s = (out, s')" "\<not> ag_finished s" "switches_message e \<longrightarrow> \<not> agui_block_open s"
  shows "receive_all agui_receive out (agui_receiver_of s) = Some (agui_receiver_of s')"
proof (cases e)
  case (EvToolCallStart tcid name)
  with assms show ?thesis
    by (auto simp: agui_close_blocks_eq Let_def ag_event_defs agui_receiver_of_def)
next
  case EvStepEnd
  with assms show ?thesis
    by (auto simp: agui_close_blocks_eq Let_def ag_event_defs agui_receiver_of_def)
next
  case (EvToolCallDone tcid mid result oc)
  with assms agui_tool_call_done_received show ?thesis by auto
next
  case (EvRunFinish tid rid i result reason)
  with assms agui_run_finish_received show ?thesis by auto
next
  case (EvToolCallResumed target result)
  with assms show ?thesis
    by (auto simp: ag_event_defs agui_receiver_of_def agui_drop_interrupt_def Let_def)
qed (use assms in \<open>auto simp: ag_event_defs agui_receiver_of_def agui_block_open_def Let_def
  agui_close_blocks_eq Let_def split: if_splits\<close>)

lemma agui_step_received:
  assumes "agui_on_agent_event to_text ord e s = (out, s')"
    "switches_message e \<longrightarrow> ag_finished s \<and> \<not> event_is_run_start e \<or> \<not> agui_block_open s"
  shows "receive_all agui_receive out (agui_receiver_of s) = Some (agui_receiver_of s')"
proof (cases "ag_finished s")
  case False
  then have "s\<lparr>ag_finished := False\<rparr> = s" by simp
  with assms False agui_process_received [of to_text ord e s] show ?thesis
    by (simp add: agui_on_agent_event_def)
next
  case True
  show ?thesis
  proof (cases "event_is_run_start e")
    case True
    with assms \<open>ag_finished s\<close> show ?thesis
      by (cases e) (auto simp: agui_on_agent_event_def ag_event_defs agui_receiver_of_def agui_block_open_def)
  qed (use assms True in \<open>simp add: agui_on_agent_event_def\<close>)
qed

text \<open>How the open blocks change with an event, as the agent's part of the contract sees it.\<close>

lemma agui_block_step:
  assumes "agui_on_agent_event to_text ord e s = (out, s')"
    "switches_between_blocks (agui_block_open s) (ag_finished s) (e # es)"
  shows "(switches_message e \<longrightarrow> ag_finished s \<and> \<not> event_is_run_start e \<or> \<not> agui_block_open s) \<and>
    switches_between_blocks (agui_block_open s') (ag_finished s') es"
proof (cases "ag_finished s \<and> \<not> event_is_run_start e")
  case True
  with assms show ?thesis by (simp add: agui_on_agent_event_def)
next
  case False
  with assms show ?thesis
    by (cases e)
      (auto simp: agui_on_agent_event_def agui_on_tool_call_done_def agui_on_run_finish_def agui_block_open_def
        agui_close_blocks_eq Let_def agui_drop_interrupt_def split: if_splits tool_status.splits option.splits prod.splits)
qed

lemma agui_run_received:
  "switches_between_blocks (agui_block_open s) (ag_finished s) (map snd evs) \<Longrightarrow>
   receive_all agui_receive (fst (encode_run (agui_on_agent_event to_text) evs s)) (agui_receiver_of s) =
   Some (agui_receiver_of (snd (encode_run (agui_on_agent_event to_text) evs s)))"
proof (induction evs arbitrary: s)
  case (Cons ce evs)
  obtain ord e where ce: "ce = (ord, e)" by (cases ce)
  obtain out s1 where step: "agui_on_agent_event to_text ord e s = (out, s1)" by fastforce
  from agui_block_step [OF step, of "map snd evs"] Cons.prems
  have ok: "switches_message e \<longrightarrow> ag_finished s \<and> \<not> event_is_run_start e \<or> \<not> agui_block_open s"
    "switches_between_blocks (agui_block_open s1) (ag_finished s1) (map snd evs)"
    by (simp_all add: ce)
  have "encode_run (agui_on_agent_event to_text) (ce # evs) s =
      (out @ fst (encode_run (agui_on_agent_event to_text) evs s1), snd (encode_run (agui_on_agent_event to_text) evs s1))"
    unfolding ce encode_run.simps step Let_def by (simp add: split_beta)
  with agui_step_received [OF step ok(1)] Cons.IH [OF ok(2)] show ?case by (simp add: receive_all_append)
qed simp

text \<open>
  C23: The AG-UI stream is well formed. When the agent names another message only between blocks, the
  receiver accepts the encoded stream, whatever the iteration order of the pending interrupts: text and
  reasoning blocks are opened, continued and closed under one message id, no block is open when the
  run finishes or is interrupted, and nothing but the start of a run follows the end of the stream.
\<close>
theorem agui_stream_well_formed:
  assumes "switches_between_blocks False False (map snd evs)"
    and "encode_run (agui_on_agent_event to_text) evs agui_new = (out, s)"
  shows "receive_all agui_receive out (None, None, False) =
    Some (if ag_text_open s then Some (ag_message_id s) else None,
      if ag_reasoning_open s then Some (ag_message_id s) else None, ag_finished s)"
proof -
  have start: "agui_receiver_of agui_new = (None, None, False)"
    by (simp add: agui_receiver_of_def agui_new_def)
  have "switches_between_blocks (agui_block_open agui_new) (ag_finished agui_new) (map snd evs)"
    using assms(1) by (simp add: agui_block_open_def agui_new_def)
  from agui_run_received [OF this, of to_text] assms(2) show ?thesis unfolding start by (simp add: agui_receiver_of_def)
qed

theorem agui_stream_well_formed_witness:
  "receive_all agui_receive (fst (encode_run (agui_on_agent_event (\<lambda>v. []))
     [([], EvRunStart ''t'' ''r'' None None), ([], EvTextDelta ''hi''), ([], EvReasoningDelta ''hm''), ([], EvStepEnd),
      ([], EvRunFinish ''t'' ''r'' None None RunSuspended)] agui_new)) (None, None, False) \<noteq> None"
  using agui_stream_well_formed [OF _ prod.collapse [symmetric], of
      "[([], EvRunStart ''t'' ''r'' None None), ([], EvTextDelta ''hi''), ([], EvReasoningDelta ''hm''), ([], EvStepEnd),
      ([], EvRunFinish ''t'' ''r'' None None RunSuspended)]" "\<lambda>v. []"]
  by simp

text \<open>
  Without that, the receiver is misled: a run that fails while a text block is open leaves it open in the
  encoder, and in the next run the first delta has the new message id but no start.
\<close>

lemma agui_error_leaks_text_block:
  "fst (encode_run (agui_on_agent_event to_text)
     [([], EvRunStart ''t'' ''a'' None None), ([], EvTextDelta ''x''), ([], EvError ''e'' None),
      ([], EvRunStart ''t'' ''b'' None None), ([], EvTextDelta ''y'')] agui_new) =
   [ag_run_started ''t'' ''a'' None, ag_text_message_start ''a'', ag_text_message_content ''a'' ''x'',
    ag_run_error ''e'' None, ag_run_started ''t'' ''b'' None, ag_text_message_content ''b'' ''y'']"
  by (simp add: agui_on_agent_event_def agui_new_def)

end
