(* ===== verification/Ai_Sdk_Encoder.thy ===== *)
theory Ai_Sdk_Encoder
imports Agui_Encoder
begin

text \<open>
  The encoder for the UI message stream of the AI SDK
  (\<^verbatim>\<open>remo-server/src/protocols/ai_sdk_v6/encoder.rs\<close>) and the events of that protocol (\<^verbatim>\<open>types.rs\<close>), with the
  grammar a receiver expects of the stream.
\<close>

section \<open>Protocol events\<close>

datatype ui_event =
    UiMessageStart "string option" "json option"
  | UiTextStart string "json option"
  | UiTextDelta string string "json option"
  | UiTextEnd string "json option"
  | UiReasoningStart string "json option"
  | UiReasoningDelta string string "json option"
  | UiReasoningEnd string "json option"
  | UiToolInputStart string string "bool option"
  | UiToolInputDelta string string
  | UiToolInputAvailable string string json "bool option"
  | UiToolOutputAvailable string json "bool option" "bool option" "bool option"
  | UiToolOutputError string string "bool option" "bool option"
  | UiToolOutputDenied string
  | UiToolApprovalRequest string string
  | UiStartStep
  | UiFinishStep
  | UiFinish "string option" "json option"
  | UiError string
  | UiSourceUrl string string "string option" "json option"
  | UiSourceDocument string string "string option" "string option" "json option"
  | UiFile string string "json option"
  | UiMessageMetadata json
  | UiToolInputError string string json string "bool option"
  | UiAbort "string option"
  | UiData string "string option" json "bool option"

definition ui_message_start :: "string \<Rightarrow> ui_event" where
  "ui_message_start mid = UiMessageStart (Some mid) None"

definition ui_text_start :: "string \<Rightarrow> ui_event" where
  "ui_text_start i = UiTextStart i None"

definition ui_text_delta :: "string \<Rightarrow> string \<Rightarrow> ui_event" where
  "ui_text_delta i delta = UiTextDelta i delta None"

definition ui_text_end :: "string \<Rightarrow> ui_event" where
  "ui_text_end i = UiTextEnd i None"

definition ui_reasoning_start :: "string \<Rightarrow> ui_event" where
  "ui_reasoning_start i = UiReasoningStart i None"

definition ui_reasoning_delta :: "string \<Rightarrow> string \<Rightarrow> ui_event" where
  "ui_reasoning_delta i delta = UiReasoningDelta i delta None"

definition ui_reasoning_end :: "string \<Rightarrow> ui_event" where
  "ui_reasoning_end i = UiReasoningEnd i None"

definition ui_tool_input_start :: "string \<Rightarrow> string \<Rightarrow> ui_event" where
  "ui_tool_input_start tcid name = UiToolInputStart tcid name None"

definition ui_tool_input_delta :: "string \<Rightarrow> string \<Rightarrow> ui_event" where
  "ui_tool_input_delta tcid delta = UiToolInputDelta tcid delta"

definition ui_tool_input_available :: "string \<Rightarrow> string \<Rightarrow> json \<Rightarrow> ui_event" where
  "ui_tool_input_available tcid name input = UiToolInputAvailable tcid name input None"

definition ui_tool_output_available :: "string \<Rightarrow> json \<Rightarrow> ui_event" where
  "ui_tool_output_available tcid output = UiToolOutputAvailable tcid output None None (Some True)"

definition ui_tool_output_preliminary :: "string \<Rightarrow> json \<Rightarrow> ui_event" where
  "ui_tool_output_preliminary tcid output = UiToolOutputAvailable tcid output None (Some True) (Some True)"

definition ui_tool_output_resumed :: "string \<Rightarrow> json \<Rightarrow> ui_event" where
  "ui_tool_output_resumed tcid output = UiToolOutputAvailable tcid output None None (Some True)"

definition ui_tool_output_error :: "string \<Rightarrow> string \<Rightarrow> ui_event" where
  "ui_tool_output_error tcid err = UiToolOutputError tcid err None (Some True)"

definition ui_tool_output_denied :: "string \<Rightarrow> ui_event" where
  "ui_tool_output_denied tcid = UiToolOutputDenied tcid"

definition ui_tool_approval_request :: "string \<Rightarrow> string \<Rightarrow> ui_event" where
  "ui_tool_approval_request aid tcid = UiToolApprovalRequest aid tcid"

definition ui_finish_with_reason :: "string \<Rightarrow> ui_event" where
  "ui_finish_with_reason reason = UiFinish (Some reason) None"

definition ui_error :: "string \<Rightarrow> ui_event" where
  "ui_error err = UiError err"

definition ui_source_url :: "string \<Rightarrow> string \<Rightarrow> string option \<Rightarrow> ui_event" where
  "ui_source_url sid url title = UiSourceUrl sid url title None"

definition ui_source_document :: "string \<Rightarrow> string \<Rightarrow> string option \<Rightarrow> string option \<Rightarrow> ui_event" where
  "ui_source_document sid media title filename = UiSourceDocument sid media title filename None"

definition ui_file :: "string \<Rightarrow> string \<Rightarrow> ui_event" where
  "ui_file url media = UiFile url media None"

definition ui_data_with_options :: "string \<Rightarrow> json \<Rightarrow> string option \<Rightarrow> bool option \<Rightarrow> ui_event" where
  "ui_data_with_options name v i transient =
     UiData (if starts_with name ''data-'' then name else ''data-'' @ name) i v transient"

definition ui_data :: "string \<Rightarrow> json \<Rightarrow> ui_event" where
  "ui_data name v = ui_data_with_options name v None None"

lemmas ui_event_defs = ui_message_start_def ui_text_start_def ui_text_delta_def ui_text_end_def
  ui_reasoning_start_def ui_reasoning_delta_def ui_reasoning_end_def ui_tool_input_start_def
  ui_tool_input_delta_def ui_tool_input_available_def ui_tool_output_available_def
  ui_tool_output_preliminary_def ui_tool_output_resumed_def ui_tool_output_error_def
  ui_tool_output_denied_def ui_tool_approval_request_def ui_finish_with_reason_def ui_error_def
  ui_source_url_def ui_source_document_def ui_file_def ui_data_with_options_def ui_data_def

section \<open>JSON of the data events\<close>

definition show_i32 :: "32 word \<Rightarrow> string" where
  "show_i32 w = (if sint w < 0 then ''-'' @ show_nat (nat (- sint w)) else show_nat (nat (sint w)))"

definition json_opt :: "('a \<Rightarrow> json) \<Rightarrow> 'a option \<Rightarrow> json" where
  "json_opt f v = (case v of None \<Rightarrow> JNull | Some x \<Rightarrow> f x)"

definition json_field :: "string \<Rightarrow> 32 word option \<Rightarrow> (string \<times> json) list" where
  "json_field name v = (case v of None \<Rightarrow> [] | Some n \<Rightarrow> [(name, JNumber (show_i32 n))])"

text \<open>Fields that are \<^verbatim>\<open>None\<close> are left out; a JSON object has its keys in order.\<close>

definition token_usage_json :: "token_usage \<Rightarrow> json" where
  "token_usage_json u = JObject
     (json_field ''cache_creation_tokens'' (tu_cache_creation_tokens u) @
      json_field ''cache_read_tokens'' (tu_cache_read_tokens u) @
      json_field ''completion_tokens'' (tu_completion_tokens u) @
      json_field ''prompt_tokens'' (tu_prompt_tokens u) @
      json_field ''thinking_tokens'' (tu_thinking_tokens u) @
      json_field ''total_tokens'' (tu_total_tokens u))"

section \<open>The encoder\<close>

record ai_sdk_encoder =
  ui_message_id :: string
  ui_text_open :: bool
  ui_text_counter :: u32
  ui_finished :: bool
  ui_message_id_set :: bool
  ui_open_reasoning :: "string set"
  ui_stream_accumulators :: "string \<rightharpoonup> string"

definition ai_sdk_new :: ai_sdk_encoder where
  "ai_sdk_new = \<lparr>ui_message_id = [], ui_text_open = False, ui_text_counter = 0, ui_finished = False,
     ui_message_id_set = False, ui_open_reasoning = {}, ui_stream_accumulators = Map.empty\<rparr>"

definition ui_text_id :: "ai_sdk_encoder \<Rightarrow> string" where
  "ui_text_id s = ''txt_'' @ show_nat (unat (ui_text_counter s))"

definition ui_open_text :: "ai_sdk_encoder \<Rightarrow> ui_event \<times> ai_sdk_encoder" where
  "ui_open_text s = (ui_text_start (ui_text_id s), s\<lparr>ui_text_open := True\<rparr>)"

definition ui_close_text :: "ai_sdk_encoder \<Rightarrow> ui_event \<times> ai_sdk_encoder" where
  "ui_close_text s =
     (ui_text_end (ui_text_id s), s\<lparr>ui_text_open := False, ui_text_counter := ui_text_counter s + 1\<rparr>)"

definition ui_close_all_reasoning :: "ai_sdk_encoder \<Rightarrow> ui_event list \<times> ai_sdk_encoder" where
  "ui_close_all_reasoning s =
     (map ui_reasoning_end (sorted_list_of_set (ui_open_reasoning s)), s\<lparr>ui_open_reasoning := {}\<rparr>)"

text \<open>\<^verbatim>\<open>if self.text_open { events.push(self.close_text()) }\<close>.\<close>

definition ui_close_open_text :: "ai_sdk_encoder \<Rightarrow> ui_event list \<times> ai_sdk_encoder" where
  "ui_close_open_text s = (if ui_text_open s then (case ui_close_text s of (e, s') \<Rightarrow> ([e], s')) else ([], s))"

definition ui_close_blocks :: "ai_sdk_encoder \<Rightarrow> ui_event list \<times> ai_sdk_encoder" where
  "ui_close_blocks s =
     (let (t, s1) = ui_close_open_text s; (r, s2) = ui_close_all_reasoning s1 in (t @ r, s2))"

definition ui_start_reasoning_if_needed :: "string \<Rightarrow> ai_sdk_encoder \<Rightarrow> ui_event list \<times> ai_sdk_encoder" where
  "ui_start_reasoning_if_needed i s =
     (if i \<in> ui_open_reasoning s then ([], s)
      else ([ui_reasoning_start i], s\<lparr>ui_open_reasoning := insert i (ui_open_reasoning s)\<rparr>))"

definition reasoning_id_for :: "string \<Rightarrow> string option \<Rightarrow> string" where
  "reasoning_id_for mid suffix = (case suffix of
      Some sfx \<Rightarrow> ''reasoning_'' @ mid @ ''_'' @ sfx
    | None \<Rightarrow> ''reasoning_'' @ mid)"

definition get_str :: "(string \<times> json) list \<Rightarrow> string \<Rightarrow> string option" where
  "get_str obj key = Option.bind (map_of obj key) json_str"

definition or_default :: "'a option \<Rightarrow> 'a \<Rightarrow> 'a" where
  "or_default v d = (case v of None \<Rightarrow> d | Some x \<Rightarrow> x)"

definition ui_activity_events :: "string \<Rightarrow> string \<Rightarrow> json \<Rightarrow> ui_event list" where
  "ui_activity_events mid kind content = (case json_object content of
      None \<Rightarrow> []
    | Some obj \<Rightarrow>
        if kind = ''source-url''
        then [ui_source_url (or_default (get_str obj ''sourceId'') mid) (or_default (get_str obj ''url'') [])
                (get_str obj ''title'')]
        else if kind = ''source-document''
        then [ui_source_document (or_default (get_str obj ''sourceId'') mid)
                (or_default (get_str obj ''mediaType'') ''application/octet-stream'')
                (get_str obj ''title'') (get_str obj ''filename'')]
        else if kind = ''file''
        then [ui_file (or_default (get_str obj ''url'') [])
                (or_default (get_str obj ''mediaType'') ''application/octet-stream'')]
        else [])"

definition ui_on_tool_call_done :: "string \<Rightarrow> tool_result \<Rightarrow> ui_event list" where
  "ui_on_tool_call_done tcid result = (case tr_status result of
      ToolSuccess \<Rightarrow>
        [ui_tool_output_available tcid
          (if tr_metadata result = [] then tr_data result
           else JObject [(''data'', tr_data result), (''metadata'', JObject (tr_metadata result))])]
    | ToolPending \<Rightarrow> (case tr_suspension result of
          None \<Rightarrow> []
        | Some ticket \<Rightarrow>
            if ticket_resume_mode ticket = ReplayToolCall \<and> \<not> is_blank (suspension_id (ticket_suspension ticket))
            then [ui_tool_approval_request (suspension_id (ticket_suspension ticket)) tcid] else [])
    | ToolError \<Rightarrow> [ui_tool_output_error tcid (or_default (tr_message result) ''tool execution error'')])"

fun finish_reason :: "termination_reason \<Rightarrow> string" where
  "finish_reason NaturalEnd = ''stop''"
| "finish_reason BehaviorRequested = ''stop''"
| "finish_reason (Stopped _) = ''stop''"
| "finish_reason RunCancelled = ''stop''"
| "finish_reason RunSuspended = ''tool-calls''"
| "finish_reason (RunError _) = ''error''"
| "finish_reason (Blocked _) = ''content-filter''"

definition ui_on_run_finish :: "termination_reason \<Rightarrow> ai_sdk_encoder \<Rightarrow> ui_event list \<times> ai_sdk_encoder" where
  "ui_on_run_finish termination s =
     (let (closing, s1) = ui_close_blocks (s\<lparr>ui_finished := True\<rparr>)
      in (closing @ (if termination = RunSuspended then [UiFinishStep] else []) @
            [ui_finish_with_reason (finish_reason termination)], s1))"

fun ui_process :: "agent_event \<Rightarrow> ai_sdk_encoder \<Rightarrow> ui_event list \<times> ai_sdk_encoder" where
  "ui_process (EvRunStart tid rid _ _) s =
     ([ui_message_start rid,
       ui_data ''run-info'' (JObject [(''runId'', JString rid), (''threadId'', JString tid)])],
      s\<lparr>ui_message_id := rid\<rparr>)"
| "ui_process (EvTextDelta delta) s =
     (let (opening, s1) = (if ui_text_open s then ([], s) else (case ui_open_text s of (e, s') \<Rightarrow> ([e], s')))
      in (opening @ [ui_text_delta (ui_text_id s1) delta], s1))"
| "ui_process (EvReasoningDelta delta) s =
     (let rid = reasoning_id_for (ui_message_id s) None; (opening, s1) = ui_start_reasoning_if_needed rid s
      in (opening @ [ui_reasoning_delta rid delta], s1))"
| "ui_process (EvReasoningEncryptedValue v) s =
     ([ui_data_with_options ''reasoning-encrypted'' (JObject [(''encryptedValue'', JString v)])
         (Some (reasoning_id_for (ui_message_id s) None)) (Some True)], s)"
| "ui_process (EvToolCallStart tcid name) s =
     (let (closing, s1) = ui_close_open_text s in (closing @ [ui_tool_input_start tcid name], s1))"
| "ui_process (EvToolCallDelta tcid args_delta) s = ([ui_tool_input_delta tcid args_delta], s)"
| "ui_process (EvToolCallReady tcid name args) s = ([ui_tool_input_available tcid name args], s)"
| "ui_process (EvToolCallStreamDelta tcid _ delta) s =
     (let acc = or_default (ui_stream_accumulators s tcid) [] @ delta
      in ([ui_tool_output_preliminary tcid (JString acc)],
          s\<lparr>ui_stream_accumulators := (ui_stream_accumulators s)(tcid \<mapsto> acc)\<rparr>))"
| "ui_process (EvToolCallDone tcid _ result _) s =
     (ui_on_tool_call_done tcid result, s\<lparr>ui_stream_accumulators := (ui_stream_accumulators s)(tcid := None)\<rparr>)"
| "ui_process (EvToolCallResumed target result) s =
     ([case classify_resumed_result result of
         ResumedError msg \<Rightarrow> ui_tool_output_error target msg
       | ResumedDenied \<Rightarrow> ui_tool_output_denied target
       | ResumedSuccess \<Rightarrow> ui_tool_output_resumed target result], s)"
| "ui_process (EvStepStart mid) s =
     ([UiStartStep],
      if \<not> ui_message_id_set s \<and> mid \<noteq> [] then s\<lparr>ui_message_id := mid, ui_message_id_set := True\<rparr> else s)"
| "ui_process EvStepEnd s = (let (closing, s1) = ui_close_blocks s in (closing @ [UiFinishStep], s1))"
| "ui_process (EvRunFinish _ _ _ _ termination) s = ui_on_run_finish termination s"
| "ui_process (EvError msg _) s = ([ui_error msg], s\<lparr>ui_finished := True\<rparr>)"
| "ui_process (EvStateSnapshot v) s = ([ui_data ''state-snapshot'' v], s)"
| "ui_process (EvStateDelta vs) s = ([ui_data ''state-delta'' (JArray vs)], s)"
| "ui_process (EvMessagesSnapshot vs) s = ([ui_data ''messages-snapshot'' (JArray vs)], s)"
| "ui_process (EvActivitySnapshot mid kind content replace) s =
     (ui_activity_events mid kind content @
      [ui_data ''activity-snapshot'' (JObject
         [(''activityType'', JString kind), (''content'', content), (''messageId'', JString mid),
          (''replace'', json_opt JBool replace)])], s)"
| "ui_process (EvActivityDelta mid kind patch) s =
     ([ui_data ''activity-delta'' (JObject
         [(''activityType'', JString kind), (''messageId'', JString mid), (''patch'', JArray patch)])], s)"
| "ui_process (EvInferenceComplete model usage duration) s =
     ([ui_data ''inference-complete'' (JObject
         [(''durationMs'', JNumber (show_nat (unat duration))), (''model'', JString model),
          (''usage'', json_opt token_usage_json usage)])], s)"
| "ui_process (EvToolCallCancel _ _ _) s = ([], s)"
| "ui_process (EvStreamReset _) s = ([], s)"

definition ai_sdk_on_agent_event :: "unit \<Rightarrow> agent_event \<Rightarrow> ai_sdk_encoder \<Rightarrow> ui_event list \<times> ai_sdk_encoder" where
  "ai_sdk_on_agent_event _ ev s =
     (if ui_finished s \<and> \<not> event_is_run_start ev then ([], s)
      else ui_process ev (s\<lparr>ui_finished := False\<rparr>))"

section \<open>What a receiver expects\<close>

text \<open>
  The receiver tracks the open text block, the ids used for text blocks so far, the open reasoning
  blocks and whether the stream has ended. A text block has an id of its own; deltas and ends name
  an open block; neither does the stream finish nor does a message start while a block is open; after its
  end (a finish or an error) nothing comes but the start of another message.
\<close>

type_synonym ui_receiver = "string option \<times> string set \<times> string set \<times> bool"

fun ui_receive :: "ui_event \<Rightarrow> ui_receiver \<Rightarrow> ui_receiver option" where
  "ui_receive (UiMessageStart _ _) (t, used, r, ended) =
     (if t = None \<and> r = {} then Some (t, used, r, False) else None)"
| "ui_receive e (t, used, r, True) = None"
| "ui_receive (UiTextStart i _) (t, used, r, False) =
     (if t = None \<and> i \<notin> used then Some (Some i, insert i used, r, False) else None)"
| "ui_receive (UiTextDelta i _ _) (t, used, r, False) = (if t = Some i then Some (t, used, r, False) else None)"
| "ui_receive (UiTextEnd i _) (t, used, r, False) = (if t = Some i then Some (None, used, r, False) else None)"
| "ui_receive (UiReasoningStart i _) (t, used, r, False) =
     (if i \<notin> r then Some (t, used, insert i r, False) else None)"
| "ui_receive (UiReasoningDelta i _ _) (t, used, r, False) = (if i \<in> r then Some (t, used, r, False) else None)"
| "ui_receive (UiReasoningEnd i _) (t, used, r, False) = (if i \<in> r then Some (t, used, r - {i}, False) else None)"
| "ui_receive (UiFinish _ _) (t, used, r, False) = (if t = None \<and> r = {} then Some (t, used, r, True) else None)"
| "ui_receive (UiError _) (t, used, r, False) = Some (t, used, r, True)"
| "ui_receive e (t, used, r, False) = Some (t, used, r, False)"

section \<open>Properties\<close>

text \<open>
  Read off the events alone: whether text or reasoning has been emitted and nothing has closed it since
  (a tool call closes text, the end of a step or of the run both, an error neither), and whether the run
  is over, when events are ignored. A run starts cleanly when nothing of that kind is left.
\<close>

fun block_flags :: "agent_event \<Rightarrow> bool \<times> bool \<times> bool \<Rightarrow> bool \<times> bool \<times> bool" where
  "block_flags e (t, r, over) =
     (if over \<and> \<not> event_is_run_start e then (t, r, over)
      else case e of
        EvTextDelta _ \<Rightarrow> (True, r, False)
      | EvReasoningDelta _ \<Rightarrow> (t, True, False)
      | EvToolCallStart _ _ \<Rightarrow> (False, r, False)
      | EvStepEnd \<Rightarrow> (False, False, False)
      | EvRunFinish _ _ _ _ _ \<Rightarrow> (False, False, True)
      | EvError _ _ \<Rightarrow> (t, r, True)
      | _ \<Rightarrow> (t, r, False))"

fun runs_start_clean :: "bool \<times> bool \<times> bool \<Rightarrow> agent_event list \<Rightarrow> bool" where
  "runs_start_clean flags [] \<longleftrightarrow> True"
| "runs_start_clean flags (e # es) \<longleftrightarrow>
     (event_is_run_start e \<longrightarrow> \<not> fst flags \<and> \<not> fst (snd flags)) \<and> runs_start_clean (block_flags e flags) es"

definition text_ids :: "nat \<Rightarrow> string set" where
  "text_ids n = (\<lambda>k. ''txt_'' @ show_nat k) ` {..<n}"

definition ui_receiver_of :: "ai_sdk_encoder \<Rightarrow> ui_receiver" where
  "ui_receiver_of s =
     (if ui_text_open s then Some (ui_text_id s) else None,
      text_ids (unat (ui_text_counter s) + (if ui_text_open s then 1 else 0)),
      ui_open_reasoning s, ui_finished s)"

lemma text_ids_Suc [simp]: "text_ids (Suc n) = insert (''txt_'' @ show_nat n) (text_ids n)"
  by (simp add: text_ids_def lessThan_Suc)

lemma fresh_text_id [simp]: "''txt_'' @ show_nat n \<notin> text_ids n"
  by (auto simp: text_ids_def)

interpretation ai_sdk: guarded_encoder ai_sdk_on_agent_event ui_finished
proof
  show "ai_sdk_on_agent_event c e s = ([], s)" if "ui_finished s" "\<not> event_is_run_start e" for c e s
    using that by (simp add: ai_sdk_on_agent_event_def)
  show "ui_finished (snd (ai_sdk_on_agent_event c e s)) = event_is_terminal e"
    if "\<not> ui_finished s \<or> event_is_run_start e" for c e s
    using that
    by (cases e) (auto simp: ai_sdk_on_agent_event_def ui_on_run_finish_def ui_close_blocks_def
      ui_close_open_text_def ui_close_text_def ui_close_all_reasoning_def ui_open_text_def
      ui_start_reasoning_if_needed_def Let_def split: prod.splits if_splits)
qed

lemma receive_reasoning_ends:
  "set ids \<subseteq> r \<Longrightarrow> distinct ids \<Longrightarrow>
   receive_all ui_receive (map ui_reasoning_end ids) (t, used, r, False) = Some (t, used, r - set ids, False)"
proof (induction ids arbitrary: r)
  case (Cons i ids)
  then have "receive_all ui_receive (map ui_reasoning_end ids) (t, used, r - {i}, False) =
      Some (t, used, r - {i} - set ids, False)" by (intro Cons.IH) auto
  moreover have "r - set (i # ids) = r - {i} - set ids" by auto
  moreover have "ui_receive (ui_reasoning_end i) (t, used, r, False) = Some (t, used, r - {i}, False)"
    using Cons.prems by (simp add: ui_reasoning_end_def)
  ultimately show ?case by simp
qed simp

text \<open>The text counter does not wrap around in the runs considered.\<close>

lemma unat_add_one: "w \<noteq> - 1 \<Longrightarrow> unat (w + 1) = Suc (unat w)"
  for w :: "'w::len word"
  using unatSuc [of w] by (simp add: add.commute eq_neg_iff_add_eq_0)

lemma close_open_text_received:
  assumes "ui_close_open_text s = (out, s')" "\<not> ui_finished s" "ui_text_counter s \<noteq> - 1"
  shows "receive_all ui_receive out (ui_receiver_of s) = Some (ui_receiver_of s') \<and> \<not> ui_text_open s' \<and>
    ui_open_reasoning s' = ui_open_reasoning s \<and> \<not> ui_finished s' \<and>
    unat (ui_text_counter s') \<le> unat (ui_text_counter s) + 1"
proof -
  have "unat (ui_text_counter s + 1) = Suc (unat (ui_text_counter s))"
    by (rule unat_add_one [OF assms(3)])
  with assms(1,2) show ?thesis
    by (auto simp: ui_close_open_text_def ui_close_text_def ui_receiver_of_def ui_text_end_def ui_text_id_def
        split: if_splits)
qed

definition encoder_flags :: "ai_sdk_encoder \<Rightarrow> bool \<times> bool \<times> bool" where
  "encoder_flags s = (ui_text_open s, ui_open_reasoning s \<noteq> {}, ui_finished s)"

lemma encoder_follows_flags:
  "ai_sdk_on_agent_event c e s = (out, s') \<Longrightarrow> encoder_flags s' = block_flags e (encoder_flags s)"
  by (cases e) (auto simp: encoder_flags_def ai_sdk_on_agent_event_def ui_on_run_finish_def ui_close_blocks_def
      ui_close_open_text_def ui_close_text_def ui_close_all_reasoning_def ui_open_text_def
      ui_start_reasoning_if_needed_def Let_def split: prod.splits if_splits)

definition ui_ok :: "ai_sdk_encoder \<Rightarrow> ai_sdk_encoder \<Rightarrow> bool" where
  "ui_ok s s' \<longleftrightarrow> finite (ui_open_reasoning s') \<and> unat (ui_text_counter s') \<le> unat (ui_text_counter s) + 1"

lemma close_blocks_received:
  assumes "ui_close_blocks s = (out, s')" "\<not> ui_finished s" "ui_text_counter s \<noteq> - 1" "finite (ui_open_reasoning s)"
  shows "receive_all ui_receive out (ui_receiver_of s) = Some (ui_receiver_of s') \<and> \<not> ui_text_open s' \<and>
    ui_open_reasoning s' = {} \<and> \<not> ui_finished s' \<and> ui_ok s s'"
proof -
  obtain t s1 where closing: "ui_close_open_text s = (t, s1)" by fastforce
  note closed = close_open_text_received [OF closing assms(2,3)]
  let ?ids = "sorted_list_of_set (ui_open_reasoning s1)"
  have s': "out = t @ map ui_reasoning_end ?ids" "s' = s1\<lparr>ui_open_reasoning := {}\<rparr>"
    using assms(1) closing by (auto simp: ui_close_blocks_def ui_close_all_reasoning_def)
  have "receive_all ui_receive (map ui_reasoning_end ?ids) (ui_receiver_of s1) = Some (ui_receiver_of s')"
    using closed assms(4) receive_reasoning_ends [of ?ids "ui_open_reasoning s1"]
    by (simp add: ui_receiver_of_def s'(2) ui_text_id_def)
  with closed s' show ?thesis by (simp add: receive_all_append ui_ok_def)
qed

lemma activity_events_received:
  "receive_all ui_receive (ui_activity_events mid kind content) (t, used, r, False) = Some (t, used, r, False)"
  by (auto simp: ui_activity_events_def ui_event_defs split: option.splits)

lemma ui_tool_call_done_received:
  "receive_all ui_receive (ui_on_tool_call_done tcid result) (t, used, r, False) = Some (t, used, r, False)"
  by (auto simp: ui_on_tool_call_done_def ui_event_defs split: tool_status.splits option.splits)

lemma ui_receiver_cong [simp]:
  "ui_receiver_of (s\<lparr>ui_message_id := x\<rparr>) = ui_receiver_of s"
  "ui_receiver_of (s\<lparr>ui_message_id_set := y\<rparr>) = ui_receiver_of s"
  "ui_receiver_of (s\<lparr>ui_stream_accumulators := z\<rparr>) = ui_receiver_of s"
  by (simp_all add: ui_receiver_of_def ui_text_id_def)

lemma ui_run_finish_received:
  assumes "ui_on_run_finish reason s = (out, s')" "\<not> ui_finished s" "ui_text_counter s \<noteq> - 1"
    "finite (ui_open_reasoning s)"
  shows "receive_all ui_receive out (ui_receiver_of s) = Some (ui_receiver_of s') \<and> ui_ok s s'"
proof -
  obtain closing s1 where close: "ui_close_blocks s = (closing, s1)" by fastforce
  note closed = close_blocks_received [OF close assms(2-4)]
  have "ui_close_blocks (s\<lparr>ui_finished := True\<rparr>) = (closing, s1\<lparr>ui_finished := True\<rparr>)"
    using close by (auto simp: ui_close_blocks_def ui_close_open_text_def ui_close_text_def
      ui_close_all_reasoning_def ui_text_id_def split: if_splits)
  with assms(1) have out: "out = closing @ (if reason = RunSuspended then [UiFinishStep] else []) @
      [ui_finish_with_reason (finish_reason reason)]" "s' = s1\<lparr>ui_finished := True\<rparr>"
    by (simp_all add: ui_on_run_finish_def)
  show ?thesis
    using closed by (auto simp: out receive_all_append ui_receiver_of_def ui_finish_with_reason_def ui_ok_def)
qed

lemma ui_process_received:
  assumes "ui_process e s = (out, s')" "\<not> ui_finished s" "ui_text_counter s \<noteq> - 1" "finite (ui_open_reasoning s)"
    and "event_is_run_start e \<Longrightarrow> \<not> ui_text_open s \<and> ui_open_reasoning s = {}"
  shows "receive_all ui_receive out (ui_receiver_of s) = Some (ui_receiver_of s') \<and> ui_ok s s'"
proof (cases e)
  case (EvToolCallStart tcid name)
  with assms show ?thesis
    using close_open_text_received [OF _ assms(2,3)]
    by (auto simp: receive_all_append ui_receiver_of_def ui_event_defs ui_ok_def split: prod.splits)
next
  case EvStepEnd
  with assms show ?thesis
    using close_blocks_received [OF _ assms(2-4)]
    by (auto simp: receive_all_append ui_receiver_of_def split: prod.splits)
next
  case (EvRunFinish tid rid i result reason)
  with assms ui_run_finish_received show ?thesis by simp
next
  case (EvActivitySnapshot mid kind content replace)
  with assms show ?thesis
    by (auto simp: receive_all_append ui_receiver_of_def activity_events_received ui_event_defs ui_ok_def)
next
  case (EvToolCallDone tcid mid result oc)
  with assms show ?thesis by (auto simp: ui_receiver_of_def ui_tool_call_done_received ui_ok_def ui_text_id_def)
next
  case (EvReasoningDelta delta)
  with assms show ?thesis
    by (auto simp: ui_start_reasoning_if_needed_def Let_def ui_receiver_of_def ui_event_defs ui_ok_def ui_text_id_def
        split: if_splits)
next
  case (EvTextDelta delta)
  with assms fresh_text_id [of "unat (ui_text_counter s)"] show ?thesis
    by (auto simp: ui_open_text_def ui_receiver_of_def ui_event_defs ui_ok_def ui_text_id_def split: if_splits)
qed (use assms in \<open>auto simp: ui_receiver_of_def ui_event_defs ui_ok_def ui_text_id_def Let_def
  split: if_splits resumed_outcome.splits\<close>)

lemma ui_step_received:
  assumes "ai_sdk_on_agent_event c e s = (out, s')" "ui_text_counter s \<noteq> - 1" "finite (ui_open_reasoning s)"
    and "event_is_run_start e \<Longrightarrow> \<not> ui_text_open s \<and> ui_open_reasoning s = {}"
  shows "receive_all ui_receive out (ui_receiver_of s) = Some (ui_receiver_of s') \<and> ui_ok s s'"
proof (cases "ui_finished s")
  case False
  then have "s\<lparr>ui_finished := False\<rparr> = s" by simp
  with assms False ui_process_received [of e s] show ?thesis by (simp add: ai_sdk_on_agent_event_def)
next
  case True
  show ?thesis
  proof (cases "event_is_run_start e")
    case True
    with assms \<open>ui_finished s\<close> show ?thesis
      by (cases e) (auto simp: ai_sdk_on_agent_event_def ui_event_defs ui_receiver_of_def ui_ok_def ui_text_id_def)
  qed (use assms True in \<open>auto simp: ai_sdk_on_agent_event_def ui_ok_def\<close>)
qed

lemma ui_run_received:
  assumes "finite (ui_open_reasoning s)" "unat (ui_text_counter s) + length evs < 2 ^ 32"
    and "runs_start_clean (encoder_flags s) (map snd evs)"
  shows "receive_all ui_receive (fst (encode_run ai_sdk_on_agent_event evs s)) (ui_receiver_of s) =
    Some (ui_receiver_of (snd (encode_run ai_sdk_on_agent_event evs s)))"
  using assms
proof (induction evs arbitrary: s)
  case (Cons ce evs)
  obtain c e where ce: "ce = (c, e)" by (cases ce)
  obtain out s1 where step: "ai_sdk_on_agent_event c e s = (out, s1)" by fastforce
  have "unat (ui_text_counter s) < 2 ^ 32 - 1" using Cons.prems(2) by simp
  then have "ui_text_counter s \<noteq> - 1"
    by (auto simp: unsigned_minus_1_eq_mask mask_eq_exp_minus_1)
  moreover have "event_is_run_start e \<Longrightarrow> \<not> ui_text_open s \<and> ui_open_reasoning s = {}"
    using Cons.prems(3) by (simp add: ce encoder_flags_def)
  ultimately have received: "receive_all ui_receive out (ui_receiver_of s) = Some (ui_receiver_of s1) \<and> ui_ok s s1"
    using ui_step_received [OF step _ Cons.prems(1)] by blast
  then have "unat (ui_text_counter s1) + length evs < 2 ^ 32" "finite (ui_open_reasoning s1)"
    using Cons.prems(2) by (auto simp: ui_ok_def)
  moreover have "runs_start_clean (encoder_flags s1) (map snd evs)"
    using Cons.prems(3) encoder_follows_flags [OF step] by (simp add: ce)
  moreover have "encode_run ai_sdk_on_agent_event (ce # evs) s =
      (out @ fst (encode_run ai_sdk_on_agent_event evs s1), snd (encode_run ai_sdk_on_agent_event evs s1))"
    unfolding ce encode_run.simps step Let_def by (simp add: split_beta)
  ultimately show ?case using Cons.IH [of s1] received by (simp add: receive_all_append)
qed simp

text \<open>The text that a receiver gets, and the text of the events that are not ignored.\<close>

fun ui_delta :: "ui_event \<Rightarrow> string" where
  "ui_delta (UiTextDelta _ delta _) = delta"
| "ui_delta _ = []"

definition received_text :: "ui_event list \<Rightarrow> string" where
  "received_text out = concat (map ui_delta out)"

fun event_text :: "agent_event \<Rightarrow> string" where
  "event_text (EvTextDelta delta) = delta"
| "event_text _ = []"

fun emitted_text :: "bool \<Rightarrow> agent_event list \<Rightarrow> string" where
  "emitted_text over [] = []"
| "emitted_text over (e # es) =
     (if over \<and> \<not> event_is_run_start e then emitted_text True es
      else event_text e @ emitted_text (event_is_terminal e) es)"

lemma received_text_append [simp]:
  "received_text (xs @ ys) = received_text xs @ received_text ys" "received_text [] = []"
  "received_text (e # es) = ui_delta e @ received_text es"
  by (simp_all add: received_text_def)

lemma no_text_in:
  "received_text (fst (ui_close_open_text s)) = []" "received_text (fst (ui_close_blocks s)) = []"
  "received_text (fst (ui_on_run_finish reason s)) = []"
  "received_text (fst (ui_start_reasoning_if_needed i s)) = []"
  "received_text (ui_activity_events mid kind content) = []" "received_text (ui_on_tool_call_done tcid result) = []"
proof -
  have ends: "received_text (map ui_reasoning_end ids) = []" for ids
    by (induction ids) (simp_all add: ui_reasoning_end_def)
  show close: "received_text (fst (ui_close_open_text s)) = []" for s
    by (auto simp: ui_close_open_text_def ui_close_text_def ui_text_end_def)
  show blocks: "received_text (fst (ui_close_blocks s)) = []" for s
    using close [of s] by (auto simp: ui_close_blocks_def ui_close_all_reasoning_def ends split: prod.split)
  show "received_text (fst (ui_on_run_finish reason s)) = []"
    using blocks [of "s\<lparr>ui_finished := True\<rparr>"]
    by (auto simp: ui_on_run_finish_def ui_finish_with_reason_def split: prod.split)
qed (auto simp: ui_start_reasoning_if_needed_def ui_activity_events_def ui_on_tool_call_done_def ui_event_defs
    split: option.split tool_status.split)

lemma ui_process_text: "received_text (fst (ui_process e s)) = event_text e"
proof (cases e)
  case (EvToolCallStart tcid name)
  with no_text_in(1) [of s] show ?thesis by (auto simp: ui_tool_input_start_def split: prod.split)
next
  case EvStepEnd
  with no_text_in(2) [of s] show ?thesis by (auto split: prod.split)
next
  case (EvReasoningDelta delta)
  with no_text_in(4) [of "reasoning_id_for (ui_message_id s) None" s] show ?thesis
    by (auto simp: Let_def ui_reasoning_delta_def split: prod.split)
qed (auto simp: ui_event_defs ui_open_text_def Let_def no_text_in(3,5,6) split: resumed_outcome.split)

lemma ui_run_text:
  "received_text (fst (encode_run ai_sdk_on_agent_event evs s)) = emitted_text (ui_finished s) (map snd evs)"
proof (induction evs arbitrary: s)
  case (Cons ce evs)
  obtain c e where ce: "ce = (c, e)" by (cases ce)
  obtain out s1 where step: "ai_sdk_on_agent_event c e s = (out, s1)" by fastforce
  have "received_text out = (if ui_finished s \<and> \<not> event_is_run_start e then [] else event_text e)"
    using step ui_process_text [of e "s\<lparr>ui_finished := False\<rparr>"]
    by (auto simp: ai_sdk_on_agent_event_def split: if_splits)
  moreover have "ui_finished s1 = (if ui_finished s \<and> \<not> event_is_run_start e then True else event_is_terminal e)"
    using step ai_sdk.finish_law [of s e c] by (auto simp: ai_sdk_on_agent_event_def split: if_splits)
  moreover have "encode_run ai_sdk_on_agent_event (ce # evs) s =
      (out @ fst (encode_run ai_sdk_on_agent_event evs s1), snd (encode_run ai_sdk_on_agent_event evs s1))"
    unfolding ce encode_run.simps step Let_def by (simp add: split_beta)
  ultimately show ?case using Cons.IH [of s1] by (simp add: ce)
qed simp

text \<open>
  C24: The AI SDK stream is well formed. Whatever fewer than 2^32 events the agent emits, provided that
  no run starts while text or reasoning emitted before is not closed yet (by the end of a step or a run, or
  text by a tool call; an error does not close it), the receiver accepts the encoded stream: text blocks
  have fresh ids and are opened, continued and closed under their id, reasoning deltas and ends name an open
  reasoning block, no block is left open when the stream finishes or another message starts, and nothing but
  a new message follows a finish or an error. The deltas it receives make up the text that the agent emitted,
  apart from what comes after the end of a run and before the next start. Without the proviso it is false, as \<open>error_leaks_text_block\<close>
  shows.
\<close>
theorem ai_sdk_stream_well_formed:
  assumes "length evs < 2 ^ 32" "encode_run ai_sdk_on_agent_event evs ai_sdk_new = (out, s)"
    and "runs_start_clean (False, False, False) (map snd evs)"
  shows "receive_all ui_receive out (None, {}, {}, False) =
    Some (if ui_text_open s then Some (ui_text_id s) else None,
      text_ids (unat (ui_text_counter s) + (if ui_text_open s then 1 else 0)), ui_open_reasoning s, ui_finished s) \<and>
    received_text out = emitted_text False (map snd evs)"
proof -
  have start: "ui_receiver_of ai_sdk_new = (None, {}, {}, False)"
    by (simp add: ui_receiver_of_def ai_sdk_new_def text_ids_def)
  have "finite (ui_open_reasoning ai_sdk_new)" "unat (ui_text_counter ai_sdk_new) + length evs < 2 ^ 32"
    using assms(1) by (simp_all add: ai_sdk_new_def)
  from ui_run_received [OF this] ui_run_text [of evs ai_sdk_new] assms(2,3) show ?thesis unfolding start
    by (simp add: ui_receiver_of_def encoder_flags_def ai_sdk_new_def)
qed

theorem ai_sdk_stream_well_formed_witness:
  "receive_all ui_receive (fst (encode_run ai_sdk_on_agent_event
     [((), EvRunStart ''t'' ''r'' None None), ((), EvTextDelta ''hi''), ((), EvToolCallStart ''c'' ''n''), ((), EvStepEnd),
      ((), EvRunFinish ''t'' ''r'' None None NaturalEnd), ((), EvTextDelta ''late'')] ai_sdk_new)) (None, {}, {}, False) \<noteq> None"
  using ai_sdk_stream_well_formed [OF _ prod.collapse [symmetric], of
      "[((), EvRunStart ''t'' ''r'' None None), ((), EvTextDelta ''hi''), ((), EvToolCallStart ''c'' ''n''), ((), EvStepEnd),
      ((), EvRunFinish ''t'' ''r'' None None NaturalEnd), ((), EvTextDelta ''late'')]"]
  by simp

text \<open>
  Encoders fall silent. For both protocols: when a terminal event (the end of the run or an error) has been
  encoded, the events up to the next start of a run change neither the output nor the encoder.
\<close>
theorem encoders_fall_silent:
  assumes "event_is_terminal e" "\<forall>(c, f) \<in> set fs. \<not> event_is_run_start f" "\<forall>(c, f) \<in> set gs. \<not> event_is_run_start f"
  shows "encode_run (agui_on_agent_event to_text) (es @ (ord, e) # fs) a =
      encode_run (agui_on_agent_event to_text) (es @ [(ord, e)]) a \<and>
    encode_run ai_sdk_on_agent_event (ds @ (u, e) # gs) b = encode_run ai_sdk_on_agent_event (ds @ [(u, e)]) b"
  using agui.nothing_after_terminal [OF assms(1,2)] ai_sdk.nothing_after_terminal [OF assms(1,3)] by blast

theorem encoders_fall_silent_witness:
  "fst (encode_run ai_sdk_on_agent_event [((), EvError ''x'' None), ((), EvTextDelta ''late'')] ai_sdk_new) = [ui_error ''x'']"
  using encoders_fall_silent [of "EvError ''x'' None" "[]" "[((), EvTextDelta ''late'')]" "\<lambda>v. []" "[]" "[]" agui_new
      "[]" "()" ai_sdk_new]
  by (simp add: ai_sdk_on_agent_event_def ai_sdk_new_def)

text \<open>
  A block left open by an error outlives it in the encoder: after the next start of a run the first
  delta continues the old block instead of opening one, which a receiver does not accept.
\<close>

lemma error_leaks_text_block:
  "encode_run ai_sdk_on_agent_event
     [((), EvTextDelta ''a''), ((), EvError ''x'' None), ((), EvRunStart ''t'' ''r'' None None), ((), EvTextDelta ''b'')] ai_sdk_new =
     (out, s) \<Longrightarrow>
   out = [ui_text_start ''txt_0'', ui_text_delta ''txt_0'' ''a'', ui_error ''x'', ui_message_start ''r'',
     ui_data ''run-info'' (JObject [(''runId'', JString ''r''), (''threadId'', JString ''t'')]),
     ui_text_delta ''txt_0'' ''b''] \<and>
   receive_all ui_receive out (None, {}, {}, False) = None"
proof -
  have "fst (encode_run ai_sdk_on_agent_event
     [((), EvTextDelta ''a''), ((), EvError ''x'' None), ((), EvRunStart ''t'' ''r'' None None), ((), EvTextDelta ''b'')] ai_sdk_new) =
   [ui_text_start ''txt_0'', ui_text_delta ''txt_0'' ''a'', ui_error ''x'', ui_message_start ''r'',
    ui_data ''run-info'' (JObject [(''runId'', JString ''r''), (''threadId'', JString ''t'')]),
    ui_text_delta ''txt_0'' ''b'']"
    by code_simp
  then show "encode_run ai_sdk_on_agent_event
     [((), EvTextDelta ''a''), ((), EvError ''x'' None), ((), EvRunStart ''t'' ''r'' None None), ((), EvTextDelta ''b'')] ai_sdk_new =
     (out, s) \<Longrightarrow> ?thesis"
    by (simp add: ui_event_defs)
qed

end
