(* ===== verification/Event_Store.thy ===== *)
theory Event_Store
imports Tool_Pattern Ordered_Map
begin

text \<open>
  The canonical event log: drafts, options and their validation
  (\<^verbatim>\<open>remo-runtime-contract/src/contract/event_store.rs\<close>), persisted events
  (\<^verbatim>\<open>remo-server-contract/src/contract/event_store.rs\<close>) and the in-memory store
  (\<^verbatim>\<open>remo-stores/src/memory_event_store.rs\<close>).

  Ids, cursors and kinds are their strings. The JSON writer of the basis of an idempotency digest and the
  derived \<^verbatim>\<open>Debug\<close> rendering of scopes and ids, which only occurs in messages, are parameters; the
  clock reading is an argument. The maps of the store that are never iterated are plain maps. The
  broadcast channel is the list of the events sent.
\<close>

section \<open>Drafts\<close>

datatype event_store_error =
    EvValidation string
  | EvIdempotencyConflict string
  | EvExpectedCursorConflict string
  | EvCursorExpired string
  | EvIntegrity string
  | EvIo string
  | EvSerialization string

datatype event_scope = ThreadEvents string | RunEvents string

datatype event_scope_family = ThreadFamily | RunFamily

fun scope_family :: "event_scope \<Rightarrow> event_scope_family" where
  "scope_family (ThreadEvents _) = ThreadFamily"
| "scope_family (RunEvents _) = RunFamily"

text \<open>The derived order: threads before runs.\<close>

instantiation event_scope :: linorder
begin

fun less_eq_event_scope :: "event_scope \<Rightarrow> event_scope \<Rightarrow> bool" where
  "ThreadEvents a \<le> ThreadEvents b \<longleftrightarrow> a \<le> b"
| "ThreadEvents a \<le> RunEvents b \<longleftrightarrow> True"
| "RunEvents a \<le> ThreadEvents b \<longleftrightarrow> False"
| "RunEvents a \<le> RunEvents b \<longleftrightarrow> a \<le> b"

definition less_event_scope :: "event_scope \<Rightarrow> event_scope \<Rightarrow> bool" where
  "(a :: event_scope) < b \<longleftrightarrow> a \<le> b \<and> \<not> b \<le> a"

instance
proof
  fix a b c :: event_scope
  show "a < b \<longleftrightarrow> a \<le> b \<and> \<not> b \<le> a" by (rule less_event_scope_def)
  show "a \<le> a" by (cases a) auto
  show "a \<le> b \<Longrightarrow> b \<le> c \<Longrightarrow> a \<le> c" by (cases a; cases b; cases c) auto
  show "a \<le> b \<Longrightarrow> b \<le> a \<Longrightarrow> a = b" by (cases a; cases b) auto
  show "a \<le> b \<or> b \<le> a" by (cases a; cases b) auto
qed

end

record event_scope_ids =
  es_thread_id :: "string option"
  es_run_id :: "string option"

datatype event_visibility = EvPublic | EvInternal | EvAudit | EvSensitive

record event_draft =
  ed_scopes :: "event_scope list"
  ed_kind :: string
  ed_payload :: json
  ed_causation_id :: "string option"
  ed_correlation_id :: "string option"
  ed_origin :: string
  ed_visibility :: event_visibility
  ed_schema_version :: u32

record append_options =
  ao_writer_id :: "string option"
  ao_idempotency_key :: "string option"
  ao_expected_prior_cursors :: "(event_scope, string) btree"

text \<open>What two drafts must agree on to be the same input.\<close>

record event_basis =
  eb_scopes :: "event_scope list"
  eb_kind :: string
  eb_payload :: json
  eb_visibility :: event_visibility
  eb_causation_id :: "string option"
  eb_correlation_id :: "string option"

record event_env =
  basis_bytes :: "event_basis \<Rightarrow> string + string"
  debug_scope :: "event_scope \<Rightarrow> string"
  debug_family :: "event_scope_family \<Rightarrow> string"
  debug_event_id :: "string \<Rightarrow> string"

definition digest_basis :: "event_draft \<Rightarrow> event_basis" where
  "digest_basis d = \<lparr>eb_scopes = ed_scopes d, eb_kind = ed_kind d, eb_payload = ed_payload d,
     eb_visibility = ed_visibility d, eb_causation_id = ed_causation_id d, eb_correlation_id = ed_correlation_id d\<rparr>"

definition idempotency_digest :: "event_env \<Rightarrow> event_draft \<Rightarrow> event_store_error + string" where
  "idempotency_digest env d = (case basis_bytes env (digest_basis d) of
      Inl err \<Rightarrow> Inl (EvSerialization err) | Inr bytes \<Rightarrow> Inr bytes)"

definition event_reject_blank :: "string \<Rightarrow> string \<Rightarrow> event_store_error + unit" where
  "event_reject_blank field v =
     (if is_blank v then Inl (EvValidation (field @ '' is required'')) else Inr ())"

definition event_id_new :: "string \<Rightarrow> event_store_error + string" where
  "event_id_new v = (case event_reject_blank ''event_id'' v of Inl e \<Rightarrow> Inl e | Inr _ \<Rightarrow> Inr v)"

definition event_cursor_new :: "string \<Rightarrow> event_store_error + string" where
  "event_cursor_new v = (case event_reject_blank ''cursor'' v of Inl e \<Rightarrow> Inl e | Inr _ \<Rightarrow> Inr v)"

definition event_kind_new :: "string \<Rightarrow> event_store_error + string" where
  "event_kind_new v = (case event_reject_blank ''event_kind'' v of Inl e \<Rightarrow> Inl e | Inr _ \<Rightarrow> Inr v)"

fun validate_scope :: "event_scope \<Rightarrow> event_store_error + unit" where
  "validate_scope (ThreadEvents tid) = event_reject_blank ''thread_id'' tid"
| "validate_scope (RunEvents rid) = event_reject_blank ''run_id'' rid"

definition set_optional_id :: "string option \<Rightarrow> string \<Rightarrow> string \<Rightarrow> event_store_error + string option" where
  "set_optional_id slot v err = (case slot of
      Some existing \<Rightarrow> if existing \<noteq> v then Inl (EvValidation err) else Inr slot
    | None \<Rightarrow> Inr (Some v))"

fun derive_scope_ids_from :: "event_scope_ids \<Rightarrow> event_scope list \<Rightarrow> event_store_error + event_scope_ids" where
  "derive_scope_ids_from ids [] = Inr ids"
| "derive_scope_ids_from ids (ThreadEvents tid # scopes) =
     (case set_optional_id (es_thread_id ids) tid ''thread_id contradicts scope membership'' of
        Inl e \<Rightarrow> Inl e
      | Inr v \<Rightarrow> derive_scope_ids_from (ids\<lparr>es_thread_id := v\<rparr>) scopes)"
| "derive_scope_ids_from ids (RunEvents rid # scopes) =
     (case set_optional_id (es_run_id ids) rid ''run_id contradicts scope membership'' of
        Inl e \<Rightarrow> Inl e
      | Inr v \<Rightarrow> derive_scope_ids_from (ids\<lparr>es_run_id := v\<rparr>) scopes)"

definition derive_scope_ids :: "event_scope list \<Rightarrow> event_store_error + event_scope_ids" where
  "derive_scope_ids scopes = derive_scope_ids_from \<lparr>es_thread_id = None, es_run_id = None\<rparr> scopes"

fun validate_scopes_from :: "event_env \<Rightarrow> event_scope set \<Rightarrow> event_scope_family set \<Rightarrow> event_scope list \<Rightarrow>
    event_store_error + unit" where
  "validate_scopes_from env seen families [] = Inr ()"
| "validate_scopes_from env seen families (scope # scopes) =
     (case validate_scope scope of Inl e \<Rightarrow> Inl e | Inr _ \<Rightarrow>
      if scope \<in> seen then Inl (EvValidation (''duplicate event scope: '' @ debug_scope env scope))
      else if scope_family scope \<in> families
      then Inl (EvValidation (''duplicate event scope family: '' @ debug_family env (scope_family scope)))
      else validate_scopes_from env (insert scope seen) (insert (scope_family scope) families) scopes)"

definition validate_scope_set :: "event_env \<Rightarrow> event_scope list \<Rightarrow> event_store_error + unit" where
  "validate_scope_set env scopes =
     (if scopes = [] then Inl (EvValidation ''at least one event scope is required'')
      else case validate_scopes_from env {} {} scopes of Inl e \<Rightarrow> Inl e | Inr _ \<Rightarrow>
        (case derive_scope_ids scopes of Inl e \<Rightarrow> Inl e | Inr _ \<Rightarrow> Inr ()))"

definition event_draft_validate :: "event_env \<Rightarrow> event_draft \<Rightarrow> event_store_error + unit" where
  "event_draft_validate env d =
     (case validate_scope_set env (ed_scopes d) of Inl e \<Rightarrow> Inl e | Inr _ \<Rightarrow>
      case event_reject_blank ''origin'' (ed_origin d) of Inl e \<Rightarrow> Inl e | Inr _ \<Rightarrow>
      if ed_schema_version d = 0 then Inl (EvValidation ''schema_version must be greater than 0'') else Inr ())"

definition event_draft_new :: "event_env \<Rightarrow> event_scope list \<Rightarrow> string \<Rightarrow> json \<Rightarrow> string \<Rightarrow>
    event_store_error + event_draft" where
  "event_draft_new env scopes kind payload origin =
     (let d = \<lparr>ed_scopes = scopes, ed_kind = kind, ed_payload = payload, ed_causation_id = None,
               ed_correlation_id = None, ed_origin = origin, ed_visibility = EvPublic, ed_schema_version = 1\<rparr>
      in case event_draft_validate env d of Inl e \<Rightarrow> Inl e | Inr _ \<Rightarrow> Inr d)"

definition append_options_validate :: "append_options \<Rightarrow> event_store_error + unit" where
  "append_options_validate opts = (case ao_idempotency_key opts of
      None \<Rightarrow> Inr ()
    | Some key \<Rightarrow>
        (case event_reject_blank ''writer_id'' (case ao_writer_id opts of None \<Rightarrow> [] | Some w \<Rightarrow> w) of
           Inl e \<Rightarrow> Inl e
         | Inr _ \<Rightarrow> event_reject_blank ''idempotency_key'' key))"

definition idempotency_identity :: "append_options \<Rightarrow> event_store_error + (string \<times> string) option" where
  "idempotency_identity opts = (case append_options_validate opts of
      Inl e \<Rightarrow> Inl e
    | Inr _ \<Rightarrow> Inr (case (ao_writer_id opts, ao_idempotency_key opts) of
        (Some w, Some key) \<Rightarrow> Some (w, key) | _ \<Rightarrow> None))"

section \<open>Persisted events\<close>

record canonical_event =
  ce_event_id :: string
  ce_scopes :: "event_scope list"
  ce_cursors_by_scope :: "(event_scope, string) btree"
  ce_kind :: string
  ce_payload :: json
  ce_thread_id :: "string option"
  ce_run_id :: "string option"
  ce_causation_id :: "string option"
  ce_correlation_id :: "string option"
  ce_origin :: string
  ce_visibility :: event_visibility
  ce_schema_version :: u32
  ce_created_at :: u64

record event_page =
  ep_events :: "canonical_event list"
  ep_next_cursor :: "string option"
  ep_has_more :: bool

definition validate_cursor_coverage :: "event_scope list \<Rightarrow> (event_scope, string) btree \<Rightarrow> event_store_error + unit" where
  "validate_cursor_coverage scopes cursors =
     (if set scopes \<noteq> fst ` set cursors
      then Inl (EvValidation ''cursors_by_scope must exactly match event scopes'') else Inr ())"

definition canonical_event_from_append :: "event_env \<Rightarrow> string \<Rightarrow> (event_scope, string) btree \<Rightarrow> u64 \<Rightarrow> event_draft \<Rightarrow>
    event_store_error + canonical_event" where
  "canonical_event_from_append env eid cursors created_at d =
     (case event_draft_validate env d of Inl e \<Rightarrow> Inl e | Inr _ \<Rightarrow>
      case validate_cursor_coverage (ed_scopes d) cursors of Inl e \<Rightarrow> Inl e | Inr _ \<Rightarrow>
      case derive_scope_ids (ed_scopes d) of Inl e \<Rightarrow> Inl e | Inr ids \<Rightarrow>
      Inr \<lparr>ce_event_id = eid, ce_scopes = ed_scopes d, ce_cursors_by_scope = cursors, ce_kind = ed_kind d,
           ce_payload = ed_payload d, ce_thread_id = es_thread_id ids, ce_run_id = es_run_id ids,
           ce_causation_id = ed_causation_id d, ce_correlation_id = ed_correlation_id d,
           ce_origin = ed_origin d, ce_visibility = ed_visibility d, ce_schema_version = ed_schema_version d,
           ce_created_at = created_at\<rparr>)"

section \<open>The in-memory store\<close>

record idempotency_record =
  ir_digest :: string
  ir_event_id :: string

record event_store =
  next_event_seq :: u64
  next_scope_seq :: "event_scope \<rightharpoonup> u64"
  events :: "string \<rightharpoonup> canonical_event"
  scope_indexes :: "event_scope \<rightharpoonup> string list"
  cursor_positions :: "event_scope \<times> string \<rightharpoonup> nat"
  idempotency :: "string \<times> string \<rightharpoonup> idempotency_record"
  broadcast :: "canonical_event list"

definition event_store_new :: event_store where
  "event_store_new = \<lparr>next_event_seq = 0, next_scope_seq = Map.empty, events = Map.empty,
     scope_indexes = Map.empty, cursor_positions = Map.empty, idempotency = Map.empty, broadcast = []\<rparr>"

definition scope_index :: "event_store \<Rightarrow> event_scope \<Rightarrow> string list" where
  "scope_index st scope = (case scope_indexes st scope of None \<Rightarrow> [] | Some ids \<Rightarrow> ids)"

definition last_cursor_locked :: "event_store \<Rightarrow> event_scope \<Rightarrow> string option" where
  "last_cursor_locked st scope =
     (case scope_index st scope of
        [] \<Rightarrow> None
      | ids \<Rightarrow> (case events st (last ids) of
          None \<Rightarrow> None
        | Some ev \<Rightarrow> map_of (ce_cursors_by_scope ev) scope))"

fun validate_expected_cursor_scopes :: "event_env \<Rightarrow> event_draft \<Rightarrow> (event_scope, string) btree \<Rightarrow>
    event_store_error + unit" where
  "validate_expected_cursor_scopes env d [] = Inr ()"
| "validate_expected_cursor_scopes env d ((scope, _) # expected) =
     (if scope \<notin> set (ed_scopes d)
      then Inl (EvValidation (''expected cursor scope is not in append scope set: '' @ debug_scope env scope))
      else validate_expected_cursor_scopes env d expected)"

fun validate_expected_prior_cursors :: "event_env \<Rightarrow> event_store \<Rightarrow> (event_scope, string) btree \<Rightarrow>
    event_store_error + unit" where
  "validate_expected_prior_cursors env st [] = Inr ()"
| "validate_expected_prior_cursors env st ((scope, expected) # rest) =
     (if last_cursor_locked st scope \<noteq> Some expected
      then Inl (EvExpectedCursorConflict (''expected prior cursor mismatch for scope '' @ debug_scope env scope))
      else validate_expected_prior_cursors env st rest)"

text \<open>The loop that draws a cursor for every scope of the draft.\<close>

fun assign_cursors :: "event_scope list \<Rightarrow> (event_scope, string) btree \<Rightarrow> event_store \<Rightarrow>
    (event_store_error + (event_scope, string) btree) \<times> event_store" where
  "assign_cursors [] cursors st = (Inr cursors, st)"
| "assign_cursors (scope # scopes) cursors st =
     (let seq = (case next_scope_seq st scope of None \<Rightarrow> 0 | Some n \<Rightarrow> n) + 1;
          st1 = st\<lparr>next_scope_seq := (next_scope_seq st)(scope \<mapsto> seq)\<rparr>
      in case event_cursor_new (''cur_mem_'' @ show_nat (unat seq)) of
           Inl e \<Rightarrow> (Inl e, st1)
         | Inr c \<Rightarrow> assign_cursors scopes (bt_insert scope c cursors) st1)"

text \<open>The loop that enters the event into the index of each of its scopes.\<close>

fun index_event :: "canonical_event \<Rightarrow> event_scope list \<Rightarrow> event_store \<Rightarrow>
    (event_store_error + unit) \<times> event_store" where
  "index_event ev [] st = (Inr (), st)"
| "index_event ev (scope # scopes) st = (case map_of (ce_cursors_by_scope ev) scope of
      None \<Rightarrow> (Inl (EvIntegrity ''persisted event missing scope cursor''), st)
    | Some cursor \<Rightarrow>
        let ids = scope_index st scope
        in index_event ev scopes (st\<lparr>scope_indexes := (scope_indexes st)(scope \<mapsto> ids @ [ce_event_id ev]),
             cursor_positions := (cursor_positions st)((scope, cursor) \<mapsto> length ids)\<rparr>))"

definition store_event :: "event_env \<Rightarrow> u64 \<Rightarrow> event_draft \<Rightarrow> (string \<times> string) option \<Rightarrow> string \<Rightarrow> event_store \<Rightarrow>
    (event_store_error + canonical_event) \<times> event_store" where
  "store_event env now d identity digest st0 =
     (let st1 = st0\<lparr>next_event_seq := next_event_seq st0 + 1\<rparr> in
      case event_id_new (''evt_mem_'' @ show_nat (unat (next_event_seq st1))) of
        Inl e \<Rightarrow> (Inl e, st1)
      | Inr eid \<Rightarrow>
      case assign_cursors (ed_scopes d) [] st1 of
        (Inl e, st2) \<Rightarrow> (Inl e, st2)
      | (Inr cursors, st2) \<Rightarrow>
      case canonical_event_from_append env eid cursors now d of
        Inl e \<Rightarrow> (Inl e, st2)
      | Inr ev \<Rightarrow>
      case index_event ev (ce_scopes ev) st2 of
        (Inl e, st3) \<Rightarrow> (Inl e, st3)
      | (Inr _, st3) \<Rightarrow>
          let st4 = (case identity of
                None \<Rightarrow> st3
              | Some i \<Rightarrow> st3\<lparr>idempotency := (idempotency st3)(i \<mapsto> \<lparr>ir_digest = digest, ir_event_id = eid\<rparr>)\<rparr>)
          in (Inr ev, st4\<lparr>events := (events st4)(eid \<mapsto> ev), broadcast := broadcast st4 @ [ev]\<rparr>))"

definition event_append :: "event_env \<Rightarrow> u64 \<Rightarrow> event_draft \<Rightarrow> append_options \<Rightarrow> event_store \<Rightarrow>
    (event_store_error + canonical_event) \<times> event_store" where
  "event_append env now d opts st =
     (case event_draft_validate env d of Inl e \<Rightarrow> (Inl e, st) | Inr _ \<Rightarrow>
      case append_options_validate opts of Inl e \<Rightarrow> (Inl e, st) | Inr _ \<Rightarrow>
      case validate_expected_cursor_scopes env d (ao_expected_prior_cursors opts) of Inl e \<Rightarrow> (Inl e, st) | Inr _ \<Rightarrow>
      case idempotency_digest env d of Inl e \<Rightarrow> (Inl e, st) | Inr digest \<Rightarrow>
      case idempotency_identity opts of Inl e \<Rightarrow> (Inl e, st) | Inr identity \<Rightarrow>
      case Option.bind identity (idempotency st) of
        Some rec \<Rightarrow>
          if ir_digest rec \<noteq> digest
          then (Inl (EvIdempotencyConflict (''idempotency identity reused with different input: writer_id='' @
                 fst (the identity) @ '', idempotency_key='' @ snd (the identity))), st)
          else (case events st (ir_event_id rec) of
              None \<Rightarrow> (Inl (EvIntegrity (''idempotent event missing: '' @ ir_event_id rec)), st)
            | Some ev \<Rightarrow> (Inr ev, st))
      | None \<Rightarrow>
          (case validate_expected_prior_cursors env st (ao_expected_prior_cursors opts) of
             Inl e \<Rightarrow> (Inl e, st)
           | Inr _ \<Rightarrow> store_event env now d identity digest st))"

fun load_events :: "event_env \<Rightarrow> event_store \<Rightarrow> string list \<Rightarrow> event_store_error + canonical_event list" where
  "load_events env st [] = Inr []"
| "load_events env st (eid # ids) = (case events st eid of
      None \<Rightarrow> Inl (EvIntegrity (''event index points at missing event: '' @ debug_event_id env eid))
    | Some ev \<Rightarrow> (case load_events env st ids of Inl e \<Rightarrow> Inl e | Inr evs \<Rightarrow> Inr (ev # evs)))"

text \<open>Positions and limits are far below \<^verbatim>\<open>usize::MAX\<close>, so the sums do not saturate.\<close>

definition list_locked :: "event_env \<Rightarrow> event_store \<Rightarrow> event_scope \<Rightarrow> string option \<Rightarrow> nat \<Rightarrow>
    event_store_error + event_page" where
  "list_locked env st scope from_cursor limit =
     (let ids = scope_index st scope in
      case (case from_cursor of
              Some cursor \<Rightarrow> (case cursor_positions st (scope, cursor) of
                  None \<Rightarrow> Inl (EvCursorExpired cursor)
                | Some position \<Rightarrow> Inr (position + 1))
            | None \<Rightarrow> Inr 0) of
        Inl e \<Rightarrow> Inl e
      | Inr start \<Rightarrow>
          let stop = min (start + limit) (length ids) in
          (case load_events env st (drop start (take stop ids)) of
             Inl e \<Rightarrow> Inl e
           | Inr evs \<Rightarrow>
               let has_more = stop < length ids in
               Inr \<lparr>ep_events = evs,
                    ep_next_cursor = (if has_more \<and> evs \<noteq> []
                      then map_of (ce_cursors_by_scope (last evs)) scope else None),
                    ep_has_more = has_more\<rparr>))"

definition event_list :: "event_env \<Rightarrow> event_scope \<Rightarrow> string option \<Rightarrow> nat \<Rightarrow> event_store \<Rightarrow>
    event_store_error + event_page" where
  "event_list env scope from_cursor limit st = list_locked env st scope from_cursor limit"

definition event_count :: "event_scope \<Rightarrow> event_store \<Rightarrow> u64" where
  "event_count scope st = (case scope_indexes st scope of None \<Rightarrow> 0 | Some ids \<Rightarrow> of_nat (length ids))"

definition load_event :: "string \<Rightarrow> event_store \<Rightarrow> event_store_error + canonical_event" where
  "load_event eid st = (case events st eid of
      None \<Rightarrow> Inl (EvIntegrity (''missing event: '' @ eid)) | Some ev \<Rightarrow> Inr ev)"

section \<open>Subscriptions\<close>

datatype subscribe_start = FromStart | FromCursor string | FromNow

record subscription =
  sb_scope :: event_scope
  sb_start_cursor :: "string option"
  sb_history :: "canonical_event list"
  sb_position :: nat

text \<open>\<^verbatim>\<open>tx.subscribe()\<close> receives what is sent from then on.\<close>

definition event_subscribe :: "event_env \<Rightarrow> event_scope \<Rightarrow> subscribe_start \<Rightarrow> event_store \<Rightarrow>
    event_store_error + subscription" where
  "event_subscribe env scope start st =
     (let position = length (broadcast st) in
      case start of
        FromStart \<Rightarrow> (case list_locked env st scope None (2 ^ 64 - 1) of
            Inl e \<Rightarrow> Inl e
          | Inr page \<Rightarrow> Inr \<lparr>sb_scope = scope, sb_start_cursor = None, sb_history = ep_events page, sb_position = position\<rparr>)
      | FromCursor cursor \<Rightarrow> (case list_locked env st scope (Some cursor) (2 ^ 64 - 1) of
            Inl e \<Rightarrow> Inl e
          | Inr page \<Rightarrow> Inr \<lparr>sb_scope = scope, sb_start_cursor = Some cursor, sb_history = ep_events page,
              sb_position = position\<rparr>)
      | FromNow \<Rightarrow> Inr \<lparr>sb_scope = scope, sb_start_cursor = last_cursor_locked st scope, sb_history = [],
              sb_position = position\<rparr>)"

text \<open>
  The channel of live events keeps a bounded number of them. \<^verbatim>\<open>rx.recv()\<close> is the channel's own
  (\<^verbatim>\<open>tokio::sync::broadcast\<close>) and an argument: for the position of a receiver and the events sent so far it
  gives nothing (the receiver waits), the number of events it has lost, or the next event, and the new
  position. The sender lives as long as the store, so the channel is never closed.
\<close>

definition event_broadcast_capacity :: nat where
  "event_broadcast_capacity = 1024"

type_synonym event_recv = "nat \<Rightarrow> canonical_event list \<Rightarrow> (nat + canonical_event) option \<times> nat"

text \<open>
  The loop of the live stream: events of other scopes are passed over, a loss is reported as an error. The
  fuel bounds the events passed over in one call; \<open>stream_next\<close> gives it one more than were ever sent.
\<close>

fun live_next :: "event_recv \<Rightarrow> event_scope \<Rightarrow> canonical_event list \<Rightarrow> nat \<Rightarrow> nat \<Rightarrow>
    (event_store_error + canonical_event) option \<times> nat" where
  "live_next recv scope sent 0 pos = (None, pos)"
| "live_next recv scope sent (Suc fuel) pos = (case recv pos sent of
      (None, pos') \<Rightarrow> (None, pos')
    | (Some (Inl skipped), pos') \<Rightarrow>
        (Some (Inl (EvIntegrity (''event subscriber lagged by '' @ show_nat skipped @ '' messages''))), pos')
    | (Some (Inr ev), pos') \<Rightarrow>
        if scope \<in> set (ce_scopes ev) then (Some (Inr ev), pos') else live_next recv scope sent fuel pos')"

text \<open>The next item of the stream: the history first, then the live events.\<close>

definition stream_next :: "event_recv \<Rightarrow> event_store \<Rightarrow> subscription \<Rightarrow>
    (event_store_error + canonical_event) option \<times> subscription" where
  "stream_next recv st sb = (case sb_history sb of
      ev # evs \<Rightarrow> (Some (Inr ev), sb\<lparr>sb_history := evs\<rparr>)
    | [] \<Rightarrow> (case live_next recv (sb_scope sb) (broadcast st) (Suc (length (broadcast st))) (sb_position sb) of
        (item, pos) \<Rightarrow> (item, sb\<lparr>sb_position := pos\<rparr>)))"

section \<open>Rollback\<close>

text \<open>
  The hooks of the commit coordinator. The channel is left as it is: what subscribers received of a
  commit that is rolled back they keep.
\<close>

definition event_snapshot_state :: "event_store \<Rightarrow> event_store" where
  "event_snapshot_state st = st"

definition event_restore_state :: "event_store \<Rightarrow> event_store \<Rightarrow> event_store" where
  "event_restore_state snapshot st = snapshot\<lparr>broadcast := broadcast st\<rparr>"

end
