(* ===== verification/Event_Store_Correct.thy ===== *)
theory Event_Store_Correct
imports Event_Store
begin

text \<open>
  The in-memory event store implements an append-only log: its state is determined by the list of
  the events appended so far, of which every scope sees its own part. Listing pages through that
  part, a cursor is a position in it, a subscription continues it, and appending twice under one
  idempotency identity appends once.
\<close>

section \<open>Generated ids are never blank\<close>

lemma find_SomeD: "find P xs = Some x \<Longrightarrow> x \<in> set xs \<and> P x"
  by (induction xs) (auto split: if_splits)

lemma trim_end_nonempty: "s \<noteq> [] \<Longrightarrow> hd s \<notin> hd ` set white_space \<Longrightarrow> trim_end s \<noteq> []"
proof (induction s rule: trim_end.induct)
  case (1 s)
  show ?case
  proof (cases "find (ends_with s) white_space")
    case None
    with 1 show ?thesis by (simp add: trim_end.simps [of s])
  next
    case (Some w)
    note w = find_SomeD [OF Some, THEN conjunct1] find_SomeD [OF Some, THEN conjunct2]
    note w = w white_space_nonempty [OF w(1)]
    let ?t = "take (length s - length w) s"
    have "?t \<noteq> []"
    proof
      assume "?t = []"
      with 1(2) have "length s - length w = 0" by simp
      moreover have "drop (length s - length w) s = w" using w(2) by (simp add: ends_with_def)
      ultimately have "s = w" by (metis drop_0)
      with imageI [OF w(1), of hd] 1(3) show False by simp
    qed
    moreover from this have "hd ?t = hd s" by (metis append_take_drop_id hd_append2)
    ultimately have "trim_end ?t \<noteq> []" using 1(1) [OF Some 1(2)] 1(3) by metis
    with Some 1(2) show ?thesis by (simp add: trim_end.simps [of s])
  qed
qed

lemma not_blank_hd:
  assumes "hd s \<notin> hd ` set white_space" "s \<noteq> []"
  shows "\<not> is_blank s"
proof -
  have "\<not> starts_with s w" if "w \<in> set white_space" for w
  proof
    assume "starts_with s w"
    then have "take (length w) s = w" by (simp add: starts_with_def)
    with white_space_nonempty [OF that] have "hd w = hd s" by (metis hd_take length_greater_0_conv)
    with imageI [OF that, of hd] assms(1) show False by simp
  qed
  then have "find (starts_with s) white_space = None" by (simp add: find_None_iff)
  then have "trim_start s = s" by (simp add: trim_start.simps [of s])
  with trim_end_nonempty [OF assms(2,1)] show ?thesis by (simp add: is_blank_def trim_def)
qed

definition cursor_id :: "nat \<Rightarrow> string" where
  "cursor_id n = ''cur_mem_'' @ show_nat n"

definition event_mem_id :: "nat \<Rightarrow> string" where
  "event_mem_id n = ''evt_mem_'' @ show_nat n"

lemma cursor_id_inject [simp]: "cursor_id m = cursor_id n \<longleftrightarrow> m = n"
  by (simp add: cursor_id_def)

lemma event_mem_id_inject [simp]: "event_mem_id m = event_mem_id n \<longleftrightarrow> m = n"
  by (simp add: event_mem_id_def)

lemma generated_ids [simp]:
  "event_cursor_new (cursor_id n) = Inr (cursor_id n)"
  "event_id_new (event_mem_id n) = Inr (event_mem_id n)"
proof -
  have "\<not> is_blank (cursor_id n)" "\<not> is_blank (event_mem_id n)"
    by (rule not_blank_hd; simp add: cursor_id_def event_mem_id_def white_space_def)+
  then show "event_cursor_new (cursor_id n) = Inr (cursor_id n)" "event_id_new (event_mem_id n) = Inr (event_mem_id n)"
    by (simp_all add: event_cursor_new_def event_id_new_def event_reject_blank_def)
qed

section \<open>The log and the invariant\<close>

definition scope_log :: "event_scope \<Rightarrow> canonical_event list \<Rightarrow> canonical_event list" where
  "scope_log scope log = filter (\<lambda>ev. scope \<in> set (ce_scopes ev)) log"

lemma scope_log_append [simp]: "scope_log scope (l @ l') = scope_log scope l @ scope_log scope l'"
  by (simp add: scope_log_def)

definition seq_of :: "event_store \<Rightarrow> event_scope \<Rightarrow> u64" where
  "seq_of st scope = (case next_scope_seq st scope of None \<Rightarrow> 0 | Some n \<Rightarrow> n)"

definition scope_inv :: "canonical_event list \<Rightarrow> event_store \<Rightarrow> event_scope \<Rightarrow> bool" where
  "scope_inv log st scope \<longleftrightarrow> (let l = scope_log scope log in
     scope_index st scope = map ce_event_id l \<and>
     unat (seq_of st scope) = length l \<and>
     (\<forall>p < length l. map_of (ce_cursors_by_scope (l ! p)) scope = Some (cursor_id (Suc p))) \<and>
     (\<forall>c p. cursor_positions st (scope, c) = Some p \<longleftrightarrow> p < length l \<and> c = cursor_id (Suc p)))"

definition event_inv :: "event_store \<Rightarrow> bool" where
  "event_inv st \<longleftrightarrow> (let log = broadcast st in
     (\<forall>scope. scope_inv log st scope) \<and>
     events st = map_of (map (\<lambda>ev. (ce_event_id ev, ev)) log) \<and>
     map ce_event_id log = map event_mem_id [1..<Suc (length log)] \<and>
     unat (next_event_seq st) = length log \<and>
     (\<forall>i r. idempotency st i = Some r \<longrightarrow> events st (ir_event_id r) \<noteq> None))"

lemma event_inv_new [simp]: "event_inv event_store_new"
  by (simp add: event_inv_def event_store_new_def scope_inv_def scope_log_def scope_index_def seq_of_def Let_def)

section \<open>Storing an event\<close>

lemma assign_cursors_result:
  assumes "distinct scopes" "\<And>scope. scope \<in> set scopes \<Longrightarrow> seq_of st scope \<noteq> - 1" "bt_ok cursors"
  shows "\<exists>cs st'. assign_cursors scopes cursors st = (Inr cs, st') \<and> bt_ok cs \<and>
    map_of cs = (\<lambda>scope. if scope \<in> set scopes then Some (cursor_id (Suc (unat (seq_of st scope)))) else map_of cursors scope) \<and>
    (\<forall>scope. seq_of st' scope = seq_of st scope + (if scope \<in> set scopes then 1 else 0)) \<and>
    st' = st\<lparr>next_scope_seq := next_scope_seq st'\<rparr>"
  using assms
proof (induction scopes arbitrary: cursors st)
  case (Cons scope scopes)
  define n where "n = seq_of st scope + 1"
  define st1 where "st1 = st\<lparr>next_scope_seq := (next_scope_seq st)(scope \<mapsto> n)\<rparr>"
  define c where "c = cursor_id (unat n)"
  have n: "unat n = Suc (unat (seq_of st scope))"
    unfolding n_def using Cons.prems(2) [of scope] by (metis add.commute eq_neg_iff_add_eq_0 list.set_intros(1) unatSuc)
  have eta: "st1\<lparr>next_scope_seq := x\<rparr> = st\<lparr>next_scope_seq := x\<rparr>" for x by (simp add: st1_def)
  have seq1: "seq_of st1 s = (if s = scope then n else seq_of st s)" for s
    by (simp add: seq_of_def st1_def)
  have "assign_cursors (scope # scopes) cursors st = assign_cursors scopes (bt_insert scope c cursors) st1"
    using generated_ids(1) [of "unat n"] by (simp add: Let_def st1_def c_def n_def cursor_id_def seq_of_def)
  moreover have "\<exists>cs st'. assign_cursors scopes (bt_insert scope c cursors) st1 = (Inr cs, st') \<and> bt_ok cs \<and>
    map_of cs = (\<lambda>s. if s \<in> set scopes then Some (cursor_id (Suc (unat (seq_of st1 s))))
       else map_of (bt_insert scope c cursors) s) \<and>
    (\<forall>s. seq_of st' s = seq_of st1 s + (if s \<in> set scopes then 1 else 0)) \<and>
    st' = st1\<lparr>next_scope_seq := next_scope_seq st'\<rparr>"
    using Cons.prems by (intro Cons.IH) (auto simp: seq1)
  then obtain cs st' where "assign_cursors scopes (bt_insert scope c cursors) st1 = (Inr cs, st')" "bt_ok cs"
    "map_of cs = (\<lambda>s. if s \<in> set scopes then Some (cursor_id (Suc (unat (seq_of st1 s))))
       else map_of (bt_insert scope c cursors) s)"
    "\<forall>s. seq_of st' s = seq_of st1 s + (if s \<in> set scopes then 1 else 0)"
    "st' = st1\<lparr>next_scope_seq := next_scope_seq st'\<rparr>" by blast
  moreover have "scope \<notin> set scopes" using Cons.prems(1) by simp
  ultimately show ?case
    using Cons.prems(3) n by (intro exI [of _ cs] exI [of _ st']) (auto simp: seq1 bt_lookup_insert c_def n_def eta fun_eq_iff)
qed (auto simp: seq_of_def)

lemma index_event_result:
  assumes "distinct scopes" "\<And>scope. scope \<in> set scopes \<Longrightarrow> map_of (ce_cursors_by_scope ev) scope = Some (cur scope)"
  shows "\<exists>st'. index_event ev scopes st = (Inr (), st') \<and>
    (\<forall>scope. scope_index st' scope = scope_index st scope @ (if scope \<in> set scopes then [ce_event_id ev] else [])) \<and>
    (\<forall>scope c. cursor_positions st' (scope, c) =
       (if scope \<in> set scopes \<and> c = cur scope then Some (length (scope_index st scope)) else cursor_positions st (scope, c))) \<and>
    st' = st\<lparr>scope_indexes := scope_indexes st', cursor_positions := cursor_positions st'\<rparr>"
  using assms
proof (induction scopes arbitrary: st)
  case (Cons scope scopes)
  define ids where "ids = scope_index st scope"
  define st1 where "st1 = st\<lparr>scope_indexes := (scope_indexes st)(scope \<mapsto> ids @ [ce_event_id ev]),
    cursor_positions := (cursor_positions st)((scope, cur scope) \<mapsto> length ids)\<rparr>"
  have eta: "st1\<lparr>scope_indexes := x, cursor_positions := y\<rparr> = st\<lparr>scope_indexes := x, cursor_positions := y\<rparr>" for x y
    by (simp add: st1_def)
  have pos1: "cursor_positions st1 (s, c) =
      (if s = scope \<and> c = cur scope then Some (length ids) else cursor_positions st (s, c))" for s c
    by (simp add: st1_def)
  have idx1: "scope_index st1 s = (if s = scope then ids @ [ce_event_id ev] else scope_index st s)" for s
    by (simp add: scope_index_def st1_def)
  have "index_event ev (scope # scopes) st = index_event ev scopes st1"
    using Cons.prems(2) [of scope] by (simp add: st1_def ids_def Let_def)
  moreover from Cons.IH [of st1] Cons.prems obtain st' where "index_event ev scopes st1 = (Inr (), st')"
    "\<forall>s. scope_index st' s = scope_index st1 s @ (if s \<in> set scopes then [ce_event_id ev] else [])"
    "\<forall>s c. cursor_positions st' (s, c) =
       (if s \<in> set scopes \<and> c = cur s then Some (length (scope_index st1 s)) else cursor_positions st1 (s, c))"
    "st' = st1\<lparr>scope_indexes := scope_indexes st', cursor_positions := cursor_positions st'\<rparr>" by auto
  moreover have "scope \<notin> set scopes" using Cons.prems(1) by simp
  ultimately show ?case by (intro exI [of _ st']) (auto simp: idx1 pos1 eta ids_def)
qed simp

lemma validate_scopes_distinct:
  "validate_scopes_from env seen families scopes = Inr () \<Longrightarrow> distinct scopes \<and> set scopes \<inter> seen = {}"
  by (induction env seen families scopes rule: validate_scopes_from.induct) (auto split: sum.splits if_splits)

lemma valid_draft:
  assumes "event_draft_validate env d = Inr ()"
  shows "distinct (ed_scopes d)" "\<exists>ids. derive_scope_ids (ed_scopes d) = Inr ids"
  using assms validate_scopes_distinct
  by (auto simp: event_draft_validate_def validate_scope_set_def split: sum.splits if_splits)

definition event_of_draft :: "event_draft \<Rightarrow> canonical_event \<Rightarrow> bool" where
  "event_of_draft d ev \<longleftrightarrow> ce_scopes ev = ed_scopes d \<and> ce_kind ev = ed_kind d \<and> ce_payload ev = ed_payload d \<and>
     ce_causation_id ev = ed_causation_id d \<and> ce_correlation_id ev = ed_correlation_id d \<and>
     ce_origin ev = ed_origin d \<and> ce_visibility ev = ed_visibility d \<and> ce_schema_version ev = ed_schema_version d"

lemma event_from_append_result:
  assumes valid: "event_draft_validate env d = Inr ()" and cover: "fst ` set cursors = set (ed_scopes d)"
  shows "\<exists>ev. canonical_event_from_append env eid cursors now d = Inr ev \<and> event_of_draft d ev \<and>
    ce_event_id ev = eid \<and> ce_cursors_by_scope ev = cursors"
proof -
  from valid_draft(2) [OF valid] obtain ids where "derive_scope_ids (ed_scopes d) = Inr ids" ..
  with valid cover show ?thesis
    by (simp add: canonical_event_from_append_def validate_cursor_coverage_def event_of_draft_def)
qed

text \<open>One scope of the invariant after an event whose cursor is the next one.\<close>

lemma scope_inv_append:
  assumes inv: "scope_inv log st scope"
    and idx: "scope_index st' scope = scope_index st scope @ (if scope \<in> set (ce_scopes ev) then [ce_event_id ev] else [])"
    and seq: "unat (seq_of st' scope) = unat (seq_of st scope) + (if scope \<in> set (ce_scopes ev) then 1 else 0)"
    and cur: "scope \<in> set (ce_scopes ev) \<Longrightarrow>
      map_of (ce_cursors_by_scope ev) scope = Some (cursor_id (Suc (unat (seq_of st scope))))"
    and pos: "\<And>c. cursor_positions st' (scope, c) =
      (if scope \<in> set (ce_scopes ev) \<and> c = cursor_id (Suc (unat (seq_of st scope)))
       then Some (length (scope_index st scope)) else cursor_positions st (scope, c))"
  shows "scope_inv (log @ [ev]) st' scope"
proof (cases "scope \<in> set (ce_scopes ev)")
  case False
  with assms show ?thesis by (simp add: scope_inv_def Let_def scope_log_def)
next
  case True
  then have snoc: "scope_log scope (log @ [ev]) = scope_log scope log @ [ev]" by (simp add: scope_log_def)
  define l where "l = scope_log scope log"
  have old: "scope_index st scope = map ce_event_id l" "unat (seq_of st scope) = length l"
    "\<And>p. p < length l \<Longrightarrow> map_of (ce_cursors_by_scope (l ! p)) scope = Some (cursor_id (Suc p))"
    "\<And>c p. cursor_positions st (scope, c) = Some p \<longleftrightarrow> p < length l \<and> c = cursor_id (Suc p)"
    using inv by (auto simp: scope_inv_def Let_def l_def)
  have "map_of (ce_cursors_by_scope ((l @ [ev]) ! p)) scope = Some (cursor_id (Suc p))" if "p < length (l @ [ev])" for p
    using that old(2,3) cur True by (auto simp: nth_append less_Suc_eq)
  moreover have "cursor_positions st' (scope, c) = Some p \<longleftrightarrow> p < length (l @ [ev]) \<and> c = cursor_id (Suc p)" for c p
    using pos [of c] old(1,2,4) True by (auto simp: less_Suc_eq)
  ultimately show ?thesis
    using idx seq old(1,2) True unfolding scope_inv_def snoc l_def [symmetric] Let_def by simp
qed

lemma event_ids:
  assumes "event_inv st"
  shows "event_mem_id (Suc (length (broadcast st))) \<notin> ce_event_id ` set (broadcast st)"
proof -
  have "ce_event_id ` set (broadcast st) = set (map event_mem_id [1..<Suc (length (broadcast st))])"
    using assms by (metis (no_types, lifting) event_inv_def list.set_map)
  then show ?thesis by auto
qed

lemma store_event_result:
  assumes inv: "event_inv st" and valid: "event_draft_validate env d = Inr ()"
    and room: "Suc (length (broadcast st)) < 2 ^ 64"
  shows "\<exists>ev st'. store_event env now d identity digest st = (Inr ev, st') \<and> event_inv st' \<and>
    broadcast st' = broadcast st @ [ev] \<and> event_of_draft d ev \<and>
    idempotency st' = (case identity of None \<Rightarrow> idempotency st
      | Some i \<Rightarrow> (idempotency st)(i \<mapsto> \<lparr>ir_digest = digest, ir_event_id = ce_event_id ev\<rparr>))"
proof -
  define log where "log = broadcast st"
  define n where "n = next_event_seq st + 1"
  define st1 where "st1 = st\<lparr>next_event_seq := n\<rparr>"
  have sinv: "scope_inv log st scope" for scope using inv by (simp add: event_inv_def Let_def log_def)
  have next_seq: "unat (next_event_seq st) = length log" using inv by (simp add: event_inv_def Let_def log_def)
  then have "next_event_seq st \<noteq> - 1"
    using room by (auto simp: log_def unsigned_minus_1_eq_mask mask_eq_exp_minus_1)
  then have n: "unat n = Suc (length log)"
    unfolding n_def next_seq [symmetric] by (metis add.commute eq_neg_iff_add_eq_0 unatSuc)
  have seq_room: "seq_of st1 scope \<noteq> - 1" for scope
  proof -
    have "unat (seq_of st scope) \<le> length log"
      using sinv [of scope] by (simp add: scope_inv_def Let_def scope_log_def)
    then show ?thesis using room
      by (auto simp: log_def st1_def seq_of_def unsigned_minus_1_eq_mask mask_eq_exp_minus_1)
  qed
  have seq1: "seq_of st1 scope = seq_of st scope" for scope by (simp add: seq_of_def st1_def)
  from assign_cursors_result [OF valid_draft(1) [OF valid] seq_room bt_ok_Nil] obtain cs st2 where
    cs: "assign_cursors (ed_scopes d) [] st1 = (Inr cs, st2)"
      "map_of cs = (\<lambda>scope. if scope \<in> set (ed_scopes d) then Some (cursor_id (Suc (unat (seq_of st1 scope)))) else None)"
    and st2: "\<And>scope. seq_of st2 scope = seq_of st1 scope + (if scope \<in> set (ed_scopes d) then 1 else 0)"
      "st2 = st1\<lparr>next_scope_seq := next_scope_seq st2\<rparr>" by (auto cong: if_cong)
  have "fst ` set cs = dom (map_of cs)" by (simp add: dom_map_of_conv_image_fst)
  then have "fst ` set cs = set (ed_scopes d)" unfolding cs(2) by (auto split: if_splits)
  from event_from_append_result [OF valid this, of "event_mem_id (unat n)" now] obtain ev where
    ev: "canonical_event_from_append env (event_mem_id (unat n)) cs now d = Inr ev" "event_of_draft d ev"
      "ce_event_id ev = event_mem_id (unat n)" "ce_cursors_by_scope ev = cs" by blast
  have scopes: "ce_scopes ev = ed_scopes d" using ev(2) by (simp add: event_of_draft_def)
  have curs: "map_of (ce_cursors_by_scope ev) scope = Some (cursor_id (Suc (unat (seq_of st scope))))"
    if "scope \<in> set (ce_scopes ev)" for scope using that by (simp add: ev(4) cs(2) scopes seq1)
  from index_event_result [OF _ curs, of "ce_scopes ev" st2] valid_draft(1) [OF valid] obtain st3 where
    idx: "index_event ev (ce_scopes ev) st2 = (Inr (), st3)"
    and st3: "\<And>scope. scope_index st3 scope = scope_index st2 scope @ (if scope \<in> set (ce_scopes ev) then [ce_event_id ev] else [])"
      "\<And>scope c. cursor_positions st3 (scope, c) =
         (if scope \<in> set (ce_scopes ev) \<and> c = cursor_id (Suc (unat (seq_of st scope)))
          then Some (length (scope_index st2 scope)) else cursor_positions st2 (scope, c))"
      "st3 = st2\<lparr>scope_indexes := scope_indexes st3, cursor_positions := cursor_positions st3\<rparr>"
    by (auto simp: scopes)
  define idem where "idem = (case identity of None \<Rightarrow> idempotency st
      | Some i \<Rightarrow> (idempotency st)(i \<mapsto> \<lparr>ir_digest = digest, ir_event_id = ce_event_id ev\<rparr>))"
  define st' where "st' = st3\<lparr>idempotency := idem, events := (events st)(ce_event_id ev \<mapsto> ev), broadcast := log @ [ev]\<rparr>"
  have same: "events st3 = events st" "broadcast st3 = log" "idempotency st3 = idempotency st"
    "next_scope_seq st3 = next_scope_seq st2" "next_event_seq st3 = n"
    "scope_indexes st2 = scope_indexes st" "cursor_positions st2 = cursor_positions st"
    by (subst st3(3), subst st2(2), simp add: st1_def log_def)+
      (subst st2(2), simp add: st1_def)+
  have "store_event env now d identity digest st = (Inr ev, st')"
  proof -
    have "''evt_mem_'' @ show_nat (unat (next_event_seq st1)) = event_mem_id (unat n)"
      by (simp add: event_mem_id_def st1_def)
    then have gen: "event_id_new (''evt_mem_'' @ show_nat (unat (next_event_seq st1))) = Inr (event_mem_id (unat n))"
      by (metis generated_ids(2))
    show ?thesis
      unfolding store_event_def Let_def n_def [symmetric] st1_def [symmetric] gen sum.case cs(1) prod.case ev(1) idx
      by (simp add: st'_def idem_def same(1-3) ev(3) split: option.split)
  qed
  moreover have "event_inv st'"
  proof -
    have idx': "scope_index st' scope = scope_index st scope @ (if scope \<in> set (ce_scopes ev) then [ce_event_id ev] else [])" for scope
      using st3(1) [of scope] by (simp add: st'_def scope_index_def same(6))
    have seq': "unat (seq_of st' scope) = unat (seq_of st scope) + (if scope \<in> set (ce_scopes ev) then 1 else 0)" for scope
    proof -
      have "seq_of st' scope = seq_of st scope + (if scope \<in> set (ce_scopes ev) then 1 else 0)"
        using st2(1) [of scope] unfolding seq1 by (simp add: st'_def seq_of_def same(4) scopes)
      moreover have "unat (seq_of st scope + 1) = Suc (unat (seq_of st scope))"
        using seq_room [of scope] unfolding seq1 by (metis add.commute eq_neg_iff_add_eq_0 unatSuc)
      ultimately show ?thesis by simp
    qed
    have pos': "cursor_positions st' (scope, c) =
        (if scope \<in> set (ce_scopes ev) \<and> c = cursor_id (Suc (unat (seq_of st scope)))
         then Some (length (scope_index st scope)) else cursor_positions st (scope, c))" for scope c
      using st3(2) [of scope c] by (simp add: st'_def scope_index_def same(6,7))
    have "scope_inv (log @ [ev]) st' scope" for scope
      by (rule scope_inv_append [OF sinv idx' seq' curs pos'])
    moreover have new: "ce_event_id ev \<notin> fst ` set (map (\<lambda>ev. (ce_event_id ev, ev)) log)"
      using event_ids [OF inv] n by (simp add: ev(3) log_def image_image)
    have evs: "events st = map_of (map (\<lambda>ev. (ce_event_id ev, ev)) log)"
      using inv by (simp add: event_inv_def Let_def log_def)
    have "events st' = map_of (map (\<lambda>ev. (ce_event_id ev, ev)) (log @ [ev]))"
    proof -
      have "map_of (map (\<lambda>ev. (ce_event_id ev, ev)) log) (ce_event_id ev) = None"
        using new by (metis map_of_eq_None_iff)
      then show ?thesis by (auto simp: st'_def evs fun_eq_iff map_add_def split: option.splits)
    qed
    moreover have "map ce_event_id (log @ [ev]) = map event_mem_id [1..<Suc (length (log @ [ev]))]"
      using inv n by (simp add: event_inv_def Let_def log_def ev(3))
    moreover have "unat (next_event_seq st') = length (log @ [ev])" using n by (simp add: st'_def same(5))
    moreover have "events st' (ir_event_id r) \<noteq> None" if "idempotency st' i = Some r" for i r
    proof -
      have "idempotency st i = Some r \<or> ir_event_id r = ce_event_id ev"
        using that by (auto simp: st'_def idem_def split: option.splits if_splits)
      then have "events st (ir_event_id r) \<noteq> None \<or> ir_event_id r = ce_event_id ev"
        using inv unfolding event_inv_def Let_def by blast
      then show ?thesis by (auto simp: st'_def)
    qed
    moreover have "broadcast st' = log @ [ev]" by (simp add: st'_def)
    ultimately show ?thesis unfolding event_inv_def Let_def by auto
  qed
  ultimately show ?thesis using ev(2) by (intro exI [of _ ev] exI [of _ st']) (simp add: st'_def log_def idem_def)
qed

section \<open>What reading sees\<close>

lemma load_events_result:
  "\<forall>ev \<in> set evs. events st (ce_event_id ev) = Some ev \<Longrightarrow> load_events env st (map ce_event_id evs) = Inr evs"
  by (induction evs) auto

lemma event_stored:
  assumes "event_inv st" "ev \<in> set (broadcast st)"
  shows "events st (ce_event_id ev) = Some ev"
proof -
  have ids: "map ce_event_id (broadcast st) = map event_mem_id [1..<Suc (length (broadcast st))]"
    and evs: "events st = map_of (map (\<lambda>ev. (ce_event_id ev, ev)) (broadcast st))"
    using assms(1) by (simp_all add: event_inv_def Let_def)
  have "distinct (map ce_event_id (broadcast st))" unfolding ids by (simp add: distinct_map inj_on_def)
  then show ?thesis unfolding evs using assms(2) by (intro map_of_is_SomeI) (auto simp: comp_def)
qed

text \<open>Where a read from a cursor starts in the log of the scope.\<close>

definition read_start :: "string option \<Rightarrow> canonical_event list \<Rightarrow> nat \<Rightarrow> bool" where
  "read_start from_cursor l start \<longleftrightarrow>
     (case from_cursor of None \<Rightarrow> start = 0 | Some c \<Rightarrow> 0 < start \<and> start \<le> length l \<and> c = cursor_id start)"

lemma list_locked_result:
  assumes inv: "event_inv st" and l: "l = scope_log scope (broadcast st)"
  shows "read_start from_cursor l start \<Longrightarrow> list_locked env st scope from_cursor limit =
      Inr \<lparr>ep_events = take limit (drop start l),
           ep_next_cursor = (if start + limit < length l \<and> 0 < limit then Some (cursor_id (start + limit)) else None),
           ep_has_more = start + limit < length l\<rparr>"
    and "(\<And>start. \<not> read_start from_cursor l start) \<Longrightarrow>
      list_locked env st scope from_cursor limit = Inl (EvCursorExpired (the from_cursor))"
proof -
  have sinv: "scope_index st scope = map ce_event_id l"
    "\<And>p. p < length l \<Longrightarrow> map_of (ce_cursors_by_scope (l ! p)) scope = Some (cursor_id (Suc p))"
    "\<And>c p. cursor_positions st (scope, c) = Some p \<longleftrightarrow> p < length l \<and> c = cursor_id (Suc p)"
    using inv by (auto simp: event_inv_def scope_inv_def Let_def l)
  have stored: "\<forall>ev \<in> set (drop a (take b l)). events st (ce_event_id ev) = Some ev" for a b
  proof
    fix ev
    assume "ev \<in> set (drop a (take b l))"
    then have "ev \<in> set l" by (meson in_set_dropD in_set_takeD)
    then show "events st (ce_event_id ev) = Some ev"
      using event_stored [OF inv] by (simp add: l scope_log_def)
  qed
  show "list_locked env st scope from_cursor limit =
      Inr \<lparr>ep_events = take limit (drop start l),
           ep_next_cursor = (if start + limit < length l \<and> 0 < limit then Some (cursor_id (start + limit)) else None),
           ep_has_more = start + limit < length l\<rparr>" if start: "read_start from_cursor l start"
  proof -
    have "(case from_cursor of
              Some cursor \<Rightarrow> (case cursor_positions st (scope, cursor) of
                  None \<Rightarrow> Inl (EvCursorExpired cursor) | Some position \<Rightarrow> Inr (position + 1))
            | None \<Rightarrow> Inr 0) = Inr start"
    proof (cases from_cursor)
      case (Some c)
      with start have "cursor_positions st (scope, c) = Some (start - 1)"
        by (auto simp: read_start_def sinv(3))
      with Some start show ?thesis by (simp add: read_start_def)
    qed (use start in \<open>simp add: read_start_def\<close>)
    moreover define stop where "stop = min (start + limit) (length l)"
    moreover have evs: "drop start (take stop l) = take limit (drop start l)"
      by (simp add: stop_def drop_take min_def)
    moreover have "load_events env st (drop start (take stop (scope_index st scope))) = Inr (take limit (drop start l))"
      using load_events_result [OF stored, of env start stop] by (simp add: sinv(1) take_map drop_map evs)
    moreover have "map_of (ce_cursors_by_scope (last (take limit (drop start l)))) scope = Some (cursor_id (start + limit))"
      if "start + limit < length l" "0 < limit"
    proof -
      have "last (take limit (drop start l)) = l ! (start + limit - 1)"
        using that by (simp add: last_conv_nth)
      then show ?thesis using that sinv(2) [of "start + limit - 1"] by simp
    qed
    ultimately show ?thesis
      by (auto simp: list_locked_def Let_def sinv(1) stop_def)
  qed
  show "list_locked env st scope from_cursor limit = Inl (EvCursorExpired (the from_cursor))"
    if none: "\<And>start. \<not> read_start from_cursor l start"
  proof (cases from_cursor)
    case None
    with none [of 0] show ?thesis by (simp add: read_start_def)
  next
    case (Some c)
    have "cursor_positions st (scope, c) = None"
    proof (rule ccontr)
      assume "\<not> ?thesis"
      then obtain p where "p < length l" "c = cursor_id (Suc p)" using sinv(3) by (metis not_None_eq)
      with none [of "Suc p"] Some show False by (simp add: read_start_def)
    qed
    with Some show ?thesis by (simp add: list_locked_def)
  qed
qed

lemma last_cursor_result:
  assumes inv: "event_inv st" and l: "l = scope_log scope (broadcast st)"
  shows "last_cursor_locked st scope = (if l = [] then None else Some (cursor_id (length l)))"
proof -
  have sinv: "scope_index st scope = map ce_event_id l"
    "\<And>p. p < length l \<Longrightarrow> map_of (ce_cursors_by_scope (l ! p)) scope = Some (cursor_id (Suc p))"
    using inv by (auto simp: event_inv_def scope_inv_def Let_def l)
  show ?thesis
  proof (cases "l = []")
    case False
    then have "last l \<in> set (broadcast st)" by (metis filter_is_subset l last_in_set scope_log_def subsetD)
    then have "events st (last (scope_index st scope)) = Some (last l)"
      using False event_stored [OF inv] by (simp add: sinv(1) last_map)
    moreover have "map_of (ce_cursors_by_scope (last l)) scope = Some (cursor_id (length l))"
      using False sinv(2) [of "length l - 1"] by (simp add: last_conv_nth)
    moreover obtain i ids where "scope_index st scope = i # ids"
      using False by (cases "scope_index st scope") (auto simp: sinv(1))
    ultimately show ?thesis using False by (simp add: last_cursor_locked_def)
  qed (simp add: last_cursor_locked_def sinv(1))
qed

section \<open>Appending\<close>

type_synonym append_call = "u64 \<times> event_draft \<times> append_options"

fun event_run :: "event_env \<Rightarrow> append_call list \<Rightarrow> event_store \<Rightarrow> event_store" where
  "event_run env [] st = st"
| "event_run env ((now, d, opts) # calls) st = event_run env calls (snd (event_append env now d opts st))"

lemma event_run_append: "event_run env (as @ bs) st = event_run env bs (event_run env as st)"
  by (induction env as st rule: event_run.induct) simp_all

text \<open>The recorded identity of an append, if it has one.\<close>

definition recorded :: "event_store \<Rightarrow> string \<times> string \<Rightarrow> string \<Rightarrow> canonical_event \<Rightarrow> bool" where
  "recorded st i digest ev \<longleftrightarrow>
     idempotency st i = Some \<lparr>ir_digest = digest, ir_event_id = ce_event_id ev\<rparr> \<and> ev \<in> set (broadcast st)"

lemma expected_cursors_checked:
  "validate_expected_prior_cursors env st expected = Inr () \<longleftrightarrow>
   (\<forall>(scope, c) \<in> set expected. last_cursor_locked st scope = Some c)"
  by (induction env st expected rule: validate_expected_prior_cursors.induct) auto

text \<open>The three outcomes of an append.\<close>

definition append_refused :: "(event_store_error + canonical_event) \<times> event_store \<Rightarrow> event_store \<Rightarrow> bool" where
  "append_refused res st \<longleftrightarrow> (\<exists>e. fst res = Inl e) \<and> snd res = st"

definition append_repeated :: "event_env \<Rightarrow> event_draft \<Rightarrow> append_options \<Rightarrow>
    (event_store_error + canonical_event) \<times> event_store \<Rightarrow> event_store \<Rightarrow> bool" where
  "append_repeated env d opts res st \<longleftrightarrow> (\<exists>i digest ev. idempotency_identity opts = Inr (Some i) \<and>
     idempotency_digest env d = Inr digest \<and> recorded st i digest ev \<and> res = (Inr ev, st))"

definition append_added :: "event_env \<Rightarrow> event_draft \<Rightarrow> append_options \<Rightarrow>
    (event_store_error + canonical_event) \<times> event_store \<Rightarrow> event_store \<Rightarrow> bool" where
  "append_added env d opts res st \<longleftrightarrow> (\<exists>ev. fst res = Inr ev \<and>
     broadcast (snd res) = broadcast st @ [ev] \<and> event_of_draft d ev \<and>
     (\<forall>(scope, c) \<in> set (ao_expected_prior_cursors opts). scope \<in> set (ed_scopes d) \<and> last_cursor_locked st scope = Some c) \<and>
     (\<forall>i. idempotency_identity opts = Inr (Some i) \<longrightarrow> idempotency st i = None \<and>
        (\<exists>digest. idempotency_digest env d = Inr digest \<and> recorded (snd res) i digest ev)) \<and>
     (\<forall>i. idempotency_identity opts \<noteq> Inr (Some i) \<longrightarrow> idempotency (snd res) i = idempotency st i))"

text \<open>
  What the readers of the store see of an added event: it is found under its new id, listing a scope of
  the draft shows it at the end of what was listed before, its new cursor in the scope is the last one and
  names its place, and nothing else has changed.
\<close>

definition scope_events :: "event_env \<Rightarrow> event_scope \<Rightarrow> event_store \<Rightarrow> event_store_error + canonical_event list" where
  "scope_events env scope st = map_sum id ep_events (event_list env scope None (2 ^ 64 - 1) st)"

definition append_visible :: "event_env \<Rightarrow> event_draft \<Rightarrow> canonical_event \<Rightarrow> event_store \<Rightarrow> event_store \<Rightarrow> bool" where
  "append_visible env d ev st st' \<longleftrightarrow>
     events st (ce_event_id ev) = None \<and> events st' = (events st)(ce_event_id ev \<mapsto> ev) \<and>
     load_event (ce_event_id ev) st' = Inr ev \<and>
     (\<forall>scope. \<exists>evs. scope_events env scope st = Inr evs \<and>
        scope_events env scope st' = Inr (evs @ (if scope \<in> set (ed_scopes d) then [ev] else [])) \<and>
        (if scope \<in> set (ed_scopes d)
         then (\<exists>c. map_of (ce_cursors_by_scope ev) scope = Some c \<and> cursor_positions st (scope, c) = None \<and>
            (\<forall>c'. cursor_positions st' (scope, c') =
               (if c' = c then Some (length evs) else cursor_positions st (scope, c'))) \<and>
            last_cursor_locked st' scope = Some c)
         else (\<forall>c. cursor_positions st' (scope, c) = cursor_positions st (scope, c)) \<and>
            last_cursor_locked st' scope = last_cursor_locked st scope))"

lemma expected_scopes_checked:
  "validate_expected_cursor_scopes env d expected = Inr () \<longleftrightarrow> (\<forall>(scope, c) \<in> set expected. scope \<in> set (ed_scopes d))"
  by (induction env d expected rule: validate_expected_cursor_scopes.induct) auto

lemma log_event_ids:
  assumes "event_inv st" "events st eid = Some ev"
  shows "ce_event_id ev = eid \<and> ev \<in> set (broadcast st)"
  using assms map_of_SomeD [of "map (\<lambda>ev. (ce_event_id ev, ev)) (broadcast st)" eid ev]
  by (auto simp: event_inv_def Let_def)

lemma event_append_result:
  assumes inv: "event_inv st" and room: "Suc (length (broadcast st)) < 2 ^ 64"
    and res: "event_append env now d opts st = res"
  shows "event_inv (snd res) \<and>
    (append_refused res st \<or> append_repeated env d opts res st \<or> append_added env d opts res st)"
proof -
  consider (refused) "append_refused res st"
    | (known) i digest r where "idempotency_identity opts = Inr (Some i)" "idempotency_digest env d = Inr digest"
        "idempotency st i = Some r" "ir_digest r = digest" "res = (case events st (ir_event_id r) of
           None \<Rightarrow> (Inl (EvIntegrity (''idempotent event missing: '' @ ir_event_id r)), st) | Some ev \<Rightarrow> (Inr ev, st))"
    | (new) identity digest where "event_draft_validate env d = Inr ()" "idempotency_digest env d = Inr digest"
        "idempotency_identity opts = Inr identity" "Option.bind identity (idempotency st) = None"
        "validate_expected_cursor_scopes env d (ao_expected_prior_cursors opts) = Inr ()"
        "validate_expected_prior_cursors env st (ao_expected_prior_cursors opts) = Inr ()"
        "res = store_event env now d identity digest st"
    using res
    by (auto simp: event_append_def append_refused_def bind_eq_Some_conv
        split: sum.splits if_splits option.splits Option.bind_splits)
  then show ?thesis
  proof cases
    case refused
    with inv show ?thesis by (simp add: append_refused_def)
  next
    case (known i digest r)
    from known(3) inv obtain ev where ev: "events st (ir_event_id r) = Some ev"
      unfolding event_inv_def Let_def by blast
    from log_event_ids [OF inv ev] known(3,4) have "recorded st i digest ev"
      by (cases r) (simp add: recorded_def)
    with known ev inv show ?thesis by (auto simp: append_repeated_def)
  next
    case (new identity digest)
    from store_event_result [OF inv new(1) room, of now identity digest] obtain ev st' where
      st': "store_event env now d identity digest st = (Inr ev, st')" "event_inv st'"
        "broadcast st' = broadcast st @ [ev]" "event_of_draft d ev"
        "idempotency st' = (case identity of None \<Rightarrow> idempotency st
          | Some i \<Rightarrow> (idempotency st)(i \<mapsto> \<lparr>ir_digest = digest, ir_event_id = ce_event_id ev\<rparr>))" by blast
    have "append_added env d opts res st"
      unfolding append_added_def
    proof (intro exI [of _ ev] conjI)
      show "\<forall>(scope, c) \<in> set (ao_expected_prior_cursors opts). scope \<in> set (ed_scopes d) \<and> last_cursor_locked st scope = Some c"
        using new(5,6) by (auto simp: expected_cursors_checked expected_scopes_checked)
      show "\<forall>i. idempotency_identity opts = Inr (Some i) \<longrightarrow> idempotency st i = None \<and>
        (\<exists>digest. idempotency_digest env d = Inr digest \<and> recorded (snd res) i digest ev)"
        using new(2,3,4,7) st' by (auto simp: recorded_def)
      show "\<forall>i. idempotency_identity opts \<noteq> Inr (Some i) \<longrightarrow> idempotency (snd res) i = idempotency st i"
        using new(3,7) st' by (auto split: option.splits)
    qed (use st' new(7) in simp_all)
    with st' new(7) show ?thesis by simp
  qed
qed

text \<open>After any calls the invariant holds, the log has only grown, and records stay.\<close>

lemma event_run_result:
  "event_inv st \<Longrightarrow> length (broadcast st) + length calls < 2 ^ 64 - 1 \<Longrightarrow>
   event_inv (event_run env calls st) \<and>
   length (broadcast (event_run env calls st)) \<le> length (broadcast st) + length calls \<and>
   (\<exists>new. broadcast (event_run env calls st) = broadcast st @ new) \<and>
   (\<forall>i digest ev. recorded st i digest ev \<longrightarrow> recorded (event_run env calls st) i digest ev)"
proof (induction calls arbitrary: st)
  case (Cons call calls)
  obtain now d opts where call: "call = (now, d, opts)" by (cases call)
  let ?res = "event_append env now d opts st"
  have room: "Suc (length (broadcast st)) < 2 ^ 64" using Cons.prems(2) by simp
  note step = event_append_result [OF Cons.prems(1) room refl, of env now d opts]
  then have log: "(\<exists>new. broadcast (snd ?res) = broadcast st @ new \<and> length new \<le> 1)"
    by (auto simp: append_refused_def append_repeated_def append_added_def)
  have keep: "recorded (snd ?res) i digest ev" if "recorded st i digest ev" for i digest ev
  proof -
    from step have "append_refused ?res st \<or> append_repeated env d opts ?res st \<or> append_added env d opts ?res st" by blast
    then show ?thesis
    proof (elim disjE)
      assume added: "append_added env d opts ?res st"
      have "idempotency_identity opts \<noteq> Inr (Some i)"
        using added that by (cases i) (auto simp: append_added_def recorded_def)
      with added have "idempotency (snd ?res) i = idempotency st i" by (cases i) (auto simp: append_added_def)
      with that log show ?thesis by (auto simp: recorded_def)
    qed (use that in \<open>auto simp: append_refused_def append_repeated_def\<close>)
  qed
  have "length (broadcast (snd ?res)) + length calls < 2 ^ 64 - 1"
    using log Cons.prems(2) by auto
  from Cons.IH [OF _ this] step log keep show ?case by (fastforce simp: call)
qed auto


lemma event_run_new:
  assumes "length calls < 2 ^ 64 - 1" "st = event_run env calls event_store_new"
  shows "event_inv st" "length (broadcast st) \<le> length calls"
  using event_run_result [of event_store_new calls env] assms by (simp_all add: event_store_new_def [THEN arg_cong, of broadcast])

lemma repeated_append:
  assumes valid: "event_draft_validate env d = Inr ()" "validate_expected_cursor_scopes env d (ao_expected_prior_cursors opts) = Inr ()"
    and digest: "idempotency_digest env d = Inr dg'" and identity: "idempotency_identity opts = Inr (Some i)"
    and inv: "event_inv st" and recorded: "recorded st i dg ev"
  shows "event_append env now d opts st =
    (if dg' = dg then Inr ev
     else Inl (EvIdempotencyConflict (''idempotency identity reused with different input: writer_id='' @
            fst i @ '', idempotency_key='' @ snd i)), st)"
proof -
  have "append_options_validate opts = Inr ()"
    using identity by (cases "append_options_validate opts") (auto simp: idempotency_identity_def)
  moreover have "events st (ce_event_id ev) = Some ev"
    using event_stored [OF inv] recorded by (simp add: recorded_def)
  ultimately show ?thesis
    using valid digest identity recorded by (simp add: event_append_def recorded_def)
qed

text \<open>The digest leaves out origin and schema version, but keeps the order of the scopes.\<close>

lemma digest_ignores_origin:
  "idempotency_digest env (d\<lparr>ed_origin := x, ed_schema_version := v\<rparr>) = idempotency_digest env d"
  by (simp add: idempotency_digest_def digest_basis_def)

lemma digest_depends_on_scope_order:
  assumes "inj (basis_bytes env)" "\<And>b. \<not> isl (basis_bytes env b)" "ed_scopes d \<noteq> ed_scopes d'"
  shows "idempotency_digest env d \<noteq> idempotency_digest env d'"
proof -
  have "digest_basis d \<noteq> digest_basis d'" using assms(3) by (auto simp: digest_basis_def)
  then have "basis_bytes env (digest_basis d) \<noteq> basis_bytes env (digest_basis d')" using assms(1) by (meson injD)
  with assms(2) show ?thesis
    by (auto simp: idempotency_digest_def isl_def split: sum.splits) 
qed

section \<open>Properties\<close>

lemma scope_events_log:
  assumes "event_inv st" "length (broadcast st) < 2 ^ 64"
  shows "scope_events env scope st = Inr (scope_log scope (broadcast st))"
proof -
  have "length (scope_log scope (broadcast st)) \<le> 2 ^ 64 - 1"
    unfolding scope_log_def by (rule order_trans [OF length_filter_le]) (use assms(2) in simp)
  then show ?thesis
    using list_locked_result(1) [OF assms(1) refl, of None scope 0 env "2 ^ 64 - 1"]
    by (simp add: scope_events_def event_list_def read_start_def)
qed

lemma inv_positions:
  assumes "event_inv st"
  shows "cursor_positions st (scope, c) = Some p \<longleftrightarrow> p < length (scope_log scope (broadcast st)) \<and> c = cursor_id (Suc p)"
  using assms by (simp add: event_inv_def scope_inv_def Let_def)

lemma added_is_visible:
  assumes inv: "event_inv st" "event_inv st'" and room: "Suc (length (broadcast st)) < 2 ^ 64"
    and added: "broadcast st' = broadcast st @ [ev]" "event_of_draft d ev"
  shows "append_visible env d ev st st'"
proof -
  let ?log = "\<lambda>scope. scope_log scope (broadcast st)"
  have member: "scope \<in> set (ed_scopes d) \<longleftrightarrow> scope \<in> set (ce_scopes ev)" for scope
    using added(2) by (simp add: event_of_draft_def)
  have log': "scope_log scope (broadcast st') = ?log scope @ (if scope \<in> set (ed_scopes d) then [ev] else [])" for scope
    by (simp add: added(1) member scope_log_def)
  have len: "length (broadcast st) < 2 ^ 64" "length (broadcast st') < 2 ^ 64"
    using room added(1) by simp_all
  have ids: "map ce_event_id (broadcast st') = map event_mem_id [1..<Suc (length (broadcast st'))]"
    and evs: "events st = map_of (map (\<lambda>ev. (ce_event_id ev, ev)) (broadcast st))"
      "events st' = map_of (map (\<lambda>ev. (ce_event_id ev, ev)) (broadcast st'))"
    using inv by (simp_all add: event_inv_def Let_def)
  have "distinct (map ce_event_id (broadcast st'))" unfolding ids by (simp add: distinct_map inj_on_def)
  then have fresh: "ce_event_id ev \<notin> ce_event_id ` set (broadcast st)" by (simp add: added(1))
  then have none: "events st (ce_event_id ev) = None"
    unfolding evs by (simp add: map_of_eq_None_iff image_image)
  have new: "events st' = (events st)(ce_event_id ev \<mapsto> ev)"
    using none by (auto simp: evs added(1) fun_eq_iff map_add_def split: option.split)
  have pos: "cursor_positions st' (scope, c) = cursor_positions st (scope, c)"
    "last_cursor_locked st' scope = last_cursor_locked st scope" if "scope \<notin> set (ed_scopes d)" for scope c
  proof -
    have same: "scope_log scope (broadcast st') = ?log scope" using that by (simp add: log')
    show "cursor_positions st' (scope, c) = cursor_positions st (scope, c)"
    proof (cases "cursor_positions st (scope, c)")
      case None
      have "cursor_positions st' (scope, c) \<noteq> Some p" for p
        using None inv_positions [OF inv(1), of scope c p] inv_positions [OF inv(2), of scope c p] same by simp
      with None show ?thesis by (metis not_Some_eq)
    next
      case (Some p)
      then have "cursor_positions st' (scope, c) = Some p"
        using inv_positions [OF inv(1), of scope c p] inv_positions [OF inv(2), of scope c p] same by simp
      with Some show ?thesis by simp
    qed
    show "last_cursor_locked st' scope = last_cursor_locked st scope"
      by (simp only: last_cursor_result [OF inv(1) refl] last_cursor_result [OF inv(2) refl] same)
  qed
  have cursor: "\<exists>c. map_of (ce_cursors_by_scope ev) scope = Some c \<and> cursor_positions st (scope, c) = None \<and>
      (\<forall>c'. cursor_positions st' (scope, c') =
         (if c' = c then Some (length (?log scope)) else cursor_positions st (scope, c'))) \<and>
      last_cursor_locked st' scope = Some c" if scope: "scope \<in> set (ed_scopes d)" for scope
  proof (intro exI [of _ "cursor_id (Suc (length (?log scope)))"] conjI allI)
    let ?n = "length (?log scope)"
    have l': "scope_log scope (broadcast st') = ?log scope @ [ev]" using scope by (simp add: log')
    have "\<forall>p < length (scope_log scope (broadcast st')).
        map_of (ce_cursors_by_scope (scope_log scope (broadcast st') ! p)) scope = Some (cursor_id (Suc p))"
      using inv(2) by (simp add: event_inv_def scope_inv_def Let_def)
    from spec [OF this, of ?n] show "map_of (ce_cursors_by_scope ev) scope = Some (cursor_id (Suc ?n))"
      unfolding l' by simp
    show "last_cursor_locked st' scope = Some (cursor_id (Suc ?n))"
      using last_cursor_result [OF inv(2) refl, of scope] by (simp add: l')
    have "cursor_positions st (scope, cursor_id (Suc ?n)) \<noteq> Some p" for p
      using inv_positions [OF inv(1), of scope "cursor_id (Suc ?n)" p] by auto
    then show "cursor_positions st (scope, cursor_id (Suc ?n)) = None" by (metis not_Some_eq)
    fix c'
    show "cursor_positions st' (scope, c') =
        (if c' = cursor_id (Suc ?n) then Some ?n else cursor_positions st (scope, c'))"
    proof (cases "c' = cursor_id (Suc ?n)")
      case True
      then show ?thesis using inv_positions [OF inv(2), of scope c' ?n] by (simp add: l')
    next
      case False
      have "cursor_positions st' (scope, c') = Some p \<longleftrightarrow> cursor_positions st (scope, c') = Some p" for p
        using False inv_positions [OF inv(1), of scope c' p] inv_positions [OF inv(2), of scope c' p]
        by (auto simp: l' less_Suc_eq)
      then have "cursor_positions st' (scope, c') = cursor_positions st (scope, c')"
        by (metis not_Some_eq)
      with False show ?thesis by simp
    qed
  qed
  show ?thesis
    unfolding append_visible_def scope_events_log [OF inv(1) len(1)] scope_events_log [OF inv(2) len(2)] log'
    using none new pos cursor by (simp add: load_event_def)
qed

text \<open>Why an append may be refused.\<close>

definition refusal_reason :: "event_env \<Rightarrow> event_draft \<Rightarrow> append_options \<Rightarrow> event_store \<Rightarrow> bool" where
  "refusal_reason env d opts st \<longleftrightarrow>
     event_draft_validate env d \<noteq> Inr () \<or> append_options_validate opts \<noteq> Inr () \<or>
     isl (idempotency_digest env d) \<or>
     (\<exists>(scope, c) \<in> set (ao_expected_prior_cursors opts). scope \<notin> set (ed_scopes d) \<or> last_cursor_locked st scope \<noteq> Some c) \<or>
     (\<exists>i r. idempotency_identity opts = Inr (Some i) \<and> idempotency st i = Some r \<and>
        idempotency_digest env d \<noteq> Inr (ir_digest r))"

lemma refusal_has_reason:
  assumes inv: "event_inv st" and room: "Suc (length (broadcast st)) < 2 ^ 64"
    and refused: "fst (event_append env now d opts st) = Inl e"
  shows "refusal_reason env d opts st"
proof (rule ccontr)
  assume "\<not> refusal_reason env d opts st"
  then have ok: "event_draft_validate env d = Inr ()" "append_options_validate opts = Inr ()"
      "validate_expected_cursor_scopes env d (ao_expected_prior_cursors opts) = Inr ()"
      "validate_expected_prior_cursors env st (ao_expected_prior_cursors opts) = Inr ()"
    and digest: "\<not> isl (idempotency_digest env d)"
    and known: "\<And>i r. idempotency_identity opts = Inr (Some i) \<Longrightarrow> idempotency st i = Some r \<Longrightarrow>
      idempotency_digest env d = Inr (ir_digest r)"
    by (auto simp: refusal_reason_def expected_scopes_checked expected_cursors_checked)
  from digest obtain dg where dg: "idempotency_digest env d = Inr dg"
    by (cases "idempotency_digest env d") auto
  obtain identity where identity: "idempotency_identity opts = Inr identity"
    using ok(2) by (simp add: idempotency_identity_def)
  show False
  proof (cases "Option.bind identity (idempotency st)")
    case None
    from store_event_result [OF inv ok(1) room, of now identity dg] refused ok dg identity None show False
      by (auto simp: event_append_def)
  next
    case (Some r)
    then obtain i where i: "identity = Some i" "idempotency st i = Some r" by (cases identity) auto
    with known identity dg have "ir_digest r = dg" by simp
    moreover have "events st (ir_event_id r) \<noteq> None"
      using inv i(2) unfolding event_inv_def Let_def by blast
    ultimately show False using refused ok dg identity Some by (auto simp: event_append_def)
  qed
qed

text \<open>
  C25: Appending. In a store reached from the empty one by appends, an append is refused without any change,
  and then for a reason (an invalid draft or options, an idempotency basis that cannot be written, an
  expected cursor that is not the last of a scope of the draft, an identity recorded with another digest),
  answers with the event its idempotency identity already recorded and changes nothing, or adds one event
  that carries the draft, after checking every expected cursor against the last cursor of its scope. The
  added event is what every reader sees from then on: it loads under its new id, ends the listing of each
  scope of the draft (and of no other) and carries there a new cursor, the last of the scope, which names
  its place; it is broadcast, and all other events, listings and cursors stay as they were.
\<close>

theorem append_is_all_or_nothing:
  assumes "length calls < 2 ^ 64 - 2" "st = event_run env calls event_store_new"
    and "res = event_append env now d opts st"
  shows "append_refused res st \<and> refusal_reason env d opts st \<or> append_repeated env d opts res st \<or>
    append_added env d opts res st \<and> (\<exists>ev. fst res = Inr ev \<and> append_visible env d ev st (snd res))"
proof -
  have st: "event_inv st" "length (broadcast st) \<le> length calls"
    using event_run_new [OF _ assms(2)] assms(1) by simp_all
  then have room: "Suc (length (broadcast st)) < 2 ^ 64" using assms(1) by simp
  note result = event_append_result [OF st(1) room assms(3) [symmetric]]
  have "\<exists>ev. fst res = Inr ev \<and> append_visible env d ev st (snd res)" if "append_added env d opts res st"
    using that added_is_visible [OF st(1) _ room] result by (fastforce simp: append_added_def)
  moreover have "refusal_reason env d opts st" if "append_refused res st"
    using that refusal_has_reason [OF st(1) room] assms(3) by (auto simp: append_refused_def)
  ultimately show ?thesis using result by blast
qed

text \<open>
  C26: Idempotency. Once an append under an idempotency identity has succeeded, whatever is appended
  afterwards, a second append under it stores nothing: it answers with the first event when its draft has
  the same kind, payload, visibility, causation and correlation ids and the same scopes in the same order
  (its origin and schema version may differ), and is a conflict otherwise. It is assumed that the JSON
  text of the two idempotency bases differs when the bases do, that the second draft is valid and that the
  scopes of its expected cursors are among its own.
\<close>

theorem append_happens_once:
  assumes room: "length calls + length later < 2 ^ 64 - 2"
    and first: "event_append env now d opts (event_run env calls event_store_new) = (Inr ev, st1)"
    and identity: "idempotency_identity opts = Inr (Some i)" and st: "st = event_run env later st1"
    and digests: "idempotency_digest env d = Inr dg" "idempotency_digest env d' = Inr dg'"
    and distinguishes: "basis_bytes env (digest_basis d) = basis_bytes env (digest_basis d') \<Longrightarrow>
      digest_basis d = digest_basis d'"
    and valid: "event_draft_validate env d' = Inr ()"
      "validate_expected_cursor_scopes env d' (ao_expected_prior_cursors opts) = Inr ()"
  shows "event_append env now' d' opts st =
    (if ed_kind d' = ed_kind d \<and> ed_payload d' = ed_payload d \<and> ed_visibility d' = ed_visibility d \<and>
        ed_causation_id d' = ed_causation_id d \<and> ed_correlation_id d' = ed_correlation_id d \<and>
        ed_scopes d' = ed_scopes d
     then Inr ev
     else Inl (EvIdempotencyConflict (''idempotency identity reused with different input: writer_id='' @
            fst i @ '', idempotency_key='' @ snd i)), st)"
proof -
  define st0 where "st0 = event_run env calls event_store_new"
  have st0: "event_inv st0" "length (broadcast st0) \<le> length calls"
    using event_run_new [OF _ st0_def] room by simp_all
  from event_append_result [OF st0(1) _ first [folded st0_def]] st0(2) room
  have st1: "event_inv st1" and
    out: "append_repeated env d opts (Inr ev, st1) st0 \<or> append_added env d opts (Inr ev, st1) st0"
    by (auto simp: append_refused_def)
  have "recorded st1 i dg ev"
    using out identity digests(1) by (cases i) (auto simp: append_repeated_def append_added_def)
  moreover have "length (broadcast st1) \<le> Suc (length (broadcast st0))"
    using out by (auto simp: append_repeated_def append_added_def)
  ultimately have "event_inv st" "recorded st i dg ev"
    using event_run_result [OF st1, of later env] st0(2) room by (cases i; simp add: st)+
  note again = repeated_append [OF valid digests(2) identity this]
  have "dg' = dg \<longleftrightarrow> digest_basis d = digest_basis d'"
    using digests distinguishes by (auto simp: idempotency_digest_def split: sum.splits)
  also have "\<dots> \<longleftrightarrow> ed_kind d' = ed_kind d \<and> ed_payload d' = ed_payload d \<and> ed_visibility d' = ed_visibility d \<and>
      ed_causation_id d' = ed_causation_id d \<and> ed_correlation_id d' = ed_correlation_id d \<and>
      ed_scopes d' = ed_scopes d"
    by (auto simp: digest_basis_def)
  finally show ?thesis using again by simp
qed

text \<open>A page of a scope's log, with the cursor to go on with.\<close>

definition cursor_at :: "event_scope \<Rightarrow> canonical_event list \<Rightarrow> nat \<Rightarrow> string option" where
  "cursor_at scope l p = map_of (ce_cursors_by_scope (l ! p)) scope"

definition page_from :: "event_scope \<Rightarrow> canonical_event list \<Rightarrow> nat \<Rightarrow> nat \<Rightarrow> event_page" where
  "page_from scope l start limit =
     \<lparr>ep_events = take limit (drop start l),
      ep_next_cursor = (if start + limit < length l \<and> 0 < limit then cursor_at scope l (start + limit - 1) else None),
      ep_has_more = start + limit < length l\<rparr>"

text \<open>
  C28: Listing a scope pages through its log. Every event of the log has a cursor, and no two the same. From
  the start, or from the cursor of an event, a page holds the events that follow, up to the limit; it says
  whether there are more, and if so and the limit is not zero it names the cursor of its last event, from
  which the next page continues. A cursor that no event of the scope has is refused as expired.
\<close>

theorem listing_pages_through_log:
  assumes "length calls < 2 ^ 64 - 1" "st = event_run env calls event_store_new"
    and "l = scope_log scope (broadcast st)"
  shows "event_list env scope None limit st = Inr (page_from scope l 0 limit) \<and>
    (\<forall>p < length l. \<exists>c. cursor_at scope l p = Some c \<and> (\<forall>p' < length l. cursor_at scope l p' = Some c \<longrightarrow> p' = p) \<and>
       event_list env scope (Some c) limit st = Inr (page_from scope l (p + 1) limit)) \<and>
    (\<forall>c. (\<forall>p < length l. cursor_at scope l p \<noteq> Some c) \<longrightarrow>
       event_list env scope (Some c) limit st = Inl (EvCursorExpired c))"
proof -
  have inv: "event_inv st" by (rule event_run_new(1) [OF assms(1,2)])
  have cursor: "cursor_at scope l p = Some (cursor_id (Suc p))" if "p < length l" for p
    using inv that by (simp add: cursor_at_def event_inv_def scope_inv_def Let_def assms(3))
  note listed = list_locked_result [OF inv assms(3), folded event_list_def]
  have page: "event_list env scope from_cursor limit st = Inr (page_from scope l start limit)"
    if "read_start from_cursor l start" for from_cursor start
    using listed(1) [OF that, of env limit] cursor [of "start + limit - 1"] by (auto simp: page_from_def)
  have "event_list env scope (Some c) limit st = Inl (EvCursorExpired c)"
    if "\<forall>p < length l. cursor_at scope l p \<noteq> Some c" for c
  proof -
    have "\<not> read_start (Some c) l start" for start
    proof
      assume "read_start (Some c) l start"
      then have "start - 1 < length l" "c = cursor_id (Suc (start - 1))" by (auto simp: read_start_def)
      with that cursor show False by blast
    qed
    with listed(2) [of "Some c" env limit] show ?thesis by simp
  qed
  moreover have "event_list env scope (Some (cursor_id (Suc p))) limit st = Inr (page_from scope l (p + 1) limit)"
    if "p < length l" for p
    using page [of "Some (cursor_id (Suc p))" "p + 1"] that by (simp add: read_start_def)
  moreover have "event_list env scope None limit st = Inr (page_from scope l 0 limit)"
    using page [of None 0] by (simp add: read_start_def)
  ultimately show ?thesis using cursor by simp
qed

section \<open>Examples\<close>

definition ex_event_env :: event_env where
  "ex_event_env = \<lparr>basis_bytes = (\<lambda>b. Inr (eb_kind b)), debug_scope = (\<lambda>_. []), debug_family = (\<lambda>_. []),
     debug_event_id = (\<lambda>_. [])\<rparr>"

definition ex_event_draft :: "string \<Rightarrow> event_draft" where
  "ex_event_draft kind = \<lparr>ed_scopes = [ThreadEvents ''t'', RunEvents ''r''], ed_kind = kind, ed_payload = JNull,
     ed_causation_id = None, ed_correlation_id = None, ed_origin = ''test'', ed_visibility = EvPublic,
     ed_schema_version = 1\<rparr>"

definition ex_append_options :: append_options where
  "ex_append_options = \<lparr>ao_writer_id = Some ''w'', ao_idempotency_key = Some ''k'', ao_expected_prior_cursors = []\<rparr>"

definition ex_plain_options :: append_options where
  "ex_plain_options = \<lparr>ao_writer_id = None, ao_idempotency_key = None, ao_expected_prior_cursors = []\<rparr>"

lemma ex_draft_valid:
  "event_draft_validate ex_event_env (ex_event_draft kind) = Inr ()"
proof -
  have "\<not> is_blank ''t''" "\<not> is_blank ''r''" "\<not> is_blank ''test''" by code_simp+
  then show ?thesis
    by (simp add: event_draft_validate_def ex_event_draft_def validate_scope_set_def event_reject_blank_def
        derive_scope_ids_def set_optional_id_def)
qed

lemma ex_options_identity: "idempotency_identity ex_append_options = Inr (Some (''w'', ''k''))"
proof -
  have "\<not> is_blank ''w''" "\<not> is_blank ''k''" by code_simp+
  then show ?thesis
    by (simp add: idempotency_identity_def append_options_validate_def ex_append_options_def event_reject_blank_def)
qed

lemma append_is_all_or_nothing_witness:
  "let st = event_run ex_event_env [(5, ex_event_draft ''a'', ex_append_options)] event_store_new;
       res = event_append ex_event_env 6 (ex_event_draft ''b'') ex_plain_options st
   in append_refused res st \<and> refusal_reason ex_event_env (ex_event_draft ''b'') ex_plain_options st \<or> append_repeated ex_event_env (ex_event_draft ''b'') ex_plain_options res st \<or>
     append_added ex_event_env (ex_event_draft ''b'') ex_plain_options res st \<and>
       (\<exists>ev. fst res = Inr ev \<and> append_visible ex_event_env (ex_event_draft ''b'') ev st (snd res))"
  unfolding Let_def by (rule append_is_all_or_nothing [OF _ refl refl]) simp

lemma append_happens_once_witness:
  "\<exists>ev st1. event_append ex_event_env 5 (ex_event_draft ''a'') ex_append_options
      (event_run ex_event_env [] event_store_new) = (Inr ev, st1) \<and>
    event_append ex_event_env 7 (ex_event_draft ''a'') ex_append_options
      (event_run ex_event_env [(6, ex_event_draft ''b'', ex_plain_options)] st1) =
      (Inr ev, event_run ex_event_env [(6, ex_event_draft ''b'', ex_plain_options)] st1)"
proof -
  let ?res = "event_append ex_event_env 5 (ex_event_draft ''a'') ex_append_options (event_run ex_event_env [] event_store_new)"
  have "\<not> isl (fst ?res)" by code_simp
  then obtain ev st1 where first: "?res = (Inr ev, st1)" by (cases ?res; cases "fst ?res") auto
  have digest: "idempotency_digest ex_event_env (ex_event_draft ''a'') = Inr ''a''"
    by (simp add: ex_event_env_def ex_event_draft_def idempotency_digest_def digest_basis_def)
  have "validate_expected_cursor_scopes ex_event_env (ex_event_draft ''a'') (ao_expected_prior_cursors ex_append_options) = Inr ()"
    by (simp add: ex_append_options_def)
  from append_happens_once [OF _ first ex_options_identity refl digest digest refl ex_draft_valid this,
      of "[(6, ex_event_draft ''b'', ex_plain_options)]" 7] first show ?thesis by auto
qed

lemma listing_pages_through_log_witness:
  "let st = event_run ex_event_env [(5, ex_event_draft ''a'', ex_append_options), (6, ex_event_draft ''b'', ex_plain_options)]
         event_store_new;
       l = scope_log (RunEvents ''r'') (broadcast st)
   in event_list ex_event_env (RunEvents ''r'') None 1 st = Inr (page_from (RunEvents ''r'') l 0 1) \<and>
     (\<forall>p < length l. \<exists>c. event_list ex_event_env (RunEvents ''r'') (Some c) 5 st = Inr (page_from (RunEvents ''r'') l (p + 1) 5))"
  unfolding Let_def
  using listing_pages_through_log [OF _ refl refl,
      of "[(5, ex_event_draft ''a'', ex_append_options), (6, ex_event_draft ''b'', ex_plain_options)]"
        ex_event_env "RunEvents ''r''" 1]
    listing_pages_through_log [OF _ refl refl,
      of "[(5, ex_event_draft ''a'', ex_append_options), (6, ex_event_draft ''b'', ex_plain_options)]"
        ex_event_env "RunEvents ''r''" 5]
  by (simp del: event_run.simps) blast

end
