(* ===== verification/Event_Subscription.thy ===== *)
theory Event_Subscription
imports Event_Store_Correct "HOL-Library.Sublist"
begin

text \<open>
  Subscriptions to the event store while events are appended: what the stream of a subscription yields,
  between any appends, compared with the log of its scope. The broadcast channel is known by what its
  documentation promises: a receiver that is not too far behind gets the next event, one that is may be
  told how many it has lost.
\<close>

section \<open>The channel and the runs\<close>

definition broadcast_channel :: "event_recv \<Rightarrow> nat \<Rightarrow> bool" where
  "broadcast_channel recv cap \<longleftrightarrow> (\<forall>pos sent.
     if length sent \<le> pos then recv pos sent = (None, pos)
     else recv pos sent = (Some (Inr (sent ! pos)), Suc pos) \<or>
       cap < length sent - pos \<and> (\<exists>k > 0. pos + k \<le> length sent \<and> recv pos sent = (Some (Inl k), pos + k)))"

datatype stream_action = StreamAppend append_call | StreamNext

text \<open>The items a subscriber receives, appends of others in between.\<close>

fun stream_run :: "event_env \<Rightarrow> event_recv \<Rightarrow> stream_action list \<Rightarrow> subscription \<Rightarrow> event_store \<Rightarrow>
    (event_store_error + canonical_event) list \<times> subscription \<times> event_store" where
  "stream_run env recv [] sb st = ([], sb, st)"
| "stream_run env recv (StreamAppend call # acts) sb st = stream_run env recv acts sb (event_run env [call] st)"
| "stream_run env recv (StreamNext # acts) sb st =
     (let (item, sb') = stream_next recv st sb; (items, res) = stream_run env recv acts sb' st
      in ((case item of None \<Rightarrow> items | Some it \<Rightarrow> it # items), res))"

text \<open>A subscriber keeps up when no live item is asked for with more unread events than the channel holds.\<close>

fun keeps_up :: "event_env \<Rightarrow> event_recv \<Rightarrow> stream_action list \<Rightarrow> subscription \<Rightarrow> event_store \<Rightarrow> bool" where
  "keeps_up env recv [] sb st \<longleftrightarrow> True"
| "keeps_up env recv (StreamAppend call # acts) sb st \<longleftrightarrow> keeps_up env recv acts sb (event_run env [call] st)"
| "keeps_up env recv (StreamNext # acts) sb st \<longleftrightarrow>
     (sb_history sb \<noteq> [] \<or> length (broadcast st) - sb_position sb \<le> event_broadcast_capacity) \<and>
     keeps_up env recv acts (snd (stream_next recv st sb)) st"

definition received :: "(event_store_error + canonical_event) list \<Rightarrow> canonical_event list" where
  "received items = concat (map (case_sum (\<lambda>_. []) (\<lambda>ev. [ev])) items)"

lemma received_simps [simp]:
  "received [] = []" "received (Inl e # items) = received items" "received (Inr ev # items) = ev # received items"
  by (simp_all add: received_def)

text \<open>What a subscription has still to yield of the events sent.\<close>

definition unread :: "subscription \<Rightarrow> canonical_event list \<Rightarrow> canonical_event list" where
  "unread sb sent = sb_history sb @ scope_log (sb_scope sb) (drop (sb_position sb) sent)"

lemma unread_append: "sb_position sb \<le> length sent \<Longrightarrow> unread sb (sent @ new) = unread sb sent @ scope_log (sb_scope sb) new"
  by (simp add: unread_def)

definition lag_report :: "event_store_error \<Rightarrow> bool" where
  "lag_report e \<longleftrightarrow> (\<exists>k > 0. e = EvIntegrity (''event subscriber lagged by '' @ show_nat k @ '' messages''))"

section \<open>One item\<close>

lemma scope_log_Cons: "scope_log scope (ev # log) = (if scope \<in> set (ce_scopes ev) then ev # scope_log scope log else scope_log scope log)"
  by (simp add: scope_log_def)

lemma live_next_result:
  assumes channel: "broadcast_channel recv cap"
  shows "live_next recv scope sent fuel pos = (item, pos') \<Longrightarrow> pos \<le> length sent \<Longrightarrow> length sent - pos < fuel \<Longrightarrow>
    pos' \<le> length sent \<and>
    (case item of
       None \<Rightarrow> scope_log scope (drop pos sent) = [] \<and> scope_log scope (drop pos' sent) = []
     | Some (Inr ev) \<Rightarrow> scope_log scope (drop pos sent) = ev # scope_log scope (drop pos' sent)
     | Some (Inl e) \<Rightarrow> lag_report e \<and> cap < length sent - pos \<and>
         subseq (scope_log scope (drop pos' sent)) (scope_log scope (drop pos sent)))"
proof (induction fuel arbitrary: pos)
  case (Suc fuel)
  show ?case
  proof (cases "length sent \<le> pos")
    case True
    then have "recv pos sent = (None, pos)" using channel by (simp add: broadcast_channel_def)
    with Suc.prems True show ?thesis by (auto simp: scope_log_def)
  next
    case False
    then consider (event) "recv pos sent = (Some (Inr (sent ! pos)), Suc pos)"
      | (lost) k where "0 < k" "pos + k \<le> length sent" "cap < length sent - pos" "recv pos sent = (Some (Inl k), pos + k)"
      using channel unfolding broadcast_channel_def by metis
    then show ?thesis
    proof cases
      case event
      from False have drop: "drop pos sent = sent ! pos # drop (Suc pos) sent" by (simp add: Cons_nth_drop_Suc)
      show ?thesis
      proof (cases "scope \<in> set (ce_scopes (sent ! pos))")
        case True
        with Suc.prems(1) event False show ?thesis by (auto simp: drop scope_log_Cons)
      next
        case other: False
        with Suc.prems(1) event have "live_next recv scope sent fuel (Suc pos) = (item, pos')" by simp
        note Suc.IH [OF this]
        moreover have "Suc pos \<le> length sent" "length sent - Suc pos < fuel"
          "cap < length sent - Suc pos \<Longrightarrow> cap < length sent - pos" using Suc.prems(3) False by auto
        ultimately show ?thesis using other by (auto simp: drop scope_log_Cons split: option.splits sum.splits)
      qed
    next
      case lost
      have "drop (pos + k) sent = drop k (drop pos sent)" by (simp add: add.commute)
      then have "subseq (drop (pos + k) sent) (drop pos sent)"
        by (metis append_take_drop_id list_emb_append2 subseq_order.order_refl)
      then have "subseq (scope_log scope (drop (pos + k) sent)) (scope_log scope (drop pos sent))"
        unfolding scope_log_def by (rule subseq_filter)
      with Suc.prems(1) lost show ?thesis by (auto simp: lag_report_def)
    qed
  qed
qed simp

lemma stream_next_result:
  assumes channel: "broadcast_channel recv cap" and step: "stream_next recv st sb = (item, sb')"
    and pos: "sb_position sb \<le> length (broadcast st)"
  shows "sb_scope sb' = sb_scope sb \<and> sb_position sb' \<le> length (broadcast st) \<and>
    (case item of
       None \<Rightarrow> unread sb (broadcast st) = [] \<and> unread sb' (broadcast st) = []
     | Some (Inr ev) \<Rightarrow> unread sb (broadcast st) = ev # unread sb' (broadcast st)
     | Some (Inl e) \<Rightarrow> lag_report e \<and> sb_history sb = [] \<and> cap < length (broadcast st) - sb_position sb \<and>
         subseq (unread sb' (broadcast st)) (unread sb (broadcast st)))"
proof (cases "sb_history sb")
  case Nil
  obtain it p where live: "live_next recv (sb_scope sb) (broadcast st) (Suc (length (broadcast st))) (sb_position sb) = (it, p)"
    by fastforce
  with step Nil have "item = it" "sb' = sb\<lparr>sb_position := p\<rparr>" by (simp_all add: stream_next_def)
  with live_next_result [OF channel live pos] Nil show ?thesis
    by (auto simp: unread_def split: option.splits sum.splits)
next
  case (Cons ev evs)
  with step pos show ?thesis by (auto simp: stream_next_def unread_def)
qed

section \<open>All items\<close>

lemma stream_run_result:
  assumes channel: "broadcast_channel recv event_broadcast_capacity"
  shows "stream_run env recv acts sb st = (items, sb', st') \<Longrightarrow> event_inv st \<Longrightarrow>
    length (broadcast st) + length acts < 2 ^ 64 - 1 \<Longrightarrow> sb_position sb \<le> length (broadcast st) \<Longrightarrow>
    event_inv st' \<and> (\<exists>new. broadcast st' = broadcast st @ new) \<and> sb_scope sb' = sb_scope sb \<and>
    sb_position sb' \<le> length (broadcast st') \<and>
    subseq (received items @ unread sb' (broadcast st')) (unread sb (broadcast st')) \<and>
    (\<forall>e. Inl e \<in> set items \<longrightarrow> lag_report e) \<and>
    ((\<forall>item \<in> set items. \<not> isl item) \<longrightarrow> received items @ unread sb' (broadcast st') = unread sb (broadcast st')) \<and>
    (keeps_up env recv acts sb st \<longrightarrow> (\<forall>item \<in> set items. \<not> isl item))"
proof (induction acts arbitrary: sb st items)
  case Nil
  then show ?case by simp
next
  case (Cons act acts)
  show ?case
  proof (cases act)
    case (StreamAppend call)
    define st1 where "st1 = event_run env [call] st"
    from event_run_result [OF Cons.prems(2), of "[call]" env] Cons.prems(3) obtain new1 where
      st1: "event_inv st1" "length (broadcast st1) \<le> Suc (length (broadcast st))" "broadcast st1 = broadcast st @ new1"
      by (auto simp: st1_def)
    have "stream_run env recv acts sb st1 = (items, sb', st')"
      using Cons.prems(1) StreamAppend by (simp add: st1_def)
    from Cons.IH [OF this st1(1)] st1(2,3) Cons.prems(3,4) StreamAppend show ?thesis
      by (auto simp: st1_def [symmetric] simp del: event_run.simps)
  next
    case StreamNext
    obtain item sb1 where step: "stream_next recv st sb = (item, sb1)" by fastforce
    obtain items1 where rest: "stream_run env recv acts sb1 st = (items1, sb', st')"
      and items: "items = (case item of None \<Rightarrow> items1 | Some it \<Rightarrow> it # items1)"
      using Cons.prems(1) StreamNext step by (auto split: prod.splits)
    note next_item = stream_next_result [OF channel step Cons.prems(4)]
    from Cons.IH [OF rest Cons.prems(2)] Cons.prems(3) next_item obtain new where
      new: "event_inv st'" "broadcast st' = broadcast st @ new" and
      IH: "sb_scope sb' = sb_scope sb" "sb_position sb' \<le> length (broadcast st')"
      "subseq (received items1 @ unread sb' (broadcast st')) (unread sb1 (broadcast st'))"
      "\<forall>e. Inl e \<in> set items1 \<longrightarrow> lag_report e"
      "(\<forall>item \<in> set items1. \<not> isl item) \<longrightarrow> received items1 @ unread sb' (broadcast st') = unread sb1 (broadcast st')"
      "keeps_up env recv acts sb1 st \<longrightarrow> (\<forall>item \<in> set items1. \<not> isl item)" by (clarsimp simp del: event_run.simps)
    have ext: "unread sb (broadcast st') = unread sb (broadcast st) @ scope_log (sb_scope sb) new"
      "unread sb1 (broadcast st') = unread sb1 (broadcast st) @ scope_log (sb_scope sb) new"
      using unread_append Cons.prems(4) next_item by (simp_all add: new(2))
    show ?thesis
    proof (cases item)
      case None
      with next_item IH ext new items StreamNext step show ?thesis by auto
    next
      case (Some it)
      show ?thesis
      proof (cases it)
        case (Inl e)
        have "subseq (unread sb1 (broadcast st')) (unread sb (broadcast st'))"
          using next_item Some Inl unfolding ext by (auto intro: list_emb_append_mono)
        with IH(3) have "subseq (received items1 @ unread sb' (broadcast st')) (unread sb (broadcast st'))"
          by (rule subseq_order.order_trans)
        with next_item IH new items StreamNext step Some Inl show ?thesis by auto
      next
        case (Inr ev)
        with next_item IH ext new items StreamNext step Some show ?thesis by auto
      qed
    qed
  qed
qed

section \<open>Opening a subscription\<close>

lemma subscribed:
  assumes inv: "event_inv st" and room: "length (broadcast st) < 2 ^ 64"
    and sub: "event_subscribe env scope from st = Inr sb" and log: "log = scope_log scope (broadcast st)"
  shows "\<exists>start. (case from of FromStart \<Rightarrow> start = 0
      | FromCursor c \<Rightarrow> 0 < start \<and> c = cursor_id start | FromNow \<Rightarrow> start = length log) \<and>
    start \<le> length log \<and>
    sb_scope sb = scope \<and> sb_history sb = drop start log \<and> sb_position sb = length (broadcast st)"
proof -
  have "length log \<le> 2 ^ 64 - 1" unfolding log scope_log_def
    by (rule order_trans [OF length_filter_le]) (use room in simp)
  then have whole: "take (2 ^ 64 - 1 - n) (drop n log) = drop n log" "take (2 ^ 64 - 1) (drop n log) = drop n log" for n
    by simp_all
  note listed = list_locked_result [OF inv log]
  show ?thesis
  proof (cases "from")
    case FromStart
    have "read_start None log 0" by (simp add: read_start_def)
    from sub listed(1) [OF this] FromStart whole(2) [of 0] show ?thesis
      by (intro exI [of _ 0]) (auto simp: event_subscribe_def Let_def)
  next
    case (FromCursor c)
    then obtain start where start: "read_start (Some c) log start"
      using sub listed(2) [of "Some c"] by (fastforce simp: event_subscribe_def Let_def)
    from sub listed(1) [OF start] FromCursor start whole(2) [of start] show ?thesis
      by (intro exI [of _ start]) (auto simp: event_subscribe_def Let_def read_start_def)
  next
    case FromNow
    with sub show ?thesis
      by (intro exI [of _ "length log"]) (auto simp: event_subscribe_def Let_def)
  qed
qed

lemma event_log_distinct:
  assumes "event_inv st"
  shows "distinct (broadcast st)"
proof -
  have "map ce_event_id (broadcast st) = map event_mem_id [1..<Suc (length (broadcast st))]"
    using assms unfolding event_inv_def Let_def by blast
  then have "distinct (map ce_event_id (broadcast st))" by (simp add: distinct_map inj_on_def)
  then show ?thesis by (simp add: distinct_map)
qed

text \<open>Nobody falls behind while the channel can hold everything that was ever sent.\<close>

lemma small_run_keeps_up:
  "event_inv st \<Longrightarrow> length (broadcast st) + length acts \<le> event_broadcast_capacity \<Longrightarrow> keeps_up env recv acts sb st"
proof (induction acts arbitrary: sb st)
  case (Cons act acts)
  show ?case
  proof (cases act)
    case (StreamAppend call)
    from event_run_result [OF Cons.prems(1), of "[call]" env] Cons.prems(2)
    have "event_inv (event_run env [call] st)" "length (broadcast (event_run env [call] st)) \<le> Suc (length (broadcast st))"
      by (auto simp: event_broadcast_capacity_def)
    with Cons.IH [of "event_run env [call] st" sb] Cons.prems(2) StreamAppend show ?thesis
      by (simp del: event_run.simps)
  next
    case StreamNext
    from Cons.prems(2) have "length (broadcast st) - sb_position sb \<le> event_broadcast_capacity" by linarith
    with Cons StreamNext show ?thesis by simp
  qed
qed simp

section \<open>Properties\<close>

text \<open>
  C27: a subscription yields the events of its scope in the order of the log and each at most once,
  starting with the first event, with the one after the given cursor, or with the next one appended,
  whatever is appended between the reads (a rollback of the store is not among these calls). As long as no item is an error none is left out: the items are
  an initial part of the log from the start on, and all of it once the stream has nothing more to give.
  An error item always reports a number of events lost, and a subscriber that keeps up, having never more
  than the 1024 events of the channel unread when it reads a live event, sees no error.
\<close>

theorem subscription_misses_nothing:
  assumes room: "length calls + length acts < 2 ^ 64 - 1"
    and st: "st = event_run env calls event_store_new"
    and sub: "event_subscribe env scope from st = Inr sb"
    and channel: "broadcast_channel recv event_broadcast_capacity"
    and run: "stream_run env recv acts sb st = (items, sb', st')"
    and log: "log = scope_log scope (broadcast st)" "log' = scope_log scope (broadcast st')"
  shows "\<exists>start. (case from of FromStart \<Rightarrow> start = 0
      | FromCursor c \<Rightarrow> 0 < start \<and> c = cursor_id start | FromNow \<Rightarrow> start = length log) \<and>
    start \<le> length log \<and> take (length log) log' = log \<and> distinct log' \<and>
    subseq (received items) (drop start log') \<and>
    (\<forall>e. Inl e \<in> set items \<longrightarrow> lag_report e) \<and>
    ((\<forall>item \<in> set items. \<not> isl item) \<longrightarrow> prefix (received items) (drop start log') \<and>
       (fst (stream_next recv st' sb') = None \<longrightarrow> received items = drop start log')) \<and>
    (keeps_up env recv acts sb st \<longrightarrow> (\<forall>item \<in> set items. \<not> isl item))"
proof -
  have inv: "event_inv st" and len: "length (broadcast st) \<le> length calls"
    using event_run_new [OF _ st] room by simp_all
  from subscribed [OF inv _ sub log(1)] len room obtain start where
    start: "case from of FromStart \<Rightarrow> start = 0 | FromCursor c \<Rightarrow> 0 < start \<and> c = cursor_id start
      | FromNow \<Rightarrow> start = length log" "start \<le> length log" and
    sb: "sb_scope sb = scope" "sb_history sb = drop start log" "sb_position sb = length (broadcast st)" by auto
  have "length (broadcast st) + length acts < 2 ^ 64 - 1" using len room by simp
  note result = stream_run_result [OF channel run inv this]
  from result sb(3) obtain new where new: "broadcast st' = broadcast st @ new" by auto
  have unread: "unread sb (broadcast st') = drop start log'"
    using sb start(2) by (simp add: unread_def new log)
  have "fst (stream_next recv st' sb') = None \<Longrightarrow> unread sb' (broadcast st') = []"
    using stream_next_result [OF channel, of st' sb' None] result sb(3) by (cases "stream_next recv st' sb'") auto
  moreover have "subseq (received items) (drop start log')"
    by (rule subseq_order.order_trans [OF subseq_rev_drop_many [OF subseq_order.order_refl, of _ "unread sb' (broadcast st')"]])
      (use result sb(3) unread in simp)
  moreover have "distinct log'"
    using result sb(3) event_log_distinct unfolding log scope_log_def by auto
  moreover have "take (length log) log' = log" by (simp add: new log)
  moreover have "\<forall>e. Inl e \<in> set items \<longrightarrow> lag_report e"
    "keeps_up env recv acts sb st \<longrightarrow> (\<forall>item \<in> set items. \<not> isl item)"
    "(\<forall>item \<in> set items. \<not> isl item) \<longrightarrow> received items @ unread sb' (broadcast st') = drop start log'"
    using result sb(3) unread by simp_all
  ultimately show ?thesis
    using start by (intro exI [of _ start]) (metis append_Nil2 prefixI)
qed

section \<open>Example\<close>

text \<open>A channel that keeps exactly the last events, as the ring buffer of the library does.\<close>

definition ring_recv :: "nat \<Rightarrow> event_recv" where
  "ring_recv cap pos sent =
     (if length sent \<le> pos then (None, pos)
      else if length sent - pos \<le> cap then (Some (Inr (sent ! pos)), Suc pos)
      else (Some (Inl (length sent - pos - cap)), length sent - cap))"

lemma ring_recv_channel: "broadcast_channel (ring_recv cap) cap"
  by (auto simp: broadcast_channel_def ring_recv_def)

lemma subscription_misses_nothing_witness:
  "\<exists>sb items sb' st'. let st = event_run ex_event_env [(5, ex_event_draft ''a'', ex_append_options)] event_store_new;
       acts = [StreamNext, StreamAppend (6, ex_event_draft ''b'', ex_plain_options), StreamNext]
   in event_subscribe ex_event_env (ThreadEvents ''t'') FromStart st = Inr sb \<and>
     stream_run ex_event_env (ring_recv 1024) acts sb st = (items, sb', st') \<and>
     (\<forall>item \<in> set items. \<not> isl item) \<and> prefix (received items) (scope_log (ThreadEvents ''t'') (broadcast st'))"
proof -
  define st where "st = event_run ex_event_env [(5, ex_event_draft ''a'', ex_append_options)] event_store_new"
  define acts where "acts = [StreamNext, StreamAppend (6, ex_event_draft ''b'', ex_plain_options), StreamNext]"
  have inv: "event_inv st" "length (broadcast st) \<le> 1" using event_run_new [OF _ st_def] by simp_all
  from list_locked_result(1) [OF inv(1) refl, of None "ThreadEvents ''t''" 0 ex_event_env "2 ^ 64 - 1"] obtain sb where
    sb: "event_subscribe ex_event_env (ThreadEvents ''t'') FromStart st = Inr sb"
    by (simp add: event_subscribe_def read_start_def Let_def)
  obtain items sb' st' where run: "stream_run ex_event_env (ring_recv event_broadcast_capacity) acts sb st = (items, sb', st')"
    by (cases "stream_run ex_event_env (ring_recv event_broadcast_capacity) acts sb st")
  have up: "keeps_up ex_event_env (ring_recv event_broadcast_capacity) acts sb st"
    by (rule small_run_keeps_up [OF inv(1)]) (use inv(2) in \<open>simp add: acts_def event_broadcast_capacity_def\<close>)
  from subscription_misses_nothing [OF _ st_def sb ring_recv_channel run refl refl] up
  have "(\<forall>item \<in> set items. \<not> isl item) \<and> prefix (received items) (scope_log (ThreadEvents ''t'') (broadcast st'))"
    by (auto simp: acts_def)
  with sb run show ?thesis unfolding event_broadcast_capacity_def
    by (intro exI [of _ sb] exI [of _ items] exI [of _ sb'] exI [of _ st'])
      (simp add: Let_def st_def [symmetric] acts_def [symmetric] del: event_run.simps)
qed

end
