(* ===== verification/Registry.thy ===== *)
theory Registry
imports Tool_Pattern Ordered_Map
begin

text \<open>
  The published, versioned configuration registry: canonical JSON and content hashes
  (\<^verbatim>\<open>remo-server-contract/src/contract/pinned_registry.rs\<close>), the contract with its default methods
  and the typed view (\<^verbatim>\<open>versioned_registry/mod.rs\<close>), and the in-memory store
  (\<^verbatim>\<open>remo-stores/src/memory_versioned_registry.rs\<close>).

  The JSON writer of scalars, the test whether a number is finite, SHA-256 in hexadecimal and the
  display of JSON in messages are parameters (external crates); the clock reading is an argument.
  Locks are never poisoned. The table of versions is iterated by the purge only, in an order that
  is an argument.
\<close>

section \<open>Canonical JSON and content hashes\<close>

record registry_env =
  scalar_text :: "json \<Rightarrow> string + string"
  non_finite :: "string \<Rightarrow> string option"
  sha256_hex :: "string \<Rightarrow> string"
  json_display :: "json \<Rightarrow> string"

datatype pinned_hash_error = HashSerialization string | HashInvalidRequest string

text \<open>\<^verbatim>\<open>collect::<Result<Vec<_>, _>>()\<close>: the first error, or all results.\<close>

fun collect_results :: "('e + 'a) list \<Rightarrow> 'e + 'a list" where
  "collect_results [] = Inr []"
| "collect_results (Inl e # rs) = Inl e"
| "collect_results (Inr x # rs) = (case collect_results rs of Inl e \<Rightarrow> Inl e | Inr xs \<Rightarrow> Inr (x # xs))"

lemma collect_results_Inr: "collect_results rs = Inr xs \<longleftrightarrow> rs = map Inr xs"
proof (induction rs arbitrary: xs)
  case (Cons r rs)
  show ?case
  proof (cases r)
    case (Inr x)
    show ?thesis
    proof (cases "collect_results rs")
      case (Inl e)
      with Cons.IH Inr show ?thesis by (auto simp: Cons_eq_map_conv)
    next
      case (Inr ys)
      with Cons.IH [of ys] \<open>r = Inr x\<close> show ?thesis by (auto simp: Cons_eq_map_conv inj_map_eq_map)
    qed
  qed auto
qed auto

text \<open>The parts with commas between them.\<close>

fun comma_separated :: "string list \<Rightarrow> string" where
  "comma_separated [] = []"
| "comma_separated [p] = p"
| "comma_separated (p # q # ps) = p @ '','' @ comma_separated (q # ps)"

text \<open>The members of an object with their keys written.\<close>

definition encoded_entries :: "registry_env \<Rightarrow> (string \<times> json) list \<Rightarrow> pinned_hash_error + (string \<times> json) list" where
  "encoded_entries env members = collect_results (map (\<lambda>(k, v). case scalar_text env (JString k) of
      Inl e \<Rightarrow> Inl (HashSerialization e) | Inr encoded \<Rightarrow> Inr (encoded, v)) members)"

lemma encoded_entries_values:
  assumes "encoded_entries env members = Inr entries" "(kb, v) \<in> set entries"
  shows "\<exists>k. (k, v) \<in> set members \<and> scalar_text env (JString k) = Inr kb"
proof -
  have "Inr (kb, v) \<in> set (map (\<lambda>(k, v). case scalar_text env (JString k) of
      Inl e \<Rightarrow> Inl (HashSerialization e) | Inr encoded \<Rightarrow> Inr (encoded, v)) members)"
    using assms unfolding encoded_entries_def collect_results_Inr by simp
  then show ?thesis by (auto split: sum.splits)
qed

lemma member_size: "(k, v) \<in> set members \<Longrightarrow> size v < Suc (size_list (size_prod (\<lambda>_. 0) size) members)"
  by (induction members) (auto simp: less_Suc_eq_le trans_le_add2)

function write_canonical_json :: "registry_env \<Rightarrow> json \<Rightarrow> pinned_hash_error + string" where
  "write_canonical_json env JNull = map_sum HashSerialization id (scalar_text env JNull)"
| "write_canonical_json env (JBool b) = map_sum HashSerialization id (scalar_text env (JBool b))"
| "write_canonical_json env (JString s) = map_sum HashSerialization id (scalar_text env (JString s))"
| "write_canonical_json env (JNumber n) = (case non_finite env n of
      Some float \<Rightarrow> Inl (HashInvalidRequest (''non-finite number cannot be canonicalized: '' @ float))
    | None \<Rightarrow> map_sum HashSerialization id (scalar_text env (JNumber n)))"
| "write_canonical_json env (JArray items) =
     (case collect_results (map (write_canonical_json env) items) of
        Inl e \<Rightarrow> Inl e
      | Inr parts \<Rightarrow> Inr (''['' @ comma_separated parts @ '']''))"
| "write_canonical_json env (JObject members) =
     (case encoded_entries env members of
        Inl e \<Rightarrow> Inl e
      | Inr entries \<Rightarrow>
          (case collect_results (map (\<lambda>(kb, v). case write_canonical_json env v of
               Inl e \<Rightarrow> Inl e | Inr text \<Rightarrow> Inr (kb @ '':'' @ text)) (sort_key fst entries)) of
             Inl e \<Rightarrow> Inl e
           | Inr parts \<Rightarrow> Inr (''{'' @ comma_separated parts @ ''}'')))"
  by pat_completeness auto
termination
proof (relation "measure (size \<circ> snd)", goal_cases)
  case (2 env items x)
  then show ?case by (induction items) auto
next
  case (3 env members entries x kb v)
  then have "(kb, v) \<in> set entries" by simp
  from encoded_entries_values [OF 3(1) this] show ?case by (auto dest: member_size)
qed simp

definition canonical_registry_json_bytes :: "registry_env \<Rightarrow> u32 \<Rightarrow> json \<Rightarrow> pinned_hash_error + string" where
  "canonical_registry_json_bytes env schema v =
     (case write_canonical_json env v of
        Inl e \<Rightarrow> Inl e
      | Inr v_text \<Rightarrow>
          (case write_canonical_json env (JNumber (show_nat (unat schema))) of
             Inl e \<Rightarrow> Inl e
           | Inr schema_text \<Rightarrow> Inr (''{'' @ [CHR 0x22] @ ''value'' @ [CHR 0x22] @ '':'' @ v_text @
               '','' @ [CHR 0x22] @ ''value_schema_version'' @ [CHR 0x22] @ '':'' @ schema_text @ ''}'')))"

definition content_digest :: "registry_env \<Rightarrow> string \<Rightarrow> string" where
  "content_digest env bytes = ''sha256:'' @ sha256_hex env bytes"

definition canonical_content_hash :: "registry_env \<Rightarrow> u32 \<Rightarrow> json \<Rightarrow> pinned_hash_error + (string \<times> string)" where
  "canonical_content_hash env schema v =
     (case canonical_registry_json_bytes env schema v of
        Inl e \<Rightarrow> Inl e
      | Inr bytes \<Rightarrow> Inr (content_digest env bytes, bytes))"

section \<open>The contract\<close>

record version_ref =
  vr_kind :: string
  vr_id :: string
  vr_version :: u64

record 'v versioned_record =
  rc_kind :: string
  rc_id :: string
  rc_version :: u64
  rc_content_hash :: string
  rc_schema :: u32
  rc_value :: 'v
  rc_bytes :: string
  rc_created_at :: u64
  rc_metadata :: json

datatype 'v publish_outcome = PublishCreated "'v versioned_record" | PublishNoop "'v versioned_record"

record resource_publish =
  rp_kind :: string
  rp_id :: string
  rp_value :: json
  rp_schema :: u32
  rp_metadata :: json

record versioned_resource_state =
  vs_scope_id :: string
  vs_kind :: string
  vs_id :: string
  vs_current_version :: "u64 option"
  vs_archived_at :: "u64 option"
  vs_created_at :: u64
  vs_updated_at :: u64
  vs_metadata :: json

record config_revision_ref =
  cr_namespace :: string
  cr_id :: string
  cr_revision :: u64

record registry_publication =
  pb_publication_id :: string
  pb_scope_id :: string
  pb_snapshot_version :: u64
  pb_entries :: "version_ref list"
  pb_source_revisions :: "config_revision_ref list"
  pb_created_by :: "string option"
  pb_created_at :: u64
  pb_metadata :: json

record pinned_entry =
  pe_kind :: string
  pe_id :: string
  pe_version :: u64
  pe_content_hash :: string

record pinned_manifest =
  pm_publication_id :: "string option"
  pm_snapshot_version :: "u64 option"
  pm_entries :: "pinned_entry list"

datatype registry_error =
    RegNotFound string
  | RegArchived string string
  | RegAlreadyExists string
  | RegInvalidRequest string
  | RegIncompatibleSchema string string u64 u32 "u32 list"
  | RegSerialization string
  | RegBackend string

fun registry_error_of_hash :: "pinned_hash_error \<Rightarrow> registry_error" where
  "registry_error_of_hash (HashSerialization m) = RegSerialization m"
| "registry_error_of_hash (HashInvalidRequest m) = RegInvalidRequest m"

definition registry_content_hash :: "registry_env \<Rightarrow> u32 \<Rightarrow> json \<Rightarrow> registry_error + (string \<times> string)" where
  "registry_content_hash env schema v = map_sum registry_error_of_hash id (canonical_content_hash env schema v)"

definition show_version :: "string \<Rightarrow> string \<Rightarrow> u64 \<Rightarrow> string" where
  "show_version kind rid v = kind @ ''/'' @ rid @ ''@'' @ show_nat (unat v)"

definition verify_content_hash :: "registry_env \<Rightarrow> 'v versioned_record \<Rightarrow> registry_error + unit" where
  "verify_content_hash env rec =
     (let actual = content_digest env (rc_bytes rec) in
      if actual \<noteq> rc_content_hash rec
      then Inl (RegBackend (''stored content_hash '' @ rc_content_hash rec @ '' does not match recomputed digest '' @
             actual @ '' for '' @ show_version (rc_kind rec) (rc_id rec) (rc_version rec)))
      else Inr ())"

definition ensure_not_archived :: "versioned_resource_state \<Rightarrow> string \<Rightarrow> string \<Rightarrow> registry_error + unit" where
  "ensure_not_archived s kind rid = (if vs_archived_at s \<noteq> None then Inl (RegArchived kind rid) else Inr ())"

record retention_policy =
  keep_last_versions :: "u64 option"
  keep_younger_than_ms :: "u64 option"
  protected_versions :: "version_ref list"

definition sort_publication_entries :: "version_ref list \<Rightarrow> version_ref list" where
  "sort_publication_entries entries = sort_key (\<lambda>v. (vr_kind v, vr_id v)) entries"

fun value_kind_name :: "json \<Rightarrow> string" where
  "value_kind_name JNull = ''null''"
| "value_kind_name (JBool _) = ''bool''"
| "value_kind_name (JNumber _) = ''number''"
| "value_kind_name (JString _) = ''string''"
| "value_kind_name (JArray _) = ''array''"
| "value_kind_name (JObject _) = ''object''"

definition json_u64 :: "u64 \<Rightarrow> json" where
  "json_u64 n = JNumber (show_nat (unat n))"

definition build_rollback_metadata :: "registry_env \<Rightarrow> json \<Rightarrow> u64 \<Rightarrow> registry_error + json" where
  "build_rollback_metadata env metadata to_version =
     (case (case metadata of JNull \<Rightarrow> Inr [] | JObject members \<Rightarrow> Inr members
        | other \<Rightarrow> Inl (RegInvalidRequest (''rollback metadata must be a JSON object or null, got '' @ value_kind_name other))) of
        Inl e \<Rightarrow> Inl e
      | Inr object \<Rightarrow>
          (case map_of object ''restored_from'' of
             Some existing \<Rightarrow>
               if existing \<noteq> json_u64 to_version
               then Inl (RegInvalidRequest (''rollback metadata.restored_from must be '' @ show_nat (unat to_version) @
                      '', got '' @ json_display env existing))
               else Inr (JObject (bt_insert ''restored_from'' (json_u64 to_version) object))
           | None \<Rightarrow> Inr (JObject (bt_insert ''restored_from'' (json_u64 to_version) object))))"

section \<open>The in-memory store\<close>

type_synonym resource_key = "string \<times> string \<times> string"

record registry_store =
  rg_resources :: "resource_key \<rightharpoonup> versioned_resource_state"
  rg_versions :: "resource_key \<rightharpoonup> json versioned_record list"
  rg_publications :: "string \<rightharpoonup> (u64, registry_publication) btree"

definition registry_new :: registry_store where
  "registry_new = \<lparr>rg_resources = Map.empty, rg_versions = Map.empty, rg_publications = Map.empty\<rparr>"

definition resource_name :: "string \<Rightarrow> string \<Rightarrow> string" where
  "resource_name kind rid = kind @ ''/'' @ rid"

definition records_of :: "registry_store \<Rightarrow> resource_key \<Rightarrow> json versioned_record list" where
  "records_of st key = (case rg_versions st key of None \<Rightarrow> [] | Some rs \<Rightarrow> rs)"

definition publications_of :: "registry_store \<Rightarrow> string \<Rightarrow> (u64, registry_publication) btree" where
  "publications_of st scope = (case rg_publications st scope of None \<Rightarrow> [] | Some ps \<Rightarrow> ps)"

definition find_version :: "u64 \<Rightarrow> json versioned_record list \<Rightarrow> json versioned_record option" where
  "find_version v rs = find (\<lambda>rec. rc_version rec = v) rs"

definition current_record :: "registry_store \<Rightarrow> resource_key \<Rightarrow> json versioned_record option" where
  "current_record st key = (case rg_resources st key of
      None \<Rightarrow> None
    | Some s \<Rightarrow> (case vs_current_version s of
        None \<Rightarrow> None
      | Some v \<Rightarrow> (case rg_versions st key of None \<Rightarrow> None | Some rs \<Rightarrow> find_version v rs)))"

definition upsert_resource_state :: "string \<Rightarrow> string \<Rightarrow> string \<Rightarrow> u64 \<Rightarrow> u64 \<Rightarrow> json \<Rightarrow> registry_store \<Rightarrow> registry_store" where
  "upsert_resource_state scope kind rid v now metadata st =
     st\<lparr>rg_resources := (rg_resources st)((scope, kind, rid) \<mapsto>
       (case rg_resources st (scope, kind, rid) of
          Some s \<Rightarrow> s\<lparr>vs_current_version := Some v, vs_updated_at := now, vs_metadata := metadata\<rparr>
        | None \<Rightarrow> \<lparr>vs_scope_id = scope, vs_kind = kind, vs_id = rid, vs_current_version = Some v, vs_archived_at = None,
            vs_created_at = now, vs_updated_at = now, vs_metadata = metadata\<rparr>))\<rparr>"

text \<open>\<^verbatim>\<open>records.last().map_or(1, |record| record.version + 1)\<close>\<close>

definition next_version :: "registry_store \<Rightarrow> resource_key \<Rightarrow> u64" where
  "next_version st key = (case records_of st key of [] \<Rightarrow> 1 | rs \<Rightarrow> rc_version (last rs) + 1)"

text \<open>Building the next record and pushing it, with the resource pointing to it.\<close>

definition push_version :: "string \<Rightarrow> string \<Rightarrow> string \<Rightarrow> string \<Rightarrow> u32 \<Rightarrow> json \<Rightarrow> string \<Rightarrow> u64 \<Rightarrow> json \<Rightarrow> registry_store \<Rightarrow>
    json versioned_record \<times> registry_store" where
  "push_version scope kind rid hash schema v bytes now metadata st =
     (let key = (scope, kind, rid);
          version = next_version st key;
          rec = \<lparr>rc_kind = kind, rc_id = rid, rc_version = version, rc_content_hash = hash, rc_schema = schema,
                 rc_value = v, rc_bytes = bytes, rc_created_at = now, rc_metadata = metadata\<rparr>;
          st1 = st\<lparr>rg_versions := (rg_versions st)(key \<mapsto> records_of st key @ [rec])\<rparr>
      in (rec, upsert_resource_state scope kind rid version now metadata st1))"

definition reg_resource_state :: "string \<Rightarrow> string \<Rightarrow> string \<Rightarrow> registry_store \<Rightarrow> registry_error + versioned_resource_state option" where
  "reg_resource_state scope kind rid st = Inr (rg_resources st (scope, kind, rid))"

definition reg_current :: "string \<Rightarrow> string \<Rightarrow> string \<Rightarrow> registry_store \<Rightarrow> registry_error + json versioned_record option" where
  "reg_current scope kind rid st = Inr (current_record st (scope, kind, rid))"

definition reg_get :: "string \<Rightarrow> string \<Rightarrow> string \<Rightarrow> u64 \<Rightarrow> registry_store \<Rightarrow> registry_error + json versioned_record option" where
  "reg_get scope kind rid v st = Inr (Option.bind (rg_versions st (scope, kind, rid)) (find_version v))"

definition reg_list_versions :: "string \<Rightarrow> string \<Rightarrow> string \<Rightarrow> registry_store \<Rightarrow> registry_error + json versioned_record list" where
  "reg_list_versions scope kind rid st = Inr (records_of st (scope, kind, rid))"

definition reg_publish_resource :: "registry_env \<Rightarrow> u64 \<Rightarrow> string \<Rightarrow> string \<Rightarrow> string \<Rightarrow> json \<Rightarrow> u32 \<Rightarrow> json \<Rightarrow> registry_store \<Rightarrow>
    (registry_error + json publish_outcome) \<times> registry_store" where
  "reg_publish_resource env now scope kind rid v schema metadata st =
     (case registry_content_hash env schema v of
        Inl e \<Rightarrow> (Inl e, st)
      | Inr (hash, bytes) \<Rightarrow>
          (case (case rg_resources st (scope, kind, rid) of Some s \<Rightarrow> ensure_not_archived s kind rid | None \<Rightarrow> Inr ()) of
             Inl e \<Rightarrow> (Inl e, st)
           | Inr _ \<Rightarrow>
               (case current_record st (scope, kind, rid) of
                  Some current \<Rightarrow>
                    if rc_content_hash current = hash then (Inr (PublishNoop current), st)
                    else (let (rec, st') = push_version scope kind rid hash schema v bytes now metadata st
                          in (Inr (PublishCreated rec), st'))
                | None \<Rightarrow> (let (rec, st') = push_version scope kind rid hash schema v bytes now metadata st
                          in (Inr (PublishCreated rec), st')))))"

definition reg_rollback_resource :: "registry_env \<Rightarrow> u64 \<Rightarrow> string \<Rightarrow> string \<Rightarrow> string \<Rightarrow> u64 \<Rightarrow> json \<Rightarrow> registry_store \<Rightarrow>
    (registry_error + json versioned_record) \<times> registry_store" where
  "reg_rollback_resource env now scope kind rid to_version metadata st =
     (case reg_get scope kind rid to_version st of
        Inl e \<Rightarrow> (Inl e, st)
      | Inr None \<Rightarrow> (Inl (RegNotFound (show_version kind rid to_version)), st)
      | Inr (Some prior) \<Rightarrow>
      case build_rollback_metadata env metadata to_version of
        Inl e \<Rightarrow> (Inl e, st)
      | Inr metadata' \<Rightarrow>
      case registry_content_hash env (rc_schema prior) (rc_value prior) of
        Inl e \<Rightarrow> (Inl e, st)
      | Inr (hash, bytes) \<Rightarrow>
      case (case rg_resources st (scope, kind, rid) of Some s \<Rightarrow> ensure_not_archived s kind rid | None \<Rightarrow> Inr ()) of
        Inl e \<Rightarrow> (Inl e, st)
      | Inr _ \<Rightarrow> (let (rec, st') = push_version scope kind rid hash (rc_schema prior) (rc_value prior) bytes now metadata' st
                  in (Inr rec, st')))"

definition reg_archive_resource :: "u64 \<Rightarrow> string \<Rightarrow> string \<Rightarrow> string \<Rightarrow> registry_store \<Rightarrow> (registry_error + unit) \<times> registry_store" where
  "reg_archive_resource now scope kind rid st = (case rg_resources st (scope, kind, rid) of
      None \<Rightarrow> (Inl (RegNotFound (resource_name kind rid)), st)
    | Some s \<Rightarrow> (Inr (), if vs_archived_at s = None
        then st\<lparr>rg_resources := (rg_resources st)((scope, kind, rid) \<mapsto> s\<lparr>vs_archived_at := Some now, vs_updated_at := now\<rparr>)\<rparr>
        else st))"

definition reg_unarchive_resource :: "u64 \<Rightarrow> string \<Rightarrow> string \<Rightarrow> string \<Rightarrow> registry_store \<Rightarrow> (registry_error + unit) \<times> registry_store" where
  "reg_unarchive_resource now scope kind rid st = (case rg_resources st (scope, kind, rid) of
      None \<Rightarrow> (Inl (RegNotFound (resource_name kind rid)), st)
    | Some s \<Rightarrow> (Inr (), if vs_archived_at s \<noteq> None
        then st\<lparr>rg_resources := (rg_resources st)((scope, kind, rid) \<mapsto> s\<lparr>vs_archived_at := None, vs_updated_at := now\<rparr>)\<rparr>
        else st))"

section \<open>Publications\<close>

fun validate_entry_refs :: "(string \<times> string) set \<Rightarrow> version_ref list \<Rightarrow> registry_error + unit" where
  "validate_entry_refs seen [] = Inr ()"
| "validate_entry_refs seen (e # entries) =
     (if vr_version e = 0
      then Inl (RegInvalidRequest (resource_name (vr_kind e) (vr_id e) @ '' version cannot be 0''))
      else if (vr_kind e, vr_id e) \<in> seen
      then Inl (RegInvalidRequest (''duplicate publication entry '' @ resource_name (vr_kind e) (vr_id e)))
      else validate_entry_refs (insert (vr_kind e, vr_id e) seen) entries)"

definition validate_publication_request :: "string \<Rightarrow> version_ref list \<Rightarrow> registry_error + unit" where
  "validate_publication_request pid entries =
     (if is_blank pid then Inl (RegInvalidRequest ''publication_id cannot be empty'')
      else if entries = [] then Inl (RegInvalidRequest ''publication entries cannot be empty'')
      else validate_entry_refs {} entries)"

fun validate_resources :: "(string \<times> string) set \<Rightarrow> resource_publish list \<Rightarrow> registry_error + unit" where
  "validate_resources seen [] = Inr ()"
| "validate_resources seen (r # resources) =
     (if is_blank (rp_kind r) \<or> is_blank (rp_id r)
      then Inl (RegInvalidRequest ''publication resource kind and id cannot be empty'')
      else if (rp_kind r, rp_id r) \<in> seen
      then Inl (RegInvalidRequest (''duplicate publication resource '' @ resource_name (rp_kind r) (rp_id r)))
      else validate_resources (insert (rp_kind r, rp_id r) seen) resources)"

definition validate_resource_publication_request :: "string \<Rightarrow> resource_publish list \<Rightarrow> registry_error + unit" where
  "validate_resource_publication_request pid resources =
     (if is_blank pid then Inl (RegInvalidRequest ''publication_id cannot be empty'')
      else if resources = [] then Inl (RegInvalidRequest ''publication resources cannot be empty'')
      else validate_resources {} resources)"

fun validate_publication_entries :: "registry_store \<Rightarrow> string \<Rightarrow> version_ref list \<Rightarrow> registry_error + unit" where
  "validate_publication_entries st scope [] = Inr ()"
| "validate_publication_entries st scope (e # entries) =
     (case rg_resources st (scope, vr_kind e, vr_id e) of
        None \<Rightarrow> Inl (RegNotFound (resource_name (vr_kind e) (vr_id e)))
      | Some s \<Rightarrow>
          if vs_archived_at s \<noteq> None then Inl (RegArchived (vr_kind e) (vr_id e))
          else if \<not> list_ex (\<lambda>rec. rc_version rec = vr_version e) (records_of st (scope, vr_kind e, vr_id e))
          then Inl (RegNotFound (show_version (vr_kind e) (vr_id e) (vr_version e)))
          else validate_publication_entries st scope entries)"

definition publication_exists :: "registry_store \<Rightarrow> string \<Rightarrow> string \<Rightarrow> bool" where
  "publication_exists st scope pid = list_ex (\<lambda>p. pb_publication_id p = pid) (map snd (publications_of st scope))"

definition next_snapshot :: "(u64, registry_publication) btree \<Rightarrow> u64" where
  "next_snapshot ps = (if ps = [] then 1 else fst (last ps) + 1)"

definition add_publication :: "u64 \<Rightarrow> string \<Rightarrow> string \<Rightarrow> version_ref list \<Rightarrow> config_revision_ref list \<Rightarrow> string option \<Rightarrow>
    json \<Rightarrow> registry_store \<Rightarrow> registry_publication \<times> registry_store" where
  "add_publication now scope pid entries sources created_by metadata st =
     (let ps = publications_of st scope;
          n = next_snapshot ps;
          p = \<lparr>pb_publication_id = pid, pb_scope_id = scope, pb_snapshot_version = n,
               pb_entries = sort_publication_entries entries, pb_source_revisions = sources, pb_created_by = created_by,
               pb_created_at = now, pb_metadata = metadata\<rparr>
      in (p, st\<lparr>rg_publications := (rg_publications st)(scope \<mapsto> bt_insert n p ps)\<rparr>))"

definition reg_create_publication :: "u64 \<Rightarrow> string \<Rightarrow> string \<Rightarrow> version_ref list \<Rightarrow> config_revision_ref list \<Rightarrow>
    string option \<Rightarrow> json \<Rightarrow> registry_store \<Rightarrow> (registry_error + registry_publication) \<times> registry_store" where
  "reg_create_publication now scope pid entries sources created_by metadata st =
     (case validate_publication_request pid entries of Inl e \<Rightarrow> (Inl e, st) | Inr _ \<Rightarrow>
      if publication_exists st scope pid then (Inl (RegAlreadyExists (''publication/'' @ pid)), st)
      else case validate_publication_entries st scope entries of Inl e \<Rightarrow> (Inl e, st) | Inr _ \<Rightarrow>
        (let (p, st') = add_publication now scope pid entries sources created_by metadata st in (Inr p, st')))"

fun hash_resources :: "registry_env \<Rightarrow> resource_publish list \<Rightarrow> registry_error + (resource_publish \<times> string \<times> string) list" where
  "hash_resources env [] = Inr []"
| "hash_resources env (r # resources) =
     (case registry_content_hash env (rp_schema r) (rp_value r) of Inl e \<Rightarrow> Inl e | Inr (hash, bytes) \<Rightarrow>
      case hash_resources env resources of Inl e \<Rightarrow> Inl e | Inr rest \<Rightarrow> Inr ((r, hash, bytes) # rest))"

fun check_none_archived :: "registry_store \<Rightarrow> string \<Rightarrow> (resource_publish \<times> string \<times> string) list \<Rightarrow> registry_error + unit" where
  "check_none_archived st scope [] = Inr ()"
| "check_none_archived st scope ((r, _, _) # prepared) =
     (case rg_resources st (scope, rp_kind r, rp_id r) of
        Some s \<Rightarrow> if vs_archived_at s \<noteq> None then Inl (RegArchived (rp_kind r) (rp_id r))
                  else check_none_archived st scope prepared
      | None \<Rightarrow> check_none_archived st scope prepared)"

text \<open>One resource of an atomic publication: the current record if the content is the same, a new one otherwise.\<close>

definition publish_prepared :: "u64 \<Rightarrow> string \<Rightarrow> resource_publish \<Rightarrow> string \<Rightarrow> string \<Rightarrow> registry_store \<Rightarrow>
    json versioned_record \<times> registry_store" where
  "publish_prepared now scope r hash bytes st =
     (let pushed = push_version scope (rp_kind r) (rp_id r) hash (rp_schema r) (rp_value r) bytes now (rp_metadata r) st
      in case current_record st (scope, rp_kind r, rp_id r) of
           Some current \<Rightarrow> if rc_content_hash current = hash then (current, st) else pushed
         | None \<Rightarrow> pushed)"

fun publish_all :: "u64 \<Rightarrow> string \<Rightarrow> (resource_publish \<times> string \<times> string) list \<Rightarrow> version_ref list \<Rightarrow> registry_store \<Rightarrow>
    version_ref list \<times> registry_store" where
  "publish_all now scope [] entries st = (entries, st)"
| "publish_all now scope ((r, hash, bytes) # prepared) entries st =
     (let (rec, st') = publish_prepared now scope r hash bytes st
      in publish_all now scope prepared
           (entries @ [\<lparr>vr_kind = rc_kind rec, vr_id = rc_id rec, vr_version = rc_version rec\<rparr>]) st')"

definition reg_publish_resources :: "registry_env \<Rightarrow> u64 \<Rightarrow> string \<Rightarrow> string \<Rightarrow> resource_publish list \<Rightarrow> config_revision_ref list \<Rightarrow>
    string option \<Rightarrow> json \<Rightarrow> registry_store \<Rightarrow> (registry_error + registry_publication) \<times> registry_store" where
  "reg_publish_resources env now scope pid resources sources created_by metadata st =
     (case validate_resource_publication_request pid resources of Inl e \<Rightarrow> (Inl e, st) | Inr _ \<Rightarrow>
      case hash_resources env resources of Inl e \<Rightarrow> (Inl e, st) | Inr prepared \<Rightarrow>
      if publication_exists st scope pid then (Inl (RegAlreadyExists (''publication/'' @ pid)), st)
      else case check_none_archived st scope prepared of Inl e \<Rightarrow> (Inl e, st) | Inr _ \<Rightarrow>
        (let (entries, st1) = publish_all now scope prepared [] st;
             (p, st2) = add_publication now scope pid entries sources created_by metadata st1
         in (Inr p, st2)))"

definition reg_latest_publication :: "string \<Rightarrow> registry_store \<Rightarrow> registry_error + registry_publication option" where
  "reg_latest_publication scope st =
     Inr (case publications_of st scope of [] \<Rightarrow> None | ps \<Rightarrow> Some (snd (last ps)))"

definition reg_get_publication :: "string \<Rightarrow> u64 \<Rightarrow> registry_store \<Rightarrow> registry_error + registry_publication option" where
  "reg_get_publication scope n st = Inr (map_of (publications_of st scope) n)"

section \<open>Retention\<close>

definition protected_set :: "retention_policy \<Rightarrow> string \<Rightarrow> registry_store \<Rightarrow> (string \<times> string \<times> u64) set" where
  "protected_set policy scope st =
     (\<lambda>v. (vr_kind v, vr_id v, vr_version v)) `
       (set (protected_versions policy) \<union> (\<Union>p \<in> set (map snd (publications_of st scope)). set (pb_entries p)))"

text \<open>The scan of the records of one resource, newest first.\<close>

fun scan_records :: "(json versioned_record \<Rightarrow> bool) \<Rightarrow> u64 \<Rightarrow> u64 \<Rightarrow> json versioned_record list \<Rightarrow> json versioned_record list" where
  "scan_records skip keep_last kept [] = []"
| "scan_records skip keep_last kept (rec # rs) =
     (if skip rec then scan_records skip keep_last kept rs
      else if kept < keep_last then scan_records skip keep_last (kept + 1) rs
      else rec # scan_records skip keep_last kept rs)"

definition newest_first :: "json versioned_record list \<Rightarrow> json versioned_record list" where
  "newest_first rs = rev (sort_key rc_version (rev rs))"

definition eligible_of :: "retention_policy \<Rightarrow> u64 \<Rightarrow> string \<Rightarrow> registry_store \<Rightarrow> resource_key \<Rightarrow> version_ref list" where
  "eligible_of policy now scope st key = (case key of (key_scope, kind, rid) \<Rightarrow>
     if key_scope \<noteq> scope then []
     else
       let current = Option.bind (rg_resources st key) vs_current_version;
           skip = (\<lambda>rec. Some (rc_version rec) = current
             \<or> (kind, rid, rc_version rec) \<in> protected_set policy scope st
             \<or> (case keep_younger_than_ms policy of
                  Some window \<Rightarrow> sat_sub now (rc_created_at rec) < window
                | None \<Rightarrow> False));
           keep_last = (case keep_last_versions policy of None \<Rightarrow> 0 | Some n \<Rightarrow> n)
       in map (\<lambda>rec. \<lparr>vr_kind = kind, vr_id = rid, vr_version = rc_version rec\<rparr>)
            (scan_records skip keep_last 0 (newest_first (records_of st key))))"

definition purge_plan :: "resource_key list \<Rightarrow> retention_policy \<Rightarrow> u64 \<Rightarrow> string \<Rightarrow> registry_store \<Rightarrow> version_ref list" where
  "purge_plan ord policy now scope st =
     sort_key (\<lambda>v. (vr_kind v, vr_id v, vr_version v)) (concat (map (eligible_of policy now scope st) ord))"

definition purge_version :: "string \<Rightarrow> version_ref \<Rightarrow> registry_store \<Rightarrow> registry_store" where
  "purge_version scope v st = (case rg_versions st (scope, vr_kind v, vr_id v) of
      None \<Rightarrow> st
    | Some rs \<Rightarrow> st\<lparr>rg_versions := (rg_versions st)((scope, vr_kind v, vr_id v) \<mapsto>
        filter (\<lambda>rec. rc_version rec \<noteq> vr_version v) rs)\<rparr>)"

definition purge_delete :: "string \<Rightarrow> version_ref list \<Rightarrow> registry_store \<Rightarrow> registry_store" where
  "purge_delete scope plan st = fold (purge_version scope) plan st"

text \<open>
  The plan is made under a read lock and carried out under a write lock taken afterwards; what other
  calls do to the store in between is an argument.
\<close>

definition reg_purge :: "resource_key list \<Rightarrow> retention_policy \<Rightarrow> u64 \<Rightarrow> string \<Rightarrow> bool \<Rightarrow> (registry_store \<Rightarrow> registry_store) \<Rightarrow>
    registry_store \<Rightarrow> version_ref list \<times> registry_store" where
  "reg_purge ord policy now scope dry_run between st =
     (let plan = purge_plan ord policy now scope st
      in (plan, if \<not> dry_run \<and> plan \<noteq> [] then purge_delete scope plan (between st) else between st))"

end
