(* ===== verification/Registry_View.thy ===== *)
theory Registry_View
imports Registry
begin

text \<open>
  The registry contract as a table of operations: its default methods and the typed view of one kind
  of one scope (\<^verbatim>\<open>remo-server-contract/src/contract/versioned_registry/mod.rs\<close>), with the in-memory
  store as the implementation. The serde conversions of the typed value are arguments.
\<close>

section \<open>The table of operations\<close>

record 's registry_ops =
  ro_resource_state :: "string \<Rightarrow> string \<Rightarrow> string \<Rightarrow> 's \<Rightarrow> registry_error + versioned_resource_state option"
  ro_current :: "string \<Rightarrow> string \<Rightarrow> string \<Rightarrow> 's \<Rightarrow> registry_error + json versioned_record option"
  ro_get :: "string \<Rightarrow> string \<Rightarrow> string \<Rightarrow> u64 \<Rightarrow> 's \<Rightarrow> registry_error + json versioned_record option"
  ro_list_versions :: "string \<Rightarrow> string \<Rightarrow> string \<Rightarrow> 's \<Rightarrow> registry_error + json versioned_record list"
  ro_publish_resource :: "string \<Rightarrow> string \<Rightarrow> string \<Rightarrow> json \<Rightarrow> u32 \<Rightarrow> json \<Rightarrow> 's \<Rightarrow> (registry_error + json publish_outcome) \<times> 's"
  ro_rollback_resource :: "string \<Rightarrow> string \<Rightarrow> string \<Rightarrow> u64 \<Rightarrow> json \<Rightarrow> 's \<Rightarrow> (registry_error + json versioned_record) \<times> 's"
  ro_archive_resource :: "string \<Rightarrow> string \<Rightarrow> string \<Rightarrow> 's \<Rightarrow> (registry_error + unit) \<times> 's"
  ro_unarchive_resource :: "string \<Rightarrow> string \<Rightarrow> string \<Rightarrow> 's \<Rightarrow> (registry_error + unit) \<times> 's"
  ro_publish_resources :: "string \<Rightarrow> string \<Rightarrow> resource_publish list \<Rightarrow> config_revision_ref list \<Rightarrow> string option \<Rightarrow> json \<Rightarrow>
      's \<Rightarrow> (registry_error + registry_publication) \<times> 's"
  ro_create_publication :: "string \<Rightarrow> string \<Rightarrow> version_ref list \<Rightarrow> config_revision_ref list \<Rightarrow> string option \<Rightarrow> json \<Rightarrow>
      's \<Rightarrow> (registry_error + registry_publication) \<times> 's"
  ro_latest_publication :: "string \<Rightarrow> 's \<Rightarrow> registry_error + registry_publication option"
  ro_get_publication :: "string \<Rightarrow> u64 \<Rightarrow> 's \<Rightarrow> registry_error + registry_publication option"

definition memory_registry :: "registry_env \<Rightarrow> u64 \<Rightarrow> registry_store registry_ops" where
  "memory_registry env now = \<lparr>ro_resource_state = reg_resource_state, ro_current = reg_current, ro_get = reg_get,
     ro_list_versions = reg_list_versions, ro_publish_resource = reg_publish_resource env now,
     ro_rollback_resource = reg_rollback_resource env now, ro_archive_resource = reg_archive_resource now,
     ro_unarchive_resource = reg_unarchive_resource now, ro_publish_resources = reg_publish_resources env now,
     ro_create_publication = reg_create_publication now, ro_latest_publication = reg_latest_publication,
     ro_get_publication = reg_get_publication\<rparr>"

lemma memory_registry_ops [simp]:
  "ro_resource_state (memory_registry env now) = reg_resource_state"
  "ro_current (memory_registry env now) = reg_current"
  "ro_get (memory_registry env now) = reg_get"
  "ro_publish_resources (memory_registry env now) = reg_publish_resources env now"
  "ro_latest_publication (memory_registry env now) = reg_latest_publication"
  "ro_get_publication (memory_registry env now) = reg_get_publication"
  by (simp_all add: memory_registry_def)

section \<open>Default methods\<close>

text \<open>The loop over the entries of a publication that loads their records.\<close>

fun load_entries :: "'s registry_ops \<Rightarrow> string \<Rightarrow> (version_ref \<Rightarrow> json versioned_record \<Rightarrow> 'a) \<Rightarrow> version_ref list \<Rightarrow> 's \<Rightarrow>
    registry_error + 'a list" where
  "load_entries ops scope f [] st = Inr []"
| "load_entries ops scope f (e # entries) st =
     (case ro_get ops scope (vr_kind e) (vr_id e) (vr_version e) st of
        Inl err \<Rightarrow> Inl err
      | Inr None \<Rightarrow> Inl (RegNotFound (show_version (vr_kind e) (vr_id e) (vr_version e)))
      | Inr (Some rec) \<Rightarrow>
          (case load_entries ops scope f entries st of Inl err \<Rightarrow> Inl err | Inr rest \<Rightarrow> Inr (f e rec # rest)))"

definition rollback_source :: "registry_publication \<Rightarrow> version_ref \<Rightarrow> json versioned_record \<Rightarrow> resource_publish" where
  "rollback_source p e rec = \<lparr>rp_kind = vr_kind e, rp_id = vr_id e, rp_value = rc_value rec, rp_schema = rc_schema rec,
     rp_metadata = JObject
       [(''rollback_source_content_hash'', JString (rc_content_hash rec)),
        (''rollback_source_publication_id'', JString (pb_publication_id p)),
        (''rollback_source_snapshot_version'', json_u64 (pb_snapshot_version p)),
        (''rollback_source_version'', json_u64 (vr_version e))]\<rparr>"

definition rollback_publication :: "'s registry_ops \<Rightarrow> string \<Rightarrow> u64 \<Rightarrow> string \<Rightarrow> string option \<Rightarrow> json \<Rightarrow> 's \<Rightarrow>
    (registry_error + registry_publication) \<times> 's" where
  "rollback_publication ops scope source pid created_by metadata st =
     (if is_blank pid then (Inl (RegInvalidRequest ''publication_id cannot be empty''), st)
      else case ro_get_publication ops scope source st of
        Inl e \<Rightarrow> (Inl e, st)
      | Inr None \<Rightarrow> (Inl (RegNotFound (''publication/'' @ scope @ ''@'' @ show_nat (unat source))), st)
      | Inr (Some p) \<Rightarrow>
          (case load_entries ops scope (rollback_source p) (pb_entries p) st of
             Inl e \<Rightarrow> (Inl e, st)
           | Inr resources \<Rightarrow>
               ro_publish_resources ops scope pid resources (pb_source_revisions p) created_by metadata st))"

definition pinned_entry_of :: "version_ref \<Rightarrow> json versioned_record \<Rightarrow> pinned_entry" where
  "pinned_entry_of e rec = \<lparr>pe_kind = vr_kind e, pe_id = vr_id e, pe_version = vr_version e,
     pe_content_hash = rc_content_hash rec\<rparr>"

definition pinned_manifest_for_publication :: "'s registry_ops \<Rightarrow> string \<Rightarrow> u64 \<Rightarrow> 's \<Rightarrow> registry_error + pinned_manifest option" where
  "pinned_manifest_for_publication ops scope n st =
     (case ro_get_publication ops scope n st of
        Inl e \<Rightarrow> Inl e
      | Inr None \<Rightarrow> Inr None
      | Inr (Some p) \<Rightarrow>
          (case load_entries ops scope pinned_entry_of (pb_entries p) st of
             Inl e \<Rightarrow> Inl e
           | Inr entries \<Rightarrow> Inr (Some \<lparr>pm_publication_id = Some (pb_publication_id p),
               pm_snapshot_version = Some (pb_snapshot_version p), pm_entries = entries\<rparr>)))"

definition latest_pinned_manifest :: "'s registry_ops \<Rightarrow> string \<Rightarrow> 's \<Rightarrow> registry_error + pinned_manifest option" where
  "latest_pinned_manifest ops scope st =
     (case ro_latest_publication ops scope st of
        Inl e \<Rightarrow> Inl e
      | Inr None \<Rightarrow> Inr None
      | Inr (Some p) \<Rightarrow> pinned_manifest_for_publication ops scope (pb_snapshot_version p) st)"

section \<open>The typed view\<close>

record typed_registry =
  tr_scope :: string
  tr_kind :: string
  tr_supported :: "u32 list"

definition typed_registry_new :: "string \<Rightarrow> string \<Rightarrow> typed_registry" where
  "typed_registry_new scope kind = \<lparr>tr_scope = scope, tr_kind = kind, tr_supported = []\<rparr>"

definition with_supported_schema_versions :: "u32 list \<Rightarrow> typed_registry \<Rightarrow> typed_registry" where
  "with_supported_schema_versions vs t = t\<lparr>tr_supported := vs\<rparr>"

definition check_schema_version :: "typed_registry \<Rightarrow> json versioned_record \<Rightarrow> registry_error + unit" where
  "check_schema_version t rec =
     (if tr_supported t = [] \<or> rc_schema rec \<in> set (tr_supported t) then Inr ()
      else Inl (RegIncompatibleSchema (rc_kind rec) (rc_id rec) (rc_version rec) (rc_schema rec) (tr_supported t)))"

definition decode_record :: "(json \<Rightarrow> string + 'v) \<Rightarrow> json versioned_record \<Rightarrow> registry_error + 'v versioned_record" where
  "decode_record from_json rec = (case from_json (rc_value rec) of
      Inl e \<Rightarrow> Inl (RegSerialization e)
    | Inr v \<Rightarrow> Inr \<lparr>rc_kind = rc_kind rec, rc_id = rc_id rec, rc_version = rc_version rec,
        rc_content_hash = rc_content_hash rec, rc_schema = rc_schema rec, rc_value = v, rc_bytes = rc_bytes rec,
        rc_created_at = rc_created_at rec, rc_metadata = rc_metadata rec\<rparr>)"

definition decode_checked :: "(json \<Rightarrow> string + 'v) \<Rightarrow> typed_registry \<Rightarrow> json versioned_record \<Rightarrow> registry_error + 'v versioned_record" where
  "decode_checked from_json t rec =
     (case check_schema_version t rec of Inl e \<Rightarrow> Inl e | Inr _ \<Rightarrow> decode_record from_json rec)"

text \<open>\<^verbatim>\<open>.map(..).transpose()\<close>\<close>

definition decode_option :: "(json \<Rightarrow> string + 'v) \<Rightarrow> typed_registry \<Rightarrow> registry_error + json versioned_record option \<Rightarrow>
    registry_error + 'v versioned_record option" where
  "decode_option from_json t found = (case found of
      Inl e \<Rightarrow> Inl e
    | Inr None \<Rightarrow> Inr None
    | Inr (Some rec) \<Rightarrow> (case decode_checked from_json t rec of Inl e \<Rightarrow> Inl e | Inr r \<Rightarrow> Inr (Some r)))"

definition typed_current :: "'s registry_ops \<Rightarrow> (json \<Rightarrow> string + 'v) \<Rightarrow> typed_registry \<Rightarrow> string \<Rightarrow> 's \<Rightarrow>
    registry_error + 'v versioned_record option" where
  "typed_current ops from_json t rid st = decode_option from_json t (ro_current ops (tr_scope t) (tr_kind t) rid st)"

definition typed_get :: "'s registry_ops \<Rightarrow> (json \<Rightarrow> string + 'v) \<Rightarrow> typed_registry \<Rightarrow> string \<Rightarrow> u64 \<Rightarrow> 's \<Rightarrow>
    registry_error + 'v versioned_record option" where
  "typed_get ops from_json t rid v st = decode_option from_json t (ro_get ops (tr_scope t) (tr_kind t) rid v st)"

definition typed_list_versions :: "'s registry_ops \<Rightarrow> (json \<Rightarrow> string + 'v) \<Rightarrow> typed_registry \<Rightarrow> string \<Rightarrow> 's \<Rightarrow>
    registry_error + 'v versioned_record list" where
  "typed_list_versions ops from_json t rid st = (case ro_list_versions ops (tr_scope t) (tr_kind t) rid st of
      Inl e \<Rightarrow> Inl e | Inr recs \<Rightarrow> collect_results (map (decode_checked from_json t) recs))"

definition typed_rollback :: "'s registry_ops \<Rightarrow> (json \<Rightarrow> string + 'v) \<Rightarrow> typed_registry \<Rightarrow> string \<Rightarrow> u64 \<Rightarrow> json \<Rightarrow> 's \<Rightarrow>
    (registry_error + 'v versioned_record) \<times> 's" where
  "typed_rollback ops from_json t rid to_version metadata st =
     (case ro_rollback_resource ops (tr_scope t) (tr_kind t) rid to_version metadata st of
        (Inl e, st') \<Rightarrow> (Inl e, st')
      | (Inr rec, st') \<Rightarrow> (decode_checked from_json t rec, st'))"

definition decode_publish_outcome :: "(json \<Rightarrow> string + 'v) \<Rightarrow> json publish_outcome \<Rightarrow> registry_error + 'v publish_outcome" where
  "decode_publish_outcome from_json outcome = (case outcome of
      PublishCreated rec \<Rightarrow> map_sum id PublishCreated (decode_record from_json rec)
    | PublishNoop rec \<Rightarrow> map_sum id PublishNoop (decode_record from_json rec))"

definition typed_publish :: "'s registry_ops \<Rightarrow> ('v \<Rightarrow> string + json) \<Rightarrow> (json \<Rightarrow> string + 'v) \<Rightarrow> typed_registry \<Rightarrow> string \<Rightarrow> 'v \<Rightarrow>
    u32 \<Rightarrow> json \<Rightarrow> 's \<Rightarrow> (registry_error + 'v publish_outcome) \<times> 's" where
  "typed_publish ops to_json from_json t rid v schema metadata st =
     (if tr_supported t \<noteq> [] \<and> schema \<notin> set (tr_supported t)
      then (Inl (RegIncompatibleSchema (tr_kind t) rid 0 schema (tr_supported t)), st)
      else case to_json v of
        Inl e \<Rightarrow> (Inl (RegSerialization e), st)
      | Inr j \<Rightarrow>
          (case ro_publish_resource ops (tr_scope t) (tr_kind t) rid j schema metadata st of
             (Inl e, st') \<Rightarrow> (Inl e, st')
           | (Inr outcome, st') \<Rightarrow> (decode_publish_outcome from_json outcome, st')))"

definition typed_resource_state :: "'s registry_ops \<Rightarrow> typed_registry \<Rightarrow> string \<Rightarrow> 's \<Rightarrow>
    registry_error + versioned_resource_state option" where
  "typed_resource_state ops t rid st = ro_resource_state ops (tr_scope t) (tr_kind t) rid st"

definition typed_archive :: "'s registry_ops \<Rightarrow> typed_registry \<Rightarrow> string \<Rightarrow> 's \<Rightarrow> (registry_error + unit) \<times> 's" where
  "typed_archive ops t rid st = ro_archive_resource ops (tr_scope t) (tr_kind t) rid st"

definition typed_unarchive :: "'s registry_ops \<Rightarrow> typed_registry \<Rightarrow> string \<Rightarrow> 's \<Rightarrow> (registry_error + unit) \<times> 's" where
  "typed_unarchive ops t rid st = ro_unarchive_resource ops (tr_scope t) (tr_kind t) rid st"

end
