(* ===== verification/Registry_Graph.thy ===== *)
theory Registry_Graph
imports Registry_View
begin

text \<open>
  The validator of published registry graphs
  (\<^verbatim>\<open>remo-server-contract/src/contract/registry_graph.rs\<close>): a depth-first walk from a root over the
  references between agents, models, pools and providers, which verifies content hashes and detects
  cycles. The store is a table of operations. Decoding a value into an agent, a model or a pool
  (serde) is a parameter that yields the fields the validator reads. The walk has fuel; None means it
  ran out.
\<close>

section \<open>Requests and errors\<close>

datatype version_selector =
    LatestPublication string
  | PublicationAt string u64
  | ExactVersion string string string u64
  | ManifestRoot string pinned_manifest

datatype graph_error =
    MissingResource string string
  | MissingVersion string string u64
  | ArchivedReference string string "u64 option"
  | ContentHashMismatch string string u64 string string
  | CycleDetected "version_ref list"
  | InvalidReference string string string
  | GraphBackend string

record agent_ref_spec =
  ar_id :: string
  ar_has_endpoint :: bool
  ar_model_id :: string
  ar_delegates :: "string list"

record model_ref_spec =
  mr_id :: string
  mr_provider_id :: string

record pool_ref_spec =
  pr_id :: string
  pr_members :: "string list"

record spec_env =
  agent_of_json :: "json \<Rightarrow> string + agent_ref_spec"
  model_of_json :: "json \<Rightarrow> string + model_ref_spec"
  pool_of_json :: "json \<Rightarrow> string + pool_ref_spec"

fun debug_list :: "string list \<Rightarrow> string" where
  "debug_list [] = []"
| "debug_list [p] = p"
| "debug_list (p # q # ps) = p @ '', '' @ debug_list (q # ps)"

fun registry_error_text :: "registry_error \<Rightarrow> string" where
  "registry_error_text (RegNotFound m) = ''not found: '' @ m"
| "registry_error_text (RegArchived kind rid) = ''already archived: '' @ resource_name kind rid"
| "registry_error_text (RegAlreadyExists m) = ''already exists: '' @ m"
| "registry_error_text (RegInvalidRequest m) = ''invalid request: '' @ m"
| "registry_error_text (RegIncompatibleSchema kind rid v stored supported) =
     ''incompatible schema: '' @ show_version kind rid v @ '' stored as schema v'' @ show_nat (unat stored) @
     '' but reader supports ['' @ debug_list (map (\<lambda>s. show_nat (unat s)) supported) @ '']''"
| "registry_error_text (RegSerialization m) = ''serialization error: '' @ m"
| "registry_error_text (RegBackend m) = ''versioned registry error: '' @ m"

definition backend :: "registry_error \<Rightarrow> graph_error" where
  "backend e = GraphBackend (registry_error_text e)"

section \<open>The context of a walk\<close>

record validation_context =
  vc_scope :: string
  vc_roots :: "pinned_entry list"
  vc_candidates :: "string \<times> string \<rightharpoonup> pinned_entry"
  vc_accepted :: "(string \<times> string, pinned_entry) btree"
  vc_visiting :: "version_ref list"
  vc_allow_current :: bool
  vc_reject_archived :: bool

definition entry_key :: "pinned_entry \<Rightarrow> string \<times> string" where
  "entry_key e = (pe_kind e, pe_id e)"

fun collect_candidates :: "(string \<times> string) set \<Rightarrow> (string \<times> string \<rightharpoonup> pinned_entry) \<Rightarrow> pinned_entry list \<Rightarrow>
    graph_error + (string \<times> string \<rightharpoonup> pinned_entry)" where
  "collect_candidates seen candidates [] = Inr candidates"
| "collect_candidates seen candidates (e # entries) =
     (if pe_version e = 0 then Inl (InvalidReference (pe_kind e) (pe_id e) ''version cannot be 0'')
      else if entry_key e \<in> seen then Inl (InvalidReference (pe_kind e) (pe_id e) ''duplicate manifest entry'')
      else collect_candidates (insert (entry_key e) seen) (candidates(entry_key e \<mapsto> e)) entries)"

definition context_from_entries :: "string \<Rightarrow> pinned_entry list \<Rightarrow> bool \<Rightarrow> bool \<Rightarrow> graph_error + validation_context" where
  "context_from_entries scope entries allow_current reject_archived =
     (case collect_candidates {} Map.empty entries of
        Inl e \<Rightarrow> Inl e
      | Inr candidates \<Rightarrow> Inr \<lparr>vc_scope = scope, vc_roots = entries, vc_candidates = candidates, vc_accepted = [],
          vc_visiting = [], vc_allow_current = allow_current, vc_reject_archived = reject_archived\<rparr>)"

definition load_graph_record :: "'s registry_ops \<Rightarrow> string \<Rightarrow> string \<Rightarrow> string \<Rightarrow> u64 \<Rightarrow> 's \<Rightarrow> graph_error + json versioned_record" where
  "load_graph_record ops scope kind rid v st = (case ro_get ops scope kind rid v st of
      Inl e \<Rightarrow> Inl (backend e)
    | Inr None \<Rightarrow> Inl (MissingVersion kind rid v)
    | Inr (Some rec) \<Rightarrow> Inr rec)"

definition root_context :: "'s registry_ops \<Rightarrow> version_selector \<Rightarrow> 's \<Rightarrow> graph_error + validation_context" where
  "root_context ops root st = (case root of
      LatestPublication scope \<Rightarrow> (case latest_pinned_manifest ops scope st of
          Inl e \<Rightarrow> Inl (backend e)
        | Inr None \<Rightarrow> Inl (MissingResource ''publication'' ''latest'')
        | Inr (Some m) \<Rightarrow> context_from_entries scope (pm_entries m) False True)
    | PublicationAt scope n \<Rightarrow> (case pinned_manifest_for_publication ops scope n st of
          Inl e \<Rightarrow> Inl (backend e)
        | Inr None \<Rightarrow> Inl (MissingVersion ''publication'' scope n)
        | Inr (Some m) \<Rightarrow> context_from_entries scope (pm_entries m) False False)
    | ManifestRoot scope m \<Rightarrow> context_from_entries scope (pm_entries m) False False
    | ExactVersion scope kind rid v \<Rightarrow> (case load_graph_record ops scope kind rid v st of
          Inl e \<Rightarrow> Inl e
        | Inr rec \<Rightarrow> context_from_entries scope
            [\<lparr>pe_kind = kind, pe_id = rid, pe_version = v, pe_content_hash = rc_content_hash rec\<rparr>] True False))"

section \<open>References\<close>

definition reject_archived :: "'s registry_ops \<Rightarrow> string \<Rightarrow> string \<Rightarrow> string \<Rightarrow> u64 option \<Rightarrow> 's \<Rightarrow> graph_error + unit" where
  "reject_archived ops scope kind rid v st = (case ro_resource_state ops scope kind rid st of
      Inl e \<Rightarrow> Inl (backend e)
    | Inr None \<Rightarrow> Inl (MissingResource kind rid)
    | Inr (Some s) \<Rightarrow> if vs_archived_at s \<noteq> None then Inl (ArchivedReference kind rid v) else Inr ())"

definition validate_stored_entry :: "registry_env \<Rightarrow> 's registry_ops \<Rightarrow> string \<Rightarrow> pinned_entry \<Rightarrow> bool \<Rightarrow> 's \<Rightarrow>
    graph_error + json versioned_record" where
  "validate_stored_entry env ops scope e reject st =
     (case (if reject then reject_archived ops scope (pe_kind e) (pe_id e) (Some (pe_version e)) st else Inr ()) of
        Inl err \<Rightarrow> Inl err
      | Inr _ \<Rightarrow>
      case load_graph_record ops scope (pe_kind e) (pe_id e) (pe_version e) st of
        Inl err \<Rightarrow> Inl err
      | Inr rec \<Rightarrow>
      case verify_content_hash env rec of
        Inl err \<Rightarrow> Inl (backend err)
      | Inr _ \<Rightarrow>
          if rc_content_hash rec \<noteq> pe_content_hash e
          then Inl (ContentHashMismatch (pe_kind e) (pe_id e) (pe_version e) (pe_content_hash e) (rc_content_hash rec))
          else Inr rec)"

definition entry_of_record :: "string \<Rightarrow> string \<Rightarrow> json versioned_record \<Rightarrow> pinned_entry" where
  "entry_of_record kind rid rec = \<lparr>pe_kind = kind, pe_id = rid, pe_version = rc_version rec,
     pe_content_hash = rc_content_hash rec\<rparr>"

definition resolve_reference_entry :: "'s registry_ops \<Rightarrow> validation_context \<Rightarrow> string \<Rightarrow> string \<Rightarrow> 's \<Rightarrow>
    graph_error + pinned_entry" where
  "resolve_reference_entry ops ctx kind rid st = (case vc_candidates ctx (kind, rid) of
      Some e \<Rightarrow> Inr e
    | None \<Rightarrow>
        if \<not> vc_allow_current ctx then Inl (MissingResource kind rid)
        else case reject_archived ops (vc_scope ctx) kind rid None st of
          Inl err \<Rightarrow> Inl err
        | Inr _ \<Rightarrow> (case ro_current ops (vc_scope ctx) kind rid st of
            Inl err \<Rightarrow> Inl (backend err)
          | Inr None \<Rightarrow> Inl (MissingResource kind rid)
          | Inr (Some rec) \<Rightarrow> Inr (entry_of_record kind rid rec)))"

definition try_reference_entry :: "'s registry_ops \<Rightarrow> validation_context \<Rightarrow> string \<Rightarrow> string \<Rightarrow> 's \<Rightarrow>
    graph_error + pinned_entry option" where
  "try_reference_entry ops ctx kind rid st = (case vc_candidates ctx (kind, rid) of
      Some e \<Rightarrow> Inr (Some e)
    | None \<Rightarrow>
        if \<not> vc_allow_current ctx then Inr None
        else case ro_resource_state ops (vc_scope ctx) kind rid st of
          Inl err \<Rightarrow> Inl (backend err)
        | Inr None \<Rightarrow> Inr None
        | Inr (Some _) \<Rightarrow>
            (case reject_archived ops (vc_scope ctx) kind rid None st of
               Inl err \<Rightarrow> Inl err
             | Inr _ \<Rightarrow> (case ro_current ops (vc_scope ctx) kind rid st of
                 Inl err \<Rightarrow> Inl (backend err)
               | Inr None \<Rightarrow> Inr None
               | Inr (Some rec) \<Rightarrow> Inr (Some (entry_of_record kind rid rec)))))"

definition resolve_model_or_pool_reference :: "'s registry_ops \<Rightarrow> validation_context \<Rightarrow> string \<Rightarrow> 's \<Rightarrow> graph_error + pinned_entry" where
  "resolve_model_or_pool_reference ops ctx rid st =
     (case try_reference_entry ops ctx ''model'' rid st of Inl err \<Rightarrow> Inl err | Inr model \<Rightarrow>
      case try_reference_entry ops ctx ''model_pool'' rid st of Inl err \<Rightarrow> Inl err | Inr pool \<Rightarrow>
      (case (model, pool) of
         (Some _, Some _) \<Rightarrow> Inl (InvalidReference ''model'' rid ''id resolves to both a model and a model pool'')
       | (Some e, None) \<Rightarrow> Inr e
       | (None, Some e) \<Rightarrow> Inr e
       | (None, None) \<Rightarrow> Inl (MissingResource ''model'' rid)))"

text \<open>The loops that resolve a list of ids of one kind, appending to what is resolved already.\<close>

fun resolve_all :: "'s registry_ops \<Rightarrow> validation_context \<Rightarrow> string \<Rightarrow> string list \<Rightarrow> 's \<Rightarrow> pinned_entry list \<Rightarrow>
    graph_error + pinned_entry list" where
  "resolve_all ops ctx kind [] st acc = Inr acc"
| "resolve_all ops ctx kind (rid # rids) st acc =
     (case resolve_reference_entry ops ctx kind rid st of
        Inl err \<Rightarrow> Inl err
      | Inr e \<Rightarrow> resolve_all ops ctx kind rids st (acc @ [e]))"

definition agent_dependencies :: "spec_env \<Rightarrow> 's registry_ops \<Rightarrow> validation_context \<Rightarrow> pinned_entry \<Rightarrow> json versioned_record \<Rightarrow> 's \<Rightarrow>
    graph_error + pinned_entry list" where
  "agent_dependencies senv ops ctx e rec st = (case agent_of_json senv (rc_value rec) of
      Inl err \<Rightarrow> Inl (InvalidReference (pe_kind e) (pe_id e) (''invalid AgentSpec: '' @ err))
    | Inr spec \<Rightarrow>
        if ar_id spec \<noteq> pe_id e
        then Inl (InvalidReference (pe_kind e) (pe_id e) (''AgentSpec.id '' @ ar_id spec @ '' does not match registry id''))
        else case (if \<not> ar_has_endpoint spec
                   then (case resolve_model_or_pool_reference ops ctx (ar_model_id spec) st of Inl err \<Rightarrow> Inl err | Inr d \<Rightarrow> Inr [d])
                   else Inr []) of
          Inl err \<Rightarrow> Inl err
        | Inr deps \<Rightarrow> resolve_all ops ctx ''agent'' (ar_delegates spec) st deps)"

definition model_dependencies :: "spec_env \<Rightarrow> 's registry_ops \<Rightarrow> validation_context \<Rightarrow> pinned_entry \<Rightarrow> json versioned_record \<Rightarrow> 's \<Rightarrow>
    graph_error + pinned_entry list" where
  "model_dependencies senv ops ctx e rec st = (case model_of_json senv (rc_value rec) of
      Inl err \<Rightarrow> Inl (InvalidReference (pe_kind e) (pe_id e) (''invalid ModelSpec: '' @ err))
    | Inr spec \<Rightarrow>
        if mr_id spec \<noteq> pe_id e
        then Inl (InvalidReference (pe_kind e) (pe_id e) (''ModelSpec.id '' @ mr_id spec @ '' does not match registry id''))
        else case resolve_reference_entry ops ctx ''provider'' (mr_provider_id spec) st of
          Inl err \<Rightarrow> Inl err | Inr d \<Rightarrow> Inr [d])"

definition model_pool_dependencies :: "spec_env \<Rightarrow> 's registry_ops \<Rightarrow> validation_context \<Rightarrow> pinned_entry \<Rightarrow> json versioned_record \<Rightarrow> 's \<Rightarrow>
    graph_error + pinned_entry list" where
  "model_pool_dependencies senv ops ctx e rec st = (case pool_of_json senv (rc_value rec) of
      Inl err \<Rightarrow> Inl (InvalidReference (pe_kind e) (pe_id e) (''invalid ModelPoolSpec: '' @ err))
    | Inr spec \<Rightarrow>
        if pr_id spec \<noteq> pe_id e
        then Inl (InvalidReference (pe_kind e) (pe_id e) (''ModelPoolSpec.id '' @ pr_id spec @ '' does not match registry id''))
        else resolve_all ops ctx ''model'' (pr_members spec) st [])"

definition dependencies_for_record :: "spec_env \<Rightarrow> 's registry_ops \<Rightarrow> validation_context \<Rightarrow> pinned_entry \<Rightarrow> json versioned_record \<Rightarrow> 's \<Rightarrow>
    graph_error + pinned_entry list" where
  "dependencies_for_record senv ops ctx e rec st =
     (if pe_kind e = ''agent'' then agent_dependencies senv ops ctx e rec st
      else if pe_kind e = ''model'' then model_dependencies senv ops ctx e rec st
      else if pe_kind e = ''model_pool'' then model_pool_dependencies senv ops ctx e rec st
      else if pe_kind e \<in> {''provider'', ''skill'', ''tool'', ''plugin_config''} then Inr []
      else Inl (InvalidReference (pe_kind e) (pe_id e) ''unsupported registry kind''))"

section \<open>The walk\<close>

definition ref_of_entry :: "pinned_entry \<Rightarrow> version_ref" where
  "ref_of_entry e = \<lparr>vr_kind = pe_kind e, vr_id = pe_id e, vr_version = pe_version e\<rparr>"

fun validate_entry :: "registry_env \<Rightarrow> spec_env \<Rightarrow> 's registry_ops \<Rightarrow> 's \<Rightarrow> nat \<Rightarrow> validation_context \<Rightarrow> pinned_entry \<Rightarrow>
      (graph_error + validation_context) option"
  and validate_entries :: "registry_env \<Rightarrow> spec_env \<Rightarrow> 's registry_ops \<Rightarrow> 's \<Rightarrow> nat \<Rightarrow> validation_context \<Rightarrow> pinned_entry list \<Rightarrow>
      (graph_error + validation_context) option" where
  "validate_entry env senv ops st 0 ctx e = None"
| "validate_entry env senv ops st (Suc fuel) ctx e =
     (case map_of (vc_accepted ctx) (entry_key e) of
        Some existing \<Rightarrow>
          if pe_version existing = pe_version e \<and> pe_content_hash existing = pe_content_hash e then Some (Inr ctx)
          else Some (Inl (InvalidReference (pe_kind e) (pe_id e) ''conflicting versions for the same resource''))
      | None \<Rightarrow>
          if ref_of_entry e \<in> set (vc_visiting ctx)
          then Some (Inl (CycleDetected (dropWhile (\<lambda>v. v \<noteq> ref_of_entry e) (vc_visiting ctx) @ [ref_of_entry e])))
          else (case validate_stored_entry env ops (vc_scope ctx) e (vc_reject_archived ctx) st of
             Inl err \<Rightarrow> Some (Inl err)
           | Inr rec \<Rightarrow>
               let ctx1 = ctx\<lparr>vc_visiting := vc_visiting ctx @ [ref_of_entry e]\<rparr> in
               (case dependencies_for_record senv ops ctx1 e rec st of
                  Inl err \<Rightarrow> Some (Inl err)
                | Inr deps \<Rightarrow>
                    (case validate_entries env senv ops st fuel ctx1 deps of
                       None \<Rightarrow> None
                     | Some (Inl err) \<Rightarrow> Some (Inl err)
                     | Some (Inr ctx2) \<Rightarrow> Some (Inr (ctx2\<lparr>vc_visiting := butlast (vc_visiting ctx2),
                         vc_accepted := bt_insert (entry_key e) e (vc_accepted ctx2)\<rparr>))))))"
| "validate_entries env senv ops st fuel ctx [] = Some (Inr ctx)"
| "validate_entries env senv ops st fuel ctx (e # es) =
     (case validate_entry env senv ops st fuel ctx e of
        None \<Rightarrow> None
      | Some (Inl err) \<Rightarrow> Some (Inl err)
      | Some (Inr ctx1) \<Rightarrow> validate_entries env senv ops st fuel ctx1 es)"

definition into_report :: "validation_context \<Rightarrow> pinned_entry list" where
  "into_report ctx = map snd (vc_accepted ctx)"

definition validate_graph :: "registry_env \<Rightarrow> spec_env \<Rightarrow> 's registry_ops \<Rightarrow> nat \<Rightarrow> version_selector \<Rightarrow> 's \<Rightarrow>
    (graph_error + pinned_entry list) option" where
  "validate_graph env senv ops fuel root st = (case root_context ops root st of
      Inl err \<Rightarrow> Some (Inl err)
    | Inr ctx \<Rightarrow> (case validate_entries env senv ops st fuel ctx (vc_roots ctx) of
        None \<Rightarrow> None
      | Some (Inl err) \<Rightarrow> Some (Inl err)
      | Some (Inr ctx') \<Rightarrow> Some (Inr (into_report ctx'))))"

end
