(* ===== verification/Registry_Correct.thy ===== *)
theory Registry_Correct
imports Registry_View "HOL-Library.Multiset"
begin

text \<open>
  The in-memory registry keeps its records sorted by version, its resources pointing at the last one
  and its publications resolvable; a version, once published, never changes. What the default methods
  of the contract need of a store is a locale, interpreted on the in-memory store.
\<close>

text \<open>Keys are triples; facts about every key stay facts about every key.\<close>

declare split_paired_All [simp del] split_paired_Ex [simp del]

section \<open>Ordered maps and lists\<close>

lemma bt_insert_last: "(\<forall>k' \<in> fst ` set m. k' < k) \<Longrightarrow> bt_insert k v m = m @ [(k, v)]"
  by (induction k v m rule: bt_insert.induct) auto

lemma sorted_last_max: "sorted_wrt (<) (map f xs) \<Longrightarrow> x \<in> set xs \<Longrightarrow> f x \<le> f (last xs)"
  for f :: "'a \<Rightarrow> 'b::linorder"
  by (induction xs) (auto simp: less_imp_le)

lemma sorted_same: "sorted_wrt (<) (map f xs) \<Longrightarrow> x \<in> set xs \<Longrightarrow> y \<in> set xs \<Longrightarrow> f x = f y \<Longrightarrow> x = y"
  for f :: "'a \<Rightarrow> 'b::linorder"
  by (induction xs) (auto simp: less_le)

lemma find_version_sorted:
  "sorted_wrt (<) (map rc_version rs) \<Longrightarrow> find_version v rs = Some r \<longleftrightarrow> r \<in> set rs \<and> rc_version r = v"
  unfolding find_version_def by (induction rs) auto

section \<open>The invariant\<close>

definition record_ok :: "registry_env \<Rightarrow> resource_key \<Rightarrow> json versioned_record \<Rightarrow> bool" where
  "record_ok env key r \<longleftrightarrow> rc_version r \<noteq> 0 \<and> (rc_kind r, rc_id r) = snd key \<and>
     canonical_content_hash env (rc_schema r) (rc_value r) = Inr (rc_content_hash r, rc_bytes r)"

definition key_ok :: "registry_env \<Rightarrow> registry_store \<Rightarrow> resource_key \<Rightarrow> bool" where
  "key_ok env st key \<longleftrightarrow> (let rs = records_of st key in
     sorted_wrt (<) (map rc_version rs) \<and> (\<forall>r \<in> set rs. record_ok env key r) \<and>
     (case rg_resources st key of
        None \<Rightarrow> rs = []
      | Some s \<Rightarrow> rs \<noteq> [] \<and> vs_current_version s = Some (rc_version (last rs)) \<and>
          (vs_scope_id s, vs_kind s, vs_id s) = key))"

definition resolves :: "registry_store \<Rightarrow> string \<Rightarrow> version_ref \<Rightarrow> bool" where
  "resolves st scope e \<longleftrightarrow> (\<exists>r \<in> set (records_of st (scope, vr_kind e, vr_id e)). rc_version r = vr_version e)"

definition publication_ok :: "registry_store \<Rightarrow> string \<Rightarrow> u64 \<Rightarrow> registry_publication \<Rightarrow> bool" where
  "publication_ok st scope n p \<longleftrightarrow> n \<noteq> 0 \<and> pb_snapshot_version p = n \<and> pb_scope_id p = scope \<and> pb_entries p \<noteq> [] \<and>
     distinct (map (\<lambda>e. (vr_kind e, vr_id e)) (pb_entries p)) \<and> (\<forall>e \<in> set (pb_entries p). resolves st scope e)"

definition pubs_ok :: "registry_store \<Rightarrow> string \<Rightarrow> bool" where
  "pubs_ok st scope \<longleftrightarrow> (let ps = publications_of st scope in
     bt_ok ps \<and> distinct (map (pb_publication_id \<circ> snd) ps) \<and> (\<forall>(n, p) \<in> set ps. publication_ok st scope n p))"

definition registry_inv :: "registry_env \<Rightarrow> registry_store \<Rightarrow> bool" where
  "registry_inv env st \<longleftrightarrow> (\<forall>key. key_ok env st key) \<and> (\<forall>scope. pubs_ok st scope)"

lemma registry_inv_new [simp]: "registry_inv env registry_new"
  by (simp add: registry_inv_def key_ok_def pubs_ok_def records_of_def publications_of_def registry_new_def Let_def)

lemma inv_key: "registry_inv env st \<Longrightarrow> key_ok env st key"
  unfolding registry_inv_def by blast

lemma inv_pubs: "registry_inv env st \<Longrightarrow> pubs_ok st scope"
  unfolding registry_inv_def by blast

lemma key_okD:
  assumes "registry_inv env st"
  shows "sorted_wrt (<) (map rc_version (records_of st key))" "r \<in> set (records_of st key) \<Longrightarrow> record_ok env key r"
    and "rg_resources st key = None \<longleftrightarrow> records_of st key = []"
    and "rg_resources st key = Some s \<Longrightarrow> vs_current_version s = Some (rc_version (last (records_of st key)))"
    and "rg_resources st key = Some s \<Longrightarrow> (vs_scope_id s, vs_kind s, vs_id s) = key"
  using inv_key [OF assms, of key] by (auto simp: key_ok_def Let_def split: option.splits)

text \<open>The last version of a resource and the last snapshot of a scope, 0 when there is none.\<close>

definition last_version :: "registry_store \<Rightarrow> resource_key \<Rightarrow> nat" where
  "last_version st key = (case records_of st key of [] \<Rightarrow> 0 | rs \<Rightarrow> unat (rc_version (last rs)))"

definition last_snapshot :: "registry_store \<Rightarrow> string \<Rightarrow> nat" where
  "last_snapshot st scope = (case publications_of st scope of [] \<Rightarrow> 0 | ps \<Rightarrow> unat (fst (last ps)))"

lemma current_record_last:
  assumes "registry_inv env st"
  shows "current_record st key = (case records_of st key of [] \<Rightarrow> None | rs \<Rightarrow> Some (last rs))"
proof (cases "rg_resources st key")
  case None
  with key_okD(3) [OF assms, of key] show ?thesis by (simp add: current_record_def)
next
  case (Some s)
  then have rs: "records_of st key \<noteq> []" using key_okD(3) [OF assms, of key] by auto
  then obtain rs where "rg_versions st key = Some rs" "records_of st key = rs"
    by (cases "rg_versions st key") (auto simp: records_of_def)
  moreover have "find_version (rc_version (last rs)) rs = Some (last rs)"
    if "records_of st key = rs" for rs
    using key_okD(1) [OF assms, of key] rs that by (simp add: find_version_sorted)
  ultimately show ?thesis using Some rs key_okD(4) [OF assms Some]
    by (auto simp: current_record_def split: list.splits)
qed

lemma next_version_unat:
  assumes "last_version st key + 1 < 2 ^ 64"
  shows "unat (next_version st key) = last_version st key + 1"
proof -
  have "unat (w + 1) = Suc (unat w)" if "unat w + 1 < 2 ^ 64" for w :: u64
    using that by (simp add: unat_word_ariths)
  then show ?thesis using assms by (auto simp: next_version_def last_version_def split: list.splits)
qed

section \<open>Pushing a version\<close>

text \<open>What one record pushed to one key changes.\<close>

lemma push_version_result:
  assumes push: "push_version scope kind rid hash schema v bytes now metadata st = (rec, st')"
  shows "records_of st' key = (if key = (scope, kind, rid) then records_of st key @ [rec] else records_of st key)"
    and "publications_of st' = publications_of st"
    and "key \<noteq> (scope, kind, rid) \<Longrightarrow> rg_resources st' key = rg_resources st key"
    and "rc_version rec = next_version st (scope, kind, rid)"
    and "rc_kind rec = kind" "rc_id rec = rid" "rc_content_hash rec = hash" "rc_schema rec = schema"
        "rc_value rec = v" "rc_bytes rec = bytes" "rc_metadata rec = metadata" "rc_created_at rec = now"
    and "\<exists>s. rg_resources st' (scope, kind, rid) = Some s \<and> vs_current_version s = Some (rc_version rec) \<and>
           vs_archived_at s = (case rg_resources st (scope, kind, rid) of None \<Rightarrow> None | Some s0 \<Rightarrow> vs_archived_at s0) \<and>
           (vs_scope_id s, vs_kind s, vs_id s) = (case rg_resources st (scope, kind, rid) of
              None \<Rightarrow> (scope, kind, rid) | Some s0 \<Rightarrow> (vs_scope_id s0, vs_kind s0, vs_id s0))"
  using push
  by (auto simp: push_version_def Let_def upsert_resource_state_def records_of_def publications_of_def fun_eq_iff
      split: option.splits)

lemma sorted_push:
  assumes "registry_inv env st" "last_version st key + 1 < 2 ^ 64"
    and "rc_version rec = next_version st key"
  shows "sorted_wrt (<) (map rc_version (records_of st key @ [rec]))"
proof -
  have "rc_version r < rc_version rec" if r: "r \<in> set (records_of st key)" for r
  proof -
    have "rc_version r \<le> rc_version (last (records_of st key))"
      using sorted_last_max [OF key_okD(1) [OF assms(1)] r] .
    moreover from r have "unat (rc_version (last (records_of st key))) = last_version st key"
      by (auto simp: last_version_def split: list.splits)
    ultimately show ?thesis using next_version_unat [OF assms(2)] assms(3) by (simp add: word_le_nat_alt word_less_nat_alt)
  qed
  then show ?thesis using key_okD(1) [OF assms(1)] by (auto simp: sorted_wrt_append)
qed

lemma resolves_mono:
  assumes "set (records_of st (scope, vr_kind e, vr_id e)) \<subseteq> set (records_of st' (scope, vr_kind e, vr_id e))" "resolves st scope e"
  shows "resolves st' scope e"
  using assms by (auto simp: resolves_def)

lemma pubs_ok_mono:
  assumes "pubs_ok st scope" "publications_of st' scope = publications_of st scope"
    and "\<And>key. set (records_of st key) \<subseteq> set (records_of st' key)"
  shows "pubs_ok st' scope"
  using assms resolves_mono [OF assms(3)] by (auto simp: pubs_ok_def publication_ok_def Let_def)

lemma push_version_inv:
  assumes inv: "registry_inv env st" and room: "last_version st (scope, kind, rid) + 1 < 2 ^ 64"
    and hash: "canonical_content_hash env schema v = Inr (hash, bytes)"
    and push: "push_version scope kind rid hash schema v bytes now metadata st = (rec, st')"
  shows "registry_inv env st'"
  unfolding registry_inv_def
proof (intro conjI allI)
  note res = push_version_result [OF push]
  show "pubs_ok st' s" for s
    by (rule pubs_ok_mono [of st]) (use inv_pubs [OF inv] res(1,2) in auto)
  show "key_ok env st' key" for key
  proof (cases "key = (scope, kind, rid)")
    case False
    with inv_key [OF inv, of key] show ?thesis using res(1) [of key] res(3) [of key] by (simp add: key_ok_def)
  next
    case True
    have "rc_version rec \<noteq> 0"
      using next_version_unat [OF room] res(4) by (metis Suc_eq_plus1 nat.distinct(1) unat_0)
    then have rec: "record_ok env key rec" using hash True res(5-10) by (simp add: record_ok_def)
    obtain s where s: "rg_resources st' key = Some s" "vs_current_version s = Some (rc_version rec)"
      "(vs_scope_id s, vs_kind s, vs_id s) = key"
      using res(13) key_okD(5) [OF inv] True by (auto split: option.splits)
    from sorted_push [OF inv room res(4)] s rec key_okD(2) [OF inv, of _ key] show ?thesis
      using True res(1) [of key] by (auto simp: key_ok_def Let_def)
  qed
qed

section \<open>How the store evolves\<close>

definition evolves :: "registry_store \<Rightarrow> registry_store \<Rightarrow> bool" where
  "evolves st st' \<longleftrightarrow> (\<forall>key. last_version st key \<le> last_version st' key) \<and>
     (\<forall>key. \<forall>r \<in> set (records_of st' key). r \<in> set (records_of st key) \<or> last_version st key < unat (rc_version r)) \<and>
     (\<forall>scope. \<exists>new. publications_of st' scope = publications_of st scope @ new)"

lemma evolves_refl: "evolves st st"
  by (simp add: evolves_def)

lemma evolves_trans:
  assumes "evolves st st'" "evolves st' st''"
  shows "evolves st st''"
  unfolding evolves_def
proof (intro conjI allI ballI)
  fix key
  have le: "last_version st key \<le> last_version st' key" "last_version st' key \<le> last_version st'' key"
    using assms unfolding evolves_def by blast+
  then show "last_version st key \<le> last_version st'' key" by linarith
  fix r
  assume "r \<in> set (records_of st'' key)"
  then have "r \<in> set (records_of st' key) \<or> last_version st' key < unat (rc_version r)"
    using assms(2) unfolding evolves_def by blast
  then show "r \<in> set (records_of st key) \<or> last_version st key < unat (rc_version r)"
    using assms(1) le unfolding evolves_def by (meson le_less_trans)
next
  fix scope
  obtain a b where "publications_of st'' scope = publications_of st' scope @ a" "publications_of st' scope = publications_of st scope @ b"
    using assms unfolding evolves_def by metis
  then show "\<exists>new. publications_of st'' scope = publications_of st scope @ new" by simp
qed

text \<open>One call: the invariant is kept and every resource and scope gains at most one version and snapshot.\<close>

definition step_ok :: "registry_env \<Rightarrow> registry_store \<Rightarrow> registry_store \<Rightarrow> bool" where
  "step_ok env st st' \<longleftrightarrow> registry_inv env st' \<and> evolves st st' \<and>
     (\<forall>key. last_version st' key \<le> last_version st key + 1) \<and> (\<forall>scope. last_snapshot st' scope \<le> last_snapshot st scope + 1) \<and>
     (\<forall>key. set (records_of st key) \<subseteq> set (records_of st' key))"

definition room :: "registry_store \<Rightarrow> bool" where
  "room st \<longleftrightarrow> (\<forall>key. last_version st key + 1 < 2 ^ 64) \<and> (\<forall>scope. last_snapshot st scope + 1 < 2 ^ 64)"

lemma roomD: "room st \<Longrightarrow> last_version st key + 1 < 2 ^ 64" "room st \<Longrightarrow> last_snapshot st scope + 1 < 2 ^ 64"
  unfolding room_def by blast+

lemma step_ok_refl: "registry_inv env st \<Longrightarrow> step_ok env st st"
  by (simp add: step_ok_def evolves_refl)

text \<open>At most one more record at each of some keys.\<close>

definition pushed :: "resource_key set \<Rightarrow> registry_store \<Rightarrow> registry_store \<Rightarrow> bool" where
  "pushed keys st st' \<longleftrightarrow> publications_of st' = publications_of st \<and>
     (\<forall>key. records_of st' key = records_of st key \<or>
        key \<in> keys \<and> (\<exists>rec. records_of st' key = records_of st key @ [rec] \<and> unat (rc_version rec) = last_version st key + 1))"

lemma pushed_refl: "pushed keys st st"
  by (simp add: pushed_def)

lemma pushed_trans:
  assumes "pushed K st st1" "pushed K' st1 st2" "K \<inter> K' = {}"
  shows "pushed (K \<union> K') st st2"
proof -
  have "records_of st2 key = records_of st key \<or>
      key \<in> K \<union> K' \<and> (\<exists>rec. records_of st2 key = records_of st key @ [rec] \<and> unat (rc_version rec) = last_version st key + 1)" for key
  proof (cases "key \<in> K")
    case True
    then have "records_of st2 key = records_of st1 key" using assms(2,3) unfolding pushed_def by blast
    with True assms(1) show ?thesis unfolding pushed_def by auto
  next
    case False
    then have "records_of st1 key = records_of st key" using assms(1) unfolding pushed_def by blast
    moreover from this have "last_version st1 key = last_version st key" by (simp add: last_version_def)
    ultimately show ?thesis using assms(2) unfolding pushed_def by (metis UnI2)
  qed
  with assms(1,2) show ?thesis by (simp add: pushed_def)
qed

lemma pushed_subset: "pushed K st st' \<Longrightarrow> set (records_of st key) \<subseteq> set (records_of st' key)"
  unfolding pushed_def by (metis Un_upper1 set_append subset_refl)

lemma pushed_last: "pushed K st st' \<Longrightarrow> last_version st key \<le> last_version st' key \<and> last_version st' key \<le> last_version st key + 1"
proof -
  assume "pushed K st st'"
  then consider "records_of st' key = records_of st key"
    | rec where "records_of st' key = records_of st key @ [rec]" "unat (rc_version rec) = last_version st key + 1"
    unfolding pushed_def by blast
  then show ?thesis by cases (auto simp: last_version_def split: list.splits)
qed

lemma pushed_evolves: "pushed K st st' \<Longrightarrow> evolves st st'"
  unfolding evolves_def
proof (intro conjI allI ballI)
  fix key r
  assume "pushed K st st'" "r \<in> set (records_of st' key)"
  then show "r \<in> set (records_of st key) \<or> last_version st key < unat (rc_version r)"
    unfolding pushed_def by (metis Un_iff empty_iff insert_iff less_add_one list.set set_append)
next
  fix scope
  assume "pushed K st st'"
  then show "\<exists>new. publications_of st' scope = publications_of st scope @ new" by (simp add: pushed_def)
qed (use pushed_last in blast)

lemma pushed_step: "registry_inv env st' \<Longrightarrow> pushed K st st' \<Longrightarrow> step_ok env st st'"
  using pushed_evolves [of K st st'] pushed_last [of K st st'] pushed_subset [of K st st']
  by (simp add: step_ok_def last_snapshot_def) (simp add: pushed_def)

lemma push_version_pushed:
  assumes "last_version st (scope, kind, rid) + 1 < 2 ^ 64"
    and push: "push_version scope kind rid hash schema v bytes now metadata st = (rec, st')"
  shows "pushed {(scope, kind, rid)} st st'"
  using push_version_result(1,2,4) [OF push] next_version_unat [OF assms(1)] unfolding pushed_def by auto

section \<open>Publishing one resource\<close>

lemma content_hash_Inr: "registry_content_hash env schema v = Inr (hash, bytes) \<longleftrightarrow>
    canonical_content_hash env schema v = Inr (hash, bytes)"
  unfolding registry_content_hash_def by (cases "canonical_content_hash env schema v") auto

lemma publish_resource_step:
  assumes inv: "registry_inv env st" and room: "room st"
  shows "step_ok env st (snd (reg_publish_resource env now scope kind rid v schema metadata st))"
proof -
  have "step_ok env st (snd (push_version scope kind rid hash schema v bytes now metadata st))"
    if "registry_content_hash env schema v = Inr (hash, bytes)" for hash bytes
  proof -
    obtain rec st' where push: "push_version scope kind rid hash schema v bytes now metadata st = (rec, st')"
      by (cases "push_version scope kind rid hash schema v bytes now metadata st")
    from that have "canonical_content_hash env schema v = Inr (hash, bytes)" by (simp add: content_hash_Inr)
    with push_version_inv [OF inv roomD(1) [OF room] _ push] push_version_pushed [OF roomD(1) [OF room] push] push
    show ?thesis by (auto intro: pushed_step)
  qed
  then show ?thesis using step_ok_refl [OF inv]
    by (auto simp: reg_publish_resource_def case_prod_unfold Let_def split: sum.splits option.splits)
qed

lemma rollback_resource_step:
  assumes inv: "registry_inv env st" and room: "room st"
  shows "step_ok env st (snd (reg_rollback_resource env now scope kind rid v metadata st))"
proof -
  have "step_ok env st (snd (push_version scope kind rid hash schema w bytes now m st))"
    if "registry_content_hash env schema w = Inr (hash, bytes)" for hash bytes schema w m
  proof -
    obtain rec st' where push: "push_version scope kind rid hash schema w bytes now m st = (rec, st')"
      by (cases "push_version scope kind rid hash schema w bytes now m st")
    from that have "canonical_content_hash env schema w = Inr (hash, bytes)" by (simp add: content_hash_Inr)
    with push_version_inv [OF inv roomD(1) [OF room] _ push] push_version_pushed [OF roomD(1) [OF room] push] push
    show ?thesis by (auto intro: pushed_step)
  qed
  then show ?thesis using step_ok_refl [OF inv]
    by (auto simp: reg_rollback_resource_def case_prod_unfold Let_def split: sum.splits option.splits)
qed

text \<open>Archiving touches one resource, and neither its identity nor its version.\<close>

lemma touch_resource:
  assumes inv: "registry_inv env st" and s: "rg_resources st key = Some s"
    and st': "st' = st\<lparr>rg_resources := (rg_resources st)(key \<mapsto> s\<lparr>vs_archived_at := a, vs_updated_at := now\<rparr>)\<rparr>"
  shows "step_ok env st st'"
proof -
  have same: "records_of st' = records_of st" "publications_of st' = publications_of st"
    by (simp_all add: st' records_of_def publications_of_def fun_eq_iff)
  have "rg_resources st' k = (if k = key then Some (s\<lparr>vs_archived_at := a, vs_updated_at := now\<rparr>) else rg_resources st k)" for k
    by (simp add: st')
  then have "key_ok env st' k" for k
    using inv_key [OF inv, of k] s by (cases "k = key") (simp_all add: key_ok_def same)
  moreover have "pubs_ok st' sc" for sc
    by (rule pubs_ok_mono [OF inv_pubs [OF inv]]) (simp_all add: same)
  ultimately have "registry_inv env st'" unfolding registry_inv_def by blast
  then show ?thesis by (rule pushed_step [of _ _ "{}"]) (simp add: pushed_def same)
qed

lemma archive_step:
  assumes "registry_inv env st"
  shows "step_ok env st (snd (reg_archive_resource now scope kind rid st))"
    and "step_ok env st (snd (reg_unarchive_resource now scope kind rid st))"
  using touch_resource [OF assms _ refl] step_ok_refl [OF assms]
  by (auto simp: reg_archive_resource_def reg_unarchive_resource_def split: option.splits)

section \<open>Publications\<close>

lemma add_publication_step:
  assumes inv: "registry_inv env st1" and room: "last_snapshot st1 scope + 1 < 2 ^ 64"
    and new: "\<not> publication_exists st1 scope pid"
    and entries: "entries \<noteq> []" "distinct (map (\<lambda>e. (vr_kind e, vr_id e)) entries)" "\<And>e. e \<in> set entries \<Longrightarrow> resolves st1 scope e"
    and add: "add_publication now scope pid entries sources created_by metadata st1 = (p, st2)"
  shows "step_ok env st1 st2" "records_of st2 = records_of st1"
    and "publications_of st2 = (publications_of st1)(scope := publications_of st1 scope @ [(pb_snapshot_version p, p)])"
    and "pb_entries p = sort_publication_entries entries" "pb_publication_id p = pid"
    and "unat (pb_snapshot_version p) = last_snapshot st1 scope + 1" "last_snapshot st2 scope = last_snapshot st1 scope + 1"
proof -
  let ?ps = "publications_of st1 scope" and ?n = "next_snapshot (publications_of st1 scope)"
  have ps: "bt_ok ?ps" "distinct (map (pb_publication_id \<circ> snd) ?ps)" "\<And>n p. (n, p) \<in> set ?ps \<Longrightarrow> publication_ok st1 scope n p"
    using inv_pubs [OF inv, of scope] by (auto simp: pubs_ok_def Let_def)
  have "unat (w + 1) = Suc (unat w)" if "unat w + 1 < 2 ^ 64" for w :: u64
    using that by (simp add: unat_word_ariths)
  then have n: "unat ?n = last_snapshot st1 scope + 1"
    using room by (auto simp: next_snapshot_def last_snapshot_def split: list.splits)
  have less: "\<forall>k \<in> fst ` set ?ps. k < ?n"
  proof
    fix k
    assume "k \<in> fst ` set ?ps"
    then obtain e where e: "e \<in> set ?ps" "k = fst e" by blast
    from sorted_last_max [of fst ?ps, OF _ e(1)] ps(1) have "k \<le> fst (last ?ps)" by (simp add: bt_ok_def e)
    moreover from e have "unat (fst (last ?ps)) = last_snapshot st1 scope" by (auto simp: last_snapshot_def split: list.splits)
    ultimately show "k < ?n" using n by (simp add: word_le_nat_alt word_less_nat_alt)
  qed
  have p: "pb_snapshot_version p = ?n" "pb_scope_id p = scope" "pb_publication_id p = pid" "pb_entries p = sort_publication_entries entries"
    and st2: "st2 = st1\<lparr>rg_publications := (rg_publications st1)(scope \<mapsto> bt_insert ?n p ?ps)\<rparr>"
    using add by (auto simp: add_publication_def Let_def)
  have recs: "records_of st2 = records_of st1" "rg_resources st2 = rg_resources st1"
    by (simp_all add: st2 records_of_def fun_eq_iff)
  have pubs: "publications_of st2 = (publications_of st1)(scope := ?ps @ [(?n, p)])"
    by (auto simp: st2 publications_of_def fun_eq_iff bt_insert_last [OF less, unfolded publications_of_def])
  have "resolves st2 = resolves st1" by (simp add: resolves_def recs fun_eq_iff)
  then have pub_ok: "publication_ok st2 = publication_ok st1" by (simp add: publication_ok_def fun_eq_iff)
  have sorted: "set (pb_entries p) = set entries" "pb_entries p \<noteq> []" "distinct (map (\<lambda>e. (vr_kind e, vr_id e)) (pb_entries p))"
    using entries(1,2) by (simp_all add: p sort_publication_entries_def distinct_map flip: set_empty)
  have p_ok: "publication_ok st1 scope ?n p"
    using n entries(3) by (auto simp: publication_ok_def p(1,2) sorted simp del: unat_gt_0)
  have new': "pid \<notin> set (map (pb_publication_id \<circ> snd) ?ps)"
    using new by (auto simp: publication_exists_def list_ex_iff)
  have "bt_ok (?ps @ [(?n, p)])" using ps(1) less by (simp add: bt_ok_def sorted_wrt_append)
  moreover have "distinct (map (pb_publication_id \<circ> snd) (?ps @ [(?n, p)]))" using ps(2) new' by (simp add: p(3))
  moreover have "\<forall>(n, q) \<in> set (?ps @ [(?n, p)]). publication_ok st1 scope n q" using ps(3) p_ok by auto
  ultimately have "pubs_ok st2 scope" unfolding pubs_ok_def Let_def pubs pub_ok by simp
  then have pubs2: "pubs_ok st2 sc" for sc
    using inv_pubs [OF inv, of sc] by (cases "sc = scope") (simp_all add: pubs_ok_def pubs pub_ok)
  have "key_ok env st2 key" for key using inv_key [OF inv, of key] by (simp add: key_ok_def recs)
  with pubs2 have inv2: "registry_inv env st2" by (simp add: registry_inv_def)
  have last: "last_version st2 = last_version st1" by (simp add: last_version_def recs fun_eq_iff)
  have snap: "last_snapshot st2 sc = (if sc = scope then last_snapshot st1 scope + 1 else last_snapshot st1 sc)" for sc
    using n by (cases ?ps) (auto simp: last_snapshot_def pubs)
  have "evolves st1 st2"
    unfolding evolves_def by (auto simp: recs last pubs)
  with inv2 snap last show "step_ok env st1 st2" by (simp add: step_ok_def recs)
  from recs pubs p n snap show "records_of st2 = records_of st1"
    "publications_of st2 = (publications_of st1)(scope := ?ps @ [(pb_snapshot_version p, p)])"
    "pb_entries p = sort_publication_entries entries" "pb_publication_id p = pid"
    "unat (pb_snapshot_version p) = last_snapshot st1 scope + 1" "last_snapshot st2 scope = last_snapshot st1 scope + 1" by simp_all
qed

lemma valid_entry_refs:
  "validate_entry_refs seen entries = Inr () \<Longrightarrow> distinct (map (\<lambda>e. (vr_kind e, vr_id e)) entries) \<and>
     (\<forall>e \<in> set entries. vr_version e \<noteq> 0 \<and> (vr_kind e, vr_id e) \<notin> seen)"
proof (induction seen entries rule: validate_entry_refs.induct)
  case (2 seen e entries)
  then show ?case by (auto split: if_splits)
qed simp

lemma valid_resources:
  "validate_resources seen resources = Inr () \<Longrightarrow> distinct (map (\<lambda>r. (rp_kind r, rp_id r)) resources) \<and>
     (\<forall>r \<in> set resources. (rp_kind r, rp_id r) \<notin> seen)"
proof (induction seen resources rule: validate_resources.induct)
  case (2 seen r resources)
  then show ?case by (auto split: if_splits)
qed simp

lemma valid_publication_entries:
  "validate_publication_entries st scope entries = Inr () \<Longrightarrow> e \<in> set entries \<Longrightarrow> resolves st scope e"
  by (induction st scope entries rule: validate_publication_entries.induct)
    (auto simp: resolves_def list_ex_iff split: option.splits if_splits)

definition prep_name :: "resource_publish \<times> string \<times> string \<Rightarrow> string \<times> string" where
  "prep_name prep = (rp_kind (fst prep), rp_id (fst prep))"

definition prep_hashed :: "registry_env \<Rightarrow> resource_publish \<times> string \<times> string \<Rightarrow> bool" where
  "prep_hashed env prep \<longleftrightarrow> canonical_content_hash env (rp_schema (fst prep)) (rp_value (fst prep)) = Inr (snd prep)"

lemma hashed_resources:
  "hash_resources env resources = Inr prepared \<Longrightarrow> map fst prepared = resources \<and>
     (\<forall>prep \<in> set prepared. prep_hashed env prep)"
proof (induction resources arbitrary: prepared)
  case (Cons r resources)
  then obtain hash bytes rest where "registry_content_hash env (rp_schema r) (rp_value r) = Inr (hash, bytes)"
    "hash_resources env resources = Inr rest" "prepared = (r, hash, bytes) # rest"
    by (auto split: sum.splits prod.splits)
  with Cons.IH [of rest] show ?case by (auto simp: content_hash_Inr prep_hashed_def)
qed simp

text \<open>What an atomic publication finds for one resource.\<close>

definition published_as :: "registry_store \<Rightarrow> string \<Rightarrow> resource_publish \<times> string \<times> string \<Rightarrow> version_ref \<Rightarrow> bool" where
  "published_as st scope prep e \<longleftrightarrow> (case prep of (r, hash, bytes) \<Rightarrow>
     vr_kind e = rp_kind r \<and> vr_id e = rp_id r \<and>
     (\<exists>rec \<in> set (records_of st (scope, rp_kind r, rp_id r)). rc_version rec = vr_version e \<and> rc_content_hash rec = hash))"

lemma published_as_mono:
  "published_as st scope prep e \<Longrightarrow> (\<And>key. set (records_of st key) \<subseteq> set (records_of st' key)) \<Longrightarrow> published_as st' scope prep e"
  unfolding published_as_def by (cases prep) fastforce

lemma publish_prepared_result:
  assumes inv: "registry_inv env st" and room: "last_version st (scope, rp_kind r, rp_id r) + 1 < 2 ^ 64"
    and hash: "canonical_content_hash env (rp_schema r) (rp_value r) = Inr (hash, bytes)"
    and publish: "publish_prepared now scope r hash bytes st = (rec, st')"
  shows "registry_inv env st'" "pushed {(scope, rp_kind r, rp_id r)} st st'"
    and "published_as st' scope (r, hash, bytes) \<lparr>vr_kind = rc_kind rec, vr_id = rc_id rec, vr_version = rc_version rec\<rparr>"
proof -
  let ?key = "(scope, rp_kind r, rp_id r)"
  have "(registry_inv env st' \<and> pushed {?key} st st') \<and> rc_kind rec = rp_kind r \<and> rc_id rec = rp_id r \<and>
      rc_content_hash rec = hash \<and> rec \<in> set (records_of st' ?key)"
  proof (cases "\<exists>current. current_record st ?key = Some current \<and> rc_content_hash current = hash")
    case True
    then have "rec \<in> set (records_of st ?key)" "st' = st" "rc_content_hash rec = hash"
      using publish current_record_last [OF inv, of ?key] by (auto simp: publish_prepared_def split: list.splits)
    with key_okD(2) [OF inv this(1)] inv show ?thesis by (simp add: pushed_refl record_ok_def)
  next
    case False
    then have push: "push_version scope (rp_kind r) (rp_id r) hash (rp_schema r) (rp_value r) bytes now (rp_metadata r) st = (rec, st')"
      using publish by (auto simp: publish_prepared_def Let_def split: option.splits if_splits)
    from push_version_inv [OF inv room hash push] push_version_pushed [OF room push] push_version_result(1,5-7) [OF push]
    show ?thesis by simp
  qed
  then show "registry_inv env st'" "pushed {?key} st st'"
    "published_as st' scope (r, hash, bytes) \<lparr>vr_kind = rc_kind rec, vr_id = rc_id rec, vr_version = rc_version rec\<rparr>"
    by (auto simp: published_as_def)
qed

lemma publish_all_result:
  assumes "registry_inv env st" "room st"
    and "distinct (map prep_name prepared)"
    and "\<forall>prep \<in> set prepared. prep_hashed env prep"
    and "publish_all now scope prepared entries st = (entries', st')"
  shows "registry_inv env st' \<and> pushed ((Pair scope \<circ> prep_name) ` set prepared) st st' \<and>
    (\<exists>refs. entries' = entries @ refs \<and> list_all2 (published_as st' scope) prepared refs)"
proof -
  have "\<forall>prep \<in> set prepared. last_version st (scope, prep_name prep) + 1 < 2 ^ 64"
    using roomD(1) [OF assms(2)] by blast
  with assms(1,3-5) show ?thesis
  proof (induction prepared arbitrary: entries st)
    case Nil
    then show ?case by (simp add: pushed_refl)
  next
    case (Cons prep prepared)
    obtain r hash bytes where prep: "prep = (r, hash, bytes)" by (cases prep)
    let ?key = "(scope, rp_kind r, rp_id r)" and ?keys = "(Pair scope \<circ> prep_name) ` set prepared"
    obtain rec st1 where one: "publish_prepared now scope r hash bytes st = (rec, st1)"
      by (cases "publish_prepared now scope r hash bytes st")
    define e where "e = \<lparr>vr_kind = rc_kind rec, vr_id = rc_id rec, vr_version = rc_version rec\<rparr>"
    have rest: "publish_all now scope prepared (entries @ [e]) st1 = (entries', st')"
      using Cons.prems(4) one by (simp add: prep e_def)
    have key: "(scope, prep_name prep) = ?key" by (simp add: prep prep_name_def)
    have "last_version st ?key + 1 < 2 ^ 64" "canonical_content_hash env (rp_schema r) (rp_value r) = Inr (hash, bytes)"
      using roomD(1) Cons.prems(3,5) by (simp_all add: prep prep_name_def prep_hashed_def)
    note one = publish_prepared_result [OF Cons.prems(1) this one, folded e_def]
    have fresh: "?key \<notin> ?keys" using Cons.prems(2) unfolding key [symmetric] by auto
    have "\<forall>q \<in> set prepared. last_version st1 (scope, prep_name q) + 1 < 2 ^ 64"
    proof
      fix q
      assume q: "q \<in> set prepared"
      with fresh have "(scope, prep_name q) \<notin> {?key}" by force
      with one(2) have "records_of st1 (scope, prep_name q) = records_of st (scope, prep_name q)"
        unfolding pushed_def by blast
      with Cons.prems(5) q show "last_version st1 (scope, prep_name q) + 1 < 2 ^ 64"
        by (simp add: last_version_def)
    qed
    moreover have "distinct (map prep_name prepared)"
      "\<forall>prep \<in> set prepared. prep_hashed env prep"
      using Cons.prems(2,3) by simp_all
    ultimately obtain refs where
      tail: "registry_inv env st'" "pushed ?keys st1 st'" "entries' = (entries @ [e]) @ refs"
        "list_all2 (published_as st' scope) prepared refs" using Cons.IH [OF one(1) _ _ rest] by blast
    have "pushed (insert ?key ?keys) st st'"
      using pushed_trans [OF one(2) tail(2)] fresh by simp
    moreover have "published_as st' scope prep e"
      using published_as_mono [OF one(3) pushed_subset [OF tail(2)]] by (simp add: prep)
    ultimately show ?case using tail by (intro conjI exI [of _ "e # refs"]) (simp_all add: key)
  qed
qed

lemma publish_resources_result:
  assumes inv: "registry_inv env st" and room: "room st"
    and publish: "reg_publish_resources env now scope pid resources sources created_by metadata st = (Inr p, st')"
  obtains st1 prepared refs where "map fst prepared = resources" "registry_inv env st1" "pushed UNIV st st1"
    "list_all2 (published_as st1 scope) prepared refs" "pb_entries p = sort_publication_entries refs"
    "\<forall>prep \<in> set prepared. prep_hashed env prep"
    "step_ok env st1 st'" "records_of st' = records_of st1" "pb_publication_id p = pid"
    "publications_of st' = (publications_of st)(scope := publications_of st scope @ [(pb_snapshot_version p, p)])"
    "last_snapshot st' scope = last_snapshot st scope + 1"
    "\<not> publication_exists st scope pid" "distinct (map (\<lambda>r. (rp_kind r, rp_id r)) resources)"
proof -
  obtain prepared refs st1 where valid: "validate_resource_publication_request pid resources = Inr ()"
    and hashed: "hash_resources env resources = Inr prepared" and new: "\<not> publication_exists st scope pid"
    and all: "publish_all now scope prepared [] st = (refs, st1)"
    and add: "add_publication now scope pid refs sources created_by metadata st1 = (p, st')"
    using publish by (auto simp: reg_publish_resources_def split: sum.splits if_splits prod.splits)
  note hashed = hashed_resources [OF hashed]
  have dist: "resources \<noteq> []" "distinct (map (\<lambda>r. (rp_kind r, rp_id r)) resources)"
    using valid valid_resources [of "{}" resources] by (auto simp: validate_resource_publication_request_def split: if_splits)
  have "map prep_name prepared = map (\<lambda>r. (rp_kind r, rp_id r)) (map fst prepared)" by (simp add: prep_name_def)
  then have "distinct (map prep_name prepared)" using dist(2) hashed by simp
  from publish_all_result [OF inv room this _ all] hashed have
    st1: "registry_inv env st1" "pushed ((Pair scope \<circ> prep_name) ` set prepared) st st1"
      "list_all2 (published_as st1 scope) prepared refs" by auto
  have pub: "publications_of st1 = publications_of st" using st1(2) by (simp add: pushed_def)
  have keys: "map (\<lambda>e. (vr_kind e, vr_id e)) refs = map (\<lambda>r. (rp_kind r, rp_id r)) resources"
  proof -
    have "map (\<lambda>e. (vr_kind e, vr_id e)) refs = map (\<lambda>r. (rp_kind r, rp_id r)) (map fst prepared)"
      using st1(3) by (induction rule: list_all2_induct) (auto simp: published_as_def)
    then show ?thesis using hashed by simp
  qed
  have "resolves st1 scope e" if "e \<in> set refs" for e
  proof -
    obtain i where "i < length refs" "e = refs ! i" using \<open>e \<in> set refs\<close> by (auto simp: in_set_conv_nth)
    with list_all2_nthD2 [OF st1(3)] obtain prep where "published_as st1 scope prep e" by metis
    then show ?thesis by (cases prep) (auto simp: published_as_def resolves_def)
  qed
  moreover have "refs \<noteq> []" using keys dist(1) by auto
  moreover have "\<not> publication_exists st1 scope pid" "last_snapshot st1 scope + 1 < 2 ^ 64"
    using new roomD(2) [OF room, of scope] by (simp_all add: publication_exists_def last_snapshot_def pub)
  ultimately have "step_ok env st1 st'" "records_of st' = records_of st1"
      "publications_of st' = (publications_of st1)(scope := publications_of st1 scope @ [(pb_snapshot_version p, p)])"
      "pb_entries p = sort_publication_entries refs" "pb_publication_id p = pid" "last_snapshot st' scope = last_snapshot st1 scope + 1"
    using add_publication_step [OF st1(1) _ _ _ _ _ add] dist(2) by (simp_all add: keys)
  moreover have "last_snapshot st1 scope = last_snapshot st scope" by (simp add: last_snapshot_def pub)
  moreover have "pushed UNIV st st1" using st1(2) unfolding pushed_def by blast
  ultimately show ?thesis using that [OF _ st1(1) _ st1(3)] hashed new dist(2) by (simp add: pub)
qed

section \<open>Retention\<close>

lemma scan_records_drop:
  "scan_records skip keep_last kept rs = drop (unat keep_last - unat kept) (filter (\<lambda>r. \<not> skip r) rs)"
proof (induction rs arbitrary: kept)
  case (Cons r rs)
  show ?case
  proof (cases "skip r \<or> \<not> kept < keep_last")
    case True
    with Cons.IH show ?thesis by (auto simp: word_less_nat_alt)
  next
    case False
    then have "unat keep_last - unat kept = Suc (unat keep_last - unat (kept + 1))"
    proof -
      have "kept \<noteq> - 1" using False word_n1_ge [of keep_last] by (auto simp: not_less)
      then have "unat (kept + 1) = Suc (unat kept)" by (metis add.commute eq_neg_iff_add_eq_0 unatSuc)
      with False show ?thesis by (simp add: word_less_nat_alt Suc_diff_Suc)
    qed
    with False Cons.IH [of "kept + 1"] show ?thesis by simp
  qed
qed simp

lemma sorted_newest_first:
  assumes "sorted_wrt (<) (map rc_version rs)"
  shows "newest_first rs = rev rs"
proof -
  have "sort_key rc_version (rev rs) = rs"
  proof (rule sort_key_inj_key_eq)
    show "mset (rev rs) = mset rs" by simp
    show "inj_on rc_version (set (rev rs))" using assms by (simp add: strict_sorted_iff distinct_map)
    show "sorted (map rc_version rs)" using assms by (simp add: strict_sorted_iff)
  qed
  then show ?thesis by (simp add: newest_first_def)
qed

text \<open>The historical records a policy lets go, newest first.\<close>

definition expendable :: "retention_policy \<Rightarrow> u64 \<Rightarrow> registry_store \<Rightarrow> resource_key \<Rightarrow> json versioned_record list" where
  "expendable policy now st key =
     filter (\<lambda>r. Some (rc_version r) \<noteq> map_option rc_version (current_record st key) \<and>
         (fst (snd key), snd (snd key), rc_version r) \<notin> protected_set policy (fst key) st \<and>
         (\<forall>window. keep_younger_than_ms policy = Some window \<longrightarrow> \<not> sat_sub now (rc_created_at r) < window))
       (rev (records_of st key))"

definition purged_records :: "retention_policy \<Rightarrow> u64 \<Rightarrow> registry_store \<Rightarrow> resource_key \<Rightarrow> json versioned_record list" where
  "purged_records policy now st key =
     drop (case keep_last_versions policy of None \<Rightarrow> 0 | Some n \<Rightarrow> unat n) (expendable policy now st key)"

lemma eligible_of_purged:
  assumes inv: "registry_inv env st"
  shows "eligible_of policy now scope st key = (if fst key = scope
    then map (\<lambda>r. \<lparr>vr_kind = fst (snd key), vr_id = snd (snd key), vr_version = rc_version r\<rparr>) (purged_records policy now st key) else [])"
proof -
  obtain sc kind rid where key: "key = (sc, kind, rid)" by (cases key)
  have current: "Option.bind (rg_resources st key) vs_current_version = map_option rc_version (current_record st key)"
    using key_okD(3,4) [OF inv, of key] current_record_last [OF inv, of key]
    by (cases "rg_resources st key") (auto split: list.splits)
  have "filter (\<lambda>r. \<not> (Some (rc_version r) = Option.bind (rg_resources st key) vs_current_version
        \<or> (kind, rid, rc_version r) \<in> protected_set policy sc st
        \<or> (case keep_younger_than_ms policy of Some window \<Rightarrow> sat_sub now (rc_created_at r) < window | None \<Rightarrow> False)))
      (rev (records_of st key)) = expendable policy now st key"
    unfolding expendable_def current by (rule filter_cong) (auto simp: key split: option.splits)
  then have "sc = scope \<Longrightarrow> ?thesis"
    unfolding eligible_of_def key prod.case Let_def scan_records_drop sorted_newest_first [OF key_okD(1) [OF inv]]
    by (simp add: purged_records_def split: option.splits)
  then show ?thesis by (cases "sc = scope") (simp_all add: eligible_of_def key)
qed

lemma purge_plan_set:
  assumes inv: "registry_inv env st" and ord: "hash_order ord (rg_versions st)"
  shows "v \<in> set (purge_plan ord policy now scope st) \<longleftrightarrow>
    (\<exists>r \<in> set (purged_records policy now st (scope, vr_kind v, vr_id v)). rc_version r = vr_version v)"
proof -
  have "r \<in> set (records_of st key)" if "r \<in> set (purged_records policy now st key)" for r key
    using that by (auto simp: purged_records_def expendable_def dest: in_set_dropD)
  then have known: "key \<in> set ord" if "r \<in> set (purged_records policy now st key)" for r key
    using that ord by (fastforce simp: records_of_def hash_order_def split: option.splits)
  have "v \<in> set (purge_plan ord policy now scope st) \<longleftrightarrow> (\<exists>key \<in> set ord. v \<in> set (eligible_of policy now scope st key))"
    by (simp add: purge_plan_def)
  also have "\<dots> \<longleftrightarrow> (\<exists>r \<in> set (purged_records policy now st (scope, vr_kind v, vr_id v)). rc_version r = vr_version v)"
  proof
    assume "\<exists>key \<in> set ord. v \<in> set (eligible_of policy now scope st key)"
    then obtain key where "v \<in> set (eligible_of policy now scope st key)" by blast
    then show "\<exists>r \<in> set (purged_records policy now st (scope, vr_kind v, vr_id v)). rc_version r = vr_version v"
      unfolding eligible_of_purged [OF inv] by (cases key) (auto split: if_splits)
  next
    assume "\<exists>r \<in> set (purged_records policy now st (scope, vr_kind v, vr_id v)). rc_version r = vr_version v"
    then obtain r where r: "r \<in> set (purged_records policy now st (scope, vr_kind v, vr_id v))" "rc_version r = vr_version v" by blast
    have "v = \<lparr>vr_kind = vr_kind v, vr_id = vr_id v, vr_version = rc_version r\<rparr>" using r(2) by simp
    then have "v \<in> set (eligible_of policy now scope st (scope, vr_kind v, vr_id v))"
      using r(1) by (simp add: eligible_of_purged [OF inv] image_iff) blast
    with known [OF r(1)] show "\<exists>key \<in> set ord. v \<in> set (eligible_of policy now scope st key)" by blast
  qed
  finally show ?thesis .
qed

lemma purge_delete_result:
  "records_of (purge_delete scope plan st) key =
     filter (\<lambda>r. \<forall>v \<in> set plan. key = (scope, vr_kind v, vr_id v) \<longrightarrow> rc_version r \<noteq> vr_version v) (records_of st key) \<and>
   rg_resources (purge_delete scope plan st) = rg_resources st \<and>
   publications_of (purge_delete scope plan st) = publications_of st"
proof (induction plan arbitrary: st)
  case (Cons v plan)
  have "records_of (purge_version scope v st) key =
      filter (\<lambda>r. key = (scope, vr_kind v, vr_id v) \<longrightarrow> rc_version r \<noteq> vr_version v) (records_of st key)" for key
    by (cases "key = (scope, vr_kind v, vr_id v)") (auto simp: purge_version_def records_of_def split: option.splits)
  moreover have "rg_resources (purge_version scope v st) = rg_resources st"
    "publications_of (purge_version scope v st) = publications_of st"
    by (auto simp: purge_version_def publications_of_def fun_eq_iff split: option.splits)
  ultimately show ?case
    using Cons.IH [of "purge_version scope v st"] by (simp add: purge_delete_def conj_commute)
qed (simp add: purge_delete_def)

lemma last_of_filter: "xs \<noteq> [] \<Longrightarrow> P (last xs) \<Longrightarrow> filter P xs \<noteq> [] \<and> last (filter P xs) = last xs"
  by (induction xs) (auto split: if_splits simp: filter_empty_conv)

text \<open>Deleting what is neither current nor referenced keeps the invariant.\<close>

lemma filtered_step:
  assumes inv: "registry_inv env st"
    and recs: "\<And>key. records_of st' key = filter (\<lambda>r. keep key (rc_version r)) (records_of st key)"
    and same: "rg_resources st' = rg_resources st" "publications_of st' = publications_of st"
    and current: "\<And>key r. current_record st key = Some r \<Longrightarrow> keep key (rc_version r)"
    and referenced: "\<And>scope p e. p \<in> snd ` set (publications_of st scope) \<Longrightarrow> e \<in> set (pb_entries p) \<Longrightarrow>
      keep (scope, vr_kind e, vr_id e) (vr_version e)"
  shows "registry_inv env st' \<and> evolves st st' \<and> last_version st' = last_version st \<and> last_snapshot st' = last_snapshot st"
proof -
  have last: "records_of st' key = [] \<and> records_of st key = [] \<or>
      records_of st' key \<noteq> [] \<and> records_of st key \<noteq> [] \<and> last (records_of st' key) = last (records_of st key)" for key
    using last_of_filter [of "records_of st key" "\<lambda>r. keep key (rc_version r)"] current [of key]
      current_record_last [OF inv, of key] by (auto simp: recs split: list.splits)
  have "key_ok env st' key" for key
    unfolding key_ok_def Let_def
  proof (intro conjI)
    show "sorted_wrt (<) (map rc_version (records_of st' key))"
      using key_okD(1) [OF inv, of key] by (simp add: recs sorted_wrt_map sorted_wrt_filter)
    show "\<forall>r \<in> set (records_of st' key). record_ok env key r" using key_okD(2) [OF inv, of _ key] by (simp add: recs)
    show "case rg_resources st' key of None \<Rightarrow> records_of st' key = []
      | Some s \<Rightarrow> records_of st' key \<noteq> [] \<and> vs_current_version s = Some (rc_version (last (records_of st' key))) \<and>
          (vs_scope_id s, vs_kind s, vs_id s) = key"
      using last [of key] key_okD(3-5) [OF inv, of key] by (auto simp: same split: option.split)
  qed
  moreover have "resolves st' scope e"
    if "p \<in> snd ` set (publications_of st scope)" "e \<in> set (pb_entries p)" "resolves st scope e" for scope p e
    using that referenced [OF that(1,2)] by (auto simp: resolves_def recs)
  then have "pubs_ok st' scope" for scope
    using inv_pubs [OF inv, of scope] by (fastforce simp: pubs_ok_def publication_ok_def Let_def same)
  ultimately have "registry_inv env st'" unfolding registry_inv_def by blast
  moreover have lasts: "last_version st' key = last_version st key" for key
    using last [of key] by (auto simp: last_version_def split: list.splits)
  moreover from this have "evolves st st'" by (auto simp: evolves_def recs same)
  ultimately show ?thesis by (simp add: last_snapshot_def same fun_eq_iff)
qed

text \<open>
  A purge carried out on a later store than it was planned on: nothing it deletes is current there, and
  nothing is referenced unless a publication made in between refers to a planned version.
\<close>

definition no_race :: "string \<Rightarrow> version_ref list \<Rightarrow> registry_store \<Rightarrow> bool" where
  "no_race scope plan st \<longleftrightarrow> (\<forall>p \<in> snd ` set (publications_of st scope). set (pb_entries p) \<inter> set plan = {})"

lemma planned_version:
  assumes inv: "registry_inv env st" and ord: "hash_order ord (rg_versions st)"
    and v: "v \<in> set (purge_plan ord policy now scope st)"
  shows "\<exists>r \<in> set (expendable policy now st (scope, vr_kind v, vr_id v)). rc_version r = vr_version v"
    and "unat (vr_version v) < last_version st (scope, vr_kind v, vr_id v)"
proof -
  let ?key = "(scope, vr_kind v, vr_id v)"
  from v obtain r where r: "r \<in> set (purged_records policy now st ?key)" "rc_version r = vr_version v"
    using purge_plan_set [OF inv ord] by blast
  then have ex: "r \<in> set (expendable policy now st ?key)" by (auto simp: purged_records_def dest: in_set_dropD)
  with r(2) show "\<exists>r \<in> set (expendable policy now st ?key). rc_version r = vr_version v" by blast
  let ?rs = "records_of st ?key"
  from ex have old: "r \<in> set ?rs" "Some (rc_version r) \<noteq> map_option rc_version (current_record st ?key)"
    by (simp_all add: expendable_def)
  then have "current_record st ?key = Some (last ?rs)" by (auto simp: current_record_last [OF inv] split: list.split)
  with old(2) have "rc_version r \<noteq> rc_version (last ?rs)" by simp
  moreover have "rc_version r \<le> rc_version (last ?rs)" by (rule sorted_last_max [OF key_okD(1) [OF inv] old(1)])
  moreover have "last_version st ?key = unat (rc_version (last ?rs))"
    using old(1) by (auto simp: last_version_def split: list.splits)
  ultimately show "unat (vr_version v) < last_version st ?key"
    using r(2) by (simp add: word_less_nat_alt [symmetric] order.not_eq_order_implies_strict)
qed

lemma plan_spares_referenced:
  assumes "registry_inv env st" "hash_order ord (rg_versions st)"
  shows "no_race scope (purge_plan ord policy now scope st) st"
proof -
  have "e \<notin> set (purge_plan ord policy now scope st)"
    if p: "p \<in> snd ` set (publications_of st scope)" and e: "e \<in> set (pb_entries p)" for p e
  proof
    assume "e \<in> set (purge_plan ord policy now scope st)"
    from planned_version(1) [OF assms this] obtain r where
      r: "r \<in> set (expendable policy now st (scope, vr_kind e, vr_id e))" "rc_version r = vr_version e" by blast
    have "(vr_kind e, vr_id e, vr_version e) \<in> protected_set policy scope st"
      unfolding protected_set_def using p e by auto
    with r show False by (simp add: expendable_def)
  qed
  then show ?thesis unfolding no_race_def by blast
qed

lemma purge_step:
  assumes inv: "registry_inv env st" and ord: "hash_order ord (rg_versions st)"
    and later: "registry_inv env st1" "evolves st st1" and race: "no_race scope plan st1"
    and plan: "plan = purge_plan ord policy now scope st" and st': "st' = purge_delete scope plan st1"
  shows "registry_inv env st' \<and> evolves st1 st' \<and> last_version st' = last_version st1 \<and>
    last_snapshot st' = last_snapshot st1 \<and> (\<forall>key. fst key \<noteq> scope \<longrightarrow> records_of st' key = records_of st1 key)"
proof -
  define keep where "keep key n \<longleftrightarrow> (\<forall>v \<in> set plan. key = (scope, vr_kind v, vr_id v) \<longrightarrow> n \<noteq> vr_version v)" for key n
  have "registry_inv env st' \<and> evolves st1 st' \<and> last_version st' = last_version st1 \<and> last_snapshot st' = last_snapshot st1"
  proof (rule filtered_step [OF later(1), where keep = keep])
    show "keep key (rc_version r)" if r: "current_record st1 key = Some r" for key r
    proof (rule ccontr)
      assume "\<not> keep key (rc_version r)"
      then obtain v where v: "v \<in> set plan" "key = (scope, vr_kind v, vr_id v)" "rc_version r = vr_version v"
        unfolding keep_def by blast
      from planned_version(2) [OF inv ord v(1) [unfolded plan]] v(2,3)
      have "unat (rc_version r) < last_version st key" by simp
      also have "\<dots> \<le> last_version st1 key" using later(2) unfolding evolves_def by blast
      also have "\<dots> = unat (rc_version r)"
        using r current_record_last [OF later(1), of key] by (auto simp: last_version_def split: list.splits)
      finally show False by simp
    qed
    show "keep (sc, vr_kind e, vr_id e) (vr_version e)"
      if p: "p \<in> snd ` set (publications_of st1 sc)" and e: "e \<in> set (pb_entries p)" for sc p e
    proof (rule ccontr)
      assume "\<not> keep (sc, vr_kind e, vr_id e) (vr_version e)"
      then have "e \<in> set plan" "sc = scope" unfolding keep_def by (auto intro: version_ref.equality elim: back_subst [of "\<lambda>v. v \<in> set plan"])
      with race p e show False unfolding no_race_def by blast
    qed
  qed (simp_all add: purge_delete_result keep_def st')
  then show ?thesis by (auto simp: st' purge_delete_result filter_id_conv)
qed

section \<open>Calls\<close>

text \<open>A purge plans under a read lock; the calls it carries are the ones made before it has the write lock.\<close>

datatype registry_call =
    PublishResource u64 string string string json u32 json
  | RollbackResource u64 string string string u64 json
  | ArchiveResource u64 string string string
  | UnarchiveResource u64 string string string
  | PublishResources u64 string string "resource_publish list" "config_revision_ref list" "string option" json
  | CreatePublication u64 string string "version_ref list" "config_revision_ref list" "string option" json
  | RollbackPublication u64 string u64 string "string option" json
  | PurgeVersions "resource_key list" retention_policy u64 string bool "registry_call list"

fun registry_apply :: "registry_env \<Rightarrow> registry_call \<Rightarrow> registry_store \<Rightarrow> registry_store"
  and registry_run :: "registry_env \<Rightarrow> registry_call list \<Rightarrow> registry_store \<Rightarrow> registry_store" where
  "registry_apply env (PublishResource now scope kind rid v schema m) st =
     snd (reg_publish_resource env now scope kind rid v schema m st)"
| "registry_apply env (RollbackResource now scope kind rid v m) st = snd (reg_rollback_resource env now scope kind rid v m st)"
| "registry_apply env (ArchiveResource now scope kind rid) st = snd (reg_archive_resource now scope kind rid st)"
| "registry_apply env (UnarchiveResource now scope kind rid) st = snd (reg_unarchive_resource now scope kind rid st)"
| "registry_apply env (PublishResources now scope pid rs srcs by_whom m) st =
     snd (reg_publish_resources env now scope pid rs srcs by_whom m st)"
| "registry_apply env (CreatePublication now scope pid es srcs by_whom m) st =
     snd (reg_create_publication now scope pid es srcs by_whom m st)"
| "registry_apply env (RollbackPublication now scope source pid by_whom m) st =
     snd (rollback_publication (memory_registry env now) scope source pid by_whom m st)"
| "registry_apply env (PurgeVersions ord policy now scope dry_run calls) st =
     snd (reg_purge ord policy now scope dry_run (\<lambda>st. registry_run env calls st) st)"
| "registry_run env [] st = st"
| "registry_run env (call # calls) st = registry_run env calls (registry_apply env call st)"

text \<open>
  A purge iterates over the keys of the store, in some order. The calls considered lose no race: when a
  purge deletes, no publication refers to what it has planned to delete.
\<close>

fun call_ok :: "registry_env \<Rightarrow> registry_call \<Rightarrow> registry_store \<Rightarrow> bool"
  and calls_ok :: "registry_env \<Rightarrow> registry_call list \<Rightarrow> registry_store \<Rightarrow> bool" where
  "call_ok env (PurgeVersions ord policy now scope dry_run calls) st \<longleftrightarrow>
     hash_order ord (rg_versions st) \<and> calls_ok env calls st \<and>
     (\<not> dry_run \<longrightarrow> no_race scope (purge_plan ord policy now scope st) (registry_run env calls st))"
| "call_ok env _ st \<longleftrightarrow> True"
| "calls_ok env [] st \<longleftrightarrow> True"
| "calls_ok env (call # calls) st \<longleftrightarrow> call_ok env call st \<and> calls_ok env calls (registry_apply env call st)"

text \<open>How many calls were made, those within purges included, and the scopes a purge deleted from.\<close>

fun call_count :: "registry_call \<Rightarrow> nat" and calls_count :: "registry_call list \<Rightarrow> nat" where
  "call_count (PurgeVersions _ _ _ _ _ calls) = Suc (calls_count calls)"
| "call_count _ = 1"
| "calls_count [] = 0"
| "calls_count (call # calls) = call_count call + calls_count calls"

fun purged_by :: "registry_call \<Rightarrow> string set" and purged_by_all :: "registry_call list \<Rightarrow> string set" where
  "purged_by (PurgeVersions _ _ _ scope dry_run calls) = (if dry_run then {} else {scope}) \<union> purged_by_all calls"
| "purged_by _ = {}"
| "purged_by_all [] = {}"
| "purged_by_all (call # calls) = purged_by call \<union> purged_by_all calls"

lemma quiet_purge_ok:
  assumes "registry_inv env st" "hash_order ord (rg_versions st)"
  shows "call_ok env (PurgeVersions ord policy now scope dry_run []) st"
  using assms plan_spares_referenced [OF assms] by simp

lemma publish_resources_step:
  assumes inv: "registry_inv env st" and room: "room st"
  shows "step_ok env st (snd (reg_publish_resources env now scope pid resources sources created_by metadata st))"
proof (cases "reg_publish_resources env now scope pid resources sources created_by metadata st")
  case (Pair res st')
  show ?thesis
  proof (cases res)
    case (Inl e)
    with Pair have "st' = st" by (auto simp: reg_publish_resources_def case_prod_unfold Let_def split: sum.splits if_splits)
    with Pair step_ok_refl [OF inv] show ?thesis by simp
  next
    case (Inr p)
    obtain st1 where
      st1: "registry_inv env st1" "pushed UNIV st st1" "step_ok env st1 st'" "records_of st' = records_of st1"
        "publications_of st' = (publications_of st)(scope := publications_of st scope @ [(pb_snapshot_version p, p)])"
        "last_snapshot st' scope = last_snapshot st scope + 1"
      by (rule publish_resources_result [OF inv room Pair [unfolded Inr]], rule that) assumption+
    have "evolves st st'" by (rule evolves_trans [OF pushed_evolves [OF st1(2)]]) (use st1(3) in \<open>simp add: step_ok_def\<close>)
    moreover have "last_version st' key \<le> last_version st key + 1" for key
      using pushed_last [OF st1(2), of key] by (simp add: last_version_def st1(4))
    moreover have "last_snapshot st' sc \<le> last_snapshot st sc + 1" for sc
      using st1(5,6) by (cases "sc = scope") (simp_all add: last_snapshot_def)
    moreover have "set (records_of st key) \<subseteq> set (records_of st' key)" for key
      unfolding st1(4) by (rule pushed_subset [OF st1(2)])
    ultimately show ?thesis using st1(3) Pair by (simp add: step_ok_def)
  qed
qed

lemma create_publication_step:
  assumes inv: "registry_inv env st" and room: "room st"
  shows "step_ok env st (snd (reg_create_publication now scope pid entries sources created_by metadata st))"
proof -
  have "step_ok env st (snd (add_publication now scope pid entries sources created_by metadata st))"
    if "validate_publication_request pid entries = Inr ()" "\<not> publication_exists st scope pid"
      "validate_publication_entries st scope entries = Inr ()"
  proof (cases "add_publication now scope pid entries sources created_by metadata st")
    case (Pair p st')
    have "entries \<noteq> [] \<and> distinct (map (\<lambda>e. (vr_kind e, vr_id e)) entries)"
      using that(1) valid_entry_refs [of "{}" entries] by (auto simp: validate_publication_request_def split: if_splits)
    with add_publication_step(1) [OF inv roomD(2) [OF room] that(2) _ _ valid_publication_entries [OF that(3)] Pair]
    show ?thesis by (simp add: Pair)
  qed
  with step_ok_refl [OF inv] show ?thesis
    by (auto simp: reg_create_publication_def case_prod_unfold Let_def split: sum.splits)
qed

text \<open>What any calls leave of a store.\<close>

definition progress :: "registry_env \<Rightarrow> string set \<Rightarrow> nat \<Rightarrow> registry_store \<Rightarrow> registry_store \<Rightarrow> bool" where
  "progress env purged m st st' \<longleftrightarrow> registry_inv env st' \<and> evolves st st' \<and>
     (\<forall>key. last_version st' key \<le> m) \<and> (\<forall>scope. last_snapshot st' scope \<le> m) \<and>
     (\<forall>key. fst key \<notin> purged \<longrightarrow> set (records_of st key) \<subseteq> set (records_of st' key))"

lemma simple_call_step:
  assumes inv: "registry_inv env st" and room: "room st" and simple: "\<And>ord policy now scope dry calls. call \<noteq> PurgeVersions ord policy now scope dry calls"
  shows "step_ok env st (registry_apply env call st)"
proof (cases call)
  case (RollbackPublication now scope source pid by_whom m)
  then show ?thesis using publish_resources_step [OF inv room] step_ok_refl [OF inv]
    by (auto simp: rollback_publication_def split: sum.splits option.splits)
qed (use publish_resource_step [OF inv room] rollback_resource_step [OF inv room] archive_step [OF inv]
  publish_resources_step [OF inv room] create_publication_step [OF inv room] simple in auto)

definition bounded :: "nat \<Rightarrow> registry_store \<Rightarrow> bool" where
  "bounded n st \<longleftrightarrow> (\<forall>key. last_version st key \<le> n) \<and> (\<forall>scope. last_snapshot st scope \<le> n)"

lemma simple_call_progress:
  assumes "registry_inv env st" "bounded n st" "n + 1 < 2 ^ 64" "\<And>ord policy now scope dry calls. call \<noteq> PurgeVersions ord policy now scope dry calls"
  shows "progress env {} (n + 1) st (registry_apply env call st)"
proof -
  have "room st"
    using assms(2,3) unfolding room_def bounded_def by (meson add_le_mono1 le_less_trans)
  from simple_call_step [OF assms(1) this assms(4)] have step: "step_ok env st (registry_apply env call st)" .
  with assms(2) show ?thesis
    unfolding progress_def step_ok_def bounded_def by (meson add_le_mono1 order_trans)
qed

lemma progress_trans:
  "progress env P m st st1 \<Longrightarrow> progress env Q n st1 st2 \<Longrightarrow> progress env (P \<union> Q) n st st2"
  unfolding progress_def by (blast intro: evolves_trans)

lemma progress_bounded: "progress env P n st st' \<Longrightarrow> bounded n st'"
  by (simp add: progress_def bounded_def)

lemma progress_result:
  "registry_inv env st \<Longrightarrow> call_ok env call st \<Longrightarrow> bounded n st \<Longrightarrow> n + call_count call < 2 ^ 64 \<Longrightarrow>
     progress env (purged_by call) (n + call_count call) st (registry_apply env call st)"
  "registry_inv env st \<Longrightarrow> calls_ok env calls st \<Longrightarrow> bounded n st \<Longrightarrow> n + calls_count calls < 2 ^ 64 \<Longrightarrow>
     progress env (purged_by_all calls) (n + calls_count calls) st (registry_run env calls st)"
proof (induction env call st and env calls st arbitrary: n and n rule: registry_apply_registry_run.induct)
  case (8 env ord policy now scope dry calls st)
  let ?st1 = "registry_run env calls st" and ?plan = "purge_plan ord policy now scope st"
  have "progress env (purged_by_all calls) (n + calls_count calls) st ?st1" using 8 by simp
  then have st1: "progress env (purged_by_all calls) (n + Suc (calls_count calls)) st ?st1"
    unfolding progress_def by (meson add_left_mono le_SucI order_refl order_trans)
  show ?case
  proof (cases "dry \<or> ?plan = []")
    case True
    with st1 show ?thesis by (auto simp: reg_purge_def Let_def progress_def)
  next
    case False
    with 8(3) have "no_race scope ?plan ?st1" "hash_order ord (rg_versions st)" by simp_all
    from purge_step [OF 8(2) this(2) _ _ this(1) refl refl] st1
    have "progress env {scope} (n + Suc (calls_count calls)) ?st1 (purge_delete scope ?plan ?st1)"
      by (auto simp: progress_def)
    from progress_trans [OF st1 this] False show ?thesis by (simp add: reg_purge_def Let_def Un_commute)
  qed
next
  case (10 env call calls st)
  have first: "progress env (purged_by call) (n + call_count call) st (registry_apply env call st)" using 10 by simp
  moreover from this have "registry_inv env (registry_apply env call st)" by (simp add: progress_def)
  moreover note progress_bounded [OF first]
  ultimately have "progress env (purged_by_all calls) (n + call_count call + calls_count calls) (registry_apply env call st)
      (registry_run env calls (registry_apply env call st))"
    using 10 by (intro "10.IH"(2)) simp_all
  from progress_trans [OF first this] show ?case by (simp add: add.assoc)
qed (use simple_call_progress in \<open>simp_all add: progress_def evolves_refl bounded_def del: registry_apply.simps\<close>)

lemma bounded_new: "bounded 0 registry_new"
  by (simp add: bounded_def last_version_def last_snapshot_def records_of_def publications_of_def registry_new_def)

lemma registry_run_new:
  assumes "st = registry_run env calls registry_new" "calls_ok env calls registry_new" "calls_count calls < 2 ^ 64"
  shows "registry_inv env st" "bounded (calls_count calls) st"
    "last_version st key \<le> calls_count calls" "last_snapshot st scope \<le> calls_count calls"
  using progress_result(2) [OF registry_inv_new assms(2) bounded_new] assms(1,3) by (simp_all add: progress_def bounded_def)

section \<open>Pinned manifests\<close>

text \<open>
  What the default methods need of a store to pin a publication for good: publications and the records
  they refer to stay.
\<close>

locale publication_reader =
  fixes ops :: "'s registry_ops" and ok :: "'s \<Rightarrow> bool" and later :: "'s \<Rightarrow> 's \<Rightarrow> bool"
  assumes publication_kept: "ok st \<Longrightarrow> later st st' \<Longrightarrow> ro_get_publication ops scope n st = Inr (Some p) \<Longrightarrow>
      ro_get_publication ops scope n st' = Inr (Some p)"
    and record_kept: "ok st \<Longrightarrow> later st st' \<Longrightarrow> ro_get_publication ops scope n st = Inr (Some p) \<Longrightarrow> e \<in> set (pb_entries p) \<Longrightarrow>
      \<exists>rec. ro_get ops scope (vr_kind e) (vr_id e) (vr_version e) st = Inr (Some rec) \<and>
        ro_get ops scope (vr_kind e) (vr_id e) (vr_version e) st' = Inr (Some rec)"
begin

lemma entries_load:
  assumes "ok st" "later st st'" "ro_get_publication ops scope n st = Inr (Some p)" "set entries \<subseteq> set (pb_entries p)"
  shows "\<exists>xs. load_entries ops scope f entries st = Inr xs \<and> load_entries ops scope f entries st' = Inr xs"
  using assms(4)
proof (induction entries)
  case (Cons e entries)
  from record_kept [OF assms(1-3), of e] Cons.prems obtain rec where
    "ro_get ops scope (vr_kind e) (vr_id e) (vr_version e) st = Inr (Some rec)"
    "ro_get ops scope (vr_kind e) (vr_id e) (vr_version e) st' = Inr (Some rec)" by auto
  with Cons show ?case by auto
qed simp

lemma manifest_stays:
  assumes "ok st" "later st st'" "ro_get_publication ops scope n st = Inr (Some p)"
  shows "\<exists>m. pinned_manifest_for_publication ops scope n st = Inr (Some m) \<and>
    pinned_manifest_for_publication ops scope n st' = Inr (Some m)"
  using publication_kept [OF assms] assms(3) entries_load [OF assms order_refl, of pinned_entry_of]
  by (auto simp: pinned_manifest_for_publication_def)

end

lemma reg_get_records: "reg_get scope kind rid v st = Inr (find_version v (records_of st (scope, kind, rid)))"
  by (simp add: reg_get_def records_of_def find_version_def split: option.split)

lemma get_after:
  assumes inv: "registry_inv env st" "registry_inv env st'" and ev: "evolves st st'"
    and r: "find_version v (records_of st key) = Some r"
  shows "find_version v (records_of st' key) \<in> {None, Some r}"
proof (cases "find_version v (records_of st' key)")
  case (Some r')
  have old: "r \<in> set (records_of st key)" "rc_version r = v"
    using r by (simp_all add: find_version_sorted [OF key_okD(1) [OF inv(1)]])
  have new: "r' \<in> set (records_of st' key)" "rc_version r' = v"
    using Some by (simp_all add: find_version_sorted [OF key_okD(1) [OF inv(2)]])
  have "rc_version r \<le> rc_version (last (records_of st key))" by (rule sorted_last_max [OF key_okD(1) [OF inv(1)] old(1)])
  then have "\<not> last_version st key < unat (rc_version r')"
    using old new by (auto simp: last_version_def word_le_nat_alt split: list.splits)
  then have "r' \<in> set (records_of st key)" using ev new(1) unfolding evolves_def by blast
  then have "r' = r" by (rule sorted_same [OF key_okD(1) [OF inv(1)] _ old(1)]) (simp add: old new)
  with Some show ?thesis by simp
qed simp

lemma publication_at:
  assumes inv: "registry_inv env st" and p: "reg_get_publication scope n st = Inr (Some p)"
  shows "(n, p) \<in> set (publications_of st scope)" "publication_ok st scope n p"
proof -
  show "(n, p) \<in> set (publications_of st scope)" using p by (simp add: reg_get_publication_def map_of_SomeD)
  then show "publication_ok st scope n p" using inv_pubs [OF inv, of scope] by (auto simp: pubs_ok_def Let_def)
qed

lemma publication_after:
  assumes inv: "registry_inv env st" "registry_inv env st'" and ev: "evolves st st'"
    and p: "reg_get_publication scope n st = Inr (Some p)"
  shows "reg_get_publication scope n st' = Inr (Some p)"
proof -
  from ev obtain new where "publications_of st' scope = publications_of st scope @ new" unfolding evolves_def by blast
  then have "(n, p) \<in> set (publications_of st' scope)" using publication_at(1) [OF inv(1) p] by simp
  moreover have "bt_ok (publications_of st' scope)" using inv_pubs [OF inv(2), of scope] by (simp add: pubs_ok_def Let_def)
  ultimately show ?thesis by (simp add: reg_get_publication_def bt_entries)
qed

lemma referenced_after:
  assumes inv: "registry_inv env st" "registry_inv env st'" and ev: "evolves st st'"
    and p: "reg_get_publication scope n st = Inr (Some p)" and e: "e \<in> set (pb_entries p)"
  shows "\<exists>r. reg_get scope (vr_kind e) (vr_id e) (vr_version e) st = Inr (Some r) \<and>
    reg_get scope (vr_kind e) (vr_id e) (vr_version e) st' = Inr (Some r)"
proof -
  let ?key = "(scope, vr_kind e, vr_id e)"
  have "resolves st scope e" "resolves st' scope e"
    using publication_at(2) [OF inv(1) p] publication_at(2) [OF inv(2) publication_after [OF inv ev p]] e
    by (simp_all add: publication_ok_def)
  then obtain r r' where "find_version (vr_version e) (records_of st ?key) = Some r"
    "find_version (vr_version e) (records_of st' ?key) = Some r'"
    unfolding resolves_def by (metis find_version_sorted key_okD(1) inv)
  with get_after [OF inv ev this(1)] show ?thesis by (simp add: reg_get_records)
qed

interpretation memory_reader: publication_reader "memory_registry env now" "registry_inv env"
    "\<lambda>st st'. registry_inv env st' \<and> evolves st st'"
  for env now
  by unfold_locales (use publication_after referenced_after in force)+

declare split_paired_All [simp] split_paired_Ex [simp]

end
