(* ===== verification/Registry_Properties.thy ===== *)
theory Registry_Properties
imports Registry_Correct
begin

text \<open>
  What the published registry promises: versions are immutable, publishing is idempotent, a pinned
  publication never changes, rolling back restores contents, the purge follows its policy, and
  content hashes do not depend on the order of members. A purge that races a publication breaks the
  third promise; the last section shows how.
\<close>

section \<open>Properties\<close>

lemma current_is_last: "registry_inv env st \<Longrightarrow> records_of st key \<noteq> [] \<Longrightarrow> current_record st key = Some (last (records_of st key))"
  by (simp add: current_record_last split: list.split)

lemma list_all2_map_eq: "list_all2 (\<lambda>x y. f x = g y) xs ys \<Longrightarrow> map f xs = map g ys"
  by (induction rule: list_all2_induct) simp_all

text \<open>
  C29: a published version never changes: whatever calls follow, reading it returns the same record, whose
  content hash verifies, or nothing, and nothing only when one of these calls purged its scope. The calls
  of other threads between the planning and the deletion of a purge are taken into account; excluded (in
  \<open>calls_ok\<close>) are purges that delete a version which a publication took up in between, see
  \<open>purge_race_breaks_publication\<close>.
\<close>

theorem published_versions_never_change:
  assumes st: "st = registry_run env calls registry_new" "st' = registry_run env later st"
    and ok: "calls_ok env calls registry_new" "calls_ok env later st"
    and room: "calls_count calls + calls_count later < 2 ^ 64"
    and read: "reg_get scope kind rid v st = Inr (Some r)"
  shows "(reg_get scope kind rid v st' = Inr (Some r) \<or>
      reg_get scope kind rid v st' = Inr None \<and> scope \<in> purged_by_all later) \<and>
    verify_content_hash env r = Inr ()"
proof -
  have inv: "registry_inv env st" and len: "bounded (calls_count calls) st"
    using registry_run_new [OF st(1) ok(1)] room by simp_all
  note after = progress_result(2) [OF inv ok(2) len room, folded st(2), unfolded progress_def]
  have r: "find_version v (records_of st (scope, kind, rid)) = Some r" using read by (simp add: reg_get_records)
  then have member: "r \<in> set (records_of st (scope, kind, rid))" "rc_version r = v"
    by (simp_all add: find_version_sorted [OF key_okD(1) [OF inv]])
  then have "record_ok env (scope, kind, rid) r" using key_okD(2) [OF inv] by blast
  then have "verify_content_hash env r = Inr ()"
    by (auto simp: record_ok_def verify_content_hash_def canonical_content_hash_def split: sum.splits)
  moreover have "find_version v (records_of st' (scope, kind, rid)) = Some r" if "scope \<notin> purged_by_all later"
  proof -
    from after that have "set (records_of st (scope, kind, rid)) \<subseteq> set (records_of st' (scope, kind, rid))" by auto
    with member show ?thesis using after find_version_sorted [OF key_okD(1), of env st'] by blast
  qed
  ultimately show ?thesis using get_after [OF inv _ _ r, of st'] after by (auto simp: reg_get_records)
qed

text \<open>
  C31: a publication pins a graph for good: in every later store the publication is the same, and its
  pinned manifest exists and is the one it had when it was read first. As in C29, purges may run between
  other calls, those between their planning and their deletion included, except that no purge may delete a
  version which a publication took up after the purge was planned: the code does not look again before it
  deletes, and then the manifest is lost, see \<open>purge_race_breaks_publication\<close>.
\<close>

theorem pinned_manifests_are_stable:
  assumes st: "st = registry_run env calls registry_new" "st' = registry_run env later st"
    and ok: "calls_ok env calls registry_new" "calls_ok env later st"
    and room: "calls_count calls + calls_count later < 2 ^ 64"
    and read: "reg_get_publication scope n st = Inr (Some p)"
  shows "reg_get_publication scope n st' = Inr (Some p) \<and>
    (\<exists>m. pinned_manifest_for_publication (memory_registry env now) scope n st = Inr (Some m) \<and>
      pinned_manifest_for_publication (memory_registry env now) scope n st' = Inr (Some m))"
proof -
  have inv: "registry_inv env st" and len: "bounded (calls_count calls) st"
    using registry_run_new [OF st(1) ok(1)] room by simp_all
  note after = progress_result(2) [OF inv ok(2) len room, folded st(2), unfolded progress_def]
  from memory_reader.manifest_stays [OF inv, of st' now scope n p] publication_after [OF inv _ _ read, of st'] after read
  show ?thesis by simp
qed

text \<open>
  C30: Publishing content whose canonical bytes can be written makes it current, under the next version or,
  when content with the same hash was current already, under the version it has and without any change;
  publishing it again is a no-op for any metadata. It is refused, without any change, exactly for an
  archived resource.
\<close>

theorem publishing_is_idempotent:
  assumes st: "st = registry_run env calls registry_new" and ok: "calls_ok env calls registry_new"
    and room: "calls_count calls + 1 < 2 ^ 64"
    and hash: "registry_content_hash env schema v = Inr (hash, bytes)"
    and publish: "reg_publish_resource env now scope kind rid v schema metadata st = (res, st')"
  shows "(isl res \<longleftrightarrow> (\<exists>s. rg_resources st (scope, kind, rid) = Some s \<and> vs_archived_at s \<noteq> None)) \<and>
    (case res of
      Inl e \<Rightarrow> e = RegArchived kind rid \<and> st' = st
    | Inr outcome \<Rightarrow> (\<exists>r. (outcome = PublishNoop r \<and> st' = st \<or>
            outcome = PublishCreated r \<and> rc_value r = v \<and> rc_metadata r = metadata \<and>
              unat (rc_version r) = last_version st (scope, kind, rid) + 1) \<and>
          rc_content_hash r = hash \<and> reg_current scope kind rid st' = Inr (Some r) \<and>
          reg_publish_resource env now' scope kind rid v schema metadata' st' = (Inr (PublishNoop r), st')))"
proof -
  let ?key = "(scope, kind, rid)"
  have inv: "registry_inv env st" and len: "last_version st ?key + 1 < 2 ^ 64"
    using registry_run_new(1) [OF st ok] registry_run_new(3) [OF st ok, of ?key] room by simp_all
  consider (archived) s where "rg_resources st ?key = Some s" "vs_archived_at s \<noteq> None"
    | (noop) r where "\<And>s. rg_resources st ?key = Some s \<Longrightarrow> vs_archived_at s = None"
        "current_record st ?key = Some r" "rc_content_hash r = hash"
    | (new) "\<And>s. rg_resources st ?key = Some s \<Longrightarrow> vs_archived_at s = None"
        "\<And>r. current_record st ?key = Some r \<Longrightarrow> rc_content_hash r \<noteq> hash"
    by blast
  then show ?thesis
  proof cases
    case archived
    with publish hash show ?thesis by (auto simp: reg_publish_resource_def ensure_not_archived_def)
  next
    case noop
    then have "reg_publish_resource env t scope kind rid v schema m st = (Inr (PublishNoop r), st)" for t m
      by (auto simp: reg_publish_resource_def hash ensure_not_archived_def split: option.splits)
    with publish noop show ?thesis by (auto simp: reg_current_def)
  next
    case new
    obtain r st1 where push: "push_version scope kind rid hash schema v bytes now metadata st = (r, st1)"
      by (cases "push_version scope kind rid hash schema v bytes now metadata st")
    have res: "res = Inr (PublishCreated r)" "st' = st1"
      using publish new push by (auto simp: reg_publish_resource_def hash ensure_not_archived_def split: option.splits)
    note pushed = push_version_result [OF push]
    have "registry_inv env st1" by (rule push_version_inv [OF inv len _ push]) (use hash in \<open>simp add: content_hash_Inr\<close>)
    from current_is_last [OF this, of ?key] have current: "current_record st1 ?key = Some r"
      by (simp add: pushed(1))
    obtain s1 where s1: "rg_resources st1 ?key = Some s1" "vs_archived_at s1 = None"
      using pushed(13) new(1) by (auto split: option.splits)
    with current have "reg_publish_resource env t scope kind rid v schema m st1 = (Inr (PublishNoop r), st1)" for t m
      by (simp add: reg_publish_resource_def hash ensure_not_archived_def pushed(7))
    with current next_version_unat [OF len] new(1) show ?thesis
      by (auto simp: res reg_current_def pushed(4,7,9,11))
  qed
qed

lemma load_entries_result:
  "load_entries ops scope f entries st = Inr xs \<Longrightarrow>
     list_all2 (\<lambda>e x. \<exists>rec. ro_get ops scope (vr_kind e) (vr_id e) (vr_version e) st = Inr (Some rec) \<and> x = f e rec) entries xs"
  by (induction entries arbitrary: xs) (auto simp: list_all2_Cons1 split: sum.splits option.splits)

text \<open>The resource an entry refers to and the content hash of its version.\<close>

definition pinned :: "registry_store \<Rightarrow> string \<Rightarrow> version_ref \<Rightarrow> string \<times> string \<times> string option" where
  "pinned st scope e = (vr_kind e, vr_id e,
     map_option rc_content_hash (find_version (vr_version e) (records_of st (scope, vr_kind e, vr_id e))))"

lemma manifest_contents:
  assumes "reg_get_publication scope n st = Inr (Some p)"
    and "pinned_manifest_for_publication (memory_registry env now) scope n st = Inr (Some m)"
  shows "(\<lambda>e. (pe_kind e, pe_id e, Some (pe_content_hash e))) ` set (pm_entries m) = pinned st scope ` set (pb_entries p)"
proof -
  have "load_entries (memory_registry env now) scope pinned_entry_of (pb_entries p) st = Inr (pm_entries m)"
    using assms by (cases "load_entries (memory_registry env now) scope pinned_entry_of (pb_entries p) st")
      (auto simp: pinned_manifest_for_publication_def)
  from load_entries_result [OF this]
  have "list_all2 (\<lambda>e x. pinned st scope e = (pe_kind x, pe_id x, Some (pe_content_hash x))) (pb_entries p) (pm_entries m)"
    by (rule list_all2_mono) (auto simp: pinned_def pinned_entry_of_def reg_get_records)
  from list_all2_map_eq [OF this]
  have "map (pinned st scope) (pb_entries p) = map (\<lambda>x. (pe_kind x, pe_id x, Some (pe_content_hash x))) (pm_entries m)" .
  from arg_cong [OF this, of set] show ?thesis by simp
qed

text \<open>One entry, the resource published for it and the entry of the new publication.\<close>

lemma rolled_back_entry:
  assumes inv: "registry_inv env st" "registry_inv env st1"
    and source: "ro_get (memory_registry env now) scope (vr_kind e) (vr_id e) (vr_version e) st = Inr (Some rec)"
      "fst prep = rollback_source p e rec"
    and hashed: "prep_hashed env prep" and as: "published_as st1 scope prep e'"
  shows "pinned st scope e = pinned st1 scope e'"
proof -
  have rec: "find_version (vr_version e) (records_of st (scope, vr_kind e, vr_id e)) = Some rec"
    using source(1) by (simp add: reg_get_records)
  then have "rec \<in> set (records_of st (scope, vr_kind e, vr_id e))" by (simp add: find_version_sorted [OF key_okD(1) [OF inv(1)]])
  from key_okD(2) [OF inv(1) this] hashed have hash: "fst (snd prep) = rc_content_hash rec"
    by (cases prep) (use source(2) in \<open>simp add: record_ok_def prep_hashed_def rollback_source_def\<close>)
  obtain rec' where "rec' \<in> set (records_of st1 (scope, vr_kind e, vr_id e))" "rc_version rec' = vr_version e'"
    "rc_content_hash rec' = rc_content_hash rec" "vr_kind e' = vr_kind e" "vr_id e' = vr_id e"
    using as hash source(2) by (cases prep) (auto simp: published_as_def rollback_source_def)
  with rec show ?thesis
    by (simp add: pinned_def) (metis find_version_sorted key_okD(1) [OF inv(2)] option.map(2))
qed

text \<open>Rolling back to a publication creates a new one that pins the same contents: its manifest
  has the same resources with the same content hashes as the manifest of its source.\<close>

theorem rollback_restores_contents:
  assumes st: "st = registry_run env calls registry_new" and ok: "calls_ok env calls registry_new"
    and room: "calls_count calls + 1 < 2 ^ 64"
    and roll: "rollback_publication (memory_registry env now) scope n pid created_by metadata st = (Inr p', st')"
  shows "\<exists>m m'. pinned_manifest_for_publication (memory_registry env now) scope n st = Inr (Some m) \<and>
    pinned_manifest_for_publication (memory_registry env now) scope (pb_snapshot_version p') st' = Inr (Some m') \<and>
    (\<lambda>e. (pe_kind e, pe_id e, pe_content_hash e)) ` set (pm_entries m') =
      (\<lambda>e. (pe_kind e, pe_id e, pe_content_hash e)) ` set (pm_entries m)"
proof -
  let ?ops = "memory_registry env now"
  have inv: "registry_inv env st" and room': "room st"
    using registry_run_new(1,3,4) [OF st ok] room unfolding room_def
    by (simp, meson add_le_mono1 le_less_trans less_imp_le_nat add_lessD1)
  obtain p resources where p: "reg_get_publication scope n st = Inr (Some p)"
    and load: "load_entries ?ops scope (rollback_source p) (pb_entries p) st = Inr resources"
    and publish: "reg_publish_resources env now scope pid resources (pb_source_revisions p) created_by metadata st = (Inr p', st')"
    using roll by (auto simp: rollback_publication_def split: if_splits sum.splits option.splits)
  obtain st1 prepared refs where st1: "map fst prepared = resources" "registry_inv env st1"
      "list_all2 (published_as st1 scope) prepared refs" "pb_entries p' = sort_publication_entries refs"
      "\<forall>prep \<in> set prepared. prep_hashed env prep" "step_ok env st1 st'" "records_of st' = records_of st1"
      "publications_of st' = (publications_of st)(scope := publications_of st scope @ [(pb_snapshot_version p', p')])"
    by (rule publish_resources_result [OF inv room' publish], rule that) assumption+
  have inv': "registry_inv env st'" using st1(6) by (simp add: step_ok_def)
  have "bt_ok (publications_of st' scope)" using inv_pubs [OF inv', of scope] by (simp add: pubs_ok_def Let_def)
  then have p': "reg_get_publication scope (pb_snapshot_version p') st' = Inr (Some p')"
    using st1(8) bt_entries [of "publications_of st' scope" "pb_snapshot_version p'" p'] by (simp add: reg_get_publication_def)
  obtain m m' where m: "pinned_manifest_for_publication ?ops scope n st = Inr (Some m)"
    "pinned_manifest_for_publication ?ops scope (pb_snapshot_version p') st' = Inr (Some m')"
    using memory_reader.manifest_stays [OF inv, of st now scope n p] memory_reader.manifest_stays [OF inv', of st' now scope "pb_snapshot_version p'" p']
      inv inv' evolves_refl p p' by auto
  have "list_all2 (\<lambda>e prep. \<exists>rec. ro_get ?ops scope (vr_kind e) (vr_id e) (vr_version e) st = Inr (Some rec) \<and>
      fst prep = rollback_source p e rec) (pb_entries p) prepared"
    using load_entries_result [OF load] unfolding st1(1) [symmetric] by (simp add: list_all2_map2)
  then have "list_all2 (\<lambda>e prep. prep_hashed env prep \<and> (\<exists>rec. ro_get ?ops scope (vr_kind e) (vr_id e) (vr_version e) st = Inr (Some rec) \<and>
      fst prep = rollback_source p e rec)) (pb_entries p) prepared"
    using st1(5) by (auto simp: list_all2_conv_all_nth)
  then have "list_all2 (\<lambda>e e'. pinned st scope e = pinned st1 scope e') (pb_entries p) refs"
    by (rule list_all2_trans [rotated 1, OF _ st1(3)]) (blast intro: rolled_back_entry [OF inv st1(2)])
  from arg_cong [OF list_all2_map_eq [OF this], of set]
  have "pinned st scope ` set (pb_entries p) = pinned st1 scope ` set refs" by simp
  moreover have "set (pb_entries p') = set refs" "pinned st' = pinned st1"
    by (simp_all add: st1(4,7) sort_publication_entries_def pinned_def fun_eq_iff)
  ultimately have "(\<lambda>e. (pe_kind e, pe_id e, Some (pe_content_hash e))) ` set (pm_entries m') =
      (\<lambda>e. (pe_kind e, pe_id e, Some (pe_content_hash e))) ` set (pm_entries m)"
    by (simp add: manifest_contents [OF p m(1)] manifest_contents [OF p' m(2)])
  then have "(\<lambda>(k, i, h). (k, i, the h)) ` (\<lambda>e. (pe_kind e, pe_id e, Some (pe_content_hash e))) ` set (pm_entries m') =
      (\<lambda>(k, i, h). (k, i, the h)) ` (\<lambda>e. (pe_kind e, pe_id e, Some (pe_content_hash e))) ` set (pm_entries m)" by simp
  with m show ?thesis by (simp add: image_image)
qed

text \<open>A purge deletes, per resource of its scope, exactly the historical records that are neither
  current, nor protected, nor in a publication, nor younger than the window of the policy, except the
  newest of them that the policy keeps; a dry run deletes nothing, and nothing else changes.\<close>

theorem purge_follows_policy:
  assumes st: "st = registry_run env calls registry_new" and ok: "calls_ok env calls registry_new"
    and room: "calls_count calls < 2 ^ 64" and ord: "hash_order ord (rg_versions st)"
    and purge: "reg_purge ord policy now scope dry_run id st = (plan, st')"
  shows "records_of st' key = (if dry_run \<or> fst key \<noteq> scope then records_of st key
      else filter (\<lambda>r. r \<notin> set (purged_records policy now st key)) (records_of st key)) \<and>
    rg_resources st' = rg_resources st \<and> publications_of st' = publications_of st \<and>
    (v \<in> set plan \<longleftrightarrow> (\<exists>r \<in> set (purged_records policy now st (scope, vr_kind v, vr_id v)). rc_version r = vr_version v))"
proof -
  have inv: "registry_inv env st" using registry_run_new(1) [OF st ok] room by simp
  note member = purge_plan_set [OF inv ord]
  have plan: "plan = purge_plan ord policy now scope st"
    and st': "st' = (if dry_run then st else purge_delete scope plan st)"
    using purge by (auto simp: reg_purge_def Let_def purge_delete_def)
  have sub: "set (purged_records policy now st key) \<subseteq> set (records_of st key)"
    by (auto simp: purged_records_def expendable_def dest: in_set_dropD)
  have "(\<forall>v \<in> set plan. key = (scope, vr_kind v, vr_id v) \<longrightarrow> rc_version r \<noteq> vr_version v) \<longleftrightarrow>
      fst key \<noteq> scope \<or> r \<notin> set (purged_records policy now st key)" if r: "r \<in> set (records_of st key)" for r
  proof -
    have "(\<exists>v \<in> set plan. key = (scope, vr_kind v, vr_id v) \<and> rc_version r = vr_version v) \<longleftrightarrow>
        fst key = scope \<and> (\<exists>r' \<in> set (purged_records policy now st key). rc_version r' = rc_version r)"
    proof
      assume "fst key = scope \<and> (\<exists>r' \<in> set (purged_records policy now st key). rc_version r' = rc_version r)"
      then show "\<exists>v \<in> set plan. key = (scope, vr_kind v, vr_id v) \<and> rc_version r = vr_version v"
        using member [of "\<lparr>vr_kind = fst (snd key), vr_id = snd (snd key), vr_version = rc_version r\<rparr>"]
        unfolding plan by (cases key) (force intro!: bexI [rotated])
    qed (auto simp: plan member)
    moreover have "(\<exists>r' \<in> set (purged_records policy now st key). rc_version r' = rc_version r) \<longleftrightarrow>
        r \<in> set (purged_records policy now st key)"
      using sorted_same [OF key_okD(1) [OF inv, of key] _ r] sub by blast
    ultimately show ?thesis by blast
  qed
  then have "records_of (purge_delete scope plan st) key = (if fst key \<noteq> scope then records_of st key
      else filter (\<lambda>r. r \<notin> set (purged_records policy now st key)) (records_of st key))"
    unfolding purge_delete_result [THEN conjunct1]
    by (cases "fst key = scope") (auto simp: filter_id_conv cong: filter_cong)
  with st' member show ?thesis by (auto simp: purge_delete_result plan)
qed

text \<open>JSON values that differ in the order of members only, at any depth.\<close>

inductive same_json :: "json \<Rightarrow> json \<Rightarrow> bool" where
  same_refl: "same_json v v"
| same_trans: "same_json u v \<Longrightarrow> same_json v w \<Longrightarrow> same_json u w"
| same_items: "list_all2 same_json xs ys \<Longrightarrow> same_json (JArray xs) (JArray ys)"
| same_members: "list_all2 (rel_prod (=) same_json) ms ns \<Longrightarrow> same_json (JObject ms) (JObject ns)"
| same_order: "mset ms = mset ns \<Longrightarrow> distinct (map fst ms) \<Longrightarrow> same_json (JObject ms) (JObject ns)"

lemma list_all2_insort:
  "list_all2 R xs ys \<Longrightarrow> R x y \<Longrightarrow> (\<And>a b. R a b \<Longrightarrow> f a = f b) \<Longrightarrow> list_all2 R (insort_key f x xs) (insort_key f y ys)"
  by (induction rule: list_all2_induct) auto

lemma list_all2_sort_key:
  assumes "list_all2 R xs ys" "\<And>a b. R a b \<Longrightarrow> f a = f b"
  shows "list_all2 R (sort_key f xs) (sort_key f ys)"
proof -
  have "list_all2 R (foldr (insort_key f) xs []) (foldr (insort_key f) ys [])"
    using assms(1) by (induction rule: list_all2_induct) (auto intro: list_all2_insort assms(2))
  then show ?thesis by (simp add: sort_key_def)
qed

text \<open>Writing strings never fails and tells them apart.\<close>

definition string_writer :: "registry_env \<Rightarrow> (string \<Rightarrow> string) \<Rightarrow> bool" where
  "string_writer env f \<longleftrightarrow> inj f \<and> (\<forall>k. scalar_text env (JString k) = Inr (f k))"

lemma encoded_entries_writer:
  "string_writer env f \<Longrightarrow> encoded_entries env ms = Inr (map (\<lambda>(k, v). (f k, v)) ms)"
  by (induction ms) (auto simp: encoded_entries_def string_writer_def)

lemma write_object:
  assumes "string_writer env f"
  shows "write_canonical_json env (JObject ms) =
    (case collect_results (map (\<lambda>(kb, v). case write_canonical_json env v of
         Inl e \<Rightarrow> Inl e | Inr text \<Rightarrow> Inr (kb @ '':'' @ text)) (sort_key fst (map (\<lambda>(k, v). (f k, v)) ms))) of
       Inl e \<Rightarrow> Inl e
     | Inr parts \<Rightarrow> Inr (''{'' @ comma_separated parts @ ''}''))"
  by (simp add: encoded_entries_writer [OF assms])

lemma same_json_bytes:
  assumes writer: "string_writer env f"
  shows "same_json v w \<Longrightarrow> write_canonical_json env v = write_canonical_json env w"
proof (induction rule: same_json.induct)
  case (same_items xs ys)
  then have "map (write_canonical_json env) xs = map (write_canonical_json env) ys"
    by (induction rule: list_all2_induct) auto
  then show ?case by simp
next
  case (same_members ms ns)
  let ?same = "rel_prod (=) (\<lambda>v w. write_canonical_json env v = write_canonical_json env w)"
  have "list_all2 ?same (map (\<lambda>(k, v). (f k, v)) ms) (map (\<lambda>(k, v). (f k, v)) ns)"
    using same_members.IH by (induction rule: list_all2_induct) auto
  then have "list_all2 ?same (sort_key fst (map (\<lambda>(k, v). (f k, v)) ms)) (sort_key fst (map (\<lambda>(k, v). (f k, v)) ns))"
    by (rule list_all2_sort_key) auto
  then have "map (\<lambda>(kb, v). case write_canonical_json env v of Inl e \<Rightarrow> Inl e | Inr text \<Rightarrow> Inr (kb @ '':'' @ text))
        (sort_key fst (map (\<lambda>(k, v). (f k, v)) ms)) =
      map (\<lambda>(kb, v). case write_canonical_json env v of Inl e \<Rightarrow> Inl e | Inr text \<Rightarrow> Inr (kb @ '':'' @ text))
        (sort_key fst (map (\<lambda>(k, v). (f k, v)) ns))"
    by (induction rule: list_all2_induct) auto
  then show ?case unfolding write_object [OF writer] by (rule arg_cong)
next
  case (same_order ms ns)
  let ?enc = "map (\<lambda>(k, v). (f k, v))"
  have "distinct (map fst (?enc ms))"
  proof -
    have "map fst (?enc ms) = map f (map fst ms)" by auto
    with same_order(2) writer show ?thesis by (simp add: string_writer_def distinct_map inj_on_def)
  qed
  then have "inj_on fst (set (?enc ms))" unfolding distinct_map [of fst] by blast
  moreover have mset: "mset (?enc ms) = mset (?enc ns)" using same_order(1) by simp
  ultimately have "sort_key fst (?enc ms) = sort_key fst (?enc ns)"
    by (intro sort_key_inj_key_eq) simp_all
  then show ?case by (simp only: write_object [OF writer])
qed simp_all

text \<open>The canonical bytes of a value, and with them its content hash, do not depend on the order in
  which its objects list their members, at any depth, given that the JSON writer writes every string
  and tells strings apart.\<close>

theorem content_hash_ignores_member_order:
  assumes "string_writer env f" "same_json v w"
  shows "registry_content_hash env schema v = registry_content_hash env schema w"
  using same_json_bytes [OF assms]
  by (simp add: registry_content_hash_def canonical_content_hash_def canonical_registry_json_bytes_def)

section \<open>Examples\<close>

definition quote_text :: "string \<Rightarrow> string" where
  "quote_text s = [CHR 0x22] @ s @ [CHR 0x22]"

definition ex_registry_env :: registry_env where
  "ex_registry_env = \<lparr>scalar_text = (\<lambda>v. Inr (case v of JString s \<Rightarrow> quote_text s | JNumber n \<Rightarrow> n | _ \<Rightarrow> ''null'')),
     non_finite = (\<lambda>_. None), sha256_hex = id, json_display = (\<lambda>_. [])\<rparr>"

definition ex_publish :: "string \<Rightarrow> registry_call" where
  "ex_publish v = PublishResource 7 ''s'' ''model'' ''m'' (JString v) 1 JNull"

definition ex_resources :: registry_call where
  "ex_resources = PublishResources 8 ''s'' ''p1'' [\<lparr>rp_kind = ''model'', rp_id = ''m'', rp_value = JString ''b'',
     rp_schema = 1, rp_metadata = JNull\<rparr>] [] None JNull"

definition ex_registry :: registry_store where
  "ex_registry = registry_run ex_registry_env [ex_publish ''a'', ex_resources, ex_publish ''c''] registry_new"

lemma ex_call_counts [simp]:
  "call_count (ex_publish v) = 1" "call_count ex_resources = 1" "purged_by (ex_publish v) = {}"
  by (simp_all add: ex_publish_def ex_resources_def)

lemma ex_calls_ok: "calls_ok ex_registry_env [ex_publish ''a'', ex_resources, ex_publish ''c''] registry_new"
  by (simp add: ex_publish_def ex_resources_def)

text \<open>
  A purge that loses the race: version 1 is planned while nothing refers to it, a publication takes it
  in before the write lock is taken, and the deletion does not look again.
\<close>

definition ex_race :: "version_ref list \<times> registry_store" where
  "ex_race = reg_purge [(''s'', ''model'', ''m'')] \<lparr>keep_last_versions = None, keep_younger_than_ms = None, protected_versions = []\<rparr>
     9 ''s'' False
     (registry_apply ex_registry_env (CreatePublication 9 ''s'' ''p2'' [\<lparr>vr_kind = ''model'', vr_id = ''m'', vr_version = 1\<rparr>] [] None JNull))
     ex_registry"

lemma purge_race_breaks_publication:
  "pinned_manifest_for_publication (memory_registry ex_registry_env 9) ''s'' 2 (snd ex_race) = Inl (RegNotFound ''model/m@1'')"
  by code_simp

lemma published_versions_never_change_witness:
  "\<exists>r. reg_get ''s'' ''model'' ''m'' 1 ex_registry = Inr (Some r) \<and>
    reg_get ''s'' ''model'' ''m'' 1 (registry_run ex_registry_env [ex_publish ''d''] ex_registry) = Inr (Some r) \<and>
    verify_content_hash ex_registry_env r = Inr ()"
proof -
  have "case reg_get ''s'' ''model'' ''m'' 1 ex_registry of Inr (Some r) \<Rightarrow> True | _ \<Rightarrow> False" by code_simp
  then obtain r where r: "reg_get ''s'' ''model'' ''m'' 1 ex_registry = Inr (Some r)" by (auto split: sum.splits option.splits)
  have "calls_ok ex_registry_env [ex_publish ''d''] ex_registry" by (simp add: ex_publish_def)
  from published_versions_never_change [OF ex_registry_def refl ex_calls_ok this _ r] r show ?thesis
    by auto
qed

lemma pinned_manifests_are_stable_witness:
  "\<exists>m. pinned_manifest_for_publication (memory_registry ex_registry_env 9) ''s'' 1 ex_registry = Inr (Some m) \<and>
    pinned_manifest_for_publication (memory_registry ex_registry_env 9) ''s'' 1
      (registry_run ex_registry_env [ex_publish ''d''] ex_registry) = Inr (Some m)"
proof -
  have "case reg_get_publication ''s'' 1 ex_registry of Inr (Some r) \<Rightarrow> True | _ \<Rightarrow> False" by code_simp
  then obtain p where p: "reg_get_publication ''s'' 1 ex_registry = Inr (Some p)" by (auto split: sum.splits option.splits)
  have "calls_ok ex_registry_env [ex_publish ''d''] ex_registry" by (simp add: ex_publish_def)
  from pinned_manifests_are_stable [OF ex_registry_def refl ex_calls_ok this _ p] show ?thesis
    by auto
qed

lemma publishing_is_idempotent_witness:
  "\<exists>r st'. reg_publish_resource ex_registry_env 9 ''s'' ''model'' ''m'' (JString ''e'') 1 JNull ex_registry = (Inr (PublishCreated r), st') \<and>
    reg_publish_resource ex_registry_env 10 ''s'' ''model'' ''m'' (JString ''e'') 1 JNull st' = (Inr (PublishNoop r), st')"
proof -
  let ?publish = "reg_publish_resource ex_registry_env 9 ''s'' ''model'' ''m'' (JString ''e'') 1 JNull ex_registry"
  have "case fst ?publish of Inr (PublishCreated r) \<Rightarrow> True | _ \<Rightarrow> False" by code_simp
  then obtain r st' where publish: "?publish = (Inr (PublishCreated r), st')"
    by (cases ?publish) (auto split: sum.splits publish_outcome.splits)
  have "\<not> isl (registry_content_hash ex_registry_env 1 (JString ''e''))" by code_simp
  then obtain hash bytes where "registry_content_hash ex_registry_env 1 (JString ''e'') = Inr (hash, bytes)"
    by (cases "registry_content_hash ex_registry_env 1 (JString ''e'')") auto
  from publishing_is_idempotent [OF ex_registry_def ex_calls_ok _ this publish, of 10 JNull] publish show ?thesis by auto
qed

lemma rollback_restores_contents_witness:
  "\<exists>p st'. rollback_publication (memory_registry ex_registry_env 9) ''s'' 1 ''p3'' None JNull ex_registry = (Inr p, st') \<and>
    (\<exists>m m'. pinned_manifest_for_publication (memory_registry ex_registry_env 9) ''s'' 1 ex_registry = Inr (Some m) \<and>
      pinned_manifest_for_publication (memory_registry ex_registry_env 9) ''s'' (pb_snapshot_version p) st' = Inr (Some m') \<and>
      (\<lambda>e. (pe_kind e, pe_id e, pe_content_hash e)) ` set (pm_entries m') =
        (\<lambda>e. (pe_kind e, pe_id e, pe_content_hash e)) ` set (pm_entries m))"
proof -
  let ?roll = "rollback_publication (memory_registry ex_registry_env 9) ''s'' 1 ''p3'' None JNull ex_registry"
  have "\<not> isl (fst ?roll)" by code_simp
  then obtain p st' where roll: "?roll = (Inr p, st')" by (cases ?roll; cases "fst ?roll") auto
  from rollback_restores_contents [OF ex_registry_def ex_calls_ok _ roll] roll show ?thesis by auto
qed

lemma publish_resource_keys:
  "dom (rg_versions (snd (reg_publish_resource env now scope kind rid v schema m st))) \<subseteq> insert (scope, kind, rid) (dom (rg_versions st))"
  by (auto simp: reg_publish_resource_def push_version_def upsert_resource_state_def Let_def
      split: sum.splits option.splits if_splits)

definition ex_twice :: registry_store where
  "ex_twice = registry_run ex_registry_env [ex_publish ''a'', ex_publish ''c''] registry_new"

lemma purge_follows_policy_witness:
  "let policy = \<lparr>keep_last_versions = Some 0, keep_younger_than_ms = None, protected_versions = []\<rparr>;
       key = (''s'', ''model'', ''m'') in
   records_of (snd (reg_purge [key] policy 9 ''s'' False id ex_twice)) key =
     filter (\<lambda>r. r \<notin> set (purged_records policy 9 ex_twice key)) (records_of ex_twice key)"
proof -
  let ?key = "(''s'', ''model'', ''m'')"
  have "dom (rg_versions ex_twice) \<subseteq> insert ?key (insert ?key (dom (rg_versions registry_new)))"
    unfolding ex_twice_def ex_publish_def registry_run.simps registry_apply.simps
    by (rule order_trans [OF publish_resource_keys]) (rule insert_mono [OF publish_resource_keys])
  then have "dom (rg_versions ex_twice) \<subseteq> {?key}" by (simp add: registry_new_def)
  moreover have "rg_versions ex_twice ?key \<noteq> None" by code_simp
  ultimately have "hash_order [?key] (rg_versions ex_twice)" by (auto simp: hash_order_def)
  moreover have "calls_ok ex_registry_env [ex_publish ''a'', ex_publish ''c''] registry_new" by (simp add: ex_publish_def)
  ultimately show ?thesis
    using purge_follows_policy [OF ex_twice_def _ _ _ prod.collapse [symmetric], of "[?key]" _ 9 "''s''" False ?key]
    by (simp add: Let_def)
qed

lemma content_hash_ignores_member_order_witness:
  "registry_content_hash ex_registry_env 1 (JObject [(''a'', JNull), (''b'', JArray [])]) =
   registry_content_hash ex_registry_env 1 (JObject [(''b'', JArray []), (''a'', JNull)])"
proof (rule content_hash_ignores_member_order)
  show "string_writer ex_registry_env quote_text" by (simp add: string_writer_def ex_registry_env_def quote_text_def inj_def)
  show "same_json (JObject [(''a'', JNull), (''b'', JArray [])]) (JObject [(''b'', JArray []), (''a'', JNull)])"
    by (rule same_order) simp_all
qed

end
