(* ===== verification/Registry_Graph_Correct.thy ===== *)
theory Registry_Graph_Correct
imports Registry_Graph Registry_Properties
begin

text \<open>
  The graph validator ends on every store with finitely many versions, whatever the references, and
  what it accepts is a closed, verified graph without cycles.
\<close>

declare split_paired_All [simp del] split_paired_Ex [simp del]

section \<open>What a walk keeps fixed\<close>

text \<open>The walk changes the accepted entries and the stack only; references do not look at either.\<close>

definition vframe :: "validation_context \<Rightarrow> validation_context" where
  "vframe ctx = ctx\<lparr>vc_accepted := [], vc_visiting := []\<rparr>"

lemma vframe_fields [simp]:
  "vc_scope (vframe ctx) = vc_scope ctx" "vc_candidates (vframe ctx) = vc_candidates ctx"
  "vc_allow_current (vframe ctx) = vc_allow_current ctx" "vc_reject_archived (vframe ctx) = vc_reject_archived ctx"
  "vframe (ctx\<lparr>vc_visiting := v\<rparr>) = vframe ctx" "vframe (ctx\<lparr>vc_accepted := a\<rparr>) = vframe ctx"
  "vframe (ctx\<lparr>vc_accepted := a, vc_visiting := v\<rparr>) = vframe ctx"
  by (simp_all add: vframe_def)

lemma references_frame:
  "resolve_reference_entry ops (vframe ctx) kind rid st = resolve_reference_entry ops ctx kind rid st"
  "try_reference_entry ops (vframe ctx) kind rid st = try_reference_entry ops ctx kind rid st"
  unfolding resolve_reference_entry_def try_reference_entry_def vframe_fields by (rule refl)+

lemma resolve_all_frame: "resolve_all ops (vframe ctx) kind rids st acc = resolve_all ops ctx kind rids st acc"
  by (induction rids arbitrary: acc) (simp_all add: references_frame split: sum.split)

lemma dependencies_frame:
  "dependencies_for_record senv ops (vframe ctx) e rec st = dependencies_for_record senv ops ctx e rec st"
  unfolding dependencies_for_record_def agent_dependencies_def model_dependencies_def model_pool_dependencies_def
    resolve_model_or_pool_reference_def references_frame resolve_all_frame by (rule refl)

lemma same_frame:
  assumes "vframe ctx' = vframe ctx"
  shows "vc_scope ctx' = vc_scope ctx" "vc_candidates ctx' = vc_candidates ctx"
    "vc_allow_current ctx' = vc_allow_current ctx" "vc_reject_archived ctx' = vc_reject_archived ctx"
    "dependencies_for_record senv ops ctx' e rec st = dependencies_for_record senv ops ctx e rec st"
  using assms by (metis vframe_fields(1)) (use assms in \<open>metis vframe_fields(2) vframe_fields(3) vframe_fields(4) dependencies_frame\<close>)+

text \<open>A step of the walk, by its outcome.\<close>

lemma validate_entry_step:
  assumes "validate_entry env senv ops st (Suc fuel) ctx e = Some (Inr ctx')"
  obtains (known) existing where "ctx' = ctx" "map_of (vc_accepted ctx) (entry_key e) = Some existing"
      "pe_version existing = pe_version e" "pe_content_hash existing = pe_content_hash e"
  | (walked) rec deps ctx2 where "map_of (vc_accepted ctx) (entry_key e) = None" "ref_of_entry e \<notin> set (vc_visiting ctx)"
      "validate_stored_entry env ops (vc_scope ctx) e (vc_reject_archived ctx) st = Inr rec"
      "dependencies_for_record senv ops ctx e rec st = Inr deps"
      "validate_entries env senv ops st fuel (ctx\<lparr>vc_visiting := vc_visiting ctx @ [ref_of_entry e]\<rparr>) deps = Some (Inr ctx2)"
      "ctx' = ctx2\<lparr>vc_visiting := butlast (vc_visiting ctx2), vc_accepted := bt_insert (entry_key e) e (vc_accepted ctx2)\<rparr>"
proof (cases "map_of (vc_accepted ctx) (entry_key e)")
  case (Some existing)
  with assms known show ?thesis by (auto split: if_splits)
next
  case None
  let ?ctx1 = "ctx\<lparr>vc_visiting := vc_visiting ctx @ [ref_of_entry e]\<rparr>"
  have "dependencies_for_record senv ops ?ctx1 e rec st = dependencies_for_record senv ops ctx e rec st" for rec
    by (metis dependencies_frame vframe_fields(5))
  with assms None obtain rec deps ctx2 where "ref_of_entry e \<notin> set (vc_visiting ctx)"
      "validate_stored_entry env ops (vc_scope ctx) e (vc_reject_archived ctx) st = Inr rec"
      "dependencies_for_record senv ops ctx e rec st = Inr deps"
      "validate_entries env senv ops st fuel ?ctx1 deps = Some (Inr ctx2)"
      "ctx' = ctx2\<lparr>vc_visiting := butlast (vc_visiting ctx2), vc_accepted := bt_insert (entry_key e) e (vc_accepted ctx2)\<rparr>"
    by (simp add: Let_def split: if_splits sum.splits option.splits)
  from walked [OF None this] show ?thesis .
qed

lemma validate_entries_Cons:
  "validate_entries env senv ops st fuel ctx (e # es) = Some (Inr ctx') \<longleftrightarrow>
     (\<exists>ctx1. validate_entry env senv ops st fuel ctx e = Some (Inr ctx1) \<and>
        validate_entries env senv ops st fuel ctx1 es = Some (Inr ctx'))"
  by (auto split: option.splits sum.splits)

lemma walk_keeps:
  "validate_entry env senv ops st fuel ctx e = Some (Inr ctx') \<Longrightarrow> vframe ctx' = vframe ctx \<and> vc_visiting ctx' = vc_visiting ctx"
  "validate_entries env senv ops st fuel ctx es = Some (Inr ctx') \<Longrightarrow> vframe ctx' = vframe ctx \<and> vc_visiting ctx' = vc_visiting ctx"
proof (induction env senv ops st fuel ctx e and env senv ops st fuel ctx es arbitrary: ctx' and ctx'
    rule: validate_entry_validate_entries.induct)
  case (2 env senv ops st fuel ctx e)
  from 2(2) show ?case
  proof (cases rule: validate_entry_step)
    case (walked rec deps ctx2)
    have "dependencies_for_record senv ops (ctx\<lparr>vc_visiting := vc_visiting ctx @ [ref_of_entry e]\<rparr>) e rec st = Inr deps"
      using walked(4) by (metis dependencies_frame vframe_fields(5))
    from 2(1) [OF walked(1,2,3) refl this walked(5)] walked(6) show ?thesis by (simp add: vframe_def)
  qed simp
next
  case (4 env senv ops st fuel ctx e es)
  from 4(3) obtain ctx1 where ctx1: "validate_entry env senv ops st fuel ctx e = Some (Inr ctx1)"
    "validate_entries env senv ops st fuel ctx1 es = Some (Inr ctx')" unfolding validate_entries_Cons by blast
  from 4(1) [OF ctx1(1)] 4(2) [OF ctx1(1) refl ctx1(2)] show ?case by metis
qed simp_all

section \<open>Termination\<close>

definition stored_refs :: "'s registry_ops \<Rightarrow> string \<Rightarrow> 's \<Rightarrow> version_ref set" where
  "stored_refs ops scope st = {v. \<exists>rec. ro_get ops scope (vr_kind v) (vr_id v) (vr_version v) st = Inr (Some rec)}"

lemma validated_is_stored:
  "validate_stored_entry env ops scope e reject st = Inr rec \<Longrightarrow> ref_of_entry e \<in> stored_refs ops scope st"
  by (auto simp: validate_stored_entry_def load_graph_record_def stored_refs_def ref_of_entry_def
      split: sum.splits option.splits if_splits)

text \<open>Every level of the recursion puts another stored version on the stack.\<close>

lemma walk_returns:
  assumes "finite (stored_refs ops (vc_scope ctx) st)"
    and "distinct (vc_visiting ctx)" "set (vc_visiting ctx) \<subseteq> stored_refs ops (vc_scope ctx) st"
    and "card (stored_refs ops (vc_scope ctx) st) < fuel + length (vc_visiting ctx)"
  shows "validate_entry env senv ops st fuel ctx e \<noteq> None \<and> validate_entries env senv ops st fuel ctx es \<noteq> None"
  using assms
proof (induction fuel arbitrary: ctx e es)
  case 0
  have "length (vc_visiting ctx) \<le> card (stored_refs ops (vc_scope ctx) st)"
    using 0(1-3) by (metis card_mono distinct_card)
  with 0(4) show ?case by simp
next
  case (Suc fuel)
  have entry: "validate_entry env senv ops st (Suc fuel) ctx' e \<noteq> None"
    if frame: "vframe ctx' = vframe ctx" and visiting: "vc_visiting ctx' = vc_visiting ctx" for ctx' e
  proof -
    let ?ctx1 = "ctx'\<lparr>vc_visiting := vc_visiting ctx' @ [ref_of_entry e]\<rparr>"
    have scope: "vc_scope ctx' = vc_scope ctx" by (rule same_frame(1) [OF frame])
    have "validate_entries env senv ops st fuel ?ctx1 deps \<noteq> None"
      if "ref_of_entry e \<notin> set (vc_visiting ctx')" "validate_stored_entry env ops (vc_scope ctx') e (vc_reject_archived ctx') st = Inr rec"
      for rec deps
      using Suc.prems that(1) validated_is_stored [OF that(2)] by (intro Suc.IH [THEN conjunct2]) (simp_all add: scope visiting)
    note deeper = this
    show ?thesis
    proof (cases "ref_of_entry e \<in> set (vc_visiting ctx')")
      case False
      show ?thesis
      proof (cases "validate_stored_entry env ops (vc_scope ctx') e (vc_reject_archived ctx') st")
        case (Inr rec)
        obtain walk where "\<And>deps. validate_entries env senv ops st fuel ?ctx1 deps = Some (walk deps)"
          by (rule that [of "\<lambda>deps. the (validate_entries env senv ops st fuel ?ctx1 deps)"])
            (rule option.collapse [symmetric], rule deeper [OF False Inr])
        with Inr False show ?thesis by (simp add: Let_def split: option.split sum.split)
      qed (simp add: False split: option.split)
    qed (simp split: option.split)
  qed
  have "validate_entries env senv ops st (Suc fuel) ctx' es \<noteq> None"
    if "vframe ctx' = vframe ctx" "vc_visiting ctx' = vc_visiting ctx" for ctx'
    using that
  proof (induction es arbitrary: ctx')
    case (Cons e es)
    from entry [OF Cons.prems, of e] show ?case
    proof (cases "validate_entry env senv ops st (Suc fuel) ctx' e")
      case (Some res)
      show ?thesis
      proof (cases res)
        case (Inr ctx1)
        with walk_keeps(1) [of env senv ops st "Suc fuel" ctx' e ctx1] Some Cons.prems
        have "vframe ctx1 = vframe ctx" "vc_visiting ctx1 = vc_visiting ctx" by simp_all
        from Cons.IH [OF this] show ?thesis by (simp only: validate_entries.simps Some Inr option.case sum.case not_False_eq_True)
      next
        case (Inl err)
        then show ?thesis by (simp only: validate_entries.simps Some option.case sum.case option.distinct not_False_eq_True)
      qed
    qed simp
  qed simp
  with entry [of ctx e] show ?case by blast
qed

text \<open>More fuel does not change a result.\<close>

lemma walk_mono:
  "validate_entry env senv ops st fuel ctx e = Some res \<Longrightarrow> fuel \<le> fuel' \<Longrightarrow> validate_entry env senv ops st fuel' ctx e = Some res"
  "validate_entries env senv ops st fuel ctx es = Some res \<Longrightarrow> fuel \<le> fuel' \<Longrightarrow> validate_entries env senv ops st fuel' ctx es = Some res"
proof (induction env senv ops st fuel ctx e and env senv ops st fuel ctx es arbitrary: res fuel' and res fuel'
    rule: validate_entry_validate_entries.induct)
  case (2 env senv ops st fuel ctx e)
  obtain n where n: "fuel' = Suc n" "fuel \<le> n" using 2(3) by (cases fuel') auto
  let ?ctx1 = "ctx\<lparr>vc_visiting := vc_visiting ctx @ [ref_of_entry e]\<rparr>"
  show ?case
  proof (cases "map_of (vc_accepted ctx) (entry_key e)")
    case Some
    with 2(2) show ?thesis by (simp add: n)
  next
    case None
    note known = None
    show ?thesis
    proof (cases "ref_of_entry e \<in> set (vc_visiting ctx)")
      case True
      with 2(2) None show ?thesis by (simp add: n)
    next
      case False
      show ?thesis
      proof (cases "validate_stored_entry env ops (vc_scope ctx) e (vc_reject_archived ctx) st")
        case (Inl err)
        with 2(2) None False show ?thesis by (simp add: n)
      next
        case (Inr rec)
        note stored = Inr
        show ?thesis
        proof (cases "dependencies_for_record senv ops ?ctx1 e rec st")
          case (Inl err)
          with 2(2) None False stored show ?thesis by (simp add: n Let_def)
        next
          case (Inr deps)
          obtain walked where walked: "validate_entries env senv ops st fuel ?ctx1 deps = Some walked"
            using 2(2) None False stored Inr by (cases "validate_entries env senv ops st fuel ?ctx1 deps") (simp_all add: Let_def)
          from 2(1) [OF known False stored refl Inr walked n(2)] walked 2(2) known False stored Inr
          show ?thesis by (simp add: n Let_def)
        qed
      qed
    qed
  qed
next
  case (4 env senv ops st fuel ctx e es)
  show ?case
  proof (cases "validate_entry env senv ops st fuel ctx e")
    case None
    with 4(3) show ?thesis by simp
  next
    case (Some walked)
    from 4(1) [OF Some 4(4)] have more: "validate_entry env senv ops st fuel' ctx e = Some walked" .
    show ?thesis
    proof (cases walked)
      case (Inl err)
      with 4(3) Some have "res = Inl err" by simp
      with more Inl show ?thesis by simp
    next
      case (Inr ctx1)
      with 4(3) Some have "validate_entries env senv ops st fuel ctx1 es = Some res" by simp
      from 4(2) [OF Some Inr this 4(4)] more Inr show ?thesis by simp
    qed
  qed
qed simp_all

section \<open>What the walk accepts\<close>

text \<open>The one entry a reference to a resource resolves to in a walk.\<close>

definition entry_at :: "'s registry_ops \<Rightarrow> 's \<Rightarrow> validation_context \<Rightarrow> string \<times> string \<Rightarrow> pinned_entry option" where
  "entry_at ops st ctx key = (case vc_candidates ctx key of
      Some e \<Rightarrow> Some e
    | None \<Rightarrow> if vc_allow_current ctx then (case ro_current ops (vc_scope ctx) (fst key) (snd key) st of
          Inr (Some rec) \<Rightarrow> Some (entry_of_record (fst key) (snd key) rec) | _ \<Rightarrow> None) else None)"

definition candidates_keyed :: "validation_context \<Rightarrow> bool" where
  "candidates_keyed ctx \<longleftrightarrow> (\<forall>key e. vc_candidates ctx key = Some e \<longrightarrow> entry_key e = key)"

lemma entry_key_of_record [simp]: "entry_key (entry_of_record kind rid rec) = (kind, rid)"
  by (simp add: entry_key_def entry_of_record_def)

lemma reference_resolves:
  assumes "candidates_keyed ctx"
  shows "resolve_reference_entry ops ctx kind rid st = Inr d \<Longrightarrow> entry_at ops st ctx (entry_key d) = Some d"
    and "try_reference_entry ops ctx kind rid st = Inr (Some d) \<Longrightarrow> entry_at ops st ctx (entry_key d) = Some d"
  using assms
  by (auto simp: resolve_reference_entry_def try_reference_entry_def entry_at_def candidates_keyed_def
      split: option.splits if_splits sum.splits)

lemma references_resolve:
  assumes "candidates_keyed ctx"
  shows "resolve_all ops ctx kind rids st acc = Inr ds \<Longrightarrow> d \<in> set ds \<Longrightarrow> d \<in> set acc \<or> entry_at ops st ctx (entry_key d) = Some d"
proof (induction rids arbitrary: acc)
  case (Cons rid rids)
  then obtain x where "resolve_reference_entry ops ctx kind rid st = Inr x" "resolve_all ops ctx kind rids st (acc @ [x]) = Inr ds"
    by (auto split: sum.splits)
  with Cons.IH [OF this(2) Cons.prems(2)] reference_resolves(1) [OF assms, of ops kind rid st x] show ?case by auto
qed simp

lemma dependencies_resolve:
  assumes "candidates_keyed ctx" "dependencies_for_record senv ops ctx e rec st = Inr ds" "d \<in> set ds"
  shows "entry_at ops st ctx (entry_key d) = Some d"
proof -
  have "resolve_model_or_pool_reference ops ctx rid st = Inr d' \<Longrightarrow> entry_at ops st ctx (entry_key d') = Some d'" for rid d'
    by (auto simp: resolve_model_or_pool_reference_def split: sum.splits option.splits dest: reference_resolves(2) [OF assms(1)])
  note one = this reference_resolves(1) [OF assms(1)] references_resolve [OF assms(1)]
  show ?thesis
    using assms(2,3)
    by (auto simp: dependencies_for_record_def agent_dependencies_def model_dependencies_def model_pool_dependencies_def
        split: if_splits sum.splits dest: one(1,2) dest!: one(3))
qed

text \<open>The references of an entry whose record is stored and verified.\<close>

definition dependencies_of :: "registry_env \<Rightarrow> spec_env \<Rightarrow> 's registry_ops \<Rightarrow> 's \<Rightarrow> validation_context \<Rightarrow> pinned_entry \<Rightarrow>
    graph_error + pinned_entry list" where
  "dependencies_of env senv ops st ctx e =
     (case validate_stored_entry env ops (vc_scope ctx) e (vc_reject_archived ctx) st of
        Inl err \<Rightarrow> Inl err
      | Inr rec \<Rightarrow> dependencies_for_record senv ops ctx e rec st)"

definition depends :: "registry_env \<Rightarrow> spec_env \<Rightarrow> 's registry_ops \<Rightarrow> 's \<Rightarrow> validation_context \<Rightarrow> pinned_entry \<Rightarrow> pinned_entry \<Rightarrow> bool" where
  "depends env senv ops st ctx d e \<longleftrightarrow> (\<exists>ds. dependencies_of env senv ops st ctx e = Inr ds \<and> d \<in> set ds)"

lemma frame_cong:
  assumes "vframe ctx' = vframe ctx"
  shows "entry_at ops st ctx' = entry_at ops st ctx" "candidates_keyed ctx' = candidates_keyed ctx"
    "dependencies_of env senv ops st ctx' = dependencies_of env senv ops st ctx"
    "depends env senv ops st ctx' = depends env senv ops st ctx"
proof -
  note same = same_frame [OF assms]
  show dep: "dependencies_of env senv ops st ctx' = dependencies_of env senv ops st ctx"
    unfolding dependencies_of_def same by (rule refl)
  show "entry_at ops st ctx' = entry_at ops st ctx" unfolding entry_at_def same by (rule refl)
  show "candidates_keyed ctx' = candidates_keyed ctx" unfolding candidates_keyed_def same by (rule refl)
  show "depends env senv ops st ctx' = depends env senv ops st ctx" unfolding depends_def dep by (rule refl)
qed

definition walk_inv :: "registry_env \<Rightarrow> spec_env \<Rightarrow> 's registry_ops \<Rightarrow> 's \<Rightarrow> validation_context \<Rightarrow> bool" where
  "walk_inv env senv ops st ctx \<longleftrightarrow> candidates_keyed ctx \<and> bt_ok (vc_accepted ctx) \<and>
     (\<forall>key e. map_of (vc_accepted ctx) key = Some e \<longrightarrow> key = entry_key e \<and> entry_at ops st ctx key = Some e \<and>
        Wellfounded.accp (depends env senv ops st ctx) e \<and>
        (\<exists>ds. dependencies_of env senv ops st ctx e = Inr ds \<and> (\<forall>d \<in> set ds. map_of (vc_accepted ctx) (entry_key d) = Some d)))"

lemma walk_invD:
  assumes "walk_inv env senv ops st ctx" "map_of (vc_accepted ctx) key = Some e"
  shows "key = entry_key e" "entry_at ops st ctx key = Some e" "Wellfounded.accp (depends env senv ops st ctx) e"
    "\<exists>ds. dependencies_of env senv ops st ctx e = Inr ds \<and> (\<forall>d \<in> set ds. map_of (vc_accepted ctx) (entry_key d) = Some d)"
  using assms unfolding walk_inv_def by blast+

text \<open>Accepting one more entry, all of whose references are accepted.\<close>

lemma walk_inv_accept:
  assumes inv: "walk_inv env senv ops st ctx" and e: "entry_at ops st ctx (entry_key e) = Some e"
    and deps: "dependencies_of env senv ops st ctx e = Inr ds" "\<forall>d \<in> set ds. map_of (vc_accepted ctx) (entry_key d) = Some d"
    and ctx': "ctx' = ctx\<lparr>vc_visiting := v, vc_accepted := bt_insert (entry_key e) e (vc_accepted ctx)\<rparr>"
  shows "walk_inv env senv ops st ctx'" "map_of (vc_accepted ctx) \<subseteq>\<^sub>m map_of (vc_accepted ctx')"
    "map_of (vc_accepted ctx') (entry_key e) = Some e"
proof -
  have frame: "vframe ctx' = vframe ctx" by (simp add: ctx' vframe_def)
  have bt: "bt_ok (vc_accepted ctx)" and keyed: "candidates_keyed ctx" using inv by (simp_all add: walk_inv_def)
  have acc: "map_of (vc_accepted ctx') = (map_of (vc_accepted ctx))(entry_key e \<mapsto> e)"
    by (simp add: ctx' bt_lookup_insert [OF bt])
  show le: "map_of (vc_accepted ctx) \<subseteq>\<^sub>m map_of (vc_accepted ctx')"
    using walk_invD(2) [OF inv, of "entry_key e"] e by (auto simp: map_le_def acc)
  show "map_of (vc_accepted ctx') (entry_key e) = Some e" by (simp add: acc)
  have kept: "map_of (vc_accepted ctx') key = Some x" if "map_of (vc_accepted ctx) key = Some x" for key x
    using le that unfolding map_le_def dom_def by (metis (mono_tags) mem_Collect_eq option.distinct(1))
  have "Wellfounded.accp (depends env senv ops st ctx) e"
  proof (rule accp.intros)
    show "Wellfounded.accp (depends env senv ops st ctx) d" if "depends env senv ops st ctx d e" for d
      using that deps walk_invD(3) [OF inv, of "entry_key d" d] by (auto simp: depends_def)
  qed
  then have "key = entry_key x \<and> entry_at ops st ctx key = Some x \<and> Wellfounded.accp (depends env senv ops st ctx) x \<and>
      (\<exists>ds. dependencies_of env senv ops st ctx x = Inr ds \<and> (\<forall>d \<in> set ds. map_of (vc_accepted ctx') (entry_key d) = Some d))"
    if "map_of (vc_accepted ctx') key = Some x" for key x
  proof (cases "key = entry_key e")
    case True
    have "x = e" using that True by (simp add: acc)
    moreover have "\<forall>d \<in> set ds. map_of (vc_accepted ctx') (entry_key d) = Some d" using deps(2) kept by blast
    ultimately show ?thesis using True e deps(1) \<open>Wellfounded.accp (depends env senv ops st ctx) e\<close> by simp
  next
    case False
    with that have "map_of (vc_accepted ctx) key = Some x" by (simp add: acc)
    note x = walk_invD [OF inv this]
    from x(4) obtain ds' where "dependencies_of env senv ops st ctx x = Inr ds'"
      "\<forall>d \<in> set ds'. map_of (vc_accepted ctx) (entry_key d) = Some d" by blast
    with x(1-3) kept show ?thesis by auto
  qed
  then have "\<forall>key x. map_of (vc_accepted ctx') key = Some x \<longrightarrow> key = entry_key x \<and> entry_at ops st ctx key = Some x \<and>
      Wellfounded.accp (depends env senv ops st ctx) x \<and>
      (\<exists>ds. dependencies_of env senv ops st ctx x = Inr ds \<and> (\<forall>d \<in> set ds. map_of (vc_accepted ctx') (entry_key d) = Some d))"
    by (intro allI impI)
  moreover have "bt_ok (vc_accepted ctx')" by (simp add: ctx' bt)
  ultimately show "walk_inv env senv ops st ctx'"
    unfolding walk_inv_def frame_cong [OF frame] by (intro conjI keyed)
qed

lemma walk_sound:
  "validate_entry env senv ops st fuel ctx e = Some (Inr ctx') \<Longrightarrow> walk_inv env senv ops st ctx \<Longrightarrow>
     entry_at ops st ctx (entry_key e) = Some e \<Longrightarrow>
     walk_inv env senv ops st ctx' \<and> map_of (vc_accepted ctx) \<subseteq>\<^sub>m map_of (vc_accepted ctx') \<and>
     map_of (vc_accepted ctx') (entry_key e) = Some e"
  "validate_entries env senv ops st fuel ctx es = Some (Inr ctx') \<Longrightarrow> walk_inv env senv ops st ctx \<Longrightarrow>
     (\<forall>e \<in> set es. entry_at ops st ctx (entry_key e) = Some e) \<Longrightarrow>
     walk_inv env senv ops st ctx' \<and> map_of (vc_accepted ctx) \<subseteq>\<^sub>m map_of (vc_accepted ctx') \<and>
     (\<forall>e \<in> set es. map_of (vc_accepted ctx') (entry_key e) = Some e)"
proof (induction env senv ops st fuel ctx e and env senv ops st fuel ctx es arbitrary: ctx' and ctx'
    rule: validate_entry_validate_entries.induct)
  case (2 env senv ops st fuel ctx e)
  from 2(2) show ?case
  proof (cases rule: validate_entry_step)
    case (known existing)
    from walk_invD(2) [OF 2(3) known(2)] 2(4) have "existing = e" by simp
    with known 2(3) show ?thesis by simp
  next
    case (walked rec deps ctx2)
    let ?ctx1 = "ctx\<lparr>vc_visiting := vc_visiting ctx @ [ref_of_entry e]\<rparr>"
    have frame1: "vframe ?ctx1 = vframe ctx" by simp
    have deps1: "dependencies_for_record senv ops ?ctx1 e rec st = Inr deps"
      using walked(4) by (simp only: same_frame(5) [OF frame1])
    have inv1: "walk_inv env senv ops st ?ctx1"
      using 2(3) unfolding walk_inv_def frame_cong [OF frame1] by simp
    have "\<forall>d \<in> set deps. entry_at ops st ?ctx1 (entry_key d) = Some d"
      using dependencies_resolve [OF _ deps1] inv1 by (simp add: walk_inv_def)
    from 2(1) [OF walked(1,2,3) refl deps1 walked(5) inv1 this]
    have ctx2: "walk_inv env senv ops st ctx2" "map_of (vc_accepted ctx) \<subseteq>\<^sub>m map_of (vc_accepted ctx2)"
      "\<forall>d \<in> set deps. map_of (vc_accepted ctx2) (entry_key d) = Some d" by simp_all
    have frame2: "vframe ctx2 = vframe ctx" using walk_keeps(2) [OF walked(5)] by simp
    have "dependencies_of env senv ops st ctx2 e = Inr deps"
      unfolding frame_cong(3) [OF frame2] using walked(3,4) by (simp add: dependencies_of_def)
    from walk_inv_accept [OF ctx2(1) _ this ctx2(3) walked(6)] 2(4) ctx2(2) map_le_trans show ?thesis
      unfolding frame_cong(1) [OF frame2] by blast
  qed
next
  case (4 env senv ops st fuel ctx e es)
  from 4(3) obtain ctx1 where ctx1: "validate_entry env senv ops st fuel ctx e = Some (Inr ctx1)"
    "validate_entries env senv ops st fuel ctx1 es = Some (Inr ctx')" unfolding validate_entries_Cons by blast
  have frame: "vframe ctx1 = vframe ctx" using walk_keeps(1) [OF ctx1(1)] by simp
  from 4(1) [OF ctx1(1) 4(4)] 4(5) have one: "walk_inv env senv ops st ctx1" "map_of (vc_accepted ctx) \<subseteq>\<^sub>m map_of (vc_accepted ctx1)"
    "map_of (vc_accepted ctx1) (entry_key e) = Some e" by simp_all
  have "\<forall>e \<in> set es. entry_at ops st ctx1 (entry_key e) = Some e" using 4(5) unfolding frame_cong(1) [OF frame] by simp
  from 4(2) [OF ctx1(1) refl ctx1(2) one(1) this] have rest: "walk_inv env senv ops st ctx'"
    "map_of (vc_accepted ctx1) \<subseteq>\<^sub>m map_of (vc_accepted ctx')" "\<forall>e \<in> set es. map_of (vc_accepted ctx') (entry_key e) = Some e"
    by simp_all
  moreover have "map_of (vc_accepted ctx') (entry_key e) = Some e"
    using rest(2) one(3) unfolding map_le_def dom_def by (metis (mono_tags) mem_Collect_eq option.distinct(1))
  ultimately show ?case using map_le_trans [OF one(2) rest(2)] by simp
qed simp_all

section \<open>Validating a request\<close>

lemma candidates_collected:
  "collect_candidates seen candidates entries = Inr candidates' \<Longrightarrow>
     (\<forall>key \<in> dom candidates. key \<in> seen) \<Longrightarrow> (\<forall>key e. candidates key = Some e \<longrightarrow> entry_key e = key) \<Longrightarrow>
     (\<forall>key e. candidates' key = Some e \<longrightarrow> entry_key e = key) \<and> candidates \<subseteq>\<^sub>m candidates' \<and>
     (\<forall>e \<in> set entries. candidates' (entry_key e) = Some e)"
proof (induction entries arbitrary: seen candidates)
  case (Cons e entries)
  have rest: "collect_candidates (insert (entry_key e) seen) (candidates(entry_key e \<mapsto> e)) entries = Inr candidates'"
    and new: "entry_key e \<notin> seen" using Cons.prems(1) by (simp_all split: if_splits)
  have "\<forall>key \<in> dom (candidates(entry_key e \<mapsto> e)). key \<in> insert (entry_key e) seen"
    "\<forall>key x. (candidates(entry_key e \<mapsto> e)) key = Some x \<longrightarrow> entry_key x = key"
    using Cons.prems(2,3) by (auto split: if_splits)
  from Cons.IH [OF rest this]
  have ih: "\<forall>key e. candidates' key = Some e \<longrightarrow> entry_key e = key" "candidates(entry_key e \<mapsto> e) \<subseteq>\<^sub>m candidates'"
    "\<forall>e \<in> set entries. candidates' (entry_key e) = Some e" by blast+
  have "candidates (entry_key e) = None" using Cons.prems(2) new by (auto simp: domIff)
  then have "candidates \<subseteq>\<^sub>m candidates(entry_key e \<mapsto> e)" by (auto simp: map_le_def domIff)
  then have "candidates \<subseteq>\<^sub>m candidates'" by (rule map_le_trans [OF _ ih(2)])
  moreover have "candidates' (entry_key e) = Some e" using bspec [OF ih(2) [unfolded map_le_def], of "entry_key e"] by simp
  ultimately show ?case using ih(1,3) unfolding list.set ball_simps by (intro conjI)
qed simp

lemma root_context_ok:
  assumes "root_context ops root st = Inr ctx"
  shows "walk_inv env senv ops st ctx" "\<forall>e \<in> set (vc_roots ctx). entry_at ops st ctx (entry_key e) = Some e" "vc_visiting ctx = []"
proof -
  obtain scope entries cur arch where "context_from_entries scope entries cur arch = Inr ctx"
    using assms by (auto simp: root_context_def split: version_selector.splits sum.splits option.splits)
  then obtain candidates where c: "collect_candidates {} Map.empty entries = Inr candidates"
    "ctx = \<lparr>vc_scope = scope, vc_roots = entries, vc_candidates = candidates, vc_accepted = [], vc_visiting = [],
       vc_allow_current = cur, vc_reject_archived = arch\<rparr>" by (auto simp: context_from_entries_def split: sum.splits)
  with candidates_collected [OF c(1)] show "walk_inv env senv ops st ctx"
    "\<forall>e \<in> set (vc_roots ctx). entry_at ops st ctx (entry_key e) = Some e" "vc_visiting ctx = []"
    by (simp_all add: walk_inv_def candidates_keyed_def entry_at_def)
qed

lemma accp_no_cycle: "Wellfounded.accp r x \<Longrightarrow> \<not> r\<^sup>+\<^sup>+ x x"
proof (induction rule: accp.induct)
  case (accI x)
  show ?case
  proof
    assume "r\<^sup>+\<^sup>+ x x"
    then show False
    proof (cases rule: tranclp.cases)
      case r_into_trancl
      with accI.IH [of x] show ?thesis by blast
    next
      case (trancl_into_trancl y)
      then have "r\<^sup>+\<^sup>+ y y" by (meson tranclp.r_into_trancl tranclp_trans)
      with accI.IH [of y] trancl_into_trancl show ?thesis by blast
    qed
  qed
qed

text \<open>A registry reached by calls holds finitely many versions.\<close>

lemma finite_push: "finite (dom (rg_versions st)) \<Longrightarrow> finite (dom (rg_versions (snd (push_version scope kind rid hash schema v bytes now m st))))"
  by (simp add: push_version_def upsert_resource_state_def Let_def)

lemma finite_publish_all: "publish_all now scope prepared entries st = (entries', st') \<Longrightarrow> finite (dom (rg_versions st)) \<Longrightarrow>
    finite (dom (rg_versions st'))"
proof (induction now scope prepared entries st rule: publish_all.induct)
  case (2 now scope r hash bytes prepared entries st)
  obtain rec st1 where one: "publish_prepared now scope r hash bytes st = (rec, st1)"
    by (cases "publish_prepared now scope r hash bytes st")
  have "finite (dom (rg_versions (snd (publish_prepared now scope r hash bytes st))))"
    using finite_push [OF 2(3)] 2(3) by (auto simp: publish_prepared_def Let_def split: option.split)
  with 2(1) [OF one [symmetric] refl] 2(2) one show ?case by simp
qed simp

lemma finite_purge: "finite (dom (rg_versions st)) \<Longrightarrow> finite (dom (rg_versions (purge_delete scope plan st)))"
  unfolding purge_delete_def
proof (induction plan arbitrary: st)
  case (Cons v plan)
  have "finite (dom (rg_versions (purge_version scope v st)))"
    using Cons.prems by (simp add: purge_version_def split: option.split)
  from Cons.IH [OF this] show ?case by simp
qed simp

lemma finite_publish_resources:
  "finite (dom (rg_versions st)) \<Longrightarrow>
   finite (dom (rg_versions (snd (reg_publish_resources env now scope pid rs srcs by_whom m st))))"
  using finite_publish_all
  by (auto simp: reg_publish_resources_def add_publication_def Let_def split: sum.split prod.split)

lemma finite_run:
  "finite (dom (rg_versions st)) \<Longrightarrow> finite (dom (rg_versions (registry_apply env call st)))"
  "finite (dom (rg_versions st)) \<Longrightarrow> finite (dom (rg_versions (registry_run env calls st)))"
proof (induction env call st and env calls st rule: registry_apply_registry_run.induct)
  case (8 env ord policy now scope dry calls st)
  then show ?case by (simp add: reg_purge_def Let_def finite_purge)
qed (simp_all add: finite_push finite_publish_resources
  reg_publish_resource_def reg_rollback_resource_def reg_archive_resource_def reg_unarchive_resource_def
  reg_create_publication_def add_publication_def rollback_publication_def case_prod_unfold Let_def
  split: sum.split option.split)

lemma finite_stored:
  assumes "finite (dom (rg_versions st))"
  shows "finite (stored_refs (memory_registry env now) scope st)"
proof (rule finite_subset)
  let ?ref = "\<lambda>((s, kind, rid), v). \<lparr>vr_kind = kind, vr_id = rid, vr_version = v\<rparr>"
  show "stored_refs (memory_registry env now) scope st \<subseteq>
      ?ref ` (\<Union>key \<in> dom (rg_versions st). Pair key ` rc_version ` set (records_of st key))"
  proof
    fix v
    assume "v \<in> stored_refs (memory_registry env now) scope st"
    then obtain rec where rec: "find_version (vr_version v) (records_of st (scope, vr_kind v, vr_id v)) = Some rec"
      by (auto simp: stored_refs_def reg_get_records)
    then have "rec \<in> set (records_of st (scope, vr_kind v, vr_id v))" "rc_version rec = vr_version v"
      by (auto simp: find_version_def find_Some_iff)
    moreover from this have "(scope, vr_kind v, vr_id v) \<in> dom (rg_versions st)"
      by (cases "rg_versions st (scope, vr_kind v, vr_id v)") (auto simp: records_of_def)
    ultimately have "((scope, vr_kind v, vr_id v), vr_version v) \<in>
        (\<Union>key \<in> dom (rg_versions st). Pair key ` rc_version ` set (records_of st key))"
      by (intro UN_I [of "(scope, vr_kind v, vr_id v)"]) (simp_all flip: \<open>rc_version rec = vr_version v\<close>)
    then show "v \<in> ?ref ` (\<Union>key \<in> dom (rg_versions st). Pair key ` rc_version ` set (records_of st key))"
      by (rule image_eqI [rotated]) simp
  qed
  show "finite (?ref ` (\<Union>key \<in> dom (rg_versions st). Pair key ` rc_version ` set (records_of st key)))"
    using assms by auto
qed

text \<open>C32: whatever the references of a graph are, its validation ends: in a registry reached by any calls
  it returns as soon as its fuel exceeds the number of versions stored in the scope, and more fuel
  never changes what it returns.\<close>

theorem graph_validation_terminates:
  assumes "st = registry_run env calls registry_new"
    and fuel: "\<And>ctx. root_context (memory_registry env now) root st = Inr ctx \<Longrightarrow>
      card (stored_refs (memory_registry env now) (vc_scope ctx) st) < fuel"
  shows "\<exists>result. \<forall>fuel' \<ge> fuel. validate_graph env senv (memory_registry env now) fuel' root st = Some result"
proof (cases "root_context (memory_registry env now) root st")
  case (Inl err)
  then show ?thesis by (simp add: validate_graph_def)
next
  case (Inr ctx)
  have "finite (dom (rg_versions st))" using finite_run(2) [of registry_new env calls] assms(1) by (simp add: registry_new_def)
  then have "finite (stored_refs (memory_registry env now) (vc_scope ctx) st)" by (rule finite_stored)
  then have "validate_entries env senv (memory_registry env now) st fuel ctx (vc_roots ctx) \<noteq> None"
    using fuel [OF Inr] root_context_ok(3) [OF Inr] by (intro walk_returns [THEN conjunct2]) simp_all
  then obtain res where "validate_entries env senv (memory_registry env now) st fuel ctx (vc_roots ctx) = Some res" by blast
  from walk_mono(2) [OF this] show ?thesis by (cases res) (simp_all add: validate_graph_def Inr)
qed

text \<open>C33: a validated graph is closed, verified and free of cycles: the report has one entry per resource
  and contains the roots; the record of every entry is stored, its bytes hash to the hash the entry
  pins, its references are entries of the report, and no chain of references leads back to it.\<close>

theorem validated_graph_is_closed:
  assumes "validate_graph env senv ops fuel root st = Some (Inr report)"
  shows "\<exists>ctx. root_context ops root st = Inr ctx \<and> set (vc_roots ctx) \<subseteq> set report \<and> distinct (map entry_key report) \<and>
    (\<forall>e \<in> set report. \<exists>rec deps.
       ro_get ops (vc_scope ctx) (pe_kind e) (pe_id e) (pe_version e) st = Inr (Some rec) \<and>
       content_digest env (rc_bytes rec) = pe_content_hash e \<and>
       dependencies_for_record senv ops ctx e rec st = Inr deps \<and> set deps \<subseteq> set report \<and>
       \<not> (depends env senv ops st ctx)\<^sup>+\<^sup>+ e e)"
proof -
  obtain ctx ctx' where ctx: "root_context ops root st = Inr ctx"
    and walk: "validate_entries env senv ops st fuel ctx (vc_roots ctx) = Some (Inr ctx')" and report: "report = map snd (vc_accepted ctx')"
    using assms by (auto simp: validate_graph_def into_report_def split: sum.splits option.splits)
  note root = root_context_ok [OF ctx]
  from walk_sound(2) [OF walk root(1) root(2)] have inv: "walk_inv env senv ops st ctx'"
    and roots: "\<forall>e \<in> set (vc_roots ctx). map_of (vc_accepted ctx') (entry_key e) = Some e" by simp_all
  have bt: "bt_ok (vc_accepted ctx')" using inv by (simp add: walk_inv_def)
  have frame: "vframe ctx' = vframe ctx" using walk_keeps(2) [OF walk] by simp
  have member: "e \<in> set report \<longleftrightarrow> map_of (vc_accepted ctx') (entry_key e) = Some e" for e
    using walk_invD(1) [OF inv] bt_values [OF bt, of e] by (auto simp: report)
  have "\<forall>x \<in> set (vc_accepted ctx'). fst x = entry_key (snd x)"
    using walk_invD(1) [OF inv] bt_entries [OF bt] by (metis prod.collapse)
  then have "map fst (vc_accepted ctx') = map entry_key report" by (simp add: report)
  then have "distinct (map entry_key report)" using bt_ok_distinct [OF bt] by simp
  moreover have "\<exists>rec deps. ro_get ops (vc_scope ctx) (pe_kind e) (pe_id e) (pe_version e) st = Inr (Some rec) \<and>
       content_digest env (rc_bytes rec) = pe_content_hash e \<and>
       dependencies_for_record senv ops ctx e rec st = Inr deps \<and> set deps \<subseteq> set report \<and>
       \<not> (depends env senv ops st ctx)\<^sup>+\<^sup>+ e e" if e: "e \<in> set report" for e
  proof -
    note e = e [unfolded member]
    from walk_invD(4) [OF inv e] obtain ds where ds: "dependencies_of env senv ops st ctx e = Inr ds"
      "\<forall>d \<in> set ds. map_of (vc_accepted ctx') (entry_key d) = Some d" unfolding frame_cong [OF frame] by blast
    then obtain rec where rec: "validate_stored_entry env ops (vc_scope ctx) e (vc_reject_archived ctx) st = Inr rec"
      "dependencies_for_record senv ops ctx e rec st = Inr ds" by (auto simp: dependencies_of_def split: sum.splits)
    then have "ro_get ops (vc_scope ctx) (pe_kind e) (pe_id e) (pe_version e) st = Inr (Some rec)"
      "content_digest env (rc_bytes rec) = pe_content_hash e"
      by (auto simp: validate_stored_entry_def load_graph_record_def verify_content_hash_def Let_def
          split: sum.splits option.splits if_splits)
    moreover have "\<not> (depends env senv ops st ctx)\<^sup>+\<^sup>+ e e"
      using accp_no_cycle [OF walk_invD(3) [OF inv e]] unfolding frame_cong [OF frame] .
    ultimately show ?thesis using rec(2) ds(2) member by blast
  qed
  ultimately show ?thesis using ctx roots member by blast
qed

section \<open>Examples\<close>

text \<open>Models are encoded as the id of their provider; nothing else decodes.\<close>

definition ex_spec_env :: spec_env where
  "ex_spec_env = \<lparr>agent_of_json = (\<lambda>_. Inl ''agent''),
     model_of_json = (\<lambda>v. case v of JString s \<Rightarrow> Inr \<lparr>mr_id = ''m'', mr_provider_id = s\<rparr> | _ \<Rightarrow> Inl ''model''),
     pool_of_json = (\<lambda>_. Inl ''pool'')\<rparr>"

definition ex_graph_calls :: "registry_call list" where
  "ex_graph_calls = [PublishResource 7 ''s'' ''provider'' ''p'' JNull 1 JNull,
     PublishResource 8 ''s'' ''model'' ''m'' (JString ''p'') 1 JNull]"

definition ex_graph :: registry_store where
  "ex_graph = registry_run ex_registry_env ex_graph_calls registry_new"

lemma graph_validation_terminates_witness:
  "let ops = memory_registry ex_registry_env 9 in
   \<exists>result. \<forall>fuel \<ge> Suc (card (stored_refs ops ''s'' ex_graph)).
     validate_graph ex_registry_env ex_spec_env ops fuel (ExactVersion ''s'' ''model'' ''m'' 1) ex_graph = Some result"
  unfolding Let_def
  by (rule graph_validation_terminates [OF ex_graph_def])
    (auto simp: root_context_def context_from_entries_def split: sum.splits)

lemma validated_graph_is_closed_witness:
  "\<exists>report. validate_graph ex_registry_env ex_spec_env (memory_registry ex_registry_env 9) 5
      (ExactVersion ''s'' ''model'' ''m'' 1) ex_graph = Some (Inr report) \<and> length report = 2 \<and> distinct (map entry_key report)"
proof -
  let ?validated = "validate_graph ex_registry_env ex_spec_env (memory_registry ex_registry_env 9) 5
      (ExactVersion ''s'' ''model'' ''m'' 1) ex_graph"
  have "case ?validated of Some (Inr report) \<Rightarrow> length report = 2 | _ \<Rightarrow> False" by code_simp
  then obtain report where "?validated = Some (Inr report)" "length report = 2"
    by (auto split: option.splits sum.splits)
  with validated_graph_is_closed [OF this(1)] show ?thesis by blast
qed

declare split_paired_All [simp] split_paired_Ex [simp]

end
