(* ===== verification/Message.thy ===== *)
theory Message
imports Dispatch Tool_Pattern
begin

text \<open>
  The messages of a thread (\<^verbatim>\<open>remo-runtime-contract/src/contract/message.rs\<close>): the record of a message
  in the log of its thread, the views that resuming a run reads, and what may be appended to a log
  (\<^verbatim>\<open>contract/storage/message_append.rs\<close>, \<^verbatim>\<open>remo-stores/src/message_validation.rs\<close>).

  A generated message id is an argument. Sequence numbers are 64-bit words; the length of a list of
  messages is converted to one as the code does.
\<close>

section \<open>Messages\<close>

datatype media_source = SourceBase64 string string | SourceUrl string

datatype content_block =
    TextBlock string
  | ImageBlock media_source
  | DocumentBlock media_source "string option"
  | AudioBlock media_source
  | VideoBlock media_source
  | ToolUseBlock string string json
  | ToolResultBlock string "content_block list"
  | ThinkingBlock string

definition extract_text :: "content_block list \<Rightarrow> string" where
  "extract_text blocks = concat (List.map_filter (\<lambda>b. case b of TextBlock t \<Rightarrow> Some t | _ \<Rightarrow> None) blocks)"

datatype message_role = RoleSystem | RoleUser | RoleAssistant | RoleTool

datatype message_visibility = VisibleAll | VisibleInternal

record compaction_mark =
  cm_from_seq :: u64
  cm_to_seq :: u64

record message_metadata =
  md_run_id :: "string option"
  md_step_index :: "u32 option"
  md_compaction :: "compaction_mark option"

record tool_call =
  call_id :: string
  call_name :: string
  call_arguments :: json

record message =
  msg_id :: "string option"
  msg_role :: message_role
  msg_content :: "content_block list"
  msg_tool_calls :: "tool_call list option"
  msg_tool_call_id :: "string option"
  msg_visibility :: message_visibility
  msg_metadata :: "message_metadata option"

record message_record =
  mr_message_id :: string
  mr_thread_id :: string
  mr_seq :: u64
  mr_message :: message
  mr_produced_by_run_id :: "string option"
  mr_step_index :: "u32 option"
  mr_tool_call_id :: "string option"
  mr_created_at :: "u64 option"
  mr_compaction :: "compaction_mark option"

definition message_user :: "string \<Rightarrow> string \<Rightarrow> message" where
  "message_user gen t = \<lparr>msg_id = Some gen, msg_role = RoleUser, msg_content = [TextBlock t],
     msg_tool_calls = None, msg_tool_call_id = None, msg_visibility = VisibleAll, msg_metadata = None\<rparr>"

definition message_assistant_with_tool_calls :: "string \<Rightarrow> string \<Rightarrow> tool_call list \<Rightarrow> message" where
  "message_assistant_with_tool_calls gen t calls = \<lparr>msg_id = Some gen, msg_role = RoleAssistant,
     msg_content = [TextBlock t], msg_tool_calls = (if calls = [] then None else Some calls),
     msg_tool_call_id = None, msg_visibility = VisibleAll, msg_metadata = None\<rparr>"

definition message_tool :: "string \<Rightarrow> string \<Rightarrow> string \<Rightarrow> message" where
  "message_tool gen cid t = \<lparr>msg_id = Some gen, msg_role = RoleTool, msg_content = [TextBlock t],
     msg_tool_calls = None, msg_tool_call_id = Some cid, msg_visibility = VisibleAll,
     msg_metadata = None\<rparr>"

definition is_internal_tool_result :: "message \<Rightarrow> bool" where
  "is_internal_tool_result m \<longleftrightarrow> msg_role m = RoleTool \<and> msg_visibility m = VisibleInternal"

definition produced_by_run_id :: "message \<Rightarrow> string option" where
  "produced_by_run_id m = Option.bind (msg_metadata m) md_run_id"

definition mark_produced_by :: "string \<Rightarrow> u32 option \<Rightarrow> message \<Rightarrow> message" where
  "mark_produced_by run step m =
     (let md = (case msg_metadata m of
                  None \<Rightarrow> \<lparr>md_run_id = None, md_step_index = None, md_compaction = None\<rparr>
                | Some md \<Rightarrow> md);
          md1 = (if md_run_id md = None then md\<lparr>md_run_id := Some run\<rparr> else md);
          md2 = (if md_step_index md1 = None then md1\<lparr>md_step_index := step\<rparr> else md1)
      in m\<lparr>msg_metadata := Some md2\<rparr>)"

text \<open>\<^verbatim>\<open>MessageRecord::from_message\<close>; the generated id is used when the message has none.\<close>

definition record_from_message :: "string \<Rightarrow> string \<Rightarrow> u64 \<Rightarrow> message \<Rightarrow> message_record" where
  "record_from_message gen tid s m =
     (let mid = (case msg_id m of None \<Rightarrow> gen | Some i \<Rightarrow> i);
          m1 = (if msg_id m = None then m\<lparr>msg_id := Some mid\<rparr> else m)
      in \<lparr>mr_message_id = mid, mr_thread_id = tid, mr_seq = s, mr_message = m1,
          mr_produced_by_run_id = Option.bind (msg_metadata m1) md_run_id,
          mr_step_index = Option.bind (msg_metadata m1) md_step_index,
          mr_tool_call_id = msg_tool_call_id m1,
          mr_created_at = None,
          mr_compaction = Option.bind (msg_metadata m1) md_compaction\<rparr>)"

text \<open>\<^verbatim>\<open>enumerate\<close> with sequence numbers from \<open>start\<close>; \<open>gens\<close> yields the generated ids.\<close>

definition records_from :: "(nat \<Rightarrow> string) \<Rightarrow> string \<Rightarrow> u64 \<Rightarrow> message list \<Rightarrow> message_record list" where
  "records_from gens tid start ms =
     map (\<lambda>(i, m). record_from_message (gens i) tid (start + of_nat i) m) (enumerate 0 ms)"

section \<open>The effective view\<close>

type_synonym interval = "u64 \<times> u64 \<times> message"

definition interval_of :: "message_record \<Rightarrow> interval option" where
  "interval_of r = map_option (\<lambda>c. (cm_from_seq c, cm_to_seq c, mr_message r)) (mr_compaction r)"

text \<open>The order of the candidates: by start, the widest first.\<close>

definition interval_key :: "interval \<Rightarrow> u64 \<times> u64" where
  "interval_key = (\<lambda>(a, b, _). (a, - 1 - b))"

definition dominated_by :: "interval list \<Rightarrow> interval \<Rightarrow> bool" where
  "dominated_by kept c = list_ex (\<lambda>k. fst k \<le> fst c \<and> fst (snd c) \<le> fst (snd k)) kept"

fun keep_undominated :: "interval list \<Rightarrow> interval list \<Rightarrow> interval list" where
  "keep_undominated kept [] = kept"
| "keep_undominated kept (c # cs) =
     keep_undominated (if dominated_by kept c then kept else kept @ [c]) cs"

definition winning_intervals :: "message_record list \<Rightarrow> interval list" where
  "winning_intervals rs =
     sort_key fst (keep_undominated [] (sort_key interval_key (List.map_filter interval_of rs)))"

definition covered_by :: "interval list \<Rightarrow> u64 \<Rightarrow> bool" where
  "covered_by ivs s = list_ex (\<lambda>(a, b, _). a \<le> s \<and> s \<le> b) ivs"

text \<open>
  The loop over the raw records with the iterator of the intervals: the summaries that start at or
  before a record are emitted ahead of it, and the remaining ones at the end.
\<close>

fun fold_view :: "interval list \<Rightarrow> interval list \<Rightarrow> message_record list \<Rightarrow> message list" where
  "fold_view ivs pending [] = map (snd \<circ> snd) pending"
| "fold_view ivs pending (r # rs) =
     map (snd \<circ> snd) (takeWhile (\<lambda>iv. fst iv \<le> mr_seq r) pending) @
     (if covered_by ivs (mr_seq r) then [] else [mr_message r]) @
     fold_view ivs (dropWhile (\<lambda>iv. fst iv \<le> mr_seq r) pending) rs"

definition effective_messages :: "message_record list \<Rightarrow> message list" where
  "effective_messages rs =
     (let summary_seqs = map mr_seq (filter (\<lambda>r. mr_compaction r \<noteq> None) rs);
          ivs = winning_intervals rs
      in fold_view ivs ivs (filter (\<lambda>r. mr_seq r \<notin> set summary_seqs) rs))"

section \<open>The view without unanswered tool calls\<close>

definition answered_calls :: "message_visibility \<Rightarrow> message list \<Rightarrow> string list" where
  "answered_calls v ms = List.map_filter
     (\<lambda>m. if msg_role m = RoleTool \<and> msg_visibility m = v then msg_tool_call_id m else None) ms"

definition strip_calls :: "(tool_call \<Rightarrow> bool) \<Rightarrow> message \<Rightarrow> message" where
  "strip_calls keep m =
     (if msg_role m \<noteq> RoleAssistant then m
      else case msg_tool_calls m of
          None \<Rightarrow> m
        | Some calls \<Rightarrow> (let cs = filter keep calls
                       in m\<lparr>msg_tool_calls := (if cs = [] then None else Some cs)\<rparr>))"

definition strip_unpaired_tool_calls_from_view :: "message list \<Rightarrow> message list" where
  "strip_unpaired_tool_calls_from_view ms =
     (let answered = answered_calls VisibleAll ms; retracted = answered_calls VisibleInternal ms;
          keep = (\<lambda>c. call_id c \<in> set answered \<and> call_id c \<notin> set retracted)
      in filter (\<lambda>m. msg_role m \<noteq> RoleTool \<or>
            (case msg_tool_call_id m of
               Some i \<Rightarrow> msg_visibility m = VisibleAll \<and> i \<notin> set retracted
             | None \<Rightarrow> True))
          (map (strip_calls keep) ms))"

definition effective_committed_view :: "(nat \<Rightarrow> string) \<Rightarrow> string \<Rightarrow> message list \<Rightarrow> message list" where
  "effective_committed_view gens tid committed =
     strip_unpaired_tool_calls_from_view (effective_messages (records_from gens tid 1 committed))"

section \<open>What may be appended\<close>

text \<open>A sequence of checks, each followed by \<^verbatim>\<open>?\<close>.\<close>

fun first_error :: "('e + unit) list \<Rightarrow> 'e + unit" where
  "first_error [] = Inr ()"
| "first_error (r # rs) = (case r of Inl e \<Rightarrow> Inl e | Inr _ \<Rightarrow> first_error rs)"

fun validate_tool_calls :: "string \<Rightarrow> string list \<Rightarrow> tool_call list \<Rightarrow> storage_error + unit" where
  "validate_tool_calls mid ids [] = Inr ()"
| "validate_tool_calls mid ids (c # cs) =
     (if is_blank (call_id c) then
        Inl (Validation (''assistant message '' @ quoted mid @ '' tool call id must not be empty''))
      else if is_blank (call_name c) then
        Inl (Validation (''assistant message '' @ quoted mid @ '' tool call name must not be empty''))
      else if call_id c \<in> set ids then
        Inl (Validation (''assistant message '' @ quoted mid @ '' contains duplicate tool call id '' @
               quoted (call_id c)))
      else validate_tool_calls mid (call_id c # ids) cs)"

definition validate_tool_call_id :: "string \<Rightarrow> message \<Rightarrow> storage_error + unit" where
  "validate_tool_call_id mid m =
     (if msg_role m = RoleTool then
        (case msg_tool_call_id m of
           None \<Rightarrow> Inl (Validation (''tool message '' @ quoted mid @ '' must carry tool_call_id''))
         | Some i \<Rightarrow> if is_blank i then
               Inl (Validation (''tool message '' @ quoted mid @ '' tool_call_id must not be empty''))
             else Inr ())
      else if msg_tool_call_id m \<noteq> None then
        Inl (Validation (''non-tool message '' @ quoted mid @ '' must not carry tool_call_id''))
      else Inr ())"

definition validate_message_shape :: "message \<Rightarrow> string \<Rightarrow> storage_error + unit" where
  "validate_message_shape m ctx =
     (case msg_id m of
        None \<Rightarrow> Inl (Validation (ctx @ '' message id must not be missing''))
      | Some mid \<Rightarrow>
          if is_blank mid then Inl (Validation (ctx @ '' message id must not be empty''))
          else (case validate_tool_call_id mid m of Inl e \<Rightarrow> Inl e | Inr _ \<Rightarrow>
            if msg_role m \<noteq> RoleAssistant \<and> msg_tool_calls m \<noteq> None then
              Inl (Validation (''non-assistant message '' @ quoted mid @ '' must not carry tool_calls''))
            else (case msg_tool_calls m of
                None \<Rightarrow> Inr ()
              | Some calls \<Rightarrow> validate_tool_calls mid [] calls)))"

definition validate_compaction_mark :: "string \<Rightarrow> compaction_mark \<Rightarrow> u64 \<Rightarrow> storage_error + unit" where
  "validate_compaction_mark mid mark summary_seq =
     (if cm_from_seq mark = 0 \<or> cm_from_seq mark > cm_to_seq mark then
        Inl (Validation (''compaction mark on message '' @ quoted mid @ '' must be 1-based and non-empty''))
      else if cm_to_seq mark \<ge> summary_seq then
        Inl (Validation (''compaction mark on summary message '' @ quoted mid @
               '' must not cover the summary seq '' @ show_nat (unat summary_seq)))
      else Inr ())"

text \<open>The message id exists after the check of the shape; the \<^verbatim>\<open>expect\<close> on it never panics.\<close>

definition message_key :: "message \<Rightarrow> string" where
  "message_key m = (case msg_id m of Some i \<Rightarrow> i | None \<Rightarrow> [])"

definition validate_message_for_append :: "message \<Rightarrow> u64 \<Rightarrow> storage_error + unit" where
  "validate_message_for_append m summary_seq =
     (case validate_message_shape m ''append delta'' of Inl e \<Rightarrow> Inl e | Inr _ \<Rightarrow>
      (case Option.bind (msg_metadata m) md_compaction of
         None \<Rightarrow> Inr ()
       | Some mark \<Rightarrow> validate_compaction_mark (message_key m) mark summary_seq))"

fun validate_delta :: "string list \<Rightarrow> string list \<Rightarrow> u64 \<Rightarrow> message list \<Rightarrow> storage_error + unit" where
  "validate_delta existing_ids delta_ids s [] = Inr ()"
| "validate_delta existing_ids delta_ids s (m # ms) =
     (case validate_message_for_append m s of Inl e \<Rightarrow> Inl e | Inr _ \<Rightarrow>
      if message_key m \<in> set existing_ids then
        Inl (Validation (''append delta contains already committed message id '' @ quoted (message_key m)))
      else if message_key m \<in> set delta_ids then
        Inl (Validation (''append delta contains duplicate message id '' @ quoted (message_key m)))
      else validate_delta existing_ids (message_key m # delta_ids) (s + 1) ms)"

definition validate_append_only_delta :: "message list \<Rightarrow> message list \<Rightarrow> storage_error + unit" where
  "validate_append_only_delta existing delta =
     validate_delta (List.map_filter msg_id existing) [] (of_nat (length existing) + 1) delta"

definition merge_checkpoint_append_messages :: "message list \<Rightarrow> message list \<Rightarrow>
    (storage_error + unit) \<times> message list" where
  "merge_checkpoint_append_messages existing delta =
     (case validate_append_only_delta existing delta of
        Inl e \<Rightarrow> (Inl e, existing)
      | Inr _ \<Rightarrow> (Inr (), existing @ delta))"

definition validate_committed_messages :: "message list \<Rightarrow> storage_error + unit" where
  "validate_committed_messages ms = validate_append_only_delta [] ms"

fun validate_records_at :: "string \<Rightarrow> u64 \<Rightarrow> message_record list \<Rightarrow> storage_error + unit" where
  "validate_records_at tid expected [] = Inr ()"
| "validate_records_at tid expected (r # rs) =
     (if mr_thread_id r \<noteq> tid then
        Inl (Validation (''committed message '' @ quoted (mr_message_id r) @ '' belongs to thread '' @
               quoted (mr_thread_id r) @ '', expected '' @ quoted tid))
      else if mr_seq r \<noteq> expected then
        Inl (Serialization (''committed message seq must be continuous: expected '' @
               show_nat (unat expected) @ '', got '' @ show_nat (unat (mr_seq r))))
      else case msg_id (mr_message r) of
          Some i \<Rightarrow>
            if i = mr_message_id r then validate_records_at tid (expected + 1) rs
            else Inl (Validation (''committed message record '' @ quoted (mr_message_id r) @
                   '' cannot carry message id '' @ quoted i))
        | None \<Rightarrow> Inl (Validation (''committed message record '' @ quoted (mr_message_id r) @
                   '' must carry message id'')))"

definition validate_committed_message_records :: "string \<Rightarrow> message_record list \<Rightarrow> storage_error + unit" where
  "validate_committed_message_records tid rs =
     (case validate_records_at tid 1 rs of Inl e \<Rightarrow> Inl e | Inr _ \<Rightarrow>
      validate_committed_messages (map mr_message rs))"

end
