(* ===== verification/Run_Record.thy ===== *)
theory Run_Record
imports Message Agent_Event State_Engine
begin

text \<open>
  The durable record of a run (\<^verbatim>\<open>remo-runtime-contract/src/contract/storage.rs\<close>), the activation it
  carries (\<^verbatim>\<open>contract/run.rs\<close>) and the thread it belongs to (\<^verbatim>\<open>thread.rs\<close>), with what each of them
  has to satisfy before it is persisted.

  A floating-point number is its text. The metadata of a tool descriptor and the custom metadata of a
  thread are never iterated and are plain maps.
\<close>

section \<open>Validation of fields\<close>

definition require_optional_non_empty :: "string \<Rightarrow> string option \<Rightarrow> storage_error + unit" where
  "require_optional_non_empty field v =
     (case v of None \<Rightarrow> Inr () | Some s \<Rightarrow> require_non_empty field s)"

definition validate_message_id_list :: "string \<Rightarrow> string list \<Rightarrow> storage_error + unit" where
  "validate_message_id_list field ids =
     first_error (map (\<lambda>(i, s). require_non_empty (field @ ''['' @ show_nat i @ '']'') s) (enumerate 0 ids))"

record seq_range =
  range_from :: u64
  range_to :: u64

definition seq_range_new :: "u64 \<Rightarrow> u64 \<Rightarrow> seq_range option" where
  "seq_range_new a b = (if a > 0 \<and> a \<le> b then Some \<lparr>range_from = a, range_to = b\<rparr> else None)"

definition seq_range_len :: "seq_range \<Rightarrow> u64" where
  "seq_range_len r = range_to r - range_from r + 1"

definition validate_seq_range :: "string \<Rightarrow> seq_range \<Rightarrow> storage_error + unit" where
  "validate_seq_range field r =
     (if range_from r = 0 \<or> range_from r > range_to r then
        Inl (Validation (field @ '' range must be non-empty and 1-based''))
      else Inr ())"

definition check_range :: "string \<Rightarrow> seq_range option \<Rightarrow> storage_error + unit" where
  "check_range field r = (case r of None \<Rightarrow> Inr () | Some x \<Rightarrow> validate_seq_range field x)"

section \<open>Activations\<close>

datatype run_kind = NewIntent | HitlResume string | ContinuationFromRun string

fun validate_run_kind :: "run_kind \<Rightarrow> storage_error + unit" where
  "validate_run_kind NewIntent = Inr ()"
| "validate_run_kind (HitlResume r) = require_non_empty ''hitl resume run_id'' r"
| "validate_run_kind (ContinuationFromRun r) = require_non_empty ''continuation run_id'' r"

record run_intent =
  in_agent_id :: "string option"
  in_thread_id :: string
  in_kind :: run_kind

definition validate_run_intent :: "run_intent \<Rightarrow> storage_error + unit" where
  "validate_run_intent i = first_error
     [require_non_empty ''run intent thread_id'' (in_thread_id i),
      require_optional_non_empty ''run intent agent_id'' (in_agent_id i),
      validate_run_kind (in_kind i)]"

text \<open>\<^verbatim>\<open>RunInputSnapshot\<close> and \<^verbatim>\<open>RunMessageInput\<close> have the same fields.\<close>

record run_message_input =
  ri_thread_id :: string
  ri_range :: "seq_range option"
  ri_trigger_message_ids :: "string list"
  ri_selected_message_ids :: "string list"
  ri_context_policy :: "string option"
  ri_compacted_snapshot_id :: "string option"

definition validate_run_input_snapshot :: "run_message_input \<Rightarrow> storage_error + unit" where
  "validate_run_input_snapshot i = first_error
     [require_non_empty ''run input snapshot thread_id'' (ri_thread_id i),
      check_range ''run input snapshot'' (ri_range i),
      validate_message_id_list ''run input snapshot trigger_message_ids'' (ri_trigger_message_ids i),
      validate_message_id_list ''run input snapshot selected_message_ids'' (ri_selected_message_ids i),
      require_optional_non_empty ''run input snapshot context_policy'' (ri_context_policy i),
      require_optional_non_empty ''run input snapshot compacted_snapshot_id'' (ri_compacted_snapshot_id i)]"

datatype reasoning_effort = NoEffort | LowEffort | MediumEffort | HighEffort | MaxEffort | BudgetEffort u32

record inference_override =
  io_upstream_model :: "string option"
  io_temperature :: "string option"
  io_max_tokens :: "u32 option"
  io_top_p :: "string option"
  io_reasoning_effort :: "reasoning_effort option"

record tool_descriptor =
  td_id :: string
  td_name :: string
  td_description :: string
  td_parameters :: json
  td_category :: "string option"
  td_metadata :: "string \<rightharpoonup> json"

record run_options =
  opt_overrides :: "inference_override option"
  opt_frontend_tools :: "tool_descriptor list"

record run_trace_context =
  rt_parent_run_id :: "string option"
  rt_parent_thread_id :: "string option"
  rt_origin :: run_origin
  rt_adapter :: adapter_kind
  rt_run_mode :: run_mode
  rt_dispatch_id :: "string option"
  rt_session_id :: "string option"
  rt_transport_request_id :: "string option"
  rt_correlation_id :: "string option"

definition validate_run_trace :: "run_trace_context \<Rightarrow> storage_error + unit" where
  "validate_run_trace c = first_error
     [require_optional_non_empty ''run trace parent_run_id'' (rt_parent_run_id c),
      require_optional_non_empty ''run trace parent_thread_id'' (rt_parent_thread_id c),
      require_optional_non_empty ''run trace dispatch_id'' (rt_dispatch_id c),
      require_optional_non_empty ''run trace session_id'' (rt_session_id c),
      require_optional_non_empty ''run trace transport_request_id'' (rt_transport_request_id c),
      require_optional_non_empty ''run trace correlation_id'' (rt_correlation_id c)]"

record run_activation =
  act_intent :: run_intent
  act_input :: run_message_input
  act_options :: run_options
  act_trace :: run_trace_context
  act_seeded_decisions :: "(string \<times> json tool_call_resume) list"
  act_resolution_id :: "string option"

definition validate_run_activation :: "run_activation \<Rightarrow> storage_error + unit" where
  "validate_run_activation a = first_error
     [validate_run_intent (act_intent a), validate_run_input_snapshot (act_input a),
      validate_run_trace (act_trace a),
      (if in_thread_id (act_intent a) \<noteq> ri_thread_id (act_input a) then
         Inl (Validation (''run activation intent.thread_id '' @ quoted (in_thread_id (act_intent a)) @
                '' must match input.thread_id '' @ quoted (ri_thread_id (act_input a))))
       else Inr ()),
      first_error (map (\<lambda>(i, (c, _)). require_non_empty
        (''run activation seeded_decisions['' @ show_nat i @ ''].call_id'') c)
        (enumerate 0 (act_seeded_decisions a))),
      require_optional_non_empty ''run activation resolution_id'' (act_resolution_id a)]"

section \<open>Run records\<close>

datatype run_request_origin = RequestUser | RequestMcp | RequestA2A | RequestInternal

record run_resume_decision =
  rd_call_id :: string
  rd_resume :: "json tool_call_resume"

record run_request =
  rq_origin :: run_request_origin
  rq_sender_id :: "string option"
  rq_input_message_ids :: "string list"
  rq_input_message_count :: u64
  rq_request_extras :: "json option"
  rq_decisions :: "run_resume_decision list"
  rq_frontend_tools :: "tool_descriptor list"
  rq_parent_thread_id :: "string option"
  rq_transport_request_id :: "string option"

record run_message_output =
  ro_thread_id :: string
  ro_range :: "seq_range option"
  ro_message_ids :: "string list"

datatype waiting_reason =
  WaitToolPermission | WaitUserInput | WaitBackgroundTasks | WaitExternalEvent | WaitRateLimit | WaitManualPause

record waiting_ticket =
  wt_ticket_id :: string
  wt_tool_call_id :: string
  wt_tool_name :: string
  wt_arguments :: json
  wt_resume_mode :: tool_call_resume_mode
  wt_reason :: "string option"
  wt_updated_at :: u64

record waiting_state =
  ws_reason :: waiting_reason
  ws_ticket_ids :: "string list"
  ws_tickets :: "waiting_ticket list"
  ws_since_dispatch_id :: "string option"
  ws_message :: "string option"

record run_outcome =
  out_termination_reason :: termination_reason
  out_final_output :: "string option"
  out_error_payload :: "json option"

record run_record =
  run_key :: string
  run_thread_id :: string
  run_agent_id :: string
  run_parent_run_id :: "string option"
  run_resolution_id :: "string option"
  run_activation :: "run_activation option"
  run_request :: "run_request option"
  run_input :: "run_message_input option"
  run_output :: "run_message_output option"
  run_state_status :: run_status
  run_termination_reason :: "termination_reason option"
  run_final_output :: "string option"
  run_error_payload :: "json option"
  run_dispatch_ref :: "string option"
  run_session_id :: "string option"
  run_transport_request_id :: "string option"
  run_waiting :: "waiting_state option"
  run_outcome :: "run_outcome option"
  run_created_at :: u64
  run_started_at :: "u64 option"
  run_finished_at :: "u64 option"
  run_updated_at :: u64
  run_steps :: nat
  run_input_tokens :: u64
  run_output_tokens :: u64
  run_state :: "persisted_state option"

definition validate_run_message_input :: "string \<Rightarrow> run_message_input \<Rightarrow> storage_error + unit" where
  "validate_run_message_input tid i =
     (if ri_thread_id i \<noteq> tid then
        Inl (Validation (''run input thread_id '' @ quoted (ri_thread_id i) @
               '' must match run thread_id '' @ quoted tid))
      else check_range ''run input'' (ri_range i))"

definition validate_run_message_output :: "string \<Rightarrow> run_message_output \<Rightarrow> storage_error + unit" where
  "validate_run_message_output tid out =
     (if ro_thread_id out \<noteq> tid then
        Inl (Validation (''run output thread_id '' @ quoted (ro_thread_id out) @
               '' must match run thread_id '' @ quoted tid))
      else case ro_range out of
          None \<Rightarrow> Inr ()
        | Some r \<Rightarrow> first_error [validate_seq_range ''run output'' r,
            (if unat (seq_range_len r) \<noteq> length (ro_message_ids out) then
               Inl (Validation (''run output message_ids length '' @ show_nat (length (ro_message_ids out)) @
                      '' must match range length '' @ show_nat (unat (seq_range_len r))))
             else Inr ())])"

definition run_check :: "bool \<Rightarrow> string \<Rightarrow> run_record \<Rightarrow> string \<Rightarrow> storage_error + unit" where
  "run_check bad label r problem =
     (if bad then Inl (Validation (label @ '' run '' @ quoted (run_key r) @ problem)) else Inr ())"

fun validate_run_status :: "run_status \<Rightarrow> run_record \<Rightarrow> storage_error + unit" where
  "validate_run_status Created r = first_error
     [run_check (run_waiting r \<noteq> None) ''Created'' r '' must not carry waiting state'',
      run_check (run_outcome r \<noteq> None) ''Created'' r '' must not carry terminal outcome'',
      run_check (run_finished_at r \<noteq> None) ''Created'' r '' must not carry finished_at'']"
| "validate_run_status Running r = first_error
     [run_check (run_waiting r \<noteq> None) ''Running'' r '' must not carry waiting state'',
      run_check (run_outcome r \<noteq> None) ''Running'' r '' must not carry terminal outcome'',
      run_check (run_finished_at r \<noteq> None) ''Running'' r '' must not carry finished_at'']"
| "validate_run_status Waiting r = first_error
     [run_check (run_waiting r = None) ''waiting'' r '' must carry waiting state'',
      run_check (run_outcome r \<noteq> None) ''waiting'' r '' must not carry terminal outcome'',
      run_check (run_finished_at r \<noteq> None) ''waiting'' r '' must not carry finished_at'']"
| "validate_run_status Done r = first_error
     [run_check (run_waiting r \<noteq> None) ''done'' r '' must not carry waiting state'',
      run_check (run_finished_at r = None) ''done'' r '' must carry finished_at'',
      (case run_outcome r of
         None \<Rightarrow> Inr ()
       | Some outcome \<Rightarrow> first_error
           [run_check (run_termination_reason r \<notin> {None, Some (out_termination_reason outcome)}) ''done'' r
              '' termination_reason must match outcome.termination_reason'',
            run_check (run_final_output r \<notin> {None, out_final_output outcome}) ''done'' r
              '' final_output must match outcome.final_output'',
            run_check (run_error_payload r \<notin> {None, out_error_payload outcome}) ''done'' r
              '' error_payload must match outcome.error_payload''])]"

definition validate_run_record :: "run_record \<Rightarrow> storage_error + unit" where
  "validate_run_record r = first_error
     [require_non_empty ''run_id'' (run_key r),
      require_non_empty ''thread_id'' (run_thread_id r),
      require_non_empty ''agent_id'' (run_agent_id r),
      (case run_activation r of
         None \<Rightarrow> Inr ()
       | Some a \<Rightarrow> first_error [validate_run_activation a,
           (if in_thread_id (act_intent a) \<noteq> run_thread_id r then
              Inl (Validation (''run activation thread_id '' @ quoted (in_thread_id (act_intent a)) @
                     '' must match run thread_id '' @ quoted (run_thread_id r)))
            else Inr ())]),
      (case run_input r of None \<Rightarrow> Inr () | Some i \<Rightarrow> validate_run_message_input (run_thread_id r) i),
      (case run_output r of None \<Rightarrow> Inr () | Some out \<Rightarrow> validate_run_message_output (run_thread_id r) out),
      validate_run_status (run_state_status r) r]"

definition run_waiting_reason :: "run_record \<Rightarrow> waiting_reason option" where
  "run_waiting_reason r =
     (if run_state_status r \<noteq> Waiting then None else map_option ws_reason (run_waiting r))"

definition is_resumable_waiting :: "run_record \<Rightarrow> bool" where
  "is_resumable_waiting r \<longleftrightarrow> run_waiting_reason r \<noteq> None"

definition is_background_task_waiting :: "run_record \<Rightarrow> bool" where
  "is_background_task_waiting r \<longleftrightarrow> run_waiting_reason r = Some WaitBackgroundTasks"

section \<open>Threads\<close>

definition normalize_lineage_id :: "string option \<Rightarrow> string option" where
  "normalize_lineage_id v = Option.bind v (\<lambda>s. if trim s \<noteq> [] then Some (trim s) else None)"

record thread_metadata =
  tm_created_at :: "u64 option"
  tm_updated_at :: "u64 option"
  tm_title :: "string option"
  tm_custom :: "string \<rightharpoonup> json"

record thread =
  th_id :: string
  th_resource_id :: "string option"
  th_parent_thread_id :: "string option"
  th_metadata :: thread_metadata
  th_active_run_id :: "string option"
  th_open_run_id :: "string option"
  th_latest_run_id :: "string option"
  th_latest_run_updated_at :: "u64 option"

definition thread_with_id :: "string \<Rightarrow> thread" where
  "thread_with_id i = \<lparr>th_id = i, th_resource_id = None, th_parent_thread_id = None,
     th_metadata = \<lparr>tm_created_at = None, tm_updated_at = None, tm_title = None, tm_custom = Map.empty\<rparr>,
     th_active_run_id = None, th_open_run_id = None, th_latest_run_id = None,
     th_latest_run_updated_at = None\<rparr>"

definition with_parent_thread_id :: "string \<Rightarrow> thread \<Rightarrow> thread" where
  "with_parent_thread_id p t = t\<lparr>th_parent_thread_id := normalize_lineage_id (Some p)\<rparr>"

definition normalize_lineage :: "thread \<Rightarrow> thread" where
  "normalize_lineage t = t\<lparr>th_resource_id := normalize_lineage_id (th_resource_id t),
     th_parent_thread_id := normalize_lineage_id (th_parent_thread_id t)\<rparr>"

definition validate_thread :: "thread \<Rightarrow> storage_error + unit" where
  "validate_thread t = first_error
     [require_non_empty ''thread id'' (th_id t),
      require_optional_non_empty ''thread resource_id'' (th_resource_id t),
      require_optional_non_empty ''thread parent_thread_id'' (th_parent_thread_id t),
      require_optional_non_empty ''thread active_run_id'' (th_active_run_id t),
      require_optional_non_empty ''thread open_run_id'' (th_open_run_id t),
      require_optional_non_empty ''thread latest_run_id'' (th_latest_run_id t),
      (if normalize_lineage_id (th_parent_thread_id t) = Some (trim (th_id t)) then
         Inl (Validation (''thread '' @ quoted (th_id t) @ '' cannot parent itself''))
       else Inr ())]"

definition touch :: "u64 \<Rightarrow> thread \<Rightarrow> thread" where
  "touch now t = (let m = th_metadata t in t\<lparr>th_metadata :=
     m\<lparr>tm_created_at := (case tm_created_at m of None \<Rightarrow> Some now | Some c \<Rightarrow> Some c),
       tm_updated_at := Some now\<rparr>\<rparr>)"

definition clear_run_projection_if_matches :: "string \<Rightarrow> thread \<Rightarrow> thread" where
  "clear_run_projection_if_matches r t =
     (let t1 = (if th_active_run_id t = Some r then t\<lparr>th_active_run_id := None\<rparr> else t)
      in (if th_open_run_id t1 = Some r then t1\<lparr>th_open_run_id := None\<rparr> else t1))"

definition request_parent :: "run_record \<Rightarrow> string option" where
  "request_parent r = Option.bind (run_request r) rq_parent_thread_id"

definition apply_run_projection :: "run_record \<Rightarrow> thread \<Rightarrow> thread" where
  "apply_run_projection r t =
     (if \<not> (case th_latest_run_updated_at t of None \<Rightarrow> True | Some l \<Rightarrow> l \<le> run_updated_at r) then
        (if run_state_status r = Done then clear_run_projection_if_matches (run_key r) t else t)
      else
        let t1 = t\<lparr>th_latest_run_id := Some (run_key r), th_latest_run_updated_at := Some (run_updated_at r)\<rparr>;
            t2 = (if th_parent_thread_id t1 = None
                  then t1\<lparr>th_parent_thread_id := normalize_lineage_id (request_parent r)\<rparr> else t1)
        in case run_state_status r of
             Created \<Rightarrow> t2\<lparr>th_active_run_id := None, th_open_run_id := Some (run_key r)\<rparr>
           | Running \<Rightarrow> t2\<lparr>th_active_run_id := Some (run_key r), th_open_run_id := Some (run_key r)\<rparr>
           | Waiting \<Rightarrow> t2\<lparr>th_active_run_id := None, th_open_run_id := Some (run_key r)\<rparr>
           | Done \<Rightarrow> clear_run_projection_if_matches (run_key r) t2)"

end
