(* ===== verification/Thread_Query.thy ===== *)
theory Thread_Query
imports Run_Record
begin

text \<open>
  Queries over threads, messages and runs (\<^verbatim>\<open>remo-server-contract/src/contract/storage.rs\<close>): their
  filters, their cursors and their pages.

  The text of a cursor token (JSON in URL-safe base64) is made and read by the two functions of
  \<open>cursor_codec\<close>, one such pair for each kind of token.
\<close>

record 'token cursor_codec =
  encode_token :: "'token \<Rightarrow> string"
  decode_token :: "string \<Rightarrow> 'token option"

definition encode_cursor_token :: "'t cursor_codec \<Rightarrow> string \<Rightarrow> 't \<Rightarrow> string" where
  "encode_cursor_token codec prefix tok = prefix @ encode_token codec tok"

definition decode_cursor_token :: "'t cursor_codec \<Rightarrow> string \<Rightarrow> string \<Rightarrow> string + 't" where
  "decode_cursor_token codec prefix cursor =
     (case strip_prefix cursor prefix of
        None \<Rightarrow> Inl ''cursor must be a valid pagination token''
      | Some payload \<Rightarrow> (case decode_token codec payload of
            None \<Rightarrow> Inl ''cursor must be a valid pagination token''
          | Some tok \<Rightarrow> Inr tok))"

text \<open>\<^verbatim>\<open>str::parse::<usize>\<close>: an optional plus sign and digits, of a value that fits.\<close>

definition parse_offset :: "string \<Rightarrow> nat option" where
  "parse_offset s =
     (let ds = (case s of c # cs \<Rightarrow> if c = CHR ''+'' then cs else s | [] \<Rightarrow> s)
      in if ds \<noteq> [] \<and> list_all is_ascii_digit ds \<and> read_nat ds < 2 ^ 64 then Some (read_nat ds) else None)"

section \<open>Messages\<close>

datatype message_order = OrderAsc | OrderDesc

datatype visibility_filter = AnyVisibility | ExternalOnly | InternalOnly

record message_query =
  mq_offset :: nat
  mq_limit :: nat
  mq_after :: "u64 option"
  mq_before :: "u64 option"
  mq_order :: message_order
  mq_visibility :: visibility_filter
  mq_run_id :: "string option"

definition default_message_query :: message_query where
  "default_message_query = \<lparr>mq_offset = 0, mq_limit = 50, mq_after = None, mq_before = None,
     mq_order = OrderAsc, mq_visibility = AnyVisibility, mq_run_id = None\<rparr>"

definition normalized_message_query :: "message_query \<Rightarrow> message_query" where
  "normalized_message_query q = q\<lparr>mq_limit := min (mq_limit q) 200\<rparr>"

record message_cursor_token =
  mt_offset :: nat
  mt_after :: "u64 option"
  mt_before :: "u64 option"
  mt_order :: message_order
  mt_visibility :: visibility_filter
  mt_run_id :: "string option"

definition message_encode_cursor :: "message_cursor_token cursor_codec \<Rightarrow> message_query \<Rightarrow> nat \<Rightarrow> string" where
  "message_encode_cursor codec q offset =
     (let n = normalized_message_query q in
      encode_cursor_token codec ''msg_'' \<lparr>mt_offset = offset, mt_after = mq_after n,
        mt_before = mq_before n, mt_order = mq_order n, mt_visibility = mq_visibility n,
        mt_run_id = mq_run_id n\<rparr>)"

definition message_decode_cursor :: "message_cursor_token cursor_codec \<Rightarrow> message_query \<Rightarrow> string \<Rightarrow> string + nat" where
  "message_decode_cursor codec q cursor =
     (case parse_offset cursor of Some offset \<Rightarrow> Inr offset | None \<Rightarrow>
      let n = normalized_message_query q in
      case decode_cursor_token codec ''msg_'' cursor of Inl e \<Rightarrow> Inl e | Inr tok \<Rightarrow>
        if mt_after tok \<noteq> mq_after n \<or> mt_before tok \<noteq> mq_before n \<or> mt_order tok \<noteq> mq_order n \<or>
           mt_visibility tok \<noteq> mq_visibility n \<or> mt_run_id tok \<noteq> mq_run_id n
        then Inl ''cursor does not match message query filters''
        else Inr (mt_offset tok))"

definition matches_record :: "message_query \<Rightarrow> message_record \<Rightarrow> bool" where
  "matches_record q r =
     (if (case mq_after q of None \<Rightarrow> False | Some a \<Rightarrow> mr_seq r \<le> a) then False
      else if (case mq_before q of None \<Rightarrow> False | Some b \<Rightarrow> mr_seq r \<ge> b) then False
      else if (case mq_run_id q of None \<Rightarrow> False | Some i \<Rightarrow> mr_produced_by_run_id r \<noteq> Some i) then False
      else case mq_visibility q of
          AnyVisibility \<Rightarrow> True
        | ExternalOnly \<Rightarrow> msg_visibility (mr_message r) \<noteq> VisibleInternal
        | InternalOnly \<Rightarrow> msg_visibility (mr_message r) = VisibleInternal)"

record message_page =
  mp_records :: "message_record list"
  mp_total :: nat
  mp_has_more :: bool
  mp_next_cursor :: "string option"
  mp_prev_cursor :: "string option"

definition empty_message_page :: message_page where
  "empty_message_page = \<lparr>mp_records = [], mp_total = 0, mp_has_more = False, mp_next_cursor = None,
     mp_prev_cursor = None\<rparr>"

definition query_records :: "message_query \<Rightarrow> message_record list \<Rightarrow> message_record list" where
  "query_records q rs =
     (case mq_order q of
        OrderAsc \<Rightarrow> sort_key mr_seq (filter (matches_record q) rs)
      | OrderDesc \<Rightarrow> sort_key (\<lambda>r. - 1 - mr_seq r) (filter (matches_record q) rs))"

definition paginate_message_records :: "message_cursor_token cursor_codec \<Rightarrow> message_record list \<Rightarrow>
    message_query \<Rightarrow> message_page" where
  "paginate_message_records codec records query =
     (let q = normalized_message_query query;
          rs = query_records q records;
          total = length rs;
          start = min (mq_offset q) total;
          page = take (mq_limit q) (drop start rs);
          next_offset = start + length page;
          has_more = (mq_limit q > 0 \<and> next_offset < total)
      in \<lparr>mp_records = page, mp_total = total, mp_has_more = has_more,
          mp_next_cursor = (if has_more then Some (message_encode_cursor codec q next_offset) else None),
          mp_prev_cursor = (if mq_limit q > 0 \<and> start > 0
            then Some (message_encode_cursor codec q (start - mq_limit q)) else None)\<rparr>)"

section \<open>Threads\<close>

datatype parent_filter = AnyParent | RootThreads | ChildrenOf string

definition normalized_parent_filter :: "parent_filter \<Rightarrow> parent_filter" where
  "normalized_parent_filter f = (case f of
      AnyParent \<Rightarrow> AnyParent
    | RootThreads \<Rightarrow> RootThreads
    | ChildrenOf p \<Rightarrow> (case normalize_lineage_id (Some p) of None \<Rightarrow> AnyParent | Some i \<Rightarrow> ChildrenOf i))"

record thread_query =
  tq_offset :: nat
  tq_limit :: nat
  tq_resource_id :: "string option"
  tq_parent_filter :: parent_filter
  tq_id_prefix :: "string option"

definition default_thread_query :: thread_query where
  "default_thread_query = \<lparr>tq_offset = 0, tq_limit = 50, tq_resource_id = None,
     tq_parent_filter = AnyParent, tq_id_prefix = None\<rparr>"

definition thread_has_filters :: "thread_query \<Rightarrow> bool" where
  "thread_has_filters q \<longleftrightarrow> normalize_lineage_id (tq_resource_id q) \<noteq> None \<or>
     tq_parent_filter q \<noteq> AnyParent \<or> tq_id_prefix q \<noteq> None"

definition normalized_thread_query :: "thread_query \<Rightarrow> thread_query" where
  "normalized_thread_query q = q\<lparr>tq_limit := min (tq_limit q) 200,
     tq_resource_id := normalize_lineage_id (tq_resource_id q),
     tq_parent_filter := normalized_parent_filter (tq_parent_filter q)\<rparr>"

record thread_cursor_token =
  tt_offset :: nat
  tt_resource_id :: "string option"
  tt_parent_filter :: parent_filter
  tt_id_prefix :: "string option"

definition thread_encode_cursor :: "thread_cursor_token cursor_codec \<Rightarrow> thread_query \<Rightarrow> nat \<Rightarrow> string" where
  "thread_encode_cursor codec q offset =
     (let n = normalized_thread_query q in
      encode_cursor_token codec ''thr_'' \<lparr>tt_offset = offset, tt_resource_id = tq_resource_id n,
        tt_parent_filter = tq_parent_filter n, tt_id_prefix = tq_id_prefix n\<rparr>)"

definition thread_decode_cursor :: "thread_cursor_token cursor_codec \<Rightarrow> thread_query \<Rightarrow> string \<Rightarrow> string + nat" where
  "thread_decode_cursor codec q cursor =
     (let n = normalized_thread_query q in
      case parse_offset cursor of
        Some offset \<Rightarrow> (if thread_has_filters n then Inl ''cursor does not match thread query filters''
                        else Inr offset)
      | None \<Rightarrow>
          (case decode_cursor_token codec ''thr_'' cursor of Inl e \<Rightarrow> Inl e | Inr tok \<Rightarrow>
            if tt_resource_id tok \<noteq> tq_resource_id n \<or> tt_parent_filter tok \<noteq> tq_parent_filter n \<or>
               tt_id_prefix tok \<noteq> tq_id_prefix n
            then Inl ''cursor does not match thread query filters''
            else Inr (tt_offset tok)))"

definition matches_thread :: "thread_query \<Rightarrow> thread \<Rightarrow> bool" where
  "matches_thread q t =
     (let n = normalized_thread_query q in
      if (case tq_id_prefix n of None \<Rightarrow> False | Some p \<Rightarrow> \<not> starts_with (th_id t) p) then False
      else if (case tq_resource_id n of None \<Rightarrow> False
                 | Some r \<Rightarrow> normalize_lineage_id (th_resource_id t) \<noteq> Some r) then False
      else case tq_parent_filter n of
          AnyParent \<Rightarrow> True
        | RootThreads \<Rightarrow> normalize_lineage_id (th_parent_thread_id t) = None
        | ChildrenOf p \<Rightarrow> normalize_lineage_id (th_parent_thread_id t) = Some p)"

record thread_page =
  tp_items :: "string list"
  tp_total :: nat
  tp_has_more :: bool
  tp_next_cursor :: "string option"
  tp_prev_cursor :: "string option"

datatype child_delete_strategy = RejectChildren | DetachChildren | CascadeChildren

definition checkpoint_parent_thread_id :: "thread option \<Rightarrow> run_record \<Rightarrow> string option" where
  "checkpoint_parent_thread_id existing r =
     (case Option.bind existing th_parent_thread_id of Some p \<Rightarrow> Some p | None \<Rightarrow> request_parent r)"

text \<open>The last activity of a thread; the most recent one comes first, ties are broken by the id.\<close>

definition last_activity :: "thread \<Rightarrow> u64" where
  "last_activity t = (case tm_updated_at (th_metadata t) of
      Some u \<Rightarrow> u
    | None \<Rightarrow> (case tm_created_at (th_metadata t) of Some c \<Rightarrow> c | None \<Rightarrow> 0))"

definition sort_threads_by_recent_activity :: "thread list \<Rightarrow> thread list" where
  "sort_threads_by_recent_activity ts = sort_key (\<lambda>t. (- 1 - last_activity t, th_id t)) ts"

definition paginate_threads :: "thread_cursor_token cursor_codec \<Rightarrow> thread list \<Rightarrow> thread_query \<Rightarrow> thread_page" where
  "paginate_threads codec threads query =
     (let q = normalized_thread_query query;
          filtered = filter (matches_thread q) (sort_threads_by_recent_activity threads);
          total = length filtered;
          start = min (tq_offset q) total;
          items = map th_id (take (tq_limit q) (drop start filtered));
          next_offset = start + length items;
          has_more = (tq_limit q > 0 \<and> next_offset < total)
      in \<lparr>tp_items = items, tp_total = total, tp_has_more = has_more,
          tp_next_cursor = (if has_more then Some (thread_encode_cursor codec q next_offset) else None),
          tp_prev_cursor = (if tq_limit q > 0 \<and> start > 0
            then Some (thread_encode_cursor codec q (start - tq_limit q)) else None)\<rparr>)"

section \<open>Runs\<close>

record run_query =
  rq_offset :: nat
  rq_limit :: nat
  rq_thread_id :: "string option"
  rq_status :: "run_status option"
  rq_id_prefix :: "string option"

definition default_run_query :: run_query where
  "default_run_query = \<lparr>rq_offset = 0, rq_limit = 50, rq_thread_id = None, rq_status = None, rq_id_prefix = None\<rparr>"

definition matches_id_prefix :: "run_query \<Rightarrow> string \<Rightarrow> bool" where
  "matches_id_prefix q tid = (case rq_id_prefix q of None \<Rightarrow> True | Some p \<Rightarrow> starts_with tid p)"

record run_page =
  rp_items :: "run_record list"
  rp_total :: nat
  rp_has_more :: bool

end
