(* ===== verification/Delivery.thy ===== *)
theory Delivery
imports Message
begin

text \<open>
  Messages that are delivered to a thread but not consumed yet
  (\<^verbatim>\<open>remo-runtime-contract/src/contract/message/delivery.rs\<close>): their delivery mode and the selection of
  those that a freeze at a boundary consumes, with the validation of a pending record
  (\<^verbatim>\<open>remo-stores/src/pending_message_store.rs\<close>).
\<close>

unbundle bit_operations_syntax

section \<open>Delivery modes\<close>

datatype delivery_boundary = AtInterrupt | AtNextStep | AtNaturalEnd | AtResumeInput | AtNewRun

fun boundary_precedence :: "delivery_boundary \<Rightarrow> u8" where
  "boundary_precedence AtInterrupt = 0"
| "boundary_precedence AtNextStep = 1"
| "boundary_precedence AtNaturalEnd = 2"
| "boundary_precedence AtResumeInput = 3"
| "boundary_precedence AtNewRun = 4"

definition eligible_at :: "delivery_boundary \<Rightarrow> delivery_boundary \<Rightarrow> bool" where
  "eligible_at b current =
     (if b = AtResumeInput \<or> current = AtResumeInput then b = current
      else boundary_precedence b \<le> boundary_precedence current)"

datatype delivery_granularity = DeliverOne | DeliverBatch

record delivery_mode =
  dm_boundary :: delivery_boundary
  dm_granularity :: delivery_granularity
  dm_barrier :: bool
  dm_target_run_id :: "string option"
  dm_fallback_to_new_run :: bool

definition mode_at :: "delivery_boundary \<Rightarrow> delivery_granularity \<Rightarrow> delivery_mode" where
  "mode_at b g = \<lparr>dm_boundary = b, dm_granularity = g, dm_barrier = False, dm_target_run_id = None,
     dm_fallback_to_new_run = True\<rparr>"

definition mode_resume_input :: "delivery_granularity \<Rightarrow> string \<Rightarrow> delivery_mode" where
  "mode_resume_input g run = \<lparr>dm_boundary = AtResumeInput, dm_granularity = g, dm_barrier = False,
     dm_target_run_id = Some run, dm_fallback_to_new_run = False\<rparr>"

definition targeted_to_run :: "string \<Rightarrow> bool \<Rightarrow> delivery_mode \<Rightarrow> delivery_mode" where
  "targeted_to_run run fallback m = m\<lparr>dm_target_run_id := Some run, dm_fallback_to_new_run := fallback\<rparr>"

section \<open>Pending records\<close>

record pending_record =
  pr_pending_id :: string
  pr_thread_id :: string
  pr_position :: u64
  pr_message :: message
  pr_revision :: u64
  pr_delivery_mode :: delivery_mode
  pr_created_at :: "u64 option"
  pr_updated_at :: "u64 option"

definition pending_from_message :: "string \<Rightarrow> string \<Rightarrow> u64 \<Rightarrow> message \<Rightarrow> delivery_mode \<Rightarrow> pending_record" where
  "pending_from_message gen tid pos m mode =
     (let mid = (case msg_id m of None \<Rightarrow> gen | Some i \<Rightarrow> i);
          m1 = (if msg_id m = None then m\<lparr>msg_id := Some mid\<rparr> else m)
      in \<lparr>pr_pending_id = mid, pr_thread_id = tid, pr_position = pos, pr_message = m1,
          pr_revision = 1, pr_delivery_mode = mode, pr_created_at = None, pr_updated_at = None\<rparr>)"

definition fnv_prime :: u64 where
  "fnv_prime = 0x100000001b3"

definition fnv_step :: "u64 \<Rightarrow> u8 \<Rightarrow> u64" where
  "fnv_step hash byte = (hash XOR ucast byte) * fnv_prime"

definition le_bytes :: "u64 \<Rightarrow> u8 list" where
  "le_bytes v = map (\<lambda>i. ucast (drop_bit (8 * i) v)) [0..<8]"

definition fnv_record :: "u64 \<Rightarrow> pending_record \<Rightarrow> u64" where
  "fnv_record hash r =
     foldl fnv_step (foldl fnv_step hash (map of_char (pr_pending_id r)))
       (le_bytes (pr_position r) @ le_bytes (pr_revision r))"

definition pending_queue_revision :: "pending_record list \<Rightarrow> u64" where
  "pending_queue_revision rs = foldl fnv_record 0xcbf29ce484222325 rs"

definition validate_pending_message_record :: "pending_record \<Rightarrow> storage_error + unit" where
  "validate_pending_message_record r =
     (if is_blank (pr_pending_id r) then Inl (Validation ''pending message id must not be empty'')
      else if is_blank (pr_thread_id r) then
        Inl (Validation (''pending message '' @ quoted (pr_pending_id r) @ '' thread id must not be empty''))
      else if pr_position r = 0 then
        Inl (Validation (''pending message '' @ quoted (pr_pending_id r) @ '' position must be 1-based''))
      else if pr_revision r = 0 then
        Inl (Validation (''pending message '' @ quoted (pr_pending_id r) @ '' revision must be 1-based''))
      else case msg_id (pr_message r) of
          None \<Rightarrow> Inl (Validation (''pending message '' @ quoted (pr_pending_id r) @ '' must carry message id''))
        | Some i \<Rightarrow>
            if i = pr_pending_id r then validate_message_shape (pr_message r) ''pending''
            else Inl (Validation (''pending message '' @ quoted (pr_pending_id r) @
                   '' cannot carry message id '' @ quoted i)))"

definition validate_pending_message_records :: "pending_record list \<Rightarrow> storage_error + unit" where
  "validate_pending_message_records rs = first_error (map validate_pending_message_record rs)"

section \<open>What a freeze consumes\<close>

definition eligible_for_freeze :: "pending_record \<Rightarrow> delivery_boundary \<Rightarrow> string option \<Rightarrow> bool" where
  "eligible_for_freeze e b current_run =
     (let mode = pr_delivery_mode e in
      case dm_target_run_id mode of
        Some target \<Rightarrow>
          if b = AtNewRun then dm_fallback_to_new_run mode \<and> eligible_at (dm_boundary mode) b
          else Some target = current_run \<and> eligible_at (dm_boundary mode) b
      | None \<Rightarrow> eligible_at (dm_boundary mode) b)"

definition can_skip_ineligible :: "pending_record \<Rightarrow> delivery_boundary \<Rightarrow> bool" where
  "can_skip_ineligible e b =
     (let mode = pr_delivery_mode e in
      if b \<noteq> AtNewRun \<and> dm_boundary mode = AtNewRun then True
      else b = AtNewRun \<and> dm_boundary mode \<noteq> AtNewRun \<and> \<not> dm_fallback_to_new_run mode)"

text \<open>The loop: the index of the entry, whether anything was selected and skipped before it.\<close>

fun select_from :: "delivery_boundary \<Rightarrow> string option \<Rightarrow> nat \<Rightarrow> bool \<Rightarrow> bool \<Rightarrow> pending_record list \<Rightarrow>
    nat list" where
  "select_from b run i selected skipped [] = []"
| "select_from b run i selected skipped (e # es) =
     (let mode = pr_delivery_mode e in
      if \<not> eligible_for_freeze e b run then
        (if dm_barrier mode then []
         else if can_skip_ineligible e b then select_from b run (Suc i) selected True es
         else [])
      else if dm_barrier mode \<and> skipped then []
      else if selected \<and> dm_granularity mode = DeliverOne then []
      else i # (if dm_barrier mode \<or> dm_granularity mode = DeliverOne then []
                else select_from b run (Suc i) True skipped es))"

definition select_pending_for_freeze_for_run :: "pending_record list \<Rightarrow> delivery_boundary \<Rightarrow>
    string option \<Rightarrow> nat list" where
  "select_pending_for_freeze_for_run ps b run = select_from b run 0 False False ps"

definition select_pending_for_freeze :: "pending_record list \<Rightarrow> delivery_boundary \<Rightarrow> nat list" where
  "select_pending_for_freeze ps b = select_pending_for_freeze_for_run ps b None"


end
