(* ===== verification/Thread_Store.thy ===== *)
theory Thread_Store
imports Thread_Query Delivery "HOL-Library.Finite_Map"
begin

text \<open>
  The in-memory store of threads, messages and runs (\<^verbatim>\<open>remo-stores/src/memory/mod.rs\<close>).

  Every operation is a function of the store to its result and the store it leaves. The map of the
  threads is a finite map, because two loops follow the parents and the children of a thread in it. The
  clock reading (milliseconds), the iteration order of a hash map and generated message ids are
  arguments. The broadcast channel of configuration changes is the list of the events sent.
\<close>

section \<open>State\<close>

datatype profile_owner = AgentProfile string | SystemProfile

record profile_entry =
  pe_key :: string
  pe_value :: json
  pe_updated_at :: u64

datatype config_change_kind = ConfigPut | ConfigDelete

record config_change =
  cc_namespace :: string
  cc_id :: string
  cc_kind :: config_change_kind

record memory_store =
  ms_threads :: "(string, thread) fmap"
  ms_runs :: "string \<rightharpoonup> run_record"
  ms_run_insertion :: "string \<rightharpoonup> u64"
  ms_run_seq :: u64
  ms_messages :: "string \<rightharpoonup> message list"
  ms_pending :: "string \<rightharpoonup> pending_record list"
  ms_profiles :: "profile_owner \<rightharpoonup> (string \<rightharpoonup> profile_entry)"
  ms_configs :: "string \<rightharpoonup> (string \<rightharpoonup> json)"
  ms_thread_states :: "string \<rightharpoonup> persisted_state"
  ms_config_changes :: "config_change list"

definition memory_store_new :: memory_store where
  "memory_store_new = \<lparr>ms_threads = fmempty, ms_runs = Map.empty, ms_run_insertion = Map.empty,
     ms_run_seq = 0, ms_messages = Map.empty, ms_pending = Map.empty, ms_profiles = Map.empty,
     ms_configs = Map.empty, ms_thread_states = Map.empty, ms_config_changes = []\<rparr>"

type_synonym 'a store_op = "memory_store \<Rightarrow> (storage_error + 'a) \<times> memory_store"

section \<open>The thread hierarchy\<close>

text \<open>
  The loop of \<^verbatim>\<open>validate_thread_hierarchy_map\<close>: it ends because a thread is visited at most once and
  only threads of the map have a parent.
\<close>

function walk_ancestors :: "(string, thread) fmap \<Rightarrow> string \<Rightarrow> string set \<Rightarrow> string \<Rightarrow> storage_error + unit" where
  "walk_ancestors threads root visited current =
     (if current \<in> visited then
        Inl (Validation (''thread hierarchy cycle detected at '' @ quoted current))
      else case fmlookup threads current of
          None \<Rightarrow> Inl (Validation (if current = root then ''parent thread not found: '' @ root
                   else ''thread hierarchy references missing ancestor '' @ quoted current))
        | Some t \<Rightarrow> (case normalize_lineage_id (th_parent_thread_id t) of
              None \<Rightarrow> Inr ()
            | Some p \<Rightarrow> walk_ancestors threads root (insert current visited) p))"
  by pat_completeness auto
termination
proof (relation "measure (\<lambda>(threads, _, visited, _). card (fset (fmdom threads) - visited))", goal_cases)
  case (2 threads root visited current t p)
  then have "current \<in> fset (fmdom threads) - visited" by (auto simp: fmdomI)
  then have "fset (fmdom threads) - insert current visited \<subset> fset (fmdom threads) - visited" by blast
  then show ?case by (simp add: psubset_card_mono)
qed simp

declare walk_ancestors.simps [simp del]

definition validate_thread_hierarchy_map :: "(string, thread) fmap \<Rightarrow> string \<Rightarrow> string option \<Rightarrow>
    storage_error + unit" where
  "validate_thread_hierarchy_map threads tid parent =
     (case normalize_lineage_id parent of
        None \<Rightarrow> Inr ()
      | Some p \<Rightarrow>
          if p = tid then Inl (Validation (''thread '' @ quoted tid @ '' cannot parent itself''))
          else walk_ancestors threads p {tid} p)"

definition collect_child_ids :: "string list \<Rightarrow> (string, thread) fmap \<Rightarrow> string \<Rightarrow> string list" where
  "collect_child_ids ord threads p =
     sort (map th_id (filter (\<lambda>t. th_parent_thread_id t = Some p) (hm_values ord (fmlookup threads))))"

section \<open>Threads\<close>

definition load_thread :: "string \<Rightarrow> memory_store \<Rightarrow> thread option" where
  "load_thread tid ms = fmlookup (ms_threads ms) tid"

definition put_thread :: "string \<Rightarrow> thread \<Rightarrow> memory_store \<Rightarrow> memory_store" where
  "put_thread tid t ms = ms\<lparr>ms_threads := fmupd tid t (ms_threads ms)\<rparr>"

definition save_thread :: "thread \<Rightarrow> unit store_op" where
  "save_thread t ms =
     (let n = normalize_lineage t in
      case validate_thread n of Inl e \<Rightarrow> (Inl e, ms) | Inr _ \<Rightarrow> (Inr (), put_thread (th_id n) n ms))"

definition save_thread_validated :: "thread \<Rightarrow> unit store_op" where
  "save_thread_validated t ms =
     (let n = normalize_lineage t in
      case validate_thread n of Inl e \<Rightarrow> (Inl e, ms) | Inr _ \<Rightarrow>
      (case validate_thread_hierarchy_map (ms_threads ms) (th_id n) (th_parent_thread_id n) of
         Inl e \<Rightarrow> (Inl e, ms)
       | Inr _ \<Rightarrow> (Inr (), put_thread (th_id n) n ms)))"

text \<open>What both ways of deleting remove: the thread with its messages.\<close>

definition remove_thread :: "string \<Rightarrow> memory_store \<Rightarrow> memory_store" where
  "remove_thread tid ms = ms\<lparr>ms_threads := fmdrop tid (ms_threads ms),
     ms_messages := (ms_messages ms)(tid := None), ms_pending := (ms_pending ms)(tid := None)\<rparr>"

definition delete_thread :: "string \<Rightarrow> unit store_op" where
  "delete_thread tid ms =
     (let ms1 = remove_thread tid ms
      in (Inr (), ms1\<lparr>ms_thread_states := (ms_thread_states ms1)(tid := None)\<rparr>))"

definition save_thread_state :: "string \<Rightarrow> persisted_state \<Rightarrow> unit store_op" where
  "save_thread_state tid s ms = (Inr (), ms\<lparr>ms_thread_states := (ms_thread_states ms)(tid \<mapsto> s)\<rparr>)"

definition load_thread_state :: "string \<Rightarrow> memory_store \<Rightarrow> persisted_state option" where
  "load_thread_state tid ms = ms_thread_states ms tid"

definition detach_child :: "u64 \<Rightarrow> string \<Rightarrow> memory_store \<Rightarrow> memory_store" where
  "detach_child now cid ms =
     (case fmlookup (ms_threads ms) cid of
        None \<Rightarrow> ms
      | Some c \<Rightarrow>
          (let n = normalize_lineage (c\<lparr>th_parent_thread_id := None\<rparr>)
           in put_thread cid (n\<lparr>th_metadata := (th_metadata n)\<lparr>tm_updated_at := Some now\<rparr>\<rparr>) ms))"

text \<open>
  The stack loop of the cascade. The head of the list is the top of the stack; \<^verbatim>\<open>children\<close> are the
  sorted ids of the children. Every thread is expanded at most once.
\<close>

function cascade_loop :: "string list \<Rightarrow> (string, thread) fmap \<Rightarrow> string \<Rightarrow> string set \<Rightarrow>
    (string \<times> bool) list \<Rightarrow> string list \<Rightarrow> storage_error + string list" where
  "cascade_loop ord threads tid visited [] order = Inr order"
| "cascade_loop ord threads tid visited ((current, expanded) # stack) order =
     (if expanded then cascade_loop ord threads tid visited stack (order @ [current])
      else if current \<in> visited then
        Inl (Validation (''thread hierarchy cycle detected while deleting '' @ quoted tid))
      else cascade_loop ord threads tid (insert current visited)
             (map (\<lambda>c. (c, False)) (collect_child_ids ord threads current) @ (current, True) # stack) order)"
  by pat_completeness auto
termination
proof (relation "measures [\<lambda>(ord, threads, _, visited, stack, _).
         card ((fst ` set stack \<union> th_id ` set (hm_values ord (fmlookup threads))) - visited),
         \<lambda>(_, _, _, _, stack, _). length stack]", goal_cases)
  case (2 ord threads tid visited current expanded stack order)
  have "card ((fst ` set stack \<union> th_id ` set (hm_values ord (fmlookup threads))) - visited)
      \<le> card ((fst ` set ((current, expanded) # stack) \<union> th_id ` set (hm_values ord (fmlookup threads))) - visited)"
    by (rule card_mono) auto
  then show ?case by auto
next
  case (3 ord threads tid visited current expanded stack order)
  let ?stack = "map (\<lambda>c. (c, False)) (collect_child_ids ord threads current) @ (current, True) # stack"
  have "(fst ` set ?stack \<union> th_id ` set (hm_values ord (fmlookup threads))) - insert current visited
      \<subset> (fst ` set ((current, expanded) # stack) \<union> th_id ` set (hm_values ord (fmlookup threads))) - visited"
    using 3 by (auto simp: collect_child_ids_def)
  then have "card ((fst ` set ?stack \<union> th_id ` set (hm_values ord (fmlookup threads))) - insert current visited)
      < card ((fst ` set ((current, expanded) # stack) \<union> th_id ` set (hm_values ord (fmlookup threads))) - visited)"
    by (intro psubset_card_mono) auto
  then show ?case by simp
qed simp

definition cascade_order :: "string list \<Rightarrow> (string, thread) fmap \<Rightarrow> string \<Rightarrow> storage_error + string list" where
  "cascade_order ord threads tid = cascade_loop ord threads tid {} [(tid, False)] []"

definition delete_thread_with_strategy :: "string list \<Rightarrow> u64 \<Rightarrow> string \<Rightarrow> child_delete_strategy \<Rightarrow>
    unit store_op" where
  "delete_thread_with_strategy ord now tid strategy ms =
     (if fmlookup (ms_threads ms) tid = None then (Inl (NotFound tid), ms)
      else case strategy of
          RejectChildren \<Rightarrow>
            if collect_child_ids ord (ms_threads ms) tid \<noteq> [] then
              (Inl (Validation (''thread '' @ quoted tid @
                 '' has child threads; choose '' @ quoted ''detach'' @ '' or '' @ quoted ''cascade'')), ms)
            else (Inr (), remove_thread tid ms)
        | DetachChildren \<Rightarrow>
            (Inr (), remove_thread tid (fold (detach_child now) (collect_child_ids ord (ms_threads ms) tid) ms))
        | CascadeChildren \<Rightarrow>
            (case cascade_order ord (ms_threads ms) tid of
               Inl e \<Rightarrow> (Inl e, ms)
             | Inr order \<Rightarrow> (Inr (), fold remove_thread order ms)))"

definition list_threads :: "string list \<Rightarrow> nat \<Rightarrow> nat \<Rightarrow> memory_store \<Rightarrow> string list" where
  "list_threads ord offset limit ms = map th_id (take limit (drop offset
     (sort_threads_by_recent_activity (hm_values ord (fmlookup (ms_threads ms))))))"

definition list_threads_query :: "thread_cursor_token cursor_codec \<Rightarrow> string list \<Rightarrow> thread_query \<Rightarrow>
    memory_store \<Rightarrow> thread_page" where
  "list_threads_query codec ord q ms = paginate_threads codec (hm_values ord (fmlookup (ms_threads ms))) q"

definition update_thread_metadata :: "string \<Rightarrow> thread_metadata \<Rightarrow> unit store_op" where
  "update_thread_metadata tid m ms =
     (case fmlookup (ms_threads ms) tid of
        None \<Rightarrow> (Inl (NotFound tid), ms)
      | Some t \<Rightarrow> (Inr (), put_thread tid (t\<lparr>th_metadata := m\<rparr>) ms))"

section \<open>Messages\<close>

definition load_committed_messages :: "string \<Rightarrow> memory_store \<Rightarrow> storage_error + message list option" where
  "load_committed_messages tid ms =
     (case ms_messages ms tid of
        None \<Rightarrow> Inr None
      | Some l \<Rightarrow> (case validate_committed_messages l of Inl e \<Rightarrow> Inl e | Inr _ \<Rightarrow> Inr (Some l)))"

definition load_messages :: "string \<Rightarrow> memory_store \<Rightarrow> storage_error + message list option" where
  "load_messages tid ms =
     (case ms_messages ms tid of
        None \<Rightarrow> Inr None
      | Some l \<Rightarrow> (case validate_committed_messages l of Inl e \<Rightarrow> Inl e
          | Inr _ \<Rightarrow> Inr (Some (strip_unpaired_tool_calls_from_view l))))"

definition list_message_records :: "message_cursor_token cursor_codec \<Rightarrow> (nat \<Rightarrow> string) \<Rightarrow> string \<Rightarrow>
    message_query \<Rightarrow> memory_store \<Rightarrow> storage_error + message_page" where
  "list_message_records codec gens tid q ms =
     (case ms_messages ms tid of
        None \<Rightarrow> Inr empty_message_page
      | Some l \<Rightarrow> (case validate_committed_messages l of Inl e \<Rightarrow> Inl e | Inr _ \<Rightarrow>
          let records = records_from gens tid 1 (strip_unpaired_tool_calls_from_view l) in
          case validate_committed_message_records tid records of Inl e \<Rightarrow> Inl e | Inr _ \<Rightarrow>
            Inr (paginate_message_records codec records q)))"

definition save_messages :: "string \<Rightarrow> message list \<Rightarrow> unit store_op" where
  "save_messages tid l ms =
     (case validate_committed_messages l of
        Inl e \<Rightarrow> (Inl e, ms)
      | Inr _ \<Rightarrow> (Inr (), ms\<lparr>ms_messages := (ms_messages ms)(tid \<mapsto> l)\<rparr>))"

text \<open>\<^verbatim>\<open>entry(..).or_default()\<close>: the log of a thread, created empty when there is none.\<close>

definition log_entry :: "string \<Rightarrow> memory_store \<Rightarrow> message list \<times> memory_store" where
  "log_entry tid ms = (case ms_messages ms tid of
      Some l \<Rightarrow> (l, ms) | None \<Rightarrow> ([], ms\<lparr>ms_messages := (ms_messages ms)(tid \<mapsto> [])\<rparr>))"

definition append_message_records :: "(nat \<Rightarrow> string) \<Rightarrow> string \<Rightarrow> message list \<Rightarrow>
    message_record list store_op" where
  "append_message_records gens tid l ms =
     (let (existing, ms1) = log_entry tid ms in
      case validate_append_only_delta existing l of
        Inl e \<Rightarrow> (Inl e, ms1)
      | Inr _ \<Rightarrow> (Inr (records_from gens tid (of_nat (length existing) + 1) l),
                 ms1\<lparr>ms_messages := (ms_messages ms1)(tid \<mapsto> existing @ l)\<rparr>))"

definition delete_messages :: "string \<Rightarrow> unit store_op" where
  "delete_messages tid ms =
     (if fmlookup (ms_threads ms) tid = None then (Inl (NotFound tid), ms)
      else (Inr (), ms\<lparr>ms_messages := (ms_messages ms)(tid := None)\<rparr>))"

section \<open>Runs\<close>

definition put_run :: "run_record \<Rightarrow> memory_store \<Rightarrow> memory_store" where
  "put_run r ms = ms\<lparr>ms_runs := (ms_runs ms)(run_key r \<mapsto> r),
     ms_run_insertion := (ms_run_insertion ms)(run_key r \<mapsto> ms_run_seq ms),
     ms_run_seq := ms_run_seq ms + 1\<rparr>"

definition create_run :: "run_record \<Rightarrow> unit store_op" where
  "create_run r ms =
     (case validate_run_record r of Inl e \<Rightarrow> (Inl e, ms) | Inr _ \<Rightarrow>
      if ms_runs ms (run_key r) \<noteq> None then (Inl (AlreadyExists (run_key r)), ms)
      else (Inr (), put_run r ms))"

definition load_run :: "string \<Rightarrow> memory_store \<Rightarrow> run_record option" where
  "load_run i ms = ms_runs ms i"

text \<open>\<^verbatim>\<open>max_by_key\<close>: the last of the elements with the greatest key.\<close>

fun max_by_key :: "('a \<Rightarrow> 'k::linorder) \<Rightarrow> 'a list \<Rightarrow> 'a option" where
  "max_by_key f [] = None"
| "max_by_key f (x # xs) = (case max_by_key f xs of
      None \<Rightarrow> Some x
    | Some y \<Rightarrow> if f y < f x then Some x else Some y)"

definition run_recency :: "memory_store \<Rightarrow> run_record \<Rightarrow> u64 \<times> u64" where
  "run_recency ms r = (run_updated_at r,
     (case ms_run_insertion ms (run_key r) of Some n \<Rightarrow> n | None \<Rightarrow> 0))"

definition latest_run :: "string list \<Rightarrow> string \<Rightarrow> memory_store \<Rightarrow> run_record option" where
  "latest_run ord tid ms =
     max_by_key (run_recency ms) (filter (\<lambda>r. run_thread_id r = tid) (hm_values ord (ms_runs ms)))"

definition list_runs :: "string list \<Rightarrow> run_query \<Rightarrow> memory_store \<Rightarrow> run_page" where
  "list_runs ord q ms =
     (let filtered = sort_key run_created_at (filter (\<lambda>r.
            (case rq_thread_id q of None \<Rightarrow> True | Some t \<Rightarrow> run_thread_id r = t) \<and>
            (case rq_status q of None \<Rightarrow> True | Some s \<Rightarrow> run_state_status r = s) \<and>
            matches_id_prefix q (run_thread_id r)) (hm_values ord (ms_runs ms)));
          total = length filtered;
          offset = min (rq_offset q) total;
          items = take (max 1 (min (rq_limit q) 200)) (drop offset filtered)
      in \<lparr>rp_items = items, rp_total = total, rp_has_more = offset + length items < total\<rparr>)"

section \<open>Checkpoints\<close>

text \<open>What every checkpoint does to the thread and the run.\<close>

definition project_run :: "u64 \<Rightarrow> string \<Rightarrow> run_record \<Rightarrow> memory_store \<Rightarrow> memory_store" where
  "project_run now tid r ms =
     (let t = (case load_thread tid ms of None \<Rightarrow> thread_with_id tid | Some t \<Rightarrow> t)
      in put_run r (put_thread tid (normalize_lineage (apply_run_projection r (touch now t))) ms))"

definition checkpoint_hierarchy :: "string \<Rightarrow> run_record \<Rightarrow> memory_store \<Rightarrow> storage_error + unit" where
  "checkpoint_hierarchy tid r ms =
     validate_thread_hierarchy_map (ms_threads ms) tid (checkpoint_parent_thread_id (load_thread tid ms) r)"

definition checkpoint :: "u64 \<Rightarrow> string \<Rightarrow> message list \<Rightarrow> run_record \<Rightarrow> unit store_op" where
  "checkpoint now tid l r ms =
     (case first_error [validate_run_record r, validate_committed_messages l, checkpoint_hierarchy tid r ms] of
        Inl e \<Rightarrow> (Inl e, ms)
      | Inr _ \<Rightarrow> (Inr (), (project_run now tid r ms)\<lparr>ms_messages := (ms_messages ms)(tid \<mapsto> l)\<rparr>))"

definition log_version :: "string \<Rightarrow> memory_store \<Rightarrow> u64" where
  "log_version tid ms = (case ms_messages ms tid of Some l \<Rightarrow> of_nat (length l) | None \<Rightarrow> 0)"

definition stale :: "u64 option \<Rightarrow> u64 \<Rightarrow> storage_error + unit" where
  "stale expected actual = (case expected of
      None \<Rightarrow> Inr ()
    | Some x \<Rightarrow> if x \<noteq> actual then Inl (VersionConflict x actual) else Inr ())"

definition checkpoint_append :: "u64 \<Rightarrow> string \<Rightarrow> message list \<Rightarrow> u64 option \<Rightarrow> run_record \<Rightarrow> u64 store_op" where
  "checkpoint_append now tid l expected r ms =
     (case first_error [validate_run_record r, checkpoint_hierarchy tid r ms,
              stale expected (log_version tid ms)] of
        Inl e \<Rightarrow> (Inl e, ms)
      | Inr _ \<Rightarrow>
          (let (existing, ms1) = log_entry tid ms in
           case merge_checkpoint_append_messages existing l of
             (Inl e, _) \<Rightarrow> (Inl e, ms1)
           | (Inr _, merged) \<Rightarrow>
               (Inr (of_nat (length merged)),
                (project_run now tid r ms1)\<lparr>ms_messages := (ms_messages ms1)(tid \<mapsto> merged)\<rparr>)))"

text \<open>\<^verbatim>\<open>load_checkpoint\<close>, the default of the trait.\<close>

record checkpoint_snapshot =
  cs_messages :: "message list"
  cs_message_version :: u64
  cs_latest_run :: "run_record option"
  cs_thread_state :: "persisted_state option"

definition load_checkpoint :: "(nat \<Rightarrow> string) \<Rightarrow> string list \<Rightarrow> string \<Rightarrow> memory_store \<Rightarrow>
    storage_error + checkpoint_snapshot option" where
  "load_checkpoint gens ord tid ms =
     (case load_committed_messages tid ms of Inl e \<Rightarrow> Inl e | Inr committed \<Rightarrow>
      let latest = latest_run ord tid ms in
      if committed = None \<and> latest = None then Inr None
      else let raw = (case committed of None \<Rightarrow> [] | Some l \<Rightarrow> l) in
        Inr (Some \<lparr>cs_messages = effective_committed_view gens tid raw,
          cs_message_version = of_nat (length raw), cs_latest_run = latest,
          cs_thread_state = load_thread_state tid ms\<rparr>))"

end
