(* ===== verification/Thread_Hierarchy.thy ===== *)
theory Thread_Hierarchy
imports Thread_Store
begin

text \<open>
  The hierarchy of the stored threads: what the walk over the ancestors accepts, that a thread saved
  after the walk keeps the hierarchy free of cycles, and that the cascade visits a thread and its
  descendants.
\<close>

section \<open>Trimming twice\<close>

lemma find_starts_take:
  assumes "find (starts_with s) white_space = None"
  shows "find (starts_with (take n s)) white_space = None"
proof -
  have "starts_with s w" if "starts_with (take n s) w" for w
    using that unfolding starts_with_def by (metis append_eq_conv_conj append_take_drop_id length_take min.cobounded1 take_take)
  with assms show ?thesis by (auto simp: find_None_iff)
qed

lemma trim_start_stops: "find (starts_with (trim_start s)) white_space = None \<or> trim_start s = []"
proof (induction s rule: trim_start.induct)
  case (1 s)
  then show ?case by (subst (1 2) trim_start.simps) (auto split: option.splits)
qed

lemma trim_start_id: "find (starts_with s) white_space = None \<Longrightarrow> trim_start s = s"
  by (subst trim_start.simps) simp

lemma trim_start_Nil [simp]: "trim_start [] = []"
  by (subst trim_start.simps) (simp split: option.splits)

lemma trim_end_Nil [simp]: "trim_end [] = []"
  by (subst trim_end.simps) (simp split: option.splits)

lemma trim_end_take: "\<exists>n. trim_end s = take n s"
proof (induction s rule: trim_end.induct)
  case (1 s)
  show ?case
  proof (cases "find (ends_with s) white_space")
    case None
    then show ?thesis by (subst trim_end.simps) (auto intro: exI [of _ "length s"])
  next
    case (Some w)
    show ?thesis
    proof (cases "s = []")
      case False
      then obtain n where "trim_end (take (length s - length w) s) = take n (take (length s - length w) s)"
        using 1 Some by blast
      with Some False show ?thesis by (subst trim_end.simps) (auto simp: take_take)
    qed (use Some in \<open>subst trim_end.simps, simp\<close>)
  qed
qed

lemma trim_end_stops: "find (ends_with (trim_end s)) white_space = None \<or> trim_end s = []"
proof (induction s rule: trim_end.induct)
  case (1 s)
  then show ?case by (subst (1 2) trim_end.simps) (auto split: option.splits)
qed

lemma trim_end_again [simp]: "trim_end (trim_end s) = trim_end s"
  using trim_end_stops [of s] by (subst trim_end.simps) (auto split: option.splits)

lemma trim_trim [simp]: "trim (trim s) = trim s"
proof -
  obtain n where n: "trim_end (trim_start s) = take n (trim_start s)" using trim_end_take by blast
  have "trim_start (trim_end (trim_start s)) = trim_end (trim_start s)"
    using trim_start_stops [of s]
  proof
    assume "find (starts_with (trim_start s)) white_space = None"
    then show ?thesis unfolding n by (intro trim_start_id find_starts_take)
  qed (simp add: n)
  then show ?thesis by (simp add: trim_def)
qed

lemma normalize_lineage_id_again [simp]:
  "normalize_lineage_id (normalize_lineage_id v) = normalize_lineage_id v"
  by (cases v) (simp_all add: normalize_lineage_id_def)

lemma normalize_lineage_id_None [simp]: "normalize_lineage_id None = None"
  by (simp add: normalize_lineage_id_def)

lemma normalize_lineage_again [simp]: "normalize_lineage (normalize_lineage t) = normalize_lineage t"
  by (simp add: normalize_lineage_def)

lemma normalize_lineage_simps [simp]:
  "th_id (normalize_lineage t) = th_id t"
  "th_parent_thread_id (normalize_lineage t) = normalize_lineage_id (th_parent_thread_id t)"
  "th_metadata (normalize_lineage t) = th_metadata t"
  by (simp_all add: normalize_lineage_def)

section \<open>Parents\<close>

definition parent_of :: "(string, thread) fmap \<Rightarrow> string \<Rightarrow> string option" where
  "parent_of threads k = Option.bind (fmlookup threads k) (\<lambda>t. normalize_lineage_id (th_parent_thread_id t))"

definition parent_rel :: "(string, thread) fmap \<Rightarrow> (string \<times> string) set" where
  "parent_rel threads = {(k, p). parent_of threads k = Some p}"

text \<open>The threads below a thread, itself included.\<close>

definition descendants :: "(string, thread) fmap \<Rightarrow> string \<Rightarrow> string set" where
  "descendants threads x = {y. (y, x) \<in> (parent_rel threads)\<^sup>*}"

definition hierarchy_ok :: "(string, thread) fmap \<Rightarrow> bool" where
  "hierarchy_ok threads \<longleftrightarrow> acyclic (parent_rel threads)"

lemma parent_rel_iff [simp]: "(k, p) \<in> parent_rel threads \<longleftrightarrow> parent_of threads k = Some p"
  by (simp add: parent_rel_def)

lemma parent_of_upd:
  "parent_of (fmupd k t threads) = (parent_of threads)(k := normalize_lineage_id (th_parent_thread_id t))"
  by (auto simp: parent_of_def fun_eq_iff)

lemma parent_of_drop: "parent_of (fmdrop k threads) = (parent_of threads)(k := None)"
  by (auto simp: parent_of_def fun_eq_iff)

lemma parent_of_empty [simp]: "parent_of fmempty k = None"
  by (simp add: parent_of_def)

lemma hierarchy_ok_mono: "hierarchy_ok threads \<Longrightarrow> parent_rel threads' \<subseteq> parent_rel threads \<Longrightarrow> hierarchy_ok threads'"
  unfolding hierarchy_ok_def by (rule acyclic_subset)

lemma hierarchy_ok_drop: "hierarchy_ok threads \<Longrightarrow> hierarchy_ok (fmdrop k threads)"
  by (erule hierarchy_ok_mono) (auto simp: parent_of_drop split: if_splits)

lemma hierarchy_ok_orphan:
  "hierarchy_ok threads \<Longrightarrow> normalize_lineage_id (th_parent_thread_id t) = None \<Longrightarrow> hierarchy_ok (fmupd k t threads)"
  by (erule hierarchy_ok_mono) (auto simp: parent_of_upd split: if_splits)

lemma hierarchy_ok_same_parent:
  "hierarchy_ok threads \<Longrightarrow> normalize_lineage_id (th_parent_thread_id t) = parent_of threads k \<Longrightarrow>
   hierarchy_ok (fmupd k t threads)"
  by (erule hierarchy_ok_mono) (auto simp: parent_of_upd split: if_splits)

section \<open>The walk over the ancestors\<close>

text \<open>
  The walk accepts exactly when it reaches a root through stored threads without meeting a visited one.
\<close>

lemma walk_ancestors_visits:
  "walk_ancestors threads root visited current = Inr () \<Longrightarrow>
     (current, x) \<in> (parent_rel threads)\<^sup>* \<Longrightarrow> x \<notin> visited \<and> fmlookup threads x \<noteq> None"
proof (induction threads root visited current rule: walk_ancestors.induct)
  case (1 threads root visited current)
  from "1.prems"(1) obtain t where t: "current \<notin> visited" "fmlookup threads current = Some t"
    by (subst (asm) walk_ancestors.simps) (auto split: if_splits option.splits)
  from "1.prems"(2) show ?case
  proof (cases rule: converse_rtranclE)
    case base
    with t show ?thesis by simp
  next
    case (step p)
    then have p: "normalize_lineage_id (th_parent_thread_id t) = Some p"
      using t by (simp add: parent_of_def)
    with t "1.prems"(1) have "walk_ancestors threads root (insert current visited) p = Inr ()"
      by (subst (asm) walk_ancestors.simps) simp
    then show ?thesis using "1.IH" [OF t p] step by simp
  qed
qed

lemma walk_ancestors_accepts:
  assumes "acyclic (parent_rel threads)"
    "\<And>x. (current, x) \<in> (parent_rel threads)\<^sup>* \<Longrightarrow> x \<notin> visited \<and> fmlookup threads x \<noteq> None"
  shows "walk_ancestors threads root visited current = Inr ()"
  using assms
proof (induction threads root visited current rule: walk_ancestors.induct)
  case (1 threads root visited current)
  then obtain t where t: "current \<notin> visited" "fmlookup threads current = Some t" by fastforce
  show ?case
  proof (cases "normalize_lineage_id (th_parent_thread_id t)")
    case None
    with t show ?thesis by (subst walk_ancestors.simps) simp
  next
    case (Some p)
    then have step: "(current, p) \<in> parent_rel threads" using t by (simp add: parent_of_def)
    have "x \<notin> insert current visited \<and> fmlookup threads x \<noteq> None" if "(p, x) \<in> (parent_rel threads)\<^sup>*" for x
    proof -
      have "(current, x) \<in> (parent_rel threads)\<^sup>+" using step that by (rule rtrancl_into_trancl2)
      then have "x \<noteq> current" using "1.prems"(1) by (auto simp: acyclic_def)
      moreover have "(current, x) \<in> (parent_rel threads)\<^sup>*"
        using step that by (rule converse_rtrancl_into_rtrancl)
      ultimately show ?thesis using "1.prems"(2) [of x] by simp
    qed
    with t Some show ?thesis
      using "1.IH" [OF t Some "1.prems"(1)] by (subst walk_ancestors.simps) simp
  qed
qed

lemma hierarchy_check:
  assumes "hierarchy_ok threads"
  shows "validate_thread_hierarchy_map threads tid parent = Inr () \<longleftrightarrow>
    (case normalize_lineage_id parent of None \<Rightarrow> True
     | Some p \<Rightarrow> \<forall>x. (p, x) \<in> (parent_rel threads)\<^sup>* \<longrightarrow> x \<noteq> tid \<and> fmlookup threads x \<noteq> None)"
proof (cases "normalize_lineage_id parent")
  case (Some p)
  have "walk_ancestors threads p {tid} p = Inr () \<longleftrightarrow>
      (\<forall>x. (p, x) \<in> (parent_rel threads)\<^sup>* \<longrightarrow> x \<notin> {tid} \<and> fmlookup threads x \<noteq> None)"
    using walk_ancestors_visits [of threads p "{tid}" p]
      walk_ancestors_accepts [of threads p "{tid}" p] assms[unfolded hierarchy_ok_def] by blast
  then show ?thesis using Some by (auto simp: validate_thread_hierarchy_map_def)
qed (simp add: validate_thread_hierarchy_map_def)

lemma hierarchy_ok_checked:
  assumes "hierarchy_ok threads" "validate_thread_hierarchy_map threads tid parent = Inr ()"
    "normalize_lineage_id (th_parent_thread_id t) = normalize_lineage_id parent"
  shows "hierarchy_ok (fmupd tid t threads)"
proof (cases "normalize_lineage_id parent")
  case None
  with assms show ?thesis by (simp add: hierarchy_ok_orphan)
next
  case (Some p)
  have "(p, tid) \<notin> (parent_rel threads)\<^sup>*"
    using assms(2) Some unfolding hierarchy_check [OF assms(1)] by auto
  then have "acyclic (insert (tid, p) (parent_rel threads))"
    using assms(1) by (simp add: hierarchy_ok_def)
  moreover have "parent_rel (fmupd tid t threads) \<subseteq> insert (tid, p) (parent_rel threads)"
    using Some assms(3) by (auto simp: parent_of_upd split: if_splits)
  ultimately show ?thesis unfolding hierarchy_ok_def by (rule acyclic_subset)
qed


section \<open>Children and descendants\<close>

definition threads_ok :: "(string, thread) fmap \<Rightarrow> bool" where
  "threads_ok threads \<longleftrightarrow>
     (\<forall>k t. fmlookup threads k = Some t \<longrightarrow> th_id t = k \<and> normalize_lineage t = t)"

lemma threads_okD:
  "threads_ok threads \<Longrightarrow> fmlookup threads k = Some t \<Longrightarrow> th_id t = k \<and> normalize_lineage t = t"
  by (simp add: threads_ok_def)

lemma threads_ok_parent:
  assumes "threads_ok threads" "fmlookup threads k = Some t"
  shows "normalize_lineage_id (th_parent_thread_id t) = th_parent_thread_id t"
  using normalize_lineage_simps(2) [of t] threads_okD [OF assms] by simp

lemma set_collect_child_ids:
  assumes "threads_ok threads" "hash_order ord (fmlookup threads)"
  shows "set (collect_child_ids ord threads p) = {k. parent_of threads k = Some p}"
proof -
  have "set (collect_child_ids ord threads p) = {th_id t | t k. fmlookup threads k = Some t \<and>
      th_parent_thread_id t = Some p}"
    using assms(2) by (auto simp: collect_child_ids_def hash_order_values ran_def)
  also have "\<dots> = {k. parent_of threads k = Some p}"
  proof (intro set_eqI iffI)
    fix x assume "x \<in> {k. parent_of threads k = Some p}"
    then obtain t where t: "fmlookup threads x = Some t" "normalize_lineage_id (th_parent_thread_id t) = Some p"
      by (auto simp: parent_of_def bind_eq_Some_conv)
    with threads_okD [OF assms(1) t(1)] threads_ok_parent [OF assms(1) t(1)]
    show "x \<in> {th_id t | t k. fmlookup threads k = Some t \<and> th_parent_thread_id t = Some p}" by auto
  next
    fix x assume "x \<in> {th_id t | t k. fmlookup threads k = Some t \<and> th_parent_thread_id t = Some p}"
    then obtain t k where t: "fmlookup threads k = Some t" "th_parent_thread_id t = Some p" "x = th_id t" by auto
    with threads_okD [OF assms(1) t(1)] threads_ok_parent [OF assms(1) t(1)]
    show "x \<in> {k. parent_of threads k = Some p}" by (auto simp: parent_of_def)
  qed
  finally show ?thesis .
qed

lemma distinct_ids:
  assumes "threads_ok threads" "distinct ord"
  shows "distinct (map th_id (hm_values ord (fmlookup threads)))"
  using assms(2)
proof (induction ord)
  case (Cons k ks)
  then have IH: "distinct (map th_id (hm_values ks (fmlookup threads)))" by simp
  show ?case
  proof (cases "fmlookup threads k")
    case (Some t)
    have "th_id t' \<noteq> k" if "t' \<in> set (hm_values ks (fmlookup threads))" for t'
      using that Cons.prems threads_okD [OF assms(1)] by (auto simp: set_hm_values)
    then have "k \<notin> th_id ` set (hm_values ks (fmlookup threads))" by blast
    with IH Some threads_okD [OF assms(1) Some] show ?thesis by simp
  qed (use IH in simp)
qed simp

lemma distinct_collect_child_ids:
  assumes "threads_ok threads" "distinct ord"
  shows "distinct (collect_child_ids ord threads p)"
  using distinct_map_filter [OF distinct_ids [OF assms]] by (simp add: collect_child_ids_def)

lemma descendants_refl [simp]: "x \<in> descendants threads x"
  by (simp add: descendants_def)

lemma descendants_unfold:
  "descendants threads x = insert x (\<Union>c \<in> {c. parent_of threads c = Some x}. descendants threads c)"
  by (auto simp: descendants_def elim: rtranclE intro: rtrancl_into_rtrancl)

lemma child_not_above:
  assumes "hierarchy_ok threads" "parent_of threads c = Some x"
  shows "x \<notin> descendants threads c"
proof
  assume "x \<in> descendants threads c"
  then have "(x, x) \<in> (parent_rel threads)\<^sup>+"
    using assms(2) by (auto simp: descendants_def intro: rtrancl_into_trancl1)
  with assms(1) show False by (auto simp: hierarchy_ok_def acyclic_def)
qed

text \<open>Of two threads above a third, one is above the other.\<close>

lemma ancestors_linear:
  assumes "(y, a) \<in> (parent_rel threads)\<^sup>*" "(y, b) \<in> (parent_rel threads)\<^sup>*"
  shows "(a, b) \<in> (parent_rel threads)\<^sup>* \<or> (b, a) \<in> (parent_rel threads)\<^sup>*"
  using assms
proof (induction rule: rtrancl_induct)
  case (step a a')
  then consider "(a, b) \<in> (parent_rel threads)\<^sup>*" | "(b, a) \<in> (parent_rel threads)\<^sup>*" by blast
  then show ?case
  proof cases
    case 1
    then show ?thesis
    proof (cases rule: converse_rtranclE)
      case base
      then show ?thesis using step by auto
    next
      case (step c)
      then have "c = a'" using \<open>(a, a') \<in> parent_rel threads\<close> by simp
      with step show ?thesis by simp
    qed
  next
    case 2
    then show ?thesis using step.hyps(2) by (auto intro: rtrancl_into_rtrancl)
  qed
qed simp

lemma siblings_disjoint:
  assumes ok: "hierarchy_ok threads"
    and a: "parent_of threads a = Some x" and b: "parent_of threads b = Some x" and "a \<noteq> b"
  shows "descendants threads a \<inter> descendants threads b = {}"
proof (rule equals0I)
  fix y assume "y \<in> descendants threads a \<inter> descendants threads b"
  then have "(a, b) \<in> (parent_rel threads)\<^sup>* \<or> (b, a) \<in> (parent_rel threads)\<^sup>*"
    by (intro ancestors_linear) (auto simp: descendants_def)
  moreover have False if "(c, d) \<in> (parent_rel threads)\<^sup>*" "c \<noteq> d" "parent_of threads c = Some x"
      "parent_of threads d = Some x" for c d
  proof -
    from that(1,2) obtain p where "(c, p) \<in> parent_rel threads" "(p, d) \<in> (parent_rel threads)\<^sup>*"
      by (meson converse_rtranclE)
    with that(3) have "x \<in> descendants threads d" by (simp add: descendants_def)
    with child_not_above [OF ok that(4)] show False ..
  qed
  ultimately show False using a b \<open>a \<noteq> b\<close> by metis
qed

section \<open>The cascade\<close>

definition unexpanded :: "(string \<times> bool) list \<Rightarrow> string list" where
  "unexpanded stack = map fst (filter (\<lambda>e. \<not> snd e) stack)"

definition expanded_ids :: "(string \<times> bool) list \<Rightarrow> string list" where
  "expanded_ids stack = map fst (filter snd stack)"

lemma expanded_ids_simps [simp]:
  "expanded_ids [] = []"
  "expanded_ids ((x, b) # stack) = (if b then x # expanded_ids stack else expanded_ids stack)"
  "expanded_ids (s @ t) = expanded_ids s @ expanded_ids t"
  "expanded_ids (map (\<lambda>c. (c, False)) cs) = []"
  by (simp_all add: expanded_ids_def comp_def)

lemma unexpanded_simps [simp]:
  "unexpanded [] = []"
  "unexpanded ((x, b) # stack) = (if b then unexpanded stack else x # unexpanded stack)"
  "unexpanded (s @ t) = unexpanded s @ unexpanded t"
  "unexpanded (map (\<lambda>c. (c, False)) cs) = cs"
  by (simp_all add: unexpanded_def comp_def)

lemma cascade_loop_collects:
  assumes "threads_ok threads" "hash_order ord (fmlookup threads)" "hierarchy_ok threads"
    "sorted_wrt (\<lambda>x y. descendants threads x \<inter> descendants threads y = {}) (unexpanded stack)"
    "\<And>x. x \<in> set (unexpanded stack) \<Longrightarrow> descendants threads x \<inter> visited = {}"
  shows "\<exists>more. cascade_loop ord threads tid visited stack order = Inr (order @ more) \<and>
    set more = set (expanded_ids stack) \<union> (\<Union>x \<in> set (unexpanded stack). descendants threads x)"
  using assms
proof (induction ord threads tid visited stack order rule: cascade_loop.induct)
  case (2 ord threads tid visited current expanded stack order)
  show ?case
  proof (cases expanded)
    case True
    then obtain more where "cascade_loop ord threads tid visited stack (order @ [current]) = Inr ((order @ [current]) @ more)"
        "set more = set (expanded_ids stack) \<union> (\<Union>x \<in> set (unexpanded stack). descendants threads x)"
      using 2 by auto
    with True show ?thesis by (intro exI [of _ "current # more"]) auto
  next
    case False
    let ?cs = "collect_child_ids ord threads current"
    let ?D = "descendants threads"
    have cs: "set ?cs = {c. parent_of threads c = Some current}" "distinct ?cs"
      using set_collect_child_ids distinct_collect_child_ids 2(3,4) by (auto simp: hash_order_def)
    have D: "?D current = insert current (\<Union>c \<in> set ?cs. ?D c)"
      unfolding cs by (rule descendants_unfold)
    have rest: "?D current \<inter> ?D x = {}" if "x \<in> set (unexpanded stack)" for x
      using 2(6) False that by simp
    have fresh: "current \<notin> visited" using 2(7) [of current] False descendants_refl by fastforce
    have "sorted_wrt (\<lambda>x y. ?D x \<inter> ?D y = {}) ?cs"
      unfolding sorted_wrt_iff_nth_less
    proof (intro allI impI)
      fix i j assume ij: "i < j" "j < length ?cs"
      then have "?cs ! i \<in> set ?cs" "?cs ! j \<in> set ?cs" "?cs ! i \<noteq> ?cs ! j"
        using cs(2) by (auto simp: nth_eq_iff_index_eq)
      then show "?D (?cs ! i) \<inter> ?D (?cs ! j) = {}"
        unfolding cs(1) by (intro siblings_disjoint [OF 2(5)]) auto
    qed
    moreover have "?D c \<inter> ?D x = {}" if "c \<in> set ?cs" "x \<in> set (unexpanded stack)" for c x
      using rest [OF that(2)] D that(1) by auto
    ultimately have sorted: "sorted_wrt (\<lambda>x y. ?D x \<inter> ?D y = {})
        (unexpanded (map (\<lambda>c. (c, False)) ?cs @ (current, True) # stack))"
      using 2(6) False by (simp add: sorted_wrt_append)
    have unvisited: "?D x \<inter> insert current visited = {}"
      if "x \<in> set (unexpanded (map (\<lambda>c. (c, False)) ?cs @ (current, True) # stack))" for x
    proof -
      from that consider "x \<in> set ?cs" | "x \<in> set (unexpanded stack)" by auto
      then show ?thesis
      proof cases
        case 1
        then have "?D x \<subseteq> ?D current" using D by auto
        moreover have "current \<notin> ?D x" using 1 cs(1) child_not_above [OF 2(5)] by simp
        ultimately show ?thesis using 2(7) [of current] False by auto
      next
        case 2
        then show ?thesis using rest [OF 2] "2.prems"(5) [of x] D by (auto split: if_splits)
      qed
    qed
    obtain more where "cascade_loop ord threads tid (insert current visited)
          (map (\<lambda>c. (c, False)) ?cs @ (current, True) # stack) order = Inr (order @ more)"
        "set more = set (expanded_ids (map (\<lambda>c. (c, False)) ?cs @ (current, True) # stack)) \<union>
          (\<Union>x \<in> set (unexpanded (map (\<lambda>c. (c, False)) ?cs @ (current, True) # stack)). ?D x)"
      using "2.IH"(2) [OF False fresh "2.prems"(1-3) sorted unvisited] by auto
    with False fresh D show ?thesis by (intro exI [of _ more]) auto
  qed
qed simp

lemma cascade_order_descendants:
  assumes "threads_ok threads" "hash_order ord (fmlookup threads)" "hierarchy_ok threads"
  shows "\<exists>order. cascade_order ord threads tid = Inr order \<and> set order = descendants threads tid"
  using cascade_loop_collects [OF assms, of "[(tid, False)]" "{}" tid "[]"]
  by (auto simp: cascade_order_def simp del: cascade_loop.simps)

end
