(* ===== verification/Message_Correct.thy ===== *)
theory Message_Correct
imports Message "HOL-Library.Multiset"
begin

text \<open>
  What may be appended to a log, declaratively, and what the read-time views of a log show: the view
  without unanswered tool calls pairs calls with results, and the effective view is the log with every
  compacted interval replaced by its summary.
\<close>

section \<open>Checks in sequence\<close>

lemma first_error_Inr: "first_error rs = Inr () \<longleftrightarrow> (\<forall>r \<in> set rs. r = Inr ())"
  by (induction rs) (auto split: sum.splits)

lemma first_error_Inl: "first_error rs = Inl e \<Longrightarrow> \<exists>r \<in> set rs. r = Inl e"
  by (induction rs) (auto split: sum.splits)

lemma first_error_cases: "first_error rs = Inr () \<or> (\<exists>e. first_error rs = Inl e)"
  by (rule sum_unit_cases)

section \<open>What may be appended\<close>

lemma validate_tool_calls_Inr:
  "validate_tool_calls mid ids cs = Inr () \<longleftrightarrow>
     (\<forall>c \<in> set cs. \<not> is_blank (call_id c) \<and> \<not> is_blank (call_name c)) \<and>
     distinct (map call_id cs) \<and> set (map call_id cs) \<inter> set ids = {}"
  by (induction mid ids cs rule: validate_tool_calls.induct) auto

text \<open>The shape of a committed message.\<close>

definition message_shape :: "message \<Rightarrow> bool" where
  "message_shape m \<longleftrightarrow> (\<exists>mid. msg_id m = Some mid \<and> \<not> is_blank mid) \<and>
     (if msg_role m = RoleTool then \<exists>i. msg_tool_call_id m = Some i \<and> \<not> is_blank i
      else msg_tool_call_id m = None) \<and>
     (\<forall>calls. msg_tool_calls m = Some calls \<longrightarrow> msg_role m = RoleAssistant \<and>
        (\<forall>c \<in> set calls. \<not> is_blank (call_id c) \<and> \<not> is_blank (call_name c)) \<and>
        distinct (map call_id calls))"

lemma validate_message_shape_Inr: "validate_message_shape m ctx = Inr () \<longleftrightarrow> message_shape m"
  by (auto simp: validate_message_shape_def validate_tool_call_id_def message_shape_def
      validate_tool_calls_Inr split: option.splits sum.splits)

text \<open>A compaction mark names an interval of the messages before its own.\<close>

definition mark_within :: "u64 \<Rightarrow> message \<Rightarrow> bool" where
  "mark_within s m \<longleftrightarrow> (\<forall>c. Option.bind (msg_metadata m) md_compaction = Some c \<longrightarrow>
     0 < cm_from_seq c \<and> cm_from_seq c \<le> cm_to_seq c \<and> cm_to_seq c < s)"

lemma validate_message_for_append_Inr:
  "validate_message_for_append m s = Inr () \<longleftrightarrow> message_shape m \<and> mark_within s m"
  by (auto simp: validate_message_for_append_def mark_within_def validate_compaction_mark_def
      validate_message_shape_Inr [of m "''append delta''", symmetric] word_neq_0_conv
      split: sum.splits option.splits)

lemma message_key_Some: "message_shape m \<Longrightarrow> msg_id m = Some (message_key m)"
  by (auto simp: message_shape_def message_key_def)

lemma validate_delta_Inr:
  "validate_delta E D s l = Inr () \<longleftrightarrow>
     (\<forall>i < length l. message_shape (l ! i) \<and> mark_within (s + of_nat i) (l ! i)) \<and>
     distinct (map message_key l) \<and> message_key ` set l \<inter> (set E \<union> set D) = {}"
proof (induction E D s l rule: validate_delta.induct)
  case (2 E D s m ms)
  have "(\<forall>i < length (m # ms). P ((m # ms) ! i) (s + of_nat i)) \<longleftrightarrow>
      P m s \<and> (\<forall>i < length ms. P (ms ! i) (s + 1 + of_nat i))" for P
    by (auto simp: less_Suc_eq_0_disj add.assoc)
  note split = this [of "\<lambda>m s. message_shape m \<and> mark_within s m"]
  show ?case
  proof (cases "validate_message_for_append m s")
    case (Inl e)
    then have "\<not> (message_shape m \<and> mark_within s m)"
      by (simp add: validate_message_for_append_Inr [symmetric])
    with Inl show ?thesis unfolding split by auto
  next
    case (Inr u)
    then have ok: "message_shape m \<and> mark_within s m"
      by (simp add: validate_message_for_append_Inr [symmetric])
    have "validate_delta E (message_key m # D) (s + 1) ms = Inr () \<longleftrightarrow>
        (\<forall>i < length ms. message_shape (ms ! i) \<and> mark_within (s + 1 + of_nat i) (ms ! i)) \<and>
        distinct (map message_key ms) \<and> message_key ` set ms \<inter> (set E \<union> set (message_key m # D)) = {}"
      if "message_key m \<notin> set E" "message_key m \<notin> set D" using "2.IH" [OF Inr] that by simp
    with Inr ok show ?thesis unfolding split by auto
  qed
qed simp

text \<open>A log that may be committed: the declarative counterpart of \<^verbatim>\<open>validate_committed_messages\<close>.\<close>

definition log_ok :: "message list \<Rightarrow> bool" where
  "log_ok l \<longleftrightarrow> (\<forall>i < length l. message_shape (l ! i) \<and> mark_within (of_nat i + 1) (l ! i)) \<and>
     distinct (map message_key l)"

lemma validate_committed_messages_Inr [simp]: "validate_committed_messages l = Inr () \<longleftrightarrow> log_ok l"
  by (simp add: validate_committed_messages_def validate_append_only_delta_def validate_delta_Inr
      log_ok_def map_filter_simps add.commute)

lemma log_ok_Nil [simp]: "log_ok []"
  by (simp add: log_ok_def)

lemma log_ok_shape: "log_ok l \<Longrightarrow> m \<in> set l \<Longrightarrow> message_shape m"
  by (auto simp: log_ok_def in_set_conv_nth)

lemma map_filter_msg_id:
  "(\<And>m. m \<in> set l \<Longrightarrow> message_shape m) \<Longrightarrow> List.map_filter msg_id l = map message_key l"
  by (induction l) (auto simp: map_filter_simps message_key_Some)

lemma all_nth_append:
  "(\<forall>i < length (l @ d). P ((l @ d) ! i) i) \<longleftrightarrow>
     (\<forall>i < length l. P (l ! i) i) \<and> (\<forall>i < length d. P (d ! i) (length l + i))"
proof -
  have "(\<forall>i < length (l @ d). Q i) \<longleftrightarrow> (\<forall>i < length l. Q i) \<and> (\<forall>i < length d. Q (length l + i))" for Q
  proof (intro iffI conjI allI impI)
    fix i assume all: "(\<forall>i < length l. Q i) \<and> (\<forall>i < length d. Q (length l + i))" and i: "i < length (l @ d)"
    show "Q i"
    proof (cases "i < length l")
      case False
      then have "Q (length l + (i - length l))" using all i by (intro mp [OF spec [OF conjunct2 [OF all]]]) auto
      with False show ?thesis by simp
    qed (use all in simp)
  qed auto
  from this [of "\<lambda>i. P ((l @ d) ! i) i"] show ?thesis by (simp add: nth_append)
qed

lemma validate_append_only_delta_Inr:
  assumes "log_ok l"
  shows "validate_append_only_delta l d = Inr () \<longleftrightarrow> log_ok (l @ d)"
proof -
  note split = all_nth_append [of l d "\<lambda>m i. message_shape m \<and> mark_within (of_nat i + 1) m"]
  have "List.map_filter msg_id l = map message_key l"
    by (rule map_filter_msg_id) (rule log_ok_shape [OF assms])
  then have "validate_append_only_delta l d = Inr () \<longleftrightarrow>
      (\<forall>i < length d. message_shape (d ! i) \<and> mark_within (of_nat (length l) + 1 + of_nat i) (d ! i)) \<and>
      distinct (map message_key d) \<and> message_key ` set d \<inter> message_key ` set l = {}"
    by (simp add: validate_append_only_delta_def validate_delta_Inr)
  with assms show ?thesis
    unfolding log_ok_def split map_append distinct_append set_map of_nat_add
    by (simp add: Int_commute add.assoc add.commute [of 1])
qed

lemma merge_checkpoint_append_Inr:
  "log_ok l \<Longrightarrow> merge_checkpoint_append_messages l d = (Inr (), l') \<longleftrightarrow> log_ok (l @ d) \<and> l' = l @ d"
  using validate_append_only_delta_Inr [of l d]
  by (auto simp: merge_checkpoint_append_messages_def split: sum.splits)

section \<open>Records\<close>

lemma length_records_from [simp]: "length (records_from gens tid s l) = length l"
  by (simp add: records_from_def)

lemma nth_records_from:
  "i < length l \<Longrightarrow> records_from gens tid s l ! i = record_from_message (gens i) tid (s + of_nat i) (l ! i)"
  by (simp add: records_from_def nth_enumerate_eq)

lemma record_of_shaped:
  assumes "message_shape m"
  shows "mr_message (record_from_message gen tid s m) = m"
    "mr_message_id (record_from_message gen tid s m) = message_key m"
    "mr_seq (record_from_message gen tid s m) = s"
    "mr_thread_id (record_from_message gen tid s m) = tid"
    "mr_compaction (record_from_message gen tid s m) = Option.bind (msg_metadata m) md_compaction"
  using message_key_Some [OF assms] by (auto simp: record_from_message_def Let_def)

lemma records_messages:
  assumes "\<And>m. m \<in> set l \<Longrightarrow> message_shape m"
  shows "map mr_message (records_from gens tid s l) = l"
proof (rule nth_equalityI)
  fix i assume "i < length (map mr_message (records_from gens tid s l))"
  then have i: "i < length l" by simp
  with assms have "message_shape (l ! i)" by simp
  then show "map mr_message (records_from gens tid s l) ! i = l ! i"
    using i by (simp add: nth_records_from record_of_shaped)
qed simp

lemma records_from_Cons:
  "records_from gens tid s (m # l) =
     record_from_message (gens 0) tid s m # records_from (\<lambda>i. gens (Suc i)) tid (s + 1) l"
  by (rule nth_equalityI)
    (auto simp: nth_records_from nth_Cons add.assoc split: nat.splits)

lemma validate_records_from:
  "(\<And>m. m \<in> set l \<Longrightarrow> message_shape m) \<Longrightarrow> validate_records_at tid s (records_from gens tid s l) = Inr ()"
proof (induction l arbitrary: s gens)
  case (Cons m l)
  then have "message_shape m" by simp
  with Cons show ?case
    by (simp add: records_from_Cons record_of_shaped message_key_Some)
qed (simp add: records_from_def)


section \<open>The view without unanswered tool calls\<close>

lemma answered_calls_iff:
  "i \<in> set (answered_calls v ms) \<longleftrightarrow>
     (\<exists>m \<in> set ms. msg_role m = RoleTool \<and> msg_visibility m = v \<and> msg_tool_call_id m = Some i)"
  by (induction ms) (auto simp: answered_calls_def map_filter_simps split: option.splits)

lemma strip_calls_simps [simp]:
  "msg_role (strip_calls keep m) = msg_role m"
  "msg_visibility (strip_calls keep m) = msg_visibility m"
  "msg_tool_call_id (strip_calls keep m) = msg_tool_call_id m"
  "(strip_calls keep m)\<lparr>msg_tool_calls := None\<rparr> = m\<lparr>msg_tool_calls := None\<rparr>"
  by (auto simp: strip_calls_def Let_def split: option.splits)

lemma strip_calls_kept:
  "msg_role m = RoleAssistant \<Longrightarrow> msg_tool_calls (strip_calls keep m) = Some cs \<Longrightarrow>
     \<exists>calls. msg_tool_calls m = Some calls \<and> cs = filter keep calls \<and> cs \<noteq> []"
  by (auto simp: strip_calls_def Let_def split: option.splits if_splits)

lemma strip_calls_id:
  "(\<And>calls. msg_role m = RoleAssistant \<Longrightarrow> msg_tool_calls m = Some calls \<Longrightarrow>
      calls \<noteq> [] \<and> (\<forall>c \<in> set calls. keep c)) \<Longrightarrow> strip_calls keep m = m"
  by (cases "msg_tool_calls m")
    (auto simp: strip_calls_def Let_def filter_id_conv split: if_splits)

definition retracted_ids :: "message list \<Rightarrow> string set" where
  "retracted_ids ms = set (answered_calls VisibleInternal ms)"

definition answered_ids :: "message list \<Rightarrow> string set" where
  "answered_ids ms = set (answered_calls VisibleAll ms) - retracted_ids ms"

definition view_keeps :: "string set \<Rightarrow> message \<Rightarrow> bool" where
  "view_keeps retracted m \<longleftrightarrow> msg_role m \<noteq> RoleTool \<or>
     (\<forall>i. msg_tool_call_id m = Some i \<longrightarrow> msg_visibility m = VisibleAll \<and> i \<notin> retracted)"

lemma strip_view_alt:
  "strip_unpaired_tool_calls_from_view ms =
     filter (view_keeps (retracted_ids ms)) (map (strip_calls (\<lambda>c. call_id c \<in> answered_ids ms)) ms)"
proof -
  have "view_keeps (retracted_ids ms) = (\<lambda>m. msg_role m \<noteq> RoleTool \<or>
      (case msg_tool_call_id m of Some i \<Rightarrow> msg_visibility m = VisibleAll \<and>
         i \<notin> set (answered_calls VisibleInternal ms) | None \<Rightarrow> True))"
    by (auto simp: fun_eq_iff view_keeps_def retracted_ids_def split: option.splits)
  then show ?thesis
    by (simp add: strip_unpaired_tool_calls_from_view_def Let_def answered_ids_def retracted_ids_def)
qed

lemma view_keeps_strip [simp]: "view_keeps R (strip_calls keep m) \<longleftrightarrow> view_keeps R m"
  by (simp add: view_keeps_def)

lemma strip_view_member:
  "v \<in> set (strip_unpaired_tool_calls_from_view ms) \<longleftrightarrow>
     (\<exists>m \<in> set ms. v = strip_calls (\<lambda>c. call_id c \<in> answered_ids ms) m \<and> view_keeps (retracted_ids ms) m)"
  by (auto simp: strip_view_alt)

lemma retracted_iff:
  "i \<in> retracted_ids ms \<longleftrightarrow>
     (\<exists>m \<in> set ms. msg_role m = RoleTool \<and> msg_visibility m = VisibleInternal \<and> msg_tool_call_id m = Some i)"
  by (simp add: retracted_ids_def answered_calls_iff)

lemma retracted_in_view: "retracted_ids (strip_unpaired_tool_calls_from_view ms) = {}"
proof (rule equals0I)
  fix i assume "i \<in> retracted_ids (strip_unpaired_tool_calls_from_view ms)"
  then show False by (auto simp: retracted_iff strip_view_member view_keeps_def)
qed

lemma answered_in_view:
  "answered_ids (strip_unpaired_tool_calls_from_view ms) = answered_ids ms"
proof (intro set_eqI iffI)
  fix i assume "i \<in> answered_ids (strip_unpaired_tool_calls_from_view ms)"
  then show "i \<in> answered_ids ms"
    by (auto simp: answered_ids_def answered_calls_iff strip_view_member view_keeps_def) blast
next
  fix i assume "i \<in> answered_ids ms"
  then obtain m where m: "m \<in> set ms" "msg_role m = RoleTool" "msg_visibility m = VisibleAll"
      "msg_tool_call_id m = Some i" "i \<notin> retracted_ids ms"
    by (auto simp: answered_ids_def answered_calls_iff)
  then have "view_keeps (retracted_ids ms) m" by (simp add: view_keeps_def)
  moreover have "strip_calls (\<lambda>c. call_id c \<in> answered_ids ms) m = m"
    using m by (simp add: strip_calls_def)
  ultimately have "m \<in> set (strip_unpaired_tool_calls_from_view ms)"
    using m(1) by (metis strip_view_member)
  with m show "i \<in> answered_ids (strip_unpaired_tool_calls_from_view ms)"
    unfolding answered_ids_def retracted_in_view by (auto simp: answered_calls_iff)
qed

lemma strip_view_calls:
  assumes "v \<in> set (strip_unpaired_tool_calls_from_view ms)" "msg_role v = RoleAssistant"
    "msg_tool_calls v = Some calls"
  shows "calls \<noteq> [] \<and> (\<forall>c \<in> set calls. call_id c \<in> answered_ids ms)"
  using assms strip_calls_kept by (fastforce simp: strip_view_member)

lemma answered_call_stays:
  assumes "m \<in> set ms" "msg_role m = RoleAssistant" "msg_tool_calls m = Some calls" "c \<in> set calls"
    "t \<in> set ms" "msg_role t = RoleTool" "msg_visibility t = VisibleAll" "msg_tool_call_id t = Some (call_id c)"
    "\<forall>t \<in> set ms. msg_role t = RoleTool \<and> msg_tool_call_id t = Some (call_id c) \<longrightarrow> msg_visibility t = VisibleAll"
  shows "\<exists>cs. m\<lparr>msg_tool_calls := Some cs\<rparr> \<in> set (strip_unpaired_tool_calls_from_view ms) \<and> c \<in> set cs"
proof -
  have "call_id c \<in> answered_ids ms"
    using assms(5-9) by (auto simp: answered_ids_def answered_calls_iff retracted_iff)
  with assms(4) have c: "c \<in> set (filter (\<lambda>c. call_id c \<in> answered_ids ms) calls)" by simp
  then have "strip_calls (\<lambda>c. call_id c \<in> answered_ids ms) m =
      m\<lparr>msg_tool_calls := Some (filter (\<lambda>c. call_id c \<in> answered_ids ms) calls)\<rparr>"
    using assms(2,3) by (auto simp: strip_calls_def Let_def filter_empty_conv)
  moreover have "view_keeps (retracted_ids ms) m" using assms(2) by (simp add: view_keeps_def)
  ultimately show ?thesis using assms(1) c unfolding strip_view_member by metis
qed

lemma visible_result_stays:
  assumes "m \<in> set ms" "msg_role m = RoleTool" "msg_visibility m = VisibleAll"
    "\<forall>t \<in> set ms. msg_role t = RoleTool \<and> msg_tool_call_id t = msg_tool_call_id m \<longrightarrow> msg_visibility t = VisibleAll"
  shows "m \<in> set (strip_unpaired_tool_calls_from_view ms)"
proof -
  have "strip_calls (\<lambda>c. call_id c \<in> answered_ids ms) m = m" using assms(2) by (simp add: strip_calls_def)
  moreover have "view_keeps (retracted_ids ms) m"
    using assms(2-4) by (auto simp: view_keeps_def retracted_iff split: option.splits)
  ultimately show ?thesis using assms(1) unfolding strip_view_member by metis
qed

lemma strip_view_idempotent:
  "strip_unpaired_tool_calls_from_view (strip_unpaired_tool_calls_from_view ms) =
   strip_unpaired_tool_calls_from_view ms"
proof -
  let ?v = "strip_unpaired_tool_calls_from_view ms"
  have "strip_calls (\<lambda>c. call_id c \<in> answered_ids ms) m = m" if "m \<in> set ?v" for m
    by (rule strip_calls_id) (rule strip_view_calls [OF that])
  then have "map (strip_calls (\<lambda>c. call_id c \<in> answered_ids ms)) ?v = ?v" by (simp add: map_idI)
  moreover have "filter (view_keeps {}) ?v = ?v"
    by (rule filter_True) (auto simp: strip_view_member view_keeps_def)
  ultimately show ?thesis
    by (subst strip_view_alt) (simp add: answered_in_view retracted_in_view)
qed

lemma strip_view_rest:
  "map (\<lambda>m. m\<lparr>msg_tool_calls := None\<rparr>) (filter (\<lambda>m. msg_role m \<noteq> RoleTool)
     (strip_unpaired_tool_calls_from_view ms)) =
   map (\<lambda>m. m\<lparr>msg_tool_calls := None\<rparr>) (filter (\<lambda>m. msg_role m \<noteq> RoleTool) ms)"
proof -
  have "map (\<lambda>m. m\<lparr>msg_tool_calls := None\<rparr>) (filter (\<lambda>m. msg_role m \<noteq> RoleTool)
        (filter (view_keeps R) (map (strip_calls keep) l))) =
      map (\<lambda>m. m\<lparr>msg_tool_calls := None\<rparr>) (filter (\<lambda>m. msg_role m \<noteq> RoleTool) l)" for R keep l
    by (induction l) (auto simp: view_keeps_def)
  then show ?thesis by (simp add: strip_view_alt)
qed


section \<open>The effective view\<close>

text \<open>The intervals that the summaries of a log name, and those that win.\<close>

definition covers :: "interval \<Rightarrow> interval \<Rightarrow> bool" where
  "covers k c \<longleftrightarrow> fst k \<le> fst c \<and> fst (snd c) \<le> fst (snd k)"

lemma dominated_by_iff: "dominated_by kept c \<longleftrightarrow> (\<exists>k \<in> set kept. covers k c)"
  by (auto simp: dominated_by_def covers_def list_ex_iff)

lemma covers_refl [simp]: "covers k k"
  by (simp add: covers_def)

lemma covers_trans: "covers a b \<Longrightarrow> covers b c \<Longrightarrow> covers a c"
  by (auto simp: covers_def)

lemma keep_undominated_subset: "set (keep_undominated kept cs) \<subseteq> set kept \<union> set cs"
proof (induction kept cs rule: keep_undominated.induct)
  case (2 kept c cs)
  then show ?case by (cases "dominated_by kept c") auto
qed simp

lemma keep_undominated_kept: "set kept \<subseteq> set (keep_undominated kept cs)"
proof (induction kept cs rule: keep_undominated.induct)
  case (2 kept c cs)
  then show ?case by (cases "dominated_by kept c") auto
qed simp

lemma keep_undominated_covers:
  "c \<in> set cs \<Longrightarrow> \<exists>k \<in> set (keep_undominated kept cs). covers k c"
proof (induction kept cs rule: keep_undominated.induct)
  case (2 kept d cs)
  let ?kept = "if dominated_by kept d then kept else kept @ [d]"
  show ?case
  proof (cases "c = d")
    case True
    have "\<exists>k \<in> set ?kept. covers k d"
    proof (cases "dominated_by kept d")
      case True
      then show ?thesis by (simp add: dominated_by_iff)
    next
      case False
      then show ?thesis using covers_refl [of d] by auto
    qed
    then have "\<exists>k \<in> set (keep_undominated ?kept cs). covers k d"
      using keep_undominated_kept [of ?kept cs] by blast
    with True show ?thesis by simp
  qed (use 2 in auto)
qed simp

lemma minus_one_minus_le: "- 1 - a \<le> - 1 - b \<longleftrightarrow> b \<le> a" for a b :: "'w::len word"
proof -
  have "unat x \<le> unat (- 1 :: 'w word)" for x :: "'w word"
    using word_order.extremum [of x] by (simp only: word_le_nat_alt)
  moreover have "unat (- 1 - x) = unat (- 1 :: 'w word) - unat x" for x :: "'w word"
    by (rule unat_sub) (rule word_order.extremum)
  ultimately show ?thesis
    unfolding word_le_nat_alt by (metis diff_diff_cancel diff_le_mono2)
qed

text \<open>The kept intervals move to the right at both ends.\<close>

definition ascends :: "interval \<Rightarrow> interval \<Rightarrow> bool" where
  "ascends a b \<longleftrightarrow> fst a < fst b \<and> fst (snd a) < fst (snd b)"

lemma keep_undominated_ascends:
  assumes "sorted_wrt ascends kept" "sorted (map interval_key cs)"
    "\<And>k c. k \<in> set kept \<Longrightarrow> c \<in> set cs \<Longrightarrow> interval_key k \<le> interval_key c"
  shows "sorted_wrt ascends (keep_undominated kept cs)"
  using assms
proof (induction kept cs rule: keep_undominated.induct)
  case (2 kept c cs)
  show ?case
  proof (cases "dominated_by kept c")
    case True
    with 2 show ?thesis by simp
  next
    case False
    have "ascends k c" if k: "k \<in> set kept" for k
    proof -
      have "\<not> covers k c" using False k by (auto simp: dominated_by_iff)
      moreover have "interval_key k \<le> interval_key c" using "2.prems"(3) k by simp
      ultimately show ?thesis
        by (auto simp: covers_def ascends_def interval_key_def less_eq_prod_def not_le
            minus_one_minus_le split: prod.splits)
    qed
    then have "sorted_wrt ascends (keep_undominated (if dominated_by kept c then kept else kept @ [c]) cs)"
      using "2.prems" False by (intro "2.IH") (auto simp: sorted_wrt_append)
    then show ?thesis by simp
  qed
qed simp

definition marks :: "message_record list \<Rightarrow> interval list" where
  "marks rs = List.map_filter interval_of rs"

lemma winning_subset: "set (winning_intervals rs) \<subseteq> set (marks rs)"
  using keep_undominated_subset [of "[]" "sort_key interval_key (marks rs)"]
  by (simp add: winning_intervals_def marks_def)

lemma winning_covers: "c \<in> set (marks rs) \<Longrightarrow> \<exists>k \<in> set (winning_intervals rs). covers k c"
  using keep_undominated_covers [of c "sort_key interval_key (marks rs)" "[]"]
  by (simp add: winning_intervals_def marks_def)

lemma winning_ascends: "sorted_wrt ascends (winning_intervals rs)"
proof -
  have kept: "sorted_wrt ascends (keep_undominated [] (sort_key interval_key (List.map_filter interval_of rs)))"
    by (rule keep_undominated_ascends) simp_all
  then have "sorted (map fst (keep_undominated [] (sort_key interval_key (List.map_filter interval_of rs))))"
    by (auto simp: ascends_def sorted_wrt_map elim!: sorted_wrt_mono_rel [rotated])
  then have "winning_intervals rs = keep_undominated [] (sort_key interval_key (List.map_filter interval_of rs))"
    by (simp add: winning_intervals_def sort_key_id_if_sorted)
  with kept show ?thesis by simp
qed

lemma covered_by_iff: "covered_by ivs s \<longleftrightarrow> (\<exists>iv \<in> set ivs. fst iv \<le> s \<and> s \<le> fst (snd iv))"
  by (simp add: covered_by_def list_ex_iff case_prod_unfold)

lemma covered_by_winning: "covered_by (winning_intervals rs) s \<longleftrightarrow> covered_by (marks rs) s"
proof
  assume "covered_by (winning_intervals rs) s"
  then show "covered_by (marks rs) s" using winning_subset by (fastforce simp: covered_by_iff)
next
  assume "covered_by (marks rs) s"
  then obtain iv where "iv \<in> set (marks rs)" "fst iv \<le> s" "s \<le> fst (snd iv)"
    by (auto simp: covered_by_iff)
  moreover then obtain k where "k \<in> set (winning_intervals rs)" "covers k iv" using winning_covers by blast
  ultimately show "covered_by (winning_intervals rs) s"
    by (meson covered_by_iff covers_def order_trans)
qed


text \<open>The two orders in which the loop meets intervals and records merge into a stable sort.\<close>

lemma sort_key_split:
  assumes "sorted (map f P)" "\<And>y. y \<in> set R \<Longrightarrow> s \<le> f y"
  shows "sort_key f (P @ R) = takeWhile (\<lambda>p. f p \<le> s) P @ sort_key f (dropWhile (\<lambda>p. f p \<le> s) P @ R)"
    (is "_ = ?T @ sort_key f (?D @ R)")
proof (rule properties_for_sort_key)
  show "mset (?T @ sort_key f (?D @ R)) = mset (P @ R)"
    by (metis append_assoc mset_append mset_sort takeWhile_dropWhile_id)
  show "filter (\<lambda>x. f k = f x) (?T @ sort_key f (?D @ R)) = filter (\<lambda>x. f k = f x) (P @ R)" for k
  proof -
    have "filter (\<lambda>x. f k = f x) (sort_key f (?D @ R)) = filter (\<lambda>x. f k = f x) (?D @ R)"
      using sort_key_stable [of f "f k" "?D @ R"] by (simp add: eq_commute [of "f k"])
    then have "filter (\<lambda>x. f k = f x) (?T @ sort_key f (?D @ R)) = filter (\<lambda>x. f k = f x) ((?T @ ?D) @ R)"
      by (simp only: filter_append append_assoc)
    then show ?thesis by simp
  qed
  have "f a \<le> f b" if "a \<in> set ?T" "b \<in> set (?D @ R)" for a b
  proof (cases "b \<in> set R")
    case True
    have "f a \<le> s" using that(1) by (auto dest: set_takeWhileD)
    also have "s \<le> f b" using assms(2) [OF True] .
    finally show ?thesis .
  next
    case False
    with that have "b \<in> set ?D" by simp
    moreover have "sorted (map f (?T @ ?D))" using assms(1) by simp
    ultimately show ?thesis using that(1) by (auto simp: sorted_append simp del: takeWhile_dropWhile_id)
  qed
  moreover have "sorted (map f ?T)" using assms(1)
    by (metis map_append sorted_append takeWhile_dropWhile_id)
  ultimately show "sorted (map f (?T @ sort_key f (?D @ R)))"
    by (auto simp: sorted_append)
qed

lemma sort_key_least:
  assumes "\<And>y. y \<in> set D \<Longrightarrow> f r < f y" "\<And>y. y \<in> set R \<Longrightarrow> f r \<le> f y"
  shows "sort_key f (D @ r # R) = r # sort_key f (D @ R)"
proof (rule properties_for_sort_key)
  show "filter (\<lambda>x. f k = f x) (r # sort_key f (D @ R)) = filter (\<lambda>x. f k = f x) (D @ r # R)" for k
  proof -
    have "filter (\<lambda>x. f k = f x) (sort_key f (D @ R)) = filter (\<lambda>x. f k = f x) (D @ R)"
      using sort_key_stable [of f "f k" "D @ R"] by (simp add: eq_commute [of "f k"])
    moreover have "filter (\<lambda>x. f k = f x) D = []" if "f k = f r"
      using assms(1) that by (fastforce simp: filter_empty_conv)
    ultimately show ?thesis by (cases "f k = f r") auto
  qed
  show "sorted (map f (r # sort_key f (D @ R)))"
    using assms by (auto simp: less_imp_le)
qed simp

text \<open>A message with the position at which a reader meets it.\<close>

definition at_start :: "interval \<Rightarrow> u64 \<times> message" where
  "at_start iv = (fst iv, snd (snd iv))"

definition at_seq :: "message_record \<Rightarrow> u64 \<times> message" where
  "at_seq r = (mr_seq r, mr_message r)"

lemma fold_view_sorts:
  assumes "sorted (map fst pending)" "sorted (map mr_seq rs)"
  shows "fold_view ivs pending rs =
    map snd (sort_key fst (map at_start pending @
      map at_seq (filter (\<lambda>r. \<not> covered_by ivs (mr_seq r)) rs)))"
  using assms
proof (induction rs arbitrary: pending)
  case Nil
  then show ?case by (simp add: sort_key_id_if_sorted at_start_def comp_def)
next
  case (Cons r rs)
  let ?P = "map at_start pending" and ?R = "map at_seq (filter (\<lambda>r. \<not> covered_by ivs (mr_seq r)) rs)"
  let ?due = "\<lambda>p. fst p \<le> mr_seq r"
  have later: "mr_seq r \<le> fst y" if "y \<in> set ?R" for y
    using that Cons.prems(2) by (auto simp: at_seq_def)
  have P: "sorted (map fst ?P)" using Cons.prems(1) by (simp add: at_start_def comp_def)
  have tw: "takeWhile ?due ?P = map at_start (takeWhile ?due pending)"
    and dw: "dropWhile ?due ?P = map at_start (dropWhile ?due pending)"
    by (simp_all add: takeWhile_map dropWhile_map comp_def at_start_def)
  have "sorted (map fst (dropWhile ?due pending))"
    using Cons.prems(1) sorted_append [of "map fst (takeWhile ?due pending)"]
    by (metis map_append takeWhile_dropWhile_id)
  then have IH: "fold_view ivs (dropWhile ?due pending) rs =
      map snd (sort_key fst (map at_start (dropWhile ?due pending) @ ?R))"
    using Cons.prems(2) by (intro Cons.IH) simp_all
  have due: "map (snd \<circ> snd) ivl = map snd (map at_start ivl)" for ivl
    by (simp add: at_start_def comp_def)
  show ?case
  proof (cases "covered_by ivs (mr_seq r)")
    case True
    have "sort_key fst (?P @ ?R) = takeWhile ?due ?P @ sort_key fst (dropWhile ?due ?P @ ?R)"
      by (rule sort_key_split [OF P]) (rule later)
    with True show ?thesis
      by (simp add: IH tw dw del: map_map) (simp add: at_start_def comp_def)
  next
    case False
    have "sort_key fst (?P @ at_seq r # ?R) =
        takeWhile ?due ?P @ sort_key fst (dropWhile ?due ?P @ at_seq r # ?R)"
      by (rule sort_key_split [OF P]) (use later in \<open>auto simp: at_seq_def\<close>)
    moreover have "sort_key fst (dropWhile ?due ?P @ at_seq r # ?R) = at_seq r # sort_key fst (dropWhile ?due ?P @ ?R)"
    proof (rule sort_key_least)
      fix y assume y: "y \<in> set (dropWhile ?due ?P)"
      have "sorted (map fst (dropWhile ?due ?P))"
        using P sorted_append [of "map fst (takeWhile ?due ?P)"] by (metis map_append takeWhile_dropWhile_id)
      moreover from y have ne: "dropWhile ?due ?P \<noteq> []" by (cases "dropWhile ?due ?P") simp_all
      ultimately have "fst (hd (dropWhile ?due ?P)) \<le> fst y"
        using y by (cases "dropWhile ?due ?P") auto
      with hd_dropWhile [OF ne] show "fst (at_seq r) < fst y" by (simp add: at_seq_def)
    qed (use later in \<open>simp add: at_seq_def\<close>)
    ultimately show ?thesis using False
      by (simp add: IH tw dw del: map_map) (simp add: at_start_def at_seq_def comp_def)
  qed
qed

lemma effective_messages_spec:
  assumes "sorted_wrt (<) (map mr_seq rs)"
  shows "effective_messages rs = map snd (sort_key fst (map at_start (winning_intervals rs) @
     map at_seq (filter (\<lambda>r. mr_compaction r = None \<and> \<not> covered_by (marks rs) (mr_seq r)) rs)))"
proof -
  have inj: "inj_on mr_seq (set rs)"
    using assms strict_sorted_iff [of "map mr_seq rs"] by (simp add: distinct_map)
  have raw: "mr_seq r \<notin> mr_seq ` {r \<in> set rs. \<exists>c. mr_compaction r = Some c} \<longleftrightarrow> mr_compaction r = None"
    if "r \<in> set rs" for r
  proof
    assume "mr_seq r \<notin> mr_seq ` {r \<in> set rs. \<exists>c. mr_compaction r = Some c}"
    with that show "mr_compaction r = None" by (cases "mr_compaction r") auto
  next
    assume none: "mr_compaction r = None"
    show "mr_seq r \<notin> mr_seq ` {r \<in> set rs. \<exists>c. mr_compaction r = Some c}"
    proof
      assume "mr_seq r \<in> mr_seq ` {r \<in> set rs. \<exists>c. mr_compaction r = Some c}"
      then obtain q where "q \<in> set rs" "mr_seq r = mr_seq q" "\<exists>c. mr_compaction q = Some c" by blast
      with inj that none show False by (metis inj_onD option.distinct(1))
    qed
  qed
  have raws: "filter (\<lambda>r. mr_seq r \<notin> set (map mr_seq (filter (\<lambda>r. mr_compaction r \<noteq> None) rs))) rs =
      filter (\<lambda>r. mr_compaction r = None) rs"
    by (rule filter_cong) (simp_all add: raw)
  moreover have "sorted (map fst (winning_intervals rs))"
    using winning_ascends [of rs] by (auto simp: ascends_def sorted_wrt_map elim!: sorted_wrt_mono_rel [rotated])
  moreover have "sorted (map mr_seq (filter (\<lambda>r. mr_compaction r = None) rs))"
    using assms strict_sorted_imp_sorted sorted_filter by blast
  ultimately have "effective_messages rs = map snd (sort_key fst (map at_start (winning_intervals rs) @
      map at_seq (filter (\<lambda>r. \<not> covered_by (winning_intervals rs) (mr_seq r))
        (filter (\<lambda>r. mr_compaction r = None) rs))))"
    unfolding effective_messages_def Let_def raws by (intro fold_view_sorts)
  then show ?thesis by (simp only: covered_by_winning filter_filter)
qed


lemma sorted_records:
  assumes "length l < 2 ^ 64 - 1"
  shows "sorted_wrt (<) (map mr_seq (records_from gens tid 1 l))"
proof -
  have seq: "mr_seq (record_from_message g tid s m) = s" for g s m
    by (simp add: record_from_message_def Let_def)
  have "(1 + of_nat i :: u64) < 1 + of_nat j" if "i < j" "j < length l" for i j
    using that assms by (simp add: word_less_nat_alt unat_word_ariths unat_of_nat)
  then show ?thesis
    by (simp add: sorted_wrt_iff_nth_less nth_records_from seq)
qed

section \<open>Properties\<close>

text \<open>
  C34: In the view of a log that readers get, every tool call of an assistant is answered by a visible
  tool result of the view, and is not retracted: the log has no internal tool result under its id. Every tool
  result of the view that names a call is a visible one of a call that is not retracted. A call that is
  answered in the log and not retracted stays with its assistant message, and a visible result stays when its
  call is not retracted, even when the log has no such call (the comment on the filter says otherwise, see
  \<open>orphan_tool_result_stays\<close>). Apart from tool results and the lists of tool calls the view has every message of the log,
  unchanged and in order, and viewing a view changes nothing.
\<close>
theorem tool_calls_are_paired_in_view:
  "(\<forall>m \<in> set (strip_unpaired_tool_calls_from_view ms). \<forall>calls c.
      msg_role m = RoleAssistant \<and> msg_tool_calls m = Some calls \<and> c \<in> set calls \<longrightarrow>
      (\<exists>t \<in> set (strip_unpaired_tool_calls_from_view ms). msg_role t = RoleTool \<and>
         msg_visibility t = VisibleAll \<and> msg_tool_call_id t = Some (call_id c)) \<and>
      \<not> (\<exists>t \<in> set ms. msg_role t = RoleTool \<and> msg_visibility t = VisibleInternal \<and>
         msg_tool_call_id t = Some (call_id c))) \<and>
   (\<forall>m \<in> set (strip_unpaired_tool_calls_from_view ms). \<forall>i.
      msg_role m = RoleTool \<and> msg_tool_call_id m = Some i \<longrightarrow>
      m \<in> set ms \<and> msg_visibility m = VisibleAll \<and>
      \<not> (\<exists>t \<in> set ms. msg_role t = RoleTool \<and> msg_visibility t = VisibleInternal \<and> msg_tool_call_id t = Some i)) \<and>
   (\<forall>m \<in> set ms. \<forall>calls c.
      msg_role m = RoleAssistant \<and> msg_tool_calls m = Some calls \<and> c \<in> set calls \<and>
      (\<exists>t \<in> set ms. msg_role t = RoleTool \<and> msg_visibility t = VisibleAll \<and> msg_tool_call_id t = Some (call_id c)) \<and>
      (\<forall>t \<in> set ms. msg_role t = RoleTool \<and> msg_tool_call_id t = Some (call_id c) \<longrightarrow> msg_visibility t = VisibleAll) \<longrightarrow>
      (\<exists>cs. m\<lparr>msg_tool_calls := Some cs\<rparr> \<in> set (strip_unpaired_tool_calls_from_view ms) \<and> c \<in> set cs)) \<and>
   (\<forall>m \<in> set ms. msg_role m = RoleTool \<and> msg_visibility m = VisibleAll \<and>
      (\<forall>t \<in> set ms. msg_role t = RoleTool \<and> msg_tool_call_id t = msg_tool_call_id m \<longrightarrow> msg_visibility t = VisibleAll) \<longrightarrow>
      m \<in> set (strip_unpaired_tool_calls_from_view ms)) \<and>
   map (\<lambda>m. m\<lparr>msg_tool_calls := None\<rparr>) (filter (\<lambda>m. msg_role m \<noteq> RoleTool) (strip_unpaired_tool_calls_from_view ms)) =
     map (\<lambda>m. m\<lparr>msg_tool_calls := None\<rparr>) (filter (\<lambda>m. msg_role m \<noteq> RoleTool) ms) \<and>
   strip_unpaired_tool_calls_from_view (strip_unpaired_tool_calls_from_view ms) = strip_unpaired_tool_calls_from_view ms"
proof (intro conjI ballI allI impI)
  fix m calls c
  assume m: "m \<in> set (strip_unpaired_tool_calls_from_view ms)"
    and c: "msg_role m = RoleAssistant \<and> msg_tool_calls m = Some calls \<and> c \<in> set calls"
  then have answered: "call_id c \<in> answered_ids ms"
    using strip_view_calls [of m ms calls] by simp
  then have "call_id c \<in> answered_ids (strip_unpaired_tool_calls_from_view ms)" by (simp add: answered_in_view)
  then show "\<exists>t \<in> set (strip_unpaired_tool_calls_from_view ms). msg_role t = RoleTool \<and>
      msg_visibility t = VisibleAll \<and> msg_tool_call_id t = Some (call_id c)"
    by (simp add: answered_ids_def answered_calls_iff)
  from answered have "call_id c \<notin> retracted_ids ms" by (simp add: answered_ids_def)
  then show "\<not> (\<exists>t \<in> set ms. msg_role t = RoleTool \<and> msg_visibility t = VisibleInternal \<and>
      msg_tool_call_id t = Some (call_id c))"
    by (simp add: retracted_iff)
next
  fix m i assume m: "m \<in> set (strip_unpaired_tool_calls_from_view ms)" "msg_role m = RoleTool \<and> msg_tool_call_id m = Some i"
  then obtain m0 where m0: "m0 \<in> set ms" "m = strip_calls (\<lambda>c. call_id c \<in> answered_ids ms) m0"
      "view_keeps (retracted_ids ms) m0" by (auto simp: strip_view_member)
  with m(2) have "msg_role m0 = RoleTool" by simp
  with m0(2) have "m = m0" by (simp add: strip_calls_def)
  with m0 have kept: "m \<in> set ms" "view_keeps (retracted_ids ms) m" by simp_all
  from kept(1) show "m \<in> set ms" .
  from kept(2) m(2) show "msg_visibility m = VisibleAll" by (simp add: view_keeps_def)
  from kept(2) m(2) have "i \<notin> retracted_ids ms" by (simp add: view_keeps_def)
  then show "\<not> (\<exists>t \<in> set ms. msg_role t = RoleTool \<and> msg_visibility t = VisibleInternal \<and> msg_tool_call_id t = Some i)"
    by (simp add: retracted_iff)
next
  fix m calls c
  assume m: "m \<in> set ms" and c: "msg_role m = RoleAssistant \<and> msg_tool_calls m = Some calls \<and> c \<in> set calls \<and>
      (\<exists>t \<in> set ms. msg_role t = RoleTool \<and> msg_visibility t = VisibleAll \<and> msg_tool_call_id t = Some (call_id c)) \<and>
      (\<forall>t \<in> set ms. msg_role t = RoleTool \<and> msg_tool_call_id t = Some (call_id c) \<longrightarrow> msg_visibility t = VisibleAll)"
  then show "\<exists>cs. m\<lparr>msg_tool_calls := Some cs\<rparr> \<in> set (strip_unpaired_tool_calls_from_view ms) \<and> c \<in> set cs"
    by (elim conjE bexE) (rule answered_call_stays)
next
  fix m assume "m \<in> set ms" "msg_role m = RoleTool \<and> msg_visibility m = VisibleAll \<and>
      (\<forall>t \<in> set ms. msg_role t = RoleTool \<and> msg_tool_call_id t = msg_tool_call_id m \<longrightarrow> msg_visibility t = VisibleAll)"
  then show "m \<in> set (strip_unpaired_tool_calls_from_view ms)" by (intro visible_result_stays) auto
qed (simp_all add: strip_view_rest strip_view_idempotent)

definition call_c1 :: tool_call where
  "call_c1 = \<lparr>call_id = ''c1'', call_name = ''search'', call_arguments = JNull\<rparr>"

definition answered_log :: "message list" where
  "answered_log = [message_assistant_with_tool_calls ''a'' ''go'' [call_c1], message_tool ''t'' ''c1'' ''ok'']"

theorem tool_calls_are_paired_in_view_witness:
  "\<exists>t \<in> set (strip_unpaired_tool_calls_from_view answered_log).
     msg_role t = RoleTool \<and> msg_visibility t = VisibleAll \<and> msg_tool_call_id t = Some ''c1''"
proof -
  have v: "strip_unpaired_tool_calls_from_view answered_log = answered_log" by code_simp
  show ?thesis
    using conjunct1 [OF tool_calls_are_paired_in_view [of answered_log], rule_format,
        of "hd answered_log" "[call_c1]" call_c1]
    unfolding v by (simp add: answered_log_def message_assistant_with_tool_calls_def call_c1_def)
qed

text \<open>A result whose call is nowhere in the log is not removed, whatever the comment on the filter says.\<close>

lemma orphan_tool_result_stays:
  "strip_unpaired_tool_calls_from_view [message_tool ''t'' ''c9'' ''ok''] = [message_tool ''t'' ''c9'' ''ok'']"
  by code_simp

text \<open>
  C35: Resuming a run reads its log with every compacted interval replaced by its summary. The intervals
  that take effect are among those the summaries name, none of them lies in another, and they cover
  all of them; each summary stands where its interval starts, the other messages outside the intervals
  keep their places, and a log without summaries is read as it is.
\<close>
theorem effective_view_replaces_intervals:
  fixes gens tid l
  assumes "log_ok l" "length l < 2 ^ 64 - 1"
  defines "rs \<equiv> records_from gens tid 1 l"
  shows "effective_messages rs = map snd (sort_key fst (map at_start (winning_intervals rs) @
       map at_seq (filter (\<lambda>r. mr_compaction r = None \<and> \<not> covered_by (marks rs) (mr_seq r)) rs))) \<and>
     set (winning_intervals rs) \<subseteq> set (marks rs) \<and>
     (\<forall>c \<in> set (marks rs). \<exists>k \<in> set (winning_intervals rs). covers k c) \<and>
     sorted_wrt ascends (winning_intervals rs) \<and>
     (marks rs = [] \<longrightarrow> effective_messages rs = l)"
proof -
  have sorted: "sorted_wrt (<) (map mr_seq rs)" unfolding rs_def by (rule sorted_records) (rule assms(2))
  note spec = effective_messages_spec [OF sorted]
  have "effective_messages rs = l" if none: "marks rs = []"
  proof -
    have "winning_intervals rs = []" using winning_subset [of rs] none by simp
    moreover have "mr_compaction r = None" if "r \<in> set rs" for r
      using none that by (auto simp: marks_def interval_of_def List.map_filter_def filter_empty_conv)
    then have "filter (\<lambda>r. mr_compaction r = None \<and> \<not> covered_by (marks rs) (mr_seq r)) rs = rs"
      by (simp add: none covered_by_def)
    moreover have "sorted (map fst (map at_seq rs))"
      using strict_sorted_imp_sorted [OF sorted] by (simp add: at_seq_def comp_def)
    ultimately have "effective_messages rs = map mr_message rs"
      unfolding spec by (simp add: sort_key_id_if_sorted at_seq_def comp_def)
    also have "\<dots> = l" unfolding rs_def by (rule records_messages) (rule log_ok_shape [OF assms(1)])
    finally show ?thesis .
  qed
  with spec winning_subset winning_covers winning_ascends show ?thesis by blast
qed

definition summary_message :: message where
  "summary_message = (message_user ''s'' ''summary'')\<lparr>msg_metadata := Some \<lparr>md_run_id = None,
     md_step_index = None, md_compaction = Some \<lparr>cm_from_seq = 1, cm_to_seq = 2\<rparr>\<rparr>\<rparr>"

definition compacted_log :: "message list" where
  "compacted_log = [message_user ''m1'' ''one'', message_user ''m2'' ''two'', summary_message,
     message_user ''m3'' ''three'']"

lemma user_message_shape: "\<not> is_blank i \<Longrightarrow> message_shape (message_user i t)"
  by (simp add: message_shape_def message_user_def)

lemma plain_mark_within [simp]: "msg_metadata m = None \<Longrightarrow> mark_within s m"
  by (simp add: mark_within_def)

lemma compacted_log_ok: "log_ok compacted_log"
proof -
  have "\<not> is_blank ''m1''" "\<not> is_blank ''m2''" "\<not> is_blank ''m3''" "\<not> is_blank ''s''" by code_simp+
  then show ?thesis
    by (auto simp: log_ok_def compacted_log_def less_Suc_eq message_shape_def message_key_def mark_within_def
        summary_message_def message_user_def)
qed

lemma compacted_view: "effective_messages (records_from (\<lambda>_. []) ''t'' 1 compacted_log) =
      [summary_message, message_user ''m3'' ''three'']"
  by (simp add: records_from_def compacted_log_def enumerate_eq_zip record_from_message_def effective_messages_def
     Let_def winning_intervals_def interval_of_def map_filter_simps message_user_def summary_message_def
     covered_by_def dominated_by_def upt_rec)

theorem effective_view_replaces_intervals_witness:
  "set (winning_intervals (records_from (\<lambda>_. []) ''t'' 1 compacted_log)) \<subseteq>
     set (marks (records_from (\<lambda>_. []) ''t'' 1 compacted_log)) \<and>
   effective_messages (records_from (\<lambda>_. []) ''t'' 1 compacted_log) = [summary_message, message_user ''m3'' ''three'']"
  using effective_view_replaces_intervals [OF compacted_log_ok, of "\<lambda>_. []" "''t''"] compacted_view
  by (simp add: compacted_log_def)

end
