(* ===== verification/Pending_Store.thy ===== *)
theory Pending_Store
imports Thread_Store
begin

text \<open>
  The pending messages of the in-memory store (\<^verbatim>\<open>remo-stores/src/memory/pending.rs\<close>): messages that
  were delivered to a thread and wait for a boundary of its run, at which a freeze moves them to the
  committed log. Where an operation releases its lock to look a refused id up in the committed log, the
  look-up is part of the step.
\<close>

section \<open>Shared pieces\<close>

definition normalize_pending_positions :: "pending_record list \<Rightarrow> pending_record list" where
  "normalize_pending_positions rs = map (\<lambda>(i, r). r\<lparr>pr_position := of_nat i + 1\<rparr>) (enumerate 0 rs)"

definition pending_not_found :: "string \<Rightarrow> string \<Rightarrow> storage_error" where
  "pending_not_found tid pid = NotFound (''pending message '' @ quoted pid @ '' in thread '' @ quoted tid)"

definition already_consumed :: "string \<Rightarrow> storage_error" where
  "already_consumed pid = Validation (''pending message '' @ quoted pid @ '' is already consumed'')"

definition duplicate_pending_id :: "string \<Rightarrow> storage_error" where
  "duplicate_pending_id pid = Validation (''pending message '' @ quoted pid @ '' already exists'')"

definition selected_pending_ids :: "pending_record list \<Rightarrow> nat list \<Rightarrow> string list" where
  "selected_pending_ids ps idxs = map (\<lambda>i. pr_pending_id (ps ! i)) idxs"

definition committed_message_exists :: "string \<Rightarrow> string \<Rightarrow> memory_store \<Rightarrow> bool" where
  "committed_message_exists tid mid ms = (case ms_messages ms tid of
      None \<Rightarrow> False | Some l \<Rightarrow> list_ex (\<lambda>m. msg_id m = Some mid) l)"

text \<open>\<^verbatim>\<open>entry(..).or_default()\<close> on the queues.\<close>

definition queue_entry :: "string \<Rightarrow> memory_store \<Rightarrow> pending_record list \<times> memory_store" where
  "queue_entry tid ms = (case ms_pending ms tid of
      Some q \<Rightarrow> (q, ms) | None \<Rightarrow> ([], ms\<lparr>ms_pending := (ms_pending ms)(tid \<mapsto> [])\<rparr>))"

definition put_queue :: "string \<Rightarrow> pending_record list \<Rightarrow> memory_store \<Rightarrow> memory_store" where
  "put_queue tid q ms = ms\<lparr>ms_pending := (ms_pending ms)(tid \<mapsto> q)\<rparr>"

definition put_log :: "string \<Rightarrow> message list \<Rightarrow> memory_store \<Rightarrow> memory_store" where
  "put_log tid l ms = ms\<lparr>ms_messages := (ms_messages ms)(tid \<mapsto> l)\<rparr>"

section \<open>Reading\<close>

definition load_pending_message_records :: "string \<Rightarrow> memory_store \<Rightarrow> storage_error + pending_record list" where
  "load_pending_message_records tid ms =
     (let rs = (case ms_pending ms tid of None \<Rightarrow> [] | Some q \<Rightarrow> q) in
      case validate_pending_message_records rs of Inl e \<Rightarrow> Inl e | Inr _ \<Rightarrow> Inr rs)"

definition list_threads_with_pending_messages :: "string list \<Rightarrow> nat \<Rightarrow> string option \<Rightarrow> memory_store \<Rightarrow>
    string list" where
  "list_threads_with_pending_messages ord limit after ms =
     (let ids = sort (filter (\<lambda>tid. (case ms_pending ms tid of None \<Rightarrow> False | Some q \<Rightarrow> q \<noteq> []) \<and>
                   (case after of None \<Rightarrow> True | Some cursor \<Rightarrow> cursor < tid)) ord)
      in if limit > 0 then take limit ids else ids)"

section \<open>Delivery\<close>

definition new_pending_records :: "(nat \<Rightarrow> string) \<Rightarrow> u64 \<Rightarrow> string \<Rightarrow> pending_record list \<Rightarrow> message list \<Rightarrow>
    delivery_mode \<Rightarrow> pending_record list" where
  "new_pending_records gens now tid q l mode =
     map (\<lambda>(i, m). (pending_from_message (gens i) tid (of_nat (length q) + 1 + of_nat i) m mode)
            \<lparr>pr_created_at := Some now, pr_updated_at := Some now\<rparr>) (enumerate 0 l)"

fun check_new_pending :: "string \<Rightarrow> memory_store \<Rightarrow> string list \<Rightarrow> pending_record list \<Rightarrow>
    storage_error + unit" where
  "check_new_pending tid ms seen [] = Inr ()"
| "check_new_pending tid ms seen (r # rs) =
     (case validate_pending_message_record r of Inl e \<Rightarrow> Inl e | Inr _ \<Rightarrow>
      if pr_pending_id r \<in> set seen then Inl (duplicate_pending_id (pr_pending_id r))
      else if committed_message_exists tid (pr_pending_id r) ms then Inl (already_consumed (pr_pending_id r))
      else check_new_pending tid ms (pr_pending_id r # seen) rs)"

definition append_pending_message_records :: "(nat \<Rightarrow> string) \<Rightarrow> u64 \<Rightarrow> string \<Rightarrow> message list \<Rightarrow>
    delivery_mode \<Rightarrow> pending_record list store_op" where
  "append_pending_message_records gens now tid l mode ms =
     (let (q, ms1) = queue_entry tid ms;
          records = new_pending_records gens (now div 1000) tid q l mode
      in case check_new_pending tid ms (map pr_pending_id q) records of
           Inl e \<Rightarrow> (Inl e, ms1)
         | Inr _ \<Rightarrow> (Inr records, put_queue tid (q @ records) ms1))"

section \<open>Editing\<close>

fun index_of_pending :: "string \<Rightarrow> pending_record list \<Rightarrow> nat option" where
  "index_of_pending pid [] = None"
| "index_of_pending pid (r # rs) =
     (if pr_pending_id r = pid then Some 0 else map_option Suc (index_of_pending pid rs))"

definition missing_pending :: "string \<Rightarrow> string \<Rightarrow> memory_store \<Rightarrow> storage_error" where
  "missing_pending tid pid ms =
     (if committed_message_exists tid pid ms then already_consumed pid else pending_not_found tid pid)"

definition update_pending_message_record_checked :: "u64 \<Rightarrow> string \<Rightarrow> string \<Rightarrow> u64 option \<Rightarrow> message \<Rightarrow>
    pending_record store_op" where
  "update_pending_message_record_checked now tid pid expected m ms =
     (case Option.bind (ms_pending ms tid) (\<lambda>q. map_option (\<lambda>i. (q, i)) (index_of_pending pid q)) of
        None \<Rightarrow> (Inl (missing_pending tid pid ms), ms)
      | Some (q, i) \<Rightarrow>
          (let r = q ! i; m1 = (case msg_id m of None \<Rightarrow> m\<lparr>msg_id := Some pid\<rparr> | Some _ \<Rightarrow> m)
           in case first_error
                [stale expected (pr_revision r),
                 (case msg_id m of
                    None \<Rightarrow> Inr ()
                  | Some mid \<Rightarrow> if mid \<noteq> pid then Inl (Validation (''pending message '' @ quoted pid @
                        '' cannot change message id to '' @ quoted mid)) else Inr ()),
                 validate_pending_message_record (r\<lparr>pr_message := m1\<rparr>)] of
                Inl e \<Rightarrow> (Inl e, ms)
              | Inr _ \<Rightarrow>
                  (let r1 = r\<lparr>pr_message := m1, pr_revision := pr_revision r + 1,
                              pr_updated_at := Some (now div 1000)\<rparr>
                   in (Inr r1, put_queue tid (q[i := r1]) ms))))"

definition remove_at :: "nat \<Rightarrow> 'a list \<Rightarrow> 'a list" where
  "remove_at i xs = take i xs @ drop (Suc i) xs"

definition retract_pending_message_record_checked :: "string \<Rightarrow> string \<Rightarrow> u64 option \<Rightarrow>
    pending_record store_op" where
  "retract_pending_message_record_checked tid pid expected ms =
     (case Option.bind (ms_pending ms tid) (\<lambda>q. map_option (\<lambda>i. (q, i)) (index_of_pending pid q)) of
        None \<Rightarrow> (Inl (missing_pending tid pid ms), ms)
      | Some (q, i) \<Rightarrow>
          (case stale expected (pr_revision (q ! i)) of
             Inl e \<Rightarrow> (Inl e, ms)
           | Inr _ \<Rightarrow> (Inr (q ! i), put_queue tid (normalize_pending_positions (remove_at i q)) ms)))"

text \<open>The records of the queue are moved to the new order one by one; the rest must be empty.\<close>

fun take_in_order :: "string list \<Rightarrow> (string \<rightharpoonup> pending_record) \<Rightarrow>
    storage_error + (pending_record list \<times> (string \<rightharpoonup> pending_record))" where
  "take_in_order [] by_id = Inr ([], by_id)"
| "take_in_order (pid # pids) by_id = (case by_id pid of
      None \<Rightarrow> Inl (NotFound pid)
    | Some r \<Rightarrow> (case take_in_order pids (by_id(pid := None)) of
          Inl e \<Rightarrow> Inl e
        | Inr (rs, rest) \<Rightarrow> Inr (r # rs, rest)))"

definition reorder_pending_message_records_checked :: "u64 \<Rightarrow> string \<Rightarrow> u64 option \<Rightarrow> string list \<Rightarrow>
    pending_record list store_op" where
  "reorder_pending_message_records_checked now tid expected ids ms =
     (case ms_pending ms tid of
        None \<Rightarrow> (case find (\<lambda>pid. committed_message_exists tid pid ms) ids of
            Some pid \<Rightarrow> (Inl (already_consumed pid), ms)
          | None \<Rightarrow> (Inl (NotFound tid), ms))
      | Some q \<Rightarrow>
          (case stale expected (pending_queue_revision q) of Inl e \<Rightarrow> (Inl e, ms) | Inr _ \<Rightarrow>
           (case find (\<lambda>pid. pid \<notin> set (map pr_pending_id q)) ids of
              Some pid \<Rightarrow> (Inl (if committed_message_exists tid pid ms then already_consumed pid
                              else NotFound pid), ms)
            | None \<Rightarrow>
                if length q \<noteq> length ids then
                  (Inl (VersionConflict (of_nat (length ids)) (of_nat (length q))), ms)
                else (case take_in_order ids (map_of (rev (map (\<lambda>r. (pr_pending_id r, r)) q))) of
                    Inl e \<Rightarrow> (Inl e, ms)
                  | Inr (rs, rest) \<Rightarrow>
                      if list_ex (\<lambda>r. rest (pr_pending_id r) \<noteq> None) q then
                        (Inl (Validation (''reorder for thread '' @ quoted tid @ '' omitted pending ids'')), ms)
                      else
                        (let rs1 = map (\<lambda>r. r\<lparr>pr_revision := pr_revision r + 1,
                                    pr_updated_at := Some (now div 1000)\<rparr>) (normalize_pending_positions rs)
                         in (Inr rs1, put_queue tid rs1 ms))))))"

section \<open>Freezing\<close>

text \<open>
  The selected entries leave the queue, from the last to the first, and their messages are pushed to
  the log; the positions of the rest are numbered anew.
\<close>

definition move_selected :: "(nat \<Rightarrow> string) \<Rightarrow> string \<Rightarrow> nat list \<Rightarrow> pending_record list \<Rightarrow> message list \<Rightarrow>
    memory_store \<Rightarrow> message_record list \<times> memory_store" where
  "move_selected gens tid idxs q committed ms =
     (let selected = map (\<lambda>i. pr_message (q ! i)) idxs in
      (records_from gens tid (of_nat (length committed) + 1) selected,
       put_queue tid (normalize_pending_positions (fold remove_at (rev idxs) q))
         (put_log tid (committed @ selected) ms)))"

definition freeze_pending_message_records :: "(nat \<Rightarrow> string) \<Rightarrow> string \<Rightarrow> delivery_boundary \<Rightarrow> u64 option \<Rightarrow>
    message_record list store_op" where
  "freeze_pending_message_records gens tid b expected ms =
     (let (committed, ms1) = log_entry tid ms in
      case stale expected (of_nat (length committed)) of
        Inl e \<Rightarrow> (Inl e, ms1)
      | Inr _ \<Rightarrow> (case ms_pending ms1 tid of
            None \<Rightarrow> (Inr [], ms1)
          | Some q \<Rightarrow>
              (let idxs = select_pending_for_freeze q b in
               if idxs = [] then (Inr [], ms1)
               else case validate_append_only_delta committed (map (\<lambda>i. pr_message (q ! i)) idxs) of
                   Inl e \<Rightarrow> (Inl e, ms1)
                 | Inr _ \<Rightarrow> (case move_selected gens tid idxs q committed ms1 of
                     (rs, ms2) \<Rightarrow> (Inr rs, ms2)))))"

text \<open>The freeze together with the checkpoint of the run that consumes the messages.\<close>

definition freeze_selection :: "(nat \<Rightarrow> string) \<Rightarrow> u64 \<Rightarrow> string \<Rightarrow> delivery_boundary \<Rightarrow> string list \<Rightarrow>
    run_record \<Rightarrow> pending_record list \<Rightarrow> message_record list store_op" where
  "freeze_selection gens now tid b expected_ids r q ms =
     (let idxs = select_pending_for_freeze_for_run q b (Some (run_key r));
          ids = selected_pending_ids q idxs
      in if ids \<noteq> expected_ids then (Inl (PendingSelectionConflict expected_ids ids), ms)
         else let (committed, ms1) = log_entry tid ms in
           case validate_append_only_delta committed (map (\<lambda>i. pr_message (q ! i)) idxs) of
             Inl e \<Rightarrow> (Inl e, ms1)
           | Inr _ \<Rightarrow> (case move_selected gens tid idxs q committed ms1 of
               (rs, ms2) \<Rightarrow> (Inr rs, project_run now tid r ms2)))"

definition freeze_checks :: "string \<Rightarrow> u64 option \<Rightarrow> run_record \<Rightarrow> memory_store \<Rightarrow> storage_error + unit" where
  "freeze_checks tid expected r ms = first_error
     [validate_run_record r, checkpoint_hierarchy tid r ms, stale expected (log_version tid ms)]"

definition freeze_pending_message_records_with_run :: "(nat \<Rightarrow> string) \<Rightarrow> u64 \<Rightarrow> string \<Rightarrow>
    delivery_boundary \<Rightarrow> u64 option \<Rightarrow> string list \<Rightarrow> run_record \<Rightarrow> message_record list store_op" where
  "freeze_pending_message_records_with_run gens now tid b expected expected_ids r ms =
     (case freeze_checks tid expected r ms of Inl e \<Rightarrow> (Inl e, ms) | Inr _ \<Rightarrow>
      (case queue_entry tid ms of (q, ms1) \<Rightarrow> freeze_selection gens now tid b expected_ids r q ms1))"

definition append_and_freeze_pending_message_records_with_run :: "(nat \<Rightarrow> string) \<Rightarrow> u64 \<Rightarrow> string \<Rightarrow>
    message list \<Rightarrow> delivery_mode \<Rightarrow> delivery_boundary \<Rightarrow> u64 option \<Rightarrow> string list \<Rightarrow> run_record \<Rightarrow>
    message_record list store_op" where
  "append_and_freeze_pending_message_records_with_run gens now tid l mode b expected expected_ids r ms =
     (case freeze_checks tid expected r ms of Inl e \<Rightarrow> (Inl e, ms) | Inr _ \<Rightarrow>
      (let (q, ms1) = queue_entry tid ms;
           records = new_pending_records gens (now div 1000) tid q l mode
       in case check_new_pending tid ms (map pr_pending_id q) records of
            Inl e \<Rightarrow> (Inl e, ms1)
          | Inr _ \<Rightarrow> freeze_selection gens now tid b expected_ids r (q @ records)
              (put_queue tid (q @ records) ms1)))"

end
