(* ===== verification/Config_Store.thy ===== *)
theory Config_Store
imports Thread_Store Scope
begin

text \<open>
  The profile store and the configuration store of the in-memory store
  (\<^verbatim>\<open>remo-stores/src/memory/mod.rs\<close>) and the scoped configuration store over a store of that kind
  (\<^verbatim>\<open>remo-server-contract/src/contract/config_store.rs\<close>).
\<close>

section \<open>Profiles\<close>

definition profile_get :: "profile_owner \<Rightarrow> string \<Rightarrow> memory_store \<Rightarrow> profile_entry option" where
  "profile_get owner k ms = Option.bind (ms_profiles ms owner) (\<lambda>inner. inner k)"

definition profile_set :: "u64 \<Rightarrow> profile_owner \<Rightarrow> string \<Rightarrow> json \<Rightarrow> memory_store \<Rightarrow> memory_store" where
  "profile_set now owner k v ms =
     (let inner = (case ms_profiles ms owner of None \<Rightarrow> Map.empty | Some i \<Rightarrow> i)
      in ms\<lparr>ms_profiles := (ms_profiles ms)(owner \<mapsto>
           inner(k \<mapsto> \<lparr>pe_key = k, pe_value = v, pe_updated_at = now\<rparr>))\<rparr>)"

definition profile_delete :: "profile_owner \<Rightarrow> string \<Rightarrow> memory_store \<Rightarrow> memory_store" where
  "profile_delete owner k ms = (case ms_profiles ms owner of
      None \<Rightarrow> ms
    | Some inner \<Rightarrow> ms\<lparr>ms_profiles := (ms_profiles ms)(owner \<mapsto> inner(k := None))\<rparr>)"

definition profile_list :: "string list \<Rightarrow> profile_owner \<Rightarrow> memory_store \<Rightarrow> profile_entry list" where
  "profile_list ord owner ms = (case ms_profiles ms owner of
      None \<Rightarrow> [] | Some inner \<Rightarrow> sort_key pe_key (hm_values ord inner))"

definition profile_clear_owner :: "profile_owner \<Rightarrow> memory_store \<Rightarrow> memory_store" where
  "profile_clear_owner owner ms = ms\<lparr>ms_profiles := (ms_profiles ms)(owner := None)\<rparr>"

section \<open>Configuration documents\<close>

text \<open>\<^verbatim>\<open>Value::as_u64\<close> on a number: the digits of a value that fits.\<close>

definition json_as_u64 :: "json \<Rightarrow> u64 option" where
  "json_as_u64 v = (case v of
      JNumber s \<Rightarrow> (if s \<noteq> [] \<and> list_all is_ascii_digit s \<and> read_nat s < 2 ^ 64
                    then Some (of_nat (read_nat s)) else None)
    | _ \<Rightarrow> None)"

definition extract_meta_revision :: "json \<Rightarrow> u64 option" where
  "extract_meta_revision v =
     Option.bind (json_get v ''meta'') (\<lambda>m. Option.bind (json_get m ''revision'') json_as_u64)"

definition config_get :: "string \<Rightarrow> string \<Rightarrow> memory_store \<Rightarrow> json option" where
  "config_get ns i ms = Option.bind (ms_configs ms ns) (\<lambda>entries. entries i)"

definition config_exists :: "string \<Rightarrow> string \<Rightarrow> memory_store \<Rightarrow> bool" where
  "config_exists ns i ms \<longleftrightarrow> config_get ns i ms \<noteq> None"

definition config_list :: "string list \<Rightarrow> string \<Rightarrow> nat \<Rightarrow> nat \<Rightarrow> memory_store \<Rightarrow> (string \<times> json) list" where
  "config_list ord ns offset limit ms = (case ms_configs ms ns of
      None \<Rightarrow> []
    | Some entries \<Rightarrow> take limit (drop offset
        (sort_key fst (List.map_filter (\<lambda>k. map_option (Pair k) (entries k)) ord))))"

definition config_send :: "string \<Rightarrow> string \<Rightarrow> config_change_kind \<Rightarrow> memory_store \<Rightarrow> memory_store" where
  "config_send ns i kind ms = ms\<lparr>ms_config_changes := ms_config_changes ms @
     [\<lparr>cc_namespace = ns, cc_id = i, cc_kind = kind\<rparr>]\<rparr>"

definition config_insert :: "string \<Rightarrow> string \<Rightarrow> json \<Rightarrow> memory_store \<Rightarrow> memory_store" where
  "config_insert ns i v ms =
     (let entries = (case ms_configs ms ns of None \<Rightarrow> Map.empty | Some e \<Rightarrow> e)
      in ms\<lparr>ms_configs := (ms_configs ms)(ns \<mapsto> entries(i \<mapsto> v))\<rparr>)"

definition config_remove :: "string \<Rightarrow> string \<Rightarrow> memory_store \<Rightarrow> memory_store" where
  "config_remove ns i ms = (case ms_configs ms ns of
      None \<Rightarrow> ms | Some entries \<Rightarrow> ms\<lparr>ms_configs := (ms_configs ms)(ns \<mapsto> entries(i := None))\<rparr>)"

definition config_put :: "string \<Rightarrow> string \<Rightarrow> json \<Rightarrow> unit store_op" where
  "config_put ns i v ms = (Inr (), config_send ns i ConfigPut (config_insert ns i v ms))"

definition config_put_if_absent :: "string \<Rightarrow> string \<Rightarrow> json \<Rightarrow> unit store_op" where
  "config_put_if_absent ns i v ms =
     (let ms1 = (case ms_configs ms ns of
            None \<Rightarrow> ms\<lparr>ms_configs := (ms_configs ms)(ns \<mapsto> Map.empty)\<rparr> | Some _ \<Rightarrow> ms)
      in if config_get ns i ms1 \<noteq> None then (Inl (AlreadyExists (ns @ ''/'' @ i)), ms1)
         else config_put ns i v ms1)"

definition config_delete :: "string \<Rightarrow> string \<Rightarrow> unit store_op" where
  "config_delete ns i ms = (Inr (), config_send ns i ConfigDelete (config_remove ns i ms))"

definition config_revision :: "string \<Rightarrow> string \<Rightarrow> memory_store \<Rightarrow> u64" where
  "config_revision ns i ms =
     (case Option.bind (config_get ns i ms) extract_meta_revision of None \<Rightarrow> 0 | Some n \<Rightarrow> n)"

definition config_put_if_revision :: "string \<Rightarrow> string \<Rightarrow> json \<Rightarrow> u64 \<Rightarrow> unit store_op" where
  "config_put_if_revision ns i v expected ms =
     (if config_revision ns i ms \<noteq> expected then
        (Inl (VersionConflict expected (config_revision ns i ms)), ms)
      else config_put ns i v ms)"

definition config_delete_if_revision :: "string \<Rightarrow> string \<Rightarrow> u64 \<Rightarrow> unit store_op" where
  "config_delete_if_revision ns i expected ms =
     (if config_revision ns i ms \<noteq> expected then
        (Inl (VersionConflict expected (config_revision ns i ms)), ms)
      else config_delete ns i ms)"

section \<open>The contract and the scoped store\<close>

record 's config_ops =
  cf_get :: "string \<Rightarrow> string \<Rightarrow> 's \<Rightarrow> json option"
  cf_list :: "string \<Rightarrow> nat \<Rightarrow> nat \<Rightarrow> 's \<Rightarrow> (string \<times> json) list"
  cf_put :: "string \<Rightarrow> string \<Rightarrow> json \<Rightarrow> 's \<Rightarrow> (storage_error + unit) \<times> 's"
  cf_delete :: "string \<Rightarrow> string \<Rightarrow> 's \<Rightarrow> (storage_error + unit) \<times> 's"
  cf_put_if_absent :: "string \<Rightarrow> string \<Rightarrow> json \<Rightarrow> 's \<Rightarrow> (storage_error + unit) \<times> 's"
  cf_exists :: "string \<Rightarrow> string \<Rightarrow> 's \<Rightarrow> bool"
  cf_put_if_revision :: "string \<Rightarrow> string \<Rightarrow> json \<Rightarrow> u64 \<Rightarrow> 's \<Rightarrow> (storage_error + unit) \<times> 's"
  cf_delete_if_revision :: "string \<Rightarrow> string \<Rightarrow> u64 \<Rightarrow> 's \<Rightarrow> (storage_error + unit) \<times> 's"

definition memory_config :: "string list \<Rightarrow> memory_store config_ops" where
  "memory_config ord = \<lparr>cf_get = config_get, cf_list = config_list ord, cf_put = config_put,
     cf_delete = config_delete, cf_put_if_absent = config_put_if_absent, cf_exists = config_exists,
     cf_put_if_revision = config_put_if_revision, cf_delete_if_revision = config_delete_if_revision\<rparr>"

definition scoped_config :: "string \<Rightarrow> 's config_ops \<Rightarrow> 's config_ops" where
  "scoped_config scope inner = \<lparr>
     cf_get = (\<lambda>ns. cf_get inner (scoped_key scope ns)),
     cf_list = (\<lambda>ns. cf_list inner (scoped_key scope ns)),
     cf_put = (\<lambda>ns. cf_put inner (scoped_key scope ns)),
     cf_delete = (\<lambda>ns. cf_delete inner (scoped_key scope ns)),
     cf_put_if_absent = (\<lambda>ns. cf_put_if_absent inner (scoped_key scope ns)),
     cf_exists = (\<lambda>ns. cf_exists inner (scoped_key scope ns)),
     cf_put_if_revision = (\<lambda>ns. cf_put_if_revision inner (scoped_key scope ns)),
     cf_delete_if_revision = (\<lambda>ns. cf_delete_if_revision inner (scoped_key scope ns))\<rparr>"

end
