(* ===== verification/Thread_Store_Inv.thy ===== *)
theory Thread_Store_Inv
imports Thread_Hierarchy Message_Correct Pending_Store Config_Store
begin

text \<open>
  The invariant of the in-memory store: threads are stored under their ids in a hierarchy without
  cycles, every log could be committed as it stands, run records satisfy their validation, and the
  queues of pending messages are numbered consecutively. Every operation keeps it; the operations are
  the calls of a transition system.
\<close>

declare first_error.simps [simp del]

section \<open>The invariant\<close>

definition pending_ok :: "string \<Rightarrow> pending_record \<Rightarrow> bool" where
  "pending_ok tid r \<longleftrightarrow> \<not> is_blank (pr_pending_id r) \<and> pr_thread_id r = tid \<and>
     msg_id (pr_message r) = Some (pr_pending_id r) \<and> message_shape (pr_message r)"

definition numbered :: "pending_record list \<Rightarrow> bool" where
  "numbered q \<longleftrightarrow> (\<forall>i < length q. pr_position (q ! i) = of_nat i + 1)"

definition queue_ok :: "string \<Rightarrow> pending_record list \<Rightarrow> bool" where
  "queue_ok tid q \<longleftrightarrow> (\<forall>r \<in> set q. pending_ok tid r) \<and> distinct (map pr_pending_id q) \<and> numbered q"

definition store_inv :: "memory_store \<Rightarrow> bool" where
  "store_inv ms \<longleftrightarrow> threads_ok (ms_threads ms) \<and> hierarchy_ok (ms_threads ms) \<and>
     (\<forall>tid l. ms_messages ms tid = Some l \<longrightarrow> log_ok l) \<and>
     (\<forall>i r. ms_runs ms i = Some r \<longrightarrow> run_key r = i \<and> validate_run_record r = Inr ()) \<and>
     (\<forall>tid q. ms_pending ms tid = Some q \<longrightarrow> queue_ok tid q)"

lemma store_invD:
  assumes "store_inv ms"
  shows "threads_ok (ms_threads ms)" "hierarchy_ok (ms_threads ms)"
    "ms_messages ms tid = Some l \<Longrightarrow> log_ok l"
    "ms_runs ms i = Some r \<Longrightarrow> run_key r = i \<and> validate_run_record r = Inr ()"
    "ms_pending ms tid = Some q \<Longrightarrow> queue_ok tid q"
  using assms by (simp_all add: store_inv_def)

lemma store_inv_new: "store_inv memory_store_new"
  by (simp add: store_inv_def memory_store_new_def threads_ok_def hierarchy_ok_def acyclic_def parent_rel_def)

lemma store_inv_frame:
  assumes "store_inv ms" "ms_threads ms' = ms_threads ms" "ms_messages ms' = ms_messages ms"
    "ms_runs ms' = ms_runs ms" "ms_pending ms' = ms_pending ms"
  shows "store_inv ms'"
  using assms by (simp add: store_inv_def)

section \<open>Primitive updates\<close>

lemma threads_ok_upd:
  "threads_ok threads \<Longrightarrow> th_id t = k \<Longrightarrow> normalize_lineage t = t \<Longrightarrow> threads_ok (fmupd k t threads)"
  by (simp add: threads_ok_def)

lemma threads_ok_drop: "threads_ok threads \<Longrightarrow> threads_ok (fmdrop k threads)"
  by (simp add: threads_ok_def)

lemma inv_put_thread:
  assumes "store_inv ms" "th_id t = k" "normalize_lineage t = t" "hierarchy_ok (fmupd k t (ms_threads ms))"
  shows "store_inv (put_thread k t ms)"
  using assms(1,4) threads_ok_upd [OF store_invD(1) [OF assms(1)] assms(2,3)]
  by (simp add: store_inv_def put_thread_def)

lemma inv_remove_thread: "store_inv ms \<Longrightarrow> store_inv (remove_thread k ms)"
  by (simp add: store_inv_def remove_thread_def threads_ok_drop hierarchy_ok_drop)

lemma inv_put_run: "store_inv ms \<Longrightarrow> validate_run_record r = Inr () \<Longrightarrow> store_inv (put_run r ms)"
  by (simp add: store_inv_def put_run_def)

lemma inv_put_messages:
  "store_inv ms \<Longrightarrow> log_ok l \<Longrightarrow> store_inv (ms\<lparr>ms_messages := (ms_messages ms)(tid \<mapsto> l)\<rparr>)"
  by (simp add: store_inv_def)

lemma inv_put_log: "store_inv ms \<Longrightarrow> log_ok l \<Longrightarrow> store_inv (put_log tid l ms)"
  by (simp add: put_log_def inv_put_messages)

lemma inv_put_queue: "store_inv ms \<Longrightarrow> queue_ok tid q \<Longrightarrow> store_inv (put_queue tid q ms)"
  by (simp add: store_inv_def put_queue_def)

lemma inv_drop_messages: "store_inv ms \<Longrightarrow> store_inv (ms\<lparr>ms_messages := (ms_messages ms)(tid := None)\<rparr>)"
  by (simp add: store_inv_def)

lemma queue_ok_Nil [simp]: "queue_ok tid []"
  by (simp add: queue_ok_def numbered_def)

lemma log_entry_inv:
  assumes "store_inv ms" "log_entry tid ms = (l, ms1)"
  shows "store_inv ms1" "log_ok l" "ms_threads ms1 = ms_threads ms" "ms_pending ms1 = ms_pending ms"
    "ms_messages ms1 tid = Some l" "ms_runs ms1 = ms_runs ms"
  using assms store_invD(3) [OF assms(1)]
  by (auto simp: log_entry_def inv_put_messages split: option.splits)

lemma queue_entry_inv:
  assumes "store_inv ms" "queue_entry tid ms = (q, ms1)"
  shows "store_inv ms1" "queue_ok tid q" "ms_threads ms1 = ms_threads ms" "ms_messages ms1 = ms_messages ms"
    "ms_pending ms1 tid = Some q" "ms_runs ms1 = ms_runs ms"
  using assms store_invD(5) [OF assms(1)]
  by (auto simp: queue_entry_def inv_put_queue [unfolded put_queue_def] split: option.splits)

section \<open>Threads\<close>

lemma touch_simps [simp]:
  "th_id (touch now t) = th_id t" "th_parent_thread_id (touch now t) = th_parent_thread_id t"
  "normalize_lineage (touch now t) = touch now (normalize_lineage t)"
  by (simp_all add: touch_def Let_def normalize_lineage_def)

lemma clear_run_simps [simp]:
  "th_id (clear_run_projection_if_matches r t) = th_id t"
  "th_parent_thread_id (clear_run_projection_if_matches r t) = th_parent_thread_id t"
  by (simp_all add: clear_run_projection_if_matches_def Let_def)

lemma apply_run_projection_id [simp]: "th_id (apply_run_projection r t) = th_id t"
  by (simp add: apply_run_projection_def Let_def split: run_status.splits)

lemma apply_run_projection_parent:
  "th_parent_thread_id (apply_run_projection r t) = th_parent_thread_id t \<or>
   th_parent_thread_id t = None \<and>
   th_parent_thread_id (apply_run_projection r t) = normalize_lineage_id (request_parent r)"
  by (simp add: apply_run_projection_def Let_def split: run_status.splits)

lemma inv_save_thread:
  assumes "store_inv ms"
    "normalize_lineage_id (th_parent_thread_id t) = parent_of (ms_threads ms) (th_id t)"
  shows "store_inv (snd (save_thread t ms))"
proof -
  have "normalize_lineage_id (th_parent_thread_id (normalize_lineage t)) = parent_of (ms_threads ms) (th_id t)"
    unfolding normalize_lineage_simps normalize_lineage_id_again by (rule assms(2))
  then have "hierarchy_ok (fmupd (th_id t) (normalize_lineage t) (ms_threads ms))"
    by (rule hierarchy_ok_same_parent [OF store_invD(2) [OF assms(1)]])
  then have "store_inv (put_thread (th_id t) (normalize_lineage t) ms)"
    by (intro inv_put_thread [OF assms(1)]) simp_all
  with assms(1) show ?thesis by (simp add: save_thread_def Let_def split: sum.split)
qed

lemma inv_save_thread_validated: "store_inv ms \<Longrightarrow> store_inv (snd (save_thread_validated t ms))"
  using hierarchy_ok_checked [of "ms_threads ms" "th_id t"
      "th_parent_thread_id (normalize_lineage t)" "normalize_lineage t"]
  by (auto simp: save_thread_validated_def Let_def store_invD split: sum.splits intro!: inv_put_thread)

lemma inv_delete_thread: "store_inv ms \<Longrightarrow> store_inv (snd (delete_thread k ms))"
  by (auto simp: delete_thread_def Let_def intro: store_inv_frame [OF inv_remove_thread])

lemma inv_detach_child: "store_inv ms \<Longrightarrow> store_inv (detach_child now c ms)"
proof (cases "fmlookup (ms_threads ms) c")
  case (Some t)
  assume inv: "store_inv ms"
  let ?t = "(normalize_lineage (t\<lparr>th_parent_thread_id := None\<rparr>))"
  let ?u = "?t\<lparr>th_metadata := (th_metadata ?t)\<lparr>tm_updated_at := Some now\<rparr>\<rparr>"
  have "th_id ?u = c" using threads_okD [OF store_invD(1) [OF inv] Some] by simp
  moreover have "normalize_lineage ?u = ?u" by (simp add: normalize_lineage_def)
  moreover have "hierarchy_ok (fmupd c ?u (ms_threads ms))"
    by (rule hierarchy_ok_orphan [OF store_invD(2) [OF inv]]) simp
  ultimately have "store_inv (put_thread c ?u ms)" by (intro inv_put_thread [OF inv])
  with Some show ?thesis by (simp add: detach_child_def Let_def)
qed (simp add: detach_child_def)

lemma inv_fold: "(\<And>x s. store_inv s \<Longrightarrow> store_inv (f x s)) \<Longrightarrow> store_inv s \<Longrightarrow> store_inv (fold f xs s)"
  by (induction xs arbitrary: s) simp_all

lemma inv_delete_thread_with_strategy:
  "store_inv ms \<Longrightarrow> store_inv (snd (delete_thread_with_strategy ord now k strategy ms))"
  by (auto simp: delete_thread_with_strategy_def inv_remove_thread inv_detach_child inv_fold
      split: child_delete_strategy.splits sum.splits)

lemma inv_update_thread_metadata: "store_inv ms \<Longrightarrow> store_inv (snd (update_thread_metadata k m ms))"
proof (cases "fmlookup (ms_threads ms) k")
  case (Some t)
  assume inv: "store_inv ms"
  note t = threads_okD [OF store_invD(1) [OF inv] Some]
  have "store_inv (put_thread k (t\<lparr>th_metadata := m\<rparr>) ms)"
  proof (rule inv_put_thread [OF inv])
    show "normalize_lineage (t\<lparr>th_metadata := m\<rparr>) = t\<lparr>th_metadata := m\<rparr>"
    proof -
      have "normalize_lineage (t\<lparr>th_metadata := m\<rparr>) = (normalize_lineage t)\<lparr>th_metadata := m\<rparr>"
        by (simp add: normalize_lineage_def)
      with t show ?thesis by simp
    qed
    show "hierarchy_ok (fmupd k (t\<lparr>th_metadata := m\<rparr>) (ms_threads ms))"
      by (rule hierarchy_ok_same_parent [OF store_invD(2) [OF inv]]) (simp add: parent_of_def Some)
  qed (use t in simp)
  with Some show ?thesis by (simp add: update_thread_metadata_def)
qed (simp add: update_thread_metadata_def)

section \<open>Checkpoints\<close>

lemma project_run_frame [simp]:
  "ms_messages (project_run now tid r ms) = ms_messages ms"
  "ms_pending (project_run now tid r ms) = ms_pending ms"
  "ms_thread_states (project_run now tid r ms) = ms_thread_states ms"
  by (simp_all add: project_run_def put_run_def put_thread_def Let_def)

lemma inv_project_run:
  assumes inv: "store_inv ms" and valid: "validate_run_record r = Inr ()"
    and checked: "checkpoint_hierarchy tid r ms = Inr ()"
  shows "store_inv (project_run now tid r ms)"
proof -
  define t where "t = (case load_thread tid ms of None \<Rightarrow> thread_with_id tid | Some t \<Rightarrow> t)"
  define u where "u = normalize_lineage (apply_run_projection r (touch now t))"
  have t: "th_id t = tid" "normalize_lineage_id (th_parent_thread_id t) = th_parent_thread_id t"
    using threads_okD [OF store_invD(1) [OF inv]] threads_ok_parent [OF store_invD(1) [OF inv]]
    by (auto simp: t_def load_thread_def thread_with_id_def split: option.splits)
  have existing: "Option.bind (load_thread tid ms) th_parent_thread_id = th_parent_thread_id t"
    by (auto simp: t_def thread_with_id_def split: option.splits)
  have "hierarchy_ok (fmupd tid u (ms_threads ms))"
  proof (cases "normalize_lineage_id (th_parent_thread_id u) =
      normalize_lineage_id (checkpoint_parent_thread_id (load_thread tid ms) r)")
    case True
    then show ?thesis
      using checked by (intro hierarchy_ok_checked [OF store_invD(2) [OF inv]]) (simp_all add: checkpoint_hierarchy_def)
  next
    case False
    have "th_parent_thread_id u = None"
      using apply_run_projection_parent [of r "touch now t"] False t existing
      by (auto simp: u_def checkpoint_parent_thread_id_def split: option.splits)
    then show ?thesis by (intro hierarchy_ok_orphan [OF store_invD(2) [OF inv]]) simp
  qed
  then have "store_inv (put_thread tid u ms)"
    using t by (intro inv_put_thread [OF inv]) (simp_all add: u_def)
  then show ?thesis
    using valid by (simp add: project_run_def Let_def t_def [symmetric] u_def [symmetric] inv_put_run)
qed

lemma inv_checkpoint: "store_inv ms \<Longrightarrow> store_inv (snd (checkpoint now tid l r ms))"
  using inv_put_messages [OF inv_project_run [of ms r tid now], of l tid]
  by (auto simp: checkpoint_def first_error_Inr split: sum.splits)

lemma inv_create_run: "store_inv ms \<Longrightarrow> store_inv (snd (create_run r ms))"
  by (auto simp: create_run_def inv_put_run split: sum.splits)

lemma checkpoint_hierarchy_frame:
  "ms_threads ms' = ms_threads ms \<Longrightarrow> checkpoint_hierarchy tid r ms' = checkpoint_hierarchy tid r ms"
  by (simp add: checkpoint_hierarchy_def load_thread_def)

lemma inv_checkpoint_append: "store_inv ms \<Longrightarrow> store_inv (snd (checkpoint_append now tid l expected r ms))"
proof -
  assume inv: "store_inv ms"
  obtain existing ms1 where e: "log_entry tid ms = (existing, ms1)" by (cases "log_entry tid ms")
  note entry = log_entry_inv [OF inv e]
  have "store_inv ((project_run now tid r ms1)\<lparr>ms_messages := (ms_messages ms1)(tid \<mapsto> merged)\<rparr>)"
    if "merge_checkpoint_append_messages existing l = (Inr (), merged)" "validate_run_record r = Inr ()"
      "checkpoint_hierarchy tid r ms = Inr ()" for merged
    using inv_put_messages [OF inv_project_run [OF entry(1) that(2), of tid now], of merged tid] that
      merge_checkpoint_append_Inr [OF entry(2)] checkpoint_hierarchy_frame [OF entry(3)] by simp
  with inv entry(1) show ?thesis
    by (auto simp: checkpoint_append_def e first_error_Inr split: sum.splits prod.splits)
qed

section \<open>Messages\<close>

lemma inv_save_messages: "store_inv ms \<Longrightarrow> store_inv (snd (save_messages tid l ms))"
  by (auto simp: save_messages_def inv_put_messages split: sum.splits)

lemma inv_append_message_records: "store_inv ms \<Longrightarrow> store_inv (snd (append_message_records gens tid l ms))"
proof -
  assume inv: "store_inv ms"
  obtain existing ms1 where e: "log_entry tid ms = (existing, ms1)" by (cases "log_entry tid ms")
  note entry = log_entry_inv [OF inv e]
  show ?thesis
    using entry(1) validate_append_only_delta_Inr [OF entry(2), of l]
    by (auto simp: append_message_records_def e inv_put_messages split: sum.splits)
qed

lemma inv_delete_messages: "store_inv ms \<Longrightarrow> store_inv (snd (delete_messages tid ms))"
  by (simp add: delete_messages_def inv_drop_messages)


section \<open>Pending messages\<close>

lemma numbered_normalize: "numbered (normalize_pending_positions q)"
  by (simp add: numbered_def normalize_pending_positions_def nth_enumerate_eq)

lemma normalize_positions_map:
  "map pr_pending_id (normalize_pending_positions q) = map pr_pending_id q"
  "map pr_message (normalize_pending_positions q) = map pr_message q"
  by (rule nth_equalityI; simp add: normalize_pending_positions_def nth_enumerate_eq)+

lemma set_normalize_positions:
  "r \<in> set (normalize_pending_positions q) \<Longrightarrow> \<exists>r' \<in> set q. \<exists>i. r = r'\<lparr>pr_position := i\<rparr>"
  by (auto simp: normalize_pending_positions_def in_set_enumerate_eq)

lemma pending_ok_position [simp]: "pending_ok tid (r\<lparr>pr_position := i\<rparr>) = pending_ok tid r"
  by (simp add: pending_ok_def)

lemma queue_ok_normalize:
  "\<forall>r \<in> set q. pending_ok tid r \<Longrightarrow> distinct (map pr_pending_id q) \<Longrightarrow>
   queue_ok tid (normalize_pending_positions q)"
  unfolding queue_ok_def normalize_positions_map
  using set_normalize_positions by (fastforce intro: numbered_normalize)

lemma set_remove_at: "set (remove_at i q) \<subseteq> set q"
  by (auto simp: remove_at_def dest: in_set_takeD in_set_dropD)

lemma distinct_remove_at: "distinct (map f q) \<Longrightarrow> distinct (map f (remove_at i q))"
proof -
  assume "distinct (map f q)"
  then have "distinct (map f (take i q @ drop i q))" by simp
  then have "distinct (map f (take i q) @ map f (drop i q))" by (simp only: map_append)
  moreover have "drop (Suc i) q = tl (drop i q)" by (simp add: drop_Suc tl_drop)
  ultimately show ?thesis
    unfolding remove_at_def by (cases "drop i q") auto
qed

lemma remove_all_ok:
  "\<forall>r \<in> set q. P r \<Longrightarrow> distinct (map f q) \<Longrightarrow>
   (\<forall>r \<in> set (fold remove_at is q). P r) \<and> distinct (map f (fold remove_at is q))"
  for "is" :: "nat list"
proof (induction "is" arbitrary: q)
  case (Cons i "is")
  have "\<forall>r \<in> set (remove_at i q). P r" using Cons.prems(1) set_remove_at [of i q] by blast
  with Cons distinct_remove_at [OF Cons.prems(2)] show ?case by simp
qed simp

lemma validate_pending_Inr:
  "validate_pending_message_record r = Inr () \<longleftrightarrow>
     pending_ok (pr_thread_id r) r \<and> \<not> is_blank (pr_thread_id r) \<and> pr_position r \<noteq> 0 \<and> pr_revision r \<noteq> 0"
  by (auto simp: validate_pending_message_record_def pending_ok_def validate_message_shape_Inr split: option.splits)

lemma new_pending_nth:
  assumes "i < length l"
  shows "pr_thread_id (new_pending_records gens now tid q l mode ! i) = tid"
    "pr_position (new_pending_records gens now tid q l mode ! i) = of_nat (length q) + 1 + of_nat i"
  using assms by (simp_all add: new_pending_records_def nth_enumerate_eq pending_from_message_def Let_def)

lemma length_new_pending [simp]: "length (new_pending_records gens now tid q l mode) = length l"
  by (simp add: new_pending_records_def)

lemma check_new_pending_Inr:
  "check_new_pending tid ms seen rs = Inr () \<Longrightarrow>
     (\<forall>r \<in> set rs. validate_pending_message_record r = Inr () \<and>
        \<not> committed_message_exists tid (pr_pending_id r) ms) \<and>
     distinct (map pr_pending_id rs) \<and> pr_pending_id ` set rs \<inter> set seen = {}"
  by (induction tid ms seen rs rule: check_new_pending.induct) (auto split: sum.splits if_splits)

lemma queue_ok_append:
  assumes "queue_ok tid q"
    "check_new_pending tid ms (map pr_pending_id q) (new_pending_records gens now tid q l mode) = Inr ()"
  shows "queue_ok tid (q @ new_pending_records gens now tid q l mode)"
proof -
  let ?new = "new_pending_records gens now tid q l mode"
  note new = check_new_pending_Inr [OF assms(2)]
  have "pending_ok tid r" if "r \<in> set ?new" for r
  proof -
    have "pr_thread_id r = tid" using that new_pending_nth(1) by (auto simp: in_set_conv_nth)
    then show ?thesis using new that by (auto simp: validate_pending_Inr)
  qed
  moreover have "numbered (q @ ?new)"
    unfolding numbered_def
  proof (intro allI impI)
    fix i assume i: "i < length (q @ ?new)"
    show "pr_position ((q @ ?new) ! i) = of_nat i + 1"
    proof (cases "i < length q")
      case True
      then show ?thesis using assms(1) by (simp add: nth_append queue_ok_def numbered_def)
    next
      case False
      then obtain j where j: "i = length q + j" using le_Suc_ex by (auto simp: not_less)
      with i have "j < length l" by simp
      then show ?thesis using new_pending_nth(2) by (simp add: nth_append j algebra_simps)
    qed
  qed
  ultimately show ?thesis using assms(1) new by (auto simp: queue_ok_def)
qed

lemma inv_append_pending:
  "store_inv ms \<Longrightarrow> store_inv (snd (append_pending_message_records gens now tid l mode ms))"
proof -
  assume inv: "store_inv ms"
  obtain q ms1 where q: "queue_entry tid ms = (q, ms1)" by (cases "queue_entry tid ms")
  note entry = queue_entry_inv [OF inv q]
  show ?thesis
    using entry(1) queue_ok_append [OF entry(2)]
    by (auto simp: append_pending_message_records_def q Let_def inv_put_queue split: sum.splits)
qed

lemma index_of_pending_Some:
  "index_of_pending pid q = Some i \<Longrightarrow> i < length q \<and> pr_pending_id (q ! i) = pid"
  by (induction q arbitrary: i) (auto split: if_splits)

lemma numbered_update: "numbered q \<Longrightarrow> i < length q \<Longrightarrow> pr_position r = pr_position (q ! i) \<Longrightarrow> numbered (q[i := r])"
  by (simp add: numbered_def nth_list_update)

lemma inv_update_pending:
  assumes inv: "store_inv ms"
  shows "store_inv (snd (update_pending_message_record_checked now tid pid expected m ms))"
proof (cases "Option.bind (ms_pending ms tid) (\<lambda>q. map_option (\<lambda>i. (q, i)) (index_of_pending pid q))")
  case (Some qi)
  then obtain q i where qi: "qi = (q, i)" "ms_pending ms tid = Some q" "index_of_pending pid q = Some i"
    by (auto simp: bind_eq_Some_conv)
  note i = index_of_pending_Some [OF qi(3)] and q = store_invD(5) [OF inv qi(2)]
  define m1 where "m1 = (case msg_id m of None \<Rightarrow> m\<lparr>msg_id := Some pid\<rparr> | Some _ \<Rightarrow> m)"
  define r1 where "r1 = (q ! i)\<lparr>pr_message := m1, pr_revision := pr_revision (q ! i) + 1,
      pr_updated_at := Some (now div 1000)\<rparr>"
  have "queue_ok tid (q[i := r1])" if "validate_pending_message_record ((q ! i)\<lparr>pr_message := m1\<rparr>) = Inr ()"
  proof -
    have same: "pr_pending_id r1 = pr_pending_id (q ! i)" "pr_thread_id r1 = pr_thread_id (q ! i)"
        "pr_position r1 = pr_position (q ! i)" "pr_message r1 = m1" by (simp_all add: r1_def)
    have "pr_thread_id (q ! i) = tid" using q i by (auto simp: queue_ok_def pending_ok_def)
    then have "pending_ok tid r1" using that same by (simp add: validate_pending_Inr pending_ok_def)
    moreover have "map pr_pending_id (q[i := r1]) = map pr_pending_id q"
      using i same by (simp add: map_update list_update_same_conv)
    ultimately show ?thesis
      using q i same set_update_subset_insert [of q i r1]
      by (auto simp: queue_ok_def intro: numbered_update)
  qed
  with inv Some show ?thesis
    by (auto simp: update_pending_message_record_checked_def qi Let_def first_error_Inr m1_def r1_def
        inv_put_queue split: sum.splits)
qed (use inv in \<open>simp add: update_pending_message_record_checked_def\<close>)

lemma inv_retract_pending:
  assumes inv: "store_inv ms"
  shows "store_inv (snd (retract_pending_message_record_checked tid pid expected ms))"
proof (cases "Option.bind (ms_pending ms tid) (\<lambda>q. map_option (\<lambda>i. (q, i)) (index_of_pending pid q))")
  case (Some qi)
  then obtain q i where qi: "qi = (q, i)" "ms_pending ms tid = Some q"
    by (auto simp: bind_eq_Some_conv)
  have "queue_ok tid (normalize_pending_positions (remove_at i q))"
    using store_invD(5) [OF inv qi(2)] set_remove_at [of i q] distinct_remove_at [of pr_pending_id q i]
    by (intro queue_ok_normalize) (auto simp: queue_ok_def)
  with inv Some show ?thesis
    by (auto simp: retract_pending_message_record_checked_def qi inv_put_queue split: sum.splits)
qed (use inv in \<open>simp add: retract_pending_message_record_checked_def\<close>)


lemma take_in_order_takes:
  "take_in_order pids by_id = Inr (rs, rest) \<Longrightarrow>
     length rs = length pids \<and> distinct pids \<and> (\<forall>i < length pids. by_id (pids ! i) = Some (rs ! i)) \<and>
     rest = (\<lambda>k. if k \<in> set pids then None else by_id k)"
proof (induction pids arbitrary: by_id rs rest)
  case (Cons pid pids)
  from Cons.prems obtain r rs' where r: "by_id pid = Some r" "rs = r # rs'"
      and t: "take_in_order pids (by_id(pid := None)) = Inr (rs', rest)"
    by (auto split: option.splits sum.splits)
  note IH = Cons.IH [OF t]
  have "pid \<notin> set pids"
  proof
    assume "pid \<in> set pids"
    then obtain i where "i < length pids" "pids ! i = pid" by (auto simp: in_set_conv_nth)
    with IH show False by fastforce
  qed
  with IH r show ?case by (auto simp: less_Suc_eq_0_disj split: if_splits)
qed auto

lemma map_of_rev_keyed:
  "map_of (rev (map (\<lambda>r. (f r, r)) q)) k = Some r \<Longrightarrow> r \<in> set q \<and> f r = k"
  by (auto dest!: map_of_SomeD)

lemma inv_reorder_pending:
  assumes inv: "store_inv ms"
  shows "store_inv (snd (reorder_pending_message_records_checked now tid expected ids ms))"
proof (cases "ms_pending ms tid")
  case (Some q)
  note q = store_invD(5) [OF inv Some]
  define bump where "bump = (\<lambda>r :: pending_record. r\<lparr>pr_revision := pr_revision r + 1, pr_updated_at := Some (now div 1000)\<rparr>)"
  have "queue_ok tid (map bump (normalize_pending_positions rs))"
    if take: "take_in_order ids (map_of (rev (map (\<lambda>r. (pr_pending_id r, r)) q))) = Inr (rs, rest)" for rs rest
  proof -
    note rs = take_in_order_takes [OF take]
    have nth: "rs ! i \<in> set q \<and> pr_pending_id (rs ! i) = ids ! i" if "i < length rs" for i
      using rs that by (intro map_of_rev_keyed) simp
    then have "map pr_pending_id rs = ids" using rs by (intro nth_equalityI) auto
    with rs have "distinct (map pr_pending_id rs)" by simp
    moreover have "\<forall>r \<in> set rs. pending_ok tid r"
    proof
      fix r assume "r \<in> set rs"
      then have "r \<in> set q" using nth by (metis in_set_conv_nth)
      with q show "pending_ok tid r" by (simp add: queue_ok_def)
    qed
    ultimately have "queue_ok tid (normalize_pending_positions rs)" by (intro queue_ok_normalize)
    moreover have bump: "pr_pending_id (bump r) = pr_pending_id r" "pr_position (bump r) = pr_position r"
        "pending_ok tid (bump r) = pending_ok tid r" for r
      by (simp_all add: bump_def pending_ok_def)
    ultimately show ?thesis
      by (simp add: queue_ok_def numbered_def comp_def)
  qed
  with inv Some show ?thesis
    by (auto simp: reorder_pending_message_records_checked_def Let_def bump_def inv_put_queue
        split: sum.splits option.splits)
qed (use inv in \<open>simp add: reorder_pending_message_records_checked_def split: option.split\<close>)

section \<open>Freezing\<close>

lemma inv_move_selected:
  assumes inv: "store_inv ms" and q: "queue_ok tid q"
    and log: "log_ok (committed @ map (\<lambda>i. pr_message (q ! i)) idxs)"
  shows "store_inv (snd (move_selected gens tid idxs q committed ms))"
proof -
  have "queue_ok tid (normalize_pending_positions (fold remove_at (rev idxs) q))"
    using q remove_all_ok [of q "pending_ok tid" pr_pending_id "rev idxs"]
    by (intro queue_ok_normalize) (auto simp: queue_ok_def)
  then show ?thesis
    by (simp add: move_selected_def Let_def inv_put_queue inv_put_log [OF inv log])
qed

lemma inv_freeze_pending:
  "store_inv ms \<Longrightarrow> store_inv (snd (freeze_pending_message_records gens tid b expected ms))"
proof -
  assume inv: "store_inv ms"
  obtain committed ms1 where e: "log_entry tid ms = (committed, ms1)" by (cases "log_entry tid ms")
  note entry = log_entry_inv [OF inv e]
  have "store_inv ms2"
    if "ms_pending ms1 tid = Some q" "move_selected gens tid idxs q committed ms1 = (rs, ms2)"
      "validate_append_only_delta committed (map (\<lambda>i. pr_message (q ! i)) idxs) = Inr ()" for q idxs rs ms2
    using inv_move_selected [OF entry(1) store_invD(5) [OF entry(1) that(1)], of committed idxs gens] that entry(2)
    by (simp add: validate_append_only_delta_Inr)
  with entry(1) show ?thesis
    by (auto simp: freeze_pending_message_records_def e Let_def
        split: sum.splits option.splits prod.splits)
qed

lemma move_selected_frame:
  assumes "move_selected gens tid idxs q committed ms = (rs, ms2)"
  shows "ms_threads ms2 = ms_threads ms" "ms_runs ms2 = ms_runs ms"
  using assms by (auto simp: move_selected_def Let_def put_queue_def put_log_def)

lemma inv_freeze_selection:
  assumes inv: "store_inv ms" and q: "queue_ok tid q" and valid: "validate_run_record r = Inr ()"
    and checked: "checkpoint_hierarchy tid r ms = Inr ()"
  shows "store_inv (snd (freeze_selection gens now tid b expected_ids r q ms))"
proof -
  obtain committed ms1 where e: "log_entry tid ms = (committed, ms1)" by (cases "log_entry tid ms")
  note entry = log_entry_inv [OF inv e]
  have "store_inv (project_run now tid r ms2)"
    if "validate_append_only_delta committed (map (\<lambda>i. pr_message (q ! i)) idxs) = Inr ()"
      "move_selected gens tid idxs q committed ms1 = (rs, ms2)" for idxs rs ms2
  proof (rule inv_project_run [OF _ valid])
    show "store_inv ms2"
      using inv_move_selected [OF entry(1) q, of committed idxs gens] that
      by (simp add: validate_append_only_delta_Inr [OF entry(2)])
    show "checkpoint_hierarchy tid r ms2 = Inr ()"
      using checked checkpoint_hierarchy_frame [of ms2 ms tid r] move_selected_frame [OF that(2)] entry(3) by simp
  qed
  with entry(1) inv show ?thesis
    by (auto simp: freeze_selection_def e Let_def split: sum.splits prod.splits)
qed

lemma inv_freeze_with_run:
  "store_inv ms \<Longrightarrow> store_inv (snd (freeze_pending_message_records_with_run gens now tid b expected ids r ms))"
proof -
  assume inv: "store_inv ms"
  obtain q ms1 where q: "queue_entry tid ms = (q, ms1)" by (cases "queue_entry tid ms")
  note entry = queue_entry_inv [OF inv q]
  have "store_inv (snd (freeze_selection gens now tid b ids r q ms1))"
    if "freeze_checks tid expected r ms = Inr ()"
    using that checkpoint_hierarchy_frame [OF entry(3), of tid r]
    by (intro inv_freeze_selection entry) (simp_all add: freeze_checks_def first_error_Inr)
  with inv show ?thesis
    by (auto simp: freeze_pending_message_records_with_run_def q split: sum.splits)
qed

lemma inv_append_and_freeze:
  "store_inv ms \<Longrightarrow> store_inv (snd (append_and_freeze_pending_message_records_with_run
     gens now tid l mode b expected ids r ms))"
proof -
  assume inv: "store_inv ms"
  obtain q ms1 where q: "queue_entry tid ms = (q, ms1)" by (cases "queue_entry tid ms")
  note entry = queue_entry_inv [OF inv q]
  define new where "new = new_pending_records gens (now div 1000) tid q l mode"
  have "store_inv (snd (freeze_selection gens now tid b ids r (q @ new) (put_queue tid (q @ new) ms1)))"
    if "freeze_checks tid expected r ms = Inr ()" "check_new_pending tid ms (map pr_pending_id q) new = Inr ()"
  proof -
    have ok: "queue_ok tid (q @ new)" using queue_ok_append [OF entry(2)] that(2) by (simp add: new_def)
    have "ms_threads (put_queue tid (q @ new) ms1) = ms_threads ms" by (simp add: put_queue_def entry(3))
    from checkpoint_hierarchy_frame [OF this, of tid r] that(1) show ?thesis
      by (intro inv_freeze_selection ok inv_put_queue entry) (simp_all add: freeze_checks_def first_error_Inr)
  qed
  with inv entry(1) show ?thesis
    by (auto simp: append_and_freeze_pending_message_records_with_run_def q Let_def new_def split: sum.splits)
qed

end
