(* ===== verification/Thread_Store_Correct.thy ===== *)
theory Thread_Store_Correct
imports Thread_Store_Inv "HOL-Library.Sublist"
begin

text \<open>
  What the in-memory store promises its callers: the hierarchy of threads stays free of cycles and is
  deleted as asked, logs are well formed and grow only by appends that name their version, and a
  delivered message is consumed once.
\<close>

section \<open>Calls\<close>

datatype store_call =
    CallSaveThread thread
  | CallSaveThreadValidated thread
  | CallDeleteThread string
  | CallDeleteThreadWithStrategy "string list" u64 string child_delete_strategy
  | CallSaveThreadState string persisted_state
  | CallUpdateThreadMetadata string thread_metadata
  | CallSaveMessages string "message list"
  | CallAppendMessages "nat \<Rightarrow> string" string "message list"
  | CallDeleteMessages string
  | CallCreateRun run_record
  | CallCheckpoint u64 string "message list" run_record
  | CallCheckpointAppend u64 string "message list" "u64 option" run_record
  | CallAppendPending "nat \<Rightarrow> string" u64 string "message list" delivery_mode
  | CallUpdatePending u64 string string "u64 option" message
  | CallRetractPending string string "u64 option"
  | CallReorderPending u64 string "u64 option" "string list"
  | CallFreezePending "nat \<Rightarrow> string" string delivery_boundary "u64 option"
  | CallFreezeWithRun "nat \<Rightarrow> string" u64 string delivery_boundary "u64 option" "string list" run_record
  | CallAppendAndFreeze "nat \<Rightarrow> string" u64 string "message list" delivery_mode delivery_boundary
      "u64 option" "string list" run_record
  | CallProfileSet u64 profile_owner string json
  | CallProfileDelete profile_owner string
  | CallProfileClear profile_owner
  | CallConfigPut string string json
  | CallConfigPutIfAbsent string string json
  | CallConfigDelete string string
  | CallConfigPutIfRevision string string json u64
  | CallConfigDeleteIfRevision string string u64

fun run_call :: "store_call \<Rightarrow> memory_store \<Rightarrow> memory_store" where
  "run_call (CallSaveThread t) ms = snd (save_thread t ms)"
| "run_call (CallSaveThreadValidated t) ms = snd (save_thread_validated t ms)"
| "run_call (CallDeleteThread k) ms = snd (delete_thread k ms)"
| "run_call (CallDeleteThreadWithStrategy ord now k s) ms = snd (delete_thread_with_strategy ord now k s ms)"
| "run_call (CallSaveThreadState k s) ms = snd (save_thread_state k s ms)"
| "run_call (CallUpdateThreadMetadata k m) ms = snd (update_thread_metadata k m ms)"
| "run_call (CallSaveMessages k l) ms = snd (save_messages k l ms)"
| "run_call (CallAppendMessages gens k l) ms = snd (append_message_records gens k l ms)"
| "run_call (CallDeleteMessages k) ms = snd (delete_messages k ms)"
| "run_call (CallCreateRun r) ms = snd (create_run r ms)"
| "run_call (CallCheckpoint now k l r) ms = snd (checkpoint now k l r ms)"
| "run_call (CallCheckpointAppend now k l v r) ms = snd (checkpoint_append now k l v r ms)"
| "run_call (CallAppendPending gens now k l m) ms = snd (append_pending_message_records gens now k l m ms)"
| "run_call (CallUpdatePending now k p v m) ms = snd (update_pending_message_record_checked now k p v m ms)"
| "run_call (CallRetractPending k p v) ms = snd (retract_pending_message_record_checked k p v ms)"
| "run_call (CallReorderPending now k v ids) ms = snd (reorder_pending_message_records_checked now k v ids ms)"
| "run_call (CallFreezePending gens k b v) ms = snd (freeze_pending_message_records gens k b v ms)"
| "run_call (CallFreezeWithRun gens now k b v ids r) ms =
     snd (freeze_pending_message_records_with_run gens now k b v ids r ms)"
| "run_call (CallAppendAndFreeze gens now k l m b v ids r) ms =
     snd (append_and_freeze_pending_message_records_with_run gens now k l m b v ids r ms)"
| "run_call (CallProfileSet now owner k v) ms = profile_set now owner k v ms"
| "run_call (CallProfileDelete owner k) ms = profile_delete owner k ms"
| "run_call (CallProfileClear owner) ms = profile_clear_owner owner ms"
| "run_call (CallConfigPut ns i v) ms = snd (config_put ns i v ms)"
| "run_call (CallConfigPutIfAbsent ns i v) ms = snd (config_put_if_absent ns i v ms)"
| "run_call (CallConfigDelete ns i) ms = snd (config_delete ns i ms)"
| "run_call (CallConfigPutIfRevision ns i v n) ms = snd (config_put_if_revision ns i v n ms)"
| "run_call (CallConfigDeleteIfRevision ns i n) ms = snd (config_delete_if_revision ns i n ms)"

text \<open>
  The unchecked \<^verbatim>\<open>save_thread\<close> is for callers that leave the parent of a thread as it is; those that
  change it use the validated one, as the documentation of the trait asks them to. Nothing in the code
  enforces that: \<open>unvalidated_save_makes_cycle\<close> shows what happens otherwise.
\<close>

definition call_ok :: "store_call \<Rightarrow> memory_store \<Rightarrow> bool" where
  "call_ok c ms = (case c of
      CallSaveThread t \<Rightarrow> normalize_lineage_id (th_parent_thread_id t) = parent_of (ms_threads ms) (th_id t)
    | _ \<Rightarrow> True)"

inductive store_reachable :: "memory_store \<Rightarrow> bool" where
  start: "store_reachable memory_store_new"
| call: "store_reachable ms \<Longrightarrow> call_ok c ms \<Longrightarrow> store_reachable (run_call c ms)"

lemma config_frame [simp]:
  "ms_threads (config_send ns i k ms) = ms_threads ms" "ms_messages (config_send ns i k ms) = ms_messages ms"
  "ms_runs (config_send ns i k ms) = ms_runs ms" "ms_pending (config_send ns i k ms) = ms_pending ms"
  "ms_threads (config_insert ns i v ms) = ms_threads ms" "ms_messages (config_insert ns i v ms) = ms_messages ms"
  "ms_runs (config_insert ns i v ms) = ms_runs ms" "ms_pending (config_insert ns i v ms) = ms_pending ms"
  "ms_threads (config_remove ns i ms) = ms_threads ms" "ms_messages (config_remove ns i ms) = ms_messages ms"
  "ms_runs (config_remove ns i ms) = ms_runs ms" "ms_pending (config_remove ns i ms) = ms_pending ms"
  by (simp_all add: config_send_def config_insert_def config_remove_def Let_def split: option.split)

text \<open>The calls that leave threads, logs, runs and queues alone.\<close>

fun is_side_call :: "store_call \<Rightarrow> bool" where
  "is_side_call (CallSaveThreadState _ _) = True"
| "is_side_call (CallProfileSet _ _ _ _) = True"
| "is_side_call (CallProfileDelete _ _) = True"
| "is_side_call (CallProfileClear _) = True"
| "is_side_call (CallConfigPut _ _ _) = True"
| "is_side_call (CallConfigPutIfAbsent _ _ _) = True"
| "is_side_call (CallConfigDelete _ _) = True"
| "is_side_call (CallConfigPutIfRevision _ _ _ _) = True"
| "is_side_call (CallConfigDeleteIfRevision _ _ _) = True"
| "is_side_call _ = False"

lemma side_call_frame:
  assumes "is_side_call c"
  shows "ms_threads (run_call c ms) = ms_threads ms \<and> ms_messages (run_call c ms) = ms_messages ms \<and>
    ms_runs (run_call c ms) = ms_runs ms \<and> ms_pending (run_call c ms) = ms_pending ms"
  using assms
  by (cases c) (auto simp: save_thread_state_def profile_set_def profile_delete_def profile_clear_owner_def
      config_put_def config_put_if_absent_def config_delete_def config_put_if_revision_def
      config_delete_if_revision_def Let_def split: option.splits)

lemmas inv_calls = inv_save_thread inv_save_thread_validated inv_delete_thread inv_delete_thread_with_strategy
  inv_update_thread_metadata inv_save_messages inv_append_message_records inv_delete_messages inv_create_run
  inv_checkpoint inv_checkpoint_append inv_append_pending inv_update_pending inv_retract_pending
  inv_reorder_pending inv_freeze_pending inv_freeze_with_run inv_append_and_freeze

lemma inv_run_call:
  assumes "store_inv ms" "call_ok c ms"
  shows "store_inv (run_call c ms)"
proof (cases "is_side_call c")
  case True
  from side_call_frame [OF this, of ms] show ?thesis by (intro store_inv_frame [OF assms(1)]) simp_all
next
  case False
  with assms show ?thesis by (cases c) (simp_all add: inv_calls call_ok_def)
qed

lemma store_reachable_inv: "store_reachable ms \<Longrightarrow> store_inv ms"
  by (induction rule: store_reachable.induct) (simp_all add: store_inv_new inv_run_call)

section \<open>The hierarchy\<close>

text \<open>
  C36: The parents of the stored threads never form a cycle, whatever is called, as long as the plain
  \<^verbatim>\<open>save_thread\<close> is not used to set or change a parent (a low-level primitive, it stores the thread without
  a look at the hierarchy, and can create a cycle); and a thread is refused by the validated save exactly when its own
  fields are invalid, or one of its ancestors-to-be is missing or is the thread itself. So every later walk
  over ancestors ends at a root.
\<close>
theorem thread_hierarchy_stays_acyclic:
  assumes "store_reachable ms"
  shows "acyclic (parent_rel (ms_threads ms)) \<and>
    (fst (save_thread_validated t ms) = Inr () \<longleftrightarrow>
       validate_thread (normalize_lineage t) = Inr () \<and>
       (case normalize_lineage_id (th_parent_thread_id t) of
          None \<Rightarrow> True
        | Some p \<Rightarrow> \<forall>x. (p, x) \<in> (parent_rel (ms_threads ms))\<^sup>* \<longrightarrow>
             x \<noteq> th_id t \<and> fmlookup (ms_threads ms) x \<noteq> None))"
proof -
  have ok: "hierarchy_ok (ms_threads ms)" using store_invD(2) [OF store_reachable_inv [OF assms]] .
  have "fst (save_thread_validated t ms) = Inr () \<longleftrightarrow> validate_thread (normalize_lineage t) = Inr () \<and>
      validate_thread_hierarchy_map (ms_threads ms) (th_id t) (normalize_lineage_id (th_parent_thread_id t)) = Inr ()"
    by (auto simp: save_thread_validated_def Let_def split: sum.splits)
  then show ?thesis using ok by (simp add: hierarchy_check [OF ok] hierarchy_ok_def)
qed

text \<open>A parent and its child, and the attempt to put the parent below the child.\<close>

definition family :: memory_store where
  "family = run_call (CallSaveThreadValidated (with_parent_thread_id ''a'' (thread_with_id ''b'')))
     (run_call (CallSaveThreadValidated (thread_with_id ''a'')) memory_store_new)"

lemma family_reachable: "store_reachable family"
  unfolding family_def by (intro store_reachable.intros) (simp_all add: call_ok_def)

lemma trim_a: "trim ''a'' = ''a''" "trim ''b'' = ''b''"
  by code_simp+

lemma family_threads:
  "fmlookup (ms_threads family) = [''a'' \<mapsto> thread_with_id ''a'', ''b'' \<mapsto> with_parent_thread_id ''a'' (thread_with_id ''b'')]"
proof -
  have 1: "snd (save_thread_validated (thread_with_id ''a'') memory_store_new) =
      put_thread ''a'' (thread_with_id ''a'') memory_store_new"
    by (simp add: save_thread_validated_def Let_def thread_with_id_def normalize_lineage_def normalize_lineage_id_def
        validate_thread_def first_error.simps require_non_empty_def is_blank_def trim_a
        require_optional_non_empty_def validate_thread_hierarchy_map_def memory_store_new_def put_thread_def)
  have 2: "snd (save_thread_validated (with_parent_thread_id ''a'' (thread_with_id ''b''))
      (put_thread ''a'' (thread_with_id ''a'') memory_store_new)) =
      put_thread ''b'' (with_parent_thread_id ''a'' (thread_with_id ''b''))
        (put_thread ''a'' (thread_with_id ''a'') memory_store_new)"
    by (simp add: save_thread_validated_def Let_def thread_with_id_def with_parent_thread_id_def normalize_lineage_def
        normalize_lineage_id_def validate_thread_def first_error.simps require_non_empty_def is_blank_def trim_a
        require_optional_non_empty_def validate_thread_hierarchy_map_def memory_store_new_def put_thread_def
        walk_ancestors.simps)
  show ?thesis unfolding family_def run_call.simps 1 2
    by (auto simp: put_thread_def memory_store_new_def fun_eq_iff)
qed

theorem thread_hierarchy_stays_acyclic_witness:
  "fst (save_thread_validated (with_parent_thread_id ''b'' (thread_with_id ''a'')) family) \<noteq> Inr ()"
proof
  assume "fst (save_thread_validated (with_parent_thread_id ''b'' (thread_with_id ''a'')) family) = Inr ()"
  moreover have "(''b'', ''a'') \<in> (parent_rel (ms_threads family))\<^sup>*"
    by (rule r_into_rtrancl)
      (simp add: parent_of_def family_threads with_parent_thread_id_def normalize_lineage_id_def trim_a)
  ultimately show False
    using thread_hierarchy_stays_acyclic [OF family_reachable, of "with_parent_thread_id ''b'' (thread_with_id ''a'')"]
    by (simp add: with_parent_thread_id_def normalize_lineage_id_def trim_a thread_with_id_def) blast
qed

text \<open>The plain save takes the same thread, and the two threads become each other's parents.\<close>

lemma unvalidated_save_makes_cycle:
  "\<not> acyclic (parent_rel (ms_threads (run_call (CallSaveThread (with_parent_thread_id ''b'' (thread_with_id ''a''))) family)))"
proof -
  let ?t = "with_parent_thread_id ''b'' (thread_with_id ''a'')"
  have "snd (save_thread ?t family) = put_thread ''a'' ?t family"
    by (simp add: save_thread_def Let_def thread_with_id_def with_parent_thread_id_def normalize_lineage_def
        normalize_lineage_id_def validate_thread_def first_error.simps require_non_empty_def is_blank_def trim_a
        require_optional_non_empty_def)
  then have "(''a'', ''b'') \<in> parent_rel (ms_threads (run_call (CallSaveThread ?t) family))"
    "(''b'', ''a'') \<in> parent_rel (ms_threads (run_call (CallSaveThread ?t) family))"
    by (simp_all add: parent_rel_def parent_of_def put_thread_def family_threads with_parent_thread_id_def
        normalize_lineage_id_def trim_a)
  then have "(''a'', ''a'') \<in> (parent_rel (ms_threads (run_call (CallSaveThread ?t) family)))\<^sup>+"
    by (meson trancl.intros)
  then show ?thesis unfolding acyclic_def by blast
qed

section \<open>Deleting threads\<close>

lemma remove_threads_lookup:
  "fmlookup (ms_threads (fold remove_thread ks ms)) x = (if x \<in> set ks then None else fmlookup (ms_threads ms) x)"
  "ms_messages (fold remove_thread ks ms) x = (if x \<in> set ks then None else ms_messages ms x)"
  "ms_pending (fold remove_thread ks ms) x = (if x \<in> set ks then None else ms_pending ms x)"
  by (induction ks arbitrary: ms) (simp_all add: remove_thread_def)

lemma remove_thread_lookup:
  "fmlookup (ms_threads (remove_thread k ms)) x = (if x = k then None else fmlookup (ms_threads ms) x)"
  "ms_messages (remove_thread k ms) x = (if x = k then None else ms_messages ms x)"
  "ms_pending (remove_thread k ms) x = (if x = k then None else ms_pending ms x)"
  by (simp_all add: remove_thread_def)

definition detached :: "u64 \<Rightarrow> thread \<Rightarrow> thread" where
  "detached now t = t\<lparr>th_parent_thread_id := None, th_metadata := (th_metadata t)\<lparr>tm_updated_at := Some now\<rparr>\<rparr>"

lemma detach_child_detached:
  assumes "threads_ok (ms_threads ms)" "fmlookup (ms_threads ms) c = Some t"
  shows "detach_child now c ms = put_thread c (detached now t) ms"
proof -
  have "normalize_lineage t = t" using threads_okD [OF assms] by simp
  then have res: "normalize_lineage_id (th_resource_id t) = th_resource_id t"
    by (metis thread.select_convs(2) normalize_lineage_def thread.surjective thread.update_convs(2,3))
  have "normalize_lineage (t\<lparr>th_parent_thread_id := None\<rparr>) = t\<lparr>th_parent_thread_id := None\<rparr>"
    by (cases t) (use res in \<open>simp add: normalize_lineage_def\<close>)
  with assms(2) show ?thesis by (simp add: detach_child_def Let_def detached_def)
qed

lemma detach_children_lookup:
  assumes "store_inv ms" "distinct cs" "\<And>c. c \<in> set cs \<Longrightarrow> fmlookup (ms_threads ms) c \<noteq> None"
  shows "fmlookup (ms_threads (fold (detach_child now) cs ms)) x =
      (if x \<in> set cs then map_option (detached now) (fmlookup (ms_threads ms) x) else fmlookup (ms_threads ms) x) \<and>
    ms_messages (fold (detach_child now) cs ms) = ms_messages ms \<and>
    ms_pending (fold (detach_child now) cs ms) = ms_pending ms"
  using assms
proof (induction cs arbitrary: ms)
  case (Cons c cs)
  then obtain t where t: "fmlookup (ms_threads ms) c = Some t" by fastforce
  note step = detach_child_detached [OF store_invD(1) [OF Cons.prems(1)] t, of now]
  have inv: "store_inv (detach_child now c ms)" by (rule inv_detach_child) (rule Cons.prems)
  have "fmlookup (ms_threads (detach_child now c ms)) d \<noteq> None" if "d \<in> set cs" for d
    using Cons.prems(3) [of d] that by (simp add: step put_thread_def)
  from Cons.IH [OF inv _ this] Cons.prems(2) show ?case
    by (auto simp: step put_thread_def t)
qed simp

text \<open>What is left of a store when the threads of a set are deleted.\<close>

definition without_threads :: "string set \<Rightarrow> memory_store \<Rightarrow> memory_store \<Rightarrow> bool" where
  "without_threads D ms ms' \<longleftrightarrow> (\<forall>x.
     fmlookup (ms_threads ms') x = (if x \<in> D then None else fmlookup (ms_threads ms) x) \<and>
     ms_messages ms' x = (if x \<in> D then None else ms_messages ms x) \<and>
     ms_pending ms' x = (if x \<in> D then None else ms_pending ms x))"

lemma cascade_deletion:
  assumes inv: "store_inv ms" and k: "fmlookup (ms_threads ms) k = Some t"
    and ord: "hash_order ord (fmlookup (ms_threads ms))"
  shows "\<exists>ms'. delete_thread_with_strategy ord now k CascadeChildren ms = (Inr (), ms') \<and>
    without_threads (descendants (ms_threads ms) k) ms ms'"
proof -
  obtain order where order: "cascade_order ord (ms_threads ms) k = Inr order"
      "set order = descendants (ms_threads ms) k"
    using cascade_order_descendants [OF store_invD(1) [OF inv] ord store_invD(2) [OF inv]] by metis
  then show ?thesis
    using k by (simp add: delete_thread_with_strategy_def without_threads_def remove_threads_lookup)
qed

lemma detach_deletion:
  assumes inv: "store_inv ms" and k: "fmlookup (ms_threads ms) k = Some t"
    and ord: "hash_order ord (fmlookup (ms_threads ms))"
  shows "\<exists>ms'. delete_thread_with_strategy ord now k DetachChildren ms = (Inr (), ms') \<and>
    (\<forall>x. fmlookup (ms_threads ms') x =
       (if x = k then None
        else if parent_of (ms_threads ms) x = Some k then map_option (detached now) (fmlookup (ms_threads ms) x)
        else fmlookup (ms_threads ms) x))"
proof -
  let ?cs = "collect_child_ids ord (ms_threads ms) k"
  have cs: "set ?cs = {c. parent_of (ms_threads ms) c = Some k}"
    by (rule set_collect_child_ids [OF store_invD(1) [OF inv] ord])
  have stored: "fmlookup (ms_threads ms) c \<noteq> None" if "c \<in> set ?cs" for c
    using that by (auto simp: cs parent_of_def bind_eq_Some_conv)
  have "distinct ?cs"
    using ord by (intro distinct_collect_child_ids store_invD(1) [OF inv]) (simp add: hash_order_def)
  from detach_children_lookup [OF inv this stored] show ?thesis
    using k by (simp add: delete_thread_with_strategy_def remove_thread_lookup cs)
qed

lemma reject_deletion:
  assumes inv: "store_inv ms" and k: "fmlookup (ms_threads ms) k = Some t"
    and ord: "hash_order ord (fmlookup (ms_threads ms))"
  shows "if \<exists>c. parent_of (ms_threads ms) c = Some k
    then \<exists>e. delete_thread_with_strategy ord now k RejectChildren ms = (Inl e, ms)
    else \<exists>ms'. delete_thread_with_strategy ord now k RejectChildren ms = (Inr (), ms') \<and> without_threads {k} ms ms'"
proof -
  have "collect_child_ids ord (ms_threads ms) k = [] \<longleftrightarrow> (\<nexists>c. parent_of (ms_threads ms) c = Some k)"
    using set_collect_child_ids [OF store_invD(1) [OF inv] ord, of k]
    by (metis (mono_tags, lifting) empty_Collect_eq set_empty)
  with k show ?thesis
    by (auto simp: delete_thread_with_strategy_def without_threads_def remove_thread_lookup)
qed



text \<open>
  Unlike \<^verbatim>\<open>delete_thread\<close>, the deletion by strategy leaves the thread-scoped state behind, where a thread
  created later under the same id finds it.
\<close>

lemma deletion_keeps_thread_state:
  "ms_thread_states (snd (delete_thread_with_strategy ord now k s ms)) = ms_thread_states ms"
proof -
  have "ms_thread_states (fold remove_thread ks m) = ms_thread_states m" for ks m
    by (induction ks arbitrary: m) (simp_all add: remove_thread_def)
  moreover have "ms_thread_states (fold (detach_child now) cs m) = ms_thread_states m" for cs m
    by (induction cs arbitrary: m) (simp_all add: detach_child_def put_thread_def Let_def split: option.splits)
  ultimately show ?thesis
    by (simp add: delete_thread_with_strategy_def remove_thread_def split: child_delete_strategy.split sum.split)
qed

end
