(* ===== verification/Thread_Log_Correct.thy ===== *)
theory Thread_Log_Correct
imports Thread_Store_Correct
begin

text \<open>
  The logs and the queues of the in-memory store: a committed log can always be read back, an append that
  names the version it extends excludes every other append of that version, and a freeze moves the
  messages it selects, all of them and nothing else, from the queue to the log.
\<close>

section \<open>Reading a log\<close>

lemma log_ok_validates: "log_ok l \<Longrightarrow> validate_committed_messages l = Inr ()"
  by simp

lemma load_checkpoint_version:
  assumes "ms_messages ms tid = Some l" "log_ok l"
  shows "\<exists>cs. load_checkpoint gens ord tid ms = Inr (Some cs) \<and> cs_message_version cs = of_nat (length l)"
  using assms by (simp add: load_checkpoint_def load_committed_messages_def Let_def log_ok_validates)

text \<open>
  C38: Every log of a reachable store is well typed: each message has an id of its own, results name the
  call they answer and only they do, only assistants call tools and under distinct ids, and a compaction
  mark covers messages before its own only. So reading a log back with \<^verbatim>\<open>load_committed_messages\<close>,
  \<^verbatim>\<open>load_messages\<close> (the readers' view) or \<^verbatim>\<open>load_checkpoint\<close> never fails. Listing its records can, see
  \<open>listing_fails_on_committed_log\<close>.
\<close>
theorem committed_logs_are_well_typed:
  assumes "store_reachable ms" "ms_messages ms tid = Some l"
  shows "(\<forall>i < length l. message_shape (l ! i) \<and> mark_within (of_nat i + 1) (l ! i)) \<and>
     distinct (map message_key l) \<and>
     load_committed_messages tid ms = Inr (Some l) \<and>
     load_messages tid ms = Inr (Some (strip_unpaired_tool_calls_from_view l)) \<and>
     (\<exists>cs. load_checkpoint gens ord tid ms = Inr (Some cs) \<and> cs_message_version cs = of_nat (length l))"
proof -
  have "log_ok l" by (rule store_invD(3) [OF store_reachable_inv [OF assms(1)] assms(2)])
  moreover from this have "(\<forall>i < length l. message_shape (l ! i) \<and> mark_within (of_nat i + 1) (l ! i)) \<and>
      distinct (map message_key l)" unfolding log_ok_def .
  ultimately show ?thesis
    using load_checkpoint_version [OF assms(2)] assms(2)
    by (simp add: load_committed_messages_def load_messages_def log_ok_validates)
qed

definition logged :: memory_store where
  "logged = run_call (CallSaveMessages ''t'' compacted_log) memory_store_new"

lemma logged_reachable: "store_reachable logged"
  unfolding logged_def by (intro store_reachable.intros) (simp_all add: call_ok_def)

lemma logged_messages: "ms_messages logged ''t'' = Some compacted_log"
  by (simp add: logged_def save_messages_def compacted_log_ok log_ok_validates)

theorem committed_logs_are_well_typed_witness:
  "load_committed_messages ''t'' logged = Inr (Some compacted_log)"
  using committed_logs_are_well_typed [OF logged_reachable logged_messages] by blast

text \<open>
  Listing the records of a log is another matter: the records are made of the readers' view and validated
  like a log, and in a view that lost a retracted result the mark of a summary may name its own position.
\<close>

definition retracted_log :: "message list" where
  "retracted_log = [message_user ''m1'' ''one'', (message_tool ''t1'' ''c1'' [])\<lparr>msg_visibility := VisibleInternal\<rparr>,
     summary_message]"

lemma not_blank: "\<not> is_blank ''m1''" "\<not> is_blank ''m2''" "\<not> is_blank ''s''" "\<not> is_blank ''t1''" "\<not> is_blank ''c1''"
  by code_simp+

lemma retracted_log_ok: "log_ok retracted_log"
  by (auto simp: log_ok_def retracted_log_def less_Suc_eq message_shape_def message_key_def mark_within_def
      summary_message_def message_user_def message_tool_def not_blank)

lemma listing_fails_on_committed_log:
  assumes "ms_messages ms tid = Some retracted_log"
  shows "\<exists>e. list_message_records codec gens tid q ms = Inl e"
proof -
  have view: "strip_unpaired_tool_calls_from_view retracted_log = [message_user ''m1'' ''one'', summary_message]"
    by code_simp
  have "\<not> log_ok [message_user ''m1'' ''one'', summary_message]"
    by (auto simp: log_ok_def mark_within_def summary_message_def less_Suc_eq message_user_def)
  moreover have shape: "message_shape m" if "m \<in> set [message_user ''m1'' ''one'', summary_message]" for m
    using that not_blank by (auto simp: message_shape_def message_user_def summary_message_def)
  moreover have "map mr_message (records_from gens tid 1 [message_user ''m1'' ''one'', summary_message]) =
      [message_user ''m1'' ''one'', summary_message]"
    by (rule records_messages) (rule shape)
  moreover have "validate_records_at tid 1 (records_from gens tid 1 [message_user ''m1'' ''one'', summary_message]) = Inr ()"
    by (rule validate_records_from) (rule shape)
  moreover obtain e where "validate_committed_messages [message_user ''m1'' ''one'', summary_message] = Inl e"
    using \<open>\<not> log_ok _\<close> sum_unit_cases [of "validate_committed_messages [message_user ''m1'' ''one'', summary_message]"]
    by auto
  ultimately have "validate_committed_message_records tid
      (records_from gens tid 1 [message_user ''m1'' ''one'', summary_message]) = Inl e"
    by (simp add: validate_committed_message_records_def)
  then show ?thesis
    using assms by (simp add: list_message_records_def view retracted_log_ok log_ok_validates Let_def)
qed

section \<open>Appending\<close>

definition thread_log :: "string \<Rightarrow> memory_store \<Rightarrow> message list" where
  "thread_log tid ms = (case ms_messages ms tid of None \<Rightarrow> [] | Some l \<Rightarrow> l)"

lemma log_version_length: "log_version tid ms = of_nat (length (thread_log tid ms))"
  by (simp add: log_version_def thread_log_def split: option.split)

lemma thread_log_frame: "ms_messages ms' = ms_messages ms \<Longrightarrow> thread_log tid ms' = thread_log tid ms"
  by (simp add: thread_log_def)

lemma thread_log_upd:
  "thread_log k (ms\<lparr>ms_messages := (ms_messages ms')(tid \<mapsto> l)\<rparr>) = (if k = tid then l else thread_log k ms')"
  by (simp add: thread_log_def)

lemma thread_log_entry:
  assumes "log_entry tid ms = (l, ms1)"
  shows "l = thread_log tid ms" "thread_log k ms1 = thread_log k ms"
  using assms by (auto simp: log_entry_def thread_log_def split: option.splits if_splits)

lemma queue_entry_log: "queue_entry tid ms = (q, ms1) \<Longrightarrow> ms_messages ms1 = ms_messages ms"
  by (auto simp: queue_entry_def split: option.splits)

lemma merge_checkpoint_append_cases:
  "(\<exists>e. merge_checkpoint_append_messages l d = (Inl e, l)) \<or> merge_checkpoint_append_messages l d = (Inr (), l @ d)"
  by (auto simp: merge_checkpoint_append_messages_def split: sum.split)

text \<open>The outcomes of a guarded append.\<close>

lemma checkpoint_append_log:
  assumes "checkpoint_append now tid l expected r ms = (res, ms')"
  shows "case res of
      Inl _ \<Rightarrow> (\<forall>k. thread_log k ms' = thread_log k ms)
    | Inr v \<Rightarrow> stale expected (log_version tid ms) = Inr () \<and>
        v = of_nat (length (thread_log tid ms @ l)) \<and>
        (\<forall>k. thread_log k ms' = (if k = tid then thread_log tid ms @ l else thread_log k ms))"
proof -
  obtain existing ms1 where e: "log_entry tid ms = (existing, ms1)" by (cases "log_entry tid ms")
  have same: "\<forall>k. thread_log k ms1 = thread_log k ms" using thread_log_entry(2) [OF e] by blast
  show ?thesis
    using same assms merge_checkpoint_append_cases [of existing l] thread_log_entry(1) [OF e]
    by (auto simp: checkpoint_append_def e first_error_Inr thread_log_upd
        split: sum.splits prod.splits)
qed

lemma move_selected_log:
  "move_selected gens tid idxs q committed ms = (rs, ms') \<Longrightarrow>
     \<forall>k. thread_log k ms' = (if k = tid then committed @ map (\<lambda>i. pr_message (q ! i)) idxs else thread_log k ms)"
  by (auto simp: move_selected_def Let_def thread_log_def put_queue_def put_log_def)

lemma freeze_selection_log:
  assumes "freeze_selection gens now tid b ids r q ms = (res, ms')"
  shows "case res of
      Inl _ \<Rightarrow> (\<forall>k. thread_log k ms' = thread_log k ms)
    | Inr _ \<Rightarrow> \<exists>d. \<forall>k. thread_log k ms' = (if k = tid then thread_log tid ms @ d else thread_log k ms)"
proof -
  obtain committed ms1 where e: "log_entry tid ms = (committed, ms1)" by (cases "log_entry tid ms")
  have same: "\<forall>k. thread_log k ms1 = thread_log k ms" using thread_log_entry(2) [OF e] by blast
  show ?thesis
    using same assms thread_log_entry(1) [OF e]
    by (auto simp: freeze_selection_def e Let_def thread_log_frame [OF project_run_frame(1)]
        dest!: move_selected_log split: sum.splits if_splits prod.splits)
qed


text \<open>The calls after which a log starts with what it was.\<close>

fun appends_only :: "store_call \<Rightarrow> bool" where
  "appends_only (CallDeleteThread _) = False"
| "appends_only (CallDeleteThreadWithStrategy _ _ _ _) = False"
| "appends_only (CallSaveMessages _ _) = False"
| "appends_only (CallDeleteMessages _) = False"
| "appends_only (CallCheckpoint _ _ _ _) = False"
| "appends_only _ = True"

lemma put_frames [simp]:
  "ms_messages (put_thread k t ms) = ms_messages ms" "ms_messages (put_run r ms) = ms_messages ms"
  "ms_messages (put_queue k q ms) = ms_messages ms"
  by (simp_all add: put_thread_def put_run_def put_queue_def)

lemma freeze_selection_prefix:
  "freeze_selection gens now tid b ids r q ms = (res, ms') \<Longrightarrow> prefix (thread_log k ms) (thread_log k ms')"
  using freeze_selection_log [of gens now tid b ids r q ms res ms']
  by (cases res) auto

lemma thread_log_queue_entry:
  "queue_entry tid ms = (q, ms1) \<Longrightarrow> thread_log k ms1 = thread_log k ms"
  by (rule thread_log_frame) (rule queue_entry_log)

lemma append_message_records_log:
  "prefix (thread_log k ms) (thread_log k (snd (append_message_records gens tid l ms)))"
proof -
  obtain existing ms1 where e: "log_entry tid ms = (existing, ms1)" by (cases "log_entry tid ms")
  note entry = thread_log_entry [OF e]
  show ?thesis
    by (auto simp: append_message_records_def e thread_log_upd entry(2) entry(1) split: sum.split)
qed

lemma freeze_pending_log:
  assumes "freeze_pending_message_records gens tid b expected ms = (res, ms')"
  shows "prefix (thread_log k ms) (thread_log k ms')"
proof -
  obtain committed ms1 where e: "log_entry tid ms = (committed, ms1)" by (cases "log_entry tid ms")
  have "ms' = ms1 \<or> (\<exists>idxs q rs. move_selected gens tid idxs q committed ms1 = (rs, ms'))"
    using assms
    by (auto simp: freeze_pending_message_records_def e Let_def split: sum.splits option.splits if_splits prod.splits)
  then show ?thesis
  proof
    assume "ms' = ms1"
    then show ?thesis by (simp add: thread_log_entry(2) [OF e])
  next
    assume "\<exists>idxs q rs. move_selected gens tid idxs q committed ms1 = (rs, ms')"
    then obtain idxs q rs where "move_selected gens tid idxs q committed ms1 = (rs, ms')" by blast
    from move_selected_log [OF this] thread_log_entry [OF e] show ?thesis by simp
  qed
qed

lemma appends_only_prefix:
  assumes "appends_only c"
  shows "prefix (thread_log k ms) (thread_log k (run_call c ms))"
proof (cases "is_side_call c")
  case True
  from side_call_frame [OF this, of ms] have "thread_log k (run_call c ms) = thread_log k ms"
    by (intro thread_log_frame) simp
  then show ?thesis by simp
next
  case False
  have same: "prefix (thread_log k ms) (thread_log k ms')" if "ms_messages ms' = ms_messages ms" for ms'
    using thread_log_frame [OF that, of k] by simp
  show ?thesis
  proof (cases c)
    case (CallAppendMessages gens tid l)
    then show ?thesis by (simp add: append_message_records_log)
  next
    case (CallCheckpointAppend now tid l v r)
    obtain res ms' where e: "checkpoint_append now tid l v r ms = (res, ms')" by fastforce
    from checkpoint_append_log [OF this] show ?thesis
      by (cases res) (auto simp: CallCheckpointAppend e)
  next
    case (CallFreezePending gens tid b v)
    obtain res ms' where "freeze_pending_message_records gens tid b v ms = (res, ms')" by fastforce
    with freeze_pending_log [OF this] show ?thesis by (simp add: CallFreezePending)
  next
    case (CallFreezeWithRun gens now tid b v ids r)
    obtain q ms1 where q: "queue_entry tid ms = (q, ms1)" by fastforce
    obtain res ms' where f: "freeze_selection gens now tid b ids r q ms1 = (res, ms')" by fastforce
    from freeze_selection_prefix [OF f, of k] show ?thesis
      by (auto simp: CallFreezeWithRun freeze_pending_message_records_with_run_def q f
          thread_log_queue_entry [OF q] split: sum.split)
  next
    case (CallAppendAndFreeze gens now tid l m b v ids r)
    obtain q ms1 where q: "queue_entry tid ms = (q, ms1)" by fastforce
    define new where "new = new_pending_records gens (now div 1000) tid q l m"
    obtain res ms' where f: "freeze_selection gens now tid b ids r (q @ new) (put_queue tid (q @ new) ms1) = (res, ms')"
      by fastforce
    have "thread_log k (put_queue tid (q @ new) ms1) = thread_log k ms"
      using queue_entry_log [OF q] by (intro thread_log_frame) simp
    with freeze_selection_prefix [OF f, of k] show ?thesis
      by (auto simp: CallAppendAndFreeze append_and_freeze_pending_message_records_with_run_def q Let_def
          new_def [symmetric] f thread_log_queue_entry [OF q] split: sum.split)
  next
    case (CallAppendPending gens now tid l m)
    obtain q ms1 where q: "queue_entry tid ms = (q, ms1)" by fastforce
    show ?thesis unfolding CallAppendPending
      by (rule same) (simp add: append_pending_message_records_def q Let_def queue_entry_log [OF q] split: sum.split)
  qed (use assms False in \<open>auto intro!: same simp: save_thread_def save_thread_validated_def create_run_def
      update_thread_metadata_def update_pending_message_record_checked_def retract_pending_message_record_checked_def
      reorder_pending_message_records_checked_def Let_def split: sum.split option.split\<close>)
qed


definition appended :: "memory_store \<Rightarrow> memory_store \<Rightarrow> bool" where
  "appended = (\<lambda>a b. \<exists>c. appends_only c \<and> call_ok c a \<and> b = run_call c a)\<^sup>*\<^sup>*"

lemma appended_prefix: "appended a b \<Longrightarrow> prefix (thread_log k a) (thread_log k b)"
  unfolding appended_def
proof (induction rule: rtranclp_induct)
  case (step b c)
  then show ?case using appends_only_prefix by (metis prefix_order.trans)
qed simp

text \<open>
  C39: An append of at least one message that names the version of the log, the number of its messages,
  succeeds only on exactly that version, puts its messages at the end and changes no other log. After any
  further calls among which no thread or log is deleted and no log replaced (\<open>appends_only\<close>: all but
  \<^verbatim>\<open>delete_thread\<close>, \<^verbatim>\<open>delete_messages\<close>, \<^verbatim>\<open>save_messages\<close> and \<^verbatim>\<open>checkpoint\<close>), the log keeps them at their place, and every other append of the same version is refused
  without any change: of several writers one wins, and none overwrites another.
\<close>
theorem version_fences_appends:
  assumes "checkpoint_append now tid l (Some v) r ms = (Inr v', ms1)" "l \<noteq> []" "appended ms1 ms2"
    "length (thread_log tid ms2) < 2 ^ 64"
  shows "v = of_nat (length (thread_log tid ms)) \<and> v' = of_nat (length (thread_log tid ms1)) \<and>
     thread_log tid ms1 = thread_log tid ms @ l \<and> (\<forall>k. k \<noteq> tid \<longrightarrow> thread_log k ms1 = thread_log k ms) \<and>
     prefix (thread_log tid ms1) (thread_log tid ms2) \<and>
     (\<exists>e. checkpoint_append now' tid l' (Some v) r' ms2 = (Inl e, ms2))"
proof -
  from checkpoint_append_log [OF assms(1)]
  have first: "stale (Some v) (log_version tid ms) = Inr ()" "v' = of_nat (length (thread_log tid ms @ l))"
    "\<forall>k. thread_log k ms1 = (if k = tid then thread_log tid ms @ l else thread_log k ms)" by auto
  then have v: "v = of_nat (length (thread_log tid ms))"
    by (simp add: stale_def log_version_length split: if_splits)
  have pre: "prefix (thread_log tid ms1) (thread_log tid ms2)" by (rule appended_prefix [OF assms(3)])
  then have "length (thread_log tid ms) < length (thread_log tid ms2)"
    using prefix_length_le [OF pre] first(3) assms(2) by (cases l) auto
  then have "v \<noteq> of_nat (length (thread_log tid ms2))"
    using assms(4) unfolding v by (simp add: word_of_nat_eq_iff take_bit_nat_eq_self)
  then obtain e where "stale (Some v) (log_version tid ms2) = Inl e"
    by (auto simp: stale_def log_version_length)
  then have "first_error [validate_run_record r', checkpoint_hierarchy tid r' ms2,
      stale (Some v) (log_version tid ms2)] \<noteq> Inr ()"
    by (simp add: first_error_Inr)
  then obtain e' where "first_error [validate_run_record r', checkpoint_hierarchy tid r' ms2,
      stale (Some v) (log_version tid ms2)] = Inl e'" using first_error_cases by blast
  then have "checkpoint_append now' tid l' (Some v) r' ms2 = (Inl e', ms2)" by (simp add: checkpoint_append_def)
  with v first pre show ?thesis by simp
qed

definition sample_run :: run_record where
  "sample_run = \<lparr>run_key = ''r1'', run_thread_id = ''t'', run_agent_id = ''agent'', run_parent_run_id = None,
     run_resolution_id = None, run_activation = None, run_request = None, run_input = None, run_output = None,
     run_state_status = Running, run_termination_reason = None, run_final_output = None,
     run_error_payload = None, run_dispatch_ref = None, run_session_id = None,
     run_transport_request_id = None, run_waiting = None, run_outcome = None, run_created_at = 1,
     run_started_at = None, run_finished_at = None, run_updated_at = 1, run_steps = 0,
     run_input_tokens = 0, run_output_tokens = 0, run_state = None\<rparr>"

lemma sample_run_valid: "validate_run_record sample_run = Inr ()"
  by code_simp

lemma user_log_ok: "log_ok [message_user ''m1'' ''hello'']"
  by (simp add: log_ok_def message_shape_def message_user_def not_blank)

lemma sample_append:
  "\<exists>ms1. checkpoint_append 5 ''t'' [message_user ''m1'' ''hello''] (Some 0) sample_run memory_store_new = (Inr 1, ms1) \<and>
     thread_log ''t'' ms1 = [message_user ''m1'' ''hello'']"
proof -
  have "validate_append_only_delta [] [message_user ''m1'' ''hello''] = Inr ()"
    using validate_append_only_delta_Inr [OF log_ok_Nil] user_log_ok by simp
  moreover have "checkpoint_hierarchy ''t'' sample_run memory_store_new = Inr ()"
    by (simp add: checkpoint_hierarchy_def load_thread_def memory_store_new_def checkpoint_parent_thread_id_def
        request_parent_def sample_run_def validate_thread_hierarchy_map_def)
  ultimately show ?thesis
    by (simp add: checkpoint_append_def first_error.simps sample_run_valid stale_def log_version_def
        log_entry_def memory_store_new_def merge_checkpoint_append_messages_def thread_log_def)
qed

theorem version_fences_appends_witness:
  "\<exists>ms1 e. fst (checkpoint_append 5 ''t'' [message_user ''m1'' ''hello''] (Some 0) sample_run memory_store_new) = Inr 1 \<and>
     checkpoint_append 6 ''t'' [message_user ''m2'' ''late''] (Some 0) sample_run ms1 = (Inl e, ms1)"
proof -
  obtain ms1 where ms1: "checkpoint_append 5 ''t'' [message_user ''m1'' ''hello''] (Some 0) sample_run memory_store_new =
      (Inr 1, ms1)" "thread_log ''t'' ms1 = [message_user ''m1'' ''hello'']"
    using sample_append by blast
  have "appended ms1 ms1" by (simp add: appended_def)
  from version_fences_appends [OF ms1(1) _ this, of 6 "[message_user ''m2'' ''late'']" sample_run] ms1
  show ?thesis by auto
qed

end
