(* ===== verification/Pending_Correct.thy ===== *)
theory Pending_Correct
imports Thread_Log_Correct
begin

text \<open>
  What a freeze does with the pending messages of a thread: which it selects, that it moves exactly those
  from the queue to the log, and what a refused one leaves.
\<close>

section \<open>The selection\<close>

text \<open>An entry that the selection passes over on its way to a later one.\<close>

definition passed_over :: "delivery_boundary \<Rightarrow> string option \<Rightarrow> pending_record \<Rightarrow> bool" where
  "passed_over b run e \<longleftrightarrow> \<not> eligible_for_freeze e b run \<and> \<not> dm_barrier (pr_delivery_mode e) \<and>
     can_skip_ineligible e b"

text \<open>
  Which entry is taken, without the loop: an eligible one, when nothing before it stops the selection (an
  eligible entry that is a barrier or to be delivered alone, or an ineligible one that may not be passed
  over); a barrier only if nothing before it was passed over, an entry to be delivered alone only if nothing
  before it is taken. The loop has flags for what the part of the queue before it did.
\<close>

definition goes_on :: "delivery_boundary \<Rightarrow> string option \<Rightarrow> pending_record \<Rightarrow> bool" where
  "goes_on b run e \<longleftrightarrow>
     (if eligible_for_freeze e b run
      then \<not> dm_barrier (pr_delivery_mode e) \<and> dm_granularity (pr_delivery_mode e) \<noteq> DeliverOne
      else passed_over b run e)"

definition taken_at :: "delivery_boundary \<Rightarrow> string option \<Rightarrow> pending_record list \<Rightarrow> nat \<Rightarrow> bool" where
  "taken_at b run q x \<longleftrightarrow> x < length q \<and> eligible_for_freeze (q ! x) b run \<and> (\<forall>j < x. goes_on b run (q ! j)) \<and>
     (dm_barrier (pr_delivery_mode (q ! x)) \<longrightarrow> (\<forall>j < x. eligible_for_freeze (q ! j) b run)) \<and>
     (dm_granularity (pr_delivery_mode (q ! x)) = DeliverOne \<longrightarrow> (\<forall>j < x. \<not> eligible_for_freeze (q ! j) b run))"

definition taken_after :: "delivery_boundary \<Rightarrow> string option \<Rightarrow> bool \<Rightarrow> bool \<Rightarrow> pending_record list \<Rightarrow> nat \<Rightarrow> bool" where
  "taken_after b run sel sk q x \<longleftrightarrow> taken_at b run q x \<and>
     (dm_barrier (pr_delivery_mode (q ! x)) \<longrightarrow> \<not> sk) \<and>
     (dm_granularity (pr_delivery_mode (q ! x)) = DeliverOne \<longrightarrow> \<not> sel)"

lemma taken_after_Cons:
  "taken_after b run sel sk (e # es) 0 \<longleftrightarrow> eligible_for_freeze e b run \<and>
     (dm_barrier (pr_delivery_mode e) \<longrightarrow> \<not> sk) \<and> (dm_granularity (pr_delivery_mode e) = DeliverOne \<longrightarrow> \<not> sel)"
  "taken_after b run sel sk (e # es) (Suc x) \<longleftrightarrow> goes_on b run e \<and>
     (if eligible_for_freeze e b run then taken_after b run True sk es x else taken_after b run sel True es x)"
  by (auto simp: taken_after_def taken_at_def All_less_Suc2)

lemma taken_after_Nil [simp]: "\<not> taken_after b run sel sk [] x"
  by (simp add: taken_after_def taken_at_def)

lemma select_from_spec:
  "k \<in> set (select_from b run i sel sk es) \<longleftrightarrow> i \<le> k \<and> taken_after b run sel sk es (k - i)"
proof (induction b run i sel sk es arbitrary: rule: select_from.induct)
  case (2 b run i sel sk e es)
  let ?mode = "pr_delivery_mode e"
  have split: "i \<le> k \<and> taken_after b run sel sk (e # es) (k - i) \<longleftrightarrow>
      (if k = i then taken_after b run sel sk (e # es) 0
       else Suc i \<le> k \<and> taken_after b run sel sk (e # es) (Suc (k - Suc i)))"
    by (auto simp: Suc_diff_Suc le_less)
  show ?case
  proof (cases "eligible_for_freeze e b run")
    case False
    then have "select_from b run i sel sk (e # es) =
        (if passed_over b run e then select_from b run (Suc i) sel True es else [])"
      by (auto simp: Let_def passed_over_def)
    with 2(1) [OF refl] False show ?thesis
      unfolding split taken_after_Cons goes_on_def by (auto simp: passed_over_def)
  next
    case True
    then have "select_from b run i sel sk (e # es) =
        (if taken_after b run sel sk (e # es) 0 then i # (if goes_on b run e then select_from b run (Suc i) True sk es else []) else [])"
      by (auto simp: Let_def taken_after_Cons(1) goes_on_def)
    moreover have "goes_on b run e \<Longrightarrow> taken_after b run sel sk (e # es) 0"
      using True by (simp add: taken_after_Cons(1) goes_on_def)
    moreover have "goes_on b run e \<Longrightarrow>
        k \<in> set (select_from b run (Suc i) True sk es) \<longleftrightarrow> Suc i \<le> k \<and> taken_after b run True sk es (k - Suc i)"
      using 2(2) [OF refl] True by (simp add: goes_on_def)
    ultimately show ?thesis
      using True unfolding split taken_after_Cons(2) by auto
  qed
qed simp

lemma select_from_sorted: "sorted_wrt (<) (select_from b run i sel sk es)"
proof (induction b run i sel sk es rule: select_from.induct)
  case (2 b run i sel sk e es)
  have "Suc i \<le> x" if "x \<in> set (select_from b run (Suc i) True sk es)" for x
    using that by (simp add: select_from_spec)
  with 2 show ?case by (auto simp: Let_def Suc_le_eq)
qed simp

lemma selection_spec:
  "sorted_wrt (<) (select_pending_for_freeze_for_run q b run)"
  "set (select_pending_for_freeze_for_run q b run) = {x \<in> {..<length q}. taken_at b run q x}"
  using select_from_sorted select_from_spec [of _ b run 0 False False q]
  by (auto simp: select_pending_for_freeze_for_run_def taken_after_def taken_at_def)

section \<open>Splitting a list by indices\<close>

lemma nths_low: "(\<And>i. i < length xs \<Longrightarrow> i \<in> A \<longleftrightarrow> i \<in> B) \<Longrightarrow> nths xs A = nths xs B"
  unfolding nths_def by (rule arg_cong [where f = "map fst"], rule filter_cong) (auto dest!: set_zip_rightD)

lemma nths_except:
  assumes "m < length q" "\<forall>i \<in> A. i < m"
  shows "nths q (- insert m A) = nths (remove_at m q) (- A)" "nths q (insert m A) = nths (take m q) A @ [q ! m]"
proof -
  have q: "q = take m q @ q ! m # drop (Suc m) q" using assms(1) by (rule id_take_nth_drop)
  have len: "length (take m q) = m" using assms(1) by simp
  have low: "nths (take m q) (- insert m A) = nths (take m q) (- A)" "nths (take m q) (insert m A) = nths (take m q) A"
    by (rule nths_low; use len in auto)+
  have all: "nths (drop (Suc m) q) C = drop (Suc m) q" if "C = UNIV" for C
    by (rule nths_all) (simp add: that)
  have none: "nths (drop (Suc m) q) C = []" if "C = {}" for C
    unfolding that by simp
  have high: "{j. Suc (j + m) \<in> - insert m A} = UNIV" "{j. Suc (j + m) \<in> insert m A} = {}" "{j. j + m \<in> - A} = UNIV"
    using assms(2) by force+
  have "nths (take m q @ q ! m # drop (Suc m) q) (- insert m A) = nths (take m q @ drop (Suc m) q) (- A)"
    unfolding nths_append nths_Cons len low using all [OF high(1)] all [OF high(3)] by simp
  with q show "nths q (- insert m A) = nths (remove_at m q) (- A)" by (simp add: remove_at_def)
  have "nths (take m q @ q ! m # drop (Suc m) q) (insert m A) = nths (take m q) A @ [q ! m]"
    unfolding nths_append nths_Cons len low using none [OF high(2)] by simp
  with q show "nths q (insert m A) = nths (take m q) A @ [q ! m]" by simp
qed

lemma remove_selected:
  "sorted_wrt (<) idxs \<Longrightarrow> \<forall>i \<in> set idxs. i < length q \<Longrightarrow>
     fold remove_at (rev idxs) q = nths q (- set idxs) \<and> map (\<lambda>i. q ! i) idxs = nths q (set idxs)"
proof (induction idxs arbitrary: q rule: rev_induct)
  case (snoc m idxs)
  then have m: "m < length q" "\<forall>i \<in> set idxs. i < m" "sorted_wrt (<) idxs" by (auto simp: sorted_wrt_append)
  have "length (remove_at m q) = length q - 1" using m(1) by (simp add: remove_at_def)
  then have "\<forall>i \<in> set idxs. i < length (remove_at m q)" using m(1,2) by fastforce
  from snoc.IH [OF m(3) this] have 1: "fold remove_at (rev idxs) (remove_at m q) = nths (remove_at m q) (- set idxs)"
    by simp
  have "\<forall>i \<in> set idxs. i < length (take m q)" using m(1,2) by simp
  from snoc.IH [OF m(3) this] have "map (\<lambda>i. take m q ! i) idxs = nths (take m q) (set idxs)" by simp
  moreover have "map (\<lambda>i. take m q ! i) idxs = map (\<lambda>i. q ! i) idxs" using m(2) by simp
  ultimately have 2: "map (\<lambda>i. q ! i) idxs = nths (take m q) (set idxs)" by simp
  show ?case using nths_except [OF m(1,2)] 1 2 by simp
qed (simp add: nths_all)

section \<open>A freeze\<close>

definition thread_queue :: "string \<Rightarrow> memory_store \<Rightarrow> pending_record list" where
  "thread_queue tid ms = (case ms_pending ms tid of None \<Rightarrow> [] | Some q \<Rightarrow> q)"

lemma thread_queue_frame: "ms_pending ms' = ms_pending ms \<Longrightarrow> thread_queue tid ms' = thread_queue tid ms"
  by (simp add: thread_queue_def)

lemma thread_queue_entry:
  assumes "queue_entry tid ms = (q, ms1)"
  shows "q = thread_queue tid ms" "thread_queue k ms1 = thread_queue k ms" "thread_log k ms1 = thread_log k ms"
    "ms_threads ms1 = ms_threads ms" "ms_runs ms1 = ms_runs ms"
  using assms by (auto simp: queue_entry_def thread_queue_def thread_log_def split: option.splits if_splits)

lemma thread_queue_put [simp]:
  "thread_queue k (put_queue tid q ms) = (if k = tid then q else thread_queue k ms)"
  by (simp add: thread_queue_def put_queue_def)

lemma put_log_queue [simp]: "thread_queue k (put_log tid l ms) = thread_queue k ms"
  by (simp add: thread_queue_def put_log_def)

lemma log_entry_rest:
  assumes "log_entry tid ms = (l, ms1)"
  shows "ms_pending ms1 = ms_pending ms" "ms_threads ms1 = ms_threads ms" "ms_runs ms1 = ms_runs ms"
  using assms by (auto simp: log_entry_def split: option.splits)

text \<open>What the shared second half of the two freezes does, when it succeeds and when it does not.\<close>

lemma freeze_selection_moves:
  fixes q b run
  defines "S \<equiv> set (select_pending_for_freeze_for_run q b (Some (run_key run)))"
  assumes "freeze_selection gens now tid b ids run q ms = (Inr rs, ms')"
  shows "map pr_pending_id (nths q S) = ids" "thread_log tid ms' = thread_log tid ms @ map pr_message (nths q S)"
    "thread_queue tid ms' = normalize_pending_positions (nths q (- S))"
    "k \<noteq> tid \<Longrightarrow> thread_log k ms' = thread_log k ms \<and> thread_queue k ms' = thread_queue k ms"
    "ms_runs ms' (run_key run) = Some run"
    "rs = records_from gens tid (of_nat (length (thread_log tid ms)) + 1) (map pr_message (nths q S))"
proof -
  let ?idxs = "select_pending_for_freeze_for_run q b (Some (run_key run))"
  obtain committed ms1 where e: "log_entry tid ms = (committed, ms1)" by (cases "log_entry tid ms")
  note entry = thread_log_entry [OF e]
  obtain rs' ms2 where m: "move_selected gens tid ?idxs q committed ms1 = (rs', ms2)" by fastforce
  have ok: "selected_pending_ids q ?idxs = ids" "rs = rs'" "ms' = project_run now tid run ms2"
    using assms(2) m by (auto simp: freeze_selection_def e Let_def split: if_splits sum.splits)
  have spec: "sorted_wrt (<) ?idxs" "\<forall>i \<in> set ?idxs. i < length q" using selection_spec [of q b] by auto
  have sel: "map (\<lambda>i. q ! i) ?idxs = nths q S" and left: "fold remove_at (rev ?idxs) q = nths q (- S)"
    unfolding S_def using remove_selected [OF spec] by blast+
  have "map f (nths q S) = map (\<lambda>i. f (q ! i)) ?idxs" for f :: "pending_record \<Rightarrow> 'b"
    unfolding sel [symmetric] by simp
  note sels = this
  show "map pr_pending_id (nths q S) = ids" using ok(1) by (simp add: sels selected_pending_ids_def)
  have log: "thread_log k ms' = thread_log k ms2" for k
    unfolding ok(3) by (rule thread_log_frame) simp
  show "thread_log tid ms' = thread_log tid ms @ map pr_message (nths q S)"
    using move_selected_log [OF m] by (simp add: log sels entry(1))
  have queue: "thread_queue k ms' = (if k = tid then normalize_pending_positions (nths q (- S)) else thread_queue k ms)" for k
    using m unfolding ok(3)
    by (auto simp: move_selected_def Let_def left thread_queue_frame [OF project_run_frame(2)]
        thread_queue_frame [OF log_entry_rest(1) [OF e]])
  show "thread_queue tid ms' = normalize_pending_positions (nths q (- S))" by (simp add: queue)
  show "k \<noteq> tid \<Longrightarrow> thread_log k ms' = thread_log k ms \<and> thread_queue k ms' = thread_queue k ms"
    using move_selected_log [OF m] entry(2) by (simp add: log queue)
  show "ms_runs ms' (run_key run) = Some run"
    unfolding ok(3) by (simp add: project_run_def Let_def put_run_def)
  show "rs = records_from gens tid (of_nat (length (thread_log tid ms)) + 1) (map pr_message (nths q S))"
    using m by (auto simp: ok(2) move_selected_def Let_def sels entry(1))
qed

lemma freeze_selection_refused:
  assumes "freeze_selection gens now tid b ids run q ms = (Inl e, ms')"
  shows "thread_log k ms' = thread_log k ms" "thread_queue k ms' = thread_queue k ms"
    "ms_threads ms' = ms_threads ms" "ms_runs ms' = ms_runs ms"
proof -
  obtain committed ms1 where l: "log_entry tid ms = (committed, ms1)" by (cases "log_entry tid ms")
  have "ms' = ms \<or> ms' = ms1"
    using assms by (auto simp: freeze_selection_def l Let_def split: if_splits sum.splits prod.splits)
  then show "thread_log k ms' = thread_log k ms" "thread_queue k ms' = thread_queue k ms"
      "ms_threads ms' = ms_threads ms" "ms_runs ms' = ms_runs ms"
    using thread_log_entry(2) [OF l] log_entry_rest [OF l] thread_queue_frame [OF log_entry_rest(1) [OF l]] by auto
qed

text \<open>The indices of the pending messages of a thread that a freeze for a run consumes.\<close>

definition frozen_indices :: "string \<Rightarrow> delivery_boundary \<Rightarrow> run_record \<Rightarrow> memory_store \<Rightarrow> nat set" where
  "frozen_indices tid b r ms =
     {x \<in> {..<length (thread_queue tid ms)}. taken_at b (Some (run_key r)) (thread_queue tid ms) x}"

lemma frozen_indices_selected:
  "frozen_indices tid b r ms = set (select_pending_for_freeze_for_run (thread_queue tid ms) b (Some (run_key r)))"
  unfolding frozen_indices_def selection_spec(2) by (rule refl)

lemma queue_shapes:
  assumes "store_inv ms" "e \<in> set (thread_queue tid ms)"
  shows "message_shape (pr_message e)"
proof (cases "ms_pending ms tid")
  case (Some q)
  from store_invD(5) [OF assms(1) this] assms(2) Some show ?thesis
    by (auto simp: thread_queue_def queue_ok_def pending_ok_def)
qed (use assms(2) in \<open>simp add: thread_queue_def\<close>)

text \<open>The rest of the store: other threads, other runs, and what a freeze has nothing to do with.\<close>

definition rest_unchanged :: "string \<Rightarrow> string \<Rightarrow> memory_store \<Rightarrow> memory_store \<Rightarrow> bool" where
  "rest_unchanged tid rid ms ms' \<longleftrightarrow>
     (\<forall>k. k \<noteq> tid \<longrightarrow> load_thread k ms' = load_thread k ms \<and> thread_log k ms' = thread_log k ms \<and>
        thread_queue k ms' = thread_queue k ms) \<and>
     (\<forall>k. k \<noteq> rid \<longrightarrow> ms_runs ms' k = ms_runs ms k) \<and> ms_thread_states ms' = ms_thread_states ms \<and>
     ms_profiles ms' = ms_profiles ms \<and> ms_configs ms' = ms_configs ms \<and> ms_config_changes ms' = ms_config_changes ms"

lemma freeze_selection_rest:
  assumes "freeze_selection gens now tid b ids run q ms = (Inr rs, ms')"
  shows "(k \<noteq> tid \<longrightarrow> load_thread k ms' = load_thread k ms) \<and> (k \<noteq> run_key run \<longrightarrow> ms_runs ms' k = ms_runs ms k) \<and>
    load_thread tid ms' = Some (normalize_lineage (apply_run_projection run (touch now
      (case load_thread tid ms of None \<Rightarrow> thread_with_id tid | Some t \<Rightarrow> t)))) \<and>
    ms_thread_states ms' = ms_thread_states ms \<and> ms_profiles ms' = ms_profiles ms \<and>
    ms_configs ms' = ms_configs ms \<and> ms_config_changes ms' = ms_config_changes ms"
  using assms
  by (auto simp: freeze_selection_def log_entry_def move_selected_def put_queue_def put_log_def project_run_def
      put_run_def put_thread_def load_thread_def Let_def split: if_splits sum.splits prod.splits option.splits)

lemma queue_entry_rest:
  "queue_entry tid ms = (q, ms1) \<Longrightarrow> ms1 = ms\<lparr>ms_pending := ms_pending ms1\<rparr>"
  by (auto simp: queue_entry_def split: option.splits)

text \<open>
  C40: A freeze takes from the queue of a thread all the messages that are due at its boundary: the
  eligible ones up to the first message that stops the selection, which is an eligible barrier, an eligible
  one to be delivered alone, or an ineligible one that is a barrier or may not be passed over. A barrier
  that stops it is still taken if nothing was passed over before it, a message to be delivered alone if
  nothing was taken before it. They are the ones the caller expected. It moves
  exactly these, in the order of the queue, to the end of the log, keeps the others in their order under
  consecutive positions, stores the run, projects it on its thread, and touches no other thread, log,
  queue or run and no thread state, profile or configuration.
\<close>
theorem freeze_moves_selection:
  assumes "store_reachable ms"
    "freeze_pending_message_records_with_run gens now tid b expected ids r ms = (Inr rs, ms')"
  shows "map pr_pending_id (nths (thread_queue tid ms) (frozen_indices tid b r ms)) = ids \<and>
     map mr_message rs = map pr_message (nths (thread_queue tid ms) (frozen_indices tid b r ms)) \<and>
     thread_log tid ms' = thread_log tid ms @ map mr_message rs \<and>
     map pr_message (thread_queue tid ms') = map pr_message (nths (thread_queue tid ms) (- frozen_indices tid b r ms)) \<and>
     (\<forall>i < length (thread_queue tid ms'). pr_position (thread_queue tid ms' ! i) = of_nat i + 1) \<and>
     ms_runs ms' (run_key r) = Some r \<and>
     load_thread tid ms' = Some (normalize_lineage (apply_run_projection r (touch now
       (case load_thread tid ms of None \<Rightarrow> thread_with_id tid | Some t \<Rightarrow> t)))) \<and>
     rest_unchanged tid (run_key r) ms ms'"
proof -
  let ?q = "thread_queue tid ms" and ?S = "frozen_indices tid b r ms"
  obtain q ms1 where q: "queue_entry tid ms = (q, ms1)" by fastforce
  note entry = thread_queue_entry [OF q]
  have sel: "freeze_selection gens now tid b ids r ?q ms1 = (Inr rs, ms')"
    using assms(2) by (simp add: freeze_pending_message_records_with_run_def q entry(1) split: sum.splits)
  note moved = freeze_selection_moves [OF sel, folded frozen_indices_selected, unfolded entry(3)]
  have rs: "map mr_message rs = map pr_message (nths ?q ?S)"
    unfolding moved(6)
    by (rule records_messages) (auto dest!: in_set_nthsD intro: queue_shapes [OF store_reachable_inv [OF assms(1)]])
  have pos: "\<forall>i < length (thread_queue tid ms'). pr_position (thread_queue tid ms' ! i) = of_nat i + 1"
    unfolding moved(3) by (rule numbered_normalize [unfolded numbered_def])
  obtain p where ms1: "ms1 = ms\<lparr>ms_pending := p\<rparr>" using queue_entry_rest [OF q] by metis
  have "rest_unchanged tid (run_key r) ms ms'"
    using freeze_selection_rest [OF sel] moved(4) entry(2,3) by (simp add: rest_unchanged_def ms1 load_thread_def)
  moreover have "load_thread tid ms' = Some (normalize_lineage (apply_run_projection r (touch now
      (case load_thread tid ms of None \<Rightarrow> thread_with_id tid | Some t \<Rightarrow> t))))"
    using freeze_selection_rest [OF sel] by (simp add: ms1 load_thread_def)
  ultimately show ?thesis
    using moved(1,2,5) rs pos by (simp add: moved(3) normalize_positions_map)
qed

definition delivered :: memory_store where
  "delivered = run_call (CallAppendPending (\<lambda>_. ''g'') 5000 ''t'' [message_user ''m1'' ''hello'']
     (mode_at AtNextStep DeliverBatch)) memory_store_new"

lemma delivered_reachable: "store_reachable delivered"
  unfolding delivered_def by (intro store_reachable.intros) (simp add: call_ok_def)

definition delivered_record :: pending_record where
  "delivered_record = hd (new_pending_records (\<lambda>_. ''g'') 5 ''t'' [] [message_user ''m1'' ''hello'']
     (mode_at AtNextStep DeliverBatch))"

lemma delivered_new:
  "new_pending_records (\<lambda>_. ''g'') 5 ''t'' [] [message_user ''m1'' ''hello''] (mode_at AtNextStep DeliverBatch) =
     [delivered_record]"
  by (simp add: delivered_record_def new_pending_records_def enumerate_eq_zip)

lemma delivered_checked: "check_new_pending ''t'' memory_store_new [] [delivered_record] = Inr ()"
proof -
  have "validate_pending_message_record delivered_record = Inr ()"
    by code_simp
  then show ?thesis by (simp add: committed_message_exists_def memory_store_new_def)
qed

lemma delivered_store: "delivered = put_queue ''t'' [delivered_record] (snd (queue_entry ''t'' memory_store_new))"
proof -
  obtain ms1 where "queue_entry ''t'' memory_store_new = ([], ms1)"
    by (simp add: queue_entry_def memory_store_new_def)
  with delivered_checked show ?thesis
    by (simp add: delivered_def append_pending_message_records_def delivered_new Let_def del: check_new_pending.simps)
qed

lemma sample_run_checks:
  assumes "load_thread ''t'' ms = None" "expected = None \<or> expected = Some (log_version ''t'' ms)"
  shows "freeze_checks ''t'' expected sample_run ms = Inr ()"
  using assms sample_run_valid
  by (auto simp: freeze_checks_def first_error.simps stale_def checkpoint_hierarchy_def
      checkpoint_parent_thread_id_def request_parent_def sample_run_def validate_thread_hierarchy_map_def)

lemma delivered_freeze:
  "\<exists>rs ms'. freeze_pending_message_records_with_run (\<lambda>_. ''g'') 6000 ''t'' AtNextStep (Some 0) [''m1''] sample_run delivered =
     (Inr rs, ms')"
proof -
  have key: "pr_pending_id delivered_record = ''m1''" "pr_message delivered_record = message_user ''m1'' ''hello''"
    and sel: "select_pending_for_freeze_for_run [delivered_record] AtNextStep (Some ''r1'') = [0]"
    by code_simp+
  have hier: "checkpoint_hierarchy ''t'' sample_run delivered = Inr ()"
    unfolding delivered_store
    by (simp add: checkpoint_hierarchy_def load_thread_def memory_store_new_def checkpoint_parent_thread_id_def
        request_parent_def sample_run_def validate_thread_hierarchy_map_def put_queue_def queue_entry_def)
  have delta: "validate_append_only_delta [] [message_user ''m1'' ''hello''] = Inr ()"
    using validate_append_only_delta_Inr [OF log_ok_Nil] user_log_ok by simp
  have "ms_messages delivered ''t'' = None" "ms_pending delivered ''t'' = Some [delivered_record]"
    by (simp_all add: delivered_store put_queue_def queue_entry_def memory_store_new_def)
  with key sel hier delta show ?thesis
    by (auto simp: freeze_pending_message_records_with_run_def freeze_checks_def first_error.simps sample_run_valid
        stale_def log_version_def queue_entry_def freeze_selection_def selected_pending_ids_def log_entry_def
        sample_run_def [THEN arg_cong [where f = run_key], simplified] split: prod.split)
qed

theorem freeze_moves_selection_witness:
  "\<exists>rs ms'. freeze_pending_message_records_with_run (\<lambda>_. ''g'') 6000 ''t'' AtNextStep (Some 0) [''m1''] sample_run delivered =
     (Inr rs, ms') \<and> thread_log ''t'' ms' = map mr_message rs \<and> ms_runs ms' ''r1'' = Some sample_run"
proof -
  obtain rs ms' where f: "freeze_pending_message_records_with_run (\<lambda>_. ''g'') 6000 ''t'' AtNextStep (Some 0) [''m1'']
      sample_run delivered = (Inr rs, ms')" using delivered_freeze by blast
  have "thread_log ''t'' delivered = []"
    by (simp add: delivered_store put_queue_def queue_entry_def memory_store_new_def thread_log_def)
  with freeze_moves_selection [OF delivered_reachable f] f show ?thesis by (auto simp: sample_run_def)
qed

section \<open>A refused freeze\<close>

text \<open>
  A refused append-and-freeze changes no log, no thread and no run. It changes the queue of its thread
  exactly when it was refused after the new messages passed their own checks: then they stay pending, though
  the call failed and the trait promises that both halves happen or neither.
\<close>

lemma refused_freeze_queue:
  assumes "append_and_freeze_pending_message_records_with_run gens now tid l mode b expected ids r ms = (Inl e, ms')"
  shows "(\<forall>k. thread_log k ms' = thread_log k ms) \<and> ms_threads ms' = ms_threads ms \<and> ms_runs ms' = ms_runs ms \<and>
     (\<forall>k. k \<noteq> tid \<longrightarrow> thread_queue k ms' = thread_queue k ms) \<and>
     thread_queue tid ms' =
       (if freeze_checks tid expected r ms = Inr () \<and>
           check_new_pending tid ms (map pr_pending_id (thread_queue tid ms))
             (new_pending_records gens (now div 1000) tid (thread_queue tid ms) l mode) = Inr ()
        then thread_queue tid ms @ new_pending_records gens (now div 1000) tid (thread_queue tid ms) l mode
        else thread_queue tid ms)"
proof -
  let ?q = "thread_queue tid ms"
  let ?new = "new_pending_records gens (now div 1000) tid ?q l mode"
  obtain q ms1 where q: "queue_entry tid ms = (q, ms1)" by fastforce
  note entry = thread_queue_entry [OF q]
  consider (early) "freeze_checks tid expected r ms \<noteq> Inr ()" "ms' = ms"
    | (bad) "check_new_pending tid ms (map pr_pending_id ?q) ?new \<noteq> Inr ()" "ms' = ms1"
    | (late) "freeze_checks tid expected r ms = Inr ()" "check_new_pending tid ms (map pr_pending_id ?q) ?new = Inr ()"
        "freeze_selection gens now tid b ids r (?q @ ?new) (put_queue tid (?q @ ?new) ms1) = (Inl e, ms')"
    using assms
    by (auto simp: append_and_freeze_pending_message_records_with_run_def q entry(1) Let_def split: sum.splits)
  then show ?thesis
  proof cases
    case early
    then show ?thesis by simp
  next
    case bad
    then show ?thesis by (simp add: entry)
  next
    case late
    have "thread_log k (put_queue tid (?q @ ?new) ms1) = thread_log k ms" for k
      using entry(3) by (metis put_frames(3) thread_log_frame)
    moreover have "ms_threads (put_queue tid (?q @ ?new) ms1) = ms_threads ms" "ms_runs (put_queue tid (?q @ ?new) ms1) = ms_runs ms"
      by (simp_all add: put_queue_def entry(4,5))
    ultimately show ?thesis
      using freeze_selection_refused [OF late(3)] late(1,2) entry(2) by simp
  qed
qed

text \<open>A delivery whose caller expected nothing to be selected.\<close>

lemma refused_delivery:
  "append_and_freeze_pending_message_records_with_run (\<lambda>_. ''g'') 5000 ''t'' [message_user ''m1'' ''hello'']
     (mode_at AtNextStep DeliverBatch) AtNextStep None [] sample_run memory_store_new =
   (Inl (PendingSelectionConflict [] [''m1'']), delivered)"
proof -
  have key: "pr_pending_id delivered_record = ''m1''" "run_key sample_run = ''r1''"
    and sel: "select_pending_for_freeze_for_run [delivered_record] AtNextStep (Some ''r1'') = [0]"
    by code_simp+
  have "freeze_checks ''t'' None sample_run memory_store_new = Inr ()"
    by (rule sample_run_checks) (simp_all add: load_thread_def memory_store_new_def)
  moreover obtain ms1 where e: "queue_entry ''t'' memory_store_new = ([], ms1)"
    by (simp add: queue_entry_def memory_store_new_def)
  ultimately show ?thesis
    using key sel delivered_checked delivered_store
    by (simp add: append_and_freeze_pending_message_records_with_run_def delivered_new Let_def freeze_selection_def
        selected_pending_ids_def del: check_new_pending.simps)
qed

text \<open>
  A caller that delivers a message with an id and is refused for the selection it expected cannot simply
  repeat the call: the message is still pending, and its id is refused.
\<close>

lemma new_pending_hd:
  assumes "msg_id m = Some i"
  shows "\<exists>e es. new_pending_records gens now tid q (m # l) mode = e # es \<and> pr_pending_id e = i"
  using assms by (simp add: new_pending_records_def pending_from_message_def Let_def)

lemma check_new_pending_seen:
  assumes "pr_pending_id e \<in> set seen"
  shows "check_new_pending tid ms seen (e # es) \<noteq> Inr ()"
  using assms by (simp split: sum.split)

lemma retry_after_conflict_refused:
  assumes "append_and_freeze_pending_message_records_with_run gens now tid (m # l) mode b expected ids r ms =
      (Inl e, ms')" "msg_id m = Some i"
    "freeze_checks tid expected r ms = Inr ()"
    "check_new_pending tid ms (map pr_pending_id (thread_queue tid ms))
       (new_pending_records gens (now div 1000) tid (thread_queue tid ms) (m # l) mode) = Inr ()"
  shows "\<exists>e'. fst (append_and_freeze_pending_message_records_with_run gens' now' tid (m # l) mode' b' expected' ids' r' ms') =
    Inl e'"
proof -
  let ?new = "new_pending_records gens (now div 1000) tid (thread_queue tid ms) (m # l) mode"
  have "thread_queue tid ms' = thread_queue tid ms @ ?new"
    using refused_freeze_queue [OF assms(1)] assms(3,4) by simp
  moreover obtain e1 es1 where "?new = e1 # es1" "pr_pending_id e1 = i"
    using new_pending_hd [OF assms(2)] by blast
  ultimately have mem: "i \<in> set (map pr_pending_id (thread_queue tid ms'))" by simp
  obtain q ms1 where q: "queue_entry tid ms' = (q, ms1)" by fastforce
  let ?again = "new_pending_records gens' (now' div 1000) tid q (m # l) mode'"
  obtain e2 es2 where again: "?again = e2 # es2" "pr_pending_id e2 = i"
    using new_pending_hd [OF assms(2)] by blast
  have "check_new_pending tid ms' (map pr_pending_id q) ?again \<noteq> Inr ()"
    unfolding again(1) by (rule check_new_pending_seen) (use mem again(2) thread_queue_entry(1) [OF q] in simp)
  then show ?thesis
    by (auto simp: append_and_freeze_pending_message_records_with_run_def q Let_def split: sum.split)
qed

end
