(* ===== verification/Spec2Isabelle.thy ===== *)
theory Spec2Isabelle
imports Mailbox_Store Tool_Id Permission_Config State_Correct Circuit_Breaker Outbox_Relay Ai_Sdk_Encoder Event_Subscription Registry_Graph_Correct
  Pending_Correct
begin

text \<open>
  A verification development of remo, a Rust framework that runs AI agents behind a server. Paths are
  those of the crates under \<^verbatim>\<open>src/crates\<close>.

  \<^bold>\<open>The program.\<close> A client asks the server for a run of an agent on a thread. The request becomes a
  dispatch in a mailbox store; workers claim dispatches under a lease, run the agent loop, and settle
  the dispatch. The agent loop keeps the state of a run in a store of typed keys, to which the phases
  and the tool calls commit batches of mutations; plugins install the keys. A tool call passes the gate
  of the permission plugin, whose rules are patterns over tool names and arguments; calls of a model
  provider pass a circuit breaker. The loop emits agent events, which protocol encoders turn into the
  event streams of AG-UI and the AI SDK and which are appended to the canonical event log; messages
  for other systems leave through a transactional outbox and its relay. The configuration of agents,
  models and tools is a registry of published versions, and a run pins a publication of it after the
  graph validator accepted what the publication references. A thread has a committed log of messages, a
  queue of pending ones and its runs; a checkpoint stores a run with the messages it produced, and a
  freeze at a boundary of the run moves pending messages to the log. Everything a server stores belongs to
  a scope.

  \<^bold>\<open>The theories,\<close> by component.

  \<^item> Shared: \<^verbatim>\<open>Prelude\<close> holds the collections of facts, saturating words, byte strings, decimal
    numbers, hash maps with an iteration order and results; \<^verbatim>\<open>Ordered_Map\<close> is \<^verbatim>\<open>BTreeMap\<close>;
    \<^verbatim>\<open>State_Key\<close> is the contract of a typed state key.

  \<^item> Lifecycles: \<^verbatim>\<open>Lifecycle\<close> has the statuses of runs and tool calls with their transition tables and
    the reducers of the two state keys that hold them (\<^verbatim>\<open>contract/lifecycle.rs\<close>,
    \<^verbatim>\<open>contract/suspension.rs\<close>, \<^verbatim>\<open>agent/state/\<close> of the runtime). Both reducers interpret one locale
    of guarded updates.

  \<^item> Mailbox: \<^verbatim>\<open>Dispatch\<close> models \<^verbatim>\<open>RunDispatch\<close> of \<^verbatim>\<open>remo-server-contract/src/contract/mailbox.rs\<close>, with
    its validation and one definition per transition, each an interpretation of the contract of a
    transition. \<^verbatim>\<open>Mailbox\<close> is the store of \<^verbatim>\<open>remo-stores/src/memory_mailbox.rs\<close> with the wrappers of
    \<^verbatim>\<open>mailbox_state.rs\<close>; its state is the map of the dispatches and the map of the thread epochs.
    \<^verbatim>\<open>Mailbox_Inv\<close> has the invariant and its preservation, \<^verbatim>\<open>Mailbox_Claim\<close> and \<^verbatim>\<open>Mailbox_Loops\<close> what
    the loops compute, \<^verbatim>\<open>Mailbox_Steps\<close> the step relation and the reachable states,
    \<^verbatim>\<open>Mailbox_Correct\<close> the properties: no panic for callers that keep the stated conditions, one claim per
    thread, fenced settlement, recovery of leases, retries that end. \<^verbatim>\<open>Mailbox_Moves\<close> shows that every step
    moves dispatches along the one edge of the lifecycle its operation has. \<^verbatim>\<open>Mailbox_Store\<close> is the trait as a table
    of operations with its contract as a locale, interpreted on the in-memory store and on the scoped
    store over it.

  \<^item> Scopes: \<^verbatim>\<open>Scope\<close> (\<^verbatim>\<open>contract/scope.rs\<close>) has scope ids and the encoding of scoped keys.

  \<^item> Patterns: \<^verbatim>\<open>Tool_Id\<close> is the glob matcher of \<^verbatim>\<open>remo-tool-pattern/src/tool_id.rs\<close> with the
    declarative meaning it decides; \<^verbatim>\<open>Tool_Pattern\<close> has the patterns, their display and their
    matching (\<^verbatim>\<open>types.rs\<close>, \<^verbatim>\<open>matcher.rs\<close>), \<^verbatim>\<open>Pattern_Parser\<close> the parser (\<^verbatim>\<open>parser.rs\<close>) and
    \<^verbatim>\<open>Pattern_Roundtrip\<close> that parsing undoes displaying and where the parser can panic.

  \<^item> Permissions: \<^verbatim>\<open>Permission\<close> models the rules, policy, overrides, gate and tool filter of
    \<^verbatim>\<open>remo-ext-permission/src\<close>; \<^verbatim>\<open>Permission_Correct\<close> shows evaluation to be a firewall decision and
    the gate and the filter to enforce it; \<^verbatim>\<open>Permission_Config\<close> interprets the reducers as lawful
    state keys and compares the two ways a configuration is read.

  \<^item> State: \<^verbatim>\<open>State_Engine\<close> has state maps, batches, the key registry, the store with its revision,
    plugins and persistence (\<^verbatim>\<open>remo-runtime-contract/src/state\<close>, \<^verbatim>\<open>remo-runtime/src/state\<close>,
    \<^verbatim>\<open>plugins/registry.rs\<close>, \<^verbatim>\<open>loop_runner/parallel_merge.rs\<close>); \<^verbatim>\<open>State_Correct\<close> that commits are
    atomic, merged batches commute, exports restore and uninstalling undoes installing.

  \<^item> Circuit breaker: \<^verbatim>\<open>Circuit_Breaker\<close> (\<^verbatim>\<open>remo-runtime/src/engine/circuit_breaker.rs\<close>).

  \<^item> Outbox: \<^verbatim>\<open>Outbox\<close> has messages, the in-memory store and the scoped store
    (\<^verbatim>\<open>contract/outbox.rs\<close>, \<^verbatim>\<open>memory_outbox.rs\<close>), \<^verbatim>\<open>Outbox_Correct\<close> the contract of the trait as
    locales with both stores as interpretations, \<^verbatim>\<open>Outbox_Relay\<close> the relay
    (\<^verbatim>\<open>remo-server/src/outbox_relay.rs\<close>) over the stores of that contract.

  \<^item> Events: \<^verbatim>\<open>Agent_Event\<close> has the events of a run; \<^verbatim>\<open>Agui_Encoder\<close> and \<^verbatim>\<open>Ai_Sdk_Encoder\<close> the two
    encoders (\<^verbatim>\<open>remo-server/src/protocols\<close>) with the grammar of the stream their receivers expect, and where an
    error makes them leave it;
    \<^verbatim>\<open>Event_Store\<close> the canonical log (\<^verbatim>\<open>contract/event_store.rs\<close>, \<^verbatim>\<open>memory_event_store.rs\<close>) and
    \<^verbatim>\<open>Event_Store_Correct\<close> that it implements an append-only list: what an append adds and who sees it, idempotency, pages.
    \<^verbatim>\<open>Event_Subscription\<close> has the runs of a subscriber with appends in between, over any broadcast channel
    that keeps its documented promises, and what the stream yields of the log, a lagging reader included.

  \<^item> Registry: \<^verbatim>\<open>Registry\<close> has canonical JSON, records, publications and every operation of
    \<^verbatim>\<open>memory_versioned_registry.rs\<close>; \<^verbatim>\<open>Registry_View\<close> the contract as a table of operations with its
    default methods and the typed view; \<^verbatim>\<open>Registry_Correct\<close> the invariant and how stores evolve under calls, among
    them purges with other calls between their plan and their deletion,
    \<^verbatim>\<open>Registry_Properties\<close> what that means for readers. \<^verbatim>\<open>Registry_Graph\<close> is the graph validator
    (\<^verbatim>\<open>contract/registry_graph.rs\<close>) and \<^verbatim>\<open>Registry_Graph_Correct\<close> shows that it ends and what it accepts.

  \<^item> Threads and runs: \<^verbatim>\<open>Message\<close> has messages, the views of a log and what may be appended to one
    (\<^verbatim>\<open>contract/message.rs\<close>, \<^verbatim>\<open>contract/storage/message_append.rs\<close>); \<^verbatim>\<open>Delivery\<close> pending messages and
    the selection of a freeze (\<^verbatim>\<open>contract/message/delivery.rs\<close>); \<^verbatim>\<open>Run_Record\<close> run and thread records
    with their validation (\<^verbatim>\<open>contract/storage.rs\<close>, \<^verbatim>\<open>contract/run.rs\<close>, \<^verbatim>\<open>thread.rs\<close>); \<^verbatim>\<open>Thread_Query\<close>
    queries, cursors and pages (\<^verbatim>\<open>contract/storage.rs\<close> of the server contract). \<^verbatim>\<open>Thread_Store\<close>,
    \<^verbatim>\<open>Pending_Store\<close> and \<^verbatim>\<open>Config_Store\<close> are the operations of \<^verbatim>\<open>remo-stores/src/memory\<close> over one
    record, its fields those of \<^verbatim>\<open>InMemoryStore\<close>. \<^verbatim>\<open>Message_Correct\<close> shows what the views contain and which
    logs validate; \<^verbatim>\<open>Thread_Hierarchy\<close> what the two walks over the hierarchy compute;
    \<^verbatim>\<open>Thread_Store_Inv\<close> that every operation keeps the invariant of the store; \<^verbatim>\<open>Thread_Store_Correct\<close>
    has the calls as a transition system, the acyclic hierarchy and the deletion;
    \<^verbatim>\<open>Thread_Log_Correct\<close> well typed logs and appends fenced by a version, \<^verbatim>\<open>Pending_Correct\<close> which
    messages a freeze takes, told without its loop, what it moves and what a refused one leaves.

  \<^bold>\<open>Conventions.\<close> A struct is a record with the fields of the source in order, an enum a datatype with its
  constructors. \<^verbatim>\<open>String\<close> and \<^verbatim>\<open>str\<close> are lists of bytes, the UTF-8 encoding of the text; the
  comparison of Rust's strings is the lexicographic one of bytes. \<^verbatim>\<open>u64\<close>, \<^verbatim>\<open>u32\<close> and \<^verbatim>\<open>u8\<close> are
  words, with \<^verbatim>\<open>saturating_add\<close> and its relatives written out; lengths are natural numbers, as
  the allocator bounds them before \<^verbatim>\<open>usize\<close> wraps. A method on \<^verbatim>\<open>&mut self\<close> or behind a lock is a function from
  the state to its result and the state it leaves, also where it fails; as the in-memory stores hold
  one lock during an operation, an operation is one step and concurrency is the interleaving of steps
  (the purge of the registry, which takes the lock twice, is two; uninstalling a plugin, which takes one
  four times, is modelled as the run that is not interrupted). A panic is a value of its own.
  A \<^verbatim>\<open>HashMap\<close> is a map, and where the code iterates over one the operation takes the order of the
  iteration as an argument, constrained only to list every key once; the properties hold for all orders.

  \<^bold>\<open>Parameters.\<close> What is not in the repository is an argument of the definitions that use it: the
  clock, generated ids and claim tokens, the glob and regular expression crates and the JSON printer
  (record \<^verbatim>\<open>pattern_env\<close>), SHA-256, the text of a cursor token (record \<^verbatim>\<open>cursor_codec\<close>), the decoding of JSON values into typed specs, the delivery handler
  of the relay, the receiver of a broadcast channel, and what other users of a store do between two calls. Where a property needs something of them it
  is a named hypothesis: a digest without collisions on the values at hand, an id that is fresh.

  \<^bold>\<open>Bounds.\<close> Counters that wrap at \<open>2 ^ 64\<close> (epochs, attempts, cursors, versions) wrap in the model; the properties
  that need room below the bound say so (\<^verbatim>\<open>outbox_room\<close> and the like). Recursion is structural
  or has a measure (the walk over the ancestors of a thread and the stack of a cascading deletion:
  the threads not yet visited), with one exception: the walk of the graph validator follows references that a
  store may choose freely, so it has fuel, and the property on its termination shows that the number of
  stored references plus one is always enough, so that the value None never arises with it.

  \<^bold>\<open>Not modelled.\<close> The agent loop, the mailbox service and the HTTP layer are asynchronous orchestration of
  external services around the parts above. The stores over PostgreSQL, SQLite, NATS and files
  are drivers whose transactions happen elsewhere. MCP, A2A, skills, memory, search, media and
  the other extensions call external processes or services. The scoped thread and run store and the default
  methods that the in-memory store overrides are left out. Live channels, logging, metrics and
  serde derives carry no state of the modelled parts. The manifest lists these parts one by one.
\<close>

end
